(* ===== verification/Prelude.thy ===== *)
theory Prelude
  imports
    Main
    "HOL-Library.Word"
    "HOL-Library.Finite_Map"
    "HOL-Library.List_Lexorder"
    "HOL-Library.Char_ord"
    "HOL-Library.Sublist"
begin

text \<open>
  Shared vocabulary of the development: the fixed-width integer types, \<open>std::map\<close> as a
  finite map whose entries are enumerated in key order, the generic lemmas on lists and
  finite maps that the component theories use, and the two interfaces that occur everywhere:
  a codec (an encoder and a fallible decoder that inverts it) and a step system (a step
  relation with an invariant).
  \<open>std::string\<close> is a list of bytes; \<open>List_Lexorder\<close> over \<open>Char_ord\<close> is the byte-wise
  lexicographic order of \<open>std::string::operator<\<close>.
\<close>

section \<open>Types\<close>

type_synonym u64 = "64 word"
type_synonym i64 = "64 word"
type_synonym i32 = "32 word"
type_synonym ('k, 'v) std_map = "('k, 'v) fmap"

section \<open>Collections of facts\<close>

named_theorems codec_simps \<open>equations that run a decoder on encoder output\<close>
named_theorems fm_simps \<open>lookups in maps built by successive assignments\<close>
named_theorems wf_intros \<open>preservation lemmas of component invariants\<close>

section \<open>Ordered maps\<close>

text \<open>
  The entries of a \<open>std::map\<close> in iteration order, and \<open>lower_bound\<close>/\<open>upper_bound\<close> as the
  suffix of the entries from the iterator that the call returns.
\<close>

definition entries :: "('k::linorder, 'v) std_map \<Rightarrow> ('k \<times> 'v) list" where
  "entries m = sorted_list_of_fmap m"

definition lower_bound :: "('k::linorder, 'v) std_map \<Rightarrow> 'k \<Rightarrow> ('k \<times> 'v) list" where
  "lower_bound m k = dropWhile (\<lambda>e. fst e < k) (entries m)"

definition before_upper_bound :: "('k::linorder, 'v) std_map \<Rightarrow> 'k \<Rightarrow> ('k \<times> 'v) list" where
  "before_upper_bound m k = takeWhile (\<lambda>e. fst e \<le> k) (entries m)"

definition find_or :: "('k, 'v) std_map \<Rightarrow> 'k \<Rightarrow> 'v \<Rightarrow> 'v" where
  "find_or m k d = (case fmlookup m k of None \<Rightarrow> d | Some v \<Rightarrow> v)"

definition fm_of_list :: "('k \<times> 'v) list \<Rightarrow> ('k, 'v) std_map" where
  "fm_of_list kvs = fold (\<lambda>(k, v) m. fmupd k v m) kvs fmempty"

section \<open>Interfaces shared by the components\<close>

locale codec =
  fixes enc :: "'a \<Rightarrow> 'b"
    and dec :: "'b \<Rightarrow> 'e + 'a"
    and valid :: "'a \<Rightarrow> bool"
  assumes dec_enc: "valid x \<Longrightarrow> dec (enc x) = Inr x"
begin

lemma enc_inj: "valid x \<Longrightarrow> valid y \<Longrightarrow> enc x = enc y \<Longrightarrow> x = y"
  by (metis dec_enc sum.inject(2))

lemma enc_inj_on: "inj_on enc {x. valid x}"
  by (rule inj_onI) (auto intro: enc_inj)

end

locale step_system =
  fixes step :: "'s \<Rightarrow> 's \<Rightarrow> bool"
    and invar :: "'s \<Rightarrow> bool"
  assumes step_invar: "step s t \<Longrightarrow> invar s \<Longrightarrow> invar t"
begin

lemma steps_invar: "step\<^sup>*\<^sup>* s t \<Longrightarrow> invar s \<Longrightarrow> invar t"
  by (induction rule: rtranclp_induct) (auto intro: step_invar)

end

text \<open>A step system with a measure that steps never decrease: what \<open>epoch\<close>s and terms are.\<close>

locale monotone_system = step_system step invar
  for step :: "'s \<Rightarrow> 's \<Rightarrow> bool" and invar :: "'s \<Rightarrow> bool" +
  fixes rank :: "'s \<Rightarrow> 'r::preorder"
  assumes step_rank: "step s t \<Longrightarrow> invar s \<Longrightarrow> rank s \<le> rank t"
begin

lemma steps_rank: "step\<^sup>*\<^sup>* s t \<Longrightarrow> invar s \<Longrightarrow> rank s \<le> rank t"
proof (induction rule: rtranclp_induct)
  case base
  then show ?case by simp
next
  case (step t u)
  then show ?case by (meson steps_invar step_rank order_trans)
qed

end

section \<open>Lemmas on options\<close>

lemma option_eqI: "(\<And>v. x = Some v \<longleftrightarrow> y = Some v) \<Longrightarrow> x = y"
  by (cases x; cases y) auto

section \<open>Lemmas on words\<close>

lemma unat_Suc_less:
  assumes "x < (y :: 'a::len word)"
  shows "unat (x + 1) = Suc (unat x)"
proof -
  have "unat y < 2 ^ LENGTH('a)"
    by (rule unsigned_less)
  then have "Suc (unat x) < 2 ^ LENGTH('a)"
    using assms unfolding word_less_nat_alt by linarith
  then show ?thesis by (simp add: unat_word_ariths)
qed

lemma unat_Suc_bound: "Suc (unat x) < 2 ^ LENGTH('a) \<Longrightarrow> unat ((x :: 'a::len word) + 1) = Suc (unat x)"
  by (simp add: unat_word_ariths)

lemma unat_minus_one_pos: "(x :: 'a::len word) \<noteq> 0 \<Longrightarrow> unat (x - 1) = unat x - 1"
  by (simp add: unat_minus_one)

lemma word_less_succ: "(x :: 'a::len word) \<noteq> - 1 \<Longrightarrow> x < x + 1"
proof -
  assume "x \<noteq> - 1"
  then have "x < - 1" using word_n1_ge [of x] by (simp add: order_less_le)
  then show ?thesis by (simp add: word_less_nat_alt unat_Suc_less)
qed

section \<open>Lemmas on finite maps and their entries\<close>

lemma map_of_entries [simp]: "map_of (entries m) = fmlookup m"
  by (simp add: entries_def)

lemma map_fst_entries: "map fst (entries m) = sorted_list_of_set (fset (fmdom m))"
  by (simp add: entries_def sorted_list_of_fmap_def comp_def sorted_list_of_fset.rep_eq)

lemma sorted_entries [simp]: "sorted (map fst (entries m))"
  by (simp add: map_fst_entries)

lemma distinct_entries [simp]: "distinct (map fst (entries m))"
  by (simp add: map_fst_entries)

lemma sorted_wrt_entries: "sorted_wrt (<) (map fst (entries m))"
  by (simp add: strict_sorted_iff)

lemma set_entries: "(k, v) \<in> set (entries m) \<longleftrightarrow> fmlookup m k = Some v"
  by (metis distinct_entries map_of_eq_Some_iff map_of_entries)

lemma fst_set_entries: "fst ` set (entries m) = fset (fmdom m)"
  using map_fst_entries [of m] by (metis finite_fset list.set_map set_sorted_list_of_set)

lemma length_entries: "length (entries m) = fcard (fmdom m)"
  by (metis fcard.rep_eq length_map map_fst_entries sorted_list_of_set.length_sorted_key_list_of_set)

lemma entries_empty [simp]: "entries fmempty = []"
  by (simp add: entries_def sorted_list_of_fmap_def sorted_list_of_fset.rep_eq)

lemma entries_eqI:
  assumes "sorted_wrt (<) (map fst kvs)" and "\<And>k. map_of kvs k = fmlookup m k"
  shows "entries m = kvs"
proof -
  have d: "distinct (map fst kvs)"
    using assms(1) by (simp add: strict_sorted_iff)
  have "map_of kvs = map_of (entries m)"
    using assms(2) by (simp add: fun_eq_iff)
  with d have eq: "set (entries m) = set kvs"
    by (metis distinct_entries map_of_inject_set)
  show ?thesis
  proof (rule map_sorted_distinct_set_unique [of fst])
    show "inj_on fst (set (entries m) \<union> set kvs)"
      using d eq by (simp add: distinct_map)
    show "sorted (map fst kvs)"
      using assms(1) by (simp add: strict_sorted_iff)
  qed (use d eq in simp_all)
qed

lemma entries_singleton [simp]: "entries (fmupd k v fmempty) = [(k, v)]"
  by (rule entries_eqI) auto

lemma entries_fmfilter: "entries (fmfilter P m) = filter (\<lambda>kv. P (fst kv)) (entries m)"
proof (rule entries_eqI)
  have "sorted_wrt (\<lambda>x y. fst x < fst y) (entries m)"
    using sorted_wrt_entries [of m] by (simp add: sorted_wrt_map)
  then show "sorted_wrt (<) (map fst (filter (\<lambda>kv. P (fst kv)) (entries m)))"
    by (simp add: sorted_wrt_map sorted_wrt_filter)
  have "map_of (filter (\<lambda>kv. P (fst kv)) kvs) k = (if P k then map_of kvs k else None)"
    for kvs :: "('a \<times> 'b) list" and k
    by (induction kvs) auto
  then show "map_of (filter (\<lambda>kv. P (fst kv)) (entries m)) k = fmlookup (fmfilter P m) k" for k
    by simp
qed

lemma takeWhile_sorted_filter:
  assumes "sorted_wrt (\<lambda>x y. P y \<longrightarrow> P x) xs"
  shows "takeWhile P xs = filter P xs"
  using assms by (induction xs) (auto simp: filter_empty_conv)

lemma dropWhile_sorted_filter:
  assumes "sorted_wrt (\<lambda>x y. P y \<longrightarrow> P x) xs"
  shows "dropWhile P xs = filter (\<lambda>x. \<not> P x) xs"
  using assms by (induction xs) (auto simp: filter_id_conv)

lemma sorted_entries_wrt:
  "sorted_wrt (\<lambda>x y. fst x \<le> fst y) (entries (m :: ('k::linorder, 'v) std_map))"
  using sorted_entries [of m] by (simp add: sorted_map)

lemma lower_bound_filter: "lower_bound m k = filter (\<lambda>e. k \<le> fst e) (entries m)"
proof -
  have "sorted_wrt (\<lambda>x y. fst y < k \<longrightarrow> fst x < k) (entries m)"
    using sorted_entries_wrt [of m] by (rule sorted_wrt_mono_rel [rotated]) auto
  then show ?thesis
    by (simp add: lower_bound_def dropWhile_sorted_filter not_less)
qed

lemma before_upper_bound_filter: "before_upper_bound m k = filter (\<lambda>e. fst e \<le> k) (entries m)"
proof -
  have "sorted_wrt (\<lambda>x y. fst y \<le> k \<longrightarrow> fst x \<le> k) (entries m)"
    using sorted_entries_wrt [of m] by (rule sorted_wrt_mono_rel [rotated]) auto
  then show ?thesis
    by (simp add: before_upper_bound_def takeWhile_sorted_filter)
qed

lemma map_of_rev_distinct:
  assumes "distinct (map fst kvs)"
  shows "map_of (rev kvs) = map_of kvs"
  using assms by (simp add: map_of_inject_set rev_map [symmetric])

lemma fmlookup_fold_fmupd:
  "fmlookup (fold (\<lambda>(k, v) m. fmupd k v m) kvs m0) k =
     (case map_of (rev kvs) k of None \<Rightarrow> fmlookup m0 k | Some v \<Rightarrow> Some v)"
  by (induction kvs arbitrary: m0)
     (auto simp: map_add_def split: option.splits prod.splits if_splits)

lemma fm_of_entries [simp]: "fm_of_list (entries m) = m"
proof (rule fmap_ext)
  fix k
  show "fmlookup (fm_of_list (entries m)) k = fmlookup m k"
    by (simp add: fm_of_list_def fmlookup_fold_fmupd map_of_rev_distinct split: option.splits)
qed

end
