(* ===== verification/Cpp_Text.thy ===== *)
theory Cpp_Text
  imports Prelude
begin

text \<open>
  The parts of the C++ standard library's text handling that the sources rely on:
  \<open>std::to_string\<close>, \<open>std::stoull\<close>/\<open>std::stoi\<close>/\<open>std::stoll\<close> (where \<open>None\<close> is a thrown
  exception), \<open>std::getline\<close>, and formatted extraction \<open>operator>>\<close> from an input stream.
  An input stream is the text that is left, or \<open>None\<close> once \<open>failbit\<close> is set; extraction
  from a failed stream leaves its target at the initial value the sources give it.
  The lemmas say that printing and then scanning gives the number back.
\<close>

section \<open>Characters and decimal numerals\<close>

definition isspace :: "char \<Rightarrow> bool" where
  "isspace c \<longleftrightarrow> of_char c = (32::nat) \<or> (9 \<le> (of_char c :: nat) \<and> of_char c \<le> (13::nat))"

definition is_digit :: "char \<Rightarrow> bool" where
  "is_digit c \<longleftrightarrow> 48 \<le> (of_char c :: nat) \<and> of_char c \<le> (57::nat)"

definition digit_char :: "nat \<Rightarrow> char" where
  "digit_char d = char_of (48 + d)"

fun show_nat :: "nat \<Rightarrow> string" where
  "show_nat n = (if n < 10 then [digit_char n] else show_nat (n div 10) @ [digit_char (n mod 10)])"

definition show_int :: "int \<Rightarrow> string" where
  "show_int i = (if i < 0 then CHR ''-'' # show_nat (nat (- i)) else show_nat (nat i))"

definition to_string :: "'a::len word \<Rightarrow> string" where
  "to_string w = show_nat (unat w)"

definition to_string_signed :: "'a::len word \<Rightarrow> string" where
  "to_string_signed w = show_int (sint w)"

fun scan_digits :: "nat \<Rightarrow> string \<Rightarrow> nat \<times> string" where
  "scan_digits acc [] = (acc, [])"
| "scan_digits acc (c # cs) =
     (if is_digit c then scan_digits (10 * acc + (of_char c - 48)) cs else (acc, c # cs))"

fun scan_sign :: "string \<Rightarrow> bool \<times> string" where
  "scan_sign [] = (False, [])"
| "scan_sign (c # cs) =
     (if c = CHR ''-'' then (True, cs) else if c = CHR ''+'' then (False, cs) else (False, c # cs))"

text \<open>The common part of \<open>strtoull\<close> and \<open>num_get\<close>: sign, magnitude and the rest of the text.\<close>

definition scan_number :: "string \<Rightarrow> (bool \<times> nat \<times> string) option" where
  "scan_number s =
     (let (neg, s1) = scan_sign (dropWhile isspace s)
      in case s1 of
           [] \<Rightarrow> None
         | c # _ \<Rightarrow>
             if is_digit c then (let (n, rest) = scan_digits 0 s1 in Some (neg, n, rest)) else None)"

definition stoull :: "string \<Rightarrow> u64 option" where
  "stoull s =
     (case scan_number s of
        None \<Rightarrow> None
      | Some (neg, n, _) \<Rightarrow>
          if n < 2 ^ 64 then Some (if neg then - of_nat n else of_nat n) else None)"

definition signed_value :: "bool \<Rightarrow> nat \<Rightarrow> int" where
  "signed_value neg n = (if neg then - int n else int n)"

definition stoi :: "string \<Rightarrow> i32 option" where
  "stoi s =
     (case scan_number s of
        None \<Rightarrow> None
      | Some (neg, n, _) \<Rightarrow>
          if - (2 ^ 31) \<le> signed_value neg n \<and> signed_value neg n < 2 ^ 31
          then Some (word_of_int (signed_value neg n)) else None)"

definition stoll :: "string \<Rightarrow> i64 option" where
  "stoll s =
     (case scan_number s of
        None \<Rightarrow> None
      | Some (neg, n, _) \<Rightarrow>
          if - (2 ^ 63) \<le> signed_value neg n \<and> signed_value neg n < 2 ^ 63
          then Some (word_of_int (signed_value neg n)) else None)"

section \<open>Lines and formatted extraction\<close>

function getlines :: "char \<Rightarrow> string \<Rightarrow> string list" where
  "getlines d s =
     (if s = [] then []
      else takeWhile (\<lambda>c. c \<noteq> d) s # getlines d (drop 1 (dropWhile (\<lambda>c. c \<noteq> d) s)))"
  by pat_completeness auto
termination
  by (relation "measure (\<lambda>(d, s). length s)")
     (auto simp: neq_Nil_conv less_Suc_eq_le intro: le_trans [OF diff_le_self length_dropWhile_le])

abbreviation NL :: char where "NL \<equiv> CHR 0x0A"
abbreviation SP :: char where "SP \<equiv> CHR '' ''"

type_synonym istream = "string option"

fun extract_string :: "istream \<Rightarrow> string \<times> istream" where
  "extract_string None = ([], None)"
| "extract_string (Some s) =
     (let t = dropWhile isspace s
      in if t = [] then ([], None)
         else (takeWhile (\<lambda>c. \<not> isspace c) t, Some (dropWhile (\<lambda>c. \<not> isspace c) t)))"

fun extract_char :: "istream \<Rightarrow> char \<times> istream" where
  "extract_char None = (CHR 0x00, None)"
| "extract_char (Some s) =
     (case dropWhile isspace s of [] \<Rightarrow> (CHR 0x00, None) | c # cs \<Rightarrow> (c, Some cs))"

fun extract_u64 :: "istream \<Rightarrow> u64 \<times> istream" where
  "extract_u64 None = (0, None)"
| "extract_u64 (Some s) =
     (case scan_number s of
        None \<Rightarrow> (0, None)
      | Some (neg, n, rest) \<Rightarrow>
          if n < 2 ^ 64 then (if neg then - of_nat n else of_nat n, Some rest) else (- 1, None))"

fun extract_i32 :: "istream \<Rightarrow> i32 \<times> istream" where
  "extract_i32 None = (0, None)"
| "extract_i32 (Some s) =
     (case scan_number s of
        None \<Rightarrow> (0, None)
      | Some (neg, n, rest) \<Rightarrow>
          if signed_value neg n < - (2 ^ 31) then (word_of_int (- (2 ^ 31)), None)
          else if 2 ^ 31 \<le> signed_value neg n then (word_of_int (2 ^ 31 - 1), None)
          else (word_of_int (signed_value neg n), Some rest))"

declare show_nat.simps [simp del] getlines.simps [simp del]

section \<open>Printing and scanning numbers\<close>

lemma of_char_digit_char [simp]: "d < 10 \<Longrightarrow> of_char (digit_char d) = (48 + d :: nat)"
  by (simp add: digit_char_def)

lemma is_digit_digit_char [simp]: "d < 10 \<Longrightarrow> is_digit (digit_char d)"
  by (simp add: is_digit_def)

lemma is_digit_not_space: "is_digit c \<Longrightarrow> \<not> isspace c"
  by (auto simp: is_digit_def isspace_def)

lemma is_digit_simps [simp]: "\<not> is_digit (CHR ''-'')" "\<not> is_digit (CHR ''+'')"
    "\<not> is_digit (CHR '' '')" "\<not> is_digit (CHR ''.'')" "\<not> is_digit (CHR 0x0A)" "\<not> is_digit (CHR ''/'')"
  by (simp_all add: is_digit_def)

lemma isspace_simps [simp]: "isspace (CHR '' '')" "isspace (CHR 0x0A)" "\<not> isspace (CHR ''-'')"
  by (simp_all add: isspace_def)

lemma show_nat_digits: "c \<in> set (show_nat n) \<Longrightarrow> is_digit c"
proof (induction n rule: show_nat.induct)
  case (1 n)
  then show ?case
    by (cases "n < 10") (auto simp: show_nat.simps [of n])
qed

lemma show_nat_nonempty [simp]: "show_nat n \<noteq> []"
  by (subst show_nat.simps) simp

lemma scan_digits_append:
  "\<forall>c \<in> set ds. is_digit c \<Longrightarrow>
     scan_digits acc (ds @ rest) = scan_digits (fst (scan_digits acc ds)) rest"
  by (induction ds arbitrary: acc) auto

lemma scan_show_nat_aux: "fst (scan_digits 0 (show_nat n)) = n"
proof (induction n rule: show_nat.induct)
  case (1 n)
  show ?case
  proof (cases "n < 10")
    case True
    then show ?thesis by (simp add: show_nat.simps [of n])
  next
    case False
    have "scan_digits 0 (show_nat (n div 10) @ [digit_char (n mod 10)]) =
        scan_digits (n div 10) [digit_char (n mod 10)]"
      using 1 False by (subst scan_digits_append) (auto dest: show_nat_digits)
    with False show ?thesis by (simp add: show_nat.simps [of n])
  qed
qed

lemma scan_show_nat:
  assumes "rest = [] \<or> \<not> is_digit (hd rest)"
  shows "scan_digits 0 (show_nat n @ rest) = (n, rest)"
proof -
  have "scan_digits 0 (show_nat n @ rest) = scan_digits n rest"
    by (subst scan_digits_append) (auto dest: show_nat_digits simp: scan_show_nat_aux)
  with assms show ?thesis by (cases rest) auto
qed

lemma show_nat_inj [simp]: "show_nat m = show_nat n \<longleftrightarrow> m = n"
  by (metis scan_show_nat_aux)

lemma show_nat_Cons:
  obtains c cs where "show_nat n = c # cs" and "is_digit c"
  by (metis list.set_intros(1) neq_Nil_conv show_nat_digits show_nat_nonempty)

lemma scan_number_show_nat [codec_simps]:
  assumes "rest = [] \<or> \<not> is_digit (hd rest)"
  shows "scan_number (show_nat n @ rest) = Some (False, n, rest)"
proof -
  obtain c cs where c: "show_nat n = c # cs" and d: "is_digit c"
    by (rule show_nat_Cons)
  then have "scan_sign (dropWhile isspace (show_nat n @ rest)) = (False, show_nat n @ rest)"
    by (auto simp: is_digit_not_space)
  with c d scan_show_nat [OF assms, of n] show ?thesis
    by (simp add: scan_number_def)
qed

lemma scan_number_neg_show_nat:
  assumes "rest = [] \<or> \<not> is_digit (hd rest)"
  shows "scan_number (CHR ''-'' # show_nat n @ rest) = Some (True, n, rest)"
proof -
  obtain c cs where "show_nat n = c # cs" and "is_digit c"
    by (rule show_nat_Cons)
  with scan_show_nat [OF assms, of n] show ?thesis
    by (simp add: scan_number_def)
qed

lemma scan_number_space [codec_simps]: "scan_number (SP # s) = scan_number s"
  by (simp add: scan_number_def)

lemma stoull_show_nat [codec_simps]: "n < 2 ^ 64 \<Longrightarrow> stoull (show_nat n) = Some (of_nat n)"
  using scan_number_show_nat [of "[]" n] by (simp add: stoull_def)

lemma stoull_to_string [codec_simps]: "stoull (to_string (w :: u64)) = Some w"
  using unsigned_less [of w, where 'a = nat] by (simp add: to_string_def stoull_show_nat)

lemma scan_number_show_int:
  assumes "rest = [] \<or> \<not> is_digit (hd rest)"
  obtains neg n where "scan_number (show_int i @ rest) = Some (neg, n, rest)"
    and "signed_value neg n = i"
proof (cases "i < 0")
  case True
  with scan_number_neg_show_nat [OF assms, of "nat (- i)"] show ?thesis
    by (intro that [of True "nat (- i)"]) (simp_all add: show_int_def signed_value_def)
next
  case False
  with scan_number_show_nat [OF assms, of "nat i"] show ?thesis
    by (intro that [of False "nat i"]) (simp_all add: show_int_def signed_value_def)
qed

lemma sint_range32: "- (2 ^ 31) \<le> sint (w :: i32)" "sint (w :: i32) < 2 ^ 31"
  using sint_greater_eq [of w] sint_less [of w] by simp_all

lemma sint_range64: "- (2 ^ 63) \<le> sint (w :: i64)" "sint (w :: i64) < 2 ^ 63"
  using sint_greater_eq [of w] sint_less [of w] by simp_all

lemma stoi_to_string_signed [codec_simps]: "stoi (to_string_signed (w :: i32)) = Some w"
proof -
  obtain neg n where "scan_number (show_int (sint w) @ []) = Some (neg, n, [])"
    and "signed_value neg n = sint w"
    by (rule scan_number_show_int [of "[]"]) simp
  then show ?thesis
    using sint_range32 [of w] by (simp add: stoi_def to_string_signed_def)
qed

lemma stoll_to_string_signed [codec_simps]: "stoll (to_string_signed (w :: i64)) = Some w"
proof -
  obtain neg n where "scan_number (show_int (sint w) @ []) = Some (neg, n, [])"
    and "signed_value neg n = sint w"
    by (rule scan_number_show_int [of "[]"]) simp
  then show ?thesis
    using sint_range64 [of w] by (simp add: stoll_def to_string_signed_def)
qed

text \<open>
  \<open>stoull\<close> accepts a minus sign and negates modulo \<open>2\<^sup>64\<close>, so a negative 64-bit time
  stamp survives being printed as signed and read back as unsigned.
\<close>

lemma stoull_to_string_signed [codec_simps]: "stoull (to_string_signed (w :: i64)) = Some w"
proof -
  obtain neg n where s: "scan_number (show_int (sint w) @ []) = Some (neg, n, [])"
    and v: "signed_value neg n = sint w"
    by (rule scan_number_show_int [of "[]"]) simp
  have "n < 2 ^ 64"
    using v sint_range64 [of w] by (cases neg) (simp_all add: signed_value_def)
  moreover have "(if neg then - of_nat n else of_nat n) = w"
    using arg_cong [OF v, of "word_of_int :: int \<Rightarrow> u64"]
    by (cases neg) (simp_all add: signed_value_def)
  ultimately show ?thesis
    using s by (simp add: stoull_def to_string_signed_def)
qed

lemma to_string_inj [simp]: "to_string v = to_string w \<longleftrightarrow> v = w"
  by (simp add: to_string_def word_unat_eq_iff)

lemma to_string_digits: "c \<in> set (to_string w) \<Longrightarrow> is_digit c"
  unfolding to_string_def by (rule show_nat_digits)

lemma to_string_nonempty [simp]: "to_string w \<noteq> []"
  by (simp add: to_string_def)

section \<open>Extraction from printed text\<close>

lemma getlines_nil [simp]: "getlines d [] = []"
  by (simp add: getlines.simps)

lemma split_at_first:
  "d \<notin> set l \<Longrightarrow> takeWhile (\<lambda>c. c \<noteq> d) (l @ d # rest) = l"
  "d \<notin> set l \<Longrightarrow> dropWhile (\<lambda>c. c \<noteq> d) (l @ d # rest) = d # rest"
  by (induction l) auto

lemma getlines_line [codec_simps]:
  "d \<notin> set l \<Longrightarrow> getlines d (l @ d # rest) = l # getlines d rest"
  by (simp add: getlines.simps [of d "l @ d # rest"] split_at_first)

lemma extract_u64_show_nat [codec_simps]:
  "n < 2 ^ 64 \<Longrightarrow> rest = [] \<or> \<not> is_digit (hd rest) \<Longrightarrow>
     extract_u64 (Some (show_nat n @ rest)) = (of_nat n, Some rest)"
  by (simp add: scan_number_show_nat)

lemma extract_u64_to_string [codec_simps]:
  "rest = [] \<or> \<not> is_digit (hd rest) \<Longrightarrow>
     extract_u64 (Some (to_string (w :: u64) @ rest)) = (w, Some rest)"
  using unsigned_less [of w, where 'a = nat] by (simp add: to_string_def scan_number_show_nat)

lemma extract_u64_space [codec_simps]: "extract_u64 (Some (SP # s)) = extract_u64 (Some s)"
  by (simp add: scan_number_space)

lemma extract_i32_space [codec_simps]: "extract_i32 (Some (SP # s)) = extract_i32 (Some s)"
  by (simp add: scan_number_space)

lemma extract_string_space [codec_simps]:
  "extract_string (Some (SP # s)) = extract_string (Some s)"
  by simp

lemma extract_string_token [codec_simps]:
  assumes "t \<noteq> []" and "\<forall>c \<in> set t. \<not> isspace c" and "rest = [] \<or> isspace (hd rest)"
  shows "extract_string (Some (t @ rest)) = (t, Some rest)"
proof -
  have d: "dropWhile isspace (t @ rest) = t @ rest"
    using assms(1,2) by (cases t) auto
  have "takeWhile (\<lambda>c. \<not> isspace c) (t @ rest) = t"
    and "dropWhile (\<lambda>c. \<not> isspace c) (t @ rest) = rest"
    using assms(2,3) by (auto simp: takeWhile_append dropWhile_append takeWhile_eq_Nil_iff
        dropWhile_eq_self_iff)
  with d assms(1) show ?thesis by simp
qed

lemma extract_string_last [codec_simps]:
  "t \<noteq> [] \<Longrightarrow> \<forall>c \<in> set t. \<not> isspace c \<Longrightarrow> extract_string (Some t) = (t, Some [])"
  using extract_string_token [of t "[]"] by simp

lemma extract_string_end [codec_simps]: "extract_string (Some []) = ([], None)"
  by simp

end
