(* ===== verification/Common_Types.thy ===== *)
theory Common_Types
  imports Cpp_Text
begin

text \<open>
  The shared data types: \<open>ErrorCode\<close> and \<open>Status\<close> (error_code.h, status.h) and the cluster
  metadata of types.h. Field names carry a short prefix per structure because records share
  the names \<open>region_id\<close>, \<open>store_id\<close> and \<open>term\<close> in the sources. A C++ function that returns
  a \<open>Status\<close> and writes its result through a pointer returns \<open>Status + 'a\<close> here: \<open>Inl\<close> the
  error status, \<open>Inr\<close> the value; one that changes an object returns the new object beside
  the status, on error paths too.
\<close>

section \<open>Error codes and status\<close>

datatype ErrorCode =
    kOk | kInvalidArgument | kKeyNotFound | kCasFailed | kNotLeader | kRegionNotFound
  | kStaleEpoch | kEpochNotMatch | kStoreNotFound | kPdUnavailable | kRaftNotReady
  | kTermOutdated | kLogConflict | kSnapshotRequired | kRpcTimeout | kRpcError
  | kStorageError | kConfigChangeInProgress | kIoError | kInternal

fun ErrorCodeName :: "ErrorCode \<Rightarrow> string" where
  "ErrorCodeName kOk = ''OK''"
| "ErrorCodeName kInvalidArgument = ''INVALID_ARGUMENT''"
| "ErrorCodeName kKeyNotFound = ''KEY_NOT_FOUND''"
| "ErrorCodeName kCasFailed = ''CAS_FAILED''"
| "ErrorCodeName kNotLeader = ''NOT_LEADER''"
| "ErrorCodeName kRegionNotFound = ''REGION_NOT_FOUND''"
| "ErrorCodeName kStaleEpoch = ''STALE_EPOCH''"
| "ErrorCodeName kEpochNotMatch = ''EPOCH_NOT_MATCH''"
| "ErrorCodeName kStoreNotFound = ''STORE_NOT_FOUND''"
| "ErrorCodeName kPdUnavailable = ''PD_UNAVAILABLE''"
| "ErrorCodeName kRaftNotReady = ''RAFT_NOT_READY''"
| "ErrorCodeName kTermOutdated = ''TERM_OUTDATED''"
| "ErrorCodeName kLogConflict = ''LOG_CONFLICT''"
| "ErrorCodeName kSnapshotRequired = ''SNAPSHOT_REQUIRED''"
| "ErrorCodeName kRpcTimeout = ''RPC_TIMEOUT''"
| "ErrorCodeName kRpcError = ''RPC_ERROR''"
| "ErrorCodeName kStorageError = ''STORAGE_ERROR''"
| "ErrorCodeName kConfigChangeInProgress = ''CONFIG_CHANGE_IN_PROGRESS''"
| "ErrorCodeName kIoError = ''IO_ERROR''"
| "ErrorCodeName kInternal = ''INTERNAL''"

record Status =
  st_code :: ErrorCode
  st_message :: string

definition mk_status :: "ErrorCode \<Rightarrow> string \<Rightarrow> Status" where
  "mk_status c m = \<lparr>st_code = c, st_message = m\<rparr>"

definition Status_Ok :: Status where
  "Status_Ok = mk_status kOk ''''"

definition InvalidArgument :: "string \<Rightarrow> Status" where
  "InvalidArgument m = mk_status kInvalidArgument m"

definition KeyNotFound :: "string \<Rightarrow> Status" where
  "KeyNotFound m = mk_status kKeyNotFound m"

definition IoError :: "string \<Rightarrow> Status" where
  "IoError m = mk_status kIoError m"

definition Internal :: "string \<Rightarrow> Status" where
  "Internal m = mk_status kInternal m"

definition ok :: "Status \<Rightarrow> bool" where
  "ok s \<longleftrightarrow> st_code s = kOk"

definition status_ToString :: "Status \<Rightarrow> string" where
  "status_ToString s =
     (if ok s then ErrorCodeName (st_code s) else ErrorCodeName (st_code s) @ '': '' @ st_message s)"

section \<open>Cluster metadata\<close>

datatype PeerRole = kVoter | kLearner

datatype Consistency = kLinearizable | kEventual

record Endpoint =
  ep_host :: string
  ep_port :: i32

record StoreInfo =
  si_store_id :: u64
  si_raft_endpoint :: Endpoint
  si_client_endpoint :: Endpoint
  si_state :: string
  si_labels :: "(string, string) std_map"
  si_last_heartbeat_ms :: i64

record RegionEpoch =
  re_conf_ver :: u64
  re_version :: u64

record Peer =
  pr_peer_id :: u64
  pr_store_id :: u64
  pr_role :: PeerRole

record RegionInfo =
  ri_region_id :: u64
  ri_start_key :: string
  ri_end_key :: string
  ri_epoch :: RegionEpoch
  ri_peers :: "Peer list"
  ri_leader_peer_id :: u64

definition Endpoint_default :: Endpoint where
  "Endpoint_default = \<lparr>ep_host = ''127.0.0.1'', ep_port = 0\<rparr>"

definition Endpoint_ToString :: "Endpoint \<Rightarrow> string" where
  "Endpoint_ToString e = ep_host e @ '':'' @ to_string_signed (ep_port e)"

definition StoreInfo_default :: StoreInfo where
  "StoreInfo_default =
     \<lparr>si_store_id = 0, si_raft_endpoint = Endpoint_default, si_client_endpoint = Endpoint_default,
      si_state = ''Up'', si_labels = fmempty, si_last_heartbeat_ms = 0\<rparr>"

definition Peer_default :: Peer where
  "Peer_default = \<lparr>pr_peer_id = 0, pr_store_id = 0, pr_role = kVoter\<rparr>"

definition RegionInfo_default :: RegionInfo where
  "RegionInfo_default =
     \<lparr>ri_region_id = 0, ri_start_key = '''', ri_end_key = '''',
      ri_epoch = \<lparr>re_conf_ver = 1, re_version = 1\<rparr>, ri_peers = [], ri_leader_peer_id = 0\<rparr>"

section \<open>Lemmas\<close>

lemma ok_simps [simp]:
  "ok Status_Ok" "\<not> ok (InvalidArgument m)" "\<not> ok (KeyNotFound m)" "\<not> ok (IoError m)"
  "\<not> ok (Internal m)" "ok (mk_status c m) \<longleftrightarrow> c = kOk"
  by (simp_all add: ok_def Status_Ok_def InvalidArgument_def KeyNotFound_def IoError_def
      Internal_def mk_status_def)

lemma st_code_simps [simp]:
  "st_code (mk_status c m) = c" "st_code Status_Ok = kOk" "st_code (InvalidArgument m) = kInvalidArgument"
  "st_code (KeyNotFound m) = kKeyNotFound" "st_code (IoError m) = kIoError"
  "st_code (Internal m) = kInternal"
  by (simp_all add: mk_status_def Status_Ok_def InvalidArgument_def KeyNotFound_def IoError_def
      Internal_def)

lemma ErrorCodeName_inj: "ErrorCodeName a = ErrorCodeName b \<Longrightarrow> a = b"
  by (cases a; cases b) simp_all

end
