(* ===== verification/Kv_Engine.thy ===== *)
theory Kv_Engine
  imports Common_Types
begin

text \<open>
  The key-value interface of kv_engine.h. \<open>KvEngine\<close> is an abstract class, so a client holds
  a table of the virtual functions (\<open>kv_vtable\<close>) and an engine object. The locale
  \<open>kv_engine\<close> is the contract the clients (Raft storage, snapshots, command application)
  rely on: what each operation does to the abstract contents while the disk is healthy.
\<close>

section \<open>Mutations and the virtual function table\<close>

datatype KvMutationType = kPut | kDelete

record KvMutation =
  mu_type :: KvMutationType
  mu_key :: string
  mu_value :: string

definition mk_put :: "string \<Rightarrow> string \<Rightarrow> KvMutation" where
  "mk_put k v = \<lparr>mu_type = kPut, mu_key = k, mu_value = v\<rparr>"

definition mk_delete :: "string \<Rightarrow> KvMutation" where
  "mk_delete k = \<lparr>mu_type = kDelete, mu_key = k, mu_value = ''''\<rparr>"

type_synonym kv_map = "(string, string) std_map"

record 'e kv_vtable =
  vt_put :: "string \<Rightarrow> string \<Rightarrow> 'e \<Rightarrow> Status \<times> 'e"
  vt_delete :: "string \<Rightarrow> 'e \<Rightarrow> Status \<times> 'e"
  vt_get :: "string \<Rightarrow> 'e \<Rightarrow> Status + string"
  vt_write_batch :: "KvMutation list \<Rightarrow> 'e \<Rightarrow> Status \<times> 'e"
  vt_scan_prefix :: "string \<Rightarrow> 'e \<Rightarrow> (string \<times> string) list"
  vt_scan_range :: "string \<Rightarrow> string \<Rightarrow> 'e \<Rightarrow> (string \<times> string) list"

text \<open>The effect of mutations on the contents, in order.\<close>

definition apply_mutation :: "KvMutation \<Rightarrow> kv_map \<Rightarrow> kv_map" where
  "apply_mutation m d =
     (if mu_type m = kPut then fmupd (mu_key m) (mu_value m) d else fmdrop (mu_key m) d)"

definition apply_mutations :: "KvMutation list \<Rightarrow> kv_map \<Rightarrow> kv_map" where
  "apply_mutations ms d = fold apply_mutation ms d"

definition in_range :: "string \<Rightarrow> string \<Rightarrow> string \<Rightarrow> bool" where
  "in_range s e k \<longleftrightarrow> (s = [] \<or> s \<le> k) \<and> (e = [] \<or> k < e)"

section \<open>The contract\<close>

locale kv_engine =
  fixes ops :: "'e kv_vtable"
    and contents :: "'e \<Rightarrow> kv_map"
    and healthy :: "'e \<Rightarrow> bool"
  assumes batch_ok: "healthy e \<Longrightarrow> fst (vt_write_batch ops ms e) = Status_Ok"
    and batch_contents:
      "healthy e \<Longrightarrow> contents (snd (vt_write_batch ops ms e)) = apply_mutations ms (contents e)"
    and batch_healthy: "healthy e \<Longrightarrow> healthy (snd (vt_write_batch ops ms e))"
    and put_batch: "vt_put ops k v e = vt_write_batch ops [mk_put k v] e"
    and delete_batch: "vt_delete ops k e = vt_write_batch ops [mk_delete k] e"
    and get_contents: "vt_get ops k e = (case fmlookup (contents e) k of
          None \<Rightarrow> Inl (KeyNotFound (''key not found: '' @ k)) | Some v \<Rightarrow> Inr v)"
    and scan_prefix_contents:
      "vt_scan_prefix ops p e = filter (\<lambda>kv. prefix p (fst kv)) (entries (contents e))"
    and scan_range_contents:
      "vt_scan_range ops lo hi e = filter (\<lambda>kv. in_range lo hi (fst kv)) (entries (contents e))"
begin

lemma batch_eq:
  assumes "healthy e"
  obtains e' where "vt_write_batch ops ms e = (Status_Ok, e')" and "healthy e'"
    and "contents e' = apply_mutations ms (contents e)"
  using assms batch_ok batch_contents batch_healthy by (metis prod.collapse)

lemma get_after_put:
  "healthy e \<Longrightarrow> vt_get ops k' (snd (vt_put ops k v e)) = (if k' = k then Inr v else vt_get ops k' e)"
  by (simp add: put_batch get_contents batch_contents apply_mutations_def apply_mutation_def
      mk_put_def)

lemma get_after_delete:
  "healthy e \<Longrightarrow> vt_get ops k' (snd (vt_delete ops k e)) =
     (if k' = k then Inl (KeyNotFound (''key not found: '' @ k)) else vt_get ops k' e)"
  by (simp add: delete_batch get_contents batch_contents apply_mutations_def apply_mutation_def
      mk_delete_def)

lemma get_after_batch:
  "healthy e \<Longrightarrow> vt_get ops k (snd (vt_write_batch ops ms e)) =
     (case fmlookup (apply_mutations ms (contents e)) k of
          None \<Rightarrow> Inl (KeyNotFound (''key not found: '' @ k)) | Some v \<Rightarrow> Inr v)"
  by (simp add: get_contents batch_contents)

end

section \<open>Lemmas on mutations\<close>

lemma mutation_sel [simp]:
  "mu_type (mk_put k v) = kPut" "mu_key (mk_put k v) = k" "mu_value (mk_put k v) = v"
  "mu_type (mk_delete k) = kDelete" "mu_key (mk_delete k) = k" "mu_value (mk_delete k) = ''''"
  by (simp_all add: mk_put_def mk_delete_def)

lemma apply_mutations_simps [simp]:
  "apply_mutations [] d = d"
  "apply_mutations (m # ms) d = apply_mutations ms (apply_mutation m d)"
  "apply_mutations (ms @ ns) d = apply_mutations ns (apply_mutations ms d)"
  by (simp_all add: apply_mutations_def)

lemma apply_mutation_simps [simp]:
  "apply_mutation (mk_put k v) d = fmupd k v d"
  "apply_mutation (mk_delete k) d = fmdrop k d"
  by (simp_all add: apply_mutation_def)

text \<open>A batch of puts with distinct keys sets exactly those keys; a batch of deletes drops them.\<close>

lemma apply_puts_lookup:
  "distinct (map fst kvs) \<Longrightarrow>
     fmlookup (apply_mutations (map (\<lambda>(k, v). mk_put k v) kvs) d) k =
       (case map_of kvs k of None \<Rightarrow> fmlookup d k | Some v \<Rightarrow> Some v)"
  by (induction kvs arbitrary: d) (auto split: option.splits dest: weak_map_of_SomeI
      simp: map_of_eq_None_iff image_iff dest: map_of_SomeD)

lemma apply_deletes_lookup:
  "fmlookup (apply_mutations (map mk_delete ks) d) k = (if k \<in> set ks then None else fmlookup d k)"
  by (induction ks arbitrary: d) auto

section \<open>Key order and prefixes\<close>

lemma prefix_imp_le: "prefix p (k :: string) \<Longrightarrow> p \<le> k"
proof (induction p arbitrary: k)
  case Nil
  then show ?case by simp
next
  case (Cons c p)
  then obtain k' where "k = c # k'" and "prefix p k'"
    by (cases k) auto
  with Cons.IH show ?case by simp
qed

text \<open>The keys that share a prefix are contiguous in the key order.\<close>

lemma prefix_contiguous:
  "p \<le> (k :: string) \<Longrightarrow> k \<le> k' \<Longrightarrow> prefix p k' \<Longrightarrow> prefix p k"
proof (induction p arbitrary: k k')
  case Nil
  then show ?case by simp
next
  case (Cons c p)
  obtain s' where k': "k' = c # s'" and p: "prefix p s'"
    using Cons.prems(3) by (cases k') auto
  obtain a s where k: "k = a # s"
    using Cons.prems(1) by (cases k) auto
  have "c \<le> a" and "a \<le> c"
    using Cons.prems(1,2) k k' by auto
  then have "a = c" by simp
  with Cons.prems(1,2) k k' have "p \<le> s" and "s \<le> s'"
    by auto
  with Cons.IH p \<open>a = c\<close> k show ?case by auto
qed

lemma takeWhile_lower_bound_prefix:
  "takeWhile (\<lambda>kv. prefix p (fst kv)) (lower_bound m p) =
     filter (\<lambda>kv. prefix p (fst kv)) (entries (m :: kv_map))"
proof -
  let ?P = "\<lambda>kv :: string \<times> string. prefix p (fst kv)"
  have "sorted_wrt (\<lambda>x y. ?P y \<longrightarrow> ?P x) (filter (\<lambda>e. p \<le> fst e) (entries m))"
    using sorted_wrt_filter [OF sorted_entries_wrt [of m], of "\<lambda>e. p \<le> fst e"]
    by (rule sorted_wrt_mono_rel [rotated]) (auto intro: prefix_contiguous)
  then have "takeWhile ?P (lower_bound m p) = filter ?P (filter (\<lambda>e. p \<le> fst e) (entries m))"
    by (simp add: lower_bound_filter takeWhile_sorted_filter)
  also have "\<dots> = filter ?P (entries m)"
    by (auto simp: prefix_imp_le intro: filter_cong)
  finally show ?thesis .
qed

lemma takeWhile_lower_bound_range:
  "takeWhile (\<lambda>kv. hi = [] \<or> fst kv < hi) (if lo = [] then entries m else lower_bound m lo) =
     filter (\<lambda>kv. in_range lo hi (fst kv)) (entries (m :: kv_map))"
proof -
  let ?P = "\<lambda>kv :: string \<times> string. hi = [] \<or> fst kv < hi"
  let ?Q = "\<lambda>kv :: string \<times> string. lo = [] \<or> lo \<le> fst kv"
  have start: "(if lo = [] then entries m else lower_bound m lo) = filter ?Q (entries m)"
    by (simp add: lower_bound_filter)
  have "sorted_wrt (\<lambda>x y. ?P y \<longrightarrow> ?P x) (filter ?Q (entries m))"
    using sorted_wrt_filter [OF sorted_entries_wrt [of m], of ?Q]
    by (rule sorted_wrt_mono_rel [rotated]) auto
  then show ?thesis
    by (simp add: start takeWhile_sorted_filter in_range_def conj_commute)
qed

end
