(* ===== verification/File_Kv_Engine.thy ===== *)
theory File_Kv_Engine
  imports Kv_Engine
begin

unbundle bit_operations_syntax

text \<open>
  file_kv_engine.cpp: the hexadecimal codec, and the engine that keeps a \<open>std::map\<close> in memory
  and appends every mutation to the text file \<open>kv.log\<close>, which \<open>Open\<close> replays.
  \<open>kv_disk\<close> is the content of that file. \<open>kv_io\<close> is the environment: the outcomes of the
  next file operations, in order, the empty list meaning that all further ones succeed.
  An append may fail at opening the file, may be seen to fail while writing, or may be lost
  when the stream's buffer is flushed by the destructor, after the code has tested the stream.
  The lemmas show the codec's round trip, that the engine meets the contract \<open>kv_engine\<close>,
  and what a restart restores.
\<close>

section \<open>Hexadecimal text\<close>

definition HexValue :: "char \<Rightarrow> int" where
  "HexValue ch =
     (let c = int (of_char ch)
      in if int (of_char (CHR ''0'')) \<le> c \<and> c \<le> int (of_char (CHR ''9'')) then c - int (of_char (CHR ''0''))
         else if int (of_char (CHR ''a'')) \<le> c \<and> c \<le> int (of_char (CHR ''f'')) then c - int (of_char (CHR ''a'')) + 10
         else if int (of_char (CHR ''A'')) \<le> c \<and> c \<le> int (of_char (CHR ''F'')) then c - int (of_char (CHR ''A'')) + 10
         else - 1)"

definition hex_digit :: "nat \<Rightarrow> char" where
  "hex_digit d = (if d < 10 then char_of (48 + d) else char_of (87 + d))"

text \<open>\<open>std::hex\<close>, \<open>std::setw(2)\<close> and \<open>std::setfill('0')\<close> on a value below 256.\<close>

definition hex_byte :: "char \<Rightarrow> string" where
  "hex_byte ch = [hex_digit (of_char ch div 16), hex_digit (of_char ch mod 16)]"

definition HexEncode :: "string \<Rightarrow> string" where
  "HexEncode input = concat (map hex_byte input)"

fun hex_decode_loop :: "string \<Rightarrow> Status + string" where
  "hex_decode_loop (a # b # rest) =
     (let hi = HexValue a; lo = HexValue b
      in if hi < 0 \<or> lo < 0 then Inl (InvalidArgument ''hex input contains invalid character'')
         else case hex_decode_loop rest of
                Inl e \<Rightarrow> Inl e
              | Inr decoded \<Rightarrow> Inr (char_of (push_bit 4 hi OR lo) # decoded))"
| "hex_decode_loop _ = Inr []"

definition HexDecode :: "string \<Rightarrow> Status + string" where
  "HexDecode input =
     (if length input mod 2 \<noteq> 0 then Inl (InvalidArgument ''hex input has odd length'')
      else hex_decode_loop input)"

section \<open>The engine\<close>

datatype io_event =
    IoOk
  | IoOpenFail string
  | IoWriteFail nat
  | IoFlushFail nat

record FileKvEngine =
  kv_directory :: string
  kv_log_path :: string
  kv_disk :: string
  kv_io :: "io_event list"
  kv_data :: kv_map

definition FileKvEngine_new :: "string \<Rightarrow> io_event list \<Rightarrow> FileKvEngine" where
  "FileKvEngine_new disk io =
     \<lparr>kv_directory = '''', kv_log_path = '''', kv_disk = disk, kv_io = io, kv_data = fmempty\<rparr>"

definition next_io :: "FileKvEngine \<Rightarrow> io_event \<times> FileKvEngine" where
  "next_io e = (case kv_io e of [] \<Rightarrow> (IoOk, e) | ev # evs \<Rightarrow> (ev, e\<lparr>kv_io := evs\<rparr>))"

definition path_join :: "string \<Rightarrow> string \<Rightarrow> string" where
  "path_join d f = (if d = [] \<or> last d = CHR ''/'' then d @ f else d @ ''/'' @ f)"

definition value_field :: "string \<Rightarrow> string" where
  "value_field v = (if v = [] then ''-'' else HexEncode v)"

definition log_record :: "KvMutation \<Rightarrow> string" where
  "log_record m =
     (if mu_type m = kPut then CHR ''P'' else CHR ''D'') # SP #
     HexEncode (mu_key m) @ SP # value_field (mu_value m) @ [NL]"

definition AppendMutation :: "KvMutation \<Rightarrow> FileKvEngine \<Rightarrow> Status \<times> FileKvEngine" where
  "AppendMutation m e =
     (let (ev, e1) = next_io e
      in case ev of
           IoOpenFail _ \<Rightarrow> (IoError (''failed to append kv log: '' @ kv_log_path e1), e1)
         | IoWriteFail n \<Rightarrow>
             (IoError (''failed to write kv log: '' @ kv_log_path e1),
              e1\<lparr>kv_disk := kv_disk e1 @ take n (log_record m)\<rparr>)
         | IoFlushFail n \<Rightarrow> (Status_Ok, e1\<lparr>kv_disk := kv_disk e1 @ take n (log_record m)\<rparr>)
         | IoOk \<Rightarrow> (Status_Ok, e1\<lparr>kv_disk := kv_disk e1 @ log_record m\<rparr>))"

fun append_all :: "KvMutation list \<Rightarrow> FileKvEngine \<Rightarrow> Status \<times> FileKvEngine" where
  "append_all [] e = (Status_Ok, e)"
| "append_all (m # ms) e =
     (let (status, e1) = AppendMutation m e
      in if \<not> ok status then (status, e1) else append_all ms e1)"

definition WriteBatch :: "KvMutation list \<Rightarrow> FileKvEngine \<Rightarrow> Status \<times> FileKvEngine" where
  "WriteBatch ms e =
     (let (status, e1) = append_all ms e
      in if \<not> ok status then (status, e1)
         else (Status_Ok, e1\<lparr>kv_data := apply_mutations ms (kv_data e1)\<rparr>))"

definition kv_Put :: "string \<Rightarrow> string \<Rightarrow> FileKvEngine \<Rightarrow> Status \<times> FileKvEngine" where
  "kv_Put key value e = WriteBatch [mk_put key value] e"

definition kv_Delete :: "string \<Rightarrow> FileKvEngine \<Rightarrow> Status \<times> FileKvEngine" where
  "kv_Delete key e = WriteBatch [mk_delete key] e"

definition kv_Get :: "string \<Rightarrow> FileKvEngine \<Rightarrow> Status + string" where
  "kv_Get key e =
     (case fmlookup (kv_data e) key of
        None \<Rightarrow> Inl (KeyNotFound (''key not found: '' @ key))
      | Some v \<Rightarrow> Inr v)"

definition ScanPrefix :: "string \<Rightarrow> FileKvEngine \<Rightarrow> (string \<times> string) list" where
  "ScanPrefix p e = takeWhile (\<lambda>kv. prefix p (fst kv)) (lower_bound (kv_data e) p)"

definition ScanRange :: "string \<Rightarrow> string \<Rightarrow> FileKvEngine \<Rightarrow> (string \<times> string) list" where
  "ScanRange start_key end_key e =
     takeWhile (\<lambda>kv. end_key = [] \<or> fst kv < end_key)
       (if start_key = [] then entries (kv_data e) else lower_bound (kv_data e) start_key)"

text \<open>One line of \<open>Replay\<close>: the extractions, the default for a missing value, the decoding.\<close>

definition replay_line :: "string \<Rightarrow> kv_map \<Rightarrow> Status + kv_map" where
  "replay_line line d =
     (let (op, s1) = extract_char (Some line);
          (key_hex, s2) = extract_string s1;
          (value_hex0, s3) = extract_string s2;
          value_hex = (if s3 = None \<and> value_hex0 = [] then ''-'' else value_hex0)
      in case HexDecode key_hex of
           Inl e \<Rightarrow> Inl e
         | Inr key \<Rightarrow>
             (case (if value_hex \<noteq> ''-'' then HexDecode value_hex else Inr []) of
                Inl e \<Rightarrow> Inl e
              | Inr value \<Rightarrow>
                  if op = CHR ''P'' then Inr (fmupd key value d)
                  else if op = CHR ''D'' then Inr (fmdrop key d)
                  else Inl (InvalidArgument ''invalid kv log operation'')))"

fun replay_lines :: "string list \<Rightarrow> kv_map \<Rightarrow> Status \<times> kv_map" where
  "replay_lines [] d = (Status_Ok, d)"
| "replay_lines (line # lines) d =
     (if line = [] then replay_lines lines d
      else case replay_line line d of
             Inl e \<Rightarrow> (e, d)
           | Inr d' \<Rightarrow> replay_lines lines d')"

definition Replay :: "FileKvEngine \<Rightarrow> Status \<times> FileKvEngine" where
  "Replay e =
     (let e0 = e\<lparr>kv_data := fmempty\<rparr>;
          (ev, e1) = next_io e0
      in case ev of
           IoOpenFail _ \<Rightarrow> (IoError (''failed to replay kv log: '' @ kv_log_path e1), e1)
         | _ \<Rightarrow>
             let (status, d) = replay_lines (getlines NL (kv_disk e1)) fmempty
             in (status, e1\<lparr>kv_data := d\<rparr>))"

definition Open :: "string \<Rightarrow> FileKvEngine \<Rightarrow> Status \<times> FileKvEngine" where
  "Open path e =
     (let e0 = e\<lparr>kv_directory := path, kv_log_path := path_join path ''kv.log''\<rparr>;
          (ev1, e1) = next_io e0
      in case ev1 of
           IoOpenFail msg \<Rightarrow> (IoError (''failed to create data directory: '' @ msg), e1)
         | _ \<Rightarrow>
             let (ev2, e2) = next_io e1
             in case ev2 of
                  IoOpenFail _ \<Rightarrow> (IoError (''failed to open kv log: '' @ kv_log_path e2), e2)
                | _ \<Rightarrow> Replay e2)"

definition file_kv_ops :: "FileKvEngine kv_vtable" where
  "file_kv_ops =
     \<lparr>vt_put = kv_Put, vt_delete = kv_Delete, vt_get = kv_Get, vt_write_batch = WriteBatch,
      vt_scan_prefix = ScanPrefix, vt_scan_range = ScanRange\<rparr>"

text \<open>
  A new process on the same directory, and the state of an engine whose log file replays to
  exactly what it holds in memory.
\<close>

definition restart :: "FileKvEngine \<Rightarrow> FileKvEngine" where
  "restart e = FileKvEngine_new (kv_disk e) []"

definition durable :: "FileKvEngine \<Rightarrow> bool" where
  "durable e \<longleftrightarrow>
     (kv_disk e = [] \<or> last (kv_disk e) = NL) \<and>
     replay_lines (getlines NL (kv_disk e)) fmempty = (Status_Ok, kv_data e)"

fun run_batches :: "KvMutation list list \<Rightarrow> FileKvEngine \<Rightarrow> FileKvEngine" where
  "run_batches [] e = e"
| "run_batches (ms # mss) e = run_batches mss (snd (WriteBatch ms e))"

section \<open>The hexadecimal codec\<close>

lemma of_char_hex_digit:
  "d < 16 \<Longrightarrow> of_char (hex_digit d) = (if d < 10 then 48 + d else 87 + d :: nat)"
  by (simp add: hex_digit_def)

lemma HexValue_hex_digit [simp]: "d < 16 \<Longrightarrow> HexValue (hex_digit d) = int d"
  by (simp add: HexValue_def of_char_hex_digit Let_def del: of_nat_of_char)

lemma nibbles_or: "hi < 16 \<Longrightarrow> lo < 16 \<Longrightarrow> push_bit 4 (int hi) OR int lo = int (16 * hi + lo)"
proof -
  have "\<forall>h \<in> set [0..<16]. \<forall>l \<in> set [0..<16]. push_bit 4 (int h) OR int l = int (16 * h + l)"
    by code_simp
  then show "hi < 16 \<Longrightarrow> lo < 16 \<Longrightarrow> ?thesis" by simp
qed

lemma of_char_lt_256: "of_char c < (256::nat)"
  by (metis of_char_of char_of_def of_char_mod_256 mod_less_divisor zero_less_numeral)

lemma char_of_nibbles:
  "char_of (push_bit 4 (int (of_char c div 16)) OR int (of_char c mod 16)) = c"
proof -
  have "of_char c div 16 < (16::nat)"
    using of_char_lt_256 [of c] by (simp add: less_mult_imp_div_less)
  then have "push_bit 4 (int (of_char c div 16)) OR int (of_char c mod 16) = int (of_char c)"
    by (simp add: nibbles_or)
  then show ?thesis by (metis char_of_char char_of_nat)
qed

lemma hex_decode_hex_byte:
  "hex_decode_loop (hex_byte c @ s) = map_sum id (Cons c) (hex_decode_loop s)"
proof -
  have "of_char c div 16 < (16::nat)"
    using of_char_lt_256 [of c] by (simp add: less_mult_imp_div_less)
  then show ?thesis
    by (simp add: hex_byte_def Let_def char_of_nibbles split: sum.splits)
qed

lemma HexEncode_simps [simp]:
  "HexEncode [] = []" "HexEncode (c # s) = hex_byte c @ HexEncode s"
  by (simp_all add: HexEncode_def)

lemma length_HexEncode: "length (HexEncode s) = 2 * length s"
  by (induction s) (simp_all add: hex_byte_def)

lemma HexEncode_eq_Nil [simp]: "HexEncode s = [] \<longleftrightarrow> s = []"
  by (cases s) (simp_all add: hex_byte_def)

lemma hex_decode_HexEncode: "hex_decode_loop (HexEncode s) = Inr s"
  by (induction s) (simp_all add: hex_decode_hex_byte)

lemma HexDecode_HexEncode [simp, codec_simps]: "HexDecode (HexEncode s) = Inr s"
  by (simp add: HexDecode_def length_HexEncode hex_decode_HexEncode)

interpretation hex: codec HexEncode HexDecode "\<lambda>_. True"
  by unfold_locales simp

lemma HexEncode_inj [simp]: "HexEncode s = HexEncode t \<longleftrightarrow> s = t"
  using hex.enc_inj by auto

lemma hex_digit_graph:
  assumes "d < 16"
  shows "\<not> isspace (hex_digit d)" "hex_digit d \<noteq> CHR ''-''" "hex_digit d \<noteq> CHR ''=''"
    "hex_digit d \<noteq> NL"
  using of_char_hex_digit [OF assms] assms
  by (auto simp: isspace_def split: if_splits dest!: arg_cong [of _ _ "of_char :: char \<Rightarrow> nat"])

lemma HexEncode_graph:
  "c \<in> set (HexEncode s) \<Longrightarrow> \<not> isspace c \<and> c \<noteq> CHR ''-'' \<and> c \<noteq> CHR ''='' \<and> c \<noteq> NL"
proof (induction s)
  case (Cons a s)
  have "of_char a div 16 < (16::nat)"
    using of_char_lt_256 [of a] by (simp add: less_mult_imp_div_less)
  with Cons show ?case
    by (auto simp: hex_byte_def hex_digit_graph)
qed simp

lemma HexEncode_not_dash [simp]: "HexEncode s \<noteq> ''-''"
  using HexEncode_graph [of "CHR ''-''" s] by auto

lemma hex_decode_loop_not_ok: "hex_decode_loop s = Inl e \<Longrightarrow> \<not> ok e"
  by (induction s rule: hex_decode_loop.induct) (auto simp: Let_def split: if_splits sum.splits)

lemma HexDecode_not_ok: "HexDecode s = Inl e \<Longrightarrow> \<not> ok e"
  by (auto simp: HexDecode_def dest: hex_decode_loop_not_ok split: if_splits)

section \<open>Tokens of a log record\<close>

lemma extract_string_hex [codec_simps]:
  "s \<noteq> [] \<Longrightarrow> extract_string (Some (HexEncode s @ SP # rest)) = (HexEncode s, Some (SP # rest))"
  by (rule extract_string_token) (auto dest: HexEncode_graph)

lemma extract_string_hex_last [codec_simps]:
  "s \<noteq> [] \<Longrightarrow> extract_string (Some (HexEncode s)) = (HexEncode s, Some [])"
  by (rule extract_string_last) (auto dest: HexEncode_graph)

lemma value_field_graph: "c \<in> set (value_field v) \<Longrightarrow> \<not> isspace c \<and> c \<noteq> NL"
  by (auto simp: value_field_def dest: HexEncode_graph split: if_splits)

lemma value_field_nonempty [simp]: "value_field v \<noteq> []"
  by (simp add: value_field_def)

lemma extract_value_field [codec_simps]:
  "extract_string (Some (value_field v)) = (value_field v, Some [])"
  by (rule extract_string_last) (auto dest: value_field_graph)

lemma extract_value_field_space [codec_simps]:
  "extract_string (Some (value_field v @ SP # rest)) = (value_field v, Some (SP # rest))"
  by (rule extract_string_token) (auto dest: value_field_graph)

lemma value_field_dash [simp]: "value_field v = ''-'' \<longleftrightarrow> v = []"
  by (simp add: value_field_def)

lemma decode_value_field [codec_simps]: "v \<noteq> [] \<Longrightarrow> HexDecode (value_field v) = Inr v"
  by (simp add: value_field_def)

section \<open>The contract of the engine\<close>

lemma next_io_healthy [simp]: "kv_io e = [] \<Longrightarrow> next_io e = (IoOk, e)"
  by (simp add: next_io_def)

lemma AppendMutation_healthy:
  "kv_io e = [] \<Longrightarrow> AppendMutation m e = (Status_Ok, e\<lparr>kv_disk := kv_disk e @ log_record m\<rparr>)"
  by (simp add: AppendMutation_def)

lemma append_all_healthy:
  "kv_io e = [] \<Longrightarrow>
     append_all ms e = (Status_Ok, e\<lparr>kv_disk := kv_disk e @ concat (map log_record ms)\<rparr>)"
  by (induction ms arbitrary: e) (simp_all add: AppendMutation_healthy)

lemma WriteBatch_healthy:
  "kv_io e = [] \<Longrightarrow>
     WriteBatch ms e = (Status_Ok, e\<lparr>kv_disk := kv_disk e @ concat (map log_record ms),
                                     kv_data := apply_mutations ms (kv_data e)\<rparr>)"
  by (simp add: WriteBatch_def append_all_healthy)

lemma ScanPrefix_filter:
  "ScanPrefix p e = filter (\<lambda>kv. prefix p (fst kv)) (entries (kv_data e))"
  by (simp add: ScanPrefix_def takeWhile_lower_bound_prefix)

lemma ScanRange_filter:
  "ScanRange lo hi e = filter (\<lambda>kv. in_range lo hi (fst kv)) (entries (kv_data e))"
  by (simp only: ScanRange_def takeWhile_lower_bound_range)

interpretation file_kv: kv_engine file_kv_ops kv_data "\<lambda>e. kv_io e = []"
  by unfold_locales
     (simp_all add: file_kv_ops_def WriteBatch_healthy kv_Put_def kv_Delete_def kv_Get_def
        ScanPrefix_filter ScanRange_filter)

section \<open>Replaying the log\<close>

lemma getlines_append:
  "s = [] \<or> last s = d \<Longrightarrow> getlines d (s @ t) = getlines d s @ getlines d t"
proof (induction d s rule: getlines.induct)
  case (1 d s)
  show ?case
  proof (cases "s = []")
    case False
    then have "d \<in> set s" using "1.prems" by (metis last_in_set)
    then obtain a b where s: "s = a @ d # b" and a: "d \<notin> set a"
      by (meson split_list_first)
    have "drop 1 (dropWhile (\<lambda>c. c \<noteq> d) s) = b"
      using s a by (simp add: split_at_first)
    moreover have "b = [] \<or> last b = d"
      using "1.prems" s by (cases "b = []") auto
    ultimately have "getlines d (b @ t) = getlines d b @ getlines d t"
      using "1.IH" False by simp
    with s a show ?thesis by (simp add: getlines_line)
  qed simp
qed

lemma replay_line_not_ok: "replay_line l d = Inl e \<Longrightarrow> \<not> ok e"
  by (auto simp: replay_line_def Let_def dest: HexDecode_not_ok
      split: prod.splits sum.splits if_splits)

lemma replay_lines_append:
  "replay_lines ls d = (Status_Ok, d') \<Longrightarrow> replay_lines (ls @ ls') d = replay_lines ls' d'"
  by (induction ls arbitrary: d) (auto split: sum.splits if_splits dest: replay_line_not_ok)

definition record_line :: "KvMutation \<Rightarrow> string" where
  "record_line m =
     (if mu_type m = kPut then CHR ''P'' else CHR ''D'') # SP #
     HexEncode (mu_key m) @ SP # value_field (mu_value m)"

lemma log_record_line: "log_record m = record_line m @ [NL]"
  by (simp add: log_record_def record_line_def)

lemma record_line_no_NL: "NL \<notin> set (record_line m)"
  by (auto simp: record_line_def dest: HexEncode_graph value_field_graph)

lemma getlines_log_records:
  "getlines NL (concat (map log_record ms)) = map record_line ms"
  by (induction ms) (simp_all add: log_record_line getlines_line record_line_no_NL)

lemma replay_record_line:
  "mu_key m \<noteq> [] \<Longrightarrow> replay_line (record_line m) d = Inr (apply_mutation m d)"
  by (cases "mu_type m")
     (simp_all add: replay_line_def record_line_def Let_def isspace_def codec_simps
        apply_mutation_def del: extract_string.simps)

lemma replay_record_lines:
  "\<forall>m \<in> set ms. mu_key m \<noteq> [] \<Longrightarrow>
     replay_lines (map record_line ms) d = (Status_Ok, apply_mutations ms d)"
  by (induction ms arbitrary: d) (simp_all add: replay_record_line, simp add: record_line_def)

lemma Open_healthy:
  "kv_io e = [] \<Longrightarrow>
     Open path e =
       (let (status, d) = replay_lines (getlines NL (kv_disk e)) fmempty
        in (status, e\<lparr>kv_directory := path, kv_log_path := path_join path ''kv.log'', kv_data := d\<rparr>))"
  by (simp add: Open_def Replay_def Let_def split: prod.splits)

lemma durable_new: "durable (FileKvEngine_new [] io)"
  by (simp add: durable_def FileKvEngine_new_def)

lemma last_log_records: "concat (map log_record ms) = [] \<or> last (concat (map log_record ms)) = NL"
  by (induction ms rule: rev_induct) (simp_all add: log_record_line)

lemma WriteBatch_durable [wf_intros]:
  assumes "durable e" and "kv_io e = []" and "\<forall>m \<in> set ms. mu_key m \<noteq> []"
  shows "durable (snd (WriteBatch ms e))"
proof -
  let ?r = "concat (map log_record ms)"
  have disk: "kv_disk e = [] \<or> last (kv_disk e) = NL"
    and replay: "replay_lines (getlines NL (kv_disk e)) fmempty = (Status_Ok, kv_data e)"
    using assms(1) by (simp_all add: durable_def)
  have "getlines NL (kv_disk e @ ?r) = getlines NL (kv_disk e) @ map record_line ms"
    using disk by (simp add: getlines_append getlines_log_records)
  with replay assms(3)
  have "replay_lines (getlines NL (kv_disk e @ ?r)) fmempty = (Status_Ok, apply_mutations ms (kv_data e))"
    by (simp add: replay_lines_append replay_record_lines)
  moreover have "kv_disk e @ ?r = [] \<or> last (kv_disk e @ ?r) = NL"
    using disk last_log_records [of ms] by (simp only: last_append append_Nil2 split: if_split) blast
  ultimately show ?thesis
    using assms(2) by (simp add: WriteBatch_healthy durable_def)
qed

lemma run_batches_state:
  assumes "durable e" and "kv_io e = []" and "\<forall>ms \<in> set mss. \<forall>m \<in> set ms. mu_key m \<noteq> []"
  shows "durable (run_batches mss e) \<and> kv_io (run_batches mss e) = [] \<and>
     kv_data (run_batches mss e) = apply_mutations (concat mss) (kv_data e)"
  using assms
proof (induction mss arbitrary: e)
  case (Cons ms mss)
  then have "durable (snd (WriteBatch ms e))"
    by (simp add: WriteBatch_durable)
  with Cons show ?case by (simp add: WriteBatch_healthy)
qed simp

lemma restart_durable:
  "durable e \<Longrightarrow> fst (Open path (restart e)) = Status_Ok \<and>
     kv_data (snd (Open path (restart e))) = kv_data e"
  by (simp add: Open_healthy restart_def FileKvEngine_new_def durable_def)

section \<open>Which texts decode\<close>

lemma HexValue_cases:
  "HexValue c = (let n = int (of_char c) in
     if 48 \<le> n \<and> n \<le> 57 then n - 48 else if 97 \<le> n \<and> n \<le> 102 then n - 87
     else if 65 \<le> n \<and> n \<le> 70 then n - 55 else - 1)"
proof -
  have v: "int (of_char (CHR ''0'')) = 48" "int (of_char (CHR ''9'')) = 57"
    "int (of_char (CHR ''a'')) = 97" "int (of_char (CHR ''f'')) = 102"
    "int (of_char (CHR ''A'')) = 65" "int (of_char (CHR ''F'')) = 70"
    by simp_all
  show ?thesis unfolding HexValue_def Let_def v by simp
qed

lemma HexValue_nonneg_range:
  "0 \<le> HexValue c \<longleftrightarrow> of_char c \<in> set [65..<71] \<union> (set [97..<103] \<union> set [48..<58 :: nat])"
proof -
  define n where "n = (of_char c :: nat)"
  show ?thesis
    unfolding HexValue_cases n_def [symmetric] Let_def set_upt atLeastLessThan_iff Un_iff
    by (simp; linarith)
qed

lemma HexValue_nonneg: "0 \<le> HexValue c \<longleftrightarrow> c \<in> set ''0123456789abcdefABCDEF''"
proof -
  have ranges: "[48..<58] = [48, 49, 50, 51, 52, 53, 54, 55, 56, 57 :: nat]"
      "[97..<103] = [97, 98, 99, 100, 101, 102 :: nat]" "[65..<71] = [65, 66, 67, 68, 69, 70 :: nat]"
    by (simp_all add: upt_conv_Cons)
  have "of_char ` set ''0123456789abcdefABCDEF'' = set [65..<71] \<union> (set [97..<103] \<union> set [48..<58 :: nat])"
    by (simp only: ranges) simp
  then show ?thesis
    by (simp only: HexValue_nonneg_range inj_image_mem_iff [OF inj_of_char, symmetric, where 'a = nat])
qed

lemma HexDecode_accepts:
  "(\<exists>t. HexDecode u = Inr t) \<longleftrightarrow> even (length u) \<and> (\<forall>c \<in> set u. 0 \<le> HexValue c)"
proof (cases "even (length u)")
  case True
  have "(\<exists>t. hex_decode_loop u = Inr t) \<longleftrightarrow> (\<forall>c \<in> set u. 0 \<le> HexValue c)"
    using True by (induction u rule: hex_decode_loop.induct)
      (auto simp: Let_def not_less split: sum.splits)
  with True show ?thesis by (simp add: HexDecode_def)
next
  case False
  then show ?thesis by (simp add: HexDecode_def odd_iff_mod_2_eq_one)
qed

section \<open>Append failures\<close>

text \<open>
  Appends before the first event that is not a success write whole records.
\<close>

lemma append_all_until:
  "kv_io e = replicate k IoOk @ evs \<Longrightarrow> k \<le> length ms \<Longrightarrow>
     append_all ms e =
       append_all (drop k ms)
         (e\<lparr>kv_io := evs, kv_disk := kv_disk e @ concat (map log_record (take k ms))\<rparr>)"
proof (induction k arbitrary: ms e)
  case 0
  then show ?case by (cases e) simp
next
  case (Suc k)
  then obtain m ms' where ms: "ms = m # ms'" by (cases ms) auto
  let ?e1 = "e\<lparr>kv_io := replicate k IoOk @ evs, kv_disk := kv_disk e @ log_record m\<rparr>"
  have "AppendMutation m e = (Status_Ok, ?e1)"
    using Suc.prems(1) by (simp add: AppendMutation_def next_io_def)
  with Suc.IH [of ?e1 ms'] Suc.prems(2) ms show ?case by simp
qed

lemma WriteBatch_open_fail:
  assumes "kv_io e = replicate k IoOk @ IoOpenFail msg # evs" and "k < length ms"
  shows "WriteBatch ms e =
     (IoError (''failed to append kv log: '' @ kv_log_path e),
      e\<lparr>kv_io := evs, kv_disk := kv_disk e @ concat (map log_record (take k ms))\<rparr>)"
proof -
  obtain m ms' where "drop k ms = m # ms'"
    using assms(2) by (metis Cons_nth_drop_Suc)
  with append_all_until [OF assms(1), of ms] assms(2) show ?thesis
    by (simp add: WriteBatch_def AppendMutation_def next_io_def)
qed

section \<open>Properties\<close>

text \<open>
  \<open>HexDecode\<close> inverts \<open>HexEncode\<close> on every byte string, and accepts exactly the texts of
  even length made of the characters 0-9, a-f and A-F.
\<close>

theorem hex_codec_correct:
  "HexDecode (HexEncode s) = Inr s \<and>
   ((\<exists>t. HexDecode u = Inr t) \<longleftrightarrow>
      even (length u) \<and> set u \<subseteq> set ''0123456789abcdefABCDEF'')"
  by (simp only: HexDecode_HexEncode HexDecode_accepts HexValue_nonneg subset_eq simp_thms)

text \<open>
  C18. Recovery. Starting from an empty log and with no I/O failure, after any sequence of
  batches whose keys are not empty a restarted engine opens and holds exactly what the
  running engine held: the effect of all mutations in order.
\<close>

theorem restart_recovers_batches:
  assumes "\<forall>ms \<in> set mss. \<forall>m \<in> set ms. mu_key m \<noteq> []"
    and "e = run_batches mss (FileKvEngine_new [] [])"
  shows "fst (Open path (restart e)) = Status_Ok \<and>
     kv_data (snd (Open path (restart e))) = kv_data e \<and>
     kv_data e = apply_mutations (concat mss) fmempty"
proof -
  have "durable e \<and> kv_io e = [] \<and> kv_data e = apply_mutations (concat mss) fmempty"
    using run_batches_state [OF durable_new _ assms(1), of "[]"] assms(2)
    by (simp add: FileKvEngine_new_def)
  with restart_durable [of e path] show ?thesis by simp
qed

theorem restart_recovers_batches_witness:
  "kv_data (snd (Open ''d'' (restart (run_batches [[mk_put ''a'' ''1'', mk_put ''b'' []], [mk_delete ''a'']]
      (FileKvEngine_new [] []))))) = fmupd ''b'' [] fmempty"
proof -
  let ?mss = "[[mk_put ''a'' ''1'', mk_put ''b'' []], [mk_delete ''a'']]"
  have "\<forall>ms \<in> set ?mss. \<forall>m \<in> set ms. mu_key m \<noteq> []" by simp
  from restart_recovers_batches [OF this refl, of "''d''"] show ?thesis
    by (simp add: fmap_ext)
qed

text \<open>
  The recovery needs non-empty keys: from any consistent state, deleting the empty key
  succeeds and appends a record whose key field is missing, and the engine can no longer be
  opened, because replay reads the value marker as the key.
\<close>

theorem delete_empty_key_blocks_open:
  assumes "durable e" and "kv_io e = []"
  shows "fst (kv_Delete [] e) = Status_Ok \<and>
     fst (Open path (restart (snd (kv_Delete [] e)))) = InvalidArgument ''hex input has odd length''"
proof -
  have "replay_line (record_line (mk_delete [])) (kv_data e) = Inl (InvalidArgument ''hex input has odd length'')"
    by (simp add: replay_line_def record_line_def value_field_def isspace_def HexDecode_def)
  then have "replay_lines [record_line (mk_delete [])] (kv_data e) =
      (InvalidArgument ''hex input has odd length'', kv_data e)"
    by (simp add: record_line_def)
  moreover have "getlines NL (kv_disk e @ log_record (mk_delete [])) =
      getlines NL (kv_disk e) @ [record_line (mk_delete [])]"
    using assms(1) getlines_log_records [of "[mk_delete []]"]
    by (simp add: durable_def getlines_append)
  ultimately show ?thesis
    using assms by (simp add: kv_Delete_def WriteBatch_healthy Open_healthy restart_def
        FileKvEngine_new_def durable_def replay_lines_append)
qed

theorem delete_empty_key_blocks_open_witness:
  "fst (Open ''d'' (restart (snd (kv_Delete [] (FileKvEngine_new [] []))))) =
     InvalidArgument ''hex input has odd length''"
  using delete_empty_key_blocks_open [OF durable_new [of "[]"], of "''d''"]
  by (simp add: FileKvEngine_new_def)

text \<open>
  C38. \<open>WriteBatch\<close> is not atomic under failure: when the log cannot be opened at the mutation
  with index \<open>k\<close> the call returns an I/O error and leaves the data in memory unchanged, but
  the first \<open>k\<close> mutations stay in the log and take effect at the next restart.
\<close>

theorem failed_batch_reappears:
  assumes "durable e" and "kv_io e = replicate k IoOk @ IoOpenFail msg # evs" and "k < length ms"
    and "\<forall>m \<in> set ms. mu_key m \<noteq> []"
  shows "st_code (fst (WriteBatch ms e)) = kIoError \<and>
     kv_data (snd (WriteBatch ms e)) = kv_data e \<and>
     kv_data (snd (Open path (restart (snd (WriteBatch ms e))))) = apply_mutations (take k ms) (kv_data e)"
proof -
  let ?e0 = "e\<lparr>kv_io := []\<rparr>"
  have "durable (snd (WriteBatch (take k ms) ?e0))"
    using assms(1,4) by (intro WriteBatch_durable) (auto simp: durable_def dest: in_set_takeD)
  from restart_durable [OF this, of path]
  have "kv_data (snd (Open path (restart (snd (WriteBatch (take k ms) ?e0))))) =
      apply_mutations (take k ms) (kv_data e)"
    by (simp add: WriteBatch_healthy)
  moreover have "restart (snd (WriteBatch (take k ms) ?e0)) = restart (snd (WriteBatch ms e))"
    using assms(2,3) by (simp add: WriteBatch_open_fail WriteBatch_healthy restart_def)
  ultimately show ?thesis
    using assms(2,3) by (simp add: WriteBatch_open_fail)
qed

theorem failed_batch_reappears_witness:
  "kv_data (snd (Open ''d'' (restart (snd (WriteBatch [mk_put ''a'' ''1'', mk_put ''b'' ''2'']
      (FileKvEngine_new [] [IoOk, IoOpenFail ''disk full''])))))) = fmupd ''a'' ''1'' fmempty"
  using failed_batch_reappears [OF durable_new, of "[IoOk, IoOpenFail ''disk full'']" 1 "''disk full''" "[]"
      "[mk_put ''a'' ''1'', mk_put ''b'' ''2'']" "''d''"]
  by (simp add: FileKvEngine_new_def)

text \<open>
  The stream is tested before its buffer reaches the file. When the flush is lost, \<open>Put\<close>
  returns OK and the value can be read, but a restart brings the old contents back: an
  acknowledged write is lost without an error.
\<close>

theorem lost_flush_is_acknowledged:
  assumes "durable e" and "kv_io e = IoFlushFail 0 # evs"
  shows "fst (kv_Put k v e) = Status_Ok \<and> kv_Get k (snd (kv_Put k v e)) = Inr v \<and>
     kv_data (snd (Open path (restart (snd (kv_Put k v e))))) = kv_data e"
proof -
  have "kv_Put k v e = (Status_Ok, e\<lparr>kv_io := evs, kv_data := fmupd k v (kv_data e)\<rparr>)"
    using assms(2) by (simp add: kv_Put_def WriteBatch_def AppendMutation_def next_io_def)
  moreover have "restart (e\<lparr>kv_io := evs, kv_data := fmupd k v (kv_data e)\<rparr>) = restart e"
    by (simp add: restart_def)
  ultimately show ?thesis
    using restart_durable [OF assms(1), of path] by (simp add: kv_Get_def)
qed

theorem lost_flush_is_acknowledged_witness:
  "kv_Get ''a'' (snd (kv_Put ''a'' ''1'' (FileKvEngine_new [] [IoFlushFail 0]))) = Inr ''1'' \<and>
   kv_data (snd (Open ''d'' (restart (snd (kv_Put ''a'' ''1'' (FileKvEngine_new [] [IoFlushFail 0])))))) = fmempty"
  using lost_flush_is_acknowledged [OF durable_new, of "[IoFlushFail 0]" "[]" "''a''" "''1''" "''d''"]
  by (simp add: FileKvEngine_new_def)

text \<open>
  The scans. \<open>ScanPrefix\<close> stops at the first key without the prefix and \<open>ScanRange\<close> at the
  first key at or past the end; both return exactly the matching entries of the map (an empty
  end key means no bound), in strictly increasing key order.
\<close>

theorem scans_are_exact:
  "set (ScanPrefix p e) = {(k, v). fmlookup (kv_data e) k = Some v \<and> prefix p k} \<and>
   set (ScanRange lo hi e) =
     {(k, v). fmlookup (kv_data e) k = Some v \<and> lo \<le> k \<and> (hi = [] \<or> k < hi)} \<and>
   sorted_wrt (<) (map fst (ScanPrefix p e)) \<and> sorted_wrt (<) (map fst (ScanRange lo hi e))"
proof -
  have sorted: "sorted_wrt (<) (map fst (filter P (entries (kv_data e))))" for P
    using sorted_wrt_entries [of "kv_data e"]
    by (simp add: sorted_wrt_map sorted_wrt_filter)
  have range: "in_range lo hi k \<longleftrightarrow> lo \<le> k \<and> (hi = [] \<or> k < hi)" for k
    by (auto simp: in_range_def)
  have "set (ScanPrefix p e) = {(k, v). fmlookup (kv_data e) k = Some v \<and> prefix p k}"
    by (auto simp: ScanPrefix_filter set_entries)
  moreover have "set (ScanRange lo hi e) =
      {(k, v). fmlookup (kv_data e) k = Some v \<and> lo \<le> k \<and> (hi = [] \<or> k < hi)}"
    by (auto simp: ScanRange_filter set_entries range)
  ultimately show ?thesis
    by (simp add: ScanPrefix_filter ScanRange_filter sorted)
qed

end
