(* ===== verification/Kv_Command.thy ===== *)
theory Kv_Command
  imports File_Kv_Engine
begin

text \<open>
  kv_command.cpp: the text form of the state machine commands that travel in Raft log entries,
  and their application to an engine through the virtual function table. The lemmas show that
  applying an encoded command is the corresponding engine call, and where that fails.
\<close>

section \<open>Encoding\<close>

definition EncodePutCommand :: "string \<Rightarrow> string \<Rightarrow> string" where
  "EncodePutCommand key value = ''PUT '' @ HexEncode key @ '' '' @ HexEncode value"

definition EncodeDeleteCommand :: "string \<Rightarrow> string" where
  "EncodeDeleteCommand key = ''DELETE '' @ HexEncode key"

definition mutation_tag :: "KvMutation \<Rightarrow> string" where
  "mutation_tag m = (if mu_type m = kPut then ''P'' else ''D'')"

definition batch_item :: "KvMutation \<Rightarrow> string" where
  "batch_item m =
     SP # mutation_tag m @ SP # HexEncode (mu_key m) @ SP # value_field (mu_value m)"

definition EncodeBatchCommand :: "KvMutation list \<Rightarrow> string" where
  "EncodeBatchCommand ms = ''BATCH '' @ show_nat (length ms) @ concat (map batch_item ms)"

section \<open>Application\<close>

text \<open>The loop over \<open>count\<close> items; a failed stream yields empty tokens, as in the source.\<close>

fun parse_batch :: "nat \<Rightarrow> istream \<Rightarrow> Status + KvMutation list" where
  "parse_batch 0 s = Inr []"
| "parse_batch (Suc n) s =
     (let (mutation_type, s1) = extract_string s;
          (key_hex, s2) = extract_string s1;
          (value_hex, s3) = extract_string s2
      in case HexDecode key_hex of
           Inl e \<Rightarrow> Inl e
         | Inr key \<Rightarrow>
             (case (if value_hex \<noteq> ''-'' then HexDecode value_hex else Inr []) of
                Inl e \<Rightarrow> Inl e
              | Inr value \<Rightarrow>
                  (case parse_batch n s3 of
                     Inl e \<Rightarrow> Inl e
                   | Inr ms \<Rightarrow>
                       Inr (\<lparr>mu_type = (if mutation_type = ''P'' then kPut else kDelete),
                             mu_key = key, mu_value = value\<rparr> # ms))))"

text \<open>
  The \<open>reserve\<close> for the announced number of items is not modelled: for a number that no memory can
  hold it throws, which counts as memory exhaustion.
\<close>

definition ApplyKvCommand :: "'e kv_vtable \<Rightarrow> string \<Rightarrow> 'e \<Rightarrow> Status \<times> 'e" where
  "ApplyKvCommand ops command e =
     (let (op, s) = extract_string (Some command)
      in if op = ''PUT'' then
           (let (key_hex, s1) = extract_string s;
                (value_hex, s2) = extract_string s1
            in case HexDecode key_hex of
                 Inl err \<Rightarrow> (err, e)
               | Inr key \<Rightarrow>
                   (case HexDecode value_hex of
                      Inl err \<Rightarrow> (err, e)
                    | Inr value \<Rightarrow> vt_put ops key value e))
         else if op = ''DELETE'' then
           (let (key_hex, s1) = extract_string s
            in case HexDecode key_hex of
                 Inl err \<Rightarrow> (err, e)
               | Inr key \<Rightarrow> vt_delete ops key e)
         else if op = ''BATCH'' then
           (let (count, s1) = extract_u64 s
            in case parse_batch (unat count) s1 of
                 Inl err \<Rightarrow> (err, e)
               | Inr ms \<Rightarrow> vt_write_batch ops ms e)
         else (InvalidArgument (''unknown kv command: '' @ op), e))"

section \<open>Running the parser on encoded commands\<close>

lemma HexDecode_Nil [simp]: "HexDecode [] = Inr []"
  by (simp add: HexDecode_def)

lemma extract_word [codec_simps]:
  "extract_string (Some (''PUT '' @ s)) = (''PUT'', Some (SP # s))"
  "extract_string (Some (''DELETE '' @ s)) = (''DELETE'', Some (SP # s))"
  "extract_string (Some (''BATCH '' @ s)) = (''BATCH'', Some (SP # s))"
  using extract_string_token [of "''PUT''" "SP # s"] extract_string_token [of "''DELETE''" "SP # s"]
    extract_string_token [of "''BATCH''" "SP # s"]
  by (simp_all add: isspace_def)

lemma extract_tag [codec_simps]:
  "extract_string (Some (mutation_tag m @ SP # s)) = (mutation_tag m, Some (SP # s))"
  by (simp add: mutation_tag_def isspace_def)

lemma tag_type [codec_simps]: "(if mutation_tag m = ''P'' then kPut else kDelete) = mu_type m"
  by (cases "mu_type m") (simp_all add: mutation_tag_def)

lemma extract_hex_end: "fst (extract_string (Some (SP # HexEncode v))) = HexEncode v"
  by (cases "v = []") (simp_all add: codec_simps del: extract_string.simps)

lemma batch_items_start: "concat (map batch_item ms) = [] \<or> isspace (hd (concat (map batch_item ms)))"
  by (cases ms) (simp_all add: batch_item_def)

lemma extract_value_batch [codec_simps]:
  "extract_string (Some (value_field v @ concat (map batch_item ms))) =
     (value_field v, Some (concat (map batch_item ms)))"
  using batch_items_start [of ms] by (intro extract_string_token) (auto dest: value_field_graph)

lemma parse_batch_encoded:
  "\<forall>m \<in> set ms. mu_key m \<noteq> [] \<Longrightarrow> parse_batch (length ms) (Some (concat (map batch_item ms))) = Inr ms"
proof (induction ms)
  case (Cons m ms)
  then have "mu_key m \<noteq> []" and "parse_batch (length ms) (Some (concat (map batch_item ms))) = Inr ms"
    by simp_all
  then show ?case
    by (simp add: batch_item_def [of m] codec_simps Let_def del: extract_string.simps split del: if_split)
       (simp add: codec_simps)
qed simp

lemma EncodePutCommand_fields: "EncodePutCommand k v = ''PUT '' @ (HexEncode k @ SP # HexEncode v)"
  by (simp add: EncodePutCommand_def)

lemma ApplyKvCommand_put:
  "k \<noteq> [] \<Longrightarrow> ApplyKvCommand ops (EncodePutCommand k v) e = vt_put ops k v e"
  using extract_hex_end [of v]
  by (simp add: ApplyKvCommand_def EncodePutCommand_fields codec_simps Let_def case_prod_beta
      del: extract_string.simps append.simps)

lemma ApplyKvCommand_delete:
  "ApplyKvCommand ops (EncodeDeleteCommand k) e = vt_delete ops k e"
  using extract_hex_end [of k]
  by (simp add: ApplyKvCommand_def EncodeDeleteCommand_def codec_simps Let_def case_prod_beta
      del: extract_string.simps append.simps)

lemma ApplyKvCommand_batch:
  assumes "\<forall>m \<in> set ms. mu_key m \<noteq> []" and "length ms < 2 ^ 64"
  shows "ApplyKvCommand ops (EncodeBatchCommand ms) e = vt_write_batch ops ms e"
proof -
  let ?items = "concat (map batch_item ms)"
  have "?items = [] \<or> \<not> is_digit (hd ?items)"
    using batch_items_start [of ms] is_digit_not_space by blast
  then have "extract_u64 (Some (show_nat (length ms) @ ?items)) = (of_nat (length ms), Some ?items)"
    using assms(2) by (intro extract_u64_show_nat)
  moreover have "unat (of_nat (length ms) :: u64) = length ms"
    using assms(2) by (simp add: unat_of_nat)
  ultimately show ?thesis
    using parse_batch_encoded [OF assms(1)]
    by (simp add: ApplyKvCommand_def EncodeBatchCommand_def codec_simps Let_def
        del: extract_string.simps append.simps extract_u64.simps)
qed

section \<open>Properties\<close>

text \<open>
  C26. Applying an encoded command is the engine call it encodes: for a put with a non-empty
  key and any value, for a delete of any key, and for a batch of fewer than \<open>2\<^sup>64\<close> mutations
  with non-empty keys, in the order given and as one batch.
\<close>

theorem apply_encoded_command:
  assumes "k \<noteq> []" and "\<forall>m \<in> set ms. mu_key m \<noteq> []" and "length ms < 2 ^ 64"
  shows "ApplyKvCommand ops (EncodePutCommand k v) e = vt_put ops k v e \<and>
     ApplyKvCommand ops (EncodeDeleteCommand d) e = vt_delete ops d e \<and>
     ApplyKvCommand ops (EncodeBatchCommand ms) e = vt_write_batch ops ms e"
  using assms by (simp add: ApplyKvCommand_put ApplyKvCommand_delete ApplyKvCommand_batch)

theorem apply_encoded_command_witness:
  "ApplyKvCommand file_kv_ops (EncodeBatchCommand [mk_put ''a'' ''1'', mk_delete ''b''])
      (FileKvEngine_new [] []) =
   WriteBatch [mk_put ''a'' ''1'', mk_delete ''b''] (FileKvEngine_new [] [])"
  using apply_encoded_command [of "''k''" "[mk_put ''a'' ''1'', mk_delete ''b'']" file_kv_ops]
  by (simp add: file_kv_ops_def)

text \<open>
  With an empty key the encoded put loses its first field: applying it stores the value
  as a key, with an empty value, instead of storing the value under the empty key.
\<close>

theorem put_empty_key_misapplied:
  assumes "v \<noteq> []"
  shows "ApplyKvCommand ops (EncodePutCommand [] v) e = vt_put ops v [] e"
  using assms
  by (simp add: ApplyKvCommand_def EncodePutCommand_fields codec_simps Let_def case_prod_beta
      del: extract_string.simps append_Cons)

theorem put_empty_key_misapplied_witness:
  "kv_Get ''v'' (snd (ApplyKvCommand file_kv_ops (EncodePutCommand [] ''v'') (FileKvEngine_new [] []))) = Inr []"
  using put_empty_key_misapplied [of "''v''" file_kv_ops "FileKvEngine_new [] []"]
  by (simp add: file_kv_ops_def kv_Put_def WriteBatch_healthy FileKvEngine_new_def kv_Get_def)

end
