(* ===== verification/Raft_Node.thy ===== *)
theory Raft_Node
  imports Common_Types
begin

text \<open>
  raft_node.h and raft_node.cpp: the consensus state of one replica. Log indices, terms and
  ids are 64-bit words. An out-of-range access to the log vector is undefined behaviour in
  the source; the operations that index the vector return \<open>None\<close> where it would happen, and
  the lemmas show that it never happens on a node whose indices stay within its log. The step
  relation \<open>raft_step\<close> has one rule per public operation and one for the restart of the process
  that holds the node.
\<close>

section \<open>Data\<close>

datatype RaftRole = kFollower | kCandidate | kLeader

datatype EntryType = kNormal | kConfigChange | kSplit | kNoop

record LogEntry =
  le_region_id :: u64
  le_index :: u64
  le_term :: u64
  le_type :: EntryType
  le_command :: string

record RequestVoteRequest =
  rv_region_id :: u64
  rv_term :: u64
  rv_candidate_id :: u64
  rv_last_log_index :: u64
  rv_last_log_term :: u64

record RequestVoteResponse =
  rvr_term :: u64
  rvr_vote_granted :: bool

record AppendEntriesRequest =
  ae_region_id :: u64
  ae_term :: u64
  ae_leader_id :: u64
  ae_prev_log_index :: u64
  ae_prev_log_term :: u64
  ae_entries :: "LogEntry list"
  ae_leader_commit :: u64

record AppendEntriesResponse =
  aer_term :: u64
  aer_success :: bool
  aer_match_index :: u64

record RaftNode =
  rn_region_id :: u64
  rn_self_id :: u64
  rn_peers :: "u64 list"
  rn_role :: RaftRole
  rn_current_term :: u64
  rn_voted_for :: "u64 option"
  rn_commit_index :: u64
  rn_last_applied :: u64
  rn_log :: "LogEntry list"

fun RaftRoleName :: "RaftRole \<Rightarrow> string" where
  "RaftRoleName kFollower = ''Follower''"
| "RaftRoleName kCandidate = ''Candidate''"
| "RaftRoleName kLeader = ''Leader''"

section \<open>Operations\<close>

definition RaftNode_new :: "u64 \<Rightarrow> u64 \<Rightarrow> u64 list \<Rightarrow> RaftNode" where
  "RaftNode_new region_id self_id peers =
     \<lparr>rn_region_id = region_id, rn_self_id = self_id, rn_peers = peers, rn_role = kFollower,
      rn_current_term = 0, rn_voted_for = None, rn_commit_index = 0, rn_last_applied = 0,
      rn_log = []\<rparr>"

definition last_log_index :: "RaftNode \<Rightarrow> u64" where
  "last_log_index n = (if rn_log n = [] then 0 else le_index (last (rn_log n)))"

definition last_log_term :: "RaftNode \<Rightarrow> u64" where
  "last_log_term n = (if rn_log n = [] then 0 else le_term (last (rn_log n)))"

definition BecomeFollower :: "u64 \<Rightarrow> RaftNode \<Rightarrow> RaftNode" where
  "BecomeFollower t n =
     (let n1 = n\<lparr>rn_role := kFollower\<rparr>
      in if rn_current_term n1 < t then n1\<lparr>rn_current_term := t, rn_voted_for := None\<rparr> else n1)"

definition BecomeCandidate :: "RaftNode \<Rightarrow> RaftNode" where
  "BecomeCandidate n =
     n\<lparr>rn_role := kCandidate, rn_current_term := rn_current_term n + 1,
       rn_voted_for := Some (rn_self_id n)\<rparr>"

definition BecomeLeader :: "RaftNode \<Rightarrow> RaftNode" where
  "BecomeLeader n = n\<lparr>rn_role := kLeader\<rparr>"

definition IsCandidateLogUpToDate :: "u64 \<Rightarrow> u64 \<Rightarrow> RaftNode \<Rightarrow> bool" where
  "IsCandidateLogUpToDate index t n =
     (let local_last_log_term = last_log_term n
      in if t \<noteq> local_last_log_term then t > local_last_log_term else index \<ge> last_log_index n)"

definition HandleRequestVote ::
  "RequestVoteRequest \<Rightarrow> RaftNode \<Rightarrow> RequestVoteResponse \<times> RaftNode" where
  "HandleRequestVote r n =
     (if rv_term r < rn_current_term n then
        (\<lparr>rvr_term = rn_current_term n, rvr_vote_granted = False\<rparr>, n)
      else
        let n1 = (if rv_term r > rn_current_term n then BecomeFollower (rv_term r) n else n);
            can_vote = (rn_voted_for n1 = None \<or> rn_voted_for n1 = Some (rv_candidate_id r));
            up_to_date = IsCandidateLogUpToDate (rv_last_log_index r) (rv_last_log_term r) n1
        in if can_vote \<and> up_to_date then
             (\<lparr>rvr_term = rn_current_term n1, rvr_vote_granted = True\<rparr>,
              n1\<lparr>rn_voted_for := Some (rv_candidate_id r)\<rparr>)
           else (\<lparr>rvr_term = rn_current_term n1, rvr_vote_granted = False\<rparr>, n1))"

definition HasLogAt :: "u64 \<Rightarrow> u64 \<Rightarrow> RaftNode \<Rightarrow> bool" where
  "HasLogAt index t n =
     (if index = 0 then t = 0
      else if unat index > length (rn_log n) then False
      else le_term (rn_log n ! (unat index - 1)) = t)"

definition DeleteFrom :: "u64 \<Rightarrow> RaftNode \<Rightarrow> RaftNode" where
  "DeleteFrom index n =
     (if index = 0 \<or> unat index > length (rn_log n) + 1 then n
      else
        let n1 = n\<lparr>rn_log := take (unat index - 1) (rn_log n)\<rparr>;
            n2 = (if rn_commit_index n1 \<ge> index then n1\<lparr>rn_commit_index := index - 1\<rparr> else n1)
        in if rn_last_applied n2 \<ge> index then n2\<lparr>rn_last_applied := index - 1\<rparr> else n2)"

definition push_entry :: "LogEntry \<Rightarrow> RaftNode \<Rightarrow> RaftNode" where
  "push_entry e n = n\<lparr>rn_log := rn_log n @ [e]\<rparr>"

text \<open>The loop over the entries; \<open>False\<close> is the early return on an entry with index 0.\<close>

fun append_entries_loop :: "LogEntry list \<Rightarrow> RaftNode \<Rightarrow> (bool \<times> RaftNode) option" where
  "append_entries_loop [] n = Some (True, n)"
| "append_entries_loop (e # es) n =
     (if le_index e = 0 then Some (False, n)
      else if le_index e \<le> last_log_index n then
        (if unat (le_index e) - 1 < length (rn_log n) then
           (let existing = rn_log n ! (unat (le_index e) - 1)
            in if le_term existing \<noteq> le_term e
               then append_entries_loop es (push_entry e (DeleteFrom (le_index e) n))
               else append_entries_loop es n)
         else None)
      else append_entries_loop es (push_entry e n))"

definition step_down :: "u64 \<Rightarrow> RaftNode \<Rightarrow> RaftNode" where
  "step_down t n =
     (if t > rn_current_term n \<or> rn_role n \<noteq> kFollower then BecomeFollower t n else n)"

definition HandleAppendEntries ::
  "AppendEntriesRequest \<Rightarrow> RaftNode \<Rightarrow> (AppendEntriesResponse \<times> RaftNode) option" where
  "HandleAppendEntries r n =
     (if ae_term r < rn_current_term n then
        Some (\<lparr>aer_term = rn_current_term n, aer_success = False,
               aer_match_index = last_log_index n\<rparr>, n)
      else
        let n1 = step_down (ae_term r) n
        in if \<not> HasLogAt (ae_prev_log_index r) (ae_prev_log_term r) n1 then
             Some (\<lparr>aer_term = rn_current_term n1, aer_success = False,
                    aer_match_index = last_log_index n1\<rparr>, n1)
           else
             case append_entries_loop (ae_entries r) n1 of
               None \<Rightarrow> None
             | Some (False, n2) \<Rightarrow>
                 Some (\<lparr>aer_term = rn_current_term n1, aer_success = False, aer_match_index = 0\<rparr>, n2)
             | Some (True, n2) \<Rightarrow>
                 let n3 = (if ae_leader_commit r > rn_commit_index n2
                           then n2\<lparr>rn_commit_index := min (ae_leader_commit r) (last_log_index n2)\<rparr>
                           else n2)
                 in Some (\<lparr>aer_term = rn_current_term n1, aer_success = True,
                           aer_match_index = last_log_index n3\<rparr>, n3))"

definition Propose :: "EntryType \<Rightarrow> string \<Rightarrow> RaftNode \<Rightarrow> Status + LogEntry \<times> RaftNode" where
  "Propose ty command n =
     (if rn_role n \<noteq> kLeader then Inl (mk_status kNotLeader ''proposal must be sent to leader'')
      else
        let new_entry = \<lparr>le_region_id = rn_region_id n, le_index = last_log_index n + 1,
                         le_term = rn_current_term n, le_type = ty, le_command = command\<rparr>
        in Inr (new_entry, push_entry new_entry n))"

definition SetCommitIndex :: "u64 \<Rightarrow> RaftNode \<Rightarrow> RaftNode" where
  "SetCommitIndex commit n = n\<lparr>rn_commit_index := min commit (last_log_index n)\<rparr>"

function TakeCommittedEntries :: "RaftNode \<Rightarrow> (LogEntry list \<times> RaftNode) option" where
  "TakeCommittedEntries n =
     (if rn_last_applied n < rn_commit_index n then
        (let n1 = n\<lparr>rn_last_applied := rn_last_applied n + 1\<rparr>
         in if unat (rn_last_applied n1) - 1 < length (rn_log n1)
            then map_option (\<lambda>(es, n2). (rn_log n1 ! (unat (rn_last_applied n1) - 1) # es, n2))
                   (TakeCommittedEntries n1)
            else None)
      else Some ([], n))"
  by pat_completeness auto
termination
  by (relation "measure (\<lambda>n. unat (rn_commit_index n) - unat (rn_last_applied n))")
     (auto simp: unat_Suc_less word_less_nat_alt)

declare TakeCommittedEntries.simps [simp del]

fun check_restored :: "u64 \<Rightarrow> nat \<Rightarrow> LogEntry list \<Rightarrow> Status" where
  "check_restored rid i [] = Status_Ok"
| "check_restored rid i (e # es) =
     (if le_region_id e \<noteq> rid then InvalidArgument ''restored log belongs to another region''
      else if unat (le_index e) \<noteq> i + 1 then InvalidArgument ''restored log index is not contiguous''
      else check_restored rid (i + 1) es)"

definition raft_Restore ::
  "u64 \<Rightarrow> u64 option \<Rightarrow> u64 \<Rightarrow> u64 \<Rightarrow> LogEntry list \<Rightarrow> RaftNode \<Rightarrow> Status \<times> RaftNode" where
  "raft_Restore term voted_for commit_index last_applied log n =
     (let status = check_restored (rn_region_id n) 0 log
      in if \<not> ok status then (status, n)
         else if unat commit_index > length log then
           (InvalidArgument ''restored commit index is past log end'', n)
         else if last_applied > commit_index then
           (InvalidArgument ''restored last_applied is past commit index'', n)
         else (Status_Ok, n\<lparr>rn_role := kFollower, rn_current_term := term, rn_voted_for := voted_for,
                            rn_commit_index := commit_index, rn_last_applied := last_applied,
                            rn_log := log\<rparr>))"

section \<open>Well-formedness, reference definitions and the step relation\<close>

definition log_from :: "u64 \<Rightarrow> nat \<Rightarrow> LogEntry list \<Rightarrow> bool" where
  "log_from rid k es \<longleftrightarrow>
     (\<forall>i < length es. unat (le_index (es ! i)) = k + i + 1 \<and> le_region_id (es ! i) = rid)"

definition raft_wf :: "RaftNode \<Rightarrow> bool" where
  "raft_wf n \<longleftrightarrow> log_from (rn_region_id n) 0 (rn_log n) \<and>
     rn_last_applied n \<le> rn_commit_index n \<and> unat (rn_commit_index n) \<le> length (rn_log n)"

text \<open>
  What every public operation keeps: the log is numbered from 1 on and neither index passes its
  end. The order of the two indices is kept too, except by a call of \<open>SetCommitIndex\<close>, which takes
  any value.
\<close>

definition raft_inv :: "RaftNode \<Rightarrow> bool" where
  "raft_inv n \<longleftrightarrow> log_from (rn_region_id n) 0 (rn_log n) \<and>
     unat (rn_commit_index n) \<le> length (rn_log n) \<and> unat (rn_last_applied n) \<le> length (rn_log n)"

text \<open>
  The hard state \<open>(t, v)\<close> is not older than the node: its term is later, or it is the node's term
  and a vote the node has cast in it is there. Storage gives this when the writes of the hard
  state succeeded.
\<close>

definition hard_state_kept :: "u64 \<Rightarrow> u64 option \<Rightarrow> RaftNode \<Rightarrow> bool" where
  "hard_state_kept t v n \<longleftrightarrow> rn_current_term n < t \<or>
     rn_current_term n = t \<and> (rn_voted_for n = None \<or> v = rn_voted_for n)"

definition request_wf :: "u64 \<Rightarrow> AppendEntriesRequest \<Rightarrow> bool" where
  "request_wf rid r \<longleftrightarrow> log_from rid (unat (ae_prev_log_index r)) (ae_entries r)"

text \<open>The textbook rule: keep what agrees in term, replace from the first disagreement on.\<close>

fun merge_log :: "LogEntry list \<Rightarrow> LogEntry list \<Rightarrow> LogEntry list" where
  "merge_log ls [] = ls"
| "merge_log [] es = es"
| "merge_log (l # ls) (e # es) = (if le_term l = le_term e then l # merge_log ls es else e # es)"

definition log_matching :: "LogEntry list \<Rightarrow> LogEntry list \<Rightarrow> bool" where
  "log_matching xs ys \<longleftrightarrow>
     (\<forall>i. i < length xs \<and> i < length ys \<and> le_term (xs ! i) = le_term (ys ! i)
          \<longrightarrow> take (Suc i) xs = take (Suc i) ys)"

text \<open>
  One step is one call of a public operation, or a restart: a new process constructs the node
  again, with any peer list, and restores it. The guards are what the callers in
  single_region_cluster.cpp and distributed_region_node.cpp establish: append requests number
  their entries from the previous index on, the hard state handed to \<open>Restore\<close> is not older than
  the node (a lost write of the hard state breaks this); terms and log lengths stay below
  \<open>2 ^ 64\<close>. \<open>SetCommitIndex\<close> has no guard.
\<close>

inductive raft_step :: "RaftNode \<Rightarrow> RaftNode \<Rightarrow> bool" where
  follower: "raft_step n (BecomeFollower t n)"
| candidate: "rn_current_term n \<noteq> - 1 \<Longrightarrow> raft_step n (BecomeCandidate n)"
| leader: "raft_step n (BecomeLeader n)"
| request_vote: "HandleRequestVote r n = (resp, n') \<Longrightarrow> raft_step n n'"
| append_entries:
    "request_wf (rn_region_id n) r \<Longrightarrow> HandleAppendEntries r n = Some (resp, n') \<Longrightarrow> raft_step n n'"
| propose: "Suc (length (rn_log n)) < 2 ^ 64 \<Longrightarrow> Propose ty c n = Inr (e, n') \<Longrightarrow> raft_step n n'"
| set_commit: "raft_step n (SetCommitIndex c n)"
| take_committed: "TakeCommittedEntries n = Some (es, n') \<Longrightarrow> raft_step n n'"
| restore: "hard_state_kept t v n \<Longrightarrow> raft_Restore t v c a log n = (status, n') \<Longrightarrow> raft_step n n'"
| restart:
    "hard_state_kept t v n \<Longrightarrow>
     raft_Restore t v c a log (RaftNode_new (rn_region_id n) (rn_self_id n) peers) = (Status_Ok, n') \<Longrightarrow>
     raft_step n n'"

text \<open>A vote cast in term \<open>t\<close> for \<open>c\<close>, as seen from any later state of the node.\<close>

definition voted_in :: "u64 \<Rightarrow> u64 \<Rightarrow> RaftNode \<Rightarrow> bool" where
  "voted_in t c n \<longleftrightarrow>
     t < rn_current_term n \<or> (rn_current_term n = t \<and> rn_voted_for n = Some c)"

section \<open>Logs with contiguous indices\<close>

lemma log_from_Nil [simp]: "log_from rid k []"
  by (simp add: log_from_def)

lemma log_from_Cons [simp]:
  "log_from rid k (e # es) \<longleftrightarrow>
     unat (le_index e) = Suc k \<and> le_region_id e = rid \<and> log_from rid (Suc k) es"
  by (auto simp: log_from_def nth_Cons less_Suc_eq_0_disj all_conj_distrib split: nat.splits)

lemma log_from_append [simp]:
  "log_from rid k (xs @ ys) \<longleftrightarrow> log_from rid k xs \<and> log_from rid (k + length xs) ys"
  by (induction xs arbitrary: k) auto

lemma log_from_take: "log_from rid k xs \<Longrightarrow> log_from rid k (take m xs)"
  by (simp add: log_from_def)

lemma log_from_nth:
  "log_from rid k es \<Longrightarrow> i < length es \<Longrightarrow> unat (le_index (es ! i)) = k + i + 1"
  by (simp add: log_from_def)

lemma unat_last_log_index:
  "log_from rid 0 (rn_log n) \<Longrightarrow> unat (last_log_index n) = length (rn_log n)"
  by (cases "rn_log n" rule: rev_cases) (auto simp: last_log_index_def)

lemma last_log_term_nth:
  "rn_log n \<noteq> [] \<Longrightarrow> last_log_term n = le_term (rn_log n ! (length (rn_log n) - 1))"
  by (simp add: last_log_term_def last_conv_nth)

section \<open>What each operation leaves alone\<close>

lemma BecomeFollower_frame [simp]:
  "rn_log (BecomeFollower t n) = rn_log n" "rn_commit_index (BecomeFollower t n) = rn_commit_index n"
  "rn_last_applied (BecomeFollower t n) = rn_last_applied n"
  "rn_region_id (BecomeFollower t n) = rn_region_id n" "rn_self_id (BecomeFollower t n) = rn_self_id n"
  "rn_role (BecomeFollower t n) = kFollower"
  "rn_current_term (BecomeFollower t n) = max (rn_current_term n) t"
  by (auto simp: BecomeFollower_def Let_def max_def)

lemma BecomeFollower_vote:
  "rn_voted_for (BecomeFollower t n) = (if rn_current_term n < t then None else rn_voted_for n)"
  by (simp add: BecomeFollower_def Let_def)

lemma push_entry_frame [simp]:
  "rn_log (push_entry e n) = rn_log n @ [e]" "rn_commit_index (push_entry e n) = rn_commit_index n"
  "rn_last_applied (push_entry e n) = rn_last_applied n" "rn_region_id (push_entry e n) = rn_region_id n"
  "rn_current_term (push_entry e n) = rn_current_term n" "rn_voted_for (push_entry e n) = rn_voted_for n"
  "rn_role (push_entry e n) = rn_role n" "rn_self_id (push_entry e n) = rn_self_id n"
  by (simp_all add: push_entry_def)

lemma DeleteFrom_frame [simp]:
  "rn_region_id (DeleteFrom i n) = rn_region_id n" "rn_current_term (DeleteFrom i n) = rn_current_term n"
  "rn_voted_for (DeleteFrom i n) = rn_voted_for n" "rn_role (DeleteFrom i n) = rn_role n"
  "rn_self_id (DeleteFrom i n) = rn_self_id n"
  by (simp_all add: DeleteFrom_def Let_def)

lemma append_entries_loop_frame:
  "append_entries_loop es n = Some (b, n') \<Longrightarrow>
     rn_current_term n' = rn_current_term n \<and> rn_voted_for n' = rn_voted_for n \<and>
     rn_region_id n' = rn_region_id n \<and> rn_role n' = rn_role n \<and> rn_self_id n' = rn_self_id n"
  by (induction es arbitrary: n) (auto simp: Let_def split: if_splits)

lemma last_log_index_frame [simp]:
  "last_log_index (BecomeFollower t n) = last_log_index n"
  "last_log_index (n\<lparr>rn_commit_index := c\<rparr>) = last_log_index n"
  "last_log_index (n\<lparr>rn_voted_for := v\<rparr>) = last_log_index n"
  by (simp_all add: last_log_index_def)

lemma step_down_frame [simp]:
  "rn_log (step_down t n) = rn_log n" "rn_commit_index (step_down t n) = rn_commit_index n"
  "rn_last_applied (step_down t n) = rn_last_applied n" "rn_region_id (step_down t n) = rn_region_id n"
  "rn_role (step_down t n) = kFollower" "last_log_index (step_down t n) = last_log_index n"
  "rn_self_id (step_down t n) = rn_self_id n"
  "\<not> t < rn_current_term n \<Longrightarrow> rn_current_term (step_down t n) = t"
  "rn_voted_for (step_down t n) = (if rn_current_term n < t then None else rn_voted_for n)"
  by (auto simp: step_down_def BecomeFollower_vote max_def)

lemma HasLogAt_step_down [simp]: "HasLogAt i t (step_down t' n) = HasLogAt i t n"
  by (simp add: HasLogAt_def)

lemma HasLogAt_range: "HasLogAt i t n \<Longrightarrow> unat i \<le> length (rn_log n)"
  by (auto simp: HasLogAt_def split: if_splits)

section \<open>Deleting a suffix and merging entries\<close>

lemma DeleteFrom_log:
  "unat i = Suc p \<Longrightarrow> p \<le> length (rn_log n) \<Longrightarrow> rn_log (DeleteFrom i n) = take p (rn_log n)"
  by (auto simp: DeleteFrom_def Let_def)

lemma DeleteFrom_indices:
  assumes i: "unat i = Suc p" and p: "p \<le> length (rn_log n)"
  shows "unat (rn_commit_index (DeleteFrom i n)) = min (unat (rn_commit_index n)) p"
    and "unat (rn_last_applied (DeleteFrom i n)) = min (unat (rn_last_applied n)) p"
proof -
  have "i \<noteq> 0" using i by auto
  then have "unat (i - 1) = p" using i by (simp add: unat_minus_one_pos)
  with i p \<open>i \<noteq> 0\<close> show "unat (rn_commit_index (DeleteFrom i n)) = min (unat (rn_commit_index n)) p"
    and "unat (rn_last_applied (DeleteFrom i n)) = min (unat (rn_last_applied n)) p"
    by (auto simp: DeleteFrom_def Let_def word_le_nat_alt min_def)
qed

lemma raft_wf_alt:
  "raft_wf n \<longleftrightarrow> log_from (rn_region_id n) 0 (rn_log n) \<and>
     unat (rn_last_applied n) \<le> unat (rn_commit_index n) \<and>
     unat (rn_commit_index n) \<le> length (rn_log n)"
  by (simp add: raft_wf_def word_le_nat_alt)

lemma merge_log_Nil [simp]: "merge_log [] es = es"
  by (cases es) simp_all

text \<open>
  The loop never leaves the vector and computes the textbook merge.
\<close>

lemma append_entries_loop_inv:
  assumes "raft_inv n" and "log_from (rn_region_id n) p es" and "p \<le> length (rn_log n)"
  shows "\<exists>n'. append_entries_loop es n = Some (True, n') \<and> raft_inv n' \<and>
     (rn_last_applied n \<le> rn_commit_index n \<longrightarrow> rn_last_applied n' \<le> rn_commit_index n') \<and>
     rn_log n' = take p (rn_log n) @ merge_log (drop p (rn_log n)) es"
  using assms
proof (induction es arbitrary: n p)
  case (Cons e es)
  let ?L = "rn_log n"
  have idx: "unat (le_index e) = Suc p" and rid: "le_region_id e = rn_region_id n"
    and es: "log_from (rn_region_id n) (Suc p) es"
    using Cons.prems(2) by simp_all
  have nz: "le_index e \<noteq> 0" using idx by auto
  have wf: "log_from (rn_region_id n) 0 ?L" using Cons.prems(1) by (simp add: raft_inv_def)
  have le: "le_index e \<le> last_log_index n \<longleftrightarrow> p < length ?L"
    using unat_last_log_index [OF wf] idx by (simp add: word_le_nat_alt Suc_le_eq)
  consider (same) "p < length ?L" "le_term (?L ! p) = le_term e"
    | (conflict) "p < length ?L" "le_term (?L ! p) \<noteq> le_term e"
    | (new) "p = length ?L"
    using Cons.prems(3) by linarith
  then show ?case
  proof cases
    case same
    then have "append_entries_loop (e # es) n = append_entries_loop es n"
      using nz le idx by (simp add: Let_def)
    moreover obtain n' where "append_entries_loop es n = Some (True, n')" and "raft_inv n'"
      and "rn_last_applied n \<le> rn_commit_index n \<longrightarrow> rn_last_applied n' \<le> rn_commit_index n'"
      and "rn_log n' = take (Suc p) ?L @ merge_log (drop (Suc p) ?L) es"
      using Cons.IH [OF Cons.prems(1) es] same(1) by auto
    moreover have "take (Suc p) ?L @ merge_log (drop (Suc p) ?L) es =
        take p ?L @ merge_log (drop p ?L) (e # es)"
      using same by (simp add: take_Suc_conv_app_nth Cons_nth_drop_Suc [symmetric])
    ultimately show ?thesis by auto
  next
    case conflict
    let ?n1 = "push_entry e (DeleteFrom (le_index e) n)"
    have log1: "rn_log ?n1 = take p ?L @ [e]"
      using DeleteFrom_log [OF idx Cons.prems(3)] by simp
    have ord: "rn_last_applied n \<le> rn_commit_index n \<longrightarrow> rn_last_applied ?n1 \<le> rn_commit_index ?n1"
      using DeleteFrom_indices [OF idx Cons.prems(3)] by (auto simp: word_le_nat_alt)
    have "raft_inv ?n1"
      using Cons.prems(1,3) wf idx rid DeleteFrom_indices [OF idx Cons.prems(3)]
      by (auto simp: raft_inv_def log1 log_from_take simp del: push_entry_frame(1))
    then obtain n' where "append_entries_loop es ?n1 = Some (True, n')" and "raft_inv n'"
      and "rn_last_applied ?n1 \<le> rn_commit_index ?n1 \<longrightarrow> rn_last_applied n' \<le> rn_commit_index n'"
      and "rn_log n' = take (Suc p) (rn_log ?n1) @ merge_log (drop (Suc p) (rn_log ?n1)) es"
      using Cons.IH [of ?n1 "Suc p"] es log1 conflict by auto
    moreover have "append_entries_loop (e # es) n = append_entries_loop es ?n1"
      using nz le idx conflict by (simp add: Let_def)
    moreover have "merge_log (drop p ?L) (e # es) = e # es"
      using conflict by (simp add: Cons_nth_drop_Suc [symmetric])
    ultimately show ?thesis using log1 conflict ord by auto
  next
    case new
    let ?n1 = "push_entry e n"
    have "raft_inv ?n1"
      using Cons.prems(1) idx rid new by (auto simp: raft_inv_def)
    then obtain n' where "append_entries_loop es ?n1 = Some (True, n')" and "raft_inv n'"
      and "rn_last_applied ?n1 \<le> rn_commit_index ?n1 \<longrightarrow> rn_last_applied n' \<le> rn_commit_index n'"
      and "rn_log n' = take (Suc p) (rn_log ?n1) @ merge_log (drop (Suc p) (rn_log ?n1)) es"
      using Cons.IH [of ?n1 "Suc p"] es new by auto
    moreover have "append_entries_loop (e # es) n = append_entries_loop es ?n1"
      using nz le new by simp
    ultimately show ?thesis using new by auto
  qed
qed simp

lemma raft_wf_inv: "raft_wf n \<longleftrightarrow> raft_inv n \<and> rn_last_applied n \<le> rn_commit_index n"
  by (auto simp: raft_wf_def raft_inv_def word_le_nat_alt)

lemma append_entries_loop_merge:
  assumes "raft_wf n" and "log_from (rn_region_id n) p es" and "p \<le> length (rn_log n)"
  shows "\<exists>n'. append_entries_loop es n = Some (True, n') \<and> raft_wf n' \<and>
     rn_log n' = take p (rn_log n) @ merge_log (drop p (rn_log n)) es"
  using append_entries_loop_inv [OF _ assms(2,3)] assms(1) by (auto simp: raft_wf_inv)

section \<open>Append entries on a well-formed node\<close>

lemma HandleAppendEntries_stale:
  "ae_term r < rn_current_term n \<Longrightarrow>
     HandleAppendEntries r n =
       Some (\<lparr>aer_term = rn_current_term n, aer_success = False, aer_match_index = last_log_index n\<rparr>, n)"
  by (simp add: HandleAppendEntries_def)

lemma HandleAppendEntries_mismatch:
  assumes "\<not> ae_term r < rn_current_term n"
    and "\<not> HasLogAt (ae_prev_log_index r) (ae_prev_log_term r) n"
  obtains resp n' where "HandleAppendEntries r n = Some (resp, n')" and "\<not> aer_success resp"
    and "aer_match_index resp = last_log_index n" and "rn_log n' = rn_log n"
    and "rn_commit_index n' = rn_commit_index n" and "rn_last_applied n' = rn_last_applied n"
    and "rn_region_id n' = rn_region_id n"
  using assms by (simp add: HandleAppendEntries_def Let_def)

lemma HandleAppendEntries_match_inv:
  assumes wf: "raft_inv n" and req: "request_wf (rn_region_id n) r"
    and t: "\<not> ae_term r < rn_current_term n"
    and prev: "HasLogAt (ae_prev_log_index r) (ae_prev_log_term r) n"
  obtains resp n' where "HandleAppendEntries r n = Some (resp, n')" and "aer_success resp"
    and "raft_inv n'"
    and "rn_last_applied n \<le> rn_commit_index n \<longrightarrow> rn_last_applied n' \<le> rn_commit_index n'"
    and "aer_match_index resp = last_log_index n'"
    and "rn_region_id n' = rn_region_id n" and "rn_current_term n' = ae_term r"
    and "rn_log n' = take (unat (ae_prev_log_index r)) (rn_log n) @
           merge_log (drop (unat (ae_prev_log_index r)) (rn_log n)) (ae_entries r)"
    and "ae_leader_commit r \<le> rn_commit_index n' \<or> unat (rn_commit_index n') = length (rn_log n')"
proof -
  let ?p = "unat (ae_prev_log_index r)"
  define n1 where "n1 = step_down (ae_term r) n"
  have n1: "rn_log n1 = rn_log n" "rn_region_id n1 = rn_region_id n" "raft_inv n1"
    "rn_current_term n1 = ae_term r" "rn_last_applied n1 = rn_last_applied n" "rn_commit_index n1 = rn_commit_index n"
    using wf t by (simp_all add: n1_def raft_inv_def)
  obtain n2 where n2: "append_entries_loop (ae_entries r) n1 = Some (True, n2)" "raft_inv n2"
    "rn_last_applied n \<le> rn_commit_index n \<longrightarrow> rn_last_applied n2 \<le> rn_commit_index n2"
    "rn_log n2 = take ?p (rn_log n) @ merge_log (drop ?p (rn_log n)) (ae_entries r)"
    using append_entries_loop_inv [OF n1(3), of ?p "ae_entries r"] req HasLogAt_range [OF prev] n1
    by (auto simp: request_wf_def)
  define n3 where "n3 = (if ae_leader_commit r > rn_commit_index n2
      then n2\<lparr>rn_commit_index := min (ae_leader_commit r) (last_log_index n2)\<rparr> else n2)"
  have last: "unat (last_log_index n2) = length (rn_log n2)"
    using n2(2) by (auto simp: raft_inv_def dest: unat_last_log_index)
  have frame: "rn_region_id n3 = rn_region_id n" "rn_current_term n3 = ae_term r"
    "rn_log n3 = rn_log n2" "last_log_index n3 = last_log_index n2"
    using append_entries_loop_frame [OF n2(1)] n1 by (auto simp: n3_def)
  have "raft_inv n3"
    using n2(2) last by (auto simp: n3_def raft_inv_def word_less_nat_alt min_def word_le_nat_alt)
  moreover have "rn_last_applied n \<le> rn_commit_index n \<longrightarrow> rn_last_applied n3 \<le> rn_commit_index n3"
    using n2(2,3) last by (auto simp: n3_def raft_inv_def min_def word_le_nat_alt word_less_nat_alt)
  moreover have "ae_leader_commit r \<le> rn_commit_index n3 \<or>
      unat (rn_commit_index n3) = length (rn_log n3)"
    using last by (auto simp: n3_def min_def not_less)
  moreover have "HandleAppendEntries r n =
      Some (\<lparr>aer_term = rn_current_term n1, aer_success = True, aer_match_index = last_log_index n3\<rparr>, n3)"
    using t prev n2(1) by (simp add: HandleAppendEntries_def Let_def n1_def n3_def)
  ultimately show thesis using that frame n2(4) by simp
qed

lemma HandleAppendEntries_match:
  assumes wf: "raft_wf n" and req: "request_wf (rn_region_id n) r"
    and t: "\<not> ae_term r < rn_current_term n"
    and prev: "HasLogAt (ae_prev_log_index r) (ae_prev_log_term r) n"
  obtains resp n' where "HandleAppendEntries r n = Some (resp, n')" and "aer_success resp"
    and "raft_wf n'" and "aer_match_index resp = last_log_index n'"
    and "rn_region_id n' = rn_region_id n" and "rn_current_term n' = ae_term r"
    and "rn_log n' = take (unat (ae_prev_log_index r)) (rn_log n) @
           merge_log (drop (unat (ae_prev_log_index r)) (rn_log n)) (ae_entries r)"
    and "ae_leader_commit r \<le> rn_commit_index n' \<or> unat (rn_commit_index n') = length (rn_log n')"
  by (rule HandleAppendEntries_match_inv [OF _ req t prev]) (use wf that in \<open>auto simp: raft_wf_inv\<close>)

lemma HandleAppendEntries_inv:
  assumes "raft_inv n" and "request_wf (rn_region_id n) r"
  obtains resp n' where "HandleAppendEntries r n = Some (resp, n')" and "raft_inv n'"
    and "rn_last_applied n \<le> rn_commit_index n \<longrightarrow> rn_last_applied n' \<le> rn_commit_index n'"
    and "rn_region_id n' = rn_region_id n"
proof (cases "ae_term r < rn_current_term n")
  case True
  then show thesis using that assms(1) by (simp add: HandleAppendEntries_stale)
next
  case False
  show thesis
  proof (cases "HasLogAt (ae_prev_log_index r) (ae_prev_log_term r) n")
    case True
    with False assms show thesis by (metis HandleAppendEntries_match_inv that)
  next
    case mismatch: False
    obtain resp n' where "HandleAppendEntries r n = Some (resp, n')" and "rn_log n' = rn_log n"
      and "rn_commit_index n' = rn_commit_index n" and "rn_last_applied n' = rn_last_applied n"
      and "rn_region_id n' = rn_region_id n"
      using HandleAppendEntries_mismatch [OF False mismatch] by metis
    with assms(1) that show thesis by (simp add: raft_inv_def)
  qed
qed

lemma HandleAppendEntries_wf:
  assumes "raft_wf n" and "request_wf (rn_region_id n) r"
  obtains resp n' where "HandleAppendEntries r n = Some (resp, n')" and "raft_wf n'"
    and "rn_region_id n' = rn_region_id n"
  by (rule HandleAppendEntries_inv [OF _ assms(2)]) (use assms(1) that in \<open>auto simp: raft_wf_inv\<close>)

lemma HandleAppendEntries_term_vote:
  assumes "HandleAppendEntries r n = Some (resp, n')"
  shows "rn_current_term n' = max (rn_current_term n) (ae_term r) \<or> n' = n"
    and "rn_current_term n' = rn_current_term n \<Longrightarrow> rn_voted_for n' = rn_voted_for n"
  using assms
  by (auto simp: HandleAppendEntries_def Let_def max_def
      dest!: append_entries_loop_frame split: if_splits option.splits bool.splits)

section \<open>Taking committed entries\<close>

lemma TakeCommittedEntries_eq:
  assumes "rn_last_applied n \<le> rn_commit_index n" and "unat (rn_commit_index n) \<le> length (rn_log n)"
  shows "TakeCommittedEntries n =
     Some (drop (unat (rn_last_applied n)) (take (unat (rn_commit_index n)) (rn_log n)),
           n\<lparr>rn_last_applied := rn_commit_index n\<rparr>)"
  using assms
proof (induction n rule: TakeCommittedEntries.induct)
  case (1 n)
  let ?a = "unat (rn_last_applied n)" and ?c = "unat (rn_commit_index n)"
  show ?case
  proof (cases "rn_last_applied n < rn_commit_index n")
    case True
    let ?n1 = "n\<lparr>rn_last_applied := rn_last_applied n + 1\<rparr>"
    have a: "unat (rn_last_applied n + 1) = Suc ?a" and lt: "?a < ?c"
      using True by (simp_all add: unat_Suc_less word_less_nat_alt)
    then have "rn_last_applied ?n1 \<le> rn_commit_index ?n1"
      by (simp add: word_le_nat_alt)
    then have "TakeCommittedEntries ?n1 =
        Some (drop (Suc ?a) (take ?c (rn_log n)), n\<lparr>rn_last_applied := rn_commit_index n\<rparr>)"
      using "1.IH" True a lt "1.prems"(2) by simp
    moreover have "drop ?a (take ?c (rn_log n)) = rn_log n ! ?a # drop (Suc ?a) (take ?c (rn_log n))"
      using lt "1.prems"(2) by (subst Cons_nth_drop_Suc [symmetric]) simp_all
    ultimately show ?thesis
      using True a lt "1.prems"(2) by (simp add: TakeCommittedEntries.simps [of n] Let_def)
  next
    case False
    with "1.prems"(1) have "rn_last_applied n = rn_commit_index n" by simp
    then show ?thesis by (simp add: TakeCommittedEntries.simps [of n])
  qed
qed

lemma TakeCommittedEntries_wf:
  assumes "raft_wf n"
  obtains es n' where "TakeCommittedEntries n = Some (es, n')" and "raft_wf n'"
    and "rn_current_term n' = rn_current_term n" and "rn_voted_for n' = rn_voted_for n"
  using assms TakeCommittedEntries_eq [of n] by (simp add: raft_wf_def)

lemma TakeCommittedEntries_inv:
  assumes "raft_inv n"
  obtains es n' where "TakeCommittedEntries n = Some (es, n')" and "raft_inv n'"
    and "rn_last_applied n \<le> rn_commit_index n \<longrightarrow> rn_last_applied n' \<le> rn_commit_index n'"
proof (cases "rn_last_applied n \<le> rn_commit_index n")
  case True
  with assms show thesis using TakeCommittedEntries_eq [of n] that by (simp add: raft_inv_def)
next
  case False
  then have "TakeCommittedEntries n = Some ([], n)" by (simp add: TakeCommittedEntries.simps [of n])
  with assms that False show thesis by blast
qed

lemma TakeCommittedEntries_frame:
  "TakeCommittedEntries n = Some (es, n') \<Longrightarrow>
     rn_current_term n' = rn_current_term n \<and> rn_voted_for n' = rn_voted_for n \<and>
     rn_region_id n' = rn_region_id n \<and> rn_log n' = rn_log n"
proof (induction n arbitrary: es rule: TakeCommittedEntries.induct)
  case (1 n)
  then show ?case
    by (auto simp: TakeCommittedEntries.simps [of n] Let_def split: if_splits)
qed

section \<open>Steps of a node\<close>

inductive_cases raft_stepE: "raft_step n n'"

lemma HandleRequestVote_frame:
  assumes "HandleRequestVote r n = (resp, n')"
  shows "rn_log n' = rn_log n" "rn_commit_index n' = rn_commit_index n"
    "rn_last_applied n' = rn_last_applied n" "rn_region_id n' = rn_region_id n"
    "rn_self_id n' = rn_self_id n" "rn_current_term n' = max (rn_current_term n) (rv_term r)"
  using assms by (auto simp: HandleRequestVote_def Let_def max_def split: if_splits)

lemma raft_wf_cong:
  "rn_log n' = rn_log n \<Longrightarrow> rn_commit_index n' = rn_commit_index n \<Longrightarrow>
   rn_last_applied n' = rn_last_applied n \<Longrightarrow> rn_region_id n' = rn_region_id n \<Longrightarrow>
   raft_wf n \<Longrightarrow> raft_wf n'"
  by (simp add: raft_wf_def)

lemma raft_inv_cong:
  "rn_log n' = rn_log n \<Longrightarrow> rn_commit_index n' = rn_commit_index n \<Longrightarrow>
   rn_last_applied n' = rn_last_applied n \<Longrightarrow> rn_region_id n' = rn_region_id n \<Longrightarrow>
   raft_inv n \<Longrightarrow> raft_inv n'"
  by (simp add: raft_inv_def)

lemma Propose_inv:
  assumes "raft_inv n" and "Suc (length (rn_log n)) < 2 ^ 64" and "Propose ty c n = Inr (e, n')"
  shows "raft_inv n' \<and> rn_last_applied n' = rn_last_applied n \<and> rn_commit_index n' = rn_commit_index n"
proof -
  have "unat (last_log_index n) = length (rn_log n)"
    using assms(1) by (auto simp: raft_inv_def dest: unat_last_log_index)
  then have "unat (last_log_index n + 1) = Suc (length (rn_log n))"
    using assms(2) by (simp add: unat_Suc_bound)
  with assms show ?thesis
    by (auto simp: Propose_def Let_def raft_inv_def split: if_splits)
qed

lemma Propose_wf [wf_intros]:
  assumes "raft_wf n" and "Suc (length (rn_log n)) < 2 ^ 64" and "Propose ty c n = Inr (e, n')"
  shows "raft_wf n' \<and> rn_log n' = rn_log n @ [e] \<and> unat (le_index e) = Suc (length (rn_log n)) \<and>
     le_term e = rn_current_term n \<and> le_command e = c"
proof -
  have "unat (last_log_index n) = length (rn_log n)"
    using assms(1) by (auto simp: raft_wf_def dest: unat_last_log_index)
  then have "unat (last_log_index n + 1) = Suc (length (rn_log n))"
    using assms(2) by (simp add: unat_Suc_bound)
  with assms show ?thesis
    by (auto simp: Propose_def Let_def raft_wf_def split: if_splits)
qed

lemma SetCommitIndex_wf [wf_intros]:
  assumes "raft_wf n" and "rn_last_applied n \<le> c"
  shows "raft_wf (SetCommitIndex c n)"
proof -
  have "unat (last_log_index n) = length (rn_log n)"
    using assms(1) by (auto simp: raft_wf_def dest: unat_last_log_index)
  with assms show ?thesis
    by (auto simp: SetCommitIndex_def raft_wf_alt min_def word_le_nat_alt)
qed

lemma SetCommitIndex_inv:
  assumes "raft_inv n"
  shows "raft_inv (SetCommitIndex c n)"
    and "rn_last_applied n \<le> c \<Longrightarrow> rn_last_applied (SetCommitIndex c n) \<le> rn_commit_index (SetCommitIndex c n)"
proof -
  have "unat (last_log_index n) = length (rn_log n)"
    using assms by (auto simp: raft_inv_def dest: unat_last_log_index)
  with assms show "raft_inv (SetCommitIndex c n)"
    and "rn_last_applied n \<le> c \<Longrightarrow> rn_last_applied (SetCommitIndex c n) \<le> rn_commit_index (SetCommitIndex c n)"
    by (auto simp: SetCommitIndex_def raft_inv_def min_def word_le_nat_alt)
qed

lemma check_restored_ok: "ok (check_restored rid i es) \<longleftrightarrow> log_from rid i es"
  by (induction rid i es rule: check_restored.induct) auto

lemma raft_Restore_result:
  assumes "raft_Restore t v c a log n = (status, n')"
  shows "\<not> ok status \<and> n' = n \<or>
    raft_wf n' \<and> rn_current_term n' = t \<and> rn_voted_for n' = v \<and>
    rn_region_id n' = rn_region_id n \<and> rn_self_id n' = rn_self_id n"
proof (cases "ok status")
  case True
  then have "ok (check_restored (rn_region_id n) 0 log)" "unat c \<le> length log" "a \<le> c"
    and n': "n' = n\<lparr>rn_role := kFollower, rn_current_term := t, rn_voted_for := v, rn_commit_index := c,
      rn_last_applied := a, rn_log := log\<rparr>"
    using assms by (auto simp: raft_Restore_def Let_def not_less split: if_splits)
  then have "raft_wf n'" by (simp add: raft_wf_def check_restored_ok)
  then show ?thesis by (simp add: n')
next
  case False
  then show ?thesis using assms by (auto simp: raft_Restore_def Let_def split: if_splits)
qed

lemma raft_Restore_ok:
  assumes "raft_Restore t v c a log n = (Status_Ok, n')"
  shows "raft_wf n' \<and> rn_current_term n' = t \<and> rn_voted_for n' = v \<and>
    rn_region_id n' = rn_region_id n \<and> rn_self_id n' = rn_self_id n"
  using raft_Restore_result [OF assms] by simp

lemma raft_step_inv: "raft_step n n' \<Longrightarrow> raft_inv n \<Longrightarrow> raft_inv n'"
proof (induction rule: raft_step.induct)
  case (append_entries n r resp n')
  then show ?case by (metis HandleAppendEntries_inv option.inject prod.inject)
next
  case (propose n ty c e n')
  then show ?case using Propose_inv by blast
next
  case (take_committed n es n')
  then show ?case by (metis TakeCommittedEntries_inv option.inject prod.inject)
next
  case (request_vote r n resp n')
  then show ?case using raft_inv_cong HandleRequestVote_frame(1-4) by metis
next
  case (set_commit n c)
  then show ?case by (rule SetCommitIndex_inv)
next
  case (restore t v n c a log status n')
  then show ?case by (metis raft_Restore_result raft_wf_inv)
next
  case (restart t v n c a log peers n')
  then show ?case by (metis raft_Restore_ok raft_wf_inv)
qed (simp_all add: BecomeCandidate_def BecomeLeader_def raft_inv_def)

lemma raft_step_order:
  "raft_step n n' \<Longrightarrow> raft_inv n \<Longrightarrow> rn_last_applied n \<le> rn_commit_index n \<Longrightarrow>
     rn_last_applied n' \<le> rn_commit_index n' \<or> (\<exists>c < rn_last_applied n. n' = SetCommitIndex c n)"
proof (induction rule: raft_step.induct)
  case (append_entries n r resp n')
  then show ?case by (metis HandleAppendEntries_inv option.inject prod.inject)
next
  case (propose n ty c e n')
  then show ?case using Propose_inv by metis
next
  case (take_committed n es n')
  then show ?case by (metis TakeCommittedEntries_inv option.inject prod.inject)
next
  case (set_commit n c)
  then show ?case using SetCommitIndex_inv(2) [of n c] by (metis not_le)
next
  case (restore t v n c a log status n')
  then show ?case by (metis raft_Restore_result raft_wf_inv)
next
  case (restart t v n c a log peers n')
  then show ?case by (metis raft_Restore_ok raft_wf_inv)
qed (simp_all add: BecomeCandidate_def BecomeLeader_def HandleRequestVote_frame)

lemma candidate_term: "rn_current_term n \<noteq> - 1 \<Longrightarrow> rn_current_term n < rn_current_term (BecomeCandidate n)"
proof -
  assume "rn_current_term n \<noteq> - 1"
  then have "rn_current_term n < - 1" using word_order.extremum_strict word_n1_ge by (metis order_le_less)
  then show ?thesis
    by (simp add: BecomeCandidate_def word_less_nat_alt unat_Suc_less)
qed

lemma raft_step_term: "raft_step n n' \<Longrightarrow> rn_current_term n \<le> rn_current_term n'"
proof (induction rule: raft_step.induct)
  case (candidate n)
  then show ?case using candidate_term by (metis order_less_imp_le)
next
  case (append_entries n r resp n')
  then show ?case using HandleAppendEntries_term_vote(1) by fastforce
next
  case (restore t v n c a log status n')
  then show ?case using raft_Restore_result [OF restore(2)] by (auto simp: hard_state_kept_def)
next
  case (restart t v n c a log peers n')
  then show ?case using raft_Restore_ok [OF restart(2)] by (auto simp: hard_state_kept_def)
qed (auto simp: BecomeLeader_def SetCommitIndex_def Propose_def Let_def HandleRequestVote_frame(6)
      dest: TakeCommittedEntries_frame split: if_splits)

lemma raft_step_vote:
  "raft_step n n' \<Longrightarrow> rn_current_term n' = rn_current_term n \<Longrightarrow> rn_voted_for n = Some c \<Longrightarrow>
     rn_voted_for n' = Some c"
proof (induction rule: raft_step.induct)
  case (candidate n)
  then show ?case using candidate_term by fastforce
next
  case (request_vote r n resp n')
  then show ?case
    by (auto simp: HandleRequestVote_def Let_def BecomeFollower_vote max_def split: if_splits)
next
  case (append_entries n r resp n')
  then show ?case using HandleAppendEntries_term_vote(2) by simp
next
  case (restore t v n c' a log status n')
  then show ?case using raft_Restore_result [OF restore(2)] by (auto simp: hard_state_kept_def)
next
  case (restart t v n c' a log peers n')
  then show ?case using raft_Restore_ok [OF restart(2)] by (auto simp: hard_state_kept_def)
qed (auto simp: BecomeLeader_def SetCommitIndex_def Propose_def Let_def BecomeFollower_vote max_def
      dest: TakeCommittedEntries_frame split: if_splits)

lemma raft_step_voted_in: "raft_step n n' \<Longrightarrow> voted_in t c n \<Longrightarrow> voted_in t c n'"
  using raft_step_term [of n n'] raft_step_vote [of n n' c] by (auto simp: voted_in_def)

interpretation raft: monotone_system raft_step raft_inv rn_current_term
  by unfold_locales (auto intro: raft_step_inv raft_step_term)

interpretation vote: step_system raft_step "voted_in t c" for t c
  by unfold_locales (rule raft_step_voted_in)

lemma raft_wf_new: "raft_wf (RaftNode_new rid self peers)"
  by (simp add: raft_wf_def RaftNode_new_def)

lemma raft_inv_new: "raft_inv (RaftNode_new rid self peers)"
  by (simp add: raft_inv_def RaftNode_new_def)

section \<open>Agreement with the leader's log\<close>

lemma log_matching_Cons:
  "log_matching (x # xs) (y # ys) \<Longrightarrow> le_term x = le_term y \<Longrightarrow> x = y \<and> log_matching xs ys"
  unfolding log_matching_def by (metis (no_types, lifting) Suc_less_eq length_Cons list.inject
      nth_Cons_0 nth_Cons_Suc take0 take_Suc_Cons zero_less_Suc)

lemma merge_log_matching:
  "log_matching xs es \<Longrightarrow>
     merge_log xs es = (if take (length es) xs = es then xs else es)"
proof (induction xs es rule: merge_log.induct)
  case (3 l ls e es)
  then show ?case by (auto dest: log_matching_Cons)
qed simp_all

lemma log_matching_drop:
  assumes "log_matching xs ys" and "take p xs = take p ys" and "p \<le> length xs" and "p \<le> length ys"
  shows "log_matching (drop p xs) (drop p ys)"
  unfolding log_matching_def
proof (intro allI impI)
  fix i
  assume "i < length (drop p xs) \<and> i < length (drop p ys) \<and>
      le_term (drop p xs ! i) = le_term (drop p ys ! i)"
  then have "take (Suc (p + i)) xs = take (Suc (p + i)) ys"
    using assms(1,3,4) by (simp add: log_matching_def less_diff_conv add.commute)
  then have "drop p (take (p + Suc i) xs) = drop p (take (p + Suc i) ys)" by simp
  then show "take (Suc i) (drop p xs) = take (Suc i) (drop p ys)"
    by (simp add: take_drop add.commute)
qed

lemma log_matching_take: "log_matching xs ys \<Longrightarrow> log_matching xs (take k ys)"
  by (auto simp: log_matching_def min_def)

lemma log_matching_sym: "log_matching xs ys \<Longrightarrow> log_matching ys xs"
  by (simp add: log_matching_def)

lemma log_matching_refl_take: "log_matching xs (take k xs)"
  by (rule log_matching_take) (simp add: log_matching_def)

lemma merge_from_leader:
  assumes m: "log_matching L F" and p: "take p F = take p L" "p \<le> length F" "p \<le> length L"
    and es: "es = take k (drop p L)"
  shows "take (p + length es) (take p F @ merge_log (drop p F) es) = take (p + length es) L \<and>
     log_matching L (take p F @ merge_log (drop p F) es)"
proof -
  have L: "take p L @ es = take (p + length es) L"
    using es p(3) by (cases "k \<le> length L - p") (simp_all add: take_add)
  have "log_matching (drop p F) es"
    unfolding es by (intro log_matching_take log_matching_drop log_matching_sym [OF m] p)
  then have merge: "merge_log (drop p F) es = (if take (length es) (drop p F) = es then drop p F else es)"
    by (rule merge_log_matching)
  show ?thesis
  proof (cases "take (length es) (drop p F) = es")
    case True
    then have "take (p + length es) F = take (p + length es) L"
      using p(1) L by (simp add: take_add)
    moreover have "take p F @ merge_log (drop p F) es = F"
      using True merge by simp
    ultimately show ?thesis using m by simp
  next
    case False
    with merge L p show ?thesis by (simp add: log_matching_refl_take)
  qed
qed

lemma log_matching_upto:
  assumes "log_matching L F" and "p \<le> length F" and "p \<le> length L"
    and "p \<noteq> 0 \<Longrightarrow> le_term (L ! (p - 1)) = le_term (F ! (p - 1))"
  shows "take p F = take p L"
proof (cases p)
  case (Suc i)
  then have "take (Suc i) L = take (Suc i) F"
    using assms by (simp add: log_matching_def)
  with Suc show ?thesis by simp
qed simp

section \<open>Properties\<close>

text \<open>
  C17. From a new node, whatever public operations run and however often the node is restored or
  the process restarted (append requests number their entries contiguously, a restored hard
  state is not older than the node's, terms and log length stay below \<open>2 ^ 64\<close>), the log stays
  numbered 1, 2, 3, \<open>\<dots>\<close>, neither the commit nor the applied index passes its end, the term
  never decreases, and neither append handling nor taking committed entries reads outside the
  log vector. The applied index stays within the commit index under every operation but one:
  the only call that can break this order is \<open>SetCommitIndex\<close> with a value below the applied
  index, which the code does not refuse.
\<close>

theorem raft_reachable_safe:
  assumes "raft_step\<^sup>*\<^sup>* (RaftNode_new rid self peers) n" and "raft_step\<^sup>*\<^sup>* n m"
    and "request_wf (rn_region_id m) r"
  shows "raft_inv m \<and> rn_current_term n \<le> rn_current_term m \<and>
     HandleAppendEntries r m \<noteq> None \<and> TakeCommittedEntries m \<noteq> None \<and>
     (\<forall>m'. raft_step m m' \<and> rn_last_applied m \<le> rn_commit_index m \<longrightarrow>
        rn_last_applied m' \<le> rn_commit_index m' \<or> (\<exists>c < rn_last_applied m. m' = SetCommitIndex c m))"
proof -
  have n: "raft_inv n" using raft.steps_invar [OF assms(1) raft_inv_new] .
  have m: "raft_inv m" using raft.steps_invar [OF assms(2) n] .
  have "rn_current_term n \<le> rn_current_term m" using raft.steps_rank [OF assms(2) n] .
  moreover have "HandleAppendEntries r m \<noteq> None" "TakeCommittedEntries m \<noteq> None"
    using HandleAppendEntries_inv [OF m assms(3)] TakeCommittedEntries_inv [OF m] by (metis option.distinct(1))+
  ultimately show ?thesis using m raft_step_order [OF _ m] by blast
qed

theorem raft_reachable_safe_witness:
  "let e = \<lparr>le_region_id = 1, le_index = 1, le_term = 1, le_type = kNormal, le_command = ''c''\<rparr>;
       n = BecomeCandidate (RaftNode_new 1 2 [1, 2, 3])
   in raft_inv (snd (raft_Restore 1 (Some 2) 1 1 [e] n)) \<and>
      rn_log (snd (raft_Restore 1 (Some 2) 1 1 [e] n)) = [e] \<and>
      TakeCommittedEntries (snd (raft_Restore 1 (Some 2) 1 1 [e] n)) \<noteq> None"
proof -
  let ?n = "BecomeCandidate (RaftNode_new 1 2 [1, 2, 3])"
  let ?e = "\<lparr>le_region_id = 1, le_index = 1, le_term = 1, le_type = kNormal, le_command = ''c''\<rparr>"
  let ?m = "snd (raft_Restore 1 (Some 2) 1 1 [?e] ?n)"
  have 1: "raft_step\<^sup>*\<^sup>* (RaftNode_new 1 2 [1, 2, 3]) ?n"
    by (intro r_into_rtranclp raft_step.candidate) (simp add: RaftNode_new_def)
  have 2: "raft_step\<^sup>*\<^sup>* ?n ?m"
    by (intro r_into_rtranclp raft_step.restore [OF _ surjective_pairing])
       (simp add: hard_state_kept_def BecomeCandidate_def RaftNode_new_def)
  have "rn_log ?m = [?e]"
    by (simp add: raft_Restore_def BecomeCandidate_def RaftNode_new_def Let_def)
  with raft_reachable_safe [OF 1 2, of "\<lparr>ae_region_id = 1, ae_term = 1, ae_leader_id = 1,
      ae_prev_log_index = 0, ae_prev_log_term = 0, ae_entries = [], ae_leader_commit = 0\<rparr>"]
  show ?thesis by (simp add: request_wf_def Let_def)
qed

text \<open>
  C16. One vote per term. If a node grants two vote requests and answers both in the same term,
  with any operations and restarts in between, both grants went to the same candidate. Between
  the grants the term does not wrap around, append requests number their entries contiguously,
  and a restored hard state is not older than the node's, which is what storage returns when the
  vote was written before the restart; a vote whose write failed can be cast again.
\<close>

theorem one_vote_per_term:
  assumes "HandleRequestVote r1 n0 = (resp1, n)" and "rvr_vote_granted resp1"
    and "raft_step\<^sup>*\<^sup>* n m"
    and "HandleRequestVote r2 m = (resp2, m')" and "rvr_vote_granted resp2"
    and "rvr_term resp1 = rvr_term resp2"
  shows "rv_candidate_id r1 = rv_candidate_id r2"
proof -
  have n: "rn_current_term n = rvr_term resp1" "rn_voted_for n = Some (rv_candidate_id r1)"
    using assms(1,2) by (auto simp: HandleRequestVote_def Let_def split: if_splits)
  have m': "rn_current_term m' = rvr_term resp2" "rn_voted_for m' = Some (rv_candidate_id r2)"
    using assms(4,5) by (auto simp: HandleRequestVote_def Let_def split: if_splits)
  have "raft_step\<^sup>*\<^sup>* n m'"
    using assms(3) raft_step.request_vote [OF assms(4)] by (rule rtranclp.rtrancl_into_rtrancl)
  moreover have "voted_in (rvr_term resp1) (rv_candidate_id r1) n"
    using n by (simp add: voted_in_def)
  ultimately have "voted_in (rvr_term resp1) (rv_candidate_id r1) m'"
    by (rule vote.steps_invar)
  with m' assms(6) show ?thesis by (simp add: voted_in_def)
qed

theorem one_vote_per_term_witness:
  "let r = \<lparr>rv_region_id = 1, rv_term = 1, rv_candidate_id = 2, rv_last_log_index = 0, rv_last_log_term = 0\<rparr>;
       n = snd (HandleRequestVote r (RaftNode_new 1 1 [1, 2]));
       m = snd (raft_Restore 1 (Some 2) 0 0 [] (RaftNode_new 1 1 [1, 2]))
   in rvr_vote_granted (fst (HandleRequestVote r (RaftNode_new 1 1 [1, 2]))) \<and> raft_step n m \<and>
      rvr_vote_granted (fst (HandleRequestVote r m)) \<and>
      \<not> rvr_vote_granted (fst (HandleRequestVote (r\<lparr>rv_candidate_id := 1\<rparr>) m))"
proof -
  let ?r = "\<lparr>rv_region_id = 1, rv_term = 1, rv_candidate_id = 2, rv_last_log_index = 0, rv_last_log_term = 0\<rparr>"
  let ?n = "snd (HandleRequestVote ?r (RaftNode_new 1 1 [1, 2]))"
  let ?m = "snd (raft_Restore 1 (Some 2) 0 0 [] (RaftNode_new 1 1 [1, 2]))"
  note vote = HandleRequestVote_def RaftNode_new_def BecomeFollower_def IsCandidateLogUpToDate_def
      last_log_term_def last_log_index_def raft_Restore_def Let_def
  have step: "raft_step ?n ?m"
    by (rule raft_step.restart [where t = 1 and v = "Some 2" and c = 0 and a = 0 and log = "[]" and peers = "[1, 2]"])
       (simp_all add: hard_state_kept_def vote)
  then have steps: "raft_step\<^sup>*\<^sup>* ?n ?m" by simp
  have same: "rvr_term (fst (HandleRequestVote ?r (RaftNode_new 1 1 [1, 2]))) =
      rvr_term (fst (HandleRequestVote (?r\<lparr>rv_candidate_id := 1\<rparr>) ?m))"
    by (simp add: vote)
  have grant: "rvr_vote_granted (fst (HandleRequestVote ?r (RaftNode_new 1 1 [1, 2])))"
    "rvr_vote_granted (fst (HandleRequestVote ?r ?m))"
    by (simp_all add: vote)
  have "\<not> rvr_vote_granted (fst (HandleRequestVote (?r\<lparr>rv_candidate_id := 1\<rparr>) ?m))"
    using one_vote_per_term [OF surjective_pairing grant(1) steps surjective_pairing _ same]
    by auto
  with step grant show ?thesis by (simp add: Let_def)
qed

text \<open>
  The vote rule. A vote is granted exactly when the request's term is not behind, no other
  candidate has the node's vote in that term, and the candidate's last entry is at least as
  recent as the node's own, comparing terms first and indices second; the node then is in the
  request's term with its vote recorded.
\<close>

theorem vote_granted_iff:
  "rvr_vote_granted (fst (HandleRequestVote r n)) \<longleftrightarrow>
     rn_current_term n \<le> rv_term r \<and>
     (rn_current_term n < rv_term r \<or> rn_voted_for n \<in> {None, Some (rv_candidate_id r)}) \<and>
     (last_log_term n < rv_last_log_term r \<or>
      last_log_term n = rv_last_log_term r \<and> last_log_index n \<le> rv_last_log_index r)"
  by (auto simp: HandleRequestVote_def Let_def IsCandidateLogUpToDate_def BecomeFollower_vote
      last_log_term_def last_log_index_def not_less not_le split: if_splits)

text \<open>
  C33. Log replication computes the textbook merge. When the previous entry matches, the new log
  is the old prefix up to it followed by the merge of the rest with the request's entries
  (entries that agree in term are kept, everything from the first disagreement on is
  replaced); the call succeeds and reports the end of the new log.
\<close>

theorem append_entries_merges:
  assumes "raft_wf n" and "request_wf (rn_region_id n) r" and "rn_current_term n \<le> ae_term r"
    and "HasLogAt (ae_prev_log_index r) (ae_prev_log_term r) n"
  shows "\<exists>resp n'. HandleAppendEntries r n = Some (resp, n') \<and> aer_success resp \<and> raft_wf n' \<and>
     rn_log n' = take (unat (ae_prev_log_index r)) (rn_log n) @
       merge_log (drop (unat (ae_prev_log_index r)) (rn_log n)) (ae_entries r) \<and>
     unat (aer_match_index resp) = length (rn_log n')"
proof -
  have t: "\<not> ae_term r < rn_current_term n" using assms(3) by simp
  obtain resp n' where "HandleAppendEntries r n = Some (resp, n')" "aer_success resp" "raft_wf n'"
    "aer_match_index resp = last_log_index n'"
    "rn_log n' = take (unat (ae_prev_log_index r)) (rn_log n) @
       merge_log (drop (unat (ae_prev_log_index r)) (rn_log n)) (ae_entries r)"
    using HandleAppendEntries_match [OF assms(1,2) t assms(4)] by metis
  then show ?thesis by (metis raft_wf_def unat_last_log_index)
qed

theorem append_entries_merges_witness:
  "let e = \<lparr>le_region_id = 1, le_index = 1, le_term = 1, le_type = kNormal, le_command = ''c''\<rparr>;
       r = \<lparr>ae_region_id = 1, ae_term = 1, ae_leader_id = 1, ae_prev_log_index = 0,
            ae_prev_log_term = 0, ae_entries = [e], ae_leader_commit = 0\<rparr>
   in \<exists>resp n'. HandleAppendEntries r (RaftNode_new 1 2 [1, 2]) = Some (resp, n') \<and> rn_log n' = [e]"
  using append_entries_merges [of "RaftNode_new 1 2 [1, 2]" "\<lparr>ae_region_id = 1, ae_term = 1, ae_leader_id = 1,
      ae_prev_log_index = 0, ae_prev_log_term = 0, ae_entries = [\<lparr>le_region_id = 1, le_index = 1,
      le_term = 1, le_type = kNormal, le_command = ''c''\<rparr>], ae_leader_commit = 0\<rparr>"]
  by (auto simp: raft_wf_def request_wf_def HasLogAt_def RaftNode_new_def Let_def)

text \<open>
  C15. Replication brings a follower into agreement with the leader. If the two logs satisfy
  log matching and the request carries a slice of the leader's log with the term of the entry
  before it, then a follower whose log agrees with that entry ends with a log that equals the
  leader's through the last entry sent, and log matching still holds.
\<close>

theorem append_entries_agrees_with_leader:
  assumes "raft_wf n" and "request_wf (rn_region_id n) r" and "rn_current_term n \<le> ae_term r"
    and "log_matching L (rn_log n)" and "unat (ae_prev_log_index r) \<le> length L"
    and "HasLogAt (ae_prev_log_index r) (ae_prev_log_term r) n"
    and "ae_prev_log_index r \<noteq> 0 \<Longrightarrow> le_term (L ! (unat (ae_prev_log_index r) - 1)) = ae_prev_log_term r"
    and "ae_entries r = take k (drop (unat (ae_prev_log_index r)) L)"
  shows "\<exists>resp n'. HandleAppendEntries r n = Some (resp, n') \<and> aer_success resp \<and>
     take (unat (ae_prev_log_index r) + length (ae_entries r)) (rn_log n') =
       take (unat (ae_prev_log_index r) + length (ae_entries r)) L \<and>
     log_matching L (rn_log n')"
proof -
  let ?p = "unat (ae_prev_log_index r)"
  have p: "?p \<le> length (rn_log n)" using HasLogAt_range [OF assms(6)] .
  have eq: "take ?p (rn_log n) = take ?p L"
    by (rule log_matching_upto [OF assms(4) p assms(5)])
       (use assms(6,7) p in \<open>auto simp: HasLogAt_def unat_eq_zero split: if_splits\<close>)
  have t: "\<not> ae_term r < rn_current_term n" using assms(3) by simp
  obtain resp n' where "HandleAppendEntries r n = Some (resp, n')" "aer_success resp"
    "rn_log n' = take ?p (rn_log n) @ merge_log (drop ?p (rn_log n)) (ae_entries r)"
    using HandleAppendEntries_match [OF assms(1,2) t assms(6)] by metis
  with merge_from_leader [OF assms(4) eq p assms(5,8)] show ?thesis by metis
qed

theorem append_entries_agrees_with_leader_witness:
  "let e = \<lparr>le_region_id = 1, le_index = 1, le_term = 1, le_type = kNormal, le_command = ''c''\<rparr>;
       r = \<lparr>ae_region_id = 1, ae_term = 1, ae_leader_id = 1, ae_prev_log_index = 0,
            ae_prev_log_term = 0, ae_entries = [e], ae_leader_commit = 0\<rparr>
   in \<exists>resp n'. HandleAppendEntries r (RaftNode_new 1 2 [1, 2]) = Some (resp, n') \<and> aer_success resp \<and>
        take 1 (rn_log n') = [e]"
  using append_entries_agrees_with_leader [of "RaftNode_new 1 2 [1, 2]" "\<lparr>ae_region_id = 1, ae_term = 1,
      ae_leader_id = 1, ae_prev_log_index = 0, ae_prev_log_term = 0, ae_entries = [\<lparr>le_region_id = 1,
      le_index = 1, le_term = 1, le_type = kNormal, le_command = ''c''\<rparr>], ae_leader_commit = 0\<rparr>"
      "[\<lparr>le_region_id = 1, le_index = 1, le_term = 1, le_type = kNormal, le_command = ''c''\<rparr>]" 1]
  by (auto simp: raft_wf_def request_wf_def HasLogAt_def RaftNode_new_def log_matching_def Let_def)

text \<open>
  Committed entries are handed out once, in log order. On a well-formed node taking the
  committed entries returns the log between the applied and the commit index and moves the
  applied index to the commit index; a second call right after returns nothing.
\<close>

theorem take_committed_once:
  assumes "raft_wf n"
  shows "\<exists>es n'. TakeCommittedEntries n = Some (es, n') \<and>
     take (unat (rn_last_applied n)) (rn_log n) @ es = take (unat (rn_commit_index n)) (rn_log n) \<and>
     rn_last_applied n' = rn_commit_index n \<and> TakeCommittedEntries n' = Some ([], n')"
proof -
  let ?a = "unat (rn_last_applied n)" and ?c = "unat (rn_commit_index n)"
  have a: "rn_last_applied n \<le> rn_commit_index n" and c: "?c \<le> length (rn_log n)"
    using assms by (simp_all add: raft_wf_def)
  have "take ?a (rn_log n) @ drop ?a (take ?c (rn_log n)) = take ?c (rn_log n)"
    using a append_take_drop_id [of ?a "take ?c (rn_log n)"] by (simp add: word_le_nat_alt min_def)
  then show ?thesis
    using TakeCommittedEntries_eq [OF a c] by (auto simp: TakeCommittedEntries.simps [of "n\<lparr>rn_last_applied := _\<rparr>"])
qed

theorem take_committed_once_witness:
  "\<exists>es n'. TakeCommittedEntries (RaftNode_new 1 2 [1, 2]) = Some (es, n') \<and> es = []"
  using take_committed_once [OF raft_wf_new [of 1 2 "[1, 2]"]] by (auto simp: RaftNode_new_def)

text \<open>
  Restoring a node succeeds exactly on well-formed persistent state. The call returns ok if
  and only if the log is numbered contiguously from 1 within the region, the commit index is
  within the log and the applied index within the commit index; the node then is a follower
  with that state and is well formed, and on failure it is unchanged.
\<close>

theorem restore_accepts_exactly_wf:
  "(ok (fst (raft_Restore t v c a log n)) \<longleftrightarrow>
      log_from (rn_region_id n) 0 log \<and> unat c \<le> length log \<and> a \<le> c) \<and>
   (if ok (fst (raft_Restore t v c a log n))
    then raft_wf (snd (raft_Restore t v c a log n)) \<and>
         rn_log (snd (raft_Restore t v c a log n)) = log \<and>
         rn_current_term (snd (raft_Restore t v c a log n)) = t \<and>
         rn_voted_for (snd (raft_Restore t v c a log n)) = v \<and>
         rn_role (snd (raft_Restore t v c a log n)) = kFollower
    else snd (raft_Restore t v c a log n) = n)"
  using check_restored_ok [of "rn_region_id n" 0 log]
  by (auto simp: raft_Restore_def Let_def raft_wf_def not_less not_le)



text \<open>
  A conflicting entry replaces a committed one. When an entry of the request disagrees in
  term with a log entry at or below the commit index, the append succeeds and the committed
  entry is gone from the log.
\<close>

theorem conflict_replaces_committed_entry:
  assumes "raft_wf n" and "rn_current_term n \<le> ae_term r"
    and "HasLogAt (ae_prev_log_index r) (ae_prev_log_term r) n"
    and "request_wf (rn_region_id n) r" and "ae_entries r = [e]"
    and "unat (ae_prev_log_index r) < unat (rn_commit_index n)"
    and "le_term (rn_log n ! unat (ae_prev_log_index r)) \<noteq> le_term e"
  shows "\<exists>resp n'. HandleAppendEntries r n = Some (resp, n') \<and> aer_success resp \<and>
     rn_log n' = take (unat (ae_prev_log_index r)) (rn_log n) @ [e]"
proof -
  let ?p = "unat (ae_prev_log_index r)"
  have t: "\<not> ae_term r < rn_current_term n" using assms(2) by simp
  have "?p < length (rn_log n)" using assms(1,6) by (simp add: raft_wf_def)
  then have "merge_log (drop ?p (rn_log n)) [e] = [e]"
    using assms(7) by (simp add: Cons_nth_drop_Suc [symmetric])
  then show ?thesis
    using HandleAppendEntries_match [OF assms(1,4) t assms(3)] assms(5) by metis
qed

theorem conflict_replaces_committed_entry_witness:
  "let e = \<lparr>le_region_id = 1, le_index = 1, le_term = 1, le_type = kNormal, le_command = ''c''\<rparr>;
       n = (RaftNode_new 1 2 [1, 2])\<lparr>rn_log := [e], rn_commit_index := 1, rn_last_applied := 1\<rparr>;
       r = \<lparr>ae_region_id = 1, ae_term = 2, ae_leader_id = 1, ae_prev_log_index = 0,
            ae_prev_log_term = 0, ae_entries = [e\<lparr>le_term := 2\<rparr>], ae_leader_commit = 0\<rparr>
   in \<exists>resp n'. HandleAppendEntries r n = Some (resp, n') \<and> aer_success resp \<and>
        rn_log n' = [e\<lparr>le_term := 2\<rparr>]"
  using conflict_replaces_committed_entry [of "(RaftNode_new 1 2 [1, 2])\<lparr>rn_log := [\<lparr>le_region_id = 1,
      le_index = 1, le_term = 1, le_type = kNormal, le_command = ''c''\<rparr>], rn_commit_index := 1,
      rn_last_applied := 1\<rparr>" "\<lparr>ae_region_id = 1, ae_term = 2, ae_leader_id = 1, ae_prev_log_index = 0,
        ae_prev_log_term = 0, ae_entries = [\<lparr>le_region_id = 1, le_index = 1, le_term = 2,
        le_type = kNormal, le_command = ''c''\<rparr>], ae_leader_commit = 0\<rparr>"]
  by (auto simp: raft_wf_def request_wf_def HasLogAt_def RaftNode_new_def Let_def)

end
