(* ===== verification/Raft_Storage.thy ===== *)
theory Raft_Storage
  imports File_Kv_Engine Raft_Node
begin

text \<open>
  raft_storage.cpp: the hard state and the log of a region as keys of a KV engine. The
  operations call the engine through its virtual function table, so their lemmas are proved
  from the contract \<open>kv_engine\<close> and hold for the file engine by its interpretation.
  \<open>None\<close> is an exception of \<open>std::stoull\<close> on a stored value or key that is not a number.
  The lemmas show that the zero-padded keys enumerate a log in index order, that the log and
  the hard state come back as they were saved, also after a restart, and what truncation
  deletes.
\<close>

section \<open>Operations\<close>

record HardState =
  hs_current_term :: u64
  hs_voted_for :: u64
  hs_commit_index :: u64
  hs_last_applied :: u64

fun EntryTypeToInt :: "EntryType \<Rightarrow> i32" where
  "EntryTypeToInt kNormal = 0"
| "EntryTypeToInt kConfigChange = 1"
| "EntryTypeToInt kSplit = 2"
| "EntryTypeToInt kNoop = 3"

definition EntryTypeFromInt :: "i32 \<Rightarrow> EntryType" where
  "EntryTypeFromInt v =
     (if v = 1 then kConfigChange else if v = 2 then kSplit else if v = 3 then kNoop else kNormal)"

definition SerializeLogEntry :: "LogEntry \<Rightarrow> string" where
  "SerializeLogEntry e =
     to_string (le_region_id e) @ SP # to_string (le_index e) @ SP # to_string (le_term e) @ SP #
     to_string_signed (EntryTypeToInt (le_type e)) @ SP # HexEncode (le_command e)"

definition ParseLogEntry :: "string \<Rightarrow> Status + LogEntry" where
  "ParseLogEntry v =
     (let (region_id, i1) = extract_u64 (Some v);
          (index, i2) = extract_u64 i1;
          (trm, i3) = extract_u64 i2;
          (typ, i4) = extract_i32 i3;
          (command_hex, i5) = extract_string i4
      in if i5 = None then Inl (InvalidArgument ''invalid serialized log entry'')
         else case HexDecode command_hex of
                Inl status \<Rightarrow> Inl status
              | Inr command \<Rightarrow>
                  Inr \<lparr>le_region_id = region_id, le_index = index, le_term = trm,
                       le_type = EntryTypeFromInt typ, le_command = command\<rparr>)"

definition RaftMetaKey :: "u64 \<Rightarrow> string \<Rightarrow> string" where
  "RaftMetaKey region_id name = ''raft/meta/'' @ to_string region_id @ ''/'' @ name"

text \<open>\<open>std::setw(20)\<close> with \<open>std::setfill('0')\<close>.\<close>

definition pad :: "nat \<Rightarrow> string \<Rightarrow> string" where
  "pad n s = replicate (n - length s) (CHR ''0'') @ s"

definition log_prefix :: "u64 \<Rightarrow> string" where
  "log_prefix region_id = ''raft/log/'' @ to_string region_id @ ''/''"

definition RaftLogKey :: "u64 \<Rightarrow> u64 \<Rightarrow> string" where
  "RaftLogKey region_id index =
     ''raft/log/'' @ to_string region_id @ ''/'' @ pad 20 (to_string index)"

definition SaveHardState :: "'e kv_vtable \<Rightarrow> u64 \<Rightarrow> HardState \<Rightarrow> 'e \<Rightarrow> Status \<times> 'e" where
  "SaveHardState ops region_id state e =
     vt_write_batch ops
       [mk_put (RaftMetaKey region_id ''current_term'') (to_string (hs_current_term state)),
        mk_put (RaftMetaKey region_id ''voted_for'') (to_string (hs_voted_for state)),
        mk_put (RaftMetaKey region_id ''commit_index'') (to_string (hs_commit_index state)),
        mk_put (RaftMetaKey region_id ''last_applied'') (to_string (hs_last_applied state))] e"

text \<open>One \<open>Get\<close> followed by \<open>stoull\<close>, and the four of them in order.\<close>

definition load_u64 :: "'e kv_vtable \<Rightarrow> string \<Rightarrow> 'e \<Rightarrow> (Status + u64) option" where
  "load_u64 ops key e =
     (case vt_get ops key e of
        Inl status \<Rightarrow> Some (Inl status)
      | Inr s \<Rightarrow> (case stoull s of None \<Rightarrow> None | Some v \<Rightarrow> Some (Inr v)))"

definition LoadHardState :: "'e kv_vtable \<Rightarrow> u64 \<Rightarrow> 'e \<Rightarrow> (Status + HardState) option" where
  "LoadHardState ops region_id e =
     (case load_u64 ops (RaftMetaKey region_id ''current_term'') e of
        None \<Rightarrow> None | Some (Inl status) \<Rightarrow> Some (Inl status)
      | Some (Inr t) \<Rightarrow>
     (case load_u64 ops (RaftMetaKey region_id ''voted_for'') e of
        None \<Rightarrow> None | Some (Inl status) \<Rightarrow> Some (Inl status)
      | Some (Inr v) \<Rightarrow>
     (case load_u64 ops (RaftMetaKey region_id ''commit_index'') e of
        None \<Rightarrow> None | Some (Inl status) \<Rightarrow> Some (Inl status)
      | Some (Inr c) \<Rightarrow>
     (case load_u64 ops (RaftMetaKey region_id ''last_applied'') e of
        None \<Rightarrow> None | Some (Inl status) \<Rightarrow> Some (Inl status)
      | Some (Inr a) \<Rightarrow>
          Some (Inr \<lparr>hs_current_term = t, hs_voted_for = v, hs_commit_index = c, hs_last_applied = a\<rparr>)))))"

definition AppendLog :: "'e kv_vtable \<Rightarrow> LogEntry \<Rightarrow> 'e \<Rightarrow> Status \<times> 'e" where
  "AppendLog ops entry e =
     vt_put ops (RaftLogKey (le_region_id entry) (le_index entry)) (SerializeLogEntry entry) e"

fun parse_entries :: "(string \<times> string) list \<Rightarrow> Status + LogEntry list" where
  "parse_entries [] = Inr []"
| "parse_entries ((unused_key, v) # records) =
     (case ParseLogEntry v of
        Inl status \<Rightarrow> Inl status
      | Inr entry \<Rightarrow>
          (case parse_entries records of
             Inl status \<Rightarrow> Inl status
           | Inr es \<Rightarrow> Inr (entry # es)))"

definition LoadLog :: "'e kv_vtable \<Rightarrow> u64 \<Rightarrow> 'e \<Rightarrow> Status + LogEntry list" where
  "LoadLog ops region_id e = parse_entries (vt_scan_prefix ops (log_prefix region_id) e)"

definition after_last_slash :: "string \<Rightarrow> string" where
  "after_last_slash key = rev (takeWhile (\<lambda>c. c \<noteq> CHR ''/'') (rev key))"

fun deletes_from :: "u64 \<Rightarrow> (string \<times> string) list \<Rightarrow> KvMutation list option" where
  "deletes_from first_index [] = Some []"
| "deletes_from first_index ((key, v) # records) =
     (if CHR ''/'' \<notin> set key then deletes_from first_index records
      else case stoull (after_last_slash key) of
             None \<Rightarrow> None
           | Some index \<Rightarrow>
               map_option (\<lambda>ms. if index \<ge> first_index then mk_delete key # ms else ms)
                 (deletes_from first_index records))"

definition DeleteLogsFrom :: "'e kv_vtable \<Rightarrow> u64 \<Rightarrow> u64 \<Rightarrow> 'e \<Rightarrow> (Status \<times> 'e) option" where
  "DeleteLogsFrom ops region_id first_index e =
     (case deletes_from first_index (vt_scan_prefix ops (log_prefix region_id) e) of
        None \<Rightarrow> None
      | Some mutations \<Rightarrow> Some (vt_write_batch ops mutations e))"

section \<open>Fixed-width numbers\<close>

fun fixed :: "nat \<Rightarrow> nat \<Rightarrow> string" where
  "fixed 0 i = []"
| "fixed (Suc n) i = fixed n (i div 10) @ [digit_char (i mod 10)]"

lemma length_fixed [simp]: "length (fixed n i) = n"
  by (induction n arbitrary: i) auto

lemma digit_char_0 [simp]: "digit_char 0 = CHR ''0''"
  by code_simp

lemma fixed_0: "fixed n 0 = replicate n (CHR ''0'')"
  by (induction n) (auto simp: replicate_append_same)

lemma pad_fixed: "i < 10 ^ n \<Longrightarrow> 0 < n \<Longrightarrow> pad n (show_nat i) = fixed n i \<and> length (show_nat i) \<le> n"
proof (induction n arbitrary: i)
  case (Suc n)
  show ?case
  proof (cases "i < 10")
    case True
    then show ?thesis by (simp add: pad_def show_nat.simps [of i] fixed_0)
  next
    case False
    have "0 < n" using False Suc.prems(1) by (cases n) auto
    moreover have "i div 10 < 10 ^ n" using Suc.prems(1) by (simp add: less_mult_imp_div_less)
    ultimately have "pad n (show_nat (i div 10)) = fixed n (i div 10) \<and> length (show_nat (i div 10)) \<le> n"
      using Suc.IH by simp
    with False show ?thesis by (simp add: pad_def show_nat.simps [of i] Suc_diff_le)
  qed
qed simp

lemma append_less_append:
  "length xs = length ys \<Longrightarrow> (xs :: string) < ys \<Longrightarrow> xs @ us < ys @ vs"
  by (induction xs ys rule: list_induct2) auto

lemma append_less_cancel [simp]: "(zs :: string) @ xs < zs @ ys \<longleftrightarrow> xs < ys"
  by (induction zs) auto

lemma digit_char_less: "a < b \<Longrightarrow> b < 10 \<Longrightarrow> digit_char a < digit_char b"
  by (simp add: less_char_def)

lemma fixed_less: "a < b \<Longrightarrow> b < 10 ^ n \<Longrightarrow> fixed n a < fixed n b"
proof (induction n arbitrary: a b)
  case (Suc n)
  have b: "b div 10 < 10 ^ n" using Suc.prems(2) by (simp add: less_mult_imp_div_less)
  show ?case
  proof (cases "a div 10 < b div 10")
    case True
    with Suc.IH b show ?thesis by (simp add: append_less_append)
  next
    case False
    then have "a div 10 = b div 10" using Suc.prems(1) by (simp add: not_less div_le_mono order.antisym)
    moreover from this have "a mod 10 < b mod 10"
      using Suc.prems(1) by (metis div_mult_mod_eq nat_add_left_cancel_less)
    ultimately show ?thesis by (simp add: digit_char_less)
  qed
qed simp

lemma u64_lt_10_20: "unat (w :: u64) < 10 ^ 20"
  using unsigned_less [of w, where 'a = nat] by simp

lemma pad_to_string: "pad 20 (to_string (w :: u64)) = fixed 20 (unat w)"
  using pad_fixed [OF u64_lt_10_20 [of w]] by (simp add: to_string_def)

lemma scan_digits_zeros: "scan_digits 0 (replicate n (CHR ''0'') @ s) = scan_digits 0 s"
  by (induction n) (auto simp: is_digit_def)

section \<open>Log keys\<close>

lemma RaftLogKey_prefix: "RaftLogKey r i = log_prefix r @ pad 20 (to_string i)"
  by (simp add: RaftLogKey_def log_prefix_def)

lemma RaftLogKey_mono: "i < j \<Longrightarrow> RaftLogKey r i < RaftLogKey r j"
proof -
  assume "i < j"
  then have "fixed 20 (unat i) < fixed 20 (unat j)"
    using fixed_less u64_lt_10_20 by (simp add: word_less_nat_alt)
  then show ?thesis
    by (simp add: RaftLogKey_prefix pad_to_string del: fixed.simps)
qed

lemma RaftLogKey_inj [simp]: "RaftLogKey r i = RaftLogKey r j \<longleftrightarrow> i = j"
  by (metis RaftLogKey_mono linorder_neq_iff order_less_irrefl)

lemma stoull_pad [codec_simps]: "stoull (pad 20 (to_string (w :: u64))) = Some w"
proof -
  obtain c cs where c: "show_nat (unat w) = c # cs" "is_digit c" by (rule show_nat_Cons)
  have d: "\<forall>x \<in> set (pad 20 (show_nat (unat w))). is_digit x"
    by (auto simp: pad_def dest: show_nat_digits) (simp add: is_digit_def)
  obtain a as where a: "pad 20 (show_nat (unat w)) = a # as"
    using c(1) by (cases "pad 20 (show_nat (unat w))") (auto simp: pad_def)
  then have "is_digit a" using d by simp
  moreover from this have "\<not> isspace a" "a \<noteq> CHR ''-''" "a \<noteq> CHR ''+''"
    by (auto dest: is_digit_not_space)
  moreover have "scan_digits 0 (pad 20 (show_nat (unat w))) = (unat w, [])"
    using scan_show_nat [of "[]" "unat w"] by (simp add: pad_def scan_digits_zeros)
  ultimately have "scan_number (pad 20 (show_nat (unat w))) = Some (False, unat w, [])"
    using a by (simp add: scan_number_def Let_def)
  then show ?thesis
    using unsigned_less [of w, where 'a = nat] by (simp add: stoull_def to_string_def)
qed

lemma pad_no_slash: "CHR ''/'' \<notin> set (pad 20 (to_string w))"
  by (auto simp: pad_def dest: to_string_digits)

lemma after_last_slash_log_key [codec_simps]: "after_last_slash (RaftLogKey r i) = pad 20 (to_string i)"
proof -
  have "takeWhile (\<lambda>c. c \<noteq> CHR ''/'') (rev (pad 20 (to_string i)) @ CHR ''/'' # rest) =
      rev (pad 20 (to_string i))" for rest
    by (rule split_at_first) (simp add: pad_no_slash)
  then show ?thesis by (simp add: after_last_slash_def RaftLogKey_def)
qed

lemma slash_in_log_key [simp]: "CHR ''/'' \<in> set (RaftLogKey r i)"
  by (simp add: RaftLogKey_def)

lemma takeWhile_digits_slash: "takeWhile is_digit (to_string w @ CHR ''/'' # f) = to_string w"
  by (subst takeWhile_append2) (auto dest: to_string_digits simp: is_digit_def)

lemma digits_slash_inj: "to_string v @ CHR ''/'' # s = to_string w @ CHR ''/'' # t \<longleftrightarrow> v = w \<and> s = t"
  by (metis append_same_eq list.inject same_append_eq takeWhile_digits_slash to_string_inj)

lemma RaftMetaKey_inj [simp]: "RaftMetaKey r n = RaftMetaKey r' n' \<longleftrightarrow> r = r' \<and> n = n'"
  by (simp add: RaftMetaKey_def digits_slash_inj)

lemma prefix_log_meta [simp]: "\<not> prefix (log_prefix r) (RaftMetaKey r' n)"
  by (simp add: log_prefix_def RaftMetaKey_def)

lemma prefix_log_key [simp]: "prefix (log_prefix r) (RaftLogKey r' i) \<longleftrightarrow> r = r'"
proof
  assume "prefix (log_prefix r) (RaftLogKey r' i)"
  then obtain t where "to_string r' @ CHR ''/'' # pad 20 (to_string i) = to_string r @ CHR ''/'' # t"
    by (auto simp: log_prefix_def RaftLogKey_def prefix_def)
  then show "r = r'" by (simp add: digits_slash_inj)
qed (simp add: RaftLogKey_prefix)

lemma keys_nonempty [simp]: "RaftLogKey r i \<noteq> []" "RaftMetaKey r n \<noteq> []"
  by (simp_all add: RaftLogKey_def RaftMetaKey_def)

lemma log_key_not_meta [simp]: "RaftLogKey r i \<noteq> RaftMetaKey r' n" "RaftMetaKey r' n \<noteq> RaftLogKey r i"
  by (simp_all add: RaftLogKey_def RaftMetaKey_def)

section \<open>Serialized entries\<close>

lemma EntryType_int [simp]: "EntryTypeFromInt (EntryTypeToInt t) = t"
  by (cases t) (simp_all add: EntryTypeFromInt_def)

lemma extract_i32_signed [codec_simps]:
  "rest = [] \<or> \<not> is_digit (hd rest) \<Longrightarrow>
     extract_i32 (Some (to_string_signed (w :: i32) @ rest)) = (w, Some rest)"
proof -
  assume "rest = [] \<or> \<not> is_digit (hd rest)"
  then obtain neg n where "scan_number (show_int (sint w) @ rest) = Some (neg, n, rest)"
    and "signed_value neg n = sint w"
    by (rule scan_number_show_int)
  with sint_range32 [of w] show ?thesis by (simp add: to_string_signed_def not_less not_le)
qed

lemma parse_serialized [codec_simps]:
  "le_command e \<noteq> [] \<Longrightarrow> ParseLogEntry (SerializeLogEntry e) = Inr e"
  by (simp add: ParseLogEntry_def SerializeLogEntry_def codec_simps is_digit_def Let_def
      del: extract_string.simps extract_u64.simps extract_i32.simps)

lemma parse_serialized_empty:
  "le_command e = [] \<Longrightarrow>
     ParseLogEntry (SerializeLogEntry e) = Inl (InvalidArgument ''invalid serialized log entry'')"
  by (simp add: ParseLogEntry_def SerializeLogEntry_def codec_simps is_digit_def Let_def
      del: extract_string.simps extract_u64.simps extract_i32.simps)

section \<open>The log of a region in the engine\<close>

text \<open>
  \<open>stored_log r L m\<close>: the keys of \<open>m\<close> under the log prefix of region \<open>r\<close> are exactly the
  entries of \<open>L\<close>, which is sorted by index. \<open>upsert_log\<close> is what writing one entry does.
\<close>

definition log_record_of :: "LogEntry \<Rightarrow> string \<times> string" where
  "log_record_of e = (RaftLogKey (le_region_id e) (le_index e), SerializeLogEntry e)"

definition stored_log :: "u64 \<Rightarrow> LogEntry list \<Rightarrow> kv_map \<Rightarrow> bool" where
  "stored_log r L m \<longleftrightarrow>
     sorted_wrt (\<lambda>a b. le_index a < le_index b) L \<and> (\<forall>e \<in> set L. le_region_id e = r) \<and>
     filter (\<lambda>kv. prefix (log_prefix r) (fst kv)) (entries m) = map log_record_of L"

definition upsert_log :: "LogEntry \<Rightarrow> LogEntry list \<Rightarrow> LogEntry list" where
  "upsert_log e L =
     filter (\<lambda>x. le_index x < le_index e) L @ e # filter (\<lambda>x. le_index e < le_index x) L"

lemma map_of_log_records:
  assumes "sorted_wrt (\<lambda>a b. le_index a < le_index b) L" and "\<forall>e \<in> set L. le_region_id e = r"
  shows "map_of (map log_record_of L) k = Some v \<longleftrightarrow>
    (\<exists>e \<in> set L. k = RaftLogKey r (le_index e) \<and> v = SerializeLogEntry e)"
proof -
  have "distinct (map fst (map log_record_of L))"
    using assms by (induction L) (auto simp: log_record_of_def)
  then have "map_of (map log_record_of L) k = Some v \<longleftrightarrow> (k, v) \<in> set (map log_record_of L)"
    by (rule map_of_eq_Some_iff)
  also have "\<dots> \<longleftrightarrow> (\<exists>e \<in> set L. k = RaftLogKey r (le_index e) \<and> v = SerializeLogEntry e)"
    using assms(2) by (auto simp: log_record_of_def)
  finally show ?thesis .
qed

lemma sorted_log_records:
  assumes "sorted_wrt (\<lambda>a b. le_index a < le_index b) L" and "\<forall>e \<in> set L. le_region_id e = r"
  shows "sorted_wrt (<) (map fst (map log_record_of L))"
  using assms by (induction L) (auto simp: log_record_of_def RaftLogKey_mono)

lemma stored_log_iff:
  "stored_log r L m \<longleftrightarrow>
     sorted_wrt (\<lambda>a b. le_index a < le_index b) L \<and> (\<forall>e \<in> set L. le_region_id e = r) \<and>
     (\<forall>k v. prefix (log_prefix r) k \<and> fmlookup m k = Some v \<longleftrightarrow>
        (\<exists>e \<in> set L. k = RaftLogKey r (le_index e) \<and> v = SerializeLogEntry e))"
proof -
  let ?m = "fmfilter (prefix (log_prefix r)) m"
  let ?R = "\<lambda>k v. \<exists>e \<in> set L. k = RaftLogKey r (le_index e) \<and> v = SerializeLogEntry e"
  have look: "(prefix (log_prefix r) k \<and> fmlookup m k = Some v) \<longleftrightarrow> fmlookup ?m k = Some v" for k v
    by simp
  have "filter (\<lambda>kv. prefix (log_prefix r) (fst kv)) (entries m) = map log_record_of L \<longleftrightarrow>
      (\<forall>k v. prefix (log_prefix r) k \<and> fmlookup m k = Some v \<longleftrightarrow> ?R k v)"
    if L: "sorted_wrt (\<lambda>a b. le_index a < le_index b) L" "\<forall>e \<in> set L. le_region_id e = r"
    unfolding look entries_fmfilter [symmetric]
  proof
    assume "entries ?m = map log_record_of L"
    then have "fmlookup ?m = map_of (map log_record_of L)" by (metis map_of_entries)
    then show "\<forall>k v. fmlookup ?m k = Some v \<longleftrightarrow> ?R k v"
      using map_of_log_records [OF L] by simp
  next
    assume "\<forall>k v. fmlookup ?m k = Some v \<longleftrightarrow> ?R k v"
    then have "map_of (map log_record_of L) k = fmlookup ?m k" for k
      using map_of_log_records [OF L, of k] by (metis not_Some_eq)
    then show "entries ?m = map log_record_of L"
      by (rule entries_eqI [OF sorted_log_records [OF L]])
  qed
  then show ?thesis
    unfolding stored_log_def by (intro conj_cong refl)
qed

lemma stored_log_frame [fm_simps]:
  assumes "\<not> prefix (log_prefix r) k"
  shows "stored_log r L (fmupd k v m) = stored_log r L m"
proof -
  have "(prefix (log_prefix r) k' \<and> fmlookup (fmupd k v m) k' = Some v') \<longleftrightarrow>
      (prefix (log_prefix r) k' \<and> fmlookup m k' = Some v')" for k' v'
    using assms by auto
  then show ?thesis unfolding stored_log_iff by simp
qed

lemma sorted_upsert:
  assumes "sorted_wrt (\<lambda>a b. le_index a < le_index b) L"
  shows "sorted_wrt (\<lambda>a b. le_index a < le_index b) (upsert_log e L)"
  using assms by (auto simp: upsert_log_def sorted_wrt_append sorted_wrt_filter)

lemma set_upsert: "set (upsert_log e L) = insert e {x \<in> set L. le_index x \<noteq> le_index e}"
  by (auto simp: upsert_log_def)

lemma stored_log_upsert:
  assumes "stored_log r L m" and "le_region_id e = r"
  shows "stored_log r (upsert_log e L) (fmupd (RaftLogKey r (le_index e)) (SerializeLogEntry e) m)"
  using assms unfolding stored_log_iff
  by (auto simp: sorted_upsert set_upsert)

lemma upsert_log_last:
  "\<forall>x \<in> set L. le_index x < le_index e \<Longrightarrow> upsert_log e L = L @ [e]"
  by (auto simp: upsert_log_def filter_empty_conv filter_id_conv not_less dest: order.strict_implies_order)

section \<open>Operations through the engine contract\<close>

lemma parse_log_records:
  "\<forall>e \<in> set L. le_command e \<noteq> [] \<Longrightarrow> parse_entries (map log_record_of L) = Inr L"
  by (induction L) (auto simp: log_record_of_def parse_serialized)

lemma parse_log_records_empty:
  "\<exists>e \<in> set L. le_command e = [] \<Longrightarrow>
     parse_entries (map log_record_of L) = Inl (InvalidArgument ''invalid serialized log entry'')"
proof (induction L)
  case (Cons a L)
  then show ?case
    by (cases "le_command a = []") (auto simp: log_record_of_def parse_serialized parse_serialized_empty)
qed simp

lemma deletes_log_records:
  "deletes_from i (map log_record_of L) =
     Some (map (\<lambda>e. mk_delete (RaftLogKey (le_region_id e) (le_index e))) (filter (\<lambda>e. i \<le> le_index e) L))"
  by (induction L) (auto simp: log_record_of_def codec_simps)

lemma stored_log_truncate:
  assumes "stored_log r L m"
  shows "stored_log r (filter (\<lambda>e. le_index e < i) L)
    (apply_mutations (map mk_delete (map (\<lambda>e. RaftLogKey r (le_index e)) (filter (\<lambda>e. i \<le> le_index e) L))) m)"
proof -
  let ?ks = "map (\<lambda>e. RaftLogKey r (le_index e)) (filter (\<lambda>e. i \<le> le_index e) L)"
  have look: "fmlookup (apply_mutations (map mk_delete ?ks) m) k =
      (if k \<in> set ?ks then None else fmlookup m k)" for k
    by (rule apply_deletes_lookup)
  have H: "(prefix (log_prefix r) k \<and> fmlookup m k = Some v) \<longleftrightarrow>
      (\<exists>e \<in> set L. k = RaftLogKey r (le_index e) \<and> v = SerializeLogEntry e)" for k v
    using assms by (simp add: stored_log_iff)
  have "(prefix (log_prefix r) k \<and> (if k \<in> set ?ks then None else fmlookup m k) = Some v) \<longleftrightarrow>
      k \<notin> set ?ks \<and> (\<exists>e \<in> set L. k = RaftLogKey r (le_index e) \<and> v = SerializeLogEntry e)" for k v
    unfolding H [symmetric] by auto
  moreover have "k \<notin> set ?ks \<and> (\<exists>e \<in> set L. k = RaftLogKey r (le_index e) \<and> v = SerializeLogEntry e) \<longleftrightarrow> (\<exists>e \<in> set (filter (\<lambda>e. le_index e < i) L).
      k = RaftLogKey r (le_index e) \<and> v = SerializeLogEntry e)" for k v
    by (auto simp: image_iff not_le)
  ultimately show ?thesis
    using assms unfolding stored_log_iff look by (simp add: sorted_wrt_filter)
qed

context kv_engine
begin

lemma LoadLog_stored:
  "stored_log r L (contents e) \<Longrightarrow> \<forall>x \<in> set L. le_command x \<noteq> [] \<Longrightarrow> LoadLog ops r e = Inr L"
  by (simp add: LoadLog_def scan_prefix_contents stored_log_def parse_log_records)

lemma LoadLog_empty_command:
  "stored_log r L (contents e) \<Longrightarrow> \<exists>x \<in> set L. le_command x = [] \<Longrightarrow>
     LoadLog ops r e = Inl (InvalidArgument ''invalid serialized log entry'')"
  by (simp add: LoadLog_def scan_prefix_contents stored_log_def parse_log_records_empty)

lemma AppendLog_contents:
  assumes "healthy e"
  obtains e' where "AppendLog ops x e = (Status_Ok, e')" and "healthy e'"
    and "contents e' = fmupd (RaftLogKey (le_region_id x) (le_index x)) (SerializeLogEntry x) (contents e)"
proof -
  let ?ms = "[mk_put (RaftLogKey (le_region_id x) (le_index x)) (SerializeLogEntry x)]"
  obtain e' where "vt_write_batch ops ?ms e = (Status_Ok, e')" and "healthy e'"
    and "contents e' = apply_mutations ?ms (contents e)"
    by (rule batch_eq [OF assms])
  then show thesis using that by (simp add: AppendLog_def put_batch)
qed

lemma AppendLog_stored:
  assumes "healthy e" and "stored_log r L (contents e)" and "le_region_id x = r"
  obtains e' where "AppendLog ops x e = (Status_Ok, e')" and "healthy e'"
    and "stored_log r (upsert_log x L) (contents e')"
  using assms stored_log_upsert by (metis AppendLog_contents)

lemma AppendLog_other_region:
  assumes "healthy e" and "stored_log r L (contents e)" and "le_region_id x \<noteq> r"
  shows "stored_log r L (contents (snd (AppendLog ops x e)))"
  using assms by (rule_tac AppendLog_contents [of e x]) (auto simp: stored_log_frame)

lemma DeleteLogsFrom_stored:
  assumes "healthy e" and "stored_log r L (contents e)"
  obtains e' ms where "DeleteLogsFrom ops r i e = Some (Status_Ok, e')" and "healthy e'"
    and "stored_log r (filter (\<lambda>x. le_index x < i) L) (contents e')"
    and "vt_write_batch ops ms e = (Status_Ok, e')" and "\<forall>m \<in> set ms. \<exists>i. m = mk_delete (RaftLogKey r i)"
proof -
  let ?ms = "map mk_delete (map (\<lambda>e. RaftLogKey r (le_index e)) (filter (\<lambda>e. i \<le> le_index e) L))"
  have rid: "\<forall>x \<in> set L. le_region_id x = r" using assms(2) by (simp add: stored_log_def)
  have "deletes_from i (vt_scan_prefix ops (log_prefix r) e) = Some ?ms"
    using assms(2) rid by (simp add: scan_prefix_contents stored_log_def deletes_log_records comp_def cong: map_cong)
  moreover obtain e' where "vt_write_batch ops ?ms e = (Status_Ok, e')" and "healthy e'"
    and "contents e' = apply_mutations ?ms (contents e)"
    using batch_eq [OF assms(1)] by metis
  ultimately show thesis
    using that [of e' ?ms] stored_log_truncate [OF assms(2), of i] by (auto simp: DeleteLogsFrom_def)
qed

lemma LoadHardState_cong:
  assumes "\<And>n. fmlookup (contents e) (RaftMetaKey r n) = fmlookup (contents e') (RaftMetaKey r n)"
  shows "LoadHardState ops r e = LoadHardState ops r e'"
proof -
  have "load_u64 ops (RaftMetaKey r n) e = load_u64 ops (RaftMetaKey r n) e'" for n
    by (simp add: load_u64_def get_contents assms)
  then show ?thesis by (simp only: LoadHardState_def)
qed

lemma AppendLog_hard_state: "healthy e \<Longrightarrow> LoadHardState ops r (snd (AppendLog ops x e)) = LoadHardState ops r e"
  by (rule LoadHardState_cong) (rule AppendLog_contents [of e x], simp_all)

lemma SaveHardState_contents:
  assumes "healthy e"
  obtains e' where "SaveHardState ops r hs e = (Status_Ok, e')" and "healthy e'"
    and "LoadHardState ops r e' = Some (Inr hs)"
    and "\<And>r'. r' \<noteq> r \<Longrightarrow> LoadHardState ops r' e' = LoadHardState ops r' e"
    and "\<And>r' L. stored_log r' L (contents e') = stored_log r' L (contents e)"
proof -
  obtain e' where e': "SaveHardState ops r hs e = (Status_Ok, e')" "healthy e'"
    "contents e' = apply_mutations
       [mk_put (RaftMetaKey r ''current_term'') (to_string (hs_current_term hs)),
        mk_put (RaftMetaKey r ''voted_for'') (to_string (hs_voted_for hs)),
        mk_put (RaftMetaKey r ''commit_index'') (to_string (hs_commit_index hs)),
        mk_put (RaftMetaKey r ''last_applied'') (to_string (hs_last_applied hs))] (contents e)"
    unfolding SaveHardState_def by (rule batch_eq [OF assms])
  then have c: "contents e' = fmupd (RaftMetaKey r ''last_applied'') (to_string (hs_last_applied hs))
      (fmupd (RaftMetaKey r ''commit_index'') (to_string (hs_commit_index hs))
      (fmupd (RaftMetaKey r ''voted_for'') (to_string (hs_voted_for hs))
      (fmupd (RaftMetaKey r ''current_term'') (to_string (hs_current_term hs)) (contents e))))"
    by simp
  show thesis
  proof (rule that [OF e'(1,2)])
    show "LoadHardState ops r e' = Some (Inr hs)"
      by (simp add: LoadHardState_def load_u64_def get_contents c stoull_to_string)
    show "LoadHardState ops r' e' = LoadHardState ops r' e" if "r' \<noteq> r" for r'
      by (rule LoadHardState_cong) (use that in \<open>simp add: c\<close>)
    show "stored_log r' L (contents e') = stored_log r' L (contents e)" for r' L
      by (simp add: c stored_log_frame)
  qed
qed

end

section \<open>The storage as an abstract log with a hard state\<close>

text \<open>
  The operations on the storage of one region, their effect on an abstract state, and the
  relation between that state and an engine.
\<close>

datatype storage_op = OpAppend LogEntry | OpTruncate u64 | OpHard HardState

record raft_state =
  rs_log :: "LogEntry list"
  rs_hard :: "HardState option"

fun spec_op :: "storage_op \<Rightarrow> raft_state \<Rightarrow> raft_state" where
  "spec_op (OpAppend x) s = s\<lparr>rs_log := upsert_log x (rs_log s)\<rparr>"
| "spec_op (OpTruncate i) s = s\<lparr>rs_log := filter (\<lambda>x. le_index x < i) (rs_log s)\<rparr>"
| "spec_op (OpHard h) s = s\<lparr>rs_hard := Some h\<rparr>"

fun storage_step :: "u64 \<Rightarrow> storage_op \<Rightarrow> FileKvEngine \<Rightarrow> (Status \<times> FileKvEngine) option" where
  "storage_step r (OpAppend x) e = Some (AppendLog file_kv_ops x e)"
| "storage_step r (OpTruncate i) e = DeleteLogsFrom file_kv_ops r i e"
| "storage_step r (OpHard h) e = Some (SaveHardState file_kv_ops r h e)"

fun storage_run :: "u64 \<Rightarrow> storage_op list \<Rightarrow> FileKvEngine \<Rightarrow> FileKvEngine option" where
  "storage_run r [] e = Some e"
| "storage_run r (op # rest) e =
     (case storage_step r op e of
        Some (status, e') \<Rightarrow> if ok status then storage_run r rest e' else None
      | None \<Rightarrow> None)"

definition op_for :: "u64 \<Rightarrow> storage_op \<Rightarrow> bool" where
  "op_for r op = (case op of OpAppend x \<Rightarrow> le_region_id x = r \<and> le_command x \<noteq> [] | _ \<Rightarrow> True)"

definition hard_loads :: "u64 \<Rightarrow> HardState option \<Rightarrow> FileKvEngine \<Rightarrow> bool" where
  "hard_loads r h e \<longleftrightarrow>
     (case h of None \<Rightarrow> (\<exists>m. LoadHardState file_kv_ops r e = Some (Inl (KeyNotFound m)))
      | Some hs \<Rightarrow> LoadHardState file_kv_ops r e = Some (Inr hs))"

definition storage_rel :: "u64 \<Rightarrow> raft_state \<Rightarrow> FileKvEngine \<Rightarrow> bool" where
  "storage_rel r s e \<longleftrightarrow> durable e \<and> kv_io e = [] \<and> stored_log r (rs_log s) (kv_data e) \<and>
     (\<forall>x \<in> set (rs_log s). le_command x \<noteq> []) \<and> hard_loads r (rs_hard s) e"

lemma hard_loads_cong:
  "LoadHardState file_kv_ops r e' = LoadHardState file_kv_ops r e \<Longrightarrow> hard_loads r h e' = hard_loads r h e"
  by (simp only: hard_loads_def)

lemma AppendLog_durable [wf_intros]:
  "durable e \<Longrightarrow> kv_io e = [] \<Longrightarrow> durable (snd (AppendLog file_kv_ops x e))"
  by (simp add: AppendLog_def file_kv_ops_def kv_Put_def WriteBatch_durable)

lemma SaveHardState_durable [wf_intros]:
  "durable e \<Longrightarrow> kv_io e = [] \<Longrightarrow> durable (snd (SaveHardState file_kv_ops r h e))"
  by (simp add: SaveHardState_def file_kv_ops_def WriteBatch_durable)

lemma rel_append:
  assumes "storage_rel r s e" and "le_region_id x = r" and "le_command x \<noteq> []"
  obtains e' where "storage_step r (OpAppend x) e = Some (Status_Ok, e')"
    and "storage_rel r (spec_op (OpAppend x) s) e'"
proof -
  have e: "kv_io e = []" "stored_log r (rs_log s) (kv_data e)"
    using assms(1) by (simp_all add: storage_rel_def)
  obtain e' where e': "AppendLog file_kv_ops x e = (Status_Ok, e')" "kv_io e' = []"
    "stored_log r (upsert_log x (rs_log s)) (kv_data e')"
    by (rule file_kv.AppendLog_stored [OF e assms(2)])
  have "durable e'" using assms(1) e(1) AppendLog_durable [of e x] e'(1) by (simp add: storage_rel_def)
  moreover have "LoadHardState file_kv_ops r e' = LoadHardState file_kv_ops r e"
    using file_kv.AppendLog_hard_state [OF e(1), of r x] e'(1) by simp
  then have "hard_loads r h e' = hard_loads r h e" for h by (rule hard_loads_cong)
  ultimately have "storage_rel r (spec_op (OpAppend x) s) e'"
    using assms(1,3) e'(2,3) by (auto simp: storage_rel_def set_upsert)
  with e'(1) show thesis using that by simp
qed

lemma rel_truncate:
  assumes "storage_rel r s e"
  obtains e' where "storage_step r (OpTruncate i) e = Some (Status_Ok, e')"
    and "storage_rel r (spec_op (OpTruncate i) s) e'"
proof -
  have e: "kv_io e = []" "stored_log r (rs_log s) (kv_data e)"
    using assms(1) by (simp_all add: storage_rel_def)
  obtain e' ms where e': "DeleteLogsFrom file_kv_ops r i e = Some (Status_Ok, e')" "kv_io e' = []"
    "stored_log r (filter (\<lambda>x. le_index x < i) (rs_log s)) (kv_data e')"
    and ms: "WriteBatch ms e = (Status_Ok, e')" "\<forall>m \<in> set ms. \<exists>i. m = mk_delete (RaftLogKey r i)"
    by (rule file_kv.DeleteLogsFrom_stored [OF e, of i]) (simp add: file_kv_ops_def)
  have "\<forall>m \<in> set ms. mu_key m \<noteq> []" using ms(2) by auto
  then have "durable e'" using assms WriteBatch_durable [OF _ e(1)] ms(1) by (metis snd_conv storage_rel_def)
  moreover have "fmlookup (apply_mutations ms d) (RaftMetaKey r n) = fmlookup d (RaftMetaKey r n)" for d n
    using ms(2) by (induction ms arbitrary: d) auto
  then have "LoadHardState file_kv_ops r e' = LoadHardState file_kv_ops r e"
    using ms(1) e(1) by (intro file_kv.LoadHardState_cong) (auto simp: WriteBatch_healthy)
  then have "hard_loads r h e' = hard_loads r h e" for h by (rule hard_loads_cong)
  ultimately have "storage_rel r (spec_op (OpTruncate i) s) e'"
    using assms e'(2,3) by (simp add: storage_rel_def)
  with e'(1) show thesis using that by simp
qed

lemma rel_hard:
  assumes "storage_rel r s e"
  obtains e' where "storage_step r (OpHard h) e = Some (Status_Ok, e')"
    and "storage_rel r (spec_op (OpHard h) s) e'"
proof -
  have e: "kv_io e = []" using assms(1) by (simp add: storage_rel_def)
  obtain e' where e': "SaveHardState file_kv_ops r h e = (Status_Ok, e')" "kv_io e' = []"
    "LoadHardState file_kv_ops r e' = Some (Inr h)"
    "\<And>r' L. stored_log r' L (kv_data e') = stored_log r' L (kv_data e)"
    by (rule file_kv.SaveHardState_contents [OF e, of r h]) blast
  moreover have "durable e'"
    using assms e SaveHardState_durable [of e r h] e'(1) by (simp add: storage_rel_def)
  ultimately show thesis
    using that assms by (simp add: storage_rel_def hard_loads_def)
qed

lemma storage_step_rel:
  assumes "storage_rel r s e" and "op_for r op"
  obtains e' where "storage_step r op e = Some (Status_Ok, e')" and "storage_rel r (spec_op op s) e'"
proof (cases op)
  case (OpAppend x)
  have "le_region_id x = r" "le_command x \<noteq> []"
    using assms(2) by (simp_all add: op_for_def OpAppend)
  with that show thesis unfolding OpAppend by (metis rel_append [OF assms(1)])
next
  case (OpTruncate i)
  show thesis using that unfolding OpTruncate by (rule rel_truncate [OF assms(1)])
next
  case (OpHard h)
  show thesis using that unfolding OpHard by (rule rel_hard [OF assms(1)])
qed

lemma storage_run_rel:
  assumes "storage_rel r s e" and "\<forall>op \<in> set ops. op_for r op"
  shows "\<exists>e'. storage_run r ops e = Some e' \<and> storage_rel r (fold spec_op ops s) e'"
  using assms
proof (induction ops arbitrary: s e)
  case (Cons op ops)
  obtain e1 where "storage_step r op e = Some (Status_Ok, e1)" "storage_rel r (spec_op op s) e1"
    using storage_step_rel [OF Cons.prems(1)] Cons.prems(2) by auto
  with Cons show ?case by simp
qed simp

lemma storage_rel_restart:
  assumes "storage_rel r s e"
  shows "LoadLog file_kv_ops r (snd (Open path (restart e))) = Inr (rs_log s) \<and>
    hard_loads r (rs_hard s) (snd (Open path (restart e)))"
proof -
  let ?e = "snd (Open path (restart e))"
  have d: "kv_data ?e = kv_data e" using assms restart_durable by (simp add: storage_rel_def)
  then have "LoadHardState file_kv_ops r ?e = LoadHardState file_kv_ops r e"
    by (intro file_kv.LoadHardState_cong) simp
  then have "hard_loads r h ?e = hard_loads r h e" for h by (rule hard_loads_cong)
  moreover have "LoadLog file_kv_ops r ?e = Inr (rs_log s)"
    using assms d by (intro file_kv.LoadLog_stored) (simp_all add: storage_rel_def)
  ultimately show ?thesis using assms by (simp add: storage_rel_def)
qed

lemma storage_rel_new: "storage_rel r \<lparr>rs_log = [], rs_hard = None\<rparr> (FileKvEngine_new [] [])"
proof -
  have "LoadHardState file_kv_ops r (FileKvEngine_new [] []) =
      Some (Inl (KeyNotFound (''key not found: '' @ RaftMetaKey r ''current_term'')))"
    by (simp add: LoadHardState_def load_u64_def file_kv.get_contents FileKvEngine_new_def)
  then show ?thesis
    using durable_new [of "[]"]
    by (auto simp: storage_rel_def hard_loads_def stored_log_def FileKvEngine_new_def)
qed

section \<open>Properties\<close>

text \<open>
  C8. The Raft storage on the file engine refines an abstract log with a hard state. Run any
  sequence of appends (entries of the region with non-empty commands), truncations and hard
  state saves on a fresh engine: every call succeeds, and after a restart the log loads as the
  abstract log, sorted by index with one entry per index, and the hard state as the last one
  saved, or as key-not-found when none was.
\<close>

theorem raft_storage_refines_log:
  assumes "\<forall>op \<in> set ops. op_for r op"
  shows "\<exists>e. storage_run r ops (FileKvEngine_new [] []) = Some e \<and>
     LoadLog file_kv_ops r (snd (Open path (restart e))) =
       Inr (rs_log (fold spec_op ops \<lparr>rs_log = [], rs_hard = None\<rparr>)) \<and>
     hard_loads r (rs_hard (fold spec_op ops \<lparr>rs_log = [], rs_hard = None\<rparr>)) (snd (Open path (restart e)))"
  using storage_run_rel [OF storage_rel_new assms] storage_rel_restart by blast

theorem raft_storage_refines_log_witness:
  "let e = \<lparr>le_region_id = 1, le_index = 1, le_term = 1, le_type = kNormal, le_command = ''c''\<rparr>;
       h = \<lparr>hs_current_term = 1, hs_voted_for = 1, hs_commit_index = 0, hs_last_applied = 0\<rparr>
   in \<exists>f. storage_run 1 [OpAppend e, OpAppend (e\<lparr>le_index := 2\<rparr>), OpTruncate 2, OpHard h]
             (FileKvEngine_new [] []) = Some f \<and>
        LoadLog file_kv_ops 1 (snd (Open ''d'' (restart f))) = Inr [e] \<and>
        LoadHardState file_kv_ops 1 (snd (Open ''d'' (restart f))) = Some (Inr h)"
proof -
  define e where "e = \<lparr>le_region_id = 1, le_index = 1, le_term = 1, le_type = kNormal, le_command = ''c''\<rparr>"
  define h where "h = \<lparr>hs_current_term = 1, hs_voted_for = 1, hs_commit_index = 0, hs_last_applied = 0\<rparr>"
  have "\<forall>op \<in> set [OpAppend e, OpAppend (e\<lparr>le_index := 2\<rparr>), OpTruncate 2, OpHard h]. op_for 1 op"
    by (simp add: op_for_def e_def)
  from raft_storage_refines_log [OF this, of "''d''"]
  have "\<exists>f. storage_run 1 [OpAppend e, OpAppend (e\<lparr>le_index := 2\<rparr>), OpTruncate 2, OpHard h]
             (FileKvEngine_new [] []) = Some f \<and>
        LoadLog file_kv_ops 1 (snd (Open ''d'' (restart f))) = Inr [e] \<and>
        LoadHardState file_kv_ops 1 (snd (Open ''d'' (restart f))) = Some (Inr h)"
    by (simp add: upsert_log_def hard_loads_def e_def)
  then show ?thesis unfolding Let_def e_def h_def .
qed

text \<open>
  Log keys sort by index. For one region the key of a smaller index is the smaller string
  over the whole 64-bit range, keys of different regions or indices differ, and the index can
  be read back from the text after the last slash.
\<close>

theorem log_keys_sorted_by_index:
  "(RaftLogKey r i < RaftLogKey r j \<longleftrightarrow> i < j) \<and>
   (RaftLogKey r i = RaftLogKey r' j \<longleftrightarrow> r = r' \<and> i = j) \<and>
   stoull (after_last_slash (RaftLogKey r i)) = Some i"
proof -
  have "RaftLogKey r i < RaftLogKey r j \<longleftrightarrow> i < j"
    using RaftLogKey_mono [of i j r] RaftLogKey_mono [of j i r] by (metis linorder_neqE order_less_asym)
  moreover have "RaftLogKey r i = RaftLogKey r' j \<longleftrightarrow> r = r' \<and> i = j"
    by (metis RaftLogKey_inj prefix_log_key)
  ultimately show ?thesis by (simp add: after_last_slash_log_key stoull_pad)
qed

text \<open>
  An entry with an empty command makes the log unreadable. Appending it succeeds, and
  from then on loading the region's log fails, whatever else the log holds.
\<close>

theorem empty_command_blocks_load:
  assumes "kv_io e = []" and "stored_log r L (kv_data e)" and "le_region_id x = r" and "le_command x = []"
  shows "fst (AppendLog file_kv_ops x e) = Status_Ok \<and>
     LoadLog file_kv_ops r (snd (AppendLog file_kv_ops x e)) =
       Inl (InvalidArgument ''invalid serialized log entry'')"
proof -
  obtain e' where e': "AppendLog file_kv_ops x e = (Status_Ok, e')"
    "stored_log r (upsert_log x L) (kv_data e')"
    using file_kv.AppendLog_stored [OF assms(1-3)] by metis
  moreover have "LoadLog file_kv_ops r e' = Inl (InvalidArgument ''invalid serialized log entry'')"
    by (rule file_kv.LoadLog_empty_command [OF e'(2)]) (use assms(4) in \<open>auto simp: set_upsert\<close>)
  ultimately show ?thesis by simp
qed

theorem empty_command_blocks_load_witness:
  "LoadLog file_kv_ops 1 (snd (AppendLog file_kv_ops
      \<lparr>le_region_id = 1, le_index = 1, le_term = 1, le_type = kNoop, le_command = []\<rparr>
      (FileKvEngine_new [] []))) = Inl (InvalidArgument ''invalid serialized log entry'')"
  using empty_command_blocks_load [of "FileKvEngine_new [] []" 1 "[]"
      "\<lparr>le_region_id = 1, le_index = 1, le_term = 1, le_type = kNoop, le_command = []\<rparr>"]
  by (simp add: FileKvEngine_new_def stored_log_def)

end
