(* ===== verification/Snapshot.thy ===== *)
theory Snapshot
  imports File_Kv_Engine
begin

text \<open>
  snapshot.cpp: a snapshot of the keys under a prefix as a text file, and its restoration into
  an engine. The file is its content (\<open>None\<close> when it does not exist); the outcomes of creating
  the directory and of writing the file are arguments. The lemmas give the round trip, which
  needs a non-empty prefix and non-empty values, and show why.
\<close>

section \<open>Operations\<close>

record SnapshotMeta =
  sm_region_id :: u64
  sm_last_included_index :: u64
  sm_last_included_term :: u64
  sm_prefix :: string

definition meta_line :: "SnapshotMeta \<Rightarrow> string" where
  "meta_line meta =
     ''META '' @ to_string (sm_region_id meta) @ SP # to_string (sm_last_included_index meta) @ SP #
     to_string (sm_last_included_term meta) @ SP # HexEncode (sm_prefix meta) @ [NL]"

definition kv_line :: "string \<times> string \<Rightarrow> string" where
  "kv_line kv = ''KV '' @ HexEncode (fst kv) @ SP # HexEncode (snd kv) @ [NL]"

definition snapshot_text :: "'e kv_vtable \<Rightarrow> 'e \<Rightarrow> SnapshotMeta \<Rightarrow> string" where
  "snapshot_text ops e meta =
     meta_line meta @ concat (map kv_line (vt_scan_prefix ops (sm_prefix meta) e))"

definition Snapshotter_Create ::
  "'e kv_vtable \<Rightarrow> 'e \<Rightarrow> SnapshotMeta \<Rightarrow> string \<Rightarrow> io_event \<Rightarrow> io_event \<Rightarrow> string option \<Rightarrow>
     Status \<times> string option" where
  "Snapshotter_Create ops e meta path dir_io file_io file =
     (case dir_io of
        IoOpenFail msg \<Rightarrow> (IoError (''failed to create snapshot directory: '' @ msg), file)
      | _ \<Rightarrow>
          (case file_io of
             IoOpenFail _ \<Rightarrow> (IoError (''failed to create snapshot: '' @ path), file)
           | IoWriteFail n \<Rightarrow>
               (IoError (''failed to write snapshot: '' @ path), Some (take n (snapshot_text ops e meta)))
           | IoFlushFail n \<Rightarrow> (Status_Ok, Some (take n (snapshot_text ops e meta)))
           | IoOk \<Rightarrow> (Status_Ok, Some (snapshot_text ops e meta))))"

text \<open>The bytes left in a stream bound the number of records that can still be read.\<close>

definition left :: "istream \<Rightarrow> nat" where
  "left i = (case i of None \<Rightarrow> 0 | Some s \<Rightarrow> Suc (length s))"

lemma left_extract_string: "left (snd (extract_string i)) \<le> left i"
  by (cases i) (auto simp: left_def Let_def intro: le_trans [OF length_dropWhile_le length_dropWhile_le])

lemma left_extract_string_less:
  assumes "snd (extract_string i) \<noteq> None"
  shows "left (snd (extract_string i)) < left i"
proof -
  obtain s where i: "i = Some s" using assms by (cases i) auto
  let ?t = "dropWhile isspace s"
  have "?t \<noteq> []" using assms i by (auto simp: Let_def split: if_splits)
  moreover from this have "\<not> isspace (hd ?t)" by (rule hd_dropWhile)
  ultimately have "length (dropWhile (\<lambda>c. \<not> isspace c) ?t) < length ?t"
    by (cases ?t) (auto simp: le_imp_less_Suc length_dropWhile_le)
  with \<open>?t \<noteq> []\<close> i show ?thesis
    using length_dropWhile_le [of isspace s] by (simp add: left_def Let_def)
qed

lemma length_scan_digits: "length (snd (scan_digits a s)) \<le> length s"
  by (induction a s rule: scan_digits.induct) auto

lemma length_scan_sign: "length (snd (scan_sign s)) \<le> length s"
  by (cases s) auto

lemma scan_number_shorter: "scan_number s = Some (neg, n, rest) \<Longrightarrow> length rest \<le> length s"
proof -
  assume *: "scan_number s = Some (neg, n, rest)"
  let ?t = "snd (scan_sign (dropWhile isspace s))"
  have "length ?t \<le> length (dropWhile isspace s)"
    by (rule length_scan_sign)
  then have "length ?t \<le> length s" using length_dropWhile_le le_trans by blast
  moreover have "rest = snd (scan_digits 0 ?t)"
    using * by (auto simp: scan_number_def split: prod.splits list.splits if_splits)
  ultimately show ?thesis using length_scan_digits [of 0 ?t] by simp
qed

lemma left_extract_u64: "left (snd (extract_u64 i)) \<le> left i"
  by (cases i) (auto simp: left_def dest: scan_number_shorter split: option.splits)

text \<open>The record loop; the result is the status, the last metadata read and the puts so far.\<close>

function read_records ::
  "istream \<Rightarrow> SnapshotMeta \<Rightarrow> KvMutation list \<Rightarrow> Status \<times> SnapshotMeta \<times> KvMutation list" where
  "read_records input meta mutations =
     (let (record_type, i0) = extract_string input
      in if i0 = None then (Status_Ok, meta, mutations)
         else if record_type = ''META'' then
           (let (region_id, i1) = extract_u64 i0;
                (index, i2) = extract_u64 i1;
                (trm, i3) = extract_u64 i2;
                (prefix_hex, i4) = extract_string i3
            in case HexDecode prefix_hex of
                 Inl status \<Rightarrow> (status, meta, mutations)
               | Inr pre \<Rightarrow>
                   read_records i4
                     \<lparr>sm_region_id = region_id, sm_last_included_index = index,
                      sm_last_included_term = trm, sm_prefix = pre\<rparr> mutations)
         else if record_type = ''KV'' then
           (let (key_hex, i1) = extract_string i0;
                (value_hex, i2) = extract_string i1
            in case HexDecode key_hex of
                 Inl status \<Rightarrow> (status, meta, mutations)
               | Inr key \<Rightarrow>
                   (case HexDecode value_hex of
                      Inl status \<Rightarrow> (status, meta, mutations)
                    | Inr v \<Rightarrow> read_records i2 meta (mutations @ [mk_put key v])))
         else (InvalidArgument (''unknown snapshot record type: '' @ record_type), meta, mutations))"
  by pat_completeness auto
termination
proof (relation "measure (\<lambda>(i, _, _). left i)", goal_cases)
  case (2 input meta mutations x rt i0 y rid i1 z ix i2 u t i3 w ph i4 pre)
  then have "left i4 \<le> left i0"
    using left_extract_u64 left_extract_string by (metis le_trans snd_conv)
  moreover have "left i0 < left input"
    using 2 left_extract_string_less [of input] by (metis snd_conv)
  ultimately show ?case by simp
next
  case (3 input meta mutations x rt i0 y kh i1 z vh i2 k v)
  then have "left i2 \<le> left i0"
    using left_extract_string by (metis le_trans snd_conv)
  moreover have "left i0 < left input"
    using 3 left_extract_string_less [of input] by (metis snd_conv)
  ultimately show ?case by simp
qed simp

declare read_records.simps [simp del]

definition Snapshotter_Restore ::
  "'e kv_vtable \<Rightarrow> 'e \<Rightarrow> string \<Rightarrow> string option \<Rightarrow> SnapshotMeta \<Rightarrow> Status \<times> SnapshotMeta \<times> 'e" where
  "Snapshotter_Restore ops e path file meta =
     (case file of
        None \<Rightarrow> (IoError (''failed to open snapshot: '' @ path), meta, e)
      | Some text \<Rightarrow>
          let (status, meta', mutations) = read_records (Some text) meta []
          in if \<not> ok status then (status, meta', e)
             else let (st, e') = vt_write_batch ops mutations e in (st, meta', e'))"

section \<open>Reading back what was written\<close>

lemma extract_skip_NL: "extract_string (Some (NL # s)) = extract_string (Some s)"
  by simp

lemma extract_hex_NL [codec_simps]:
  "s \<noteq> [] \<Longrightarrow> extract_string (Some (HexEncode s @ NL # rest)) = (HexEncode s, Some (NL # rest))"
  by (rule extract_string_token) (auto dest: HexEncode_graph)

lemma extract_word_SP:
  "extract_string (Some (CHR ''K'' # CHR ''V'' # SP # rest)) = (''KV'', Some (SP # rest))"
  "extract_string (Some (CHR ''M'' # CHR ''E'' # CHR ''T'' # CHR ''A'' # SP # rest)) = (''META'', Some (SP # rest))"
  by (simp_all add: isspace_def)

lemma read_skip_NL: "read_records (Some (NL # s)) meta ms = read_records (Some s) meta ms"
  by (simp only: read_records.simps [of "Some (NL # s)"] read_records.simps [of "Some s"] extract_skip_NL)

lemma read_end: "read_records (Some []) meta ms = (Status_Ok, meta, ms)"
  by (simp add: read_records.simps)

lemma read_kv_line:
  assumes "k \<noteq> []" and "v \<noteq> []"
  shows "read_records (Some (kv_line (k, v) @ rest)) meta ms = read_records (Some rest) meta (ms @ [mk_put k v])"
  using assms
  by (subst read_records.simps)
     (simp add: kv_line_def extract_word_SP extract_string_space extract_string_hex extract_hex_NL
        read_skip_NL del: extract_string.simps)

lemma read_kv_lines:
  "\<forall>(k, v) \<in> set kvs. k \<noteq> [] \<and> v \<noteq> [] \<Longrightarrow>
     read_records (Some (concat (map kv_line kvs))) meta ms =
       (Status_Ok, meta, ms @ map (\<lambda>(k, v). mk_put k v) kvs)"
  by (induction kvs arbitrary: ms) (auto simp: read_end read_kv_line)

lemma meta_eta [simp]:
  "\<lparr>sm_region_id = sm_region_id m, sm_last_included_index = sm_last_included_index m,
     sm_last_included_term = sm_last_included_term m, sm_prefix = sm_prefix m\<rparr> = m"
  by simp

lemma read_meta_line:
  assumes "sm_prefix m \<noteq> []"
  shows "read_records (Some (meta_line m @ rest)) meta ms = read_records (Some rest) m ms"
  using assms
  by (subst read_records.simps)
     (simp add: meta_line_def extract_word_SP extract_u64_space extract_u64_to_string is_digit_def
        extract_string_space extract_hex_NL read_skip_NL del: extract_string.simps extract_u64.simps)

lemma HexDecode_KV: "HexDecode ''KV'' = Inl (InvalidArgument ''hex input contains invalid character'')"
  by (simp add: HexDecode_def HexValue_def)

lemma read_meta_line_no_prefix:
  assumes "sm_prefix m = []"
  shows "read_records (Some (meta_line m @ kv_line kv @ rest)) meta ms =
    (InvalidArgument ''hex input contains invalid character'', meta, ms)"
  using assms
  by (subst read_records.simps)
     (simp add: meta_line_def kv_line_def extract_word_SP extract_u64_space extract_u64_to_string
        is_digit_def extract_string_space extract_skip_NL HexDecode_KV
        del: extract_string.simps extract_u64.simps)

lemma read_kv_line_empty_value:
  assumes "k \<noteq> []"
  shows "read_records (Some (kv_line (k, []) @ kv_line kv @ rest)) meta ms =
    (InvalidArgument ''hex input contains invalid character'', meta, ms)"
  using assms
  by (subst read_records.simps)
     (simp add: kv_line_def extract_word_SP extract_string_space extract_string_hex extract_skip_NL
        HexDecode_KV del: extract_string.simps)

section \<open>Through the engine contract\<close>

context kv_engine
begin

lemma snapshot_text_contents:
  "snapshot_text ops e m =
     meta_line m @ concat (map kv_line (filter (\<lambda>kv. prefix (sm_prefix m) (fst kv)) (entries (contents e))))"
  by (simp add: snapshot_text_def scan_prefix_contents)

lemma restore_snapshot:
  assumes "healthy t" and "sm_prefix m \<noteq> []"
    and "\<forall>k v. fmlookup (contents e) k = Some v \<longrightarrow> prefix (sm_prefix m) k \<longrightarrow> v \<noteq> []"
  obtains t' where "Snapshotter_Restore ops t path (Some (snapshot_text ops e m)) m0 = (Status_Ok, m, t')"
    and "\<And>k. fmlookup (contents t') k =
       (if prefix (sm_prefix m) k \<and> fmlookup (contents e) k \<noteq> None then fmlookup (contents e) k
        else fmlookup (contents t) k)"
proof -
  let ?c = "fmfilter (prefix (sm_prefix m)) (contents e)"
  let ?ms = "map (\<lambda>(k, v). mk_put k v) (entries ?c)"
  have "\<forall>(k, v) \<in> set (entries ?c). k \<noteq> [] \<and> v \<noteq> []"
    using assms(2,3) by (fastforce simp: set_entries split: if_splits)
  then have "read_records (Some (snapshot_text ops e m)) m0 [] = (Status_Ok, m, ?ms)"
    using assms(2) by (simp add: snapshot_text_contents read_meta_line read_kv_lines entries_fmfilter [symmetric])
  moreover obtain t' where "vt_write_batch ops ?ms t = (Status_Ok, t')"
    and t': "contents t' = apply_mutations ?ms (contents t)"
    by (rule batch_eq [OF assms(1)])
  ultimately have "Snapshotter_Restore ops t path (Some (snapshot_text ops e m)) m0 = (Status_Ok, m, t')"
    by (simp add: Snapshotter_Restore_def)
  moreover have "fmlookup (contents t') k =
      (case fmlookup ?c k of None \<Rightarrow> fmlookup (contents t) k | Some v \<Rightarrow> Some v)" for k
    unfolding t' using apply_puts_lookup [of "entries ?c" "contents t" k] by simp
  ultimately show thesis by (intro that) (auto split: option.splits)
qed

end

section \<open>Properties\<close>

text \<open>
  C30. A snapshot restores the keys it covers. When the prefix is not empty and no covered value
  is empty, the file written by a successful creation restores into any healthy engine: the
  metadata is reported, every covered key gets the value it had in the source, and every
  other key of the target keeps its value.
\<close>

theorem snapshot_roundtrip:
  assumes "kv_io t = []" and "sm_prefix m \<noteq> []"
    and "\<forall>k v. fmlookup (kv_data e) k = Some v \<longrightarrow> prefix (sm_prefix m) k \<longrightarrow> v \<noteq> []"
    and "Snapshotter_Create file_kv_ops e m path IoOk IoOk old = (status, file)"
  shows "\<exists>t'. ok status \<and> Snapshotter_Restore file_kv_ops t path file m0 = (Status_Ok, m, t') \<and>
     (\<forall>k. fmlookup (kv_data t') k =
        (if prefix (sm_prefix m) k \<and> fmlookup (kv_data e) k \<noteq> None then fmlookup (kv_data e) k
         else fmlookup (kv_data t) k))"
proof -
  have "file = Some (snapshot_text file_kv_ops e m)" "status = Status_Ok"
    using assms(4) by (simp_all add: Snapshotter_Create_def)
  with file_kv.restore_snapshot [OF assms(1-3), of path m0] show ?thesis by (metis ok_simps(1))
qed

theorem snapshot_roundtrip_witness:
  "let m = \<lparr>sm_region_id = 1, sm_last_included_index = 2, sm_last_included_term = 1, sm_prefix = ''u''\<rparr>;
       e = (FileKvEngine_new [] [])\<lparr>kv_data := fmupd ''u1'' ''x'' fmempty\<rparr>
   in \<exists>t'. Snapshotter_Restore file_kv_ops (FileKvEngine_new [] []) ''p''
            (snd (Snapshotter_Create file_kv_ops e m ''p'' IoOk IoOk None)) m = (Status_Ok, m, t') \<and>
          fmlookup (kv_data t') ''u1'' = Some ''x''"
proof -
  define m where
    "m = \<lparr>sm_region_id = 1, sm_last_included_index = 2, sm_last_included_term = 1, sm_prefix = ''u''\<rparr>"
  define e where "e = (FileKvEngine_new [] [])\<lparr>kv_data := fmupd ''u1'' ''x'' fmempty\<rparr>"
  have "kv_io (FileKvEngine_new [] []) = []" "sm_prefix m \<noteq> []"
    "\<forall>k v. fmlookup (kv_data e) k = Some v \<longrightarrow> prefix (sm_prefix m) k \<longrightarrow> v \<noteq> []"
    by (auto simp: FileKvEngine_new_def m_def e_def)
  from snapshot_roundtrip [OF this surjective_pairing, of "''p''" None m]
  obtain t' where "Snapshotter_Restore file_kv_ops (FileKvEngine_new [] []) ''p''
      (snd (Snapshotter_Create file_kv_ops e m ''p'' IoOk IoOk None)) m = (Status_Ok, m, t')"
    and "\<forall>k. fmlookup (kv_data t') k =
        (if prefix (sm_prefix m) k \<and> fmlookup (kv_data e) k \<noteq> None then fmlookup (kv_data e) k
         else fmlookup (kv_data (FileKvEngine_new [] [])) k)"
    by blast
  moreover from this(2) have "fmlookup (kv_data t') ''u1'' = Some ''x''"
    by (simp add: m_def e_def)
  ultimately show ?thesis unfolding Let_def m_def e_def by blast
qed

text \<open>
  A snapshot of the whole store cannot be restored. With an empty prefix and at least one
  key, creation succeeds, and restoration of that file fails and leaves the target as it was:
  the empty prefix field makes the reader take the next record type for the prefix.
\<close>

theorem whole_store_snapshot_unreadable:
  assumes "sm_prefix m = []" and "kv_data e \<noteq> fmempty"
    and "Snapshotter_Create file_kv_ops e m path IoOk IoOk old = (status, file)"
  shows "ok status \<and> Snapshotter_Restore file_kv_ops t path file m0 =
     (InvalidArgument ''hex input contains invalid character'', m0, t)"
proof -
  have f: "file = Some (snapshot_text file_kv_ops e m)" "status = Status_Ok"
    using assms(3) by (simp_all add: Snapshotter_Create_def)
  obtain kv kvs where "entries (kv_data e) = kv # kvs"
    using assms(2) fm_of_entries [of "kv_data e"] by (cases "entries (kv_data e)") (auto simp: fm_of_list_def)
  then have "snapshot_text file_kv_ops e m = meta_line m @ kv_line kv @ concat (map kv_line kvs)"
    using assms(1) by (simp add: file_kv.snapshot_text_contents)
  with f show ?thesis
    by (simp add: Snapshotter_Restore_def read_meta_line_no_prefix [OF assms(1)])
qed

theorem whole_store_snapshot_unreadable_witness:
  "let m = \<lparr>sm_region_id = 1, sm_last_included_index = 2, sm_last_included_term = 1, sm_prefix = []\<rparr>;
       e = (FileKvEngine_new [] [])\<lparr>kv_data := fmupd ''k'' ''v'' fmempty\<rparr>
   in fst (Snapshotter_Restore file_kv_ops (FileKvEngine_new [] []) ''p''
            (snd (Snapshotter_Create file_kv_ops e m ''p'' IoOk IoOk None)) m) =
        InvalidArgument ''hex input contains invalid character''"
  using whole_store_snapshot_unreadable [of
      "\<lparr>sm_region_id = 1, sm_last_included_index = 2, sm_last_included_term = 1, sm_prefix = []\<rparr>"
      "(FileKvEngine_new [] [])\<lparr>kv_data := fmupd ''k'' ''v'' fmempty\<rparr>" "''p''" None _ _
      "FileKvEngine_new [] []"
      "\<lparr>sm_region_id = 1, sm_last_included_index = 2, sm_last_included_term = 1, sm_prefix = []\<rparr>",
      OF _ _ surjective_pairing]
  by (simp add: Let_def)

text \<open>
  A covered key with an empty value makes the snapshot unreadable unless it is the last
  one: creation succeeds and restoration of that file fails and leaves the target as it was.
\<close>

theorem snapshot_empty_value_unreadable:
  assumes "sm_prefix m \<noteq> []"
    and "filter (\<lambda>kv. prefix (sm_prefix m) (fst kv)) (entries (kv_data e)) = pre @ (k, []) # kv # post"
    and "\<forall>(k, v) \<in> set pre. v \<noteq> []"
    and "Snapshotter_Create file_kv_ops e m path IoOk IoOk old = (status, file)"
  shows "ok status \<and> Snapshotter_Restore file_kv_ops t path file m0 =
     (InvalidArgument ''hex input contains invalid character'', m, t)"
proof -
  have f: "file = Some (snapshot_text file_kv_ops e m)" "status = Status_Ok"
    using assms(4) by (simp_all add: Snapshotter_Create_def)
  have "fst x \<noteq> []" if "x \<in> set (pre @ (k, []) # kv # post)" for x
    using that assms(1) unfolding assms(2) [symmetric] by auto
  from this [of "(k, [])"] this have ne: "k \<noteq> []" "\<forall>x \<in> set pre. fst x \<noteq> []" by simp_all
  have ne2: "\<forall>(k, v) \<in> set pre. k \<noteq> [] \<and> v \<noteq> []" using ne(2) assms(3) by (metis (mono_tags, lifting) case_prodI2 case_prodD fst_conv)
  have "read_records (Some (concat (map kv_line pre) @ s)) m ms =
      read_records (Some s) m (ms @ map (\<lambda>(k, v). mk_put k v) pre)" for s ms
    using ne2 by (induction pre arbitrary: ms) (auto simp: read_kv_line)
  with f ne(1) assms(1) show ?thesis
    by (simp add: file_kv.snapshot_text_contents assms(2) Snapshotter_Restore_def read_meta_line
        read_kv_line_empty_value)
qed

theorem snapshot_empty_value_unreadable_witness:
  "let m = \<lparr>sm_region_id = 1, sm_last_included_index = 2, sm_last_included_term = 1, sm_prefix = ''k''\<rparr>;
       e = (FileKvEngine_new [] [])\<lparr>kv_data := fm_of_list [(''k1'', []), (''k2'', ''v'')]\<rparr>
   in fst (Snapshotter_Restore file_kv_ops (FileKvEngine_new [] []) ''p''
            (snd (Snapshotter_Create file_kv_ops e m ''p'' IoOk IoOk None)) m) =
        InvalidArgument ''hex input contains invalid character''"
proof -
  have "entries (fm_of_list [(''k1'', []), (''k2'', ''v'')]) = [(''k1'', []), (''k2'', ''v'')]"
    by (rule entries_eqI) (auto simp: fm_of_list_def less_char_def)
  then show ?thesis
    using snapshot_empty_value_unreadable [of
      "\<lparr>sm_region_id = 1, sm_last_included_index = 2, sm_last_included_term = 1, sm_prefix = ''k''\<rparr>"
      "(FileKvEngine_new [] [])\<lparr>kv_data := fm_of_list [(''k1'', []), (''k2'', ''v'')]\<rparr>" "[]" "''k1''"
      "(''k2'', ''v'')" "[]" "''p''" None _ _ "FileKvEngine_new [] []"
      "\<lparr>sm_region_id = 1, sm_last_included_index = 2, sm_last_included_term = 1, sm_prefix = ''k''\<rparr>",
      OF _ _ _ surjective_pairing]
    by (simp add: Let_def)
qed

end
