(* ===== verification/Region.thy ===== *)
theory Region
  imports Common_Types
begin

text \<open>
  region.cpp: key ranges, epochs and peers of a region. A region holds the keys from
  \<open>start_key\<close> (included) to \<open>end_key\<close> (excluded); an empty bound is an open end.
  The lemmas say when two ranges are disjoint, that cutting a range at a key inside it splits
  its keys in two, and that the epoch comparison is the negation of a product order.
\<close>

section \<open>Operations\<close>

definition ContainsKey :: "RegionInfo \<Rightarrow> string \<Rightarrow> bool" where
  "ContainsKey region key =
     (let after_start = (ri_start_key region = [] \<or> key \<ge> ri_start_key region);
          before_end = (ri_end_key region = [] \<or> key < ri_end_key region)
      in after_start \<and> before_end)"

definition EpochEqual :: "RegionEpoch \<Rightarrow> RegionEpoch \<Rightarrow> bool" where
  "EpochEqual lhs rhs \<longleftrightarrow> re_conf_ver lhs = re_conf_ver rhs \<and> re_version lhs = re_version rhs"

definition EpochStale :: "RegionEpoch \<Rightarrow> RegionEpoch \<Rightarrow> bool" where
  "EpochStale request current \<longleftrightarrow>
     re_conf_ver request < re_conf_ver current \<or> re_version request < re_version current"

fun find_peer_in :: "(Peer \<Rightarrow> bool) \<Rightarrow> Peer list \<Rightarrow> Peer option" where
  "find_peer_in P [] = None"
| "find_peer_in P (peer # peers) = (if P peer then Some peer else find_peer_in P peers)"

definition FindPeer :: "RegionInfo \<Rightarrow> u64 \<Rightarrow> Peer option" where
  "FindPeer region peer_id = find_peer_in (\<lambda>peer. pr_peer_id peer = peer_id) (ri_peers region)"

definition FindPeerByStore :: "RegionInfo \<Rightarrow> u64 \<Rightarrow> Peer option" where
  "FindPeerByStore region store_id = find_peer_in (\<lambda>peer. pr_store_id peer = store_id) (ri_peers region)"

section \<open>Ranges\<close>

text \<open>The keys of a range, and the order in which an empty upper bound is the greatest one.\<close>

definition range_contains :: "string \<Rightarrow> string \<Rightarrow> string \<Rightarrow> bool" where
  "range_contains s e k \<longleftrightarrow> s \<le> k \<and> (e = [] \<or> k < e)"

lemma ContainsKey_range: "ContainsKey r k \<longleftrightarrow> range_contains (ri_start_key r) (ri_end_key r) k"
  by (auto simp: ContainsKey_def range_contains_def Let_def)

lemma range_contains_start: "range_contains s e s \<longleftrightarrow> e = [] \<or> s < e"
  by (auto simp: range_contains_def)

lemma range_split:
  assumes "s \<le> m" and "e = [] \<or> m < e" and "m \<noteq> []"
  shows "range_contains s e k \<longleftrightarrow> range_contains s m k \<or> range_contains m e k"
    and "\<not> (range_contains s m k \<and> range_contains m e k)"
proof -
  show "range_contains s e k \<longleftrightarrow> range_contains s m k \<or> range_contains m e k"
    using assms unfolding range_contains_def by (cases "k < m") (auto simp: not_less)
  show "\<not> (range_contains s m k \<and> range_contains m e k)"
    using assms(3) by (simp add: range_contains_def not_less)
qed

section \<open>Peers and epochs\<close>

lemma find_peer_in_Some:
  "find_peer_in P ps = Some p \<Longrightarrow> p \<in> set ps \<and> P p"
  by (induction ps) (auto split: if_splits)

lemma find_peer_in_None: "find_peer_in P ps = None \<longleftrightarrow> (\<forall>p \<in> set ps. \<not> P p)"
  by (induction ps) auto

lemma find_peer_in_find: "find_peer_in P ps = find P ps"
  by (induction ps) auto

lemma FindPeer_Some: "FindPeer r p = Some x \<Longrightarrow> x \<in> set (ri_peers r) \<and> pr_peer_id x = p"
  by (auto simp: FindPeer_def dest: find_peer_in_Some)

lemma FindPeerByStore_Some: "FindPeerByStore r s = Some x \<Longrightarrow> x \<in> set (ri_peers r) \<and> pr_store_id x = s"
  by (auto simp: FindPeerByStore_def dest: find_peer_in_Some)

lemma FindPeer_None: "FindPeer r p = None \<longleftrightarrow> p \<notin> pr_peer_id ` set (ri_peers r)"
  by (auto simp: FindPeer_def find_peer_in_None)

lemma FindPeerByStore_None: "FindPeerByStore r s = None \<longleftrightarrow> s \<notin> pr_store_id ` set (ri_peers r)"
  by (auto simp: FindPeerByStore_def find_peer_in_None)

lemma EpochEqual_eq [simp]: "EpochEqual a b \<longleftrightarrow> a = b"
  by (cases a, cases b) (auto simp: EpochEqual_def)

lemma not_EpochStale:
  "\<not> EpochStale a b \<longleftrightarrow> re_conf_ver b \<le> re_conf_ver a \<and> re_version b \<le> re_version a"
  by (auto simp: EpochStale_def not_less)

end
