(* ===== verification/Pd_Metadata.thy ===== *)
theory Pd_Metadata
  imports Region
begin

text \<open>
  metadata_store.cpp, operator.h and scheduler.cpp: the catalog of the placement driver (stores,
  regions, the index from start keys to regions and the id counters) and the operators that
  the scheduler proposes from it. \<open>catalog_wf\<close> is the invariant: ids are their keys, the
  start-key index is exact, the regions partition the key space and every region has peers on
  known stores, one of them its leader. The lemmas show that \<open>GetRegionByKey\<close> finds the one
  region that holds a key, and what each update keeps.
\<close>

section \<open>The catalog\<close>

record PdMetadataStore =
  pm_next_store_id :: u64
  pm_next_region_id :: u64
  pm_next_peer_id :: u64
  pm_stores :: "(u64, StoreInfo) std_map"
  pm_regions :: "(u64, RegionInfo) std_map"
  pm_by_start :: "(string, u64) std_map"

definition PdMetadataStore_new :: PdMetadataStore where
  "PdMetadataStore_new =
     \<lparr>pm_next_store_id = 1, pm_next_region_id = 1, pm_next_peer_id = 1, pm_stores = fmempty,
      pm_regions = fmempty, pm_by_start = fmempty\<rparr>"

definition AllocStoreId :: "PdMetadataStore \<Rightarrow> u64 \<times> PdMetadataStore" where
  "AllocStoreId m = (pm_next_store_id m, m\<lparr>pm_next_store_id := pm_next_store_id m + 1\<rparr>)"

definition AllocRegionId :: "PdMetadataStore \<Rightarrow> u64 \<times> PdMetadataStore" where
  "AllocRegionId m = (pm_next_region_id m, m\<lparr>pm_next_region_id := pm_next_region_id m + 1\<rparr>)"

definition AllocPeerId :: "PdMetadataStore \<Rightarrow> u64 \<times> PdMetadataStore" where
  "AllocPeerId m = (pm_next_peer_id m, m\<lparr>pm_next_peer_id := pm_next_peer_id m + 1\<rparr>)"

definition SetNextIds :: "u64 \<Rightarrow> u64 \<Rightarrow> u64 \<Rightarrow> PdMetadataStore \<Rightarrow> PdMetadataStore" where
  "SetNextIds s r p m = m\<lparr>pm_next_store_id := s, pm_next_region_id := r, pm_next_peer_id := p\<rparr>"

definition PutStore :: "StoreInfo \<Rightarrow> PdMetadataStore \<Rightarrow> Status \<times> PdMetadataStore" where
  "PutStore store m =
     (if si_store_id store = 0 then (InvalidArgument ''store_id must be non-zero'', m)
      else (Status_Ok, m\<lparr>pm_stores := fmupd (si_store_id store) store (pm_stores m)\<rparr>))"

definition md_GetStore :: "PdMetadataStore \<Rightarrow> u64 \<Rightarrow> StoreInfo option" where
  "md_GetStore m store_id = fmlookup (pm_stores m) store_id"

definition md_ListStores :: "PdMetadataStore \<Rightarrow> StoreInfo list" where
  "md_ListStores m = map snd (entries (pm_stores m))"

definition PutRegion :: "RegionInfo \<Rightarrow> PdMetadataStore \<Rightarrow> Status \<times> PdMetadataStore" where
  "PutRegion region m =
     (if ri_region_id region = 0 then (InvalidArgument ''region_id must be non-zero'', m)
      else (Status_Ok,
            m\<lparr>pm_regions := fmupd (ri_region_id region) region (pm_regions m),
              pm_by_start := fmupd (ri_start_key region) (ri_region_id region) (pm_by_start m)\<rparr>))"

definition GetRegion :: "PdMetadataStore \<Rightarrow> u64 \<Rightarrow> RegionInfo option" where
  "GetRegion m region_id = fmlookup (pm_regions m) region_id"

text \<open>The entry before \<open>upper_bound(key)\<close> is the last of those with a start key up to \<open>key\<close>.\<close>

definition md_GetRegionByKey :: "PdMetadataStore \<Rightarrow> string \<Rightarrow> RegionInfo option" where
  "md_GetRegionByKey m key =
     (case before_upper_bound (pm_by_start m) key of
        [] \<Rightarrow> None
      | es \<Rightarrow>
          (case fmlookup (pm_regions m) (snd (last es)) of
             None \<Rightarrow> None
           | Some region \<Rightarrow> if \<not> ContainsKey region key then None else Some region))"

definition md_ListRegions :: "PdMetadataStore \<Rightarrow> RegionInfo list" where
  "md_ListRegions m = map snd (entries (pm_regions m))"

definition UpdateRegionLeader :: "u64 \<Rightarrow> u64 \<Rightarrow> PdMetadataStore \<Rightarrow> Status \<times> PdMetadataStore" where
  "UpdateRegionLeader region_id leader_peer_id m =
     (case fmlookup (pm_regions m) region_id of
        None \<Rightarrow> (mk_status kRegionNotFound ''region not found'', m)
      | Some region \<Rightarrow>
          if FindPeer region leader_peer_id = None
          then (InvalidArgument ''leader peer is not in region'', m)
          else (Status_Ok,
                m\<lparr>pm_regions :=
                    fmupd region_id (region\<lparr>ri_leader_peer_id := leader_peer_id\<rparr>) (pm_regions m)\<rparr>))"

section \<open>The scheduler\<close>

datatype OperatorType = kTransferLeader | kAddPeer | kRemovePeer | kSplitRegion

record Operator =
  op_type :: OperatorType
  op_region_id :: u64
  op_target_store_id :: u64
  op_target_peer_id :: u64
  op_remove_peer_id :: u64
  op_split_key :: string

definition Operator_default :: Operator where
  "Operator_default =
     \<lparr>op_type = kTransferLeader, op_region_id = 0, op_target_store_id = 0, op_target_peer_id = 0,
      op_remove_peer_id = 0, op_split_key = []\<rparr>"

definition MakeTransferLeaderOperator :: "PdMetadataStore \<Rightarrow> u64 \<Rightarrow> u64 \<Rightarrow> Operator option" where
  "MakeTransferLeaderOperator m region_id target_store_id =
     (case GetRegion m region_id of
        None \<Rightarrow> None
      | Some region \<Rightarrow>
          (case FindPeerByStore region target_store_id of
             None \<Rightarrow> None
           | Some peer \<Rightarrow>
               if pr_peer_id peer = ri_leader_peer_id region then None
               else Some (Operator_default\<lparr>op_type := kTransferLeader, op_region_id := region_id,
                            op_target_store_id := target_store_id,
                            op_target_peer_id := pr_peer_id peer\<rparr>)))"

definition MakeAddPeerOperator :: "PdMetadataStore \<Rightarrow> u64 \<Rightarrow> u64 \<Rightarrow> Operator option" where
  "MakeAddPeerOperator m region_id target_store_id =
     (case GetRegion m region_id of
        None \<Rightarrow> None
      | Some region \<Rightarrow>
          if md_GetStore m target_store_id = None then None
          else if FindPeerByStore region target_store_id \<noteq> None then None
          else Some (Operator_default\<lparr>op_type := kAddPeer, op_region_id := region_id,
                       op_target_store_id := target_store_id\<rparr>))"

definition MakeRemovePeerOperator :: "PdMetadataStore \<Rightarrow> u64 \<Rightarrow> u64 \<Rightarrow> Operator option" where
  "MakeRemovePeerOperator m region_id peer_id =
     (case GetRegion m region_id of
        None \<Rightarrow> None
      | Some region \<Rightarrow>
          if FindPeer region peer_id = None \<or> length (ri_peers region) \<le> 1 then None
          else Some (Operator_default\<lparr>op_type := kRemovePeer, op_region_id := region_id,
                       op_remove_peer_id := peer_id\<rparr>))"

section \<open>The invariant\<close>

definition peer_ids :: "RegionInfo \<Rightarrow> u64 set" where
  "peer_ids r = pr_peer_id ` set (ri_peers r)"

definition region_wf :: "PdMetadataStore \<Rightarrow> RegionInfo \<Rightarrow> bool" where
  "region_wf m r \<longleftrightarrow>
     ri_leader_peer_id r \<in> peer_ids r \<and> distinct (map pr_peer_id (ri_peers r)) \<and>
     (\<forall>p \<in> peer_ids r. 0 < p \<and> p < pm_next_peer_id m) \<and>
     (\<forall>p \<in> set (ri_peers r). fmlookup (pm_stores m) (pr_store_id p) \<noteq> None) \<and>
     ContainsKey r (ri_start_key r)"

definition key_partition :: "(u64, RegionInfo) std_map \<Rightarrow> bool" where
  "key_partition rs \<longleftrightarrow>
     (\<forall>key. \<exists>!rid. \<exists>r. fmlookup rs rid = Some r \<and> ContainsKey r key)"

definition ids_wf :: "PdMetadataStore \<Rightarrow> bool" where
  "ids_wf m \<longleftrightarrow>
     0 < pm_next_store_id m \<and> 0 < pm_next_region_id m \<and> 0 < pm_next_peer_id m \<and>
     (\<forall>rid s. fmlookup (pm_stores m) rid = Some s \<longrightarrow>
        si_store_id s = rid \<and> 0 < rid \<and> rid < pm_next_store_id m) \<and>
     (\<forall>rid r. fmlookup (pm_regions m) rid = Some r \<longrightarrow>
        ri_region_id r = rid \<and> 0 < rid \<and> rid < pm_next_region_id m)"

definition index_wf :: "PdMetadataStore \<Rightarrow> bool" where
  "index_wf m \<longleftrightarrow>
     (\<forall>k rid. fmlookup (pm_by_start m) k = Some rid \<longleftrightarrow>
        (\<exists>r. fmlookup (pm_regions m) rid = Some r \<and> ri_start_key r = k))"

definition disjoint_peers :: "(u64, RegionInfo) std_map \<Rightarrow> bool" where
  "disjoint_peers rs \<longleftrightarrow>
     (\<forall>i j r q. i \<noteq> j \<longrightarrow> fmlookup rs i = Some r \<longrightarrow> fmlookup rs j = Some q \<longrightarrow>
        peer_ids r \<inter> peer_ids q = {})"

definition catalog_wf :: "PdMetadataStore \<Rightarrow> bool" where
  "catalog_wf m \<longleftrightarrow> ids_wf m \<and> index_wf m \<and>
     (\<forall>rid r. fmlookup (pm_regions m) rid = Some r \<longrightarrow> region_wf m r) \<and>
     disjoint_peers (pm_regions m) \<and>
     (pm_regions m = fmempty \<or> key_partition (pm_regions m))"

section \<open>Lookup by key\<close>

lemma sorted_last_greatest:
  assumes "sorted (map f xs)" and "x \<in> set xs"
  shows "f x \<le> f (last xs)"
  using assms by (induction xs rule: rev_induct) (auto simp: sorted_append)

lemma before_upper_bound_last:
  assumes "before_upper_bound m k \<noteq> []"
  obtains k' v where "last (before_upper_bound m k) = (k', v)" and "fmlookup m k' = Some v" and "k' \<le> k"
    and "\<And>k'' v''. fmlookup m k'' = Some v'' \<Longrightarrow> k'' \<le> k \<Longrightarrow> k'' \<le> k'"
proof -
  let ?es = "filter (\<lambda>e. fst e \<le> k) (entries m)"
  obtain k' v where l: "last ?es = (k', v)" by (cases "last ?es")
  have "(k', v) \<in> set ?es" using assms last_in_set l by (metis before_upper_bound_filter)
  then have "fmlookup m k' = Some v" "k' \<le> k" by (auto simp: set_entries)
  moreover have "k'' \<le> k'" if "fmlookup m k'' = Some v''" "k'' \<le> k" for k'' v''
  proof -
    have "sorted (map fst ?es)" using sorted_entries [of m] by (rule sorted_filter)
    moreover have "(k'', v'') \<in> set ?es" using that by (simp add: set_entries)
    ultimately have "fst (k'', v'') \<le> fst (last ?es)" by (rule sorted_last_greatest)
    with l show ?thesis by simp
  qed
  ultimately show thesis using that l by (metis before_upper_bound_filter)
qed

lemma before_upper_bound_nonempty:
  "fmlookup m k' = Some v \<Longrightarrow> k' \<le> k \<Longrightarrow> before_upper_bound m k \<noteq> []"
  by (auto simp: before_upper_bound_filter filter_empty_conv set_entries intro!: bexI [of _ "(k', v)"])

lemma key_partition_ex:
  assumes "key_partition rs"
  obtains rid r where "fmlookup rs rid = Some r" and "ContainsKey r key"
  using assms unfolding key_partition_def by blast

lemma key_partition_unique:
  "key_partition rs \<Longrightarrow> fmlookup rs i = Some r \<Longrightarrow> fmlookup rs j = Some q \<Longrightarrow>
     ContainsKey r key \<Longrightarrow> ContainsKey q key \<Longrightarrow> i = j"
  unfolding key_partition_def by blast

lemma GetRegionByKey_sound:
  "md_GetRegionByKey m key = Some r \<Longrightarrow> \<exists>rid. GetRegion m rid = Some r \<and> ContainsKey r key"
  by (auto simp: md_GetRegionByKey_def GetRegion_def split: list.splits option.splits if_splits)

lemma GetRegionByKey_complete:
  assumes wf: "catalog_wf m" and r: "GetRegion m rid = Some r" "ContainsKey r key"
  shows "md_GetRegionByKey m key = Some r"
proof -
  have lk: "fmlookup (pm_regions m) rid = Some r" using r(1) by (simp add: GetRegion_def)
  have index: "fmlookup (pm_by_start m) k = Some i \<longleftrightarrow>
      (\<exists>q. fmlookup (pm_regions m) i = Some q \<and> ri_start_key q = k)" for k i
    using wf by (simp add: catalog_wf_def index_wf_def)
  have start: "fmlookup (pm_by_start m) (ri_start_key r) = Some rid" "ri_start_key r \<le> key"
    using lk index r(2) by (auto simp: ContainsKey_range range_contains_def)
  then obtain k' i where l: "last (before_upper_bound (pm_by_start m) key) = (k', i)"
    and k': "fmlookup (pm_by_start m) k' = Some i" "k' \<le> key" "ri_start_key r \<le> k'"
    using before_upper_bound_last [OF before_upper_bound_nonempty [OF start]] by metis
  obtain q where q: "fmlookup (pm_regions m) i = Some q" "ri_start_key q = k'"
    using k'(1) index by auto
  have "ContainsKey r k'"
    using r(2) k'(2,3) by (auto simp: ContainsKey_range range_contains_def)
  moreover have "ContainsKey q k'"
    using wf q by (auto simp: catalog_wf_def region_wf_def)
  moreover have "key_partition (pm_regions m)" using wf lk by (auto simp: catalog_wf_def)
  ultimately have "i = rid" using lk q(1) key_partition_unique by metis
  with q lk r(2) l before_upper_bound_nonempty [OF start] show ?thesis
    by (cases "before_upper_bound (pm_by_start m) key") (auto simp: md_GetRegionByKey_def split: if_splits)
qed

lemma GetRegionByKey_total:
  assumes "catalog_wf m" and "pm_regions m \<noteq> fmempty"
  obtains rid r where "md_GetRegionByKey m key = Some r" and "GetRegion m rid = Some r"
    and "ContainsKey r key"
proof -
  have "key_partition (pm_regions m)" using assms by (simp add: catalog_wf_def)
  then obtain rid r where "fmlookup (pm_regions m) rid = Some r" "ContainsKey r key"
    by (rule key_partition_ex)
  with that GetRegionByKey_complete [OF assms(1)] show thesis by (metis GetRegion_def)
qed

section \<open>Updates that keep the invariant\<close>

lemma catalog_wf_new: "catalog_wf PdMetadataStore_new"
  by (simp add: catalog_wf_def ids_wf_def index_wf_def disjoint_peers_def PdMetadataStore_new_def)

lemma catalog_wfD:
  assumes "catalog_wf m" and "fmlookup (pm_regions m) i = Some r"
  shows "ri_region_id r = i" "0 < i" "i < pm_next_region_id m" "region_wf m r" "key_partition (pm_regions m)"
    "fmlookup (pm_by_start m) (ri_start_key r) = Some i"
  using assms by (auto simp: catalog_wf_def ids_wf_def index_wf_def)

lemma catalog_wf_disjoint:
  assumes "catalog_wf m" and "fmlookup (pm_regions m) i = Some r" and "fmlookup (pm_regions m) j = Some q"
    and "i \<noteq> j"
  shows "peer_ids r \<inter> peer_ids q = {}"
  using assms unfolding catalog_wf_def disjoint_peers_def by blast

lemma disjoint_peers_upd:
  assumes "disjoint_peers rs" and "\<And>j q. j \<noteq> i \<Longrightarrow> fmlookup rs j = Some q \<Longrightarrow> peer_ids r \<inter> peer_ids q = {}"
  shows "disjoint_peers (fmupd i r rs)"
  unfolding disjoint_peers_def
proof (intro allI impI)
  fix a b x y
  assume "a \<noteq> b" "fmlookup (fmupd i r rs) a = Some x" "fmlookup (fmupd i r rs) b = Some y"
  moreover have "a \<noteq> b \<Longrightarrow> fmlookup rs a = Some x \<Longrightarrow> fmlookup rs b = Some y \<Longrightarrow> peer_ids x \<inter> peer_ids y = {}"
    using assms(1) unfolding disjoint_peers_def by blast
  ultimately show "peer_ids x \<inter> peer_ids y = {}"
    using assms(2) [of a x] assms(2) [of b y] by (cases "a = i"; cases "b = i") (simp_all add: Int_commute)
qed

lemma region_wf_mono:
  assumes "region_wf m r" and "pm_next_peer_id m \<le> pm_next_peer_id m'"
    and "fmdom (pm_stores m) |\<subseteq>| fmdom (pm_stores m')"
  shows "region_wf m' r"
proof -
  have "fmlookup (pm_stores m) s \<noteq> None \<Longrightarrow> fmlookup (pm_stores m') s \<noteq> None" for s
    using assms(3) by (metis fmdom_notD fmdom_notI fsubsetD)
  with assms(1,2) show ?thesis by (auto simp: region_wf_def intro: order.strict_trans2)
qed

lemma put_store_wf [wf_intros]:
  assumes "catalog_wf m" and "si_store_id s \<noteq> 0" and "si_store_id s < pm_next_store_id m'"
    and "pm_next_store_id m \<le> pm_next_store_id m'"
    and "m' = m\<lparr>pm_next_store_id := pm_next_store_id m', pm_stores := fmupd (si_store_id s) s (pm_stores m)\<rparr>"
  shows "catalog_wf m'"
proof -
  have f: "pm_regions m' = pm_regions m" "pm_by_start m' = pm_by_start m"
    "pm_next_region_id m' = pm_next_region_id m" "pm_next_peer_id m' = pm_next_peer_id m"
    "pm_stores m' = fmupd (si_store_id s) s (pm_stores m)"
    by (subst assms(5), simp)+
  have "region_wf m' r" if "region_wf m r" for r
    using that by (rule region_wf_mono) (auto simp: f)
  moreover have "ids_wf m'"
    using assms(1-4) by (auto simp: catalog_wf_def ids_wf_def f word_neq_0_conv intro: order.strict_trans2)
  ultimately show ?thesis using assms(1) by (simp add: catalog_wf_def index_wf_def f)
qed

lemma key_partition_replace:
  assumes "key_partition rs" and "fmlookup rs i = Some r" and "\<And>k. ContainsKey r' k = ContainsKey r k"
  shows "key_partition (fmupd i r' rs)"
proof -
  have "(\<exists>q. fmlookup (fmupd i r' rs) j = Some q \<and> ContainsKey q k) \<longleftrightarrow>
      (\<exists>q. fmlookup rs j = Some q \<and> ContainsKey q k)" for j k
    using assms(2,3) by (cases "j = i") simp_all
  with assms(1) show ?thesis by (simp only: key_partition_def simp_thms)
qed

lemma replace_region_wf [wf_intros]:
  assumes wf: "catalog_wf m" and r: "fmlookup (pm_regions m) i = Some r"
    and r': "ri_region_id r' = i" "ri_start_key r' = ri_start_key r" "ri_end_key r' = ri_end_key r"
    and p: "pm_next_peer_id m \<le> n" "region_wf (m\<lparr>pm_next_peer_id := n\<rparr>) r'"
      "peer_ids r' \<subseteq> peer_ids r \<union> {p. pm_next_peer_id m \<le> p}"
  shows "catalog_wf (snd (PutRegion r' (m\<lparr>pm_next_peer_id := n\<rparr>)))"
proof -
  let ?m = "snd (PutRegion r' (m\<lparr>pm_next_peer_id := n\<rparr>))"
  note D = catalog_wfD [OF wf r]
  have upd: "fmupd (ri_start_key r) i (pm_by_start m) = pm_by_start m"
    using D(6) by (intro fmap_ext) auto
  have "i \<noteq> 0" using D(2) by (simp add: word_neq_0_conv)
  then have f: "pm_regions ?m = fmupd i r' (pm_regions m)" "pm_by_start ?m = pm_by_start m"
    "pm_next_region_id ?m = pm_next_region_id m" "pm_next_peer_id ?m = n"
    "pm_stores ?m = pm_stores m" "pm_next_store_id ?m = pm_next_store_id m"
    by (simp_all add: PutRegion_def r' upd)
  have "region_wf ?m q" if "fmlookup (pm_regions m) j = Some q" for j q
    using catalog_wfD(4) [OF wf that] by (rule region_wf_mono) (simp_all add: f p(1))
  moreover have "region_wf ?m r'" using p(2) by (rule region_wf_mono) (simp_all add: f)
  moreover have "key_partition (pm_regions ?m)"
    unfolding f by (rule key_partition_replace [OF D(5) r]) (simp add: ContainsKey_def r')
  moreover have "peer_ids r' \<inter> peer_ids q = {}" if "j \<noteq> i" "fmlookup (pm_regions m) j = Some q" for j q
  proof -
    have "peer_ids r \<inter> peer_ids q = {}" using wf r that by (metis catalog_wf_disjoint)
    moreover have "\<forall>x \<in> peer_ids q. x < pm_next_peer_id m"
      using catalog_wfD(4) [OF wf that(2)] by (simp add: region_wf_def)
    ultimately show ?thesis using p(3) by (fastforce simp: not_le)
  qed
  then have "disjoint_peers (pm_regions ?m)"
    unfolding f using wf by (intro disjoint_peers_upd) (simp_all add: catalog_wf_def)
  moreover have "ids_wf ?m"
    using wf r r' p(1) D(2,3) by (simp add: catalog_wf_def ids_wf_def f) (metis order.strict_trans2)
  moreover have "index_wf ?m"
    using wf r r' by (auto simp: catalog_wf_def index_wf_def f)
  ultimately show ?thesis by (simp add: catalog_wf_def f)
qed

lemma key_partition_split:
  assumes part: "key_partition rs" and r: "fmlookup rs i = Some r" and j: "fmlookup rs j = None"
    and k: "ContainsKey r k" "k \<noteq> ri_start_key r" "k \<noteq> []"
    and l: "ri_start_key l = ri_start_key r" "ri_end_key l = k"
    and q: "ri_start_key q = k" "ri_end_key q = ri_end_key r"
  shows "key_partition (fmupd j q (fmupd i l rs))"
  unfolding key_partition_def
proof
  fix key
  have b: "ri_start_key r \<le> k" "ri_end_key r = [] \<or> k < ri_end_key r"
    using k(1) by (simp_all add: ContainsKey_range range_contains_def)
  have split: "ContainsKey r key \<longleftrightarrow> ContainsKey l key \<or> ContainsKey q key"
    "\<not> (ContainsKey l key \<and> ContainsKey q key)"
    using range_split [OF b k(3)] by (simp_all add: ContainsKey_range l q)
  have ij: "i \<noteq> j" using r j by auto
  obtain i0 r0 where i0: "fmlookup rs i0 = Some r0" "ContainsKey r0 key"
    using part by (rule key_partition_ex)
  define w where "w = (if i0 \<noteq> i then i0 else if ContainsKey l key then i else j)"
  show "\<exists>!x. \<exists>y. fmlookup (fmupd j q (fmupd i l rs)) x = Some y \<and> ContainsKey y key"
  proof (rule ex1I [of _ w])
    show "\<exists>y. fmlookup (fmupd j q (fmupd i l rs)) w = Some y \<and> ContainsKey y key"
      using i0 split(1) r j ij by (auto simp: w_def)
  next
    fix x
    assume "\<exists>y. fmlookup (fmupd j q (fmupd i l rs)) x = Some y \<and> ContainsKey y key"
    then show "x = w"
      using i0 split r j ij key_partition_unique [OF part] unfolding w_def
      by (auto split: if_splits)
  qed
qed

lemma split_regions_wf [wf_intros]:
  assumes wf: "catalog_wf m" and r: "fmlookup (pm_regions m) i = Some r"
    and k: "ContainsKey r k" "k \<noteq> ri_start_key r"
    and j: "j = pm_next_region_id m" "j \<noteq> - 1" and n: "pm_next_peer_id m \<le> n"
    and l: "ri_region_id l = i" "ri_start_key l = ri_start_key r" "ri_end_key l = k"
      "ri_peers l = ri_peers r" "ri_leader_peer_id l = ri_leader_peer_id r"
    and q: "ri_region_id q = j" "ri_start_key q = k" "ri_end_key q = ri_end_key r"
      "region_wf (m\<lparr>pm_next_region_id := j + 1, pm_next_peer_id := n\<rparr>) q"
      "\<forall>p \<in> peer_ids q. pm_next_peer_id m \<le> p"
  shows "catalog_wf (snd (PutRegion q (snd (PutRegion l
           (m\<lparr>pm_next_region_id := j + 1, pm_next_peer_id := n\<rparr>)))))" (is "catalog_wf ?m")
proof -
  note D = catalog_wfD [OF wf r]
  have old: "i' < j" "r'' \<noteq> r \<or> i' = i" if "fmlookup (pm_regions m) i' = Some r''" for i' r''
    using catalog_wfD(3) [OF wf that] catalog_wfD(1) [OF wf that] D(1) j(1) by auto
  have fresh: "fmlookup (pm_regions m) j = None" using old(1) by fastforce
  have nz: "i \<noteq> 0" "j \<noteq> 0" "i \<noteq> j" "i < j"
    using D(2,3) j(1) old(1) [OF r] by (auto simp: word_neq_0_conv)
  have j1: "j < j + 1" using j(2) by (rule word_less_succ)
  have ne: "k \<noteq> []" using k by (auto simp: ContainsKey_range range_contains_def)
  have upd: "fmupd (ri_start_key r) i (pm_by_start m) = pm_by_start m"
    using D(6) by (intro fmap_ext) auto
  have f: "pm_regions ?m = fmupd j q (fmupd i l (pm_regions m))"
    "pm_by_start ?m = fmupd k j (pm_by_start m)" "pm_next_region_id ?m = j + 1"
    "pm_next_peer_id ?m = n" "pm_stores ?m = pm_stores m" "pm_next_store_id ?m = pm_next_store_id m"
    using nz by (simp_all add: PutRegion_def l q upd)
  have "key_partition (pm_regions ?m)"
    unfolding f by (rule key_partition_split [OF D(5) r fresh k ne l(2,3) q(2,3)])
  moreover have "region_wf ?m x" if "fmlookup (pm_regions m) a = Some x" for a x
    using catalog_wfD(4) [OF wf that] by (rule region_wf_mono) (simp_all add: f n)
  then have wfr: "region_wf ?m x" if "fmlookup (pm_regions m) a = Some x" for a x using that .
  moreover have "region_wf ?m q" using q(4) by (rule region_wf_mono) (simp_all add: f)
  moreover have "ContainsKey l (ri_start_key l)"
    using k by (auto simp: ContainsKey_range range_contains_def l)
  then have "region_wf ?m l" using wfr [OF r] by (simp add: region_wf_def l peer_ids_def)
  moreover have "disjoint_peers (pm_regions ?m)"
  proof -
    have "peer_ids l = peer_ids r" by (simp add: peer_ids_def l)
    then have "disjoint_peers (fmupd i l (pm_regions m))"
      using wf catalog_wf_disjoint [OF wf r] by (intro disjoint_peers_upd) (auto simp: catalog_wf_def)
    moreover have "peer_ids q \<inter> peer_ids x = {}" if "fmlookup (fmupd i l (pm_regions m)) a = Some x" for a x
    proof -
      have "\<forall>p \<in> peer_ids x. p < pm_next_peer_id m"
        using that catalog_wfD(4) [OF wf] D(4) \<open>peer_ids l = peer_ids r\<close>
        by (auto simp: region_wf_def split: if_splits)
      with q(5) show ?thesis by (force simp: not_le)
    qed
    ultimately show ?thesis unfolding f by (rule disjoint_peers_upd)
  qed
  moreover have "ids_wf ?m"
  proof -
    have m: "ids_wf m" using wf by (simp add: catalog_wf_def)
    then have n0: "0 < n" "0 < j + 1" using n j1 nz(2)
      by (auto simp: ids_wf_def word_neq_0_conv intro: order.strict_trans2 order.strict_trans)
    have "ri_region_id x = a \<and> 0 < a \<and> a < j + 1"
      if "fmlookup (fmupd j q (fmupd i l (pm_regions m))) a = Some x" for a x
    proof (cases "a = j \<or> a = i")
      case True
      then show ?thesis
        using that nz j1 order.strict_trans [OF nz(4) j1] l(1) q(1) by (auto simp: word_neq_0_conv)
    next
      case False
      then have x: "fmlookup (pm_regions m) a = Some x" using that by (auto split: if_splits)
      from catalog_wfD(1,2) [OF wf x] order.strict_trans [OF old(1) [OF x] j1] show ?thesis by simp
    qed
    with m n0 show ?thesis unfolding ids_wf_def f by blast
  qed
  moreover have "index_wf ?m"
  proof -
    have "fmlookup (pm_by_start m) k \<noteq> Some a" for a
    proof
      assume "fmlookup (pm_by_start m) k = Some a"
      then obtain x where x: "fmlookup (pm_regions m) a = Some x" "ri_start_key x = k"
        using wf by (auto simp: catalog_wf_def index_wf_def)
      then have "ContainsKey x k" using catalog_wfD(4) [OF wf x(1)] by (simp add: region_wf_def)
      then have "a = i" using key_partition_unique [OF D(5) x(1) r _ k(1)] by simp
      with x r k(2) show False by simp
    qed
    then have "fmlookup (pm_by_start m) k = None" by (metis not_Some_eq)
    moreover from this have "ri_start_key x \<noteq> k" if "fmlookup (pm_regions m) a = Some x" for a x
      using catalog_wfD(6) [OF wf that] by auto
    ultimately show ?thesis
      using wf r fresh nz l(2) q(2) k(2) by (auto simp: catalog_wf_def index_wf_def f)
  qed
  ultimately show ?thesis by (auto simp: catalog_wf_def f split: if_splits)
qed

lemma first_region_wf [wf_intros]:
  assumes wf: "catalog_wf m" and "pm_regions m = fmempty" and j: "j = pm_next_region_id m" "j \<noteq> - 1"
    and n: "pm_next_peer_id m \<le> n"
    and q: "ri_region_id q = j" "ri_start_key q = []" "ri_end_key q = []"
      "region_wf (m\<lparr>pm_next_region_id := j + 1, pm_next_peer_id := n\<rparr>) q"
  shows "catalog_wf (snd (PutRegion q (m\<lparr>pm_next_region_id := j + 1, pm_next_peer_id := n\<rparr>)))"
    (is "catalog_wf ?m")
proof -
  have nz: "j \<noteq> 0" using wf j(1) by (auto simp: catalog_wf_def ids_wf_def)
  have by_start: "pm_by_start m = fmempty"
    using wf assms(2) by (intro fmap_ext) (auto simp: catalog_wf_def index_wf_def intro: option.exhaust_sel)
  have f: "pm_regions ?m = fmupd j q fmempty" "pm_by_start ?m = fmupd [] j fmempty"
    "pm_next_region_id ?m = j + 1" "pm_next_peer_id ?m = n" "pm_stores ?m = pm_stores m"
    "pm_next_store_id ?m = pm_next_store_id m"
    using nz by (simp_all add: PutRegion_def q assms(2) by_start)
  have "region_wf ?m q" using q(4) by (rule region_wf_mono) (simp_all add: f)
  moreover have "key_partition (pm_regions ?m)"
    unfolding f key_partition_def by (auto simp: ContainsKey_def q Let_def split: if_splits)
  moreover have "ids_wf ?m"
    using wf nz q(1) n word_less_succ [OF j(2)]
    by (auto simp: catalog_wf_def ids_wf_def f word_neq_0_conv intro: order.strict_trans order.strict_trans2)
  ultimately show ?thesis
    using q(2) by (auto simp: catalog_wf_def f index_wf_def disjoint_peers_def split: if_splits)
qed

end
