(* ===== verification/Rpc_Codec.thy ===== *)
theory Rpc_Codec
  imports File_Kv_Engine
begin

text \<open>
  rpc_codec.cpp, in_process_rpc.cpp and their headers: field maps as lines of hexadecimal
  text, requests and responses as field maps, and the method registry of a server.
  A handler is a C++ closure over the state of its service; here it takes and returns that
  state explicitly, \<open>None\<close> standing for an exception that leaves the handler. The lemmas give
  the round trip of field maps, requests and responses.
\<close>

section \<open>Messages\<close>

type_synonym FieldMap = "(string, string) std_map"

record RpcRequest =
  rq_request_id :: string
  rq_method :: string
  rq_source :: string
  rq_target :: string
  rq_deadline_ms :: i32
  rq_payload :: string
  rq_metadata :: FieldMap

record RpcResponse =
  rs_request_id :: string
  rs_ok :: bool
  rs_error_code :: string
  rs_error_message :: string
  rs_payload :: string
  rs_metadata :: FieldMap

definition RpcResponse_default :: RpcResponse where
  "RpcResponse_default =
     \<lparr>rs_request_id = '''', rs_ok = True, rs_error_code = '''', rs_error_message = '''',
      rs_payload = '''', rs_metadata = fmempty\<rparr>"

definition MakeRpcOk :: "RpcRequest \<Rightarrow> string \<Rightarrow> RpcResponse" where
  "MakeRpcOk request payload =
     RpcResponse_default\<lparr>rs_request_id := rq_request_id request, rs_ok := True, rs_payload := payload\<rparr>"

definition MakeRpcError :: "RpcRequest \<Rightarrow> string \<Rightarrow> string \<Rightarrow> RpcResponse" where
  "MakeRpcError request error_code error_message =
     RpcResponse_default\<lparr>rs_request_id := rq_request_id request, rs_ok := False,
       rs_error_code := error_code, rs_error_message := error_message\<rparr>"

section \<open>Field maps\<close>

definition GetFieldOr :: "FieldMap \<Rightarrow> string \<Rightarrow> string \<Rightarrow> string" where
  "GetFieldOr flds key fallback =
     (case fmlookup flds key of None \<Rightarrow> fallback | Some v \<Rightarrow> v)"

definition GetIntFieldOr :: "FieldMap \<Rightarrow> string \<Rightarrow> i32 \<Rightarrow> i32" where
  "GetIntFieldOr flds key fallback =
     (case fmlookup flds key of
        None \<Rightarrow> fallback
      | Some s \<Rightarrow> (case stoi s of None \<Rightarrow> fallback | Some v \<Rightarrow> v))"

definition field_line :: "string \<times> string \<Rightarrow> string" where
  "field_line kv = HexEncode (fst kv) @ CHR ''='' # HexEncode (snd kv)"

definition EncodeFields :: "FieldMap \<Rightarrow> string" where
  "EncodeFields flds = concat (map (\<lambda>kv. field_line kv @ [NL]) (entries flds))"

fun decode_lines :: "string list \<Rightarrow> FieldMap \<Rightarrow> Status + FieldMap" where
  "decode_lines [] flds = Inr flds"
| "decode_lines (line # lines) flds =
     (if line = [] then decode_lines lines flds
      else if CHR ''='' \<notin> set line then Inl (InvalidArgument (''encoded field is missing '' @ [CHR 0x27, CHR ''='', CHR 0x27]))
      else
        case HexDecode (takeWhile (\<lambda>c. c \<noteq> CHR ''='') line) of
          Inl status \<Rightarrow> Inl status
        | Inr key \<Rightarrow>
            (case HexDecode (drop 1 (dropWhile (\<lambda>c. c \<noteq> CHR ''='') line)) of
               Inl status \<Rightarrow> Inl status
             | Inr v \<Rightarrow> decode_lines lines (fmupd key v flds)))"

definition DecodeFields :: "string \<Rightarrow> Status + FieldMap" where
  "DecodeFields encoded = decode_lines (getlines NL encoded) fmempty"

section \<open>Requests and responses\<close>

definition EncodeRpcRequest :: "RpcRequest \<Rightarrow> string" where
  "EncodeRpcRequest r =
     (let flds = rq_metadata r;
          flds = fmupd ''_request_id'' (rq_request_id r) flds;
          flds = fmupd ''_method'' (rq_method r) flds;
          flds = fmupd ''_source'' (rq_source r) flds;
          flds = fmupd ''_target'' (rq_target r) flds;
          flds = fmupd ''_deadline_ms'' (to_string_signed (rq_deadline_ms r)) flds;
          flds = fmupd ''_payload'' (rq_payload r) flds
      in EncodeFields flds)"

text \<open>The metadata loop keeps the fields whose key is not empty and has no leading underscore.\<close>

definition metadata_key :: "string \<Rightarrow> bool" where
  "metadata_key k \<longleftrightarrow> k \<noteq> [] \<and> hd k \<noteq> CHR ''_''"

definition DecodeRpcRequest :: "string \<Rightarrow> Status + RpcRequest" where
  "DecodeRpcRequest encoded =
     (case DecodeFields encoded of
        Inl status \<Rightarrow> Inl status
      | Inr flds \<Rightarrow>
          Inr \<lparr>rq_request_id = GetFieldOr flds ''_request_id'' '''',
               rq_method = GetFieldOr flds ''_method'' '''',
               rq_source = GetFieldOr flds ''_source'' '''',
               rq_target = GetFieldOr flds ''_target'' '''',
               rq_deadline_ms = GetIntFieldOr flds ''_deadline_ms'' 3000,
               rq_payload = GetFieldOr flds ''_payload'' '''',
               rq_metadata = fmfilter metadata_key flds\<rparr>)"

definition EncodeRpcResponse :: "RpcResponse \<Rightarrow> string" where
  "EncodeRpcResponse r =
     (let flds = rs_metadata r;
          flds = fmupd ''_request_id'' (rs_request_id r) flds;
          flds = fmupd ''_ok'' (if rs_ok r then ''1'' else ''0'') flds;
          flds = fmupd ''_error_code'' (rs_error_code r) flds;
          flds = fmupd ''_error_message'' (rs_error_message r) flds;
          flds = fmupd ''_payload'' (rs_payload r) flds
      in EncodeFields flds)"

definition DecodeRpcResponse :: "string \<Rightarrow> Status + RpcResponse" where
  "DecodeRpcResponse encoded =
     (case DecodeFields encoded of
        Inl status \<Rightarrow> Inl status
      | Inr flds \<Rightarrow>
          Inr \<lparr>rs_request_id = GetFieldOr flds ''_request_id'' '''',
               rs_ok = (GetFieldOr flds ''_ok'' ''0'' = ''1''),
               rs_error_code = GetFieldOr flds ''_error_code'' '''',
               rs_error_message = GetFieldOr flds ''_error_message'' '''',
               rs_payload = GetFieldOr flds ''_payload'' '''',
               rs_metadata = fmfilter metadata_key flds\<rparr>)"

section \<open>The method registry\<close>

type_synonym 's RpcHandler = "RpcRequest \<Rightarrow> 's \<Rightarrow> (RpcResponse \<times> 's) option"

record 's RpcServer =
  handlers :: "(string, 's RpcHandler) std_map"

definition RpcServer_new :: "'s RpcServer" where
  "RpcServer_new = \<lparr>handlers = fmempty\<rparr>"

text \<open>A null \<open>std::function\<close> is the handler \<open>None\<close>.\<close>

definition RegisterHandler ::
  "string \<Rightarrow> 's RpcHandler option \<Rightarrow> 's RpcServer \<Rightarrow> Status \<times> 's RpcServer" where
  "RegisterHandler rpc_method handler s =
     (if rpc_method = [] then (InvalidArgument ''rpc method must not be empty'', s)
      else case handler of
             None \<Rightarrow> (InvalidArgument ''rpc handler must not be empty'', s)
           | Some h \<Rightarrow> (Status_Ok, s\<lparr>handlers := fmupd rpc_method h (handlers s)\<rparr>))"

definition RpcServer_Handle :: "'s RpcServer \<Rightarrow> 's RpcHandler" where
  "RpcServer_Handle server request s =
     (case fmlookup (handlers server) (rq_method request) of
        None \<Rightarrow> Some (MakeRpcError request (ErrorCodeName kRpcError)
                        (''method not found: '' @ rq_method request), s)
      | Some handler \<Rightarrow> handler request s)"

text \<open>A client that was given no server answers every call with an error.\<close>

definition InProcessRpcClient_Call :: "'s RpcServer option \<Rightarrow> 's RpcHandler" where
  "InProcessRpcClient_Call server request s =
     (case server of
        None \<Rightarrow> Some (MakeRpcError request (ErrorCodeName kRpcError) ''rpc server is not connected'', s)
      | Some srv \<Rightarrow> RpcServer_Handle srv request s)"

section \<open>Round trips\<close>

lemma field_line_graph: "NL \<notin> set (field_line kv)"
  by (auto simp: field_line_def dest: HexEncode_graph)

lemma getlines_field_lines:
  "getlines NL (concat (map (\<lambda>kv. field_line kv @ [NL]) kvs)) = map field_line kvs"
  by (induction kvs) (simp_all add: getlines_line field_line_graph)

lemma HexEncode_no_equal: "CHR ''='' \<notin> set (HexEncode s)"
  by (auto dest: HexEncode_graph)

lemma decode_field_line [codec_simps]:
  "decode_lines (field_line (k, v) # ls) m = decode_lines ls (fmupd k v m)"
  by (simp add: field_line_def split_at_first [OF HexEncode_no_equal])

lemma decode_field_lines:
  "decode_lines (map field_line kvs) m = Inr (fold (\<lambda>(k, v) m. fmupd k v m) kvs m)"
  by (induction kvs arbitrary: m) (auto simp: decode_field_line simp del: decode_lines.simps(2))

lemma decode_encode_fields [codec_simps]: "DecodeFields (EncodeFields flds) = Inr flds"
  using fm_of_entries [of flds]
  by (simp add: DecodeFields_def EncodeFields_def getlines_field_lines decode_field_lines fm_of_list_def)

interpretation field_map: codec EncodeFields DecodeFields "\<lambda>_. True"
  by unfold_locales (simp add: decode_encode_fields)

lemma fmfilter_upd_dropped: "\<not> P k \<Longrightarrow> fmfilter P (fmupd k v m) = fmfilter P m"
  by (rule fmap_ext) auto

lemma reserved_keys [simp]: "\<not> metadata_key (CHR ''_'' # k)"
  by (simp add: metadata_key_def)

lemma GetFieldOr_upd [simp]:
  "GetFieldOr (fmupd k v m) k' d = (if k = k' then v else GetFieldOr m k' d)"
  by (simp add: GetFieldOr_def)

lemma GetIntFieldOr_upd [simp]:
  "GetIntFieldOr (fmupd k v m) k' d =
     (if k = k' then (case stoi v of None \<Rightarrow> d | Some i \<Rightarrow> i) else GetIntFieldOr m k' d)"
  by (simp add: GetIntFieldOr_def)

lemma decode_encode_request:
  "DecodeRpcRequest (EncodeRpcRequest r) =
     Inr (r\<lparr>rq_metadata := fmfilter metadata_key (rq_metadata r)\<rparr>)"
  by (simp add: DecodeRpcRequest_def EncodeRpcRequest_def Let_def decode_encode_fields
      fmfilter_upd_dropped stoi_to_string_signed)

lemma decode_encode_response:
  "DecodeRpcResponse (EncodeRpcResponse r) =
     Inr (r\<lparr>rs_metadata := fmfilter metadata_key (rs_metadata r)\<rparr>)"
  by (simp add: DecodeRpcResponse_def EncodeRpcResponse_def Let_def decode_encode_fields
      fmfilter_upd_dropped)

definition metadata_ok :: "FieldMap \<Rightarrow> bool" where
  "metadata_ok m \<longleftrightarrow> fmfilter metadata_key m = m"

interpretation rpc_request: codec EncodeRpcRequest DecodeRpcRequest "\<lambda>r. metadata_ok (rq_metadata r)"
  by unfold_locales (simp add: decode_encode_request metadata_ok_def)

interpretation rpc_response: codec EncodeRpcResponse DecodeRpcResponse "\<lambda>r. metadata_ok (rs_metadata r)"
  by unfold_locales (simp add: decode_encode_response metadata_ok_def)

section \<open>Dispatch\<close>

lemma handle_registered:
  "rpc_method \<noteq> [] \<Longrightarrow>
   RpcServer_Handle (snd (RegisterHandler rpc_method (Some h) srv)) req s =
     (if rq_method req = rpc_method then h req s else RpcServer_Handle srv req s)"
  by (auto simp: RegisterHandler_def RpcServer_Handle_def)

section \<open>Properties\<close>

text \<open>
  C27. The wire format of RPC messages is lossless up to reserved metadata. Decoding an encoded
  request or response gives it back, all header flds and the payload for arbitrary bytes,
  with the metadata reduced to the entries whose key is not empty and does not start with an
  underscore; field maps on their own come back whole.
\<close>

theorem rpc_wire_roundtrip:
  "DecodeRpcRequest (EncodeRpcRequest r) =
     Inr (r\<lparr>rq_metadata := fmfilter metadata_key (rq_metadata r)\<rparr>) \<and>
   DecodeRpcResponse (EncodeRpcResponse p) =
     Inr (p\<lparr>rs_metadata := fmfilter metadata_key (rs_metadata p)\<rparr>) \<and>
   DecodeFields (EncodeFields f) = Inr f"
  by (simp add: decode_encode_request decode_encode_response decode_encode_fields)

end
