(* ===== verification/Serialization.thy ===== *)
theory Serialization
  imports Rpc_Codec
begin

text \<open>
  serialization.cpp: stores and regions as entries of a field map, under an optional prefix.
  \<open>GetStoreFields\<close> writes into an existing store and leaves its labels alone, so it takes
  that store. The lemmas give the round trips for every prefix and every map that the fields
  are written into; labels are not written.
\<close>

section \<open>Operations\<close>

definition Key :: "string \<Rightarrow> string \<Rightarrow> string" where
  "Key p name = (if p = [] then name else p @ ''.'' @ name)"

definition GetOr :: "FieldMap \<Rightarrow> string \<Rightarrow> string \<Rightarrow> string" where
  "GetOr flds key fallback = (case fmlookup flds key of None \<Rightarrow> fallback | Some v \<Rightarrow> v)"

definition GetUint64Or :: "FieldMap \<Rightarrow> string \<Rightarrow> u64 \<Rightarrow> u64" where
  "GetUint64Or flds key fallback =
     (case fmlookup flds key of
        None \<Rightarrow> fallback
      | Some s \<Rightarrow> (case stoull s of None \<Rightarrow> fallback | Some v \<Rightarrow> v))"

definition GetIntOr :: "FieldMap \<Rightarrow> string \<Rightarrow> i32 \<Rightarrow> i32" where
  "GetIntOr flds key fallback =
     (case fmlookup flds key of
        None \<Rightarrow> fallback
      | Some s \<Rightarrow> (case stoi s of None \<Rightarrow> fallback | Some v \<Rightarrow> v))"

fun PeerRoleName :: "PeerRole \<Rightarrow> string" where
  "PeerRoleName kVoter = ''Voter''"
| "PeerRoleName kLearner = ''Learner''"

definition ParsePeerRole :: "string \<Rightarrow> PeerRole" where
  "ParsePeerRole v = (if v = ''Learner'' then kLearner else kVoter)"

definition PutStoreFields :: "FieldMap \<Rightarrow> StoreInfo \<Rightarrow> string \<Rightarrow> FieldMap" where
  "PutStoreFields flds store p =
     (let flds = fmupd (Key p ''store_id'') (to_string (si_store_id store)) flds;
          flds = fmupd (Key p ''raft_host'') (ep_host (si_raft_endpoint store)) flds;
          flds = fmupd (Key p ''raft_port'') (to_string_signed (ep_port (si_raft_endpoint store))) flds;
          flds = fmupd (Key p ''client_host'') (ep_host (si_client_endpoint store)) flds;
          flds = fmupd (Key p ''client_port'') (to_string_signed (ep_port (si_client_endpoint store))) flds;
          flds = fmupd (Key p ''state'') (si_state store) flds
      in fmupd (Key p ''last_heartbeat_ms'') (to_string_signed (si_last_heartbeat_ms store)) flds)"

definition GetStoreFields :: "FieldMap \<Rightarrow> StoreInfo \<Rightarrow> string \<Rightarrow> Status \<times> StoreInfo" where
  "GetStoreFields flds store p =
     (Status_Ok,
      store\<lparr>si_store_id := GetUint64Or flds (Key p ''store_id'') 0,
            si_raft_endpoint :=
              \<lparr>ep_host = GetOr flds (Key p ''raft_host'') ''127.0.0.1'',
               ep_port = GetIntOr flds (Key p ''raft_port'') 0\<rparr>,
            si_client_endpoint :=
              \<lparr>ep_host = GetOr flds (Key p ''client_host'') ''127.0.0.1'',
               ep_port = GetIntOr flds (Key p ''client_port'') 0\<rparr>,
            si_state := GetOr flds (Key p ''state'') ''Up'',
            si_last_heartbeat_ms := GetUint64Or flds (Key p ''last_heartbeat_ms'') 0\<rparr>)"

definition put_peer :: "string \<Rightarrow> nat \<times> Peer \<Rightarrow> FieldMap \<Rightarrow> FieldMap" where
  "put_peer p ip flds =
     (let peer_prefix = Key p (''peer'' @ show_nat (fst ip));
          flds = fmupd (Key peer_prefix ''peer_id'') (to_string (pr_peer_id (snd ip))) flds;
          flds = fmupd (Key peer_prefix ''store_id'') (to_string (pr_store_id (snd ip))) flds
      in fmupd (Key peer_prefix ''role'') (PeerRoleName (pr_role (snd ip))) flds)"

definition PutRegionFields :: "FieldMap \<Rightarrow> RegionInfo \<Rightarrow> string \<Rightarrow> FieldMap" where
  "PutRegionFields flds region p =
     (let flds = fmupd (Key p ''region_id'') (to_string (ri_region_id region)) flds;
          flds = fmupd (Key p ''start_key'') (ri_start_key region) flds;
          flds = fmupd (Key p ''end_key'') (ri_end_key region) flds;
          flds = fmupd (Key p ''conf_ver'') (to_string (re_conf_ver (ri_epoch region))) flds;
          flds = fmupd (Key p ''version'') (to_string (re_version (ri_epoch region))) flds;
          flds = fmupd (Key p ''leader_peer_id'') (to_string (ri_leader_peer_id region)) flds;
          flds = fmupd (Key p ''peer_count'') (show_nat (length (ri_peers region))) flds
      in fold (put_peer p) (enumerate 0 (ri_peers region)) flds)"

definition get_peer :: "FieldMap \<Rightarrow> string \<Rightarrow> nat \<Rightarrow> Peer" where
  "get_peer flds p i =
     (let peer_prefix = Key p (''peer'' @ show_nat i)
      in \<lparr>pr_peer_id = GetUint64Or flds (Key peer_prefix ''peer_id'') 0,
          pr_store_id = GetUint64Or flds (Key peer_prefix ''store_id'') 0,
          pr_role = ParsePeerRole (GetOr flds (Key peer_prefix ''role'') ''Voter'')\<rparr>)"

definition GetRegionFields :: "FieldMap \<Rightarrow> string \<Rightarrow> Status + RegionInfo" where
  "GetRegionFields flds p =
     Inr \<lparr>ri_region_id = GetUint64Or flds (Key p ''region_id'') 0,
          ri_start_key = GetOr flds (Key p ''start_key'') '''',
          ri_end_key = GetOr flds (Key p ''end_key'') '''',
          ri_epoch = \<lparr>re_conf_ver = GetUint64Or flds (Key p ''conf_ver'') 1,
                      re_version = GetUint64Or flds (Key p ''version'') 1\<rparr>,
          ri_peers = map (get_peer flds p) [0 ..< unat (GetUint64Or flds (Key p ''peer_count'') 0)],
          ri_leader_peer_id = GetUint64Or flds (Key p ''leader_peer_id'') 0\<rparr>"

section \<open>Field names\<close>

lemma Key_inj [simp]: "Key p a = Key p b \<longleftrightarrow> a = b"
  by (simp add: Key_def)

lemma Key_Key: "n \<noteq> [] \<Longrightarrow> Key (Key p n) m = Key p (n @ ''.'' @ m)"
  by (simp add: Key_def)

definition peer_name :: "nat \<Rightarrow> string \<Rightarrow> string" where
  "peer_name i f = ''peer'' @ show_nat i @ ''.'' @ f"

lemma peer_key:
  "Key (Key p (CHR ''p'' # CHR ''e'' # CHR ''e'' # CHR ''r'' # show_nat i)) f = Key p (peer_name i f)"
  by (simp add: Key_Key peer_name_def)

lemma takeWhile_digits_dot: "takeWhile is_digit (show_nat i @ CHR ''.'' # f) = show_nat i"
  by (subst takeWhile_append2) (auto dest: show_nat_digits simp: is_digit_def)

lemma peer_name_inj [simp]: "peer_name i f = peer_name j g \<longleftrightarrow> i = j \<and> f = g"
proof
  assume "peer_name i f = peer_name j g"
  then have eq: "show_nat i @ CHR ''.'' # f = show_nat j @ CHR ''.'' # g"
    by (simp add: peer_name_def)
  then have "show_nat i = show_nat j" by (metis takeWhile_digits_dot)
  with eq show "i = j \<and> f = g" by simp
qed simp

lemma peer_name_fifth: "is_digit (peer_name i f ! 4)"
  by (rule show_nat_Cons [of i]) (simp add: peer_name_def)

lemma peer_name_neqI: "\<not> is_digit (x ! 4) \<Longrightarrow> peer_name i f \<noteq> x"
  using peer_name_fifth by blast

lemma peer_name_neq [simp]:
  "peer_name i f \<noteq> ''region_id''" "peer_name i f \<noteq> ''start_key''" "peer_name i f \<noteq> ''end_key''"
  "peer_name i f \<noteq> ''conf_ver''" "peer_name i f \<noteq> ''version''" "peer_name i f \<noteq> ''leader_peer_id''"
  "peer_name i f \<noteq> ''peer_count''"
  by (rule peer_name_neqI, simp add: is_digit_def)+

lemmas peer_name_neq' [simp] = peer_name_neq [symmetric]

section \<open>Lookups\<close>

lemma GetOr_upd [simp]: "GetOr (fmupd k v m) k' d = (if k = k' then v else GetOr m k' d)"
  by (simp add: GetOr_def)

lemma GetUint64Or_upd [simp]:
  "GetUint64Or (fmupd k v m) k' d =
     (if k = k' then (case stoull v of None \<Rightarrow> d | Some i \<Rightarrow> i) else GetUint64Or m k' d)"
  by (simp add: GetUint64Or_def)

lemma GetIntOr_upd [simp]:
  "GetIntOr (fmupd k v m) k' d =
     (if k = k' then (case stoi v of None \<Rightarrow> d | Some i \<Rightarrow> i) else GetIntOr m k' d)"
  by (simp add: GetIntOr_def)

lemma ParsePeerRole_name [simp]: "ParsePeerRole (PeerRoleName r) = r"
  by (cases r) (simp_all add: ParsePeerRole_def)

lemma put_peer_upds:
  "put_peer p (i, x) m =
     fmupd (Key p (peer_name i ''role'')) (PeerRoleName (pr_role x))
       (fmupd (Key p (peer_name i ''store_id'')) (to_string (pr_store_id x))
         (fmupd (Key p (peer_name i ''peer_id'')) (to_string (pr_peer_id x)) m))"
  by (simp add: put_peer_def peer_key Let_def)

lemma put_peers_frame:
  assumes "\<forall>i f. n \<le> i \<longrightarrow> k \<noteq> Key p (peer_name i f)"
  shows "fmlookup (fold (put_peer p) (enumerate n ps) m) k = fmlookup m k"
  using assms
proof (induction ps arbitrary: n m)
  case (Cons x ps)
  then have "Key p (peer_name n f) \<noteq> k" for f by blast
  then have "fmlookup (put_peer p (n, x) m) k = fmlookup m k"
    by (simp add: put_peer_upds)
  moreover have "\<forall>i f. Suc n \<le> i \<longrightarrow> k \<noteq> Key p (peer_name i f)"
    using Cons.prems by simp
  ultimately show ?case using Cons.IH by simp
qed simp

lemma get_put_peers:
  assumes "i < length ps"
  shows "get_peer (fold (put_peer p) (enumerate n ps) m) p (n + i) = ps ! i"
  using assms
proof (induction ps arbitrary: n m i)
  case (Cons x ps)
  show ?case
  proof (cases i)
    case 0
    have "fmlookup (fold (put_peer p) (enumerate (Suc n) ps) m') (Key p (peer_name n f)) =
        fmlookup m' (Key p (peer_name n f))" for m' f
      by (rule put_peers_frame) simp
    with 0 show ?thesis
      by (simp add: get_peer_def Let_def peer_key GetUint64Or_def GetOr_def put_peer_upds
          stoull_to_string)
  next
    case (Suc j)
    with Cons.prems Cons.IH [of j "Suc n"] show ?thesis by simp
  qed
qed simp

lemma put_region_scalar:
  assumes "\<forall>i f. name \<noteq> peer_name i f"
  shows "GetOr (fold (put_peer p) (enumerate n ps) m) (Key p name) d = GetOr m (Key p name) d"
    and "GetUint64Or (fold (put_peer p) (enumerate n ps) m) (Key p name) u = GetUint64Or m (Key p name) u"
  using put_peers_frame [of n "Key p name" p ps m] assms by (simp_all add: GetOr_def GetUint64Or_def)

lemma get_put_region [codec_simps]:
  assumes "length (ri_peers region) < 2 ^ 64"
  shows "GetRegionFields (PutRegionFields flds region p) p = Inr region"
proof -
  have peers: "map (get_peer (fold (put_peer p) (enumerate 0 ps) m) p) [0 ..< length ps] = ps" for ps m
    using get_put_peers [of _ ps p 0 m] by (auto intro: nth_equalityI)
  have "unat (of_nat (length (ri_peers region)) :: u64) = length (ri_peers region)"
    using assms by (simp add: unat_of_nat take_bit_nat_eq_self)
  with assms show ?thesis
    by (simp add: GetRegionFields_def PutRegionFields_def Let_def put_region_scalar peers
        stoull_to_string stoull_show_nat)
qed

lemma get_put_store [codec_simps]:
  "GetStoreFields (PutStoreFields flds store p) s0 p = (Status_Ok, store\<lparr>si_labels := si_labels s0\<rparr>)"
  by (simp add: GetStoreFields_def PutStoreFields_def Let_def stoull_to_string stoi_to_string_signed
      stoull_to_string_signed)

interpretation region_fields:
  codec "\<lambda>r. PutRegionFields flds r p" "\<lambda>f. GetRegionFields f p" "\<lambda>r. length (ri_peers r) < 2 ^ 64" for flds p
  by unfold_locales (rule get_put_region)

section \<open>Lists of records under numbered prefixes\<close>

text \<open>
  The catalog file and the status answers hold lists: element \<open>i\<close> is written under the prefix
  \<open>store<i>\<close> or \<open>region<i>\<close>. \<open>put_indexed\<close> is that loop for any element writer; the locale
  says what the loop needs of the writer and of the reader.
\<close>

definition put_indexed ::
  "(FieldMap \<Rightarrow> 'a \<Rightarrow> string \<Rightarrow> FieldMap) \<Rightarrow> string \<Rightarrow> nat \<Rightarrow> 'a list \<Rightarrow> FieldMap \<Rightarrow> FieldMap" where
  "put_indexed put base n xs flds =
     fold (\<lambda>ix flds. put flds (snd ix) (base @ show_nat (fst ix))) (enumerate n xs) flds"

lemma put_indexed_simps [simp]:
  "put_indexed put base n [] flds = flds"
  "put_indexed put base n (x # xs) flds = put_indexed put base (Suc n) xs (put flds x (base @ show_nat n))"
  by (simp_all add: put_indexed_def)

lemma indexed_prefix_inj:
  assumes "prefix (base @ show_nat i @ ''.'') k" and "prefix (base @ show_nat j @ ''.'') k"
  shows "i = j"
proof -
  obtain s t where "k = base @ show_nat i @ CHR ''.'' # s" "k = base @ show_nat j @ CHR ''.'' # t"
    using assms unfolding prefix_def by (metis append.assoc append_Cons append_Nil)
  then have "show_nat i @ CHR ''.'' # s = show_nat j @ CHR ''.'' # t" by simp
  then show ?thesis by (metis show_nat_inj takeWhile_digits_dot)
qed

lemma indexed_prefix_plain: "\<not> is_digit c \<Longrightarrow> \<not> prefix (base @ show_nat i @ ''.'') (base @ c # s)"
  by (rule show_nat_Cons [of i]) auto

locale indexed_fields =
  fixes put :: "FieldMap \<Rightarrow> 'a \<Rightarrow> string \<Rightarrow> FieldMap"
    and get :: "FieldMap \<Rightarrow> string \<Rightarrow> 'b"
    and out :: "'a \<Rightarrow> 'b"
    and valid :: "'a \<Rightarrow> bool"
  assumes get_put: "valid x \<Longrightarrow> get (put f x p) p = out x"
    and put_frame: "p \<noteq> [] \<Longrightarrow> \<not> prefix (p @ ''.'') k \<Longrightarrow> fmlookup (put f x p) k = fmlookup f k"
    and get_cong: "p \<noteq> [] \<Longrightarrow> (\<And>k. prefix (p @ ''.'') k \<Longrightarrow> fmlookup f k = fmlookup g k) \<Longrightarrow> get f p = get g p"
begin

lemma put_indexed_frame:
  assumes "base \<noteq> []" and "\<And>i. n \<le> i \<Longrightarrow> \<not> prefix (base @ show_nat i @ ''.'') k"
  shows "fmlookup (put_indexed put base n xs f) k = fmlookup f k"
  using assms(2)
proof (induction xs arbitrary: n f)
  case (Cons x xs)
  have "fmlookup (put f x (base @ show_nat n)) k = fmlookup f k"
    using Cons.prems [of n] assms(1) by (intro put_frame) simp_all
  with Cons show ?case by simp
qed simp

lemma get_put_indexed:
  assumes "base \<noteq> []" and "i < length xs" and "\<forall>x \<in> set xs. valid x"
  shows "get (put_indexed put base n xs f) (base @ show_nat (n + i)) = out (xs ! i)"
  using assms(2,3)
proof (induction xs arbitrary: n f i)
  case (Cons x xs)
  show ?case
  proof (cases i)
    case 0
    have "get (put_indexed put base (Suc n) xs g) (base @ show_nat n) = get g (base @ show_nat n)" for g
    proof (rule get_cong)
      fix k
      assume "prefix ((base @ show_nat n) @ ''.'') k"
      then show "fmlookup (put_indexed put base (Suc n) xs g) k = fmlookup g k"
        by (intro put_indexed_frame [OF assms(1)]) (auto dest: indexed_prefix_inj)
    qed (simp add: assms(1))
    with 0 Cons.prems show ?thesis by (simp add: get_put)
  next
    case (Suc j)
    with Cons.prems Cons.IH [of j "Suc n"] show ?thesis by simp
  qed
qed simp

lemma map_get_put_indexed:
  "base \<noteq> [] \<Longrightarrow> \<forall>x \<in> set xs. valid x \<Longrightarrow>
     map (\<lambda>i. get (put_indexed put base 0 xs f) (base @ show_nat i)) [0 ..< length xs] = map out xs"
  using get_put_indexed [of base _ xs 0 f] by (auto intro: nth_equalityI)

end

lemma Key_neq: "p \<noteq> [] \<Longrightarrow> \<not> prefix (p @ ''.'') k \<Longrightarrow> Key p n \<noteq> k"
  by (auto simp: Key_def)

lemma put_store_frame:
  "p \<noteq> [] \<Longrightarrow> \<not> prefix (p @ ''.'') k \<Longrightarrow> fmlookup (PutStoreFields f s p) k = fmlookup f k"
  by (simp add: PutStoreFields_def Let_def Key_neq)

lemma put_region_frame:
  assumes "p \<noteq> []" and "\<not> prefix (p @ ''.'') k"
  shows "fmlookup (PutRegionFields f r p) k = fmlookup f k"
proof -
  have "\<forall>i n. 0 \<le> i \<longrightarrow> k \<noteq> Key p (peer_name i n)" using Key_neq [OF assms] by metis
  then show ?thesis
    using Key_neq [OF assms] by (simp add: PutRegionFields_def Let_def put_peers_frame)
qed

lemma get_fields_cong:
  assumes "p \<noteq> []" and "\<And>k. prefix (p @ ''.'') k \<Longrightarrow> fmlookup f k = fmlookup g k"
  shows "GetStoreFields f s p = GetStoreFields g s p" and "GetRegionFields f p = GetRegionFields g p"
proof -
  have eq: "fmlookup f (Key p n) = fmlookup g (Key p n)" for n
    using assms by (simp add: Key_def)
  then have get: "GetOr f (Key p n) d = GetOr g (Key p n) d" "GetUint64Or f (Key p n) u = GetUint64Or g (Key p n) u"
    "GetIntOr f (Key p n) v = GetIntOr g (Key p n) v" for n d u v
    by (simp_all add: GetOr_def GetUint64Or_def GetIntOr_def)
  have "get_peer f p i = get_peer g p i" for i
    by (simp add: get_peer_def peer_key get Let_def)
  then show "GetRegionFields f p = GetRegionFields g p" by (simp add: GetRegionFields_def get)
  show "GetStoreFields f s p = GetStoreFields g s p" by (simp add: GetStoreFields_def get)
qed

interpretation store_list: indexed_fields PutStoreFields "\<lambda>f p. GetStoreFields f s0 p"
    "\<lambda>s. (Status_Ok, s\<lparr>si_labels := si_labels s0\<rparr>)" "\<lambda>_. True" for s0
  by unfold_locales (simp add: get_put_store, rule put_store_frame, assumption+, rule get_fields_cong(1), assumption)

interpretation region_list: indexed_fields PutRegionFields GetRegionFields Inr
    "\<lambda>r. length (ri_peers r) < 2 ^ 64"
  by unfold_locales (rule get_put_region, assumption, rule put_region_frame, assumption+, rule get_fields_cong(2), assumption)

section \<open>Properties\<close>

text \<open>
  Region metadata survives the field map. Writing a region under any prefix into any field
  map and reading it back under that prefix gives the same region: bounds, epoch, leader and
  the peers in order with their roles; a store comes back too, except for its labels, which
  keep the value the receiving object had.
\<close>

theorem metadata_fields_roundtrip:
  assumes "length (ri_peers region) < 2 ^ 64"
  shows "GetRegionFields (PutRegionFields flds region p) p = Inr region \<and>
     GetStoreFields (PutStoreFields flds store p) s0 p = (Status_Ok, store\<lparr>si_labels := si_labels s0\<rparr>)"
  using get_put_region [OF assms] get_put_store by simp

theorem metadata_fields_roundtrip_witness:
  "GetRegionFields (PutRegionFields fmempty (RegionInfo_default\<lparr>ri_peers := [Peer_default]\<rparr>) ''r'') ''r'' =
     Inr (RegionInfo_default\<lparr>ri_peers := [Peer_default]\<rparr>)"
  using metadata_fields_roundtrip [of "RegionInfo_default\<lparr>ri_peers := [Peer_default]\<rparr>" fmempty "''r''"]
  by simp

end
