(* ===== verification/Pd_Server.thy ===== *)
theory Pd_Server
  imports Pd_Metadata Serialization
begin

text \<open>
  pd_server.cpp: the placement driver. \<open>pd_catalog\<close> is the content of \<open>pd.catalog\<close> on disk
  (\<open>None\<close> when the file does not exist) and \<open>pd_io\<close> the outcomes of the next file operations,
  as for the KV engine. \<open>None\<close> is an exception: \<open>std::filesystem::create_directories\<close> failing
  or \<open>std::stoull\<close> on a catalog field. Every method holds the mutex, so calls are atomic.
  The step relation \<open>pd_step\<close> has one rule per operation that changes the catalog, one for
  opening a data directory and one for the restart of the process on its file. The lemmas
  show that the catalog invariant holds in every reachable state, that epochs tell apart
  versions of a region, and that on a healthy disk a restart restores the catalog up to store
  labels.
\<close>

section \<open>State and persistence\<close>

record PdServer =
  pd_metadata :: PdMetadataStore
  pd_data_dir :: string
  pd_catalog :: "string option"
  pd_io :: "io_event list"

definition PdServer_new :: "string option \<Rightarrow> io_event list \<Rightarrow> PdServer" where
  "PdServer_new catalog io =
     \<lparr>pd_metadata = PdMetadataStore_new, pd_data_dir = [], pd_catalog = catalog, pd_io = io\<rparr>"

definition pd_next_io :: "PdServer \<Rightarrow> io_event \<times> PdServer" where
  "pd_next_io s = (case pd_io s of [] \<Rightarrow> (IoOk, s) | ev # evs \<Rightarrow> (ev, s\<lparr>pd_io := evs\<rparr>))"

definition catalog_fields :: "PdMetadataStore \<Rightarrow> FieldMap" where
  "catalog_fields m =
     (let flds = fmupd ''next_store_id'' (to_string (pm_next_store_id m)) fmempty;
          flds = fmupd ''next_region_id'' (to_string (pm_next_region_id m)) flds;
          flds = fmupd ''next_peer_id'' (to_string (pm_next_peer_id m)) flds;
          stores = md_ListStores m;
          flds = fmupd ''store_count'' (show_nat (length stores)) flds;
          flds = put_indexed PutStoreFields ''store'' 0 stores flds;
          regions = md_ListRegions m;
          flds = fmupd ''region_count'' (show_nat (length regions)) flds
      in put_indexed PutRegionFields ''region'' 0 regions flds)"

text \<open>The stream is not tested after the catalog is written, so a failed write returns ok.\<close>

definition Persist :: "PdServer \<Rightarrow> (Status \<times> PdServer) option" where
  "Persist s =
     (if pd_data_dir s = [] then Some (Status_Ok, s)
      else
        let text = EncodeFields (catalog_fields (pd_metadata s));
            (ev1, s1) = pd_next_io s
        in case ev1 of
             IoOpenFail _ \<Rightarrow> None
           | _ \<Rightarrow>
               let (ev2, s2) = pd_next_io s1
               in case ev2 of
                    IoOpenFail _ \<Rightarrow> Some (IoError ''failed to write pd catalog'', s2)
                  | IoWriteFail n \<Rightarrow> Some (Status_Ok, s2\<lparr>pd_catalog := Some (take n text)\<rparr>)
                  | IoFlushFail n \<Rightarrow> Some (Status_Ok, s2\<lparr>pd_catalog := Some (take n text)\<rparr>)
                  | IoOk \<Rightarrow> Some (Status_Ok, s2\<lparr>pd_catalog := Some text\<rparr>))"

fun load_stores :: "FieldMap \<Rightarrow> nat list \<Rightarrow> PdMetadataStore \<Rightarrow> Status \<times> PdMetadataStore" where
  "load_stores flds [] m = (Status_Ok, m)"
| "load_stores flds (i # is) m =
     (let (status, store) = GetStoreFields flds StoreInfo_default (''store'' @ show_nat i)
      in if \<not> ok status then (status, m)
         else let (status, m1) = PutStore store m
              in if \<not> ok status then (status, m1) else load_stores flds is m1)"

fun load_regions :: "FieldMap \<Rightarrow> nat list \<Rightarrow> PdMetadataStore \<Rightarrow> Status \<times> PdMetadataStore" where
  "load_regions flds [] m = (Status_Ok, m)"
| "load_regions flds (i # is) m =
     (case GetRegionFields flds (''region'' @ show_nat i) of
        Inl status \<Rightarrow> (status, m)
      | Inr region \<Rightarrow>
          let (status, m1) = PutRegion region m
          in if \<not> ok status then (status, m1) else load_regions flds is m1)"

definition load_catalog :: "FieldMap \<Rightarrow> (Status \<times> PdMetadataStore) option" where
  "load_catalog flds =
     (case stoull (GetOr flds ''store_count'' []) of
        None \<Rightarrow> None
      | Some store_count \<Rightarrow>
          let (status, m1) = load_stores flds [0 ..< unat store_count] PdMetadataStore_new
          in if \<not> ok status then Some (status, m1)
             else case stoull (GetOr flds ''region_count'' []) of
               None \<Rightarrow> None
             | Some region_count \<Rightarrow>
                 let (status, m2) = load_regions flds [0 ..< unat region_count] m1
                 in if \<not> ok status then Some (status, m2)
                    else case (stoull (GetOr flds ''next_store_id'' []),
                               stoull (GetOr flds ''next_region_id'' []),
                               stoull (GetOr flds ''next_peer_id'' [])) of
                           (Some a, Some b, Some c) \<Rightarrow> Some (Status_Ok, SetNextIds a b c m2)
                         | _ \<Rightarrow> None)"

definition Load :: "PdServer \<Rightarrow> (Status \<times> PdServer) option" where
  "Load s =
     (let (ev, s1) = pd_next_io s
      in case (ev, pd_catalog s1) of
           (IoOpenFail _, _) \<Rightarrow> Some (IoError ''failed to read pd catalog'', s1)
         | (_, None) \<Rightarrow> Some (IoError ''failed to read pd catalog'', s1)
         | (_, Some encoded) \<Rightarrow>
             (case DecodeFields encoded of
                Inl status \<Rightarrow> Some (status, s1)
              | Inr flds \<Rightarrow>
                  map_option (\<lambda>(status, m). (status, s1\<lparr>pd_metadata := m\<rparr>)) (load_catalog flds)))"

definition pd_Open :: "string \<Rightarrow> PdServer \<Rightarrow> (Status \<times> PdServer) option" where
  "pd_Open data_dir s =
     (let (ev, s1) = pd_next_io (s\<lparr>pd_data_dir := data_dir\<rparr>)
      in case ev of
           IoOpenFail _ \<Rightarrow> None
         | _ \<Rightarrow> if pd_catalog s1 \<noteq> None then Load s1 else Persist s1)"

section \<open>Operations\<close>

text \<open>The common end of the operations: put the region, then persist.\<close>

definition put_region_persist :: "RegionInfo \<Rightarrow> PdServer \<Rightarrow> (Status \<times> PdServer) option" where
  "put_region_persist region s =
     (let (status, m) = PutRegion region (pd_metadata s); s1 = s\<lparr>pd_metadata := m\<rparr>
      in if \<not> ok status then Some (status, s1) else Persist s1)"

definition RegisterStore :: "StoreInfo \<Rightarrow> PdServer \<Rightarrow> (Status \<times> StoreInfo \<times> PdServer) option" where
  "RegisterStore store s =
     (let m = pd_metadata s;
          (store, m1) =
            (if si_store_id store = 0 then
               (let (i, m1) = AllocStoreId m in (store\<lparr>si_store_id := i\<rparr>, m1))
             else if si_store_id store \<ge> pm_next_store_id m then
               (store, SetNextIds (si_store_id store + 1) (pm_next_region_id m) (pm_next_peer_id m) m)
             else (store, m));
          (status, m2) = PutStore store m1;
          s1 = s\<lparr>pd_metadata := m2\<rparr>
      in if \<not> ok status then Some (status, store, s1)
         else map_option (\<lambda>(status, s2). (status, store, s2)) (Persist s1))"

definition StoreHeartbeat :: "u64 \<Rightarrow> i64 \<Rightarrow> PdServer \<Rightarrow> (Status \<times> PdServer) option" where
  "StoreHeartbeat store_id now_ms s =
     (case md_GetStore (pd_metadata s) store_id of
        None \<Rightarrow> Some (mk_status kStoreNotFound ''store not found'', s)
      | Some store \<Rightarrow>
          let (status, m) = PutStore (store\<lparr>si_last_heartbeat_ms := now_ms, si_state := ''Up''\<rparr>) (pd_metadata s);
              s1 = s\<lparr>pd_metadata := m\<rparr>
          in if \<not> ok status then Some (status, s1) else Persist s1)"

fun bootstrap_peers ::
  "u64 list \<Rightarrow> PdMetadataStore \<Rightarrow> (Status + Peer list) \<times> PdMetadataStore" where
  "bootstrap_peers [] m = (Inr [], m)"
| "bootstrap_peers (store_id # rest) m =
     (if md_GetStore m store_id = None
      then (Inl (mk_status kStoreNotFound ''store not found for default region''), m)
      else
        let (p, m1) = AllocPeerId m;
            peer = \<lparr>pr_peer_id = p, pr_store_id = store_id, pr_role = kVoter\<rparr>
        in case bootstrap_peers rest m1 of
             (Inl status, m2) \<Rightarrow> (Inl status, m2)
           | (Inr peers, m2) \<Rightarrow> (Inr (peer # peers), m2))"

definition BootstrapDefaultRegion :: "u64 list \<Rightarrow> PdServer \<Rightarrow> (Status \<times> PdServer) option" where
  "BootstrapDefaultRegion store_ids s =
     (if md_ListRegions (pd_metadata s) \<noteq> [] then Some (Status_Ok, s)
      else if store_ids = [] then Some (InvalidArgument ''default region needs at least one store'', s)
      else
        let (i, m1) = AllocRegionId (pd_metadata s);
            region = RegionInfo_default\<lparr>ri_region_id := i, ri_start_key := [], ri_end_key := []\<rparr>
        in case bootstrap_peers store_ids m1 of
             (Inl status, m2) \<Rightarrow> Some (status, s\<lparr>pd_metadata := m2\<rparr>)
           | (Inr peers, m2) \<Rightarrow>
               put_region_persist
                 (region\<lparr>ri_peers := peers, ri_leader_peer_id := pr_peer_id (hd peers)\<rparr>)
                 (s\<lparr>pd_metadata := m2\<rparr>))"

fun split_peers :: "Peer list \<Rightarrow> PdMetadataStore \<Rightarrow> Peer list \<times> PdMetadataStore" where
  "split_peers [] m = ([], m)"
| "split_peers (peer # rest) m =
     (let (p, m1) = AllocPeerId m; (peers, m2) = split_peers rest m1
      in (\<lparr>pr_peer_id = p, pr_store_id = pr_store_id peer, pr_role = pr_role peer\<rparr> # peers, m2))"

definition pd_SplitRegion ::
  "u64 \<Rightarrow> string \<Rightarrow> PdServer \<Rightarrow> ((Status + RegionInfo \<times> RegionInfo) \<times> PdServer) option" where
  "pd_SplitRegion region_id split_key s =
     (case GetRegion (pd_metadata s) region_id of
        None \<Rightarrow> Some (Inl (mk_status kRegionNotFound ''region not found''), s)
      | Some region \<Rightarrow>
          if \<not> ContainsKey region split_key \<or> split_key = ri_start_key region \<or>
             (ri_end_key region \<noteq> [] \<and> split_key = ri_end_key region)
          then Some (Inl (InvalidArgument ''split key is outside region boundary''), s)
          else
            let left = region\<lparr>ri_end_key := split_key,
                         ri_epoch := (ri_epoch region)\<lparr>re_version := re_version (ri_epoch region) + 1\<rparr>\<rparr>;
                (i, m1) = AllocRegionId (pd_metadata s);
                (peers, m2) = split_peers (ri_peers region) m1;
                right = region\<lparr>ri_region_id := i, ri_start_key := split_key,
                         ri_epoch := (ri_epoch region)\<lparr>re_version := re_version (ri_epoch left)\<rparr>,
                         ri_peers := peers,
                         ri_leader_peer_id := (if peers = [] then 0 else pr_peer_id (hd peers))\<rparr>;
                (status, m3) = PutRegion left m2
            in if \<not> ok status then Some (Inl status, s\<lparr>pd_metadata := m3\<rparr>)
               else map_option
                      (\<lambda>(status, s1). (if ok status then Inr (left, right) else Inl status, s1))
                      (put_region_persist right (s\<lparr>pd_metadata := m3\<rparr>)))"

definition pd_AddPeer :: "u64 \<Rightarrow> u64 \<Rightarrow> PdServer \<Rightarrow> ((Status + Peer) \<times> PdServer) option" where
  "pd_AddPeer region_id store_id s =
     (case GetRegion (pd_metadata s) region_id of
        None \<Rightarrow> Some (Inl (mk_status kRegionNotFound ''region not found''), s)
      | Some region \<Rightarrow>
          if md_GetStore (pd_metadata s) store_id = None
          then Some (Inl (mk_status kStoreNotFound ''store not found''), s)
          else if FindPeerByStore region store_id \<noteq> None
          then Some (Inl (InvalidArgument ''store already has peer for region''), s)
          else
            let (p, m1) = AllocPeerId (pd_metadata s);
                peer = \<lparr>pr_peer_id = p, pr_store_id = store_id, pr_role = kVoter\<rparr>;
                region = region\<lparr>ri_peers := ri_peers region @ [peer],
                           ri_epoch := (ri_epoch region)\<lparr>re_conf_ver := re_conf_ver (ri_epoch region) + 1\<rparr>\<rparr>
            in map_option
                 (\<lambda>(status, s1). (if ok status then Inr peer else Inl status, s1))
                 (put_region_persist region (s\<lparr>pd_metadata := m1\<rparr>)))"

definition pd_RemovePeer :: "u64 \<Rightarrow> u64 \<Rightarrow> PdServer \<Rightarrow> (Status \<times> PdServer) option" where
  "pd_RemovePeer region_id peer_id s =
     (case GetRegion (pd_metadata s) region_id of
        None \<Rightarrow> Some (mk_status kRegionNotFound ''region not found'', s)
      | Some region \<Rightarrow>
          let peers = filter (\<lambda>peer. pr_peer_id peer \<noteq> peer_id) (ri_peers region)
          in if length peers = length (ri_peers region) then Some (InvalidArgument ''peer not found'', s)
             else if peers = [] then Some (InvalidArgument ''cannot remove last peer'', s)
             else
               let leader = (if ri_leader_peer_id region = peer_id then pr_peer_id (hd peers)
                             else ri_leader_peer_id region)
               in put_region_persist
                    (region\<lparr>ri_peers := peers, ri_leader_peer_id := leader,
                       ri_epoch := (ri_epoch region)\<lparr>re_conf_ver := re_conf_ver (ri_epoch region) + 1\<rparr>\<rparr>) s)"

definition pd_TransferLeader :: "u64 \<Rightarrow> u64 \<Rightarrow> PdServer \<Rightarrow> (Status \<times> PdServer) option" where
  "pd_TransferLeader region_id target_peer_id s =
     (case GetRegion (pd_metadata s) region_id of
        None \<Rightarrow> Some (mk_status kRegionNotFound ''region not found'', s)
      | Some region \<Rightarrow>
          if FindPeer region target_peer_id = None
          then Some (InvalidArgument ''target leader peer not found'', s)
          else put_region_persist (region\<lparr>ri_leader_peer_id := target_peer_id\<rparr>) s)"

definition pd_GetRegionByKey :: "PdServer \<Rightarrow> string \<Rightarrow> RegionInfo option" where
  "pd_GetRegionByKey s key = md_GetRegionByKey (pd_metadata s) key"

definition pd_GetStore :: "PdServer \<Rightarrow> u64 \<Rightarrow> StoreInfo option" where
  "pd_GetStore s store_id = md_GetStore (pd_metadata s) store_id"

definition GetRegionLeaderStore :: "PdServer \<Rightarrow> RegionInfo \<Rightarrow> StoreInfo option" where
  "GetRegionLeaderStore s region =
     (case FindPeer region (ri_leader_peer_id region) of
        None \<Rightarrow> None
      | Some leader \<Rightarrow> md_GetStore (pd_metadata s) (pr_store_id leader))"

definition pd_ListStores :: "PdServer \<Rightarrow> StoreInfo list" where
  "pd_ListStores s = md_ListStores (pd_metadata s)"

definition pd_ListRegions :: "PdServer \<Rightarrow> RegionInfo list" where
  "pd_ListRegions s = md_ListRegions (pd_metadata s)"

section \<open>Steps\<close>

text \<open>
  \<open>catalog_on_disk s\<close>: the file holds the catalog in memory. The one call that changes the catalog
  without writing it is a bootstrap refused for an unknown store, which has then used up region
  and peer ids; until there is a region the counters in the file may be behind.
\<close>

definition catalog_on_disk :: "PdServer \<Rightarrow> bool" where
  "catalog_on_disk s \<longleftrightarrow>
     (\<exists>a b. pd_catalog s = Some (EncodeFields (catalog_fields
          ((pd_metadata s)\<lparr>pm_next_region_id := a, pm_next_peer_id := b\<rparr>))) \<and>
        (if pm_regions (pd_metadata s) = fmempty
         then 0 < a \<and> a \<le> pm_next_region_id (pd_metadata s) \<and> 0 < b \<and> b \<le> pm_next_peer_id (pd_metadata s)
         else a = pm_next_region_id (pd_metadata s) \<and> b = pm_next_peer_id (pd_metadata s)))"

text \<open>
  One step is one call that may change the catalog, or a restart: a new process that opens the
  directory successfully. The guards exclude the wrap-around of the 64-bit counters and of the
  epoch of the region, and the loss of a write: a file that exists when the directory is opened
  holds the catalog. A write that fails is reported for a file that cannot be opened and is not
  noticed otherwise; what it lost is gone after a restart.
\<close>

definition id_room :: "nat \<Rightarrow> PdServer \<Rightarrow> bool" where
  "id_room k s \<longleftrightarrow>
     pm_next_store_id (pd_metadata s) \<noteq> - 1 \<and> pm_next_region_id (pd_metadata s) \<noteq> - 1 \<and>
     unat (pm_next_peer_id (pd_metadata s)) + k < 2 ^ 64"

definition epoch_room :: "u64 \<Rightarrow> PdServer \<Rightarrow> bool" where
  "epoch_room i s \<longleftrightarrow>
     (\<forall>r. GetRegion (pd_metadata s) i = Some r \<longrightarrow>
        re_version (ri_epoch r) \<noteq> - 1 \<and> re_conf_ver (ri_epoch r) \<noteq> - 1)"

definition peer_count :: "u64 \<Rightarrow> PdServer \<Rightarrow> nat" where
  "peer_count i s = (case GetRegion (pd_metadata s) i of None \<Rightarrow> 0 | Some r \<Rightarrow> length (ri_peers r))"

inductive pd_step :: "PdServer \<Rightarrow> PdServer \<Rightarrow> bool" where
  register: "id_room 0 s \<Longrightarrow> si_store_id store \<noteq> - 1 \<Longrightarrow>
     RegisterStore store s = Some (status, store', s') \<Longrightarrow> pd_step s s'"
| heartbeat: "StoreHeartbeat i now s = Some (status, s') \<Longrightarrow> pd_step s s'"
| bootstrap: "id_room (length ids) s \<Longrightarrow>
     BootstrapDefaultRegion ids s = Some (status, s') \<Longrightarrow> pd_step s s'"
| split: "id_room (peer_count i s) s \<Longrightarrow> epoch_room i s \<Longrightarrow>
     pd_SplitRegion i key s = Some (res, s') \<Longrightarrow> pd_step s s'"
| add_peer: "id_room 1 s \<Longrightarrow> epoch_room i s \<Longrightarrow> pd_AddPeer i st s = Some (added, s') \<Longrightarrow> pd_step s s'"
| remove_peer: "epoch_room i s \<Longrightarrow> pd_RemovePeer i p s = Some (status, s') \<Longrightarrow> pd_step s s'"
| transfer: "pd_TransferLeader i p s = Some (status, s') \<Longrightarrow> pd_step s s'"
| open_dir: "dir \<noteq> [] \<Longrightarrow> pd_data_dir s \<in> {[], dir} \<Longrightarrow> pd_catalog s = None \<or> catalog_on_disk s \<Longrightarrow>
     pd_Open dir s = Some (status, s') \<Longrightarrow> pd_step s s'"
| restart: "pd_data_dir s \<noteq> [] \<Longrightarrow> catalog_on_disk s \<Longrightarrow>
     pd_Open (pd_data_dir s) (PdServer_new (pd_catalog s) (pd_io s)) = Some (Status_Ok, s') \<Longrightarrow> pd_step s s'"

section \<open>Frames and fresh peers\<close>

lemma pd_next_io_frame [simp]:
  "pd_metadata (snd (pd_next_io s)) = pd_metadata s" "pd_data_dir (snd (pd_next_io s)) = pd_data_dir s"
  "pd_catalog (snd (pd_next_io s)) = pd_catalog s"
  by (simp_all add: pd_next_io_def split: list.split)

lemma pd_next_io_dest:
  "pd_next_io s = (ev, s') \<Longrightarrow> pd_metadata s' = pd_metadata s \<and> pd_data_dir s' = pd_data_dir s"
  by (metis pd_next_io_frame(1,2) snd_conv)

lemma Persist_frame:
  "Persist s = Some (st, s') \<Longrightarrow> pd_metadata s' = pd_metadata s \<and> pd_data_dir s' = pd_data_dir s"
  by (auto simp: Persist_def Let_def dest!: pd_next_io_dest split: if_splits prod.splits io_event.splits)

lemma put_region_persist_frame:
  "put_region_persist r s = Some (st, s') \<Longrightarrow> pd_metadata s' = snd (PutRegion r (pd_metadata s))"
  by (auto simp: put_region_persist_def Let_def dest: Persist_frame split: prod.splits if_splits)

fun renumber :: "u64 \<Rightarrow> Peer list \<Rightarrow> Peer list" where
  "renumber n [] = []"
| "renumber n (p # ps) = p\<lparr>pr_peer_id := n\<rparr> # renumber (n + 1) ps"

lemma split_peers_eq:
  "split_peers ps m =
     (renumber (pm_next_peer_id m) ps, m\<lparr>pm_next_peer_id := pm_next_peer_id m + of_nat (length ps)\<rparr>)"
proof (induction ps arbitrary: m)
  case (Cons p ps)
  then show ?case by (cases p) (simp add: AllocPeerId_def algebra_simps)
qed simp

lemma bootstrap_peers_ok:
  "bootstrap_peers ids m = (Inr ps, m') \<Longrightarrow>
     ps = renumber (pm_next_peer_id m) (map (\<lambda>i. \<lparr>pr_peer_id = 0, pr_store_id = i, pr_role = kVoter\<rparr>) ids) \<and>
     m' = m\<lparr>pm_next_peer_id := pm_next_peer_id m + of_nat (length ids)\<rparr> \<and>
     (\<forall>i \<in> set ids. md_GetStore m i \<noteq> None)"
proof (induction ids arbitrary: m ps)
  case (Cons i ids)
  then show ?case
    by (fastforce simp: AllocPeerId_def md_GetStore_def Let_def algebra_simps split: prod.splits sum.splits if_splits)
qed simp

lemma bootstrap_peers_err:
  "bootstrap_peers ids m = (Inl st, m') \<Longrightarrow>
     \<exists>k \<le> length ids. m' = m\<lparr>pm_next_peer_id := pm_next_peer_id m + of_nat k\<rparr>"
proof (induction ids arbitrary: m)
  case (Cons i ids)
  show ?case
  proof (cases "md_GetStore m i")
    case None
    with Cons.prems show ?thesis by (intro exI [of _ 0]) simp
  next
    case (Some x)
    with Cons.prems have "bootstrap_peers ids (m\<lparr>pm_next_peer_id := pm_next_peer_id m + 1\<rparr>) = (Inl st, m')"
      by (auto simp: AllocPeerId_def split: prod.splits sum.splits)
    from Cons.IH [OF this] obtain k where "k \<le> length ids"
      "m' = m\<lparr>pm_next_peer_id := pm_next_peer_id m + 1 + of_nat k\<rparr>" by auto
    then show ?thesis by (intro exI [of _ "Suc k"]) (simp add: algebra_simps)
  qed
qed simp

lemma renumber_frame [simp]: "map pr_store_id (renumber n ps) = map pr_store_id ps"
    "length (renumber n ps) = length ps" "renumber n ps = [] \<longleftrightarrow> ps = []"
  by (induction ps arbitrary: n, auto)+

lemma renumber_nth:
  "j < length ps \<Longrightarrow> renumber n ps ! j = (ps ! j)\<lparr>pr_peer_id := n + of_nat j\<rparr>"
proof (induction ps arbitrary: n j)
  case (Cons p ps)
  then show ?case by (cases j) (simp_all add: algebra_simps)
qed simp

lemma renumber_stores: "p \<in> set (renumber n ps) \<Longrightarrow> \<exists>p' \<in> set ps. pr_store_id p = pr_store_id p'"
  by (induction ps arbitrary: n) auto

lemma renumber_ids:
  "unat n + length ps < 2 ^ 64 \<Longrightarrow>
     distinct (map pr_peer_id (renumber n ps)) \<and>
     (\<forall>p \<in> pr_peer_id ` set (renumber n ps). unat n \<le> unat p \<and> unat p < unat n + length ps)"
proof (induction ps arbitrary: n)
  case (Cons p ps)
  have s: "unat (n + 1) = Suc (unat n)" using Cons.prems by (intro unat_Suc_bound) simp
  with Cons.prems Cons.IH [of "n + 1"] show ?case by fastforce
qed simp

lemma unat_add_bound: "unat (n :: u64) + k < 2 ^ 64 \<Longrightarrow> unat (n + of_nat k) = unat n + k"
  by (simp add: unat_word_ariths unat_of_nat take_bit_nat_eq_self)

lemma next_peer_mono: "unat (n :: u64) + k < 2 ^ 64 \<Longrightarrow> n \<le> n + of_nat k"
  by (simp add: word_le_nat_alt unat_add_bound)

lemma renumbered_region_wf:
  assumes "ri_peers q = renumber (pm_next_peer_id m0) ps" and "ps \<noteq> []"
    and "ri_leader_peer_id q = pr_peer_id (hd (ri_peers q))"
    and "0 < pm_next_peer_id m0" and room: "unat (pm_next_peer_id m0) + length ps < 2 ^ 64"
    and "pm_next_peer_id m = pm_next_peer_id m0 + of_nat (length ps)"
    and "\<forall>p \<in> set ps. fmlookup (pm_stores m) (pr_store_id p) \<noteq> None"
    and "ContainsKey q (ri_start_key q)"
  shows "region_wf m q" and "\<forall>p \<in> peer_ids q. pm_next_peer_id m0 \<le> p"
proof -
  note ids = renumber_ids [OF room]
  have "fmlookup (pm_stores m) (pr_store_id p) \<noteq> None" if "p \<in> set (ri_peers q)" for p
    using renumber_stores that assms(1,7) by metis
  moreover have "ri_leader_peer_id q \<in> peer_ids q"
    using assms(2) by (simp add: assms(1,3) peer_ids_def)
  moreover have "0 < p \<and> p < pm_next_peer_id m \<and> pm_next_peer_id m0 \<le> p" if "p \<in> peer_ids q" for p
    using that ids assms(4) unat_add_bound [OF room]
    by (auto simp: peer_ids_def assms(1,6) word_less_nat_alt word_le_nat_alt)
  ultimately show "region_wf m q" and "\<forall>p \<in> peer_ids q. pm_next_peer_id m0 \<le> p"
    using ids assms(8) by (auto simp: region_wf_def assms(1))
qed

section \<open>Every operation keeps the invariant\<close>

lemma catalog_wf_pos: "catalog_wf m \<Longrightarrow> 0 < pm_next_store_id m \<and> 0 < pm_next_region_id m \<and> 0 < pm_next_peer_id m"
  by (simp add: catalog_wf_def ids_wf_def)

lemma catalog_wf_store:
  "catalog_wf m \<Longrightarrow> fmlookup (pm_stores m) i = Some st \<Longrightarrow> si_store_id st = i \<and> 0 < i \<and> i < pm_next_store_id m"
  by (simp add: catalog_wf_def ids_wf_def)

lemma catalog_wf_next_peer:
  assumes "catalog_wf m" and "pm_next_peer_id m \<le> n" and "pm_next_region_id m \<le> k"
  shows "catalog_wf (m\<lparr>pm_next_region_id := k, pm_next_peer_id := n\<rparr>)"
proof -
  have "region_wf (m\<lparr>pm_next_region_id := k, pm_next_peer_id := n\<rparr>) r" if "region_wf m r" for r
    using that by (rule region_wf_mono) (simp_all add: assms(2))
  moreover have "ids_wf (m\<lparr>pm_next_region_id := k, pm_next_peer_id := n\<rparr>)"
    using assms unfolding catalog_wf_def ids_wf_def by simp (meson order.strict_trans2)
  ultimately show ?thesis using assms(1) by (simp add: catalog_wf_def index_wf_def)
qed

lemma RegisterStore_wf [wf_intros]:
  assumes "catalog_wf (pd_metadata s)" and "id_room 0 s" and "si_store_id store \<noteq> - 1"
    and "RegisterStore store s = Some (st, store', s')"
  shows "catalog_wf (pd_metadata s') \<and> pm_regions (pd_metadata s') = pm_regions (pd_metadata s)"
proof -
  let ?m = "pd_metadata s"
  have pos: "0 < pm_next_store_id ?m" using catalog_wf_pos [OF assms(1)] by simp
  define n where "n = (if si_store_id store = 0 then pm_next_store_id ?m + 1
      else if si_store_id store \<ge> pm_next_store_id ?m then si_store_id store + 1 else pm_next_store_id ?m)"
  define x where "x = (if si_store_id store = 0 then store\<lparr>si_store_id := pm_next_store_id ?m\<rparr> else store)"
  define m' where "m' = ?m\<lparr>pm_next_store_id := n, pm_stores := fmupd (si_store_id x) x (pm_stores ?m)\<rparr>"
  have x: "si_store_id x \<noteq> 0" using pos by (auto simp: x_def)
  have lt: "si_store_id x < n" "pm_next_store_id ?m \<le> n"
    using assms(2,3) word_less_succ [of "pm_next_store_id ?m"] word_less_succ [of "si_store_id store"]
    by (auto simp: n_def x_def id_room_def not_le)
  have "catalog_wf m'"
    by (rule put_store_wf [OF assms(1) x]) (simp_all add: m'_def lt)
  moreover have "pd_metadata s' = m'"
    using assms(4) x
    by (auto simp: RegisterStore_def Let_def m'_def n_def x_def AllocStoreId_def SetNextIds_def PutStore_def
        dest: Persist_frame split: if_splits)
  ultimately show ?thesis by (simp add: m'_def)
qed

lemma StoreHeartbeat_wf [wf_intros]:
  assumes "catalog_wf (pd_metadata s)" and "StoreHeartbeat i now s = Some (st, s')"
  shows "catalog_wf (pd_metadata s') \<and> pm_regions (pd_metadata s') = pm_regions (pd_metadata s)"
proof (cases "md_GetStore (pd_metadata s) i")
  case None
  with assms show ?thesis by (simp add: StoreHeartbeat_def)
next
  case (Some x)
  let ?m = "pd_metadata s" and ?x = "x\<lparr>si_last_heartbeat_ms := now, si_state := ''Up''\<rparr>"
  have x: "si_store_id ?x = i" "i \<noteq> 0" "i < pm_next_store_id ?m"
    using catalog_wf_store [OF assms(1), of i x] Some by (auto simp: md_GetStore_def)
  have "catalog_wf (?m\<lparr>pm_stores := fmupd (si_store_id ?x) ?x (pm_stores ?m)\<rparr>)"
    by (rule put_store_wf [OF assms(1), of ?x]) (use x in simp_all)
  with assms(2) Some x show ?thesis
    by (auto simp: StoreHeartbeat_def PutStore_def Let_def dest: Persist_frame)
qed

lemma BootstrapDefaultRegion_wf [wf_intros]:
  assumes wf: "catalog_wf (pd_metadata s)" and room: "id_room (length ids) s"
    and eq: "BootstrapDefaultRegion ids s = Some (st, s')"
  shows "catalog_wf (pd_metadata s')"
proof (cases "md_ListRegions (pd_metadata s) \<noteq> [] \<or> ids = []")
  case True
  with wf eq show ?thesis by (auto simp: BootstrapDefaultRegion_def split: if_splits)
next
  case False
  let ?m = "pd_metadata s"
  let ?j = "pm_next_region_id ?m"
  let ?m1 = "?m\<lparr>pm_next_region_id := ?j + 1\<rparr>"
  have j: "?j \<noteq> - 1" and n: "unat (pm_next_peer_id ?m) + length ids < 2 ^ 64"
    using room by (simp_all add: id_room_def)
  have empty: "pm_regions ?m = fmempty"
    using False fm_of_entries [of "pm_regions ?m"] by (auto simp: md_ListRegions_def fm_of_list_def)
  obtain res m2 where b: "bootstrap_peers ids ?m1 = (res, m2)" by (cases "bootstrap_peers ids ?m1")
  show ?thesis
  proof (cases res)
    case (Inl e)
    then obtain k where k: "k \<le> length ids" "m2 = ?m1\<lparr>pm_next_peer_id := pm_next_peer_id ?m + of_nat k\<rparr>"
      using bootstrap_peers_err b by fastforce
    have "catalog_wf m2"
      unfolding k(2) by (rule catalog_wf_next_peer [OF wf])
        (use k(1) n word_less_succ [OF j] in \<open>auto intro!: next_peer_mono\<close>)
    with eq b Inl False show ?thesis by (auto simp: BootstrapDefaultRegion_def AllocRegionId_def)
  next
    case (Inr ps)
    let ?ps = "map (\<lambda>i. \<lparr>pr_peer_id = 0, pr_store_id = i, pr_role = kVoter\<rparr>) ids"
    let ?n = "pm_next_peer_id ?m + of_nat (length ids)"
    let ?q = "RegionInfo_default\<lparr>ri_region_id := ?j, ri_start_key := [], ri_end_key := [], ri_peers := ps,
        ri_leader_peer_id := pr_peer_id (hd ps)\<rparr>"
    have ok: "ps = renumber (pm_next_peer_id ?m) ?ps" "m2 = ?m1\<lparr>pm_next_peer_id := ?n\<rparr>"
      "\<forall>i \<in> set ids. fmlookup (pm_stores ?m) i \<noteq> None"
      using bootstrap_peers_ok b Inr by (fastforce simp: md_GetStore_def)+
    have "region_wf m2 ?q"
      by (rule renumbered_region_wf(1) [of _ ?m ?ps])
         (use ok n False catalog_wf_pos [OF wf] in \<open>simp_all add: ContainsKey_def\<close>)
    then have "catalog_wf (snd (PutRegion ?q m2))"
      unfolding ok(2) by (intro first_region_wf [OF wf empty refl j next_peer_mono [OF n]]) simp_all
    moreover have "pd_metadata s' = snd (PutRegion ?q m2)"
      using eq b Inr False put_region_persist_frame [of ?q "s\<lparr>pd_metadata := m2\<rparr>" st s']
      by (simp add: BootstrapDefaultRegion_def AllocRegionId_def)
    ultimately show ?thesis by simp
  qed
qed

text \<open>
  \<open>newer r r'\<close>: \<open>r'\<close> is a later version of the region \<open>r\<close>. Its epoch is not behind, equal
  versions mean equal bounds, and equal configuration versions mean equal peers.
\<close>

definition newer :: "RegionInfo \<Rightarrow> RegionInfo \<Rightarrow> bool" where
  "newer r r' \<longleftrightarrow>
     re_version (ri_epoch r) \<le> re_version (ri_epoch r') \<and>
     re_conf_ver (ri_epoch r) \<le> re_conf_ver (ri_epoch r') \<and>
     (re_version (ri_epoch r) = re_version (ri_epoch r') \<longrightarrow>
        ri_start_key r = ri_start_key r' \<and> ri_end_key r = ri_end_key r') \<and>
     (re_conf_ver (ri_epoch r) = re_conf_ver (ri_epoch r') \<longrightarrow> ri_peers r = ri_peers r')"

definition regions_advance :: "PdMetadataStore \<Rightarrow> PdMetadataStore \<Rightarrow> bool" where
  "regions_advance m m' \<longleftrightarrow>
     (\<forall>i r. GetRegion m i = Some r \<longrightarrow> (\<exists>r'. GetRegion m' i = Some r' \<and> newer r r'))"

lemma newer_refl [simp]: "newer r r"
  by (simp add: newer_def)

lemma newer_trans:
  assumes "newer a b" and "newer b c"
  shows "newer a c"
proof -
  have between: "x = y \<and> y = z" if "x \<le> y" "y \<le> z" "x = z" for x y z :: u64
    using that by simp
  note ab = assms(1) [unfolded newer_def] and bc = assms(2) [unfolded newer_def]
  have le: "re_version (ri_epoch a) \<le> re_version (ri_epoch c)" "re_conf_ver (ri_epoch a) \<le> re_conf_ver (ri_epoch c)"
    using ab bc by (meson order.trans)+
  show ?thesis
    unfolding newer_def
  proof (intro conjI impI)
    assume "re_version (ri_epoch a) = re_version (ri_epoch c)"
    then have "re_version (ri_epoch a) = re_version (ri_epoch b) \<and> re_version (ri_epoch b) = re_version (ri_epoch c)"
      using ab bc by (intro between) simp_all
    then show "ri_start_key a = ri_start_key c" "ri_end_key a = ri_end_key c" using ab bc by simp_all
  next
    assume "re_conf_ver (ri_epoch a) = re_conf_ver (ri_epoch c)"
    then have "re_conf_ver (ri_epoch a) = re_conf_ver (ri_epoch b) \<and> re_conf_ver (ri_epoch b) = re_conf_ver (ri_epoch c)"
      using ab bc by (intro between) simp_all
    then show "ri_peers a = ri_peers c" using ab bc by simp
  qed (rule le)+
qed

lemma regions_advance_same: "pm_regions m' = pm_regions m \<Longrightarrow> regions_advance m m'"
  by (auto simp: regions_advance_def GetRegion_def)

lemma regions_advance_trans: "regions_advance a b \<Longrightarrow> regions_advance b c \<Longrightarrow> regions_advance a c"
  unfolding regions_advance_def by (metis newer_trans)

lemma regions_advance_put:
  assumes "GetRegion m i = Some r" and "ri_region_id r' = i" and "newer r r'" and "pm_regions m0 = pm_regions m"
  shows "regions_advance m (snd (PutRegion r' m0))"
  using assms by (auto simp: regions_advance_def GetRegion_def PutRegion_def)

text \<open>Putting back a region whose bounds and id are those of the stored one.\<close>

lemma put_region_step:
  assumes wf: "catalog_wf (pd_metadata s)" and r: "GetRegion (pd_metadata s) i = Some r"
    and m0: "m0 = (pd_metadata s)\<lparr>pm_next_peer_id := n\<rparr>"
    and r': "ri_region_id r' = ri_region_id r" "ri_start_key r' = ri_start_key r" "ri_end_key r' = ri_end_key r"
    and p: "pm_next_peer_id (pd_metadata s) \<le> n" "region_wf m0 r'"
      "peer_ids r' \<subseteq> peer_ids r \<union> {p. pm_next_peer_id (pd_metadata s) \<le> p}"
    and new: "newer r r'" and eq: "put_region_persist r' (s\<lparr>pd_metadata := m0\<rparr>) = Some (st, s')"
  shows "catalog_wf (pd_metadata s') \<and> regions_advance (pd_metadata s) (pd_metadata s')"
proof -
  have lk: "fmlookup (pm_regions (pd_metadata s)) i = Some r" using r by (simp add: GetRegion_def)
  have rid: "ri_region_id r' = i" using catalog_wfD(1) [OF wf lk] r'(1) by simp
  have "pd_metadata s' = snd (PutRegion r' m0)" using put_region_persist_frame [OF eq] by simp
  moreover have "catalog_wf (snd (PutRegion r' m0))"
    unfolding m0 by (rule replace_region_wf [OF wf lk rid r'(2,3) p(1)]) (use p m0 in simp_all)
  moreover have "regions_advance (pd_metadata s) (snd (PutRegion r' m0))"
    by (rule regions_advance_put [OF r rid new]) (simp add: m0)
  ultimately show ?thesis by simp
qed

lemma pd_TransferLeader_wf [wf_intros]:
  assumes wf: "catalog_wf (pd_metadata s)" and eq: "pd_TransferLeader i p s = Some (st, s')"
  shows "catalog_wf (pd_metadata s') \<and> regions_advance (pd_metadata s) (pd_metadata s')"
proof (cases "s' = s")
  case True
  with wf show ?thesis by (simp add: regions_advance_same)
next
  case False
  then obtain r where r: "GetRegion (pd_metadata s) i = Some r" and p: "FindPeer r p \<noteq> None"
    and put: "put_region_persist (r\<lparr>ri_leader_peer_id := p\<rparr>) s = Some (st, s')"
    using eq by (auto simp: pd_TransferLeader_def split: option.splits if_splits)
  have "region_wf (pd_metadata s) r" using catalog_wfD(4) [OF wf] r by (simp add: GetRegion_def)
  then have "region_wf (pd_metadata s) (r\<lparr>ri_leader_peer_id := p\<rparr>)"
    using p by (simp add: region_wf_def peer_ids_def FindPeer_None ContainsKey_def)
  then show ?thesis
    by (intro put_region_step [OF wf r, of "pd_metadata s" "pm_next_peer_id (pd_metadata s)" _ st])
       (use put in \<open>simp_all add: newer_def peer_ids_def\<close>)
qed

lemma conf_ver_newer:
  assumes "re_conf_ver (ri_epoch r) \<noteq> - 1" and "ri_start_key r' = ri_start_key r" and "ri_end_key r' = ri_end_key r"
    and "ri_epoch r' = (ri_epoch r)\<lparr>re_conf_ver := re_conf_ver (ri_epoch r) + 1\<rparr>"
  shows "newer r r'"
  using word_less_succ [OF assms(1)] assms(2-4) by (auto simp: newer_def)

lemma region_wf_add:
  assumes wf: "region_wf m r" and n: "pm_next_peer_id m < n"
    and x: "pr_peer_id x = pm_next_peer_id m" "0 < pm_next_peer_id m" "fmlookup (pm_stores m) (pr_store_id x) \<noteq> None"
    and r': "ri_peers r' = ri_peers r @ [x]" "ri_leader_peer_id r' = ri_leader_peer_id r"
      "ri_start_key r' = ri_start_key r" "ri_end_key r' = ri_end_key r"
  shows "region_wf (m\<lparr>pm_next_peer_id := n\<rparr>) r'"
proof -
  have ids: "peer_ids r' = insert (pm_next_peer_id m) (peer_ids r)"
    using x(1) r'(1) by (auto simp: peer_ids_def)
  have old: "\<forall>p \<in> peer_ids r. 0 < p \<and> p < pm_next_peer_id m" using wf by (simp add: region_wf_def)
  then have "\<forall>p \<in> peer_ids r'. 0 < p \<and> p < n"
    unfolding ids using x(2) n order.strict_trans [OF _ n] by blast
  moreover have "pm_next_peer_id m \<notin> peer_ids r" using old by blast
  then have "distinct (map pr_peer_id (ri_peers r'))"
    using wf x(1) r'(1) by (simp add: region_wf_def peer_ids_def)
  ultimately show ?thesis
    using wf x(3) ids r' by (simp add: region_wf_def ContainsKey_def ball_Un)
qed

lemma pd_AddPeer_wf [wf_intros]:
  assumes wf: "catalog_wf (pd_metadata s)" and room: "id_room 1 s" "epoch_room i s"
    and eq: "pd_AddPeer i st s = Some (res, s')"
  shows "catalog_wf (pd_metadata s') \<and> regions_advance (pd_metadata s) (pd_metadata s')"
proof (cases "s' = s")
  case True
  with wf show ?thesis by (simp add: regions_advance_same)
next
  case False
  let ?m = "pd_metadata s"
  let ?p = "pm_next_peer_id ?m"
  let ?peer = "\<lparr>pr_peer_id = ?p, pr_store_id = st, pr_role = kVoter\<rparr>"
  let ?add = "\<lambda>r. r\<lparr>ri_peers := ri_peers r @ [?peer],
      ri_epoch := (ri_epoch r)\<lparr>re_conf_ver := re_conf_ver (ri_epoch r) + 1\<rparr>\<rparr>"
  obtain r status where r: "GetRegion ?m i = Some r" and st: "md_GetStore ?m st \<noteq> None"
    and put: "put_region_persist (?add r) (s\<lparr>pd_metadata := ?m\<lparr>pm_next_peer_id := ?p + 1\<rparr>\<rparr>) = Some (status, s')"
    using eq False by (auto simp: pd_AddPeer_def AllocPeerId_def Let_def split: option.splits if_splits)
  have p: "?p < ?p + 1"
    using room(1) unat_Suc_bound [of ?p] by (simp add: id_room_def word_less_nat_alt)
  have "region_wf ?m r" using catalog_wfD(4) [OF wf] r by (simp add: GetRegion_def)
  then have "region_wf (?m\<lparr>pm_next_peer_id := ?p + 1\<rparr>) (?add r)"
    by (rule region_wf_add [OF _ p, where x = ?peer])
       (use st catalog_wf_pos [OF wf] in \<open>simp_all add: md_GetStore_def\<close>)
  moreover have "newer r (?add r)"
    by (rule conf_ver_newer) (use room(2) r in \<open>auto simp: epoch_room_def\<close>)
  ultimately show ?thesis
    using p by (intro put_region_step [OF wf r refl _ _ _ _ _ _ _ put]) (auto simp: peer_ids_def)
qed

lemma pd_RemovePeer_wf [wf_intros]:
  assumes wf: "catalog_wf (pd_metadata s)" and room: "epoch_room i s"
    and eq: "pd_RemovePeer i p s = Some (st, s')"
  shows "catalog_wf (pd_metadata s') \<and> regions_advance (pd_metadata s) (pd_metadata s')"
proof (cases "s' = s")
  case True
  with wf show ?thesis by (simp add: regions_advance_same)
next
  case False
  let ?m = "pd_metadata s"
  let ?ps = "\<lambda>r. filter (\<lambda>peer. pr_peer_id peer \<noteq> p) (ri_peers r)"
  let ?rem = "\<lambda>r. r\<lparr>ri_peers := ?ps r,
      ri_leader_peer_id := (if ri_leader_peer_id r = p then pr_peer_id (hd (?ps r)) else ri_leader_peer_id r),
      ri_epoch := (ri_epoch r)\<lparr>re_conf_ver := re_conf_ver (ri_epoch r) + 1\<rparr>\<rparr>"
  obtain r where r: "GetRegion ?m i = Some r" and ne: "?ps r \<noteq> []"
    and put: "put_region_persist (?rem r) s = Some (st, s')"
    using eq False by (auto simp: pd_RemovePeer_def Let_def split: option.splits if_splits)
  have wfr: "region_wf ?m r" using catalog_wfD(4) [OF wf] r by (simp add: GetRegion_def)
  have hd: "hd (?ps r) \<in> set (?ps r)" using ne by (rule hd_in_set)
  have "region_wf ?m (?rem r)"
    using wfr hd by (auto simp: region_wf_def peer_ids_def ContainsKey_def distinct_map_filter)
  moreover have "newer r (?rem r)"
    by (rule conf_ver_newer) (use room r in \<open>auto simp: epoch_room_def\<close>)
  ultimately show ?thesis
    by (intro put_region_step [OF wf r, of ?m "pm_next_peer_id ?m" "?rem r" st])
       (use put in \<open>auto simp: peer_ids_def\<close>)
qed

lemma pd_SplitRegion_wf [wf_intros]:
  assumes wf: "catalog_wf (pd_metadata s)" and room: "id_room (peer_count i s) s" "epoch_room i s"
    and eq: "pd_SplitRegion i k s = Some (res, s')"
  shows "catalog_wf (pd_metadata s') \<and> regions_advance (pd_metadata s) (pd_metadata s')"
proof (cases "s' = s")
  case True
  with wf show ?thesis by (simp add: regions_advance_same)
next
  case False
  let ?m = "pd_metadata s"
  let ?j = "pm_next_region_id ?m"
  obtain r where r: "GetRegion ?m i = Some r" and k: "ContainsKey r k" "k \<noteq> ri_start_key r"
    using eq False by (auto simp: pd_SplitRegion_def split: option.splits if_splits)
  have lk: "fmlookup (pm_regions ?m) i = Some r" using r by (simp add: GetRegion_def)
  note D = catalog_wfD [OF wf lk]
  define n where "n = pm_next_peer_id ?m + of_nat (length (ri_peers r))"
  define l where "l = r\<lparr>ri_end_key := k, ri_epoch := (ri_epoch r)\<lparr>re_version := re_version (ri_epoch r) + 1\<rparr>\<rparr>"
  define ps where "ps = renumber (pm_next_peer_id ?m) (ri_peers r)"
  define q where "q = r\<lparr>ri_region_id := ?j, ri_start_key := k,
      ri_epoch := (ri_epoch r)\<lparr>re_version := re_version (ri_epoch l)\<rparr>, ri_peers := ps,
      ri_leader_peer_id := (if ps = [] then 0 else pr_peer_id (hd ps))\<rparr>"
  define m2 where "m2 = ?m\<lparr>pm_next_region_id := ?j + 1, pm_next_peer_id := n\<rparr>"
  have nz: "ri_region_id l \<noteq> 0" using D(1,2) by (auto simp: l_def)
  have bound: "unat (pm_next_peer_id ?m) + length (ri_peers r) < 2 ^ 64" and j: "?j \<noteq> - 1"
    using room(1) r by (simp_all add: id_room_def peer_count_def)
  have ne: "ri_peers r \<noteq> []" using D(4) by (auto simp: region_wf_def peer_ids_def)
  have ub: "ri_end_key r = [] \<or> k < ri_end_key r" using k(1) by (simp add: ContainsKey_def Let_def)
  then have "k \<noteq> ri_end_key r \<or> ri_end_key r = []" by auto
  then obtain st where put: "put_region_persist q (s\<lparr>pd_metadata := snd (PutRegion l m2)\<rparr>) = Some (st, s')"
    using eq r k nz unfolding pd_SplitRegion_def AllocRegionId_def Let_def
    by (auto simp: split_peers_eq l_def q_def ps_def m2_def n_def PutRegion_def split: if_splits)
  have q: "region_wf m2 q" "\<forall>p \<in> peer_ids q. pm_next_peer_id ?m \<le> p"
  proof -
    have c: "ContainsKey q (ri_start_key q)" using ub by (auto simp: ContainsKey_range range_contains_def q_def)
    have st: "\<forall>p \<in> set (ri_peers r). fmlookup (pm_stores m2) (pr_store_id p) \<noteq> None"
      using D(4) by (simp add: region_wf_def m2_def)
    note * = renumbered_region_wf [of q ?m "ri_peers r" m2, OF _ ne _ _ bound _ st c]
    have h: "ri_peers q = renumber (pm_next_peer_id ?m) (ri_peers r)" "0 < pm_next_peer_id ?m"
      "ri_leader_peer_id q = pr_peer_id (hd (ri_peers q))" "pm_next_peer_id m2 = pm_next_peer_id ?m + of_nat (length (ri_peers r))"
      using catalog_wf_pos [OF wf] ne by (simp_all add: q_def ps_def m2_def n_def)
    show "region_wf m2 q" using h by (intro *(1))
    show "\<forall>p \<in> peer_ids q. pm_next_peer_id ?m \<le> p" using h by (intro *(2))
  qed
  have "catalog_wf (snd (PutRegion q (snd (PutRegion l m2))))"
    unfolding m2_def
    by (rule split_regions_wf [OF wf lk k refl j]) (use q D(1) next_peer_mono [OF bound] in \<open>simp_all add: l_def q_def m2_def n_def\<close>)
  moreover have "pd_metadata s' = snd (PutRegion q (snd (PutRegion l m2)))"
    using put_region_persist_frame [OF put] by simp
  moreover have "regions_advance ?m (snd (PutRegion q (snd (PutRegion l m2))))"
  proof -
    have "newer r l"
      using word_less_succ [of "re_version (ri_epoch r)"] room(2) r by (auto simp: newer_def l_def epoch_room_def)
    moreover have "i \<noteq> ?j" "?j \<noteq> 0" using D(3) catalog_wf_pos [OF wf] by auto
    moreover have "fmlookup (pm_regions ?m) a \<noteq> Some x" if "a = ?j" for a x
      using catalog_wfD(3) [OF wf, of a x] that by auto
    ultimately show ?thesis
      using nz D(1) lk by (auto simp: regions_advance_def GetRegion_def PutRegion_def q_def m2_def l_def)
  qed
  ultimately show ?thesis by simp
qed

section \<open>The catalog file\<close>

lemma map_of_map_snd: "map_of (map (\<lambda>kv. (fst kv, f (snd kv))) kvs) k = map_option f (map_of kvs k)"
  by (induction kvs) auto

lemma entries_fmmap: "entries (fmmap f m) = map (\<lambda>kv. (fst kv, f (snd kv))) (entries m)"
proof (rule entries_eqI)
  show "sorted_wrt (<) (map fst (map (\<lambda>kv. (fst kv, f (snd kv))) (entries m)))"
    using sorted_wrt_entries [of m] by (simp add: comp_def)
  show "map_of (map (\<lambda>kv. (fst kv, f (snd kv))) (entries m)) k = fmlookup (fmmap f m) k" for k
    by (simp add: map_of_map_snd)
qed

lemma distinct_u64_length:
  assumes "distinct (xs :: u64 list)" and "0 \<notin> set xs"
  shows "length xs < 2 ^ 64"
proof -
  have "distinct (map unat xs)" using assms(1) by (auto simp: distinct_map intro: inj_onI unsigned_word_eqI)
  moreover have "set (map unat xs) \<subseteq> {1 ..< 2 ^ 64}"
  proof
    fix y
    assume "y \<in> set (map unat xs)"
    then obtain x where "x \<in> set xs" and y: "y = unat x" by auto
    then have "x \<noteq> 0" using assms(2) by auto
    then show "y \<in> {1 ..< 2 ^ 64}"
      using unsigned_less [of x, where 'a = nat] by (simp add: y unat_gt_0 Suc_le_eq)
  qed
  ultimately have "length (map unat xs) \<le> card {1 ..< 2 ^ 64 :: nat}"
    using card_mono [of "{1 ..< 2 ^ 64 :: nat}"] distinct_card by (metis finite_atLeastLessThan)
  then show ?thesis by simp
qed

definition strip :: "StoreInfo \<Rightarrow> StoreInfo" where
  "strip st = st\<lparr>si_labels := fmempty\<rparr>"

lemma strip_id [simp]: "si_store_id (strip st) = si_store_id st"
  by (simp add: strip_def)

definition strip_labels :: "PdMetadataStore \<Rightarrow> PdMetadataStore" where
  "strip_labels m = m\<lparr>pm_stores := fmmap strip (pm_stores m)\<rparr>"

lemma load_stores_ok:
  assumes "\<And>i. i \<in> set is \<Longrightarrow> GetStoreFields flds StoreInfo_default (''store'' @ show_nat i) = (Status_Ok, g i) \<and>
      si_store_id (g i) \<noteq> 0"
  shows "load_stores flds is m =
    (Status_Ok, m\<lparr>pm_stores := fold (\<lambda>(k, v) d. fmupd k v d) (map (\<lambda>i. (si_store_id (g i), g i)) is) (pm_stores m)\<rparr>)"
  using assms by (induction "is" arbitrary: m) (simp_all add: PutStore_def)

lemma load_regions_ok:
  assumes "\<And>i. i \<in> set is \<Longrightarrow> GetRegionFields flds (''region'' @ show_nat i) = Inr (g i) \<and> ri_region_id (g i) \<noteq> 0"
  shows "load_regions flds is m =
    (Status_Ok, m\<lparr>pm_regions := fold (\<lambda>(k, v) d. fmupd k v d) (map (\<lambda>i. (ri_region_id (g i), g i)) is) (pm_regions m),
       pm_by_start := fold (\<lambda>(k, v) d. fmupd k v d) (map (\<lambda>i. (ri_start_key (g i), ri_region_id (g i))) is) (pm_by_start m)\<rparr>)"
  using assms by (induction "is" arbitrary: m) (simp_all add: PutRegion_def)

lemma map_upt_nth: "map (\<lambda>i. f (xs ! i)) [0 ..< length xs] = map f xs"
  by (rule nth_equalityI) simp_all

lemma ListStores_entries:
  assumes "catalog_wf m"
  shows "map (\<lambda>st. (si_store_id st, h st)) (md_ListStores m) = map (\<lambda>kv. (fst kv, h (snd kv))) (entries (pm_stores m))"
  using catalog_wf_store [OF assms] by (auto simp: md_ListStores_def set_entries)

lemma ListRegions_entries:
  assumes "catalog_wf m"
  shows "map (\<lambda>r. (ri_region_id r, r)) (md_ListRegions m) = entries (pm_regions m)"
  using catalog_wfD(1) [OF assms] by (auto simp: md_ListRegions_def set_entries comp_def intro!: map_idI)

lemma set_ListRegions: "r \<in> set (md_ListRegions m) \<longleftrightarrow> (\<exists>i. fmlookup (pm_regions m) i = Some r)"
  by (simp add: md_ListRegions_def image_iff Bex_def set_entries split_paired_Ex)

lemma by_start_rebuilt:
  assumes "catalog_wf m"
  shows "fm_of_list (map (\<lambda>r. (ri_start_key r, ri_region_id r)) (md_ListRegions m)) = pm_by_start m"
proof (rule fmap_ext)
  fix k
  let ?kvs = "map (\<lambda>r. (ri_start_key r, ri_region_id r)) (md_ListRegions m)"
  have "map ri_region_id (md_ListRegions m) = map fst (entries (pm_regions m))"
    unfolding ListRegions_entries [OF assms, symmetric] by (simp add: comp_def)
  then have "distinct (map ri_region_id (md_ListRegions m))" by simp
  then have "distinct (md_ListRegions m)" by (simp add: distinct_map)
  moreover have "inj_on ri_start_key (set (md_ListRegions m))"
  proof (rule inj_onI)
    fix r q
    assume "r \<in> set (md_ListRegions m)" "q \<in> set (md_ListRegions m)" and eq: "ri_start_key r = ri_start_key q"
    then obtain i j where i: "fmlookup (pm_regions m) i = Some r" "fmlookup (pm_regions m) j = Some q"
      by (auto simp: set_ListRegions)
    then have "i = j" using catalog_wfD(6) [OF assms i(1)] catalog_wfD(6) [OF assms i(2)] eq by simp
    with i show "r = q" by simp
  qed
  ultimately have d: "distinct (map fst ?kvs)" by (simp add: distinct_map comp_def)
  have "map_of ?kvs k = Some i \<longleftrightarrow> fmlookup (pm_by_start m) k = Some i" for i
  proof -
    have "map_of ?kvs k = Some i \<longleftrightarrow> (\<exists>r \<in> set (md_ListRegions m). ri_start_key r = k \<and> ri_region_id r = i)"
      using map_of_eq_Some_iff [OF d] by auto
    also have "\<dots> \<longleftrightarrow> (\<exists>r. fmlookup (pm_regions m) i = Some r \<and> ri_start_key r = k)"
      using catalog_wfD(1) [OF assms] by (metis set_ListRegions)
    finally show ?thesis using assms by (simp add: catalog_wf_def index_wf_def)
  qed
  then have "map_of ?kvs k = fmlookup (pm_by_start m) k" by (rule option_eqI)
  with d show "fmlookup (fm_of_list ?kvs) k = fmlookup (pm_by_start m) k"
    by (simp add: fm_of_list_def fmlookup_fold_fmupd map_of_rev_distinct split: option.splits)
qed

lemma catalog_scalar:
  assumes "\<And>i. \<not> prefix (''store'' @ show_nat i @ ''.'') k" and "\<And>i. \<not> prefix (''region'' @ show_nat i @ ''.'') k"
  shows "fmlookup (catalog_fields m) k =
    (if k = ''region_count'' then Some (show_nat (length (md_ListRegions m)))
     else if k = ''store_count'' then Some (show_nat (length (md_ListStores m)))
     else if k = ''next_peer_id'' then Some (to_string (pm_next_peer_id m))
     else if k = ''next_region_id'' then Some (to_string (pm_next_region_id m))
     else if k = ''next_store_id'' then Some (to_string (pm_next_store_id m)) else None)"
proof -
  note frame = store_list.put_indexed_frame [of "''store''", OF _ assms(1)]
    region_list.put_indexed_frame [of "''region''", OF _ assms(2)]
  show ?thesis unfolding catalog_fields_def Let_def by (simp add: frame)
qed

lemma catalog_counts:
  "fmlookup (catalog_fields m) ''store_count'' = Some (show_nat (length (md_ListStores m)))"
  "fmlookup (catalog_fields m) ''region_count'' = Some (show_nat (length (md_ListRegions m)))"
  "fmlookup (catalog_fields m) ''next_store_id'' = Some (to_string (pm_next_store_id m))"
  "fmlookup (catalog_fields m) ''next_region_id'' = Some (to_string (pm_next_region_id m))"
  "fmlookup (catalog_fields m) ''next_peer_id'' = Some (to_string (pm_next_peer_id m))"
  using indexed_prefix_plain [of "CHR ''_''" "''store''" _ "''count''"]
    indexed_prefix_plain [of "CHR ''_''" "''region''" _ "''count''"]
  by (subst catalog_scalar; simp add: is_digit_def)+

lemma catalog_store:
  assumes "i < length (md_ListStores m)"
  shows "GetStoreFields (catalog_fields m) StoreInfo_default (''store'' @ show_nat i) =
    (Status_Ok, strip (md_ListStores m ! i))"
proof -
  define A where "A = fmupd ''store_count'' (show_nat (length (md_ListStores m)))
    (fmupd ''next_peer_id'' (to_string (pm_next_peer_id m))
    (fmupd ''next_region_id'' (to_string (pm_next_region_id m))
    (fmupd ''next_store_id'' (to_string (pm_next_store_id m)) fmempty)))"
  let ?B = "put_indexed PutStoreFields ''store'' 0 (md_ListStores m) A"
  have F: "catalog_fields m = put_indexed PutRegionFields ''region'' 0 (md_ListRegions m)
      (fmupd ''region_count'' (show_nat (length (md_ListRegions m))) ?B)"
    by (simp add: catalog_fields_def Let_def A_def)
  have "GetStoreFields (catalog_fields m) StoreInfo_default (''store'' @ show_nat i) =
      GetStoreFields ?B StoreInfo_default (''store'' @ show_nat i)"
  proof (rule get_fields_cong(1))
    fix k
    assume "prefix ((''store'' @ show_nat i) @ ''.'') k"
    then obtain t where k: "k = CHR ''s'' # t" by (auto simp: prefix_def)
    show "fmlookup (catalog_fields m) k = fmlookup ?B k"
      unfolding F k by (subst region_list.put_indexed_frame) simp_all
  qed simp
  also have "\<dots> = (Status_Ok, strip (md_ListStores m ! i))"
  proof -
    have "GetStoreFields ?B StoreInfo_default (''store'' @ show_nat (0 + i)) =
        (Status_Ok, (md_ListStores m ! i)\<lparr>si_labels := si_labels StoreInfo_default\<rparr>)"
      by (rule store_list.get_put_indexed) (use assms in simp_all)
    then show ?thesis by (simp add: strip_def StoreInfo_default_def)
  qed
  finally show ?thesis .
qed

lemma wf_peers_length: "region_wf m r \<Longrightarrow> length (ri_peers r) < 2 ^ 64"
  using distinct_u64_length [of "map pr_peer_id (ri_peers r)"] by (fastforce simp: region_wf_def peer_ids_def)

lemma catalog_region:
  assumes "catalog_wf m" and "i < length (md_ListRegions m)"
  shows "GetRegionFields (catalog_fields m) (''region'' @ show_nat i) = Inr (md_ListRegions m ! i)"
proof -
  have "\<forall>r \<in> set (md_ListRegions m). length (ri_peers r) < 2 ^ 64"
    using catalog_wfD(4) [OF assms(1)] wf_peers_length by (metis set_ListRegions)
  from region_list.get_put_indexed [of "''region''", OF _ assms(2) this, of 0] show ?thesis
    by (simp add: catalog_fields_def Let_def)
qed

lemma list_lengths:
  assumes "catalog_wf m"
  shows "length (md_ListStores m) < 2 ^ 64" and "length (md_ListRegions m) < 2 ^ 64"
proof -
  have "0 \<notin> set (map fst (entries (pm_stores m)))" "0 \<notin> set (map fst (entries (pm_regions m)))"
    using catalog_wf_store [OF assms, of 0] catalog_wfD(2) [OF assms, of 0] by (auto simp: set_entries)
  then show "length (md_ListStores m) < 2 ^ 64" "length (md_ListRegions m) < 2 ^ 64"
    using distinct_u64_length [OF distinct_entries [of "pm_stores m"]]
      distinct_u64_length [OF distinct_entries [of "pm_regions m"]]
    by (simp_all add: md_ListStores_def md_ListRegions_def)
qed

lemma load_catalog_fields:
  assumes wf: "catalog_wf m"
  shows "load_catalog (catalog_fields m) = Some (Status_Ok, strip_labels m)"
proof -
  let ?F = "catalog_fields m" and ?S = "md_ListStores m" and ?R = "md_ListRegions m"
  have len: "unat (of_nat (length ?S) :: u64) = length ?S" "unat (of_nat (length ?R) :: u64) = length ?R"
    using list_lengths [OF wf] by (simp_all add: unat_of_nat take_bit_nat_eq_self)
  have "st \<in> set ?S \<Longrightarrow> si_store_id st \<noteq> 0" for st
    using catalog_wf_store [OF wf] by (force simp: md_ListStores_def set_entries)
  then have S: "load_stores ?F [0 ..< length ?S] PdMetadataStore_new =
      (Status_Ok, PdMetadataStore_new\<lparr>pm_stores := fmmap strip (pm_stores m)\<rparr>)"
    by (subst load_stores_ok [where g = "\<lambda>i. strip (?S ! i)"])
       (simp_all add: catalog_store [simplified] map_upt_nth [of "\<lambda>s. (si_store_id s, strip s)"]
         ListStores_entries [OF wf] entries_fmmap [symmetric] PdMetadataStore_new_def
         fm_of_entries [unfolded fm_of_list_def])
  have "r \<in> set ?R \<Longrightarrow> ri_region_id r \<noteq> 0" for r
    using catalog_wfD(1,2) [OF wf] by (fastforce simp: set_ListRegions)
  then have R: "load_regions ?F [0 ..< length ?R] m1 =
      (Status_Ok, m1\<lparr>pm_regions := pm_regions m, pm_by_start := pm_by_start m\<rparr>)"
    if "pm_regions m1 = fmempty" "pm_by_start m1 = fmempty" for m1
    using that by_start_rebuilt [OF wf]
    by (subst load_regions_ok [where g = "\<lambda>i. ?R ! i"])
       (simp_all add: catalog_region [OF wf, simplified] map_upt_nth [of "\<lambda>r. (ri_region_id r, r)"]
         map_upt_nth [of "\<lambda>r. (ri_start_key r, ri_region_id r)"] ListRegions_entries [OF wf]
         fm_of_entries [unfolded fm_of_list_def] fm_of_list_def)
  have sel: "pm_regions PdMetadataStore_new = fmempty" "pm_by_start PdMetadataStore_new = fmempty"
    by (simp_all add: PdMetadataStore_new_def)
  have "SetNextIds (pm_next_store_id m) (pm_next_region_id m) (pm_next_peer_id m)
      (PdMetadataStore_new\<lparr>pm_stores := fmmap strip (pm_stores m), pm_regions := pm_regions m,
         pm_by_start := pm_by_start m\<rparr>) = strip_labels m"
    by (simp add: SetNextIds_def strip_labels_def PdMetadataStore_new_def)
  then show ?thesis
    using list_lengths [OF wf]
    by (simp add: load_catalog_def GetOr_def catalog_counts stoull_show_nat stoull_to_string len S R sel)
qed

lemma Persist_healthy:
  "pd_io s = [] \<Longrightarrow> pd_data_dir s \<noteq> [] \<Longrightarrow>
     Persist s = Some (Status_Ok, s\<lparr>pd_catalog := Some (EncodeFields (catalog_fields (pd_metadata s)))\<rparr>)"
  by (simp add: Persist_def pd_next_io_def)

lemma Persist_ok: "pd_io s = [] \<Longrightarrow> \<exists>s'. Persist s = Some (Status_Ok, s') \<and> pd_io s' = []"
  by (cases "pd_data_dir s = []") (simp_all add: Persist_healthy, simp add: Persist_def)

lemma put_region_persist_ok:
  assumes "pd_io s = []" and "ri_region_id r \<noteq> 0"
  shows "\<exists>s'. put_region_persist r s = Some (Status_Ok, s') \<and> pd_metadata s' = snd (PutRegion r (pd_metadata s)) \<and> pd_io s' = []"
proof -
  have ok: "fst (PutRegion r (pd_metadata s)) = Status_Ok" using assms(2) by (simp add: PutRegion_def)
  obtain s' where "Persist (s\<lparr>pd_metadata := snd (PutRegion r (pd_metadata s))\<rparr>) = Some (Status_Ok, s')" "pd_io s' = []"
    using Persist_ok [of "s\<lparr>pd_metadata := snd (PutRegion r (pd_metadata s))\<rparr>"] assms(1) by auto
  moreover from this(1) ok have "put_region_persist r s = Some (Status_Ok, s')"
    by (simp add: put_region_persist_def split_beta Let_def)
  ultimately show ?thesis using put_region_persist_frame by blast
qed

lemma Load_catalog:
  "pd_io s = [] \<Longrightarrow> pd_catalog s = Some (EncodeFields (catalog_fields m)) \<Longrightarrow> catalog_wf m \<Longrightarrow>
     Load s = Some (Status_Ok, s\<lparr>pd_metadata := strip_labels m\<rparr>)"
  by (simp add: Load_def pd_next_io_def decode_encode_fields load_catalog_fields)

lemma strip_labels_sel [simp]:
  "pm_regions (strip_labels m) = pm_regions m" "pm_by_start (strip_labels m) = pm_by_start m"
  "pm_next_store_id (strip_labels m) = pm_next_store_id m" "pm_next_region_id (strip_labels m) = pm_next_region_id m"
  "pm_next_peer_id (strip_labels m) = pm_next_peer_id m" "fmlookup (pm_stores (strip_labels m)) i = map_option strip (fmlookup (pm_stores m) i)"
  by (simp_all add: strip_labels_def)

lemma catalog_wf_strip: "catalog_wf m \<Longrightarrow> catalog_wf (strip_labels m)"
proof -
  have "region_wf (strip_labels m) r = region_wf m r" for r by (simp add: region_wf_def)
  moreover have "index_wf (strip_labels m) = index_wf m" by (simp add: index_wf_def)
  moreover have "ids_wf (strip_labels m)" if "ids_wf m" using that by (auto simp: ids_wf_def)
  ultimately show "catalog_wf m \<Longrightarrow> catalog_wf (strip_labels m)" by (simp add: catalog_wf_def)
qed

lemma put_store_strip: "PutStoreFields f (strip st) p = PutStoreFields f st p"
  by (simp add: PutStoreFields_def strip_def Let_def)

lemma put_stores_strip: "put_indexed PutStoreFields p i (map strip sts) f = put_indexed PutStoreFields p i sts f"
  by (induction sts arbitrary: i f) (simp_all add: put_store_strip)

lemma catalog_fields_strip: "catalog_fields (strip_labels m) = catalog_fields m"
proof -
  have "md_ListStores (strip_labels m) = map strip (md_ListStores m)"
    by (simp add: md_ListStores_def strip_labels_def entries_fmmap)
  then show ?thesis by (simp add: catalog_fields_def md_ListRegions_def put_stores_strip Let_def)
qed

lemma pd_next_io_cases:
  "pd_next_io s = (ev, s') \<Longrightarrow> pd_metadata s' = pd_metadata s \<and> pd_data_dir s' = pd_data_dir s \<and>
     pd_catalog s' = pd_catalog s \<and> (pd_io s = [] \<longrightarrow> pd_io s' = [] \<and> ev = IoOk)"
  by (auto simp: pd_next_io_def split: list.splits)

lemma pd_Open_new:
  assumes "pd_catalog s = None" and "pd_Open dir s = Some (st, s')"
  shows "pd_metadata s' = pd_metadata s \<and> pd_data_dir s' = dir"
proof -
  obtain ev s1 where io: "pd_next_io (s\<lparr>pd_data_dir := dir\<rparr>) = (ev, s1)" by fastforce
  with assms pd_next_io_cases [OF io] have "Persist s1 = Some (st, s')"
    by (auto simp: pd_Open_def split: io_event.splits)
  with Persist_frame [of s1 st s'] pd_next_io_cases [OF io] show ?thesis by simp
qed

text \<open>Opening a directory whose file holds the catalog \<open>m\<close>.\<close>

lemma pd_Open_existing:
  assumes "pd_catalog s = Some (EncodeFields (catalog_fields m))" and wf: "catalog_wf m"
    and "pd_Open dir s = Some (st, s')"
  shows "pd_data_dir s' = dir \<and> pd_catalog s' = pd_catalog s \<and> (pd_io s = [] \<longrightarrow> pd_io s' = [] \<and> ok st) \<and>
    (\<not> ok st \<and> pd_metadata s' = pd_metadata s \<or> pd_metadata s' = strip_labels m)"
proof -
  obtain ev s1 where io: "pd_next_io (s\<lparr>pd_data_dir := dir\<rparr>) = (ev, s1)" by fastforce
  obtain ev' s2 where io': "pd_next_io s1 = (ev', s2)" by fastforce
  note f = pd_next_io_cases [OF io] pd_next_io_cases [OF io']
  have "Load s1 = Some (st, s')" using assms(1,3) io f by (auto simp: pd_Open_def split: io_event.splits)
  then have "s' = s2 \<and> \<not> ok st \<and> ev' \<noteq> IoOk \<or> s' = s2\<lparr>pd_metadata := strip_labels m\<rparr> \<and> st = Status_Ok"
    using io' f assms(1)
    by (auto simp: Load_def decode_encode_fields load_catalog_fields [OF wf] split: io_event.splits)
  then show ?thesis using f by auto
qed

lemma pd_Open_healthy:
  assumes "catalog_wf m"
  shows "pd_Open dir (PdServer_new (Some (EncodeFields (catalog_fields m))) []) =
    Some (Status_Ok, \<lparr>pd_metadata = strip_labels m, pd_data_dir = dir,
      pd_catalog = Some (EncodeFields (catalog_fields m)), pd_io = []\<rparr>)"
  by (simp add: pd_Open_def pd_next_io_def PdServer_new_def Load_catalog assms)

lemma catalog_wf_lagging:
  assumes "catalog_wf m" and "pm_regions m = fmempty" and "0 < a" and "0 < b"
  shows "catalog_wf (m\<lparr>pm_next_region_id := a, pm_next_peer_id := b\<rparr>)"
  using assms by (auto simp: catalog_wf_def ids_wf_def index_wf_def)

lemma on_disk_catalog:
  assumes "catalog_on_disk s" and "catalog_wf (pd_metadata s)"
  obtains m where "pd_catalog s = Some (EncodeFields (catalog_fields m))" and "catalog_wf m"
    and "pm_stores m = pm_stores (pd_metadata s)" and "pm_regions m = pm_regions (pd_metadata s)"
    and "pm_by_start m = pm_by_start (pd_metadata s)" and "pm_next_store_id m = pm_next_store_id (pd_metadata s)"
    and "pm_next_region_id m \<le> pm_next_region_id (pd_metadata s)" and "pm_next_peer_id m \<le> pm_next_peer_id (pd_metadata s)"
    and "pm_regions (pd_metadata s) \<noteq> fmempty \<Longrightarrow> m = pd_metadata s"
proof (cases "pm_regions (pd_metadata s) = fmempty")
  case True
  with assms show thesis
    using that catalog_wf_lagging [OF assms(2) True] by (fastforce simp: catalog_on_disk_def)
next
  case False
  with assms(1) have "pd_catalog s = Some (EncodeFields (catalog_fields (pd_metadata s)))"
    by (auto simp: catalog_on_disk_def)
  with assms(2) that show thesis by blast
qed

section \<open>Reachable states\<close>

inductive_cases pd_stepE: "pd_step s s'"

lemma two_steps: "R x y \<Longrightarrow> R y z \<Longrightarrow> R\<^sup>*\<^sup>* x z"
  by (rule rtranclp.rtrancl_into_rtrancl [OF r_into_rtranclp])

lemma BootstrapDefaultRegion_advance:
  assumes "BootstrapDefaultRegion ids s = Some (st, s')"
  shows "regions_advance (pd_metadata s) (pd_metadata s')"
proof (cases "pm_regions (pd_metadata s) = fmempty")
  case True
  then show ?thesis by (simp add: regions_advance_def GetRegion_def)
next
  case False
  then have "md_ListRegions (pd_metadata s) \<noteq> []"
    using fm_of_entries [of "pm_regions (pd_metadata s)"] by (auto simp: md_ListRegions_def fm_of_list_def)
  with assms show ?thesis by (simp add: BootstrapDefaultRegion_def regions_advance_same)
qed

lemma pd_step_wf:
  assumes "pd_step s s'" and "catalog_wf (pd_metadata s)"
  shows "catalog_wf (pd_metadata s') \<and> regions_advance (pd_metadata s) (pd_metadata s')"
  using assms
proof (induction rule: pd_step.induct)
  case (bootstrap ids s st s')
  then show ?case using BootstrapDefaultRegion_wf BootstrapDefaultRegion_advance by metis
next
  case (split i s key res s')
  then show ?case by (intro pd_SplitRegion_wf)
next
  case (open_dir dir s st s')
  from open_dir.hyps(3) show ?case
  proof
    assume "pd_catalog s = None"
    with open_dir pd_Open_new [of s dir st s'] show ?thesis by (simp add: regions_advance_same)
  next
    assume 2: "catalog_on_disk s"
    obtain m where m: "pd_catalog s = Some (EncodeFields (catalog_fields m))" "catalog_wf m"
      "pm_regions m = pm_regions (pd_metadata s)"
      using on_disk_catalog [OF 2 open_dir.prems] by metis
    from pd_Open_existing [OF m(1,2) open_dir.hyps(4)] m(2,3) open_dir.prems show ?thesis
      by (auto simp: regions_advance_same catalog_wf_strip)
  qed
next
  case (restart s s')
  obtain m where m: "pd_catalog s = Some (EncodeFields (catalog_fields m))" "catalog_wf m"
    "pm_regions m = pm_regions (pd_metadata s)"
    using on_disk_catalog [OF restart.hyps(2) restart.prems] by metis
  have "pd_catalog (PdServer_new (pd_catalog s) (pd_io s)) = Some (EncodeFields (catalog_fields m))"
    using m(1) by (simp add: PdServer_new_def)
  from pd_Open_existing [OF this m(2) restart.hyps(3)] m(2,3) show ?case
    by (auto simp: regions_advance_same catalog_wf_strip)
qed (metis RegisterStore_wf StoreHeartbeat_wf regions_advance_same pd_AddPeer_wf pd_RemovePeer_wf pd_TransferLeader_wf)+

interpretation pd: step_system pd_step "\<lambda>s. catalog_wf (pd_metadata s)"
  by unfold_locales (metis pd_step_wf)

lemma pd_steps_advance:
  "pd_step\<^sup>*\<^sup>* s t \<Longrightarrow> catalog_wf (pd_metadata s) \<Longrightarrow> regions_advance (pd_metadata s) (pd_metadata t)"
proof (induction rule: rtranclp_induct)
  case base
  then show ?case by (simp add: regions_advance_same)
next
  case (step t u)
  then show ?case using pd.steps_invar pd_step_wf regions_advance_trans by metis
qed

section \<open>The halves of a split\<close>

definition split_left :: "RegionInfo \<Rightarrow> string \<Rightarrow> RegionInfo" where
  "split_left r k = r\<lparr>ri_end_key := k, ri_epoch := (ri_epoch r)\<lparr>re_version := re_version (ri_epoch r) + 1\<rparr>\<rparr>"

definition split_right :: "PdMetadataStore \<Rightarrow> RegionInfo \<Rightarrow> string \<Rightarrow> RegionInfo" where
  "split_right m r k =
     (let peers = renumber (pm_next_peer_id m) (ri_peers r)
      in r\<lparr>ri_region_id := pm_next_region_id m, ri_start_key := k, ri_epoch := ri_epoch (split_left r k),
           ri_peers := peers, ri_leader_peer_id := (if peers = [] then 0 else pr_peer_id (hd peers))\<rparr>)"

definition split_ids :: "PdMetadataStore \<Rightarrow> RegionInfo \<Rightarrow> PdMetadataStore" where
  "split_ids m r = m\<lparr>pm_next_region_id := pm_next_region_id m + 1,
     pm_next_peer_id := pm_next_peer_id m + of_nat (length (ri_peers r))\<rparr>"

lemma pd_SplitRegion_eq:
  assumes "GetRegion (pd_metadata s) i = Some r" and "ri_region_id r \<noteq> 0"
    and "ContainsKey r k" and "k \<noteq> ri_start_key r"
  shows "pd_SplitRegion i k s =
    map_option (\<lambda>(status, s1). (if ok status then Inr (split_left r k, split_right (pd_metadata s) r k) else Inl status, s1))
      (put_region_persist (split_right (pd_metadata s) r k)
         (s\<lparr>pd_metadata := snd (PutRegion (split_left r k) (split_ids (pd_metadata s) r))\<rparr>))"
proof -
  have cond: "(\<not> ContainsKey r k \<or> k = ri_start_key r \<or> ri_end_key r \<noteq> [] \<and> k = ri_end_key r) = False"
    using assms(3,4) by (auto simp: ContainsKey_def Let_def)
  show ?thesis
    unfolding pd_SplitRegion_def assms(1) option.case cond if_False
    using assms(2) by (simp add: AllocRegionId_def split_peers_eq split_left_def split_right_def
        split_ids_def PutRegion_def Let_def cong: if_cong)
qed

lemma pd_SplitRegion_succeeds:
  assumes "pd_io s = []" and "GetRegion (pd_metadata s) i = Some r" and "ri_region_id r \<noteq> 0"
    and "pm_next_region_id (pd_metadata s) \<noteq> 0" and "ContainsKey r k" and "k \<noteq> ri_start_key r"
  shows "\<exists>s'. pd_SplitRegion i k s = Some (Inr (split_left r k, split_right (pd_metadata s) r k), s') \<and> pd_io s' = []"
proof -
  have "ri_region_id (split_right (pd_metadata s) r k) \<noteq> 0"
    using assms(4) by (simp add: split_right_def Let_def)
  then obtain s' where "put_region_persist (split_right (pd_metadata s) r k)
      (s\<lparr>pd_metadata := snd (PutRegion (split_left r k) (split_ids (pd_metadata s) r))\<rparr>) = Some (Status_Ok, s')" "pd_io s' = []"
    using put_region_persist_ok [of "s\<lparr>pd_metadata := snd (PutRegion (split_left r k) (split_ids (pd_metadata s) r))\<rparr>"]
      assms(1) by fastforce
  then show ?thesis unfolding pd_SplitRegion_eq [OF assms(2,3,5,6)] by simp
qed

lemma pd_SplitRegion_ok:
  assumes "GetRegion (pd_metadata s) i = Some r" and "ri_region_id r \<noteq> 0"
    and "pd_SplitRegion i k s = Some (Inr (l, q), s')"
  obtains "ContainsKey r k" and "k \<noteq> ri_start_key r" and "l = split_left r k"
    and "q = split_right (pd_metadata s) r k"
    and "pd_metadata s' = snd (PutRegion q (snd (PutRegion l (split_ids (pd_metadata s) r))))"
proof -
  have k: "ContainsKey r k" "k \<noteq> ri_start_key r"
    using assms(1,3) by (auto simp: pd_SplitRegion_def split: if_splits)
  define out where "out = put_region_persist (split_right (pd_metadata s) r k)
    (s\<lparr>pd_metadata := snd (PutRegion (split_left r k) (split_ids (pd_metadata s) r))\<rparr>)"
  have "pd_SplitRegion i k s = map_option (\<lambda>(status, s1).
      (if ok status then Inr (split_left r k, split_right (pd_metadata s) r k) else Inl status, s1)) out"
    unfolding out_def by (rule pd_SplitRegion_eq [OF assms(1,2) k])
  with assms(3) obtain st where put: "out = Some (st, s')" and
    lq: "l = split_left r k" "q = split_right (pd_metadata s) r k"
    by (cases out) (auto split: if_splits)
  from put_region_persist_frame [OF put [unfolded out_def]] lq k that show thesis by simp
qed

section \<open>Every change is on disk\<close>

text \<open>The file of the catalog holds the catalog, in a server that has a data directory.\<close>

definition pd_saved :: "PdServer \<Rightarrow> bool" where
  "pd_saved s \<longleftrightarrow> (pd_data_dir s \<noteq> [] \<longrightarrow> pd_catalog s = Some (EncodeFields (catalog_fields (pd_metadata s))))"

lemma Persist_saved: "Persist s = Some (st, s') \<Longrightarrow> pd_io s = [] \<Longrightarrow> pd_saved s'"
  using Persist_frame [of s st s'] Persist_healthy [of s] by (auto simp: pd_saved_def)

lemma saved_on_disk: "pd_saved s \<Longrightarrow> pd_data_dir s \<noteq> [] \<Longrightarrow> catalog_wf (pd_metadata s) \<Longrightarrow> catalog_on_disk s"
  using catalog_wf_pos [of "pd_metadata s"] unfolding catalog_on_disk_def pd_saved_def
  by (intro exI [of _ "pm_next_region_id (pd_metadata s)"] exI [of _ "pm_next_peer_id (pd_metadata s)"]) auto

text \<open>The state of a server on a healthy disk, and the two ways an operation ends.\<close>

definition pd_durable :: "string \<Rightarrow> PdServer \<Rightarrow> bool" where
  "pd_durable dir s \<longleftrightarrow> pd_io s = [] \<and> pd_data_dir s = dir \<and> catalog_on_disk s"

definition saves :: "PdServer \<Rightarrow> PdServer \<Rightarrow> bool" where
  "saves s s' \<longleftrightarrow> s' = s \<or> (\<exists>m st. Persist (s\<lparr>pd_metadata := m\<rparr>) = Some (st, s'))"

lemma saves_refl [simp]: "saves s s"
  by (simp add: saves_def)

lemma saves_put:
  assumes "put_region_persist r (s\<lparr>pd_metadata := m\<rparr>) = Some (st, s')" and "ri_region_id r \<noteq> 0"
  shows "saves s s'"
  using assms by (auto simp: put_region_persist_def PutRegion_def saves_def)

lemma saves_put_same: "put_region_persist r s = Some (st, s') \<Longrightarrow> ri_region_id r \<noteq> 0 \<Longrightarrow> saves s s'"
  by (rule saves_put [where m = "pd_metadata s"]) simp_all

lemma saves_durable:
  assumes "saves s s'" and "pd_durable dir s" and "dir \<noteq> []" and "catalog_wf (pd_metadata s')"
  shows "pd_durable dir s'"
  using assms(1) unfolding saves_def
proof
  assume "\<exists>m st. Persist (s\<lparr>pd_metadata := m\<rparr>) = Some (st, s')"
  then obtain m st where p: "Persist (s\<lparr>pd_metadata := m\<rparr>) = Some (st, s')" by blast
  have "pd_io s' = []" using p Persist_ok [of "s\<lparr>pd_metadata := m\<rparr>"] assms(2) by (auto simp: pd_durable_def)
  moreover have "pd_data_dir s' = dir" using Persist_frame [OF p] assms(2) by (simp add: pd_durable_def)
  moreover have "pd_saved s'" using Persist_saved [OF p] assms(2) by (simp add: pd_durable_def)
  ultimately show ?thesis using saved_on_disk assms(3,4) by (auto simp: pd_durable_def)
qed (use assms(2) in simp)

lemma stored_region_id: "catalog_wf m \<Longrightarrow> GetRegion m i = Some r \<Longrightarrow> ri_region_id r \<noteq> 0"
  using catalog_wfD(1,2) [of m i r] by (auto simp: GetRegion_def)

lemma operations_save:
  assumes wf: "catalog_wf (pd_metadata s)"
  shows "RegisterStore store s = Some (st, store', s') \<Longrightarrow> saves s s'"
    and "StoreHeartbeat i now s = Some (st, s') \<Longrightarrow> saves s s'"
    and "pd_AddPeer i sid s = Some (added, s') \<Longrightarrow> saves s s'"
    and "pd_RemovePeer i p s = Some (st, s') \<Longrightarrow> saves s s'"
    and "pd_TransferLeader i p s = Some (st, s') \<Longrightarrow> saves s s'"
proof -
  note pos = catalog_wf_pos [OF wf]
  show "RegisterStore store s = Some (st, store', s') \<Longrightarrow> saves s s'"
    using pos by (auto simp: RegisterStore_def Let_def AllocStoreId_def PutStore_def saves_def split: if_splits)
  show "StoreHeartbeat i now s = Some (st, s') \<Longrightarrow> saves s s'"
    using catalog_wf_store [OF wf]
    by (auto simp: StoreHeartbeat_def Let_def PutStore_def md_GetStore_def saves_def split: option.splits if_splits)
  show "pd_AddPeer i sid s = Some (added, s') \<Longrightarrow> saves s s'"
    using stored_region_id [OF wf, of i]
    by (auto simp: pd_AddPeer_def Let_def AllocPeerId_def split: option.splits if_splits
        dest!: saves_put)
  show "pd_RemovePeer i p s = Some (st, s') \<Longrightarrow> saves s s'"
    using stored_region_id [OF wf, of i]
    by (auto simp: pd_RemovePeer_def Let_def split: option.splits if_splits dest!: saves_put_same)
  show "pd_TransferLeader i p s = Some (st, s') \<Longrightarrow> saves s s'"
    using stored_region_id [OF wf, of i]
    by (auto simp: pd_TransferLeader_def split: option.splits if_splits dest!: saves_put_same)
qed

lemma pd_SplitRegion_saves:
  assumes wf: "catalog_wf (pd_metadata s)" and eq: "pd_SplitRegion i k s = Some (res, s')"
  shows "saves s s'"
proof (cases "s' = s")
  case False
  obtain r where r: "GetRegion (pd_metadata s) i = Some r" and k: "ContainsKey r k" "k \<noteq> ri_start_key r"
    using eq False by (auto simp: pd_SplitRegion_def split: option.splits if_splits)
  have "ri_region_id (split_right (pd_metadata s) r k) \<noteq> 0"
    using catalog_wf_pos [OF wf] by (auto simp: split_right_def Let_def)
  with eq show ?thesis
    unfolding pd_SplitRegion_eq [OF r stored_region_id [OF wf r] k] by (auto dest!: saves_put)
qed (simp add: saves_def)

lemma BootstrapDefaultRegion_durable:
  assumes wf: "catalog_wf (pd_metadata s)" and room: "id_room (length ids) s"
    and eq: "BootstrapDefaultRegion ids s = Some (st, s')" and d: "pd_durable dir s" "dir \<noteq> []"
  shows "pd_durable dir s'"
proof (cases "md_ListRegions (pd_metadata s) \<noteq> [] \<or> ids = []")
  case True
  with eq d show ?thesis by (auto simp: BootstrapDefaultRegion_def split: if_splits)
next
  case False
  let ?m = "pd_metadata s"
  let ?m1 = "?m\<lparr>pm_next_region_id := pm_next_region_id ?m + 1\<rparr>"
  have empty: "pm_regions ?m = fmempty"
    using False fm_of_entries [of "pm_regions ?m"] by (auto simp: md_ListRegions_def fm_of_list_def)
  obtain res m2 where b: "bootstrap_peers ids ?m1 = (res, m2)" by (cases "bootstrap_peers ids ?m1")
  show ?thesis
  proof (cases res)
    case (Inl e)
    then obtain k where k: "k \<le> length ids" "m2 = ?m1\<lparr>pm_next_peer_id := pm_next_peer_id ?m + of_nat k\<rparr>"
      using bootstrap_peers_err b by fastforce
    have "pm_next_region_id ?m \<le> pm_next_region_id m2" "pm_next_peer_id ?m \<le> pm_next_peer_id m2"
      using room k next_peer_mono [of "pm_next_peer_id ?m" k] word_less_succ [of "pm_next_region_id ?m"]
      by (simp_all add: id_room_def)
    moreover have "s' = s\<lparr>pd_metadata := m2\<rparr>"
      using eq b Inl False by (auto simp: BootstrapDefaultRegion_def AllocRegionId_def)
    ultimately show ?thesis
      using d(1) empty k(2) by (fastforce simp: pd_durable_def catalog_on_disk_def)
  next
    case (Inr ps)
    with eq b False have "\<exists>q. put_region_persist q (s\<lparr>pd_metadata := m2\<rparr>) = Some (st, s') \<and>
        ri_region_id q = pm_next_region_id ?m"
      by (fastforce simp: BootstrapDefaultRegion_def AllocRegionId_def)
    then have "saves s s'" using saves_put catalog_wf_pos [OF wf] by (metis word_gt_0)
    then show ?thesis using d BootstrapDefaultRegion_wf [OF wf room eq] by (rule saves_durable)
  qed
qed

lemma on_disk_reopened:
  assumes "catalog_on_disk s" and "catalog_wf (pd_metadata s)" and "pd_catalog s0 = pd_catalog s" and "pd_io s0 = []"
    and "pd_Open dir s0 = Some (st, s')" and "dir \<noteq> []"
  shows "pd_durable dir s'"
proof -
  obtain m where m: "pd_catalog s = Some (EncodeFields (catalog_fields m))" "catalog_wf m"
    using on_disk_catalog [OF assms(1,2)] by metis
  have c: "pd_catalog s0 = Some (EncodeFields (catalog_fields m))" using m(1) assms(3) by simp
  from pd_Open_existing [OF c m(2) assms(5)] assms(4)
  have s': "pd_data_dir s' = dir" "pd_catalog s' = pd_catalog s0" "pd_io s' = []" "pd_metadata s' = strip_labels m"
    by auto
  then have "pd_saved s'" using c by (simp add: pd_saved_def catalog_fields_strip)
  then show ?thesis using saved_on_disk [of s'] s' assms(6) m(2) by (simp add: pd_durable_def catalog_wf_strip)
qed

lemma pd_step_durable:
  assumes "pd_step s s'" and "catalog_wf (pd_metadata s)" and "pd_durable dir s" and "dir \<noteq> []"
  shows "pd_durable dir s'"
proof -
  have wf: "catalog_wf (pd_metadata s')" using pd_step_wf [OF assms(1,2)] by simp
  show ?thesis
    using assms(1)
  proof cases
    case (bootstrap ids st)
    from BootstrapDefaultRegion_durable [OF assms(2) this assms(3,4)] show ?thesis .
  next
    case (split i key res)
    from saves_durable [OF pd_SplitRegion_saves [OF assms(2) this(3)] assms(3,4) wf] show ?thesis .
  next
    case (open_dir d st)
    then have disk: "catalog_on_disk s" "pd_io s = []" "d = dir" using assms(3,4) by (auto simp: pd_durable_def)
    from on_disk_reopened [OF disk(1) assms(2) refl disk(2) open_dir(4)] disk(3) assms(4) show ?thesis by simp
  next
    case restart
    have "pd_catalog (PdServer_new (pd_catalog s) (pd_io s)) = pd_catalog s"
      "pd_io (PdServer_new (pd_catalog s) (pd_io s)) = []" "pd_data_dir s = dir"
      using assms(3) by (simp_all add: PdServer_new_def pd_durable_def)
    with on_disk_reopened [OF restart(2) assms(2) _ _ restart(3)] assms(4) show ?thesis by simp
  next
    case (register store st store')
    then show ?thesis using operations_save(1) [OF assms(2)] saves_durable [OF _ assms(3,4) wf] by simp
  next
    case (heartbeat i now st)
    then show ?thesis using operations_save(2) [OF assms(2)] saves_durable [OF _ assms(3,4) wf] by simp
  next
    case (add_peer i sid added)
    then show ?thesis using operations_save(3) [OF assms(2)] saves_durable [OF _ assms(3,4) wf] by simp
  next
    case (remove_peer i p st)
    then show ?thesis using operations_save(4) [OF assms(2)] saves_durable [OF _ assms(3,4) wf] by simp
  next
    case (transfer i p st)
    then show ?thesis using operations_save(5) [OF assms(2)] saves_durable [OF _ assms(3,4) wf] by simp
  qed
qed

interpretation durable: step_system pd_step "\<lambda>s. catalog_wf (pd_metadata s) \<and> (dir \<noteq> [] \<longrightarrow> pd_durable dir s)" for dir
  by unfold_locales (metis pd_step_wf pd_step_durable)

section \<open>Carrying out operators\<close>

lemma region_of_wf:
  assumes "catalog_wf m" and "GetRegion m i = Some r"
  shows "ri_region_id r = i" and "i \<noteq> 0" and "region_wf m r"
  using assms catalog_wfD(1,2,4) [of m i r] by (auto simp: GetRegion_def)

lemma FindPeer_distinct:
  assumes "distinct (map pr_peer_id (ri_peers r))" and "p \<in> set (ri_peers r)"
  shows "FindPeer r (pr_peer_id p) = Some p"
proof -
  have "find_peer_in (\<lambda>x. pr_peer_id x = pr_peer_id p) ps = Some p"
    if "distinct (map pr_peer_id ps)" "p \<in> set ps" for ps
    using that by (induction ps) (auto simp: image_iff)
  with assms show ?thesis by (simp add: FindPeer_def)
qed

lemma pd_TransferLeader_ok:
  assumes "catalog_wf (pd_metadata s)" and "pd_io s = []" and r: "GetRegion (pd_metadata s) i = Some r"
    and p: "p \<in> set (ri_peers r)"
  obtains s' where "pd_TransferLeader i (pr_peer_id p) s = Some (Status_Ok, s')"
    and "GetRegion (pd_metadata s') i = Some (r\<lparr>ri_leader_peer_id := pr_peer_id p\<rparr>)"
    and "GetRegionLeaderStore s' (r\<lparr>ri_leader_peer_id := pr_peer_id p\<rparr>) = pd_GetStore s (pr_store_id p)"
proof -
  let ?r = "r\<lparr>ri_leader_peer_id := pr_peer_id p\<rparr>"
  note wf = region_of_wf [OF assms(1) r]
  have find: "FindPeer r (pr_peer_id p) = Some p" "FindPeer ?r (pr_peer_id p) = Some p"
    using wf(3) p FindPeer_distinct [of r p] by (simp_all add: region_wf_def FindPeer_def)
  obtain s' where put: "put_region_persist ?r s = Some (Status_Ok, s')"
    and m: "pd_metadata s' = snd (PutRegion ?r (pd_metadata s))"
    using put_region_persist_ok [OF assms(2), of ?r] wf(1,2) by auto
  show thesis
  proof
    show "pd_TransferLeader i (pr_peer_id p) s = Some (Status_Ok, s')"
      using put by (simp add: pd_TransferLeader_def r find)
    show "GetRegion (pd_metadata s') i = Some ?r"
      using wf by (simp add: m GetRegion_def PutRegion_def)
    show "GetRegionLeaderStore s' ?r = pd_GetStore s (pr_store_id p)"
      by (simp add: GetRegionLeaderStore_def find m PutRegion_def pd_GetStore_def md_GetStore_def)
  qed
qed

lemma pd_AddPeer_ok:
  assumes "catalog_wf (pd_metadata s)" and "pd_io s = []" and r: "GetRegion (pd_metadata s) i = Some r"
    and "md_GetStore (pd_metadata s) st \<noteq> None" and "FindPeerByStore r st = None"
  obtains p s' where "pd_AddPeer i st s = Some (Inr p, s')" and "pr_store_id p = st"
proof -
  let ?m = "pd_metadata s"
  let ?p = "\<lparr>pr_peer_id = pm_next_peer_id ?m, pr_store_id = st, pr_role = kVoter\<rparr>"
  let ?r = "r\<lparr>ri_peers := ri_peers r @ [?p],
      ri_epoch := (ri_epoch r)\<lparr>re_conf_ver := re_conf_ver (ri_epoch r) + 1\<rparr>\<rparr>"
  let ?s = "s\<lparr>pd_metadata := ?m\<lparr>pm_next_peer_id := pm_next_peer_id ?m + 1\<rparr>\<rparr>"
  obtain s' where "put_region_persist ?r ?s = Some (Status_Ok, s')"
    using put_region_persist_ok [of ?s ?r] assms(2) region_of_wf(1,2) [OF assms(1) r] by auto
  then have "pd_AddPeer i st s = Some (Inr ?p, s')"
    using assms(4,5) by (simp add: pd_AddPeer_def r AllocPeerId_def Let_def)
  then show thesis using that by simp
qed

lemma pd_RemovePeer_ok:
  assumes "catalog_wf (pd_metadata s)" and "pd_io s = []" and r: "GetRegion (pd_metadata s) i = Some r"
    and "FindPeer r pid \<noteq> None" and "1 < length (ri_peers r)"
  obtains s' r' where "pd_RemovePeer i pid s = Some (Status_Ok, s')"
    and "GetRegion (pd_metadata s') i = Some r'" and "peer_ids r' = peer_ids r - {pid}"
proof -
  note wf = region_of_wf [OF assms(1) r]
  let ?ps = "filter (\<lambda>peer. pr_peer_id peer \<noteq> pid) (ri_peers r)"
  let ?r = "r\<lparr>ri_peers := ?ps,
      ri_leader_peer_id := (if ri_leader_peer_id r = pid then pr_peer_id (hd ?ps) else ri_leader_peer_id r),
      ri_epoch := (ri_epoch r)\<lparr>re_conf_ver := re_conf_ver (ri_epoch r) + 1\<rparr>\<rparr>"
  have "pid \<in> peer_ids r" using assms(4) by (simp add: FindPeer_None peer_ids_def)
  then have some: "length ?ps \<noteq> length (ri_peers r)"
    by (auto simp: peer_ids_def dest: length_filter_less [of _ _ "\<lambda>peer. pr_peer_id peer \<noteq> pid"])
  have ne: "?ps \<noteq> []"
  proof
    assume "?ps = []"
    then have "set (map pr_peer_id (ri_peers r)) \<subseteq> {pid}" by (auto simp: filter_empty_conv)
    then have "card (set (map pr_peer_id (ri_peers r))) \<le> 1" using card_mono [of "{pid}"] by fastforce
    moreover have "card (set (map pr_peer_id (ri_peers r))) = length (ri_peers r)"
      using wf(3) distinct_card [of "map pr_peer_id (ri_peers r)"] by (simp add: region_wf_def)
    ultimately show False using assms(5) by simp
  qed
  obtain s' where put: "put_region_persist ?r s = Some (Status_Ok, s')"
    and m: "pd_metadata s' = snd (PutRegion ?r (pd_metadata s))"
    using put_region_persist_ok [OF assms(2), of ?r] wf(1,2) by auto
  show thesis
  proof
    show "pd_RemovePeer i pid s = Some (Status_Ok, s')"
      using put some ne unfolding pd_RemovePeer_def r option.case Let_def by simp
    show "GetRegion (pd_metadata s') i = Some ?r"
      using wf by (simp add: m GetRegion_def PutRegion_def)
    show "peer_ids ?r = peer_ids r - {pid}" by (auto simp: peer_ids_def)
  qed
qed

section \<open>A small deployment\<close>

text \<open>One registered store and the default region on it, as the operations produce it.\<close>

definition demo_region :: RegionInfo where
  "demo_region = RegionInfo_default\<lparr>ri_region_id := 1,
     ri_peers := [\<lparr>pr_peer_id = 1, pr_store_id = 1, pr_role = kVoter\<rparr>], ri_leader_peer_id := 1\<rparr>"

definition pd_demo :: PdServer where
  "pd_demo = (PdServer_new None [])\<lparr>pd_metadata :=
     \<lparr>pm_next_store_id = 2, pm_next_region_id = 2, pm_next_peer_id = 2,
      pm_stores = fmupd 1 (StoreInfo_default\<lparr>si_store_id := 1\<rparr>) fmempty,
      pm_regions = fmupd 1 demo_region fmempty, pm_by_start = fmupd [] 1 fmempty\<rparr>\<rparr>"

lemma pd_demo_reachable: "pd_step\<^sup>*\<^sup>* (PdServer_new None []) pd_demo"
proof -
  let ?s0 = "PdServer_new None []"
  let ?x = "StoreInfo_default\<lparr>si_store_id := 1\<rparr>"
  let ?s1 = "?s0\<lparr>pd_metadata := PdMetadataStore_new\<lparr>pm_next_store_id := 2, pm_stores := fmupd 1 ?x fmempty\<rparr>\<rparr>"
  have "RegisterStore StoreInfo_default ?s0 = Some (Status_Ok, ?x, ?s1)"
    by (simp add: RegisterStore_def StoreInfo_default_def PdServer_new_def PdMetadataStore_new_def
        AllocStoreId_def PutStore_def Persist_def)
  then have "pd_step ?s0 ?s1"
    by (rule pd_step.register [rotated 2])
       (simp_all add: id_room_def PdServer_new_def PdMetadataStore_new_def StoreInfo_default_def)
  moreover have "BootstrapDefaultRegion [1] ?s1 = Some (Status_Ok, pd_demo)"
    by (simp add: BootstrapDefaultRegion_def md_ListRegions_def PdServer_new_def PdMetadataStore_new_def
        AllocRegionId_def AllocPeerId_def md_GetStore_def put_region_persist_def PutRegion_def Persist_def
        pd_demo_def demo_region_def RegionInfo_default_def)
  then have "pd_step ?s1 pd_demo"
    by (rule pd_step.bootstrap [rotated]) (simp add: id_room_def PdServer_new_def PdMetadataStore_new_def)
  ultimately show ?thesis by (rule two_steps)
qed

lemma reachable_catalog_wf:
  assumes "pd_step\<^sup>*\<^sup>* (PdServer_new cat io) s"
  shows "catalog_wf (pd_metadata s)"
  by (rule pd.steps_invar [OF assms]) (simp add: PdServer_new_def catalog_wf_new)

lemma pd_demo_wf: "catalog_wf (pd_metadata pd_demo)"
  using pd_demo_reachable by (rule reachable_catalog_wf)

text \<open>The same deployment on an empty directory of a healthy disk.\<close>

definition pd_disk_demo :: PdServer where
  "pd_disk_demo = pd_demo\<lparr>pd_data_dir := ''d'',
     pd_catalog := Some (EncodeFields (catalog_fields (pd_metadata pd_demo)))\<rparr>"

definition pd_disk_new :: PdServer where
  "pd_disk_new = (PdServer_new None [])\<lparr>pd_data_dir := ''d'',
     pd_catalog := Some (EncodeFields (catalog_fields PdMetadataStore_new))\<rparr>"

lemma pd_disk_opened: "pd_Open ''d'' (PdServer_new None []) = Some (Status_Ok, pd_disk_new)"
  using Persist_healthy [of "(PdServer_new None [])\<lparr>pd_data_dir := ''d''\<rparr>"]
  by (simp add: pd_Open_def pd_next_io_def PdServer_new_def pd_disk_new_def)

lemma pd_disk_demo_steps: "pd_step\<^sup>*\<^sup>* pd_disk_new pd_disk_demo"
proof -
  let ?x = "StoreInfo_default\<lparr>si_store_id := 1\<rparr>"
  let ?m = "PdMetadataStore_new\<lparr>pm_next_store_id := 2, pm_stores := fmupd 1 ?x fmempty\<rparr>"
  let ?s1 = "pd_disk_new\<lparr>pd_metadata := ?m, pd_catalog := Some (EncodeFields (catalog_fields ?m))\<rparr>"
  have "RegisterStore StoreInfo_default pd_disk_new = Some (Status_Ok, ?x, ?s1)"
    by (simp add: RegisterStore_def StoreInfo_default_def PdServer_new_def PdMetadataStore_new_def
        AllocStoreId_def PutStore_def Persist_healthy pd_disk_new_def)
  then have "pd_step pd_disk_new ?s1"
    by (rule pd_step.register [rotated 2])
       (simp_all add: id_room_def PdServer_new_def PdMetadataStore_new_def StoreInfo_default_def pd_disk_new_def)
  moreover have "BootstrapDefaultRegion [1] ?s1 = Some (Status_Ok, pd_disk_demo)"
    by (simp add: BootstrapDefaultRegion_def md_ListRegions_def PdServer_new_def PdMetadataStore_new_def
        AllocRegionId_def AllocPeerId_def md_GetStore_def put_region_persist_def PutRegion_def Persist_healthy
        pd_disk_demo_def pd_demo_def demo_region_def RegionInfo_default_def pd_disk_new_def)
  then have "pd_step ?s1 pd_disk_demo"
    by (rule pd_step.bootstrap [rotated]) (simp add: id_room_def PdServer_new_def PdMetadataStore_new_def pd_disk_new_def)
  ultimately show ?thesis by (rule two_steps)
qed

lemma pd_disk_demo_reachable: "pd_step\<^sup>*\<^sup>* (PdServer_new None []) pd_disk_demo"
proof -
  have "pd_step (PdServer_new None []) pd_disk_new"
    by (rule pd_step.open_dir [OF _ _ _ pd_disk_opened]) (simp_all add: PdServer_new_def)
  then show ?thesis using pd_disk_demo_steps by (rule converse_rtranclp_into_rtranclp)
qed

lemma opened_durable:
  assumes "dir \<noteq> []" and "pd_Open dir (PdServer_new None []) = Some (st0, s0)"
  shows "catalog_wf (pd_metadata s0) \<and> pd_durable dir s0"
proof -
  let ?s = "(PdServer_new None [])\<lparr>pd_data_dir := dir\<rparr>"
  have p: "Persist ?s = Some (st0, s0)"
    using assms(2) by (simp add: pd_Open_def pd_next_io_def PdServer_new_def)
  then have s0: "s0 = ?s\<lparr>pd_catalog := Some (EncodeFields (catalog_fields (pd_metadata ?s)))\<rparr>"
    using Persist_healthy [of ?s] assms(1) by (simp add: PdServer_new_def)
  then have "pd_saved s0" "catalog_wf (pd_metadata s0)" "pd_io s0 = []" "pd_data_dir s0 = dir"
    by (simp_all add: pd_saved_def PdServer_new_def catalog_wf_new)
  then show ?thesis using saved_on_disk assms(1) by (simp add: pd_durable_def)
qed

lemma durable_reopens:
  assumes wf: "catalog_wf (pd_metadata s)" and d: "pd_durable dir s"
  shows "\<exists>t. pd_Open dir (PdServer_new (pd_catalog s) []) = Some (Status_Ok, t) \<and> catalog_wf (pd_metadata t) \<and>
     pm_regions (pd_metadata t) = pm_regions (pd_metadata s) \<and>
     pm_by_start (pd_metadata t) = pm_by_start (pd_metadata s) \<and>
     pm_stores (pd_metadata t) = fmmap strip (pm_stores (pd_metadata s)) \<and>
     pm_next_store_id (pd_metadata t) = pm_next_store_id (pd_metadata s) \<and>
     pm_next_region_id (pd_metadata t) \<le> pm_next_region_id (pd_metadata s) \<and>
     pm_next_peer_id (pd_metadata t) \<le> pm_next_peer_id (pd_metadata s) \<and>
     (pm_regions (pd_metadata s) \<noteq> fmempty \<longrightarrow> pd_metadata t = strip_labels (pd_metadata s))"
proof -
  have disk: "catalog_on_disk s" using d by (simp add: pd_durable_def)
  obtain m where m: "pd_catalog s = Some (EncodeFields (catalog_fields m))" "catalog_wf m"
    "pm_stores m = pm_stores (pd_metadata s)" "pm_regions m = pm_regions (pd_metadata s)"
    "pm_by_start m = pm_by_start (pd_metadata s)" "pm_next_store_id m = pm_next_store_id (pd_metadata s)"
    "pm_next_region_id m \<le> pm_next_region_id (pd_metadata s)" "pm_next_peer_id m \<le> pm_next_peer_id (pd_metadata s)"
    "pm_regions (pd_metadata s) \<noteq> fmempty \<Longrightarrow> m = pd_metadata s"
    using on_disk_catalog [OF disk wf] by metis
  have "pm_stores (strip_labels m) = fmmap strip (pm_stores (pd_metadata s))"
    using m(3) by (simp add: strip_labels_def)
  with m pd_Open_healthy [OF m(2), of dir] show ?thesis by (simp add: catalog_wf_strip)
qed

lemma pd_disk_demo_durable: "catalog_wf (pd_metadata pd_disk_demo) \<and> pd_durable ''d'' pd_disk_demo"
  using durable.steps_invar [OF pd_disk_demo_steps, of "''d''"] opened_durable [OF _ pd_disk_opened] by simp

lemma pd_disk_demo_split:
  obtains lq s' where "pd_SplitRegion 1 ''m'' pd_disk_demo = Some (Inr lq, s')" and "pd_step pd_disk_demo s'"
    and "GetRegion (pd_metadata s') 1 = Some (split_left demo_region ''m'')"
proof -
  have r: "GetRegion (pd_metadata pd_disk_demo) 1 = Some demo_region"
    by (simp add: pd_disk_demo_def pd_demo_def GetRegion_def)
  have c: "ContainsKey demo_region ''m''" "''m'' \<noteq> ri_start_key demo_region" "ri_region_id demo_region \<noteq> 0"
    by (simp_all add: ContainsKey_def demo_region_def RegionInfo_default_def)
  have "\<exists>s'. pd_SplitRegion 1 ''m'' pd_disk_demo =
      Some (Inr (split_left demo_region ''m'', split_right (pd_metadata pd_disk_demo) demo_region ''m''), s') \<and> pd_io s' = []"
    by (intro pd_SplitRegion_succeeds r c) (simp_all add: pd_disk_demo_def pd_demo_def PdServer_new_def)
  then obtain s' where s': "pd_SplitRegion 1 ''m'' pd_disk_demo =
      Some (Inr (split_left demo_region ''m'', split_right (pd_metadata pd_disk_demo) demo_region ''m''), s')" by blast
  have "pd_step pd_disk_demo s'"
    by (rule pd_step.split [OF _ _ s'])
       (auto simp: id_room_def epoch_room_def peer_count_def pd_disk_demo_def pd_demo_def GetRegion_def
          demo_region_def RegionInfo_default_def)
  moreover have "GetRegion (pd_metadata s') 1 = Some (split_left demo_region ''m'')"
    by (rule pd_SplitRegion_ok [OF r c(3) s'])
       (simp add: GetRegion_def PutRegion_def split_left_def split_right_def demo_region_def Let_def
          pd_disk_demo_def pd_demo_def)
  ultimately show thesis using that s' by blast
qed

lemma route_of_key:
  assumes wf: "catalog_wf (pd_metadata s)" and "pd_ListRegions s \<noteq> []"
  shows "\<exists>r. pd_GetRegionByKey s key = Some r \<and> ContainsKey r key \<and>
     (\<forall>q \<in> set (pd_ListRegions s). ContainsKey q key \<longrightarrow> q = r) \<and> GetRegionLeaderStore s r \<noteq> None \<and>
     region_wf (pd_metadata s) r"
proof -
  let ?m = "pd_metadata s"
  have "pm_regions ?m \<noteq> fmempty" using assms(2) by (auto simp: pd_ListRegions_def md_ListRegions_def)
  then obtain i r where r: "md_GetRegionByKey ?m key = Some r" "GetRegion ?m i = Some r" "ContainsKey r key"
    by (rule GetRegionByKey_total [OF wf])
  have "q = r" if q: "q \<in> set (pd_ListRegions s)" "ContainsKey q key" for q
  proof -
    obtain j where "GetRegion ?m j = Some q"
      using q(1) by (auto simp: pd_ListRegions_def set_ListRegions GetRegion_def)
    from GetRegionByKey_complete [OF wf this q(2)] r(1) show ?thesis by simp
  qed
  moreover have "region_wf ?m r" using catalog_wfD(4) [OF wf] r(2) by (simp add: GetRegion_def)
  then have "FindPeer r (ri_leader_peer_id r) \<noteq> None" by (simp add: FindPeer_None region_wf_def peer_ids_def)
  then obtain p where p: "FindPeer r (ri_leader_peer_id r) = Some p" by auto
  have "md_GetStore ?m (pr_store_id p) \<noteq> None"
    using \<open>region_wf ?m r\<close> FindPeer_Some [OF p] by (simp add: region_wf_def md_GetStore_def)
  ultimately show ?thesis using r(1,3) p \<open>region_wf ?m r\<close> by (auto simp: pd_GetRegionByKey_def GetRegionLeaderStore_def)
qed


section \<open>Properties\<close>

text \<open>
  C9. The placement driver routes every key. In every state that has a region and is reachable
  from a new server by operations, by opening a directory and by restarts on a file that holds
  the catalog (counters and epochs do not wrap around), looking up any key returns a region that contains it, no other region of the
  catalog contains it, and the store of its leader is known.
\<close>

theorem pd_routes_every_key:
  assumes "pd_step\<^sup>*\<^sup>* (PdServer_new cat io) s" and "pd_ListRegions s \<noteq> []"
  shows "\<exists>r. pd_GetRegionByKey s key = Some r \<and> ContainsKey r key \<and>
     (\<forall>q \<in> set (pd_ListRegions s). ContainsKey q key \<longrightarrow> q = r) \<and> GetRegionLeaderStore s r \<noteq> None"
  using route_of_key [OF reachable_catalog_wf [OF assms(1)] assms(2), of key] by blast

theorem pd_routes_every_key_witness:
  "\<exists>r. pd_GetRegionByKey pd_demo ''k'' = Some r \<and> ContainsKey r ''k''"
proof -
  have "pd_ListRegions pd_demo \<noteq> []"
  proof
    assume "pd_ListRegions pd_demo = []"
    then have "fmlookup (pm_regions (pd_metadata pd_demo)) 1 \<noteq> Some demo_region"
      using set_ListRegions [of demo_region "pd_metadata pd_demo"] by (auto simp: pd_ListRegions_def)
    then show False by (simp add: pd_demo_def)
  qed
  from pd_routes_every_key [OF pd_demo_reachable this, of "''k''"] show ?thesis by blast
qed

text \<open>
  C10. Epochs detect change. Along any sequence of operations and restarts a region never
  disappears and its epoch never becomes stale; when the epoch of a later version equals an
  earlier one, bounds and peers are unchanged. Every restart is on a file that holds the catalog:
  a catalog write that failed or was cut short, which the server acknowledges in the second case,
  loses regions and takes epochs back. Counters and epochs do not wrap around.
\<close>

theorem pd_epochs_detect_change:
  assumes "pd_step\<^sup>*\<^sup>* (PdServer_new cat io) s" and "pd_step\<^sup>*\<^sup>* s t"
    and "GetRegion (pd_metadata s) i = Some r"
  shows "\<exists>r'. GetRegion (pd_metadata t) i = Some r' \<and> \<not> EpochStale (ri_epoch r') (ri_epoch r) \<and>
     (EpochEqual (ri_epoch r) (ri_epoch r') \<longrightarrow>
        ri_start_key r' = ri_start_key r \<and> ri_end_key r' = ri_end_key r \<and> ri_peers r' = ri_peers r)"
proof -
  have "regions_advance (pd_metadata s) (pd_metadata t)"
    using pd_steps_advance [OF assms(2) reachable_catalog_wf [OF assms(1)]] .
  then obtain r' where "GetRegion (pd_metadata t) i = Some r'" "newer r r'"
    using assms(3) by (auto simp: regions_advance_def)
  then show ?thesis by (auto simp: newer_def not_EpochStale)
qed

text \<open>The region is split on disk and the server restarted: the epoch shows the change.\<close>

theorem pd_epochs_detect_change_witness:
  "\<exists>lq s' t r'. pd_SplitRegion 1 ''m'' pd_disk_demo = Some (Inr lq, s') \<and>
     pd_Open ''d'' (PdServer_new (pd_catalog s') []) = Some (Status_Ok, t) \<and>
     GetRegion (pd_metadata t) 1 = Some r' \<and> \<not> EpochStale (ri_epoch r') (ri_epoch demo_region) \<and>
     \<not> EpochEqual (ri_epoch demo_region) (ri_epoch r') \<and> ri_end_key demo_region = [] \<and> ri_end_key r' = ''m''"
proof -
  let ?l = "split_left demo_region ''m''"
  obtain lq s' where s': "pd_SplitRegion 1 ''m'' pd_disk_demo = Some (Inr lq, s')" "pd_step pd_disk_demo s'"
    "GetRegion (pd_metadata s') 1 = Some ?l"
    by (rule pd_disk_demo_split)
  have inv: "catalog_wf (pd_metadata s')" "pd_durable ''d'' s'"
    using durable.step_invar [OF s'(2), of "''d''"] pd_disk_demo_durable by simp_all
  obtain t where t: "pd_Open ''d'' (PdServer_new (pd_catalog s') []) = Some (Status_Ok, t)"
    "pm_regions (pd_metadata t) = pm_regions (pd_metadata s')"
    using durable_reopens [OF inv] by auto
  have "pd_step s' t"
    using inv(2) t(1) by (intro pd_step.restart) (simp_all add: pd_durable_def)
  with s'(2) have "pd_step\<^sup>*\<^sup>* pd_disk_demo t" by (rule two_steps)
  moreover have "GetRegion (pd_metadata pd_disk_demo) 1 = Some demo_region"
    by (simp add: pd_disk_demo_def pd_demo_def GetRegion_def)
  moreover have l: "GetRegion (pd_metadata t) 1 = Some ?l" using s'(3) t(2) by (simp add: GetRegion_def)
  ultimately have "\<not> EpochStale (ri_epoch ?l) (ri_epoch demo_region)"
    "\<not> EpochEqual (ri_epoch demo_region) (ri_epoch ?l)"
    using pd_epochs_detect_change [OF pd_disk_demo_reachable, of t 1 demo_region]
    by (auto simp: split_left_def demo_region_def RegionInfo_default_def)
  moreover have "ri_end_key demo_region = []" "ri_end_key ?l = ''m''"
    by (simp_all add: split_left_def demo_region_def RegionInfo_default_def)
  ultimately show ?thesis using s'(1) t(1) l by blast
qed

text \<open>
  C11. A restart restores the catalog. From a server opened on an empty directory of a healthy
  disk, after any operations and restarts, opening the directory in a new process succeeds and
  gives the regions, the start-key index and the store ids of the server, and its stores without
  their labels. Once there is a region the region and peer counters are restored too; before that
  they can be behind, because a bootstrap that is refused for an unknown store uses up ids
  without writing the catalog.
\<close>

theorem pd_restart_restores_catalog:
  assumes "dir \<noteq> []" and "pd_Open dir (PdServer_new None []) = Some (st0, s0)" and "pd_step\<^sup>*\<^sup>* s0 s"
  shows "\<exists>t. pd_Open dir (PdServer_new (pd_catalog s) []) = Some (Status_Ok, t) \<and> catalog_wf (pd_metadata t) \<and>
     pm_regions (pd_metadata t) = pm_regions (pd_metadata s) \<and>
     pm_by_start (pd_metadata t) = pm_by_start (pd_metadata s) \<and>
     pm_stores (pd_metadata t) = fmmap strip (pm_stores (pd_metadata s)) \<and>
     pm_next_store_id (pd_metadata t) = pm_next_store_id (pd_metadata s) \<and>
     pm_next_region_id (pd_metadata t) \<le> pm_next_region_id (pd_metadata s) \<and>
     pm_next_peer_id (pd_metadata t) \<le> pm_next_peer_id (pd_metadata s) \<and>
     (pd_ListRegions s \<noteq> [] \<longrightarrow> pd_metadata t = strip_labels (pd_metadata s))"
proof -
  have "catalog_wf (pd_metadata s0) \<and> pd_durable dir s0" by (rule opened_durable [OF assms(1,2)])
  then have "catalog_wf (pd_metadata s)" "pd_durable dir s"
    using durable.steps_invar [OF assms(3), of dir] assms(1) by simp_all
  from durable_reopens [OF this] show ?thesis
    by (auto simp: pd_ListRegions_def md_ListRegions_def)
qed

theorem pd_restart_restores_catalog_witness:
  "\<exists>t. pd_Open ''d'' (PdServer_new (pd_catalog pd_disk_demo) []) = Some (Status_Ok, t) \<and>
     GetRegion (pd_metadata t) 1 = Some demo_region \<and> md_GetStore (pd_metadata t) 1 \<noteq> None \<and>
     pd_metadata t = strip_labels (pd_metadata pd_disk_demo)"
proof -
  obtain t where "pd_Open ''d'' (PdServer_new (pd_catalog pd_disk_demo) []) = Some (Status_Ok, t)"
    and "pd_ListRegions pd_disk_demo \<noteq> [] \<longrightarrow> pd_metadata t = strip_labels (pd_metadata pd_disk_demo)"
    using pd_restart_restores_catalog [OF _ pd_disk_opened pd_disk_demo_steps] by auto
  moreover have "pd_ListRegions pd_disk_demo \<noteq> []"
    using set_ListRegions [of demo_region "pd_metadata pd_disk_demo"]
    by (auto simp: pd_ListRegions_def pd_disk_demo_def pd_demo_def)
  ultimately show ?thesis
    by (auto simp: GetRegion_def md_GetStore_def pd_disk_demo_def pd_demo_def)
qed

text \<open>
  C29. A split divides a region in two. When a split succeeds on a consistent catalog with peer
  ids left, every key of the region is in exactly one half. The left half is the old region with
  the split key as its end and the next version. The right half goes from the split key to the
  old end, has the next region id, the epoch of the left half, and for every peer of the old
  region, in order, a peer on the same store with the same role and the next free peer id, the
  first of which leads it; no region had these ids. Both halves are stored, the other regions
  and the stores stay as they were, and the counters move past the ids used.
\<close>

theorem pd_split_divides_range:
  assumes "catalog_wf (pd_metadata s)" and "GetRegion (pd_metadata s) i = Some r"
    and "pd_SplitRegion i k s = Some (Inr (l, q), s')"
    and "unat (pm_next_peer_id (pd_metadata s)) + length (ri_peers r) < 2 ^ 64"
  shows "(\<forall>key. ContainsKey r key \<longleftrightarrow> ContainsKey l key \<or> ContainsKey q key) \<and>
     (\<forall>key. \<not> (ContainsKey l key \<and> ContainsKey q key)) \<and>
     l = r\<lparr>ri_end_key := k, ri_epoch := (ri_epoch r)\<lparr>re_version := re_version (ri_epoch r) + 1\<rparr>\<rparr> \<and>
     ri_region_id q = pm_next_region_id (pd_metadata s) \<and> ri_start_key q = k \<and> ri_end_key q = ri_end_key r \<and>
     ri_epoch q = ri_epoch l \<and> length (ri_peers q) = length (ri_peers r) \<and>
     (\<forall>j < length (ri_peers r). ri_peers q ! j =
        (ri_peers r ! j)\<lparr>pr_peer_id := pm_next_peer_id (pd_metadata s) + of_nat j\<rparr>) \<and>
     ri_peers q \<noteq> [] \<and> ri_leader_peer_id q = pr_peer_id (ri_peers q ! 0) \<and> distinct (map pr_peer_id (ri_peers q)) \<and>
     (\<forall>j x. GetRegion (pd_metadata s) j = Some x \<longrightarrow> peer_ids q \<inter> peer_ids x = {}) \<and>
     GetRegion (pd_metadata s') i = Some l \<and> GetRegion (pd_metadata s') (ri_region_id q) = Some q \<and>
     (\<forall>j. j \<noteq> i \<and> j \<noteq> ri_region_id q \<longrightarrow> GetRegion (pd_metadata s') j = GetRegion (pd_metadata s) j) \<and>
     pm_stores (pd_metadata s') = pm_stores (pd_metadata s) \<and>
     pm_next_store_id (pd_metadata s') = pm_next_store_id (pd_metadata s) \<and>
     pm_next_region_id (pd_metadata s') = pm_next_region_id (pd_metadata s) + 1 \<and>
     pm_next_peer_id (pd_metadata s') = pm_next_peer_id (pd_metadata s) + of_nat (length (ri_peers r))"
proof -
  have lk: "fmlookup (pm_regions (pd_metadata s)) i = Some r" using assms(2) by (simp add: GetRegion_def)
  note D = catalog_wfD [OF assms(1) lk]
  have nz: "i \<noteq> pm_next_region_id (pd_metadata s)" "i \<noteq> 0" "pm_next_region_id (pd_metadata s) \<noteq> 0"
    using D(2,3) catalog_wf_pos [OF assms(1)] by auto
  then have "ri_region_id r \<noteq> 0" using D(1) by simp
  with assms(2,3) have k: "ContainsKey r k" "k \<noteq> ri_start_key r" and l: "l = split_left r k"
    and q: "q = split_right (pd_metadata s) r k"
    and s': "pd_metadata s' = snd (PutRegion q (snd (PutRegion l (split_ids (pd_metadata s) r))))"
    by (auto elim: pd_SplitRegion_ok)
  have b: "ri_start_key r \<le> k" "ri_end_key r = [] \<or> k < ri_end_key r" "k \<noteq> []"
    using k by (auto simp: ContainsKey_range range_contains_def)
  have ne: "ri_peers r \<noteq> []" using D(4) by (auto simp: region_wf_def peer_ids_def)
  have qp: "ri_peers q = renumber (pm_next_peer_id (pd_metadata s)) (ri_peers r)"
    by (simp add: q split_right_def Let_def)
  note fresh = renumber_ids [OF assms(4)]
  have "peer_ids q \<inter> peer_ids x = {}" if "GetRegion (pd_metadata s) j = Some x" for j x
  proof -
    have "\<forall>p \<in> peer_ids x. p < pm_next_peer_id (pd_metadata s)"
      using catalog_wfD(4) [OF assms(1)] that by (simp add: GetRegion_def region_wf_def)
    moreover have "\<forall>p \<in> peer_ids q. pm_next_peer_id (pd_metadata s) \<le> p"
      using fresh by (simp add: peer_ids_def qp word_le_nat_alt)
    ultimately show ?thesis by fastforce
  qed
  moreover have "\<forall>j < length (ri_peers r). ri_peers q ! j =
      (ri_peers r ! j)\<lparr>pr_peer_id := pm_next_peer_id (pd_metadata s) + of_nat j\<rparr>"
    by (simp add: qp renumber_nth)
  moreover have "ri_peers q \<noteq> [] \<and> ri_leader_peer_id q = pr_peer_id (ri_peers q ! 0) \<and> length (ri_peers q) = length (ri_peers r) \<and>
      distinct (map pr_peer_id (ri_peers q))"
    using ne fresh by (simp add: q split_right_def Let_def hd_conv_nth)
  moreover have "GetRegion (pd_metadata s') i = Some l \<and> GetRegion (pd_metadata s') (ri_region_id q) = Some q \<and>
      (\<forall>j. j \<noteq> i \<and> j \<noteq> ri_region_id q \<longrightarrow> GetRegion (pd_metadata s') j = GetRegion (pd_metadata s) j)"
    using D(1) nz by (simp add: s' GetRegion_def PutRegion_def l q split_left_def split_right_def split_ids_def Let_def)
  moreover have "pm_stores (pd_metadata s') = pm_stores (pd_metadata s) \<and>
     pm_next_store_id (pd_metadata s') = pm_next_store_id (pd_metadata s) \<and>
     pm_next_region_id (pd_metadata s') = pm_next_region_id (pd_metadata s) + 1 \<and>
     pm_next_peer_id (pd_metadata s') = pm_next_peer_id (pd_metadata s) + of_nat (length (ri_peers r))"
    by (simp add: s' PutRegion_def split_ids_def)
  moreover have "\<forall>key. ContainsKey r key \<longleftrightarrow> ContainsKey l key \<or> ContainsKey q key"
    "\<forall>key. \<not> (ContainsKey l key \<and> ContainsKey q key)"
    using range_split [OF b] by (simp_all add: ContainsKey_range l q split_left_def split_right_def Let_def)
  moreover have "l = r\<lparr>ri_end_key := k, ri_epoch := (ri_epoch r)\<lparr>re_version := re_version (ri_epoch r) + 1\<rparr>\<rparr>"
    by (simp add: l split_left_def)
  moreover have "ri_region_id q = pm_next_region_id (pd_metadata s) \<and> ri_start_key q = k \<and> ri_end_key q = ri_end_key r \<and>
     ri_epoch q = ri_epoch l"
    by (simp add: q l split_right_def Let_def)
  ultimately show ?thesis by blast
qed

theorem pd_split_divides_range_witness:
  "\<exists>l q s'. pd_SplitRegion 1 ''m'' pd_demo = Some (Inr (l, q), s') \<and> GetRegion (pd_metadata s') 2 = Some q \<and>
     ContainsKey l ''a'' \<and> ContainsKey q ''z'' \<and> length (ri_peers q) = 1 \<and> peer_ids q \<inter> peer_ids demo_region = {}"
proof -
  have r: "GetRegion (pd_metadata pd_demo) 1 = Some demo_region" by (simp add: pd_demo_def GetRegion_def)
  let ?l = "split_left demo_region ''m''" and ?q = "split_right (pd_metadata pd_demo) demo_region ''m''"
  have "ContainsKey demo_region ''m''" "''m'' \<noteq> ri_start_key demo_region" "ri_region_id demo_region \<noteq> 0"
    by (simp_all add: ContainsKey_def demo_region_def RegionInfo_default_def)
  then have "\<exists>s'. pd_SplitRegion 1 ''m'' pd_demo = Some (Inr (?l, ?q), s') \<and> pd_io s' = []"
    by (intro pd_SplitRegion_succeeds r) (simp_all add: pd_demo_def PdServer_new_def)
  then obtain s' where eq: "pd_SplitRegion 1 ''m'' pd_demo = Some (Inr (?l, ?q), s')" by blast
  have "ContainsKey ?l ''a''" "ContainsKey ?q ''z''" "ri_region_id ?q = 2"
    by (simp_all add: ContainsKey_def split_left_def split_right_def demo_region_def RegionInfo_default_def
        Let_def less_char_def less_eq_char_def pd_demo_def)
  moreover have "unat (pm_next_peer_id (pd_metadata pd_demo)) + length (ri_peers demo_region) < 2 ^ 64"
    by (simp add: pd_demo_def demo_region_def)
  ultimately show ?thesis using eq pd_split_divides_range [OF pd_demo_wf r eq] r by (auto simp: demo_region_def)
qed

text \<open>
  Registered stores get unused ids. Registering a store that asks for an id, in any reachable
  state with counters left, assigns an id that no store had, and stores it under that id.
\<close>

theorem registered_store_id_fresh:
  assumes "pd_step\<^sup>*\<^sup>* (PdServer_new cat io) s" and "id_room 0 s" and "si_store_id store = 0"
    and "RegisterStore store s = Some (status, store', s')"
  shows "pd_GetStore s (si_store_id store') = None \<and> pd_GetStore s' (si_store_id store') = Some store' \<and>
     store' = store\<lparr>si_store_id := pm_next_store_id (pd_metadata s)\<rparr>"
proof -
  let ?m = "pd_metadata s"
  have wf: "catalog_wf ?m" using assms(1) by (rule reachable_catalog_wf)
  then have pos: "pm_next_store_id ?m \<noteq> 0" using catalog_wf_pos by force
  have "fmlookup (pm_stores ?m) (pm_next_store_id ?m) = None"
    using catalog_wf_store [OF wf, of "pm_next_store_id ?m"] by (cases "fmlookup (pm_stores ?m) (pm_next_store_id ?m)") auto
  moreover have "store' = store\<lparr>si_store_id := pm_next_store_id ?m\<rparr> \<and>
      pm_stores (pd_metadata s') = fmupd (pm_next_store_id ?m) store' (pm_stores ?m)"
    using assms(3,4) pos by (auto simp: RegisterStore_def Let_def AllocStoreId_def PutStore_def dest!: Persist_frame)
  ultimately show ?thesis by (simp add: pd_GetStore_def md_GetStore_def)
qed

theorem registered_store_id_fresh_witness:
  "\<exists>status store' s'. RegisterStore StoreInfo_default pd_demo = Some (status, store', s') \<and>
     pd_GetStore pd_demo (si_store_id store') = None"
proof -
  have "\<exists>status store' s'. RegisterStore StoreInfo_default pd_demo = Some (status, store', s')"
    by (simp add: RegisterStore_def StoreInfo_default_def AllocStoreId_def PutStore_def Persist_def
        pd_demo_def PdServer_new_def)
  moreover have "id_room 0 pd_demo" by (simp add: id_room_def pd_demo_def)
  ultimately show ?thesis
    using registered_store_id_fresh [OF pd_demo_reachable, of StoreInfo_default]
    by (metis StoreInfo_default_def StoreInfo.select_convs(1))
qed

text \<open>
  The operators of the scheduler can be carried out. On a consistent catalog and a healthy
  disk, executing an operator that the scheduler made succeeds: the leader is then on the
  target store, the added peer is on the target store, the removed peer is gone.
\<close>

theorem scheduler_operators_apply:
  assumes "catalog_wf (pd_metadata s)" and "pd_io s = []"
  shows "(\<forall>op. MakeTransferLeaderOperator (pd_metadata s) i st = Some op \<longrightarrow>
      (\<exists>s' r'. pd_TransferLeader (op_region_id op) (op_target_peer_id op) s = Some (Status_Ok, s') \<and>
         GetRegion (pd_metadata s') i = Some r' \<and> GetRegionLeaderStore s' r' = pd_GetStore s st)) \<and>
    (\<forall>op. MakeAddPeerOperator (pd_metadata s) i st = Some op \<longrightarrow>
      (\<exists>p s'. pd_AddPeer (op_region_id op) (op_target_store_id op) s = Some (Inr p, s') \<and> pr_store_id p = st)) \<and>
    (\<forall>op. MakeRemovePeerOperator (pd_metadata s) i pid = Some op \<longrightarrow>
      (\<exists>s' r'. pd_RemovePeer (op_region_id op) (op_remove_peer_id op) s = Some (Status_Ok, s') \<and>
         GetRegion (pd_metadata s') i = Some r' \<and> pid \<notin> peer_ids r'))"
proof (intro conjI allI impI)
  fix op
  assume "MakeTransferLeaderOperator (pd_metadata s) i st = Some op"
  then obtain r p where r: "GetRegion (pd_metadata s) i = Some r" "FindPeerByStore r st = Some p"
    and op: "op_region_id op = i" "op_target_peer_id op = pr_peer_id p"
    by (auto simp: MakeTransferLeaderOperator_def split: option.splits if_splits)
  then show "\<exists>s' r'. pd_TransferLeader (op_region_id op) (op_target_peer_id op) s = Some (Status_Ok, s') \<and>
         GetRegion (pd_metadata s') i = Some r' \<and> GetRegionLeaderStore s' r' = pd_GetStore s st"
    using pd_TransferLeader_ok [OF assms r(1)] FindPeerByStore_Some [OF r(2)] by metis
next
  fix op
  assume "MakeAddPeerOperator (pd_metadata s) i st = Some op"
  then show "\<exists>p s'. pd_AddPeer (op_region_id op) (op_target_store_id op) s = Some (Inr p, s') \<and> pr_store_id p = st"
    using pd_AddPeer_ok [OF assms, of i _ st]
    by (auto simp: MakeAddPeerOperator_def split: option.splits if_splits) metis
next
  fix op
  assume "MakeRemovePeerOperator (pd_metadata s) i pid = Some op"
  then obtain r where r: "GetRegion (pd_metadata s) i = Some r" "FindPeer r pid \<noteq> None" "1 < length (ri_peers r)"
    and op: "op_region_id op = i" "op_remove_peer_id op = pid"
    by (auto simp: MakeRemovePeerOperator_def not_le split: option.splits if_splits)
  show "\<exists>s' r'. pd_RemovePeer (op_region_id op) (op_remove_peer_id op) s = Some (Status_Ok, s') \<and>
         GetRegion (pd_metadata s') i = Some r' \<and> pid \<notin> peer_ids r'"
    unfolding op using pd_RemovePeer_ok [OF assms r] by (metis DiffD2 insertI1)
qed

theorem scheduler_operators_apply_witness:
  "let s = pd_demo\<lparr>pd_metadata := snd (PutStore (StoreInfo_default\<lparr>si_store_id := 2\<rparr>)
               ((pd_metadata pd_demo)\<lparr>pm_next_store_id := 3\<rparr>))\<rparr>
   in \<exists>op p s'. MakeAddPeerOperator (pd_metadata s) 1 2 = Some op \<and>
        pd_AddPeer (op_region_id op) (op_target_store_id op) s = Some (Inr p, s') \<and> pr_store_id p = 2"
proof -
  define m where "m = snd (PutStore (StoreInfo_default\<lparr>si_store_id := 2\<rparr>) ((pd_metadata pd_demo)\<lparr>pm_next_store_id := 3\<rparr>))"
  have "catalog_wf m"
    by (rule put_store_wf [OF pd_demo_wf, of "StoreInfo_default\<lparr>si_store_id := 2\<rparr>"])
       (simp_all add: m_def PutStore_def pd_demo_def)
  then have wf: "catalog_wf (pd_metadata (pd_demo\<lparr>pd_metadata := m\<rparr>))" by simp
  have "\<exists>op. MakeAddPeerOperator m 1 2 = Some op"
    by (simp add: MakeAddPeerOperator_def GetRegion_def md_GetStore_def FindPeerByStore_def m_def PutStore_def
        pd_demo_def demo_region_def)
  moreover have "pd_io (pd_demo\<lparr>pd_metadata := m\<rparr>) = []" by (simp add: pd_demo_def PdServer_new_def)
  ultimately show ?thesis
    using scheduler_operators_apply [OF wf] unfolding Let_def m_def [symmetric] by fastforce
qed

text \<open>
  A failed write of the catalog is acknowledged and can lose it. When the directory can be
  created and the file opened but the write of its content fails at once, persisting returns
  ok, and the next open of that directory ends in an exception.
\<close>

theorem catalog_write_failure_acknowledged:
  assumes "pd_data_dir s \<noteq> []" and "pd_io s = [IoOk, IoWriteFail 0]"
  shows "\<exists>s'. Persist s = Some (Status_Ok, s') \<and> pd_Open dir (PdServer_new (pd_catalog s') []) = None"
  using assms
  by (simp add: Persist_def pd_next_io_def pd_Open_def Load_def PdServer_new_def DecodeFields_def load_catalog_def
      GetOr_def stoull_def scan_number_def)

theorem catalog_write_failure_acknowledged_witness:
  "\<exists>s'. Persist ((PdServer_new None [IoOk, IoWriteFail 0])\<lparr>pd_data_dir := ''d''\<rparr>) = Some (Status_Ok, s') \<and>
     pd_Open ''d'' (PdServer_new (pd_catalog s') []) = None"
  by (rule catalog_write_failure_acknowledged) (simp_all add: PdServer_new_def)

end
