(* ===== verification/Rpc_Service.thy ===== *)
theory Rpc_Service
  imports Serialization
begin

text \<open>
  What the RPC services (pd_service.cpp, store_service.cpp, gateway_service.cpp) share: the
  translation of a status into an error response, the frame of a handler, and the registration
  of a list of methods. The locale \<open>rpc_service\<close> is the contract of such a list: its lemmas
  say that the server dispatches each method to its handler and refuses the others.
\<close>

section \<open>Handlers\<close>

definition StatusToRpcError :: "RpcRequest \<Rightarrow> Status \<Rightarrow> RpcResponse" where
  "StatusToRpcError request status =
     MakeRpcError request (ErrorCodeName (st_code status)) (st_message status)"

text \<open>\<open>std::stoull(fields[name])\<close>; a missing field reads as the empty string.\<close>

definition field_u64 :: "FieldMap \<Rightarrow> string \<Rightarrow> u64 option" where
  "field_u64 flds name = stoull (GetOr flds name [])"

text \<open>The common frame of the handlers: decode the payload or answer with the error.\<close>

definition with_fields ::
  "RpcRequest \<Rightarrow> 's \<Rightarrow> (FieldMap \<Rightarrow> (RpcResponse \<times> 's) option) \<Rightarrow> (RpcResponse \<times> 's) option" where
  "with_fields request s k =
     (case DecodeFields (rq_payload request) of
        Inl status \<Rightarrow> Some (StatusToRpcError request status, s)
      | Inr flds \<Rightarrow> k flds)"

text \<open>The common end: an error, or an ok with a payload.\<close>

definition answer :: "RpcRequest \<Rightarrow> Status \<Rightarrow> string \<Rightarrow> RpcResponse" where
  "answer request status payload =
     (if \<not> ok status then StatusToRpcError request status else MakeRpcOk request payload)"

section \<open>Registration\<close>

fun register_all :: "(string \<times> 's RpcHandler) list \<Rightarrow> 's RpcServer \<Rightarrow> Status \<times> 's RpcServer" where
  "register_all [] server = (Status_Ok, server)"
| "register_all ((name, handler) # rest) server =
     (let (status, server1) = RegisterHandler name (Some handler) server
      in if \<not> ok status then (status, server1) else register_all rest server1)"

locale rpc_service =
  fixes methods :: "(string \<times> 's RpcHandler) list"
  assumes names_nonempty: "[] \<notin> fst ` set methods"
    and names_distinct: "distinct (map fst methods)"
begin

lemma register_handlers:
  assumes "[] \<notin> fst ` set ms"
  shows "register_all ms srv = (Status_Ok, srv\<lparr>handlers := fold (\<lambda>(k, v) m. fmupd k v m) ms (handlers srv)\<rparr>)"
  using assms by (induction ms arbitrary: srv) (auto simp: RegisterHandler_def)

lemma register_ok: "fst (register_all methods srv) = Status_Ok"
  using register_handlers [OF names_nonempty] by simp

lemma dispatch:
  assumes "(rq_method req, h) \<in> set methods"
  shows "RpcServer_Handle (snd (register_all methods srv)) req s = h req s"
proof -
  have "map_of (rev methods) (rq_method req) = Some h"
    using assms names_distinct by (simp add: map_of_rev_distinct map_of_eq_Some_iff)
  then show ?thesis
    by (simp add: register_handlers [OF names_nonempty] RpcServer_Handle_def fmlookup_fold_fmupd)
qed

lemma unknown_method:
  assumes "rq_method req \<notin> fst ` set methods"
  shows "RpcServer_Handle (snd (register_all methods RpcServer_new)) req s =
     Some (MakeRpcError req (ErrorCodeName kRpcError) (''method not found: '' @ rq_method req), s)"
proof -
  have "map_of (rev methods) (rq_method req) = None"
    using assms by (simp add: map_of_eq_None_iff)
  then show ?thesis
    by (simp add: register_handlers [OF names_nonempty] RpcServer_Handle_def fmlookup_fold_fmupd RpcServer_new_def)
qed

end

section \<open>Lemmas\<close>

lemma response_sel [simp]:
  "rs_ok (MakeRpcOk req p)" "rs_payload (MakeRpcOk req p) = p" "rs_request_id (MakeRpcOk req p) = rq_request_id req"
  "\<not> rs_ok (MakeRpcError req c msg)" "rs_error_code (MakeRpcError req c msg) = c"
  "rs_error_message (MakeRpcError req c msg) = msg" "rs_request_id (MakeRpcError req c msg) = rq_request_id req"
  by (simp_all add: MakeRpcOk_def MakeRpcError_def RpcResponse_default_def)

lemma error_response_sel [simp]:
  "\<not> rs_ok (StatusToRpcError req st)" "rs_error_code (StatusToRpcError req st) = ErrorCodeName (st_code st)"
  "rs_error_message (StatusToRpcError req st) = st_message st"
  by (simp_all add: StatusToRpcError_def)

lemma with_fields_encoded [simp]:
  "rq_payload req = EncodeFields flds \<Longrightarrow> with_fields req s k = k flds"
  by (simp add: with_fields_def decode_encode_fields)

lemma stoull_Nil [simp]: "stoull [] = None"
  by (simp add: stoull_def scan_number_def)

lemma field_u64_missing [simp]: "fmlookup flds name = None \<Longrightarrow> field_u64 flds name = None"
  by (simp add: field_u64_def GetOr_def)

lemma field_u64_upd [simp]:
  "field_u64 (fmupd k v flds) name = (if k = name then stoull v else field_u64 flds name)"
  by (simp add: field_u64_def)

end
