(* ===== verification/Pd_Service.thy ===== *)
theory Pd_Service
  imports Pd_Server Rpc_Service
begin

text \<open>
  pd_service.cpp: the RPC interface of the placement driver. A handler decodes the fields of
  the request, calls the server and encodes the answer; it takes and returns the state of the
  server. \<open>None\<close> is an exception that leaves the handler: \<open>std::stoull\<close> on a missing or
  malformed number (\<open>fields[name]\<close> is the empty string for a missing field), or one of the
  server. The lemmas show that the registered server dispatches every method, that a client
  reads back from the answer what the server holds, and which requests raise exceptions.
\<close>

section \<open>Handlers\<close>

definition HandleRegisterStore :: "PdServer RpcHandler" where
  "HandleRegisterStore request s =
     with_fields request s (\<lambda>flds.
       let (status, store) = GetStoreFields flds StoreInfo_default []
       in if \<not> ok status then Some (StatusToRpcError request status, s)
          else map_option (\<lambda>(status, store', s').
                 (answer request status (EncodeFields (PutStoreFields fmempty store' [])), s'))
                 (RegisterStore store s))"

definition HandleTransferLeader :: "PdServer RpcHandler" where
  "HandleTransferLeader request s =
     with_fields request s (\<lambda>flds.
       case (field_u64 flds ''region_id'', field_u64 flds ''target_peer_id'') of
         (Some region_id, Some target_peer_id) \<Rightarrow>
           map_option (\<lambda>(status, s'). (answer request status [], s'))
             (pd_TransferLeader region_id target_peer_id s)
       | _ \<Rightarrow> None)"

definition HandleAddPeer :: "PdServer RpcHandler" where
  "HandleAddPeer request s =
     with_fields request s (\<lambda>flds.
       case (field_u64 flds ''region_id'', field_u64 flds ''store_id'') of
         (Some region_id, Some store_id) \<Rightarrow>
           map_option (\<lambda>(result, s').
             (case result of
                Inl status \<Rightarrow> StatusToRpcError request status
              | Inr peer \<Rightarrow>
                  MakeRpcOk request (EncodeFields
                    (fmupd ''store_id'' (to_string (pr_store_id peer))
                      (fmupd ''peer_id'' (to_string (pr_peer_id peer)) fmempty))), s'))
             (pd_AddPeer region_id store_id s)
       | _ \<Rightarrow> None)"

definition HandleRemovePeer :: "PdServer RpcHandler" where
  "HandleRemovePeer request s =
     with_fields request s (\<lambda>flds.
       case (field_u64 flds ''region_id'', field_u64 flds ''peer_id'') of
         (Some region_id, Some peer_id) \<Rightarrow>
           map_option (\<lambda>(status, s'). (answer request status [], s')) (pd_RemovePeer region_id peer_id s)
       | _ \<Rightarrow> None)"

definition HandleStoreHeartbeat :: "PdServer RpcHandler" where
  "HandleStoreHeartbeat request s =
     with_fields request s (\<lambda>flds.
       case (field_u64 flds ''store_id'', stoll (GetOr flds ''now_ms'' [])) of
         (Some store_id, Some now_ms) \<Rightarrow>
           map_option (\<lambda>(status, s'). (answer request status [], s')) (StoreHeartbeat store_id now_ms s)
       | _ \<Rightarrow> None)"

definition HandleSplitRegion :: "PdServer RpcHandler" where
  "HandleSplitRegion request s =
     with_fields request s (\<lambda>flds.
       case field_u64 flds ''region_id'' of
         None \<Rightarrow> None
       | Some region_id \<Rightarrow>
           map_option (\<lambda>(result, s').
             (case result of
                Inl status \<Rightarrow> StatusToRpcError request status
              | Inr (left, right) \<Rightarrow>
                  MakeRpcOk request (EncodeFields
                    (PutRegionFields (PutRegionFields fmempty left ''left'') right ''right'')), s'))
             (pd_SplitRegion region_id (GetOr flds ''split_key'' []) s))"

fun read_store_ids :: "FieldMap \<Rightarrow> nat list \<Rightarrow> u64 list option" where
  "read_store_ids flds [] = Some []"
| "read_store_ids flds (i # is) =
     (case field_u64 flds (''store'' @ show_nat i) of
        None \<Rightarrow> None
      | Some v \<Rightarrow> map_option (Cons v) (read_store_ids flds is))"

definition HandleBootstrapDefaultRegion :: "PdServer RpcHandler" where
  "HandleBootstrapDefaultRegion request s =
     with_fields request s (\<lambda>flds.
       case field_u64 flds ''store_count'' of
         None \<Rightarrow> None
       | Some count \<Rightarrow>
           (case read_store_ids flds [0 ..< unat count] of
              None \<Rightarrow> None
            | Some store_ids \<Rightarrow>
                map_option (\<lambda>(status, s'). (answer request status [], s')) (BootstrapDefaultRegion store_ids s)))"

definition HandleGetRegionByKey :: "PdServer RpcHandler" where
  "HandleGetRegionByKey request s =
     with_fields request s (\<lambda>flds.
       case pd_GetRegionByKey s (GetOr flds ''key'' []) of
         None \<Rightarrow> Some (MakeRpcError request (ErrorCodeName kRegionNotFound) ''region not found'', s)
       | Some region \<Rightarrow>
           let fields1 = PutRegionFields fmempty region ''region'';
               fields2 = (case GetRegionLeaderStore s region of
                            None \<Rightarrow> fields1
                          | Some leader_store \<Rightarrow> PutStoreFields fields1 leader_store ''leader_store'')
           in Some (MakeRpcOk request (EncodeFields fields2), s))"

definition HandleGetStore :: "PdServer RpcHandler" where
  "HandleGetStore request s =
     with_fields request s (\<lambda>flds.
       case field_u64 flds ''store_id'' of
         None \<Rightarrow> None
       | Some store_id \<Rightarrow>
           (case pd_GetStore s store_id of
              None \<Rightarrow> Some (MakeRpcError request (ErrorCodeName kStoreNotFound) ''store not found'', s)
            | Some store \<Rightarrow> Some (MakeRpcOk request (EncodeFields (PutStoreFields fmempty store [])), s)))"

definition status_fields :: "PdServer \<Rightarrow> FieldMap" where
  "status_fields s =
     (let stores = pd_ListStores s;
          regions = pd_ListRegions s;
          flds = fmupd ''store_count'' (show_nat (length stores)) fmempty;
          flds = fmupd ''region_count'' (show_nat (length regions)) flds;
          flds = put_indexed PutStoreFields ''store'' 0 stores flds
      in put_indexed PutRegionFields ''region'' 0 regions flds)"

definition HandleStatus :: "PdServer RpcHandler" where
  "HandleStatus request s = Some (MakeRpcOk request (EncodeFields (status_fields s)), s)"

section \<open>Registration\<close>

definition pd_methods :: "(string \<times> PdServer RpcHandler) list" where
  "pd_methods =
     [(''pd.RegisterStore'', HandleRegisterStore), (''pd.StoreHeartbeat'', HandleStoreHeartbeat),
      (''pd.BootstrapDefaultRegion'', HandleBootstrapDefaultRegion), (''pd.SplitRegion'', HandleSplitRegion),
      (''pd.TransferLeader'', HandleTransferLeader), (''pd.AddPeer'', HandleAddPeer),
      (''pd.RemovePeer'', HandleRemovePeer), (''pd.GetRegionByKey'', HandleGetRegionByKey),
      (''pd.GetStore'', HandleGetStore), (''pd.Status'', HandleStatus)]"

definition pd_RegisterHandlers :: "PdServer RpcServer option \<Rightarrow> Status \<times> PdServer RpcServer option" where
  "pd_RegisterHandlers server =
     (case server of
        None \<Rightarrow> (InvalidArgument ''rpc server must not be null'', None)
      | Some srv \<Rightarrow> (let (status, srv1) = register_all pd_methods srv in (status, Some srv1)))"

section \<open>The registered service\<close>

interpretation pd_rpc: rpc_service pd_methods
  by unfold_locales (simp_all add: pd_methods_def)

definition pd_rpc_server :: "PdServer RpcServer" where
  "pd_rpc_server = snd (register_all pd_methods RpcServer_new)"

lemma pd_dispatch:
  "rq_method req = ''pd.GetRegionByKey'' \<Longrightarrow> RpcServer_Handle pd_rpc_server req s = HandleGetRegionByKey req s"
  "rq_method req = ''pd.Status'' \<Longrightarrow> RpcServer_Handle pd_rpc_server req s = HandleStatus req s"
  "rq_method req = ''pd.SplitRegion'' \<Longrightarrow> RpcServer_Handle pd_rpc_server req s = HandleSplitRegion req s"
  "rq_method req = ''pd.AddPeer'' \<Longrightarrow> RpcServer_Handle pd_rpc_server req s = HandleAddPeer req s"
  "rq_method req = ''pd.RemovePeer'' \<Longrightarrow> RpcServer_Handle pd_rpc_server req s = HandleRemovePeer req s"
  "rq_method req = ''pd.TransferLeader'' \<Longrightarrow> RpcServer_Handle pd_rpc_server req s = HandleTransferLeader req s"
  unfolding pd_rpc_server_def by (intro pd_rpc.dispatch; simp add: pd_methods_def)+

lemma route_fields:
  assumes "length (ri_peers r) < 2 ^ 64"
  shows "GetRegionFields (PutStoreFields (PutRegionFields f r ''region'') st ''leader_store'') ''region'' = Inr r"
proof -
  have "GetRegionFields (PutStoreFields (PutRegionFields f r ''region'') st ''leader_store'') ''region'' =
      GetRegionFields (PutRegionFields f r ''region'') ''region''"
  proof (rule get_fields_cong(2))
    fix k
    assume "prefix (''region'' @ ''.'') k"
    then obtain t where "k = CHR ''r'' # t" by (auto simp: prefix_def)
    then show "fmlookup (PutStoreFields (PutRegionFields f r ''region'') st ''leader_store'') k =
        fmlookup (PutRegionFields f r ''region'') k"
      by (intro put_store_frame) simp_all
  qed simp
  with get_put_region [OF assms] show ?thesis by simp
qed

text \<open>The status answer: both lists and their lengths can be read back.\<close>

lemma status_stores:
  assumes "i < length (pd_ListStores s)"
  shows "GetStoreFields (status_fields s) s0 (''store'' @ show_nat i) =
     (Status_Ok, (pd_ListStores s ! i)\<lparr>si_labels := si_labels s0\<rparr>)"
proof -
  define A where "A = fmupd ''region_count'' (show_nat (length (pd_ListRegions s)))
      (fmupd ''store_count'' (show_nat (length (pd_ListStores s))) fmempty)"
  let ?B = "put_indexed PutStoreFields ''store'' 0 (pd_ListStores s) A"
  have F: "status_fields s = put_indexed PutRegionFields ''region'' 0 (pd_ListRegions s) ?B"
    by (simp add: status_fields_def Let_def A_def)
  have "GetStoreFields (status_fields s) s0 (''store'' @ show_nat i) = GetStoreFields ?B s0 (''store'' @ show_nat i)"
  proof (rule get_fields_cong(1))
    fix k
    assume "prefix ((''store'' @ show_nat i) @ ''.'') k"
    then obtain t where k: "k = CHR ''s'' # t" by (auto simp: prefix_def)
    show "fmlookup (status_fields s) k = fmlookup ?B k"
      unfolding F k by (subst region_list.put_indexed_frame) simp_all
  qed simp
  moreover have "GetStoreFields ?B s0 (''store'' @ show_nat (0 + i)) =
      (Status_Ok, (pd_ListStores s ! i)\<lparr>si_labels := si_labels s0\<rparr>)"
    by (rule store_list.get_put_indexed) (use assms in simp_all)
  ultimately show ?thesis by simp
qed

lemma status_regions:
  assumes "catalog_wf (pd_metadata s)" and "i < length (pd_ListRegions s)"
  shows "GetRegionFields (status_fields s) (''region'' @ show_nat i) = Inr (pd_ListRegions s ! i)"
proof -
  have "\<forall>r \<in> set (pd_ListRegions s). length (ri_peers r) < 2 ^ 64"
    using catalog_wfD(4) [OF assms(1)] wf_peers_length by (metis pd_ListRegions_def set_ListRegions)
  from region_list.get_put_indexed [of "''region''", OF _ assms(2) this, of 0] show ?thesis
    by (simp add: status_fields_def Let_def)
qed

lemma status_counts:
  "fmlookup (status_fields s) ''store_count'' = Some (show_nat (length (pd_ListStores s)))"
  "fmlookup (status_fields s) ''region_count'' = Some (show_nat (length (pd_ListRegions s)))"
proof -
  note frame = store_list.put_indexed_frame [of "''store''"] region_list.put_indexed_frame [of "''region''"]
  note plain = indexed_prefix_plain [of "CHR ''_''" "''store''" _ "''count''"]
    indexed_prefix_plain [of "CHR ''_''" "''region''" _ "''count''"]
  show "fmlookup (status_fields s) ''store_count'' = Some (show_nat (length (pd_ListStores s)))"
    "fmlookup (status_fields s) ''region_count'' = Some (show_nat (length (pd_ListRegions s)))"
    using plain by (simp_all add: status_fields_def Let_def frame is_digit_def)
qed

section \<open>Properties\<close>

text \<open>
  C14. Routing over RPC. On every catalog with a region that operations, opening a directory and
  restarts on a file that holds the catalog can reach, a request for the region of a key is answered with ok and leaves the server as it was; a client that decodes the payload
  reads a region that contains the key, as the catalog has it, and the store of its leader
  (labels are not sent).
\<close>

theorem pd_route_over_rpc:
  assumes "pd_step\<^sup>*\<^sup>* (PdServer_new cat io) s" and "pd_ListRegions s \<noteq> []"
    and "rq_method req = ''pd.GetRegionByKey''" and "rq_payload req = EncodeFields flds"
  shows "\<exists>resp f r st. RpcServer_Handle pd_rpc_server req s = Some (resp, s) \<and> rs_ok resp \<and>
     DecodeFields (rs_payload resp) = Inr f \<and> GetRegionFields f ''region'' = Inr r \<and>
     r \<in> set (pd_ListRegions s) \<and> ContainsKey r (GetOr flds ''key'' []) \<and>
     GetRegionLeaderStore s r = Some st \<and>
     GetStoreFields f s0 ''leader_store'' = (Status_Ok, st\<lparr>si_labels := si_labels s0\<rparr>)"
proof -
  let ?key = "GetOr flds ''key'' []"
  have wf: "catalog_wf (pd_metadata s)" using assms(1) by (rule reachable_catalog_wf)
  obtain r where r: "pd_GetRegionByKey s ?key = Some r" "ContainsKey r ?key" "GetRegionLeaderStore s r \<noteq> None"
    "region_wf (pd_metadata s) r"
    using route_of_key [OF wf assms(2), of ?key] by blast
  then obtain st where st: "GetRegionLeaderStore s r = Some st" by blast
  obtain i where "GetRegion (pd_metadata s) i = Some r"
    using GetRegionByKey_total [OF wf, of ?key] r(1) assms(2)
    by (metis entries_empty list.simps(8) md_ListRegions_def option.inject pd_GetRegionByKey_def pd_ListRegions_def)
  then have "r \<in> set (pd_ListRegions s)" by (auto simp: pd_ListRegions_def set_ListRegions GetRegion_def)
  moreover have "RpcServer_Handle pd_rpc_server req s = Some (MakeRpcOk req (EncodeFields
      (PutStoreFields (PutRegionFields fmempty r ''region'') st ''leader_store'')), s)"
    using r(1) st assms(3,4) by (simp add: pd_dispatch HandleGetRegionByKey_def)
  ultimately show ?thesis
    using r st by (simp add: decode_encode_fields route_fields [OF wf_peers_length] get_put_store)
qed

theorem pd_route_over_rpc_witness:
  "\<exists>resp f r. RpcServer_Handle pd_rpc_server
       \<lparr>rq_request_id = ''7'', rq_method = ''pd.GetRegionByKey'', rq_source = [], rq_target = [], rq_deadline_ms = 3000,
        rq_payload = EncodeFields (fmupd ''key'' ''k'' fmempty), rq_metadata = fmempty\<rparr> pd_demo = Some (resp, pd_demo) \<and>
     DecodeFields (rs_payload resp) = Inr f \<and> GetRegionFields f ''region'' = Inr r \<and> ContainsKey r ''k''"
proof -
  let ?req = "\<lparr>rq_request_id = ''7'', rq_method = ''pd.GetRegionByKey'', rq_source = [], rq_target = [],
      rq_deadline_ms = 3000, rq_payload = EncodeFields (fmupd ''key'' ''k'' fmempty), rq_metadata = fmempty\<rparr>"
  have "demo_region \<in> set (pd_ListRegions pd_demo)"
    by (auto simp: pd_ListRegions_def set_ListRegions pd_demo_def intro!: exI [of _ 1])
  then have "pd_ListRegions pd_demo \<noteq> []" by auto
  from pd_route_over_rpc [OF pd_demo_reachable this, of ?req "fmupd ''key'' ''k'' fmempty" StoreInfo_default]
  show ?thesis by (auto simp: GetOr_def)
qed

text \<open>
  The status answer is complete. On every reachable catalog a client that decodes the answer
  to a status request reads the number of stores and regions and each of them, regions as they
  are and stores up to their labels.
\<close>

theorem pd_status_over_rpc:
  assumes "pd_step\<^sup>*\<^sup>* (PdServer_new cat io) s" and "rq_method req = ''pd.Status''"
  shows "\<exists>resp f. RpcServer_Handle pd_rpc_server req s = Some (resp, s) \<and> rs_ok resp \<and>
     DecodeFields (rs_payload resp) = Inr f \<and>
     stoull (GetOr f ''store_count'' []) = Some (of_nat (length (pd_ListStores s))) \<and>
     stoull (GetOr f ''region_count'' []) = Some (of_nat (length (pd_ListRegions s))) \<and>
     map (\<lambda>i. GetStoreFields f s0 (''store'' @ show_nat i)) [0 ..< length (pd_ListStores s)] =
       map (\<lambda>st. (Status_Ok, st\<lparr>si_labels := si_labels s0\<rparr>)) (pd_ListStores s) \<and>
     map (\<lambda>i. GetRegionFields f (''region'' @ show_nat i)) [0 ..< length (pd_ListRegions s)] =
       map Inr (pd_ListRegions s)"
proof -
  have wf: "catalog_wf (pd_metadata s)" using assms(1) by (rule reachable_catalog_wf)
  have h: "RpcServer_Handle pd_rpc_server req s = Some (MakeRpcOk req (EncodeFields (status_fields s)), s)"
    using assms(2) by (simp add: pd_dispatch HandleStatus_def)
  have stores: "map (\<lambda>i. GetStoreFields (status_fields s) s0 (''store'' @ show_nat i)) [0 ..< length (pd_ListStores s)] =
      map (\<lambda>st. (Status_Ok, st\<lparr>si_labels := si_labels s0\<rparr>)) (pd_ListStores s)"
    by (rule nth_equalityI) (simp_all add: status_stores [simplified])
  have regions: "map (\<lambda>i. GetRegionFields (status_fields s) (''region'' @ show_nat i)) [0 ..< length (pd_ListRegions s)] =
      map Inr (pd_ListRegions s)"
    by (rule nth_equalityI) (simp_all add: status_regions [OF wf, simplified])
  have len: "length (pd_ListStores s) < 2 ^ 64" "length (pd_ListRegions s) < 2 ^ 64"
    using list_lengths [OF wf] by (simp_all add: pd_ListStores_def pd_ListRegions_def)
  show ?thesis
    using h stores regions len
    by (intro exI [of _ "MakeRpcOk req (EncodeFields (status_fields s))"] exI [of _ "status_fields s"])
       (simp add: decode_encode_fields GetOr_def status_counts stoull_show_nat)
qed

theorem pd_status_over_rpc_witness:
  "\<exists>resp f. RpcServer_Handle pd_rpc_server
       \<lparr>rq_request_id = ''7'', rq_method = ''pd.Status'', rq_source = [], rq_target = [], rq_deadline_ms = 3000,
        rq_payload = [], rq_metadata = fmempty\<rparr> pd_demo = Some (resp, pd_demo) \<and>
     DecodeFields (rs_payload resp) = Inr f \<and> stoull (GetOr f ''region_count'' []) = Some (of_nat (length (pd_ListRegions pd_demo)))"
  using pd_status_over_rpc [OF pd_demo_reachable, of "\<lparr>rq_request_id = ''7'', rq_method = ''pd.Status'', rq_source = [],
      rq_target = [], rq_deadline_ms = 3000, rq_payload = [], rq_metadata = fmempty\<rparr>" StoreInfo_default]
  by auto

text \<open>
  A request without a region id raises an exception in the server, whatever its state: the
  handlers for splitting, adding and removing peers and transferring leadership convert the
  missing field with \<open>std::stoull\<close>, and nothing on the way to the connection catches it.
\<close>

theorem missing_region_id_raises:
  assumes "rq_payload req = EncodeFields flds" and "fmlookup flds ''region_id'' = None"
    and "rq_method req \<in> {''pd.SplitRegion'', ''pd.AddPeer'', ''pd.RemovePeer'', ''pd.TransferLeader''}"
  shows "RpcServer_Handle pd_rpc_server req s = None"
  using assms
  by (auto simp: pd_dispatch HandleSplitRegion_def HandleAddPeer_def HandleRemovePeer_def HandleTransferLeader_def)

theorem missing_region_id_raises_witness:
  "RpcServer_Handle pd_rpc_server
     \<lparr>rq_request_id = [], rq_method = ''pd.AddPeer'', rq_source = [], rq_target = [], rq_deadline_ms = 3000,
      rq_payload = EncodeFields fmempty, rq_metadata = fmempty\<rparr> pd_demo = None"
  by (rule missing_region_id_raises [of _ fmempty]) simp_all

text \<open>
  Store ids wrap around. Registering a store under the largest 64-bit id sets the next id to
  zero: the next store that asks for an id is refused, and the one after it is given id 1 and
  replaces whatever store had that id.
\<close>

theorem largest_store_id_wraps:
  assumes "pd_io s = []" and "si_store_id x = - 1" and "si_store_id a = 0" and "si_store_id b = 0"
  shows "\<exists>s1 s2 s3. RegisterStore x s = Some (Status_Ok, x, s1) \<and>
     RegisterStore a s1 = Some (InvalidArgument ''store_id must be non-zero'', a, s2) \<and>
     RegisterStore b s2 = Some (Status_Ok, b\<lparr>si_store_id := 1\<rparr>, s3) \<and>
     md_GetStore (pd_metadata s3) 1 = Some (b\<lparr>si_store_id := 1\<rparr>)"
proof -
  define m1 where "m1 = (pd_metadata s)\<lparr>pm_next_store_id := 0, pm_stores := fmupd (- 1) x (pm_stores (pd_metadata s))\<rparr>"
  obtain s1 where p1: "Persist (s\<lparr>pd_metadata := m1\<rparr>) = Some (Status_Ok, s1)" "pd_io s1 = []"
    using Persist_ok [of "s\<lparr>pd_metadata := m1\<rparr>"] assms(1) by auto
  then have m: "pd_metadata s1 = m1" using Persist_frame by fastforce
  have "pm_next_store_id (pd_metadata s) \<le> - 1" by (rule word_n1_ge)
  then have r1: "RegisterStore x s = Some (Status_Ok, x, s1)"
    using assms(2) p1(1) by (simp add: RegisterStore_def SetNextIds_def PutStore_def m1_def)
  define s2 where "s2 = s1\<lparr>pd_metadata := m1\<lparr>pm_next_store_id := 1\<rparr>\<rparr>"
  have a0: "a\<lparr>si_store_id := 0\<rparr> = a" using assms(3) by (cases a) simp
  have r2: "RegisterStore a s1 = Some (InvalidArgument ''store_id must be non-zero'', a, s2)"
    using assms(3) m a0 by (simp add: RegisterStore_def AllocStoreId_def PutStore_def m1_def s2_def Let_def)
  let ?b = "b\<lparr>si_store_id := 1\<rparr>"
  define m3 where "m3 = m1\<lparr>pm_next_store_id := 2, pm_stores := fmupd 1 ?b (pm_stores m1)\<rparr>"
  obtain s3 where p3: "Persist (s2\<lparr>pd_metadata := m3\<rparr>) = Some (Status_Ok, s3)"
    using Persist_ok [of "s2\<lparr>pd_metadata := m3\<rparr>"] p1(2) by (auto simp: s2_def)
  then have "pd_metadata s3 = m3" using Persist_frame by fastforce
  then have "md_GetStore (pd_metadata s3) 1 = Some ?b" by (simp add: md_GetStore_def m3_def)
  moreover have "RegisterStore b s2 = Some (Status_Ok, ?b, s3)"
    using assms(4) p3 by (simp add: RegisterStore_def AllocStoreId_def PutStore_def s2_def m3_def)
  ultimately show ?thesis using r1 r2 by blast
qed

theorem largest_store_id_wraps_witness:
  "\<exists>s1 s2 s3. RegisterStore (StoreInfo_default\<lparr>si_store_id := - 1\<rparr>) pd_demo = Some (Status_Ok, StoreInfo_default\<lparr>si_store_id := - 1\<rparr>, s1) \<and>
     RegisterStore StoreInfo_default s1 = Some (InvalidArgument ''store_id must be non-zero'', StoreInfo_default, s2) \<and>
     RegisterStore StoreInfo_default s2 = Some (Status_Ok, StoreInfo_default\<lparr>si_store_id := 1\<rparr>, s3)"
  using largest_store_id_wraps [of pd_demo "StoreInfo_default\<lparr>si_store_id := - 1\<rparr>" StoreInfo_default StoreInfo_default]
  by (auto simp: pd_demo_def PdServer_new_def StoreInfo_default_def)

end
