(* ===== verification/Single_Region.thy ===== *)
theory Single_Region
  imports Kv_Command Raft_Storage
begin

text \<open>
  single_region_cluster.cpp: the replicas of one region and the cluster that drives them with
  direct calls. A store couples a Raft node, the storage of its state and the file engine that
  is also the state machine. The file system is \<open>sc_files\<close>: for every store directory the
  content of its log file and the outcomes of the next file operations there, brought up to
  date when a store is closed. \<open>None\<close> is an exception or an access outside a vector.
  The lemmas show when an election succeeds and that no term has two leaders, that a cluster on
  healthy disks behaves as one map under any sequence of writes, leader transfers and restarts,
  what a new peer receives, and what the error paths leave behind.
\<close>

section \<open>Stores\<close>

record SingleRegionStore =
  sr_store_id :: u64
  sr_peer_id :: u64
  sr_raft :: RaftNode
  sr_engine :: FileKvEngine
  sr_raft_storage :: bool

text \<open>The content of the log file and the pending outcomes, per directory.\<close>

record file_env =
  fe_log :: "string \<Rightarrow> string"
  fe_io :: "string \<Rightarrow> io_event list"

definition SingleRegionStore_new :: "u64 \<Rightarrow> u64 \<Rightarrow> u64 \<Rightarrow> u64 list \<Rightarrow> SingleRegionStore" where
  "SingleRegionStore_new store_id peer_id region_id peers =
     \<lparr>sr_store_id = store_id, sr_peer_id = peer_id, sr_raft = RaftNode_new region_id peer_id peers,
      sr_engine = FileKvEngine_new [] [], sr_raft_storage = False\<rparr>"

definition store_dir :: "string \<Rightarrow> u64 \<Rightarrow> string" where
  "store_dir data_dir store_id = data_dir @ ''/store-'' @ to_string store_id"

definition hard_state_of :: "RaftNode \<Rightarrow> HardState" where
  "hard_state_of n =
     \<lparr>hs_current_term = rn_current_term n,
      hs_voted_for = (case rn_voted_for n of None \<Rightarrow> 0 | Some v \<Rightarrow> v),
      hs_commit_index = rn_commit_index n, hs_last_applied = rn_last_applied n\<rparr>"

definition PersistHardState :: "SingleRegionStore \<Rightarrow> Status \<times> SingleRegionStore" where
  "PersistHardState s =
     (if \<not> sr_raft_storage s then (InvalidArgument ''raft storage is not initialized'', s)
      else let (status, e) = SaveHardState file_kv_ops (rn_region_id (sr_raft s))
                               (hard_state_of (sr_raft s)) (sr_engine s)
           in (status, s\<lparr>sr_engine := e\<rparr>))"

definition PersistLogEntry :: "LogEntry \<Rightarrow> SingleRegionStore \<Rightarrow> Status \<times> SingleRegionStore" where
  "PersistLogEntry entry s =
     (if \<not> sr_raft_storage s then (InvalidArgument ''raft storage is not initialized'', s)
      else let (status, e) = AppendLog file_kv_ops entry (sr_engine s)
           in (status, s\<lparr>sr_engine := e\<rparr>))"

definition RestoreRaftState :: "SingleRegionStore \<Rightarrow> (Status \<times> SingleRegionStore) option" where
  "RestoreRaftState s =
     (if \<not> sr_raft_storage s then Some (InvalidArgument ''raft storage is not initialized'', s)
      else case LoadHardState file_kv_ops (rn_region_id (sr_raft s)) (sr_engine s) of
             None \<Rightarrow> None
           | Some (Inl status) \<Rightarrow>
               Some (if st_code status = kKeyNotFound then Status_Ok else status, s)
           | Some (Inr hard_state) \<Rightarrow>
               (case LoadLog file_kv_ops (rn_region_id (sr_raft s)) (sr_engine s) of
                  Inl status \<Rightarrow> Some (status, s)
                | Inr es \<Rightarrow>
                    let voted_for = (if hs_voted_for hard_state \<noteq> 0 then Some (hs_voted_for hard_state) else None);
                        (status, n) = raft_Restore (hs_current_term hard_state) voted_for
                          (hs_commit_index hard_state) (hs_last_applied hard_state) es (sr_raft s)
                    in Some (status, s\<lparr>sr_raft := n\<rparr>)))"

definition store_Open ::
  "file_env \<Rightarrow> string \<Rightarrow> SingleRegionStore \<Rightarrow> (Status \<times> SingleRegionStore) option" where
  "store_Open env data_dir s =
     (let dir = store_dir data_dir (sr_store_id s);
          (status, e) = Open dir ((sr_engine s)\<lparr>kv_disk := fe_log env dir, kv_io := fe_io env dir\<rparr>);
          s1 = s\<lparr>sr_engine := e\<rparr>
      in if \<not> ok status then Some (status, s1)
         else RestoreRaftState (s1\<lparr>sr_raft_storage := True\<rparr>))"

fun apply_entries :: "LogEntry list \<Rightarrow> FileKvEngine \<Rightarrow> Status \<times> FileKvEngine" where
  "apply_entries [] e = (Status_Ok, e)"
| "apply_entries (x # xs) e =
     (if le_type x = kNoop then apply_entries xs e
      else let (status, e1) = ApplyKvCommand file_kv_ops (le_command x) e
           in if \<not> ok status then (status, e1) else apply_entries xs e1)"

definition ApplyCommitted :: "SingleRegionStore \<Rightarrow> (Status \<times> SingleRegionStore) option" where
  "ApplyCommitted s =
     (case TakeCommittedEntries (sr_raft s) of
        None \<Rightarrow> None
      | Some (es, n) \<Rightarrow>
          let (status, e) = apply_entries es (sr_engine s);
              s1 = s\<lparr>sr_raft := n, sr_engine := e\<rparr>
          in if \<not> ok status then Some (status, s1) else Some (PersistHardState s1))"

definition store_Get :: "string \<Rightarrow> SingleRegionStore \<Rightarrow> Status + string" where
  "store_Get key s = kv_Get key (sr_engine s)"

section \<open>The cluster\<close>

record SingleRegionCluster =
  sc_region_id :: u64
  sc_leader_peer_id :: u64
  sc_peer_ids :: "u64 list"
  sc_stores :: "SingleRegionStore list"
  sc_data_dir :: string
  sc_files :: file_env

definition SingleRegionCluster_new :: "file_env \<Rightarrow> SingleRegionCluster" where
  "SingleRegionCluster_new env =
     \<lparr>sc_region_id = 1, sc_leader_peer_id = 0, sc_peer_ids = [], sc_stores = [],
      sc_data_dir = [], sc_files = env\<rparr>"

text \<open>The loops of \<open>Leader\<close>, \<open>ElectLeader\<close> and \<open>FindByStoreId\<close>; writing through the pointer they return.\<close>

definition find_peer :: "u64 \<Rightarrow> SingleRegionStore list \<Rightarrow> SingleRegionStore option" where
  "find_peer p ss = find (\<lambda>s. sr_peer_id s = p) ss"

definition Leader :: "SingleRegionCluster \<Rightarrow> SingleRegionStore option" where
  "Leader c = find_peer (sc_leader_peer_id c) (sc_stores c)"

definition FindByStoreId :: "u64 \<Rightarrow> SingleRegionCluster \<Rightarrow> SingleRegionStore option" where
  "FindByStoreId store_id c = find (\<lambda>s. sr_store_id s = store_id) (sc_stores c)"

fun write_peer :: "u64 \<Rightarrow> SingleRegionStore \<Rightarrow> SingleRegionStore list \<Rightarrow> SingleRegionStore list" where
  "write_peer p s' [] = []"
| "write_peer p s' (s # ss) = (if sr_peer_id s = p then s' # ss else s # write_peer p s' ss)"

text \<open>
  The loops that call every store but the one with a given peer id: a status that is not ok
  ends the loop, and the calls that answer \<open>True\<close> are counted.
\<close>

fun for_others ::
  "u64 \<Rightarrow> (SingleRegionStore \<Rightarrow> (Status \<times> bool \<times> SingleRegionStore) option) \<Rightarrow>
   SingleRegionStore list \<Rightarrow> (Status \<times> nat \<times> SingleRegionStore list) option" where
  "for_others p body [] = Some (Status_Ok, 0, [])"
| "for_others p body (s # ss) =
     (if sr_peer_id s = p then
        map_option (\<lambda>(status, n, ss'). (status, n, s # ss')) (for_others p body ss)
      else case body s of
             None \<Rightarrow> None
           | Some (status, counted, s') \<Rightarrow>
               if \<not> ok status then Some (status, 0, s' # ss)
               else map_option (\<lambda>(status', n, ss'). (status', (if counted then 1 else 0) + n, s' # ss'))
                      (for_others p body ss))"

definition vote_body :: "RequestVoteRequest \<Rightarrow> SingleRegionStore \<Rightarrow> (Status \<times> bool \<times> SingleRegionStore) option" where
  "vote_body request s =
     (let (response, n) = HandleRequestVote request (sr_raft s);
          (status, s1) = PersistHardState (s\<lparr>sr_raft := n\<rparr>)
      in Some (status, rvr_vote_granted response, s1))"

definition ElectLeader :: "u64 \<Rightarrow> SingleRegionCluster \<Rightarrow> (Status \<times> SingleRegionCluster) option" where
  "ElectLeader peer_id c =
     (case find_peer peer_id (sc_stores c) of
        None \<Rightarrow> Some (InvalidArgument ''leader peer not found'', c)
      | Some s0 \<Rightarrow>
          let (status, elected) = PersistHardState (s0\<lparr>sr_raft := BecomeCandidate (sr_raft s0)\<rparr>);
              c1 = c\<lparr>sc_stores := write_peer peer_id elected (sc_stores c)\<rparr>
          in if \<not> ok status then Some (status, c1)
             else
               let request = \<lparr>rv_region_id = sc_region_id c, rv_term = rn_current_term (sr_raft elected),
                              rv_candidate_id = peer_id, rv_last_log_index = last_log_index (sr_raft elected),
                              rv_last_log_term = last_log_term (sr_raft elected)\<rparr>
               in case for_others peer_id (vote_body request) (sc_stores c1) of
                    None \<Rightarrow> None
                  | Some (status, votes, stores) \<Rightarrow>
                      let c2 = c1\<lparr>sc_stores := stores\<rparr>
                      in if \<not> ok status then Some (status, c2)
                         else if 1 + votes \<le> length stores div 2 then
                           Some (Internal ''failed to elect leader'', c2)
                         else
                           let (status, leader) =
                                 PersistHardState (elected\<lparr>sr_raft := BecomeLeader (sr_raft elected)\<rparr>);
                               c3 = c2\<lparr>sc_stores := write_peer peer_id leader stores\<rparr>
                           in if \<not> ok status then Some (status, c3)
                              else Some (Status_Ok, c3\<lparr>sc_leader_peer_id := peer_id\<rparr>))"

definition TransferLeader :: "u64 \<Rightarrow> SingleRegionCluster \<Rightarrow> (Status \<times> SingleRegionCluster) option" where
  "TransferLeader peer_id c =
     (if sc_leader_peer_id c = peer_id then Some (Status_Ok, c) else ElectLeader peer_id c)"

text \<open>Closing a store leaves its file; \<open>remove_all\<close> deletes every file below a directory.\<close>

definition close_store :: "string \<Rightarrow> SingleRegionStore \<Rightarrow> file_env \<Rightarrow> file_env" where
  "close_store data_dir s env =
     (let dir = store_dir data_dir (sr_store_id s)
      in \<lparr>fe_log = (fe_log env)(dir := kv_disk (sr_engine s)),
          fe_io = (fe_io env)(dir := kv_io (sr_engine s))\<rparr>)"

definition remove_all :: "string \<Rightarrow> file_env \<Rightarrow> file_env" where
  "remove_all d env = env\<lparr>fe_log := (\<lambda>p. if p = d \<or> prefix (d @ ''/'') p then [] else fe_log env p)\<rparr>"

text \<open>The next file operation on the data directory itself; \<open>None\<close> is a \<open>filesystem_error\<close>.\<close>

definition dir_op :: "string \<Rightarrow> file_env \<Rightarrow> file_env option" where
  "dir_op d env =
     (case fe_io env d of
        [] \<Rightarrow> Some env
      | IoOpenFail _ # evs \<Rightarrow> None
      | ev # evs \<Rightarrow> Some (env\<lparr>fe_io := (fe_io env)(d := evs)\<rparr>))"

text \<open>The ids given to peers and stores: \<open>i + 1\<close> for \<open>i\<close> below the number of stores.\<close>

definition boot_ids :: "nat \<Rightarrow> u64 list" where
  "boot_ids store_count = map (\<lambda>i. of_nat (i + 1)) [0..<store_count]"

fun open_stores ::
  "string \<Rightarrow> u64 \<Rightarrow> u64 list \<Rightarrow> u64 list \<Rightarrow> file_env \<Rightarrow>
   (Status \<times> SingleRegionStore list \<times> file_env) option" where
  "open_stores d rid peers [] env = Some (Status_Ok, [], env)"
| "open_stores d rid peers (i # ids) env =
     (case store_Open env d (SingleRegionStore_new i i rid peers) of
        None \<Rightarrow> None
      | Some (status, s) \<Rightarrow>
          if \<not> ok status then Some (status, [], close_store d s env)
          else map_option (\<lambda>(status', ss, env'). (status', s # ss, env')) (open_stores d rid peers ids env))"

definition Bootstrap ::
  "string \<Rightarrow> nat \<Rightarrow> u64 \<Rightarrow> bool \<Rightarrow> SingleRegionCluster \<Rightarrow> (Status \<times> SingleRegionCluster) option" where
  "Bootstrap data_dir store_count region_id reset_data c =
     (if store_count = 0 then Some (InvalidArgument ''store_count must be non-zero'', c)
      else
        let env0 = fold (close_store (sc_data_dir c)) (sc_stores c) (sc_files c)
        in case (if reset_data then map_option (remove_all data_dir) (dir_op data_dir env0) else Some env0) of
             None \<Rightarrow> None
           | Some env1 \<Rightarrow>
        case dir_op data_dir env1 of
             None \<Rightarrow> None
           | Some env2 \<Rightarrow>
        let ids = boot_ids store_count
        in case open_stores data_dir region_id ids ids env2 of
             None \<Rightarrow> None
           | Some (status, stores, env3) \<Rightarrow>
               let c1 = c\<lparr>sc_region_id := region_id, sc_data_dir := data_dir, sc_peer_ids := ids,
                          sc_stores := stores, sc_files := env3\<rparr>
               in if \<not> ok status then Some (status, c1)
                  else case find (\<lambda>s. rn_role (sr_raft s) = kLeader) stores of
                         Some s \<Rightarrow> Some (Status_Ok, c1\<lparr>sc_leader_peer_id := sr_peer_id s\<rparr>)
                       | None \<Rightarrow> ElectLeader (hd ids) c1)"

definition reserved_key :: "string \<Rightarrow> bool" where
  "reserved_key key \<longleftrightarrow> prefix ''raft/'' key \<or> prefix ''region/'' key \<or> prefix ''pd/'' key \<or> prefix ''local/'' key"

fun persist_entries :: "LogEntry list \<Rightarrow> SingleRegionStore \<Rightarrow> Status \<times> SingleRegionStore" where
  "persist_entries [] s = (Status_Ok, s)"
| "persist_entries (x # xs) s =
     (let (status, s1) = PersistLogEntry x s
      in if \<not> ok status then (status, s1) else persist_entries xs s1)"

text \<open>The part of \<open>AddPeer\<close> that copies the leader's Raft state into the new store.\<close>

definition adopt_leader :: "SingleRegionStore \<Rightarrow> SingleRegionStore \<Rightarrow> Status \<times> SingleRegionStore" where
  "adopt_leader leader s =
     (let l = sr_raft leader;
          (status, n) = raft_Restore (rn_current_term l) (rn_voted_for l) (rn_commit_index l)
                          (rn_last_applied l) (rn_log l) (sr_raft s);
          s1 = s\<lparr>sr_raft := n\<rparr>
      in if \<not> ok status then (status, s1)
         else let (status, s2) = persist_entries (rn_log l) s1
              in if \<not> ok status then (status, s2) else PersistHardState s2)"

definition AddPeer :: "u64 \<Rightarrow> u64 \<Rightarrow> SingleRegionCluster \<Rightarrow> (Status \<times> SingleRegionCluster) option" where
  "AddPeer store_id peer_id c =
     (if FindByStoreId store_id c \<noteq> None then
        Some (InvalidArgument ''store already exists in region cluster'', c)
      else if peer_id \<in> set (sc_peer_ids c) then
        Some (InvalidArgument ''peer already exists in region cluster'', c)
      else
        let c1 = c\<lparr>sc_peer_ids := sc_peer_ids c @ [peer_id]\<rparr>;
            close = (\<lambda>s. c1\<lparr>sc_files := close_store (sc_data_dir c) s (sc_files c)\<rparr>)
        in case store_Open (sc_files c) (sc_data_dir c)
                  (SingleRegionStore_new store_id peer_id (sc_region_id c) (sc_peer_ids c1)) of
             None \<Rightarrow> None
           | Some (status, s) \<Rightarrow>
               if \<not> ok status then Some (status, close s)
               else
                 let bootstrap = (case Leader c1 of
                         None \<Rightarrow> []
                       | Some leader \<Rightarrow>
                           map (\<lambda>(k, v). mk_put k v)
                             (filter (\<lambda>kv. \<not> reserved_key (fst kv)) (ScanRange [] [] (sr_engine leader))));
                     (status, s1) = (case Leader c1 of
                         None \<Rightarrow> (Status_Ok, s)
                       | Some leader \<Rightarrow> adopt_leader leader s)
                 in if \<not> ok status then Some (status, close s1)
                    else
                      let (status, e) = (if bootstrap \<noteq> [] then WriteBatch bootstrap (sr_engine s1)
                                         else (Status_Ok, sr_engine s1))
                      in Some (status, c1\<lparr>sc_stores := sc_stores c @ [s1\<lparr>sr_engine := e\<rparr>]\<rparr>))"

definition RemovePeer :: "u64 \<Rightarrow> SingleRegionCluster \<Rightarrow> (Status \<times> SingleRegionCluster) option" where
  "RemovePeer peer_id c =
     (if length (sc_stores c) \<le> 1 then Some (InvalidArgument ''cannot remove last peer'', c)
      else case find_peer peer_id (sc_stores c) of
             None \<Rightarrow> Some (InvalidArgument ''peer not found'', c)
           | Some s \<Rightarrow>
               let stores = remove1 s (sc_stores c);
                   c1 = c\<lparr>sc_stores := stores, sc_peer_ids := removeAll peer_id (sc_peer_ids c),
                          sc_files := close_store (sc_data_dir c) s (sc_files c)\<rparr>
               in if sc_leader_peer_id c = peer_id
                  then ElectLeader (sr_peer_id (hd stores)) (c1\<lparr>sc_leader_peer_id := 0\<rparr>)
                  else Some (Status_Ok, c1))"

text \<open>
  The request for one new entry. The term of the previous entry is read from the leader's log;
  \<open>None\<close> is a read outside of it.
\<close>

definition replicate_request :: "u64 \<Rightarrow> u64 \<Rightarrow> RaftNode \<Rightarrow> LogEntry \<Rightarrow> AppendEntriesRequest option" where
  "replicate_request region_id leader_peer_id leader entry =
     (case (if le_index entry = 1 then Some 0
            else if unat (le_index entry - 2) < length (rn_log leader)
            then Some (le_term (rn_log leader ! unat (le_index entry - 2))) else None) of
        None \<Rightarrow> None
      | Some prev_log_term \<Rightarrow>
          Some \<lparr>ae_region_id = region_id, ae_term = rn_current_term leader, ae_leader_id = leader_peer_id,
                ae_prev_log_index = le_index entry - 1, ae_prev_log_term = prev_log_term,
                ae_entries = [entry], ae_leader_commit = rn_commit_index leader\<rparr>)"

definition replicate_body ::
  "AppendEntriesRequest option \<Rightarrow> LogEntry \<Rightarrow> SingleRegionStore \<Rightarrow> (Status \<times> bool \<times> SingleRegionStore) option" where
  "replicate_body request entry s =
     (case request of
        None \<Rightarrow> None
      | Some r \<Rightarrow>
     (case HandleAppendEntries r (sr_raft s) of
        None \<Rightarrow> None
      | Some (response, n) \<Rightarrow>
          let s1 = s\<lparr>sr_raft := n\<rparr>
          in if \<not> aer_success response then Some (Status_Ok, False, s1)
             else let (status, s2) = PersistLogEntry entry s1
                  in if \<not> ok status then Some (status, False, s2)
                     else let (status, s3) = PersistHardState s2 in Some (status, True, s3)))"

definition commit_request :: "u64 \<Rightarrow> u64 \<Rightarrow> u64 \<Rightarrow> u64 \<Rightarrow> RaftNode \<Rightarrow> AppendEntriesRequest" where
  "commit_request region_id leader_term leader_peer_id commit_index n =
     \<lparr>ae_region_id = region_id, ae_term = leader_term, ae_leader_id = leader_peer_id,
      ae_prev_log_index = last_log_index n, ae_prev_log_term = last_log_term n,
      ae_entries = [], ae_leader_commit = commit_index\<rparr>"

definition commit_body ::
  "(RaftNode \<Rightarrow> AppendEntriesRequest) \<Rightarrow> SingleRegionStore \<Rightarrow> (Status \<times> bool \<times> SingleRegionStore) option" where
  "commit_body request s =
     (case HandleAppendEntries (request (sr_raft s)) (sr_raft s) of
        None \<Rightarrow> None
      | Some (response, n) \<Rightarrow>
          let s1 = s\<lparr>sr_raft := n\<rparr>
          in if \<not> aer_success response then Some (Internal ''failed to broadcast commit'', False, s1)
             else map_option (\<lambda>(status, s2). (status, True, s2)) (ApplyCommitted s1))"

definition BroadcastCommit :: "u64 \<Rightarrow> SingleRegionCluster \<Rightarrow> (Status \<times> SingleRegionCluster) option" where
  "BroadcastCommit commit_index c =
     (case Leader c of
        None \<Rightarrow> Some (mk_status kNotLeader ''no leader'', c)
      | Some leader \<Rightarrow>
          map_option (\<lambda>(status, _, stores). (status, c\<lparr>sc_stores := stores\<rparr>))
            (for_others (sc_leader_peer_id c)
               (commit_body (commit_request (sc_region_id c) (rn_current_term (sr_raft leader))
                               (sc_leader_peer_id c) commit_index))
               (sc_stores c)))"

definition ProposeAndReplicate :: "string \<Rightarrow> SingleRegionCluster \<Rightarrow> (Status \<times> SingleRegionCluster) option" where
  "ProposeAndReplicate command c =
     (case Leader c of
        None \<Rightarrow> Some (mk_status kNotLeader ''no leader'', c)
      | Some l0 \<Rightarrow>
     (case Propose kNormal command (sr_raft l0) of
        Inl status \<Rightarrow> Some (status, c)
      | Inr (entry, n) \<Rightarrow>
          let lp = sc_leader_peer_id c;
              (status, leader) = PersistLogEntry entry (l0\<lparr>sr_raft := n\<rparr>);
              c1 = c\<lparr>sc_stores := write_peer lp leader (sc_stores c)\<rparr>
          in if \<not> ok status then Some (status, c1)
             else case for_others lp
                         (replicate_body (replicate_request (sc_region_id c) lp (sr_raft leader) entry) entry)
                         (sc_stores c1) of
                    None \<Rightarrow> None
                  | Some (status, replicated, stores) \<Rightarrow>
                      let c2 = c1\<lparr>sc_stores := stores\<rparr>
                      in if \<not> ok status then Some (status, c2)
                         else if 1 + replicated \<le> length stores div 2 then
                           Some (Internal ''failed to replicate entry to majority'', c2)
                         else case ApplyCommitted
                                     (leader\<lparr>sr_raft := SetCommitIndex (le_index entry) (sr_raft leader)\<rparr>) of
                                None \<Rightarrow> None
                              | Some (status, leader2) \<Rightarrow>
                                  let c3 = c2\<lparr>sc_stores := write_peer lp leader2 stores\<rparr>
                                  in if \<not> ok status then Some (status, c3)
                                     else BroadcastCommit (le_index entry) c3))"

definition cluster_Put :: "string \<Rightarrow> string \<Rightarrow> SingleRegionCluster \<Rightarrow> (Status \<times> SingleRegionCluster) option" where
  "cluster_Put key v c = ProposeAndReplicate (EncodePutCommand key v) c"

definition cluster_Delete :: "string \<Rightarrow> SingleRegionCluster \<Rightarrow> (Status \<times> SingleRegionCluster) option" where
  "cluster_Delete key c = ProposeAndReplicate (EncodeDeleteCommand key) c"

definition cluster_Batch :: "KvMutation list \<Rightarrow> SingleRegionCluster \<Rightarrow> (Status \<times> SingleRegionCluster) option" where
  "cluster_Batch ms c =
     (if ms = [] then Some (Status_Ok, c) else ProposeAndReplicate (EncodeBatchCommand ms) c)"

definition GetFromStore :: "u64 \<Rightarrow> string \<Rightarrow> SingleRegionCluster \<Rightarrow> Status + string" where
  "GetFromStore store_id key c =
     (case find (\<lambda>s. sr_store_id s = store_id) (sc_stores c) of
        Some s \<Rightarrow> store_Get key s
      | None \<Rightarrow> Inl (mk_status kStoreNotFound ''store not found''))"

definition ExportRangeFromLeader :: "string \<Rightarrow> string \<Rightarrow> SingleRegionCluster \<Rightarrow> (string \<times> string) list" where
  "ExportRangeFromLeader start_key end_key c =
     (case Leader c of
        None \<Rightarrow> []
      | Some leader \<Rightarrow> ScanRange start_key end_key (sr_engine leader))"

section \<open>One engine for the Raft state and the user data\<close>

text \<open>
  The Raft keys start with \<open>raft/\<close>. Seen from outside, an engine holds the map \<open>m\<close> of the
  remaining keys; seen from the Raft storage it holds a log and a hard state.
\<close>

definition user_key :: "string \<Rightarrow> bool" where
  "user_key k \<longleftrightarrow> k \<noteq> [] \<and> \<not> prefix ''raft/'' k"

definition user_view :: "kv_map \<Rightarrow> kv_map \<Rightarrow> bool" where
  "user_view m d \<longleftrightarrow> (\<forall>k. \<not> prefix ''raft/'' k \<longrightarrow> fmlookup d k = fmlookup m k)"

definition engine_rel ::
  "u64 \<Rightarrow> LogEntry list \<Rightarrow> HardState option \<Rightarrow> kv_map \<Rightarrow> FileKvEngine \<Rightarrow> bool" where
  "engine_rel r L h m e \<longleftrightarrow> storage_rel r \<lparr>rs_log = L, rs_hard = h\<rparr> e \<and> user_view m (kv_data e)"

lemma raft_keys [simp]: "prefix ''raft/'' (RaftMetaKey r n)" "prefix ''raft/'' (RaftLogKey r i)"
  "prefix ''raft/'' (log_prefix r)"
  by (simp_all add: RaftMetaKey_def RaftLogKey_def log_prefix_def)

lemma user_view_raft_key: "prefix ''raft/'' k \<Longrightarrow> user_view m (fmupd k v d) = user_view m d"
  by (auto simp: user_view_def)

lemma user_view_mutation:
  "user_view m d \<Longrightarrow> user_view (apply_mutation u m) (apply_mutation u d)"
  by (simp add: user_view_def apply_mutation_def)

lemma user_view_mutations:
  "user_view m d \<Longrightarrow> user_view (apply_mutations us m) (apply_mutations us d)"
  by (induction us arbitrary: m d) (simp_all add: user_view_mutation)

lemma engine_rel_parts:
  assumes "engine_rel r L h m e"
  shows "durable e" "kv_io e = []" "stored_log r L (kv_data e)" "\<forall>x \<in> set L. le_command x \<noteq> []"
    "hard_loads r h e" "user_view m (kv_data e)"
  using assms by (simp_all add: engine_rel_def storage_rel_def)

lemma engine_rel_hard:
  assumes "engine_rel r L h m e"
  obtains e' where "SaveHardState file_kv_ops r hs e = (Status_Ok, e')" and "engine_rel r L (Some hs) m e'"
proof -
  obtain e' where e': "storage_step r (OpHard hs) e = Some (Status_Ok, e')"
    "storage_rel r (spec_op (OpHard hs) \<lparr>rs_log = L, rs_hard = h\<rparr>) e'"
    using assms rel_hard unfolding engine_rel_def by metis
  moreover have "user_view m (kv_data (snd (SaveHardState file_kv_ops r hs e)))"
    using engine_rel_parts [OF assms]
    by (simp add: SaveHardState_def file_kv_ops_def WriteBatch_healthy user_view_raft_key)
  ultimately show thesis by (intro that) (simp_all add: engine_rel_def)
qed

lemma engine_rel_append:
  assumes "engine_rel r L h m e" and "log_from r 0 (L @ [x])" and "le_command x \<noteq> []"
  obtains e' where "AppendLog file_kv_ops x e = (Status_Ok, e')" and "engine_rel r (L @ [x]) h m e'"
proof -
  have r: "le_region_id x = r" using assms(2) by simp
  have "unat (le_index y) < unat (le_index x)" if "y \<in> set L" for y
    using that assms(2) log_from_nth [of r 0 L] by (auto simp: in_set_conv_nth)
  then have L: "upsert_log x L = L @ [x]"
    by (intro upsert_log_last) (simp add: word_less_nat_alt)
  obtain e' where e': "storage_step r (OpAppend x) e = Some (Status_Ok, e')"
    "storage_rel r (spec_op (OpAppend x) \<lparr>rs_log = L, rs_hard = h\<rparr>) e'"
    using assms(1,3) r rel_append unfolding engine_rel_def by metis
  moreover have "user_view m (kv_data (snd (AppendLog file_kv_ops x e)))"
    using engine_rel_parts [OF assms(1)]
    by (simp add: AppendLog_def file_kv_ops_def kv_Put_def WriteBatch_healthy user_view_raft_key)
  ultimately show thesis by (intro that) (simp_all add: engine_rel_def L)
qed

lemma user_keys_keep_raft:
  assumes "\<forall>u \<in> set us. user_key (mu_key u)" and "prefix ''raft/'' k"
  shows "fmlookup (apply_mutations us d) k = fmlookup d k"
  using assms(1)
proof (induction us arbitrary: d)
  case (Cons u us)
  then have "mu_key u \<noteq> k" using assms(2) by (auto simp: user_key_def)
  with Cons show ?case by (simp add: apply_mutation_def)
qed simp

lemma stored_log_cong:
  "(\<And>k. prefix (log_prefix r) k \<Longrightarrow> fmlookup d k = fmlookup d' k) \<Longrightarrow> stored_log r L d = stored_log r L d'"
  unfolding stored_log_iff by (simp cong: conj_cong)

lemma engine_rel_write:
  assumes "engine_rel r L h m e" and us: "\<forall>u \<in> set us. user_key (mu_key u)"
  obtains e' where "WriteBatch us e = (Status_Ok, e')" and "engine_rel r L h (apply_mutations us m) e'"
proof -
  note e = engine_rel_parts [OF assms(1)]
  let ?e = "snd (WriteBatch us e)"
  have w: "WriteBatch us e = (Status_Ok, ?e)" "kv_io ?e = []" "kv_data ?e = apply_mutations us (kv_data e)"
    using e(2) by (simp_all add: WriteBatch_healthy)
  have same: "fmlookup (kv_data ?e) k = fmlookup (kv_data e) k" if "prefix ''raft/'' k" for k
    using user_keys_keep_raft [OF us that] w(3) by simp
  have "stored_log r L (kv_data ?e) = stored_log r L (kv_data e)"
  proof (rule stored_log_cong)
    fix k
    assume "prefix (log_prefix r) k"
    with raft_keys(3) have "prefix ''raft/'' k" by (rule prefix_order.trans)
    then show "fmlookup (kv_data ?e) k = fmlookup (kv_data e) k" by (rule same)
  qed
  moreover have "LoadHardState file_kv_ops r ?e = LoadHardState file_kv_ops r e"
    by (rule file_kv.LoadHardState_cong) (rule same [OF raft_keys(1)])
  then have "hard_loads r h ?e = hard_loads r h e"
    by (rule hard_loads_cong)
  moreover have "durable ?e"
    using WriteBatch_durable [OF e(1,2)] us by (auto simp: user_key_def)
  moreover have "user_view (apply_mutations us m) (kv_data ?e)"
    using e(6) w(3) by (simp add: user_view_mutations)
  ultimately have "engine_rel r L h (apply_mutations us m) ?e"
    using e(3-5) w(2) by (simp add: engine_rel_def storage_rel_def)
  with w(1) show thesis by (rule that)
qed

section \<open>One store\<close>

text \<open>
  A store that is open on a healthy disk, with everything persisted: the node \<open>n\<close> of region
  \<open>r\<close> is well-formed, its log and hard state are on disk, and it holds the map \<open>m\<close>.
\<close>

definition store_rel :: "u64 \<Rightarrow> kv_map \<Rightarrow> SingleRegionStore \<Rightarrow> bool" where
  "store_rel r m s \<longleftrightarrow> sr_raft_storage s \<and> rn_region_id (sr_raft s) = r \<and> raft_wf (sr_raft s) \<and>
     engine_rel r (rn_log (sr_raft s)) (Some (hard_state_of (sr_raft s))) m (sr_engine s)"

text \<open>The hard state on disk may be older while an operation is running.\<close>

definition store_log_rel :: "u64 \<Rightarrow> kv_map \<Rightarrow> SingleRegionStore \<Rightarrow> bool" where
  "store_log_rel r m s \<longleftrightarrow> sr_raft_storage s \<and> rn_region_id (sr_raft s) = r \<and> raft_wf (sr_raft s) \<and>
     (\<exists>h. engine_rel r (rn_log (sr_raft s)) h m (sr_engine s))"

lemma store_rel_log: "store_rel r m s \<Longrightarrow> store_log_rel r m s"
  by (auto simp: store_rel_def store_log_rel_def)

lemma PersistHardState_rel:
  assumes "store_log_rel r m s"
  obtains e where "PersistHardState s = (Status_Ok, s\<lparr>sr_engine := e\<rparr>)"
    and "store_rel r m (s\<lparr>sr_engine := e\<rparr>)"
proof -
  obtain h where "engine_rel r (rn_log (sr_raft s)) h m (sr_engine s)"
    and s: "sr_raft_storage s" "rn_region_id (sr_raft s) = r" "raft_wf (sr_raft s)"
    using assms by (auto simp: store_log_rel_def)
  then obtain e where "SaveHardState file_kv_ops r (hard_state_of (sr_raft s)) (sr_engine s) = (Status_Ok, e)"
    and "engine_rel r (rn_log (sr_raft s)) (Some (hard_state_of (sr_raft s))) m e"
    using engine_rel_hard by metis
  with s that show thesis by (simp add: PersistHardState_def store_rel_def)
qed

lemma PersistLogEntry_rel:
  assumes "store_log_rel r m (s\<lparr>sr_raft := n\<rparr>)" and "raft_wf (sr_raft s)"
    and "rn_region_id (sr_raft s) = r" and "rn_log (sr_raft s) = rn_log n @ [x]" and "le_command x \<noteq> []"
  obtains e where "PersistLogEntry x s = (Status_Ok, s\<lparr>sr_engine := e\<rparr>)"
    and "store_log_rel r m (s\<lparr>sr_engine := e\<rparr>)"
proof -
  obtain h where h: "engine_rel r (rn_log n) h m (sr_engine s)" and s: "sr_raft_storage s"
    using assms by (auto simp: store_log_rel_def)
  have "log_from r 0 (rn_log n @ [x])" using assms(2-4) by (metis raft_wf_def)
  with h obtain e where "AppendLog file_kv_ops x (sr_engine s) = (Status_Ok, e)"
    and "engine_rel r (rn_log n @ [x]) h m e"
    using engine_rel_append assms(5) by metis
  with s assms that show thesis by (auto simp: PersistLogEntry_def store_log_rel_def)
qed

section \<open>Writing through a pointer and looping over the other stores\<close>

definition cluster_ids :: "SingleRegionStore list \<Rightarrow> bool" where
  "cluster_ids ss \<longleftrightarrow> distinct (map sr_peer_id ss) \<and> (\<forall>s \<in> set ss. rn_self_id (sr_raft s) = sr_peer_id s)"

lemma find_peer_Some: "find_peer p ss = Some s \<Longrightarrow> s \<in> set ss \<and> sr_peer_id s = p"
  by (auto simp: find_peer_def find_Some_iff)

lemma find_peer_exists: "p \<in> sr_peer_id ` set ss \<longleftrightarrow> (\<exists>s. find_peer p ss = Some s)"
proof -
  have "find_peer p ss = None \<longleftrightarrow> p \<notin> sr_peer_id ` set ss"
    by (auto simp: find_peer_def find_None_iff)
  then show ?thesis by (cases "find_peer p ss") auto
qed

lemma find_peer_unique:
  "distinct (map sr_peer_id ss) \<Longrightarrow> s \<in> set ss \<Longrightarrow> find_peer (sr_peer_id s) ss = Some s"
  by (induction ss) (auto simp: find_peer_def)

lemma write_peer_map:
  "distinct (map sr_peer_id ss) \<Longrightarrow> write_peer p s' ss = map (\<lambda>s. if sr_peer_id s = p then s' else s) ss"
proof (induction ss)
  case (Cons s ss)
  then have "sr_peer_id s = p \<Longrightarrow> map (\<lambda>s. if sr_peer_id s = p then s' else s) ss = ss"
    by (intro map_idI) (auto simp: image_iff)
  with Cons show ?case by (cases "sr_peer_id s = p") (simp_all only: write_peer.simps list.map if_True if_False, simp_all)
qed simp

lemma write_peer_all2:
  assumes "find_peer p ss = Some s" and "Q s s'" and "\<And>s. Q s s"
  shows "list_all2 Q ss (write_peer p s' ss)"
  using assms(1)
proof (induction ss)
  case (Cons a ss)
  then show ?case
    using assms(2,3) by (auto simp: find_peer_def list_all2_refl)
qed (simp add: find_peer_def)

lemma find_peer_write: "sr_peer_id s' = p \<Longrightarrow> find_peer p ss = Some s \<Longrightarrow> find_peer p (write_peer p s' ss) = Some s'"
  by (induction ss) (auto simp: find_peer_def)

lemma for_others_all2:
  assumes "for_others p body ss = Some (st, n, ss')"
    and "\<And>s st b s'. sr_peer_id s \<noteq> p \<Longrightarrow> body s = Some (st, b, s') \<Longrightarrow> Q s s'" and "\<And>s. Q s s"
  shows "list_all2 Q ss ss'"
  using assms(1)
proof (induction ss arbitrary: n ss')
  case (Cons a ss)
  then show ?case
    using assms(2) [of a] assms(3)
    by (auto simp: list_all2_refl split: if_splits option.splits)
qed simp

lemma for_others_count:
  assumes "for_others p body ss = Some (st, n, ss')" and "ok st"
    and "\<And>s st s'. sr_peer_id s \<noteq> p \<Longrightarrow> body s = Some (st, True, s') \<Longrightarrow> P s'"
  shows "n \<le> length (filter P ss')"
  using assms(1)
proof (induction ss arbitrary: n ss')
  case (Cons a ss)
  show ?case
  proof (cases "sr_peer_id a = p")
    case True
    with Cons show ?thesis by (auto intro: le_SucI)
  next
    case False
    then obtain st' b a' n' ss'' where step: "body a = Some (st', b, a')" "ok st'"
      "for_others p body ss = Some (st, n', ss'')" "n = (if b then 1 else 0) + n'" "ss' = a' # ss''"
      using Cons.prems assms(2) by (auto split: option.splits if_splits)
    moreover have "n' \<le> length (filter P ss'')" using Cons.IH step(3) .
    ultimately show ?thesis using assms(3) [OF False, of st' a'] by auto
  qed
qed simp

lemma for_others_find:
  assumes "for_others p body ss = Some (st, n, ss')"
    and "\<And>s st b s'. body s = Some (st, b, s') \<Longrightarrow> sr_peer_id s' = sr_peer_id s"
  shows "find_peer p ss' = find_peer p ss"
  using assms(1)
proof (induction ss arbitrary: n ss')
  case (Cons a ss)
  then show ?case
    using assms(2) [of a] by (auto simp: find_peer_def split: if_splits option.splits)
qed simp

text \<open>When every call succeeds, the loop runs to its end and counts all of them.\<close>

lemma for_others_ok:
  assumes "\<And>s. s \<in> set ss \<Longrightarrow> sr_peer_id s \<noteq> p \<Longrightarrow> \<exists>s'. body s = Some (Status_Ok, True, s') \<and> Q s s'"
  shows "\<exists>ss'. for_others p body ss = Some (Status_Ok, length (filter (\<lambda>s. sr_peer_id s \<noteq> p) ss), ss') \<and>
     list_all2 (\<lambda>s s'. if sr_peer_id s = p then s' = s else Q s s') ss ss'"
  using assms
proof (induction ss)
  case (Cons a ss)
  then obtain ss' where "for_others p body ss = Some (Status_Ok, length (filter (\<lambda>s. sr_peer_id s \<noteq> p) ss), ss')"
    and "list_all2 (\<lambda>s s'. if sr_peer_id s = p then s' = s else Q s s') ss ss'"
    by auto
  moreover from Cons.prems [of a] have "sr_peer_id a \<noteq> p \<Longrightarrow> \<exists>s'. body a = Some (Status_Ok, True, s') \<and> Q a s'"
    by simp
  ultimately show ?case by (cases "sr_peer_id a = p") (auto split del: if_split)
qed simp

section \<open>Elections\<close>

definition votes_for :: "u64 \<Rightarrow> u64 \<Rightarrow> SingleRegionStore list \<Rightarrow> nat" where
  "votes_for t p ss =
     length (filter (\<lambda>s. rn_current_term (sr_raft s) = t \<and> rn_voted_for (sr_raft s) = Some p) ss)"

text \<open>
  The stores keep their places and peer ids; each node makes public calls only and may be
  restarted from a hard state that is not older than its own.
\<close>

definition node_steps :: "SingleRegionStore list \<Rightarrow> SingleRegionStore list \<Rightarrow> bool" where
  "node_steps ss ss' \<longleftrightarrow>
     list_all2 (\<lambda>s s'. sr_peer_id s' = sr_peer_id s \<and> raft_step\<^sup>*\<^sup>* (sr_raft s) (sr_raft s')) ss ss'"

lemma PersistHardState_frame:
  assumes "PersistHardState s = (st, s')"
  shows "sr_raft s' = sr_raft s" "sr_peer_id s' = sr_peer_id s" "sr_store_id s' = sr_store_id s"
  using assms by (auto simp: PersistHardState_def split: if_splits prod.splits)

lemma raft_step_self_id: "raft_step n n' \<Longrightarrow> rn_self_id n' = rn_self_id n"
proof (induction rule: raft_step.induct)
  case (append_entries n r resp n')
  then show ?case
    by (auto simp: HandleAppendEntries_def Let_def dest!: append_entries_loop_frame
        split: if_splits option.splits bool.splits)
next
  case (take_committed n es n')
  then show ?case
  proof (induction n arbitrary: es rule: TakeCommittedEntries.induct)
    case (1 n)
    then show ?case by (auto simp: TakeCommittedEntries.simps [of n] Let_def split: if_splits)
  qed
next
  case (restore t v n c a log status n')
  then show ?case using raft_Restore_result [OF restore(2)] by auto
next
  case (restart t v n c a log peers n')
  then show ?case using raft_Restore_ok [OF restart(2)] by (simp add: RaftNode_new_def)
qed (auto simp: BecomeLeader_def BecomeCandidate_def SetCommitIndex_def Propose_def Let_def
      HandleRequestVote_frame split: if_splits)

lemma raft_steps_self_id: "raft_step\<^sup>*\<^sup>* n n' \<Longrightarrow> rn_self_id n' = rn_self_id n"
  by (induction rule: rtranclp_induct) (auto dest: raft_step_self_id)

lemma list_all2_in_set: "list_all2 P xs ys \<Longrightarrow> y \<in> set ys \<Longrightarrow> \<exists>x \<in> set xs. P x y"
  by (induction rule: list_all2_induct) auto

lemma node_steps_refl [simp]: "node_steps ss ss"
  by (simp add: node_steps_def list_all2_refl)

lemma node_steps_trans:
  assumes "node_steps ss ss'" and "node_steps ss' ss''"
  shows "node_steps ss ss''"
  unfolding node_steps_def
  by (rule list_all2_trans [OF _ assms [unfolded node_steps_def]]) (auto intro: rtranclp_trans)

lemma node_steps_peers: "node_steps ss ss' \<Longrightarrow> map sr_peer_id ss' = map sr_peer_id ss"
  unfolding node_steps_def by (induction rule: list_all2_induct) simp_all

lemma node_steps_ids: "node_steps ss ss' \<Longrightarrow> cluster_ids ss \<Longrightarrow> cluster_ids ss'"
proof -
  assume st: "node_steps ss ss'" and ids: "cluster_ids ss"
  have "rn_self_id (sr_raft s') = sr_peer_id s'" if s': "s' \<in> set ss'" for s'
  proof -
    obtain s where "s \<in> set ss" and "sr_peer_id s' = sr_peer_id s" and "raft_step\<^sup>*\<^sup>* (sr_raft s) (sr_raft s')"
      using list_all2_in_set [OF st [unfolded node_steps_def] s'] by blast
    then show ?thesis using ids raft_steps_self_id by (simp add: cluster_ids_def)
  qed
  then show ?thesis using ids node_steps_peers [OF st] by (simp add: cluster_ids_def)
qed

lemma vote_granted_recorded:
  assumes "HandleRequestVote r n = (resp, n')" and "rvr_vote_granted resp"
  shows "rn_current_term n' = rv_term r \<and> rn_voted_for n' = Some (rv_candidate_id r)"
  using assms by (auto simp: HandleRequestVote_def Let_def split: if_splits)

lemma vote_body_frame:
  assumes "vote_body r s = Some (st, b, s')"
  shows "sr_peer_id s' = sr_peer_id s" and "raft_step\<^sup>*\<^sup>* (sr_raft s) (sr_raft s')"
    and "b \<Longrightarrow> rn_current_term (sr_raft s') = rv_term r \<and> rn_voted_for (sr_raft s') = Some (rv_candidate_id r)"
proof -
  obtain resp n where n: "HandleRequestVote r (sr_raft s) = (resp, n)" by fastforce
  then have p: "PersistHardState (s\<lparr>sr_raft := n\<rparr>) = (st, s')" and b: "b = rvr_vote_granted resp"
    using assms by (auto simp: vote_body_def Let_def split: prod.splits)
  from PersistHardState_frame [OF p] n b
  show "sr_peer_id s' = sr_peer_id s" and "raft_step\<^sup>*\<^sup>* (sr_raft s) (sr_raft s')"
    and "b \<Longrightarrow> rn_current_term (sr_raft s') = rv_term r \<and> rn_voted_for (sr_raft s') = Some (rv_candidate_id r)"
    by (auto dest: raft_step.request_vote vote_granted_recorded)
qed

text \<open>What \<open>ElectLeader\<close> did when it returns ok.\<close>

lemma ElectLeader_ok:
  assumes "ElectLeader p c = Some (st, c')" and "ok st" and ids: "cluster_ids (sc_stores c)"
  obtains s0 elected request st2 votes stores leader where
    "find_peer p (sc_stores c) = Some s0"
    and "snd (PersistHardState (s0\<lparr>sr_raft := BecomeCandidate (sr_raft s0)\<rparr>)) = elected"
    and "rv_candidate_id request = p" and "rv_term request = rn_current_term (sr_raft elected)"
    and "for_others p (vote_body request) (write_peer p elected (sc_stores c)) = Some (st2, votes, stores)"
    and "ok st2" and "length stores < 2 * (1 + votes)"
    and "snd (PersistHardState (elected\<lparr>sr_raft := BecomeLeader (sr_raft elected)\<rparr>)) = leader"
    and "sc_stores c' = write_peer p leader stores" and "sc_leader_peer_id c' = p"
proof -
  obtain s0 where s0: "find_peer p (sc_stores c) = Some s0"
    using assms(1,2) by (cases "find_peer p (sc_stores c)") (auto simp: ElectLeader_def)
  obtain st1 elected where el: "PersistHardState (s0\<lparr>sr_raft := BecomeCandidate (sr_raft s0)\<rparr>) = (st1, elected)"
    by fastforce
  define request where "request =
    \<lparr>rv_region_id = sc_region_id c, rv_term = rn_current_term (sr_raft elected),
     rv_candidate_id = p, rv_last_log_index = last_log_index (sr_raft elected),
     rv_last_log_term = last_log_term (sr_raft elected)\<rparr>"
  obtain st3 leader where ld: "PersistHardState (elected\<lparr>sr_raft := BecomeLeader (sr_raft elected)\<rparr>) = (st3, leader)"
    by fastforce
  note step = assms(1) [unfolded ElectLeader_def s0 option.case Let_def el prod.case]
  have st1: "ok st1" using step assms(2) by (auto split: if_splits)
  then obtain st2 votes stores where
    fo: "for_others p (vote_body request) (write_peer p elected (sc_stores c)) = Some (st2, votes, stores)"
    using step by (auto simp: request_def split: option.splits)
  show thesis
    using step st1 fo assms(2) ld
    by (intro that [OF s0, of elected request st2 votes stores leader])
      (auto simp: el request_def not_le div_less_iff_less_mult split: if_splits)
qed

lemma elected_steps:
  assumes "snd (PersistHardState (s0\<lparr>sr_raft := BecomeCandidate (sr_raft s0)\<rparr>)) = elected"
    and "rn_current_term (sr_raft s0) \<noteq> - 1"
  shows "raft_step\<^sup>*\<^sup>* (sr_raft s0) (sr_raft elected)"
  using assms PersistHardState_frame(1) [OF surjective_pairing] raft_step.candidate by fastforce

lemma ElectLeader_ok_steps:
  assumes "ElectLeader p c = Some (st, c')" and "ok st" and ids: "cluster_ids (sc_stores c)"
    and "\<And>s. find_peer p (sc_stores c) = Some s \<Longrightarrow> rn_current_term (sr_raft s) \<noteq> - 1"
  shows "node_steps (sc_stores c) (sc_stores c')"
proof -
  obtain s0 elected request st2 votes stores leader where
    s0: "find_peer p (sc_stores c) = Some s0"
    and el: "snd (PersistHardState (s0\<lparr>sr_raft := BecomeCandidate (sr_raft s0)\<rparr>)) = elected"
    and fo: "for_others p (vote_body request) (write_peer p elected (sc_stores c)) = Some (st2, votes, stores)"
    and ld: "snd (PersistHardState (elected\<lparr>sr_raft := BecomeLeader (sr_raft elected)\<rparr>)) = leader"
    and c': "sc_stores c' = write_peer p leader stores"
    using ElectLeader_ok [OF assms(1-3)] by metis
  have p: "sr_peer_id s0 = p" "sr_peer_id elected = p" "sr_peer_id leader = p"
    "sr_raft leader = BecomeLeader (sr_raft elected)"
    using find_peer_Some [OF s0] PersistHardState_frame [OF surjective_pairing] el ld by force+
  have 1: "node_steps (sc_stores c) (write_peer p elected (sc_stores c))"
    unfolding node_steps_def using elected_steps [OF el assms(4) [OF s0]] p
    by (intro write_peer_all2 [OF s0]) auto
  have 2: "node_steps (write_peer p elected (sc_stores c)) stores"
    unfolding node_steps_def by (rule for_others_all2 [OF fo]) (auto dest: vote_body_frame)
  have "find_peer p stores = Some elected"
    using for_others_find [OF fo vote_body_frame(1)] find_peer_write [OF p(2) s0] by simp
  then have "node_steps stores (write_peer p leader stores)"
    unfolding node_steps_def using p by (intro write_peer_all2) (auto intro: raft_step.leader)
  with 1 2 c' show ?thesis by (metis node_steps_trans)
qed

lemma count_write_peer:
  assumes "find_peer p ss = Some s" and "P s'"
  shows "Suc (length (filter (\<lambda>s. P s \<and> sr_peer_id s \<noteq> p) ss)) \<le> length (filter P (write_peer p s' ss))"
  using assms(1)
proof (induction ss)
  case (Cons a ss)
  have "length (filter (\<lambda>s. P s \<and> sr_peer_id s \<noteq> p) ss) \<le> length (filter P ss)"
    by (induction ss) auto
  with Cons assms(2) show ?case by (auto simp: find_peer_def)
qed (simp add: find_peer_def)

text \<open>
  A successful election leaves a majority of the stores with a vote for the new leader in its
  term: the candidate itself and every store that was counted.
\<close>

lemma ElectLeader_votes:
  assumes "ElectLeader p c = Some (st, c')" and "ok st" and ids: "cluster_ids (sc_stores c)"
  obtains l s0 where "Leader c' = Some l" and "sr_peer_id l = p" and "rn_role (sr_raft l) = kLeader"
    and "find_peer p (sc_stores c) = Some s0" and "rn_current_term (sr_raft l) = rn_current_term (sr_raft s0) + 1"
    and "length (sc_stores c') < 2 * votes_for (rn_current_term (sr_raft l)) p (sc_stores c')"
    and "rn_voted_for (sr_raft l) = Some p"
proof -
  obtain s0 elected request st2 votes stores leader where
    s0: "find_peer p (sc_stores c) = Some s0"
    and el: "snd (PersistHardState (s0\<lparr>sr_raft := BecomeCandidate (sr_raft s0)\<rparr>)) = elected"
    and rq: "rv_candidate_id request = p" "rv_term request = rn_current_term (sr_raft elected)"
    and fo: "for_others p (vote_body request) (write_peer p elected (sc_stores c)) = Some (st2, votes, stores)"
    and st2: "ok st2" and maj: "length stores < 2 * (1 + votes)"
    and ld: "snd (PersistHardState (elected\<lparr>sr_raft := BecomeLeader (sr_raft elected)\<rparr>)) = leader"
    and c': "sc_stores c' = write_peer p leader stores" "sc_leader_peer_id c' = p"
    using ElectLeader_ok [OF assms] by metis
  have p: "sr_peer_id s0 = p" "s0 \<in> set (sc_stores c)" "sr_peer_id elected = p" "sr_peer_id leader = p"
    "sr_raft leader = BecomeLeader (sr_raft elected)" "sr_raft elected = BecomeCandidate (sr_raft s0)"
    using find_peer_Some [OF s0] PersistHardState_frame [OF surjective_pairing] el ld by force+
  let ?t = "rn_current_term (sr_raft leader)"
  let ?V = "\<lambda>s. rn_current_term (sr_raft s) = ?t \<and> rn_voted_for (sr_raft s) = Some p"
  have ev: "?V leader" "?V elected"
    using p ids by (auto simp: BecomeLeader_def BecomeCandidate_def cluster_ids_def)
  have fe: "find_peer p stores = Some elected"
    using for_others_find [OF fo vote_body_frame(1)] find_peer_write [OF p(3) s0] by simp
  have "votes \<le> length (filter (\<lambda>s. ?V s \<and> sr_peer_id s \<noteq> p) stores)"
    using p rq vote_body_frame
    by (intro for_others_count [OF fo st2]) (auto simp: BecomeLeader_def)
  then have "length stores < 2 * length (filter ?V (write_peer p leader stores))"
    using count_write_peer [OF fe, of ?V, OF ev(1)] by (intro order.strict_trans2 [OF maj]) simp
  moreover have "length (write_peer p leader stores) = length stores"
    using write_peer_all2 [OF fe, of "\<lambda>_ _. True"] by (metis list_all2_lengthD)
  moreover have "Leader c' = Some leader"
    using c' find_peer_write [OF p(4) fe] by (simp add: Leader_def)
  ultimately show thesis
    using p c' s0 that ev(1) by (simp add: votes_for_def BecomeLeader_def BecomeCandidate_def)
qed

lemma raft_steps_term: "raft_step\<^sup>*\<^sup>* n n' \<Longrightarrow> rn_current_term n \<le> rn_current_term n'"
  by (induction rule: rtranclp_induct) (auto dest: raft_step_term)

lemma node_steps_find:
  assumes "node_steps ss ss'" and "find_peer p ss = Some s"
  shows "\<exists>s'. find_peer p ss' = Some s' \<and> raft_step\<^sup>*\<^sup>* (sr_raft s) (sr_raft s')"
  using assms unfolding node_steps_def
  by (induction rule: list_all2_induct) (auto simp: find_peer_def split: if_splits)

text \<open>
  Two majorities of the same stores intersect, and a store never goes back in term nor changes
  its vote of a term.
\<close>

lemma votes_intersect:
  assumes "node_steps ss ss'" and "length ss < 2 * votes_for t p ss" and "length ss' < 2 * votes_for u q ss'"
  shows "t \<le> u" and "t = u \<Longrightarrow> p = q"
proof -
  let ?V = "\<lambda>t p s. rn_current_term (sr_raft s) = t \<and> rn_voted_for (sr_raft s) = Some p"
  let ?A = "{i. i < length ss \<and> ?V t p (ss ! i)}" and ?B = "{i. i < length ss' \<and> ?V u q (ss' ! i)}"
  have len: "length ss' = length ss"
    using assms(1) by (auto simp: node_steps_def dest: list_all2_lengthD)
  have "card ?A = votes_for t p ss" "card ?B = votes_for u q ss'"
    by (simp_all add: votes_for_def length_filter_conv_card)
  then have "length ss < card ?A + card ?B" using assms(2,3) len by linarith
  moreover have "card (?A \<union> ?B) \<le> length ss"
    using card_mono [of "{..<length ss}" "?A \<union> ?B"] len by auto
  ultimately have "?A \<inter> ?B \<noteq> {}"
    using card_Un_disjoint [of ?A ?B] by fastforce
  then obtain i where i: "i < length ss" "?V t p (ss ! i)" "?V u q (ss' ! i)" by auto
  then have steps: "raft_step\<^sup>*\<^sup>* (sr_raft (ss ! i)) (sr_raft (ss' ! i))"
    using assms(1) by (auto simp: node_steps_def dest: list_all2_nthD)
  then show "t \<le> u" using raft_steps_term i by blast
  have "voted_in t p (sr_raft (ss' ! i))"
    using steps by (rule vote.steps_invar) (use i in \<open>simp add: voted_in_def\<close>)
  with i(3) show "t = u \<Longrightarrow> p = q" by (simp add: voted_in_def)
qed

section \<open>Stores in agreement\<close>

text \<open>
  A store whose node is in term \<open>t\<close> with log \<open>L\<close>, commit index \<open>c\<close> and applied index \<open>a\<close>,
  whose log is on disk and whose data is \<open>m\<close>.
\<close>

definition store_at ::
  "u64 \<Rightarrow> u64 \<Rightarrow> LogEntry list \<Rightarrow> nat \<Rightarrow> nat \<Rightarrow> kv_map \<Rightarrow> SingleRegionStore \<Rightarrow> bool" where
  "store_at r t L c a m s \<longleftrightarrow> store_log_rel r m s \<and> rn_current_term (sr_raft s) = t \<and>
     rn_log (sr_raft s) = L \<and> unat (rn_commit_index (sr_raft s)) = c \<and>
     unat (rn_last_applied (sr_raft s)) = a"

definition same_ids :: "SingleRegionStore \<Rightarrow> SingleRegionStore \<Rightarrow> bool" where
  "same_ids s s' \<longleftrightarrow> sr_peer_id s' = sr_peer_id s \<and> sr_store_id s' = sr_store_id s"

lemma store_at_raft:
  assumes "store_at r t L c a m s" and "rn_region_id n = r" and "rn_current_term n = t'" and "rn_log n = L"
    and "unat (rn_commit_index n) = c'" and "unat (rn_last_applied n) = a'" and "a' \<le> c'" and "c' \<le> length L"
  shows "store_at r t' L c' a' m (s\<lparr>sr_raft := n\<rparr>)"
  using assms by (auto simp: store_at_def store_log_rel_def raft_wf_alt)

lemma store_at_bounds:
  assumes "store_at r t L c a m s"
  shows "a \<le> c" "c \<le> length L" "log_from r 0 L" "rn_region_id (sr_raft s) = r"
    "unat (last_log_index (sr_raft s)) = length L"
  using assms unat_last_log_index [of r "sr_raft s"] by (auto simp: store_at_def store_log_rel_def raft_wf_alt)

lemma store_at_persist:
  assumes "store_at r t L c a m s"
  obtains e where "PersistHardState s = (Status_Ok, s\<lparr>sr_engine := e\<rparr>)"
    and "store_at r t L c a m (s\<lparr>sr_engine := e\<rparr>)" and "store_rel r m (s\<lparr>sr_engine := e\<rparr>)"
proof -
  obtain e where "PersistHardState s = (Status_Ok, s\<lparr>sr_engine := e\<rparr>)" "store_rel r m (s\<lparr>sr_engine := e\<rparr>)"
    using PersistHardState_rel assms by (metis store_at_def)
  with assms show thesis by (intro that) (auto simp: store_at_def dest: store_rel_log)
qed

lemma last_log_cong: "rn_log n = rn_log n' \<Longrightarrow> last_log_index n = last_log_index n' \<and> last_log_term n = last_log_term n'"
  by (simp add: last_log_index_def last_log_term_def)

lemma last_log_term_follower [simp]: "last_log_term (BecomeFollower t n) = last_log_term n"
  by (simp add: last_log_term_def)

lemma vote_body_sync:
  assumes s: "store_at r t L (length L) (length L) m s" and t: "t < rv_term q"
    and q: "rv_last_log_index q = last_log_index (sr_raft s)" "rv_last_log_term q = last_log_term (sr_raft s)"
  shows "\<exists>s'. vote_body q s = Some (Status_Ok, True, s') \<and> same_ids s s' \<and>
     store_at r (rv_term q) L (length L) (length L) m s' \<and> store_rel r m s'"
proof -
  define n where "n = (BecomeFollower (rv_term q) (sr_raft s))\<lparr>rn_voted_for := Some (rv_candidate_id q)\<rparr>"
  have "rn_current_term (sr_raft s) = t" using s by (simp add: store_at_def)
  then have vote: "HandleRequestVote q (sr_raft s) = (\<lparr>rvr_term = rv_term q, rvr_vote_granted = True\<rparr>, n)"
    using t q by (auto simp: HandleRequestVote_def Let_def n_def BecomeFollower_vote IsCandidateLogUpToDate_def
        max_def)
  have "store_at r (rv_term q) L (length L) (length L) m (s\<lparr>sr_raft := n\<rparr>)"
    using s t by (intro store_at_raft [OF s]) (auto simp: n_def store_at_def store_at_bounds max_def)
  then obtain e where "PersistHardState (s\<lparr>sr_raft := n\<rparr>) = (Status_Ok, s\<lparr>sr_raft := n, sr_engine := e\<rparr>)"
    "store_at r (rv_term q) L (length L) (length L) m (s\<lparr>sr_raft := n, sr_engine := e\<rparr>)"
    "store_rel r m (s\<lparr>sr_raft := n, sr_engine := e\<rparr>)"
    using store_at_persist by metis
  with vote show ?thesis by (simp add: vote_body_def same_ids_def)
qed

text \<open>A cluster whose stores all agree, and the election of one of its peers.\<close>

definition synced :: "u64 \<Rightarrow> u64 \<Rightarrow> LogEntry list \<Rightarrow> kv_map \<Rightarrow> SingleRegionStore list \<Rightarrow> bool" where
  "synced r t L m ss \<longleftrightarrow> distinct (map sr_peer_id ss) \<and>
     (\<forall>s \<in> set ss. store_at r t L (length L) (length L) m s)"

definition led_by :: "u64 \<Rightarrow> SingleRegionStore list \<Rightarrow> bool" where
  "led_by p ss \<longleftrightarrow> (\<exists>l. find_peer p ss = Some l \<and> rn_role (sr_raft l) = kLeader)"

lemma same_ids_map:
  "list_all2 (\<lambda>s s'. same_ids s s' \<and> Q s s') ss ss' \<Longrightarrow>
     map sr_peer_id ss' = map sr_peer_id ss \<and> map sr_store_id ss' = map sr_store_id ss"
  by (induction rule: list_all2_induct) (simp_all add: same_ids_def)

lemma length_others:
  "distinct (map sr_peer_id ss) \<Longrightarrow> find_peer p ss = Some s \<Longrightarrow>
     Suc (length (filter (\<lambda>s. sr_peer_id s \<noteq> p) ss)) = length ss"
proof (induction ss)
  case (Cons a ss)
  have "sr_peer_id a = p \<Longrightarrow> filter (\<lambda>s. sr_peer_id s \<noteq> p) ss = ss"
    using Cons.prems(1) by (intro filter_True) (auto simp: image_iff)
  with Cons show ?case by (auto simp: find_peer_def split: if_splits)
qed (simp add: find_peer_def)

lemma write_peer_ids:
  assumes "find_peer p ss = Some s" and "same_ids s s'"
  shows "map sr_peer_id (write_peer p s' ss) = map sr_peer_id ss"
    and "map sr_store_id (write_peer p s' ss) = map sr_store_id ss"
  using assms by (induction ss) (auto simp: find_peer_def same_ids_def split: if_splits)

lemma others_then_write:
  assumes d: "distinct (map sr_peer_id ss)" and s0: "find_peer p ss = Some s0"
    and s1: "same_ids s0 s1" and s2: "same_ids s0 s2" "Q s2"
    and st: "list_all2 (\<lambda>s s'. if sr_peer_id s = p then s' = s else same_ids s s' \<and> Q s') (write_peer p s1 ss) stores"
  shows "find_peer p stores = Some s1" and "find_peer p (write_peer p s2 stores) = Some s2"
    and "map sr_peer_id (write_peer p s2 stores) = map sr_peer_id ss"
    and "map sr_store_id (write_peer p s2 stores) = map sr_store_id ss"
    and "\<forall>s \<in> set (write_peer p s2 stores). Q s" and "length stores = length ss"
proof -
  have p: "s0 \<in> set ss" "sr_peer_id s0 = p" "sr_peer_id s1 = p" "sr_peer_id s2 = p"
    using find_peer_Some [OF s0] s1 s2 by (auto simp: same_ids_def)
  note w = write_peer_ids [OF s0 s1]
  have "list_all2 (\<lambda>s s'. same_ids s s' \<and> True) (write_peer p s1 ss) stores"
    using st by (rule list_all2_mono) (auto simp: same_ids_def split: if_splits)
  from same_ids_map [OF this] w
  have ids: "map sr_peer_id stores = map sr_peer_id ss" "map sr_store_id stores = map sr_store_id ss"
    by simp_all
  then have ds: "distinct (map sr_peer_id stores)" using d by simp
  have "s1 \<in> set (write_peer p s1 ss)" using d p by (force simp: write_peer_map)
  then have "s1 \<in> set stores"
    using st p(3) by (force simp: list_all2_conv_all_nth in_set_conv_nth)
  then show f1: "find_peer p stores = Some s1" using find_peer_unique [OF ds] p(3) by blast
  then show "find_peer p (write_peer p s2 stores) = Some s2" using p(4) by (rule_tac find_peer_write)
  have "same_ids s1 s2" using s1 s2 by (simp add: same_ids_def)
  then show "map sr_peer_id (write_peer p s2 stores) = map sr_peer_id ss"
    and "map sr_store_id (write_peer p s2 stores) = map sr_store_id ss"
    using write_peer_ids [OF f1] ids by simp_all
  show "\<forall>s \<in> set (write_peer p s2 stores). Q s"
    using s2(2) list_all2_in_set [OF st]
    by (fastforce simp: write_peer_map [OF ds] same_ids_def split: if_splits)
  show "length stores = length ss" using ids by (metis length_map)
qed

lemma ElectLeader_synced:
  assumes sy: "synced r t L m (sc_stores c)" and p: "p \<in> sr_peer_id ` set (sc_stores c)" and t: "t \<noteq> - 1"
  obtains ss where "ElectLeader p c = Some (Status_Ok, c\<lparr>sc_stores := ss, sc_leader_peer_id := p\<rparr>)"
    and "synced r (t + 1) L m ss" and "led_by p ss" and "\<forall>s \<in> set ss. store_rel r m s"
    and "map sr_peer_id ss = map sr_peer_id (sc_stores c)"
    and "map sr_store_id ss = map sr_store_id (sc_stores c)"
proof -
  let ?ss = "sc_stores c" and ?at = "\<lambda>t. store_at r t L (length L) (length L) m"
  have d: "distinct (map sr_peer_id ?ss)" and all: "\<And>s. s \<in> set ?ss \<Longrightarrow> ?at t s"
    using sy by (auto simp: synced_def)
  obtain s0 where s0: "find_peer p ?ss = Some s0" using p find_peer_exists by blast
  note s0' = find_peer_Some [OF s0]
  let ?n = "BecomeCandidate (sr_raft s0)"
  have "?at (t + 1) (s0\<lparr>sr_raft := ?n\<rparr>)"
    using all [of s0] s0' store_at_bounds [OF all]
    by (intro store_at_raft [OF all]) (auto simp: BecomeCandidate_def store_at_def)
  then obtain e where el: "PersistHardState (s0\<lparr>sr_raft := ?n\<rparr>) = (Status_Ok, s0\<lparr>sr_raft := ?n, sr_engine := e\<rparr>)"
    and at1: "?at (t + 1) (s0\<lparr>sr_raft := ?n, sr_engine := e\<rparr>)"
    using store_at_persist by metis
  define s1 where "s1 = s0\<lparr>sr_raft := ?n, sr_engine := e\<rparr>"
  define q where "q = \<lparr>rv_region_id = sc_region_id c, rv_term = rn_current_term (sr_raft s1),
      rv_candidate_id = p, rv_last_log_index = last_log_index (sr_raft s1),
      rv_last_log_term = last_log_term (sr_raft s1)\<rparr>"
  have q: "rv_term q = t + 1" using at1 by (simp add: q_def s1_def store_at_def)
  have "\<exists>s'. vote_body q s = Some (Status_Ok, True, s') \<and>
      (same_ids s s' \<and> ?at (t + 1) s' \<and> store_rel r m s')"
    if "s \<in> set (write_peer p s1 ?ss)" "sr_peer_id s \<noteq> p" for s
  proof -
    have "s \<in> set ?ss" using that d s0' by (auto simp: write_peer_map s1_def split: if_splits)
    then have "?at t s" by (rule all)
    moreover from this have "rn_log (sr_raft s1) = rn_log (sr_raft s)" using at1 by (simp add: store_at_def s1_def)
    ultimately have "\<exists>s'. vote_body q s = Some (Status_Ok, True, s') \<and> same_ids s s' \<and>
        ?at (rv_term q) s' \<and> store_rel r m s'"
      using word_less_succ [OF t] last_log_cong [of "sr_raft s1" "sr_raft s"] q
      by (intro vote_body_sync [of r t]) (simp_all add: q_def)
    then show ?thesis by (simp add: q)
  qed
  from for_others_ok [of "write_peer p s1 ?ss" p "vote_body q", OF this] obtain stores where
    fo: "for_others p (vote_body q) (write_peer p s1 ?ss) =
      Some (Status_Ok, length (filter (\<lambda>s. sr_peer_id s \<noteq> p) (write_peer p s1 ?ss)), stores)"
    and st: "list_all2 (\<lambda>s s'. if sr_peer_id s = p then s' = s
      else same_ids s s' \<and> ?at (t + 1) s' \<and> store_rel r m s') (write_peer p s1 ?ss) stores"
    by blast
  have "?at (t + 1) (s1\<lparr>sr_raft := BecomeLeader (sr_raft s1)\<rparr>)"
    using at1 store_at_bounds [OF at1] unfolding s1_def
    by (intro store_at_raft [OF at1]) (auto simp: BecomeLeader_def store_at_def)
  then obtain s2 where s2: "PersistHardState (s1\<lparr>sr_raft := BecomeLeader (sr_raft s1)\<rparr>) = (Status_Ok, s2)"
    "?at (t + 1) s2" "store_rel r m s2"
    using store_at_persist by metis
  have ids: "same_ids s0 s1" "same_ids s0 s2" "rn_role (sr_raft s2) = kLeader"
    using PersistHardState_frame [OF s2(1)] by (auto simp: same_ids_def s1_def BecomeLeader_def)
  note fin = others_then_write [OF d s0 ids(1,2), of "\<lambda>s. ?at (t + 1) s \<and> store_rel r m s", OF _ st] s2
  have "distinct (map sr_peer_id (write_peer p s1 ?ss))" "find_peer p (write_peer p s1 ?ss) = Some s1"
    using write_peer_ids [OF s0 ids(1)] find_peer_write [OF _ s0, of s1] d s0' ids(1) by (auto simp: same_ids_def)
  then have "Suc (length (filter (\<lambda>s. sr_peer_id s \<noteq> p) (write_peer p s1 ?ss))) = length stores"
    using length_others list_all2_lengthD [OF st] by metis
  then have "ElectLeader p c = Some (Status_Ok, c\<lparr>sc_stores := write_peer p s2 stores, sc_leader_peer_id := p\<rparr>)"
    using s0 el fo s2(1) by (simp add: ElectLeader_def s1_def [symmetric] q_def [symmetric] Let_def)
  moreover have "synced r (t + 1) L m (write_peer p s2 stores)"
    using fin d by (simp add: synced_def)
  moreover have "led_by p (write_peer p s2 stores)"
    using fin ids(3) by (simp add: led_by_def)
  ultimately show thesis using that fin by simp
qed

section \<open>Opening a store\<close>

lemma engine_rel_cong:
  assumes "engine_rel r L h m e" and "kv_disk e' = kv_disk e" and "kv_io e' = kv_io e" and "kv_data e' = kv_data e"
  shows "engine_rel r L h m e'"
proof -
  have "LoadHardState file_kv_ops r e' = LoadHardState file_kv_ops r e"
    using assms(4) by (intro file_kv.LoadHardState_cong) simp
  then have "hard_loads r h e' = hard_loads r h e" by (rule hard_loads_cong)
  with assms show ?thesis by (simp add: engine_rel_def storage_rel_def durable_def)
qed

lemma engine_rel_new: "engine_rel r [] None fmempty (FileKvEngine_new [] [])"
  using storage_rel_new [of r] by (simp add: engine_rel_def user_view_def FileKvEngine_new_def)

lemma engine_rel_open:
  assumes "engine_rel r L h m e"
  obtains e' where "Open path (FileKvEngine_new (kv_disk e) []) = (Status_Ok, e')" and "engine_rel r L h m e'"
proof -
  let ?e = "snd (Open path (FileKvEngine_new (kv_disk e) []))"
  have "replay_lines (getlines NL (kv_disk e)) fmempty = (Status_Ok, kv_data e)"
    using engine_rel_parts(1) [OF assms] by (simp add: durable_def)
  then have o: "Open path (FileKvEngine_new (kv_disk e) []) = (Status_Ok, ?e)" "kv_disk ?e = kv_disk e"
    "kv_io ?e = []" "kv_data ?e = kv_data e"
    by (simp_all add: Open_healthy FileKvEngine_new_def)
  then have "engine_rel r L h m ?e"
    using engine_rel_parts(2) [OF assms] by (intro engine_rel_cong [OF assms]) simp_all
  with o(1) show thesis by (rule that)
qed

lemma LoadHardState_rel: "engine_rel r L (Some h) m e \<Longrightarrow> LoadHardState file_kv_ops r e = Some (Inr h)"
  by (simp add: engine_rel_def storage_rel_def hard_loads_def)

lemma LoadHardState_none:
  "engine_rel r L None m e \<Longrightarrow> \<exists>x. LoadHardState file_kv_ops r e = Some (Inl (KeyNotFound x))"
  by (simp add: engine_rel_def storage_rel_def hard_loads_def)

lemma LoadLog_rel: "engine_rel r L h m e \<Longrightarrow> LoadLog file_kv_ops r e = Inr L"
  using file_kv.LoadLog_stored engine_rel_parts by metis

text \<open>
  A store opens on the file it left with the node it had, and for the node this is a restart; the
  file does not tell a vote for peer 0 from no vote. On an empty file the store starts afresh.
\<close>

lemma store_Open_kept:
  assumes s: "store_rel r m s" "store_at r t L c a m s"
    and env: "fe_log env (store_dir d i) = kv_disk (sr_engine s)" "fe_io env (store_dir d i) = []"
  obtains s' where "store_Open env d (SingleRegionStore_new i p r peers) = Some (Status_Ok, s')"
    and "store_at r t L c a m s'" and "sr_store_id s' = i" and "sr_peer_id s' = p"
    and "rn_role (sr_raft s') = kFollower"
    and "rn_voted_for (sr_raft s) \<noteq> Some 0 \<Longrightarrow> rn_self_id (sr_raft s) = p \<Longrightarrow> raft_step (sr_raft s) (sr_raft s')"
proof -
  let ?h = "hard_state_of (sr_raft s)" and ?n = "RaftNode_new r p peers"
  note b = store_at_bounds [OF s(2)]
  have er: "engine_rel r L (Some ?h) m (sr_engine s)"
    using s by (simp add: store_rel_def store_at_def)
  obtain e where e: "Open (store_dir d i) (FileKvEngine_new (kv_disk (sr_engine s)) []) = (Status_Ok, e)"
    "engine_rel r L (Some ?h) m e"
    using engine_rel_open [OF er] by metis
  define v where "v = (if hs_voted_for ?h \<noteq> 0 then Some (hs_voted_for ?h) else None)"
  have h: "unat (hs_commit_index ?h) = c" "unat (hs_last_applied ?h) = a" "hs_current_term ?h = t"
    using s(2) by (simp_all add: hard_state_of_def store_at_def)
  define n where "n = ?n\<lparr>rn_current_term := t, rn_voted_for := v, rn_commit_index := hs_commit_index ?h,
      rn_last_applied := hs_last_applied ?h, rn_log := L\<rparr>"
  have "raft_Restore t v (hs_commit_index ?h) (hs_last_applied ?h) L ?n = (Status_Ok, n)"
    using b h check_restored_ok [of r 0 L]
    by (auto simp: raft_Restore_def RaftNode_new_def n_def Let_def word_le_nat_alt word_less_nat_alt not_less)
  note restored = this
  have "raft_step (sr_raft s) n" if "rn_voted_for (sr_raft s) \<noteq> Some 0" "rn_self_id (sr_raft s) = p"
  proof (rule raft_step.restart)
    show "hard_state_kept t v (sr_raft s)"
      using s(2) that(1) by (auto simp: hard_state_kept_def v_def hard_state_of_def store_at_def split: option.splits)
    show "raft_Restore t v (hs_commit_index ?h) (hs_last_applied ?h) L
        (RaftNode_new (rn_region_id (sr_raft s)) (rn_self_id (sr_raft s)) peers) = (Status_Ok, n)"
      using restored b(4) that(2) by simp
  qed
  moreover from restored have "store_Open env d (SingleRegionStore_new i p r peers) =
      Some (Status_Ok, \<lparr>sr_store_id = i, sr_peer_id = p, sr_raft = n, sr_engine = e, sr_raft_storage = True\<rparr>)"
    using e env h LoadHardState_rel [OF e(2)] LoadLog_rel [OF e(2)]
    by (simp add: store_Open_def SingleRegionStore_new_def FileKvEngine_new_def RestoreRaftState_def Let_def
        v_def RaftNode_new_def)
  moreover have "store_log_rel r m \<lparr>sr_store_id = i, sr_peer_id = p, sr_raft = n, sr_engine = e, sr_raft_storage = True\<rparr>"
    using e(2) b h by (auto simp: store_log_rel_def n_def RaftNode_new_def raft_wf_alt)
  ultimately show thesis
    using h by (intro that) (auto simp: store_at_def n_def RaftNode_new_def)
qed

lemma store_Open_fresh:
  assumes "fe_log env (store_dir d i) = []" "fe_io env (store_dir d i) = []"
  obtains s' where "store_Open env d (SingleRegionStore_new i p r peers) = Some (Status_Ok, s')"
    and "store_at r 0 [] 0 0 fmempty s'" and "sr_store_id s' = i" and "sr_peer_id s' = p"
    and "rn_role (sr_raft s') = kFollower"
proof -
  obtain e where e: "Open (store_dir d i) (FileKvEngine_new [] []) = (Status_Ok, e)" "engine_rel r [] None fmempty e"
    using engine_rel_open [OF engine_rel_new [of r]] by (metis FileKvEngine.select_convs(3) FileKvEngine_new_def)
  obtain x where "LoadHardState file_kv_ops r e = Some (Inl (KeyNotFound x))"
    using LoadHardState_none [OF e(2)] by blast
  then have "store_Open env d (SingleRegionStore_new i p r peers) = Some (Status_Ok,
      \<lparr>sr_store_id = i, sr_peer_id = p, sr_raft = RaftNode_new r p peers, sr_engine = e, sr_raft_storage = True\<rparr>)"
    using e assms
    by (simp add: store_Open_def SingleRegionStore_new_def FileKvEngine_new_def RestoreRaftState_def Let_def
        RaftNode_new_def)
  moreover have "store_log_rel r fmempty
      \<lparr>sr_store_id = i, sr_peer_id = p, sr_raft = RaftNode_new r p peers, sr_engine = e, sr_raft_storage = True\<rparr>"
    using e(2) by (auto simp: store_log_rel_def RaftNode_new_def raft_wf_def)
  ultimately show thesis
    by (intro that) (auto simp: store_at_def RaftNode_new_def)
qed

section \<open>Properties of elections\<close>

text \<open>
  C7. Election safety. If an election succeeds, any public calls run on the nodes of the
  stores afterwards and any of the nodes are restarted, and then a second election succeeds, then
  the term of the second leader is greater: no term has two leaders. After each of the two
  elections the store elected is the leader of the cluster, has the leader role and the recorded
  votes of a majority of the stores in its term. The same stores take part in both elections, their
  terms do not wrap around, and a restarted node comes back with a hard state that is not older
  than the one it had, as a store does that reopens the file its hard state was written to.
\<close>

theorem one_leader_per_term:
  assumes "ElectLeader p c = Some (st, c1)" and "ok st" and "cluster_ids (sc_stores c)"
    and "node_steps (sc_stores c1) (sc_stores c2)"
    and "ElectLeader q c2 = Some (st', c3)" and "ok st'"
    and "\<And>s. s \<in> set (sc_stores c) \<union> set (sc_stores c2) \<Longrightarrow> rn_current_term (sr_raft s) \<noteq> - 1"
  shows "\<exists>l l'. Leader c1 = Some l \<and> sr_peer_id l = p \<and> rn_role (sr_raft l) = kLeader \<and>
     length (sc_stores c1) < 2 * votes_for (rn_current_term (sr_raft l)) p (sc_stores c1) \<and>
     Leader c3 = Some l' \<and> sr_peer_id l' = q \<and> rn_role (sr_raft l') = kLeader \<and>
     length (sc_stores c3) < 2 * votes_for (rn_current_term (sr_raft l')) q (sc_stores c3) \<and>
     rn_current_term (sr_raft l) < rn_current_term (sr_raft l')"
proof -
  have "node_steps (sc_stores c) (sc_stores c1)"
    by (rule ElectLeader_ok_steps [OF assms(1-3)]) (use assms(7) find_peer_Some in blast)
  then have ids2: "cluster_ids (sc_stores c2)"
    using assms(3,4) by (blast intro: node_steps_ids)
  have "node_steps (sc_stores c2) (sc_stores c3)"
    by (rule ElectLeader_ok_steps [OF assms(5,6) ids2]) (use assms(7) find_peer_Some in blast)
  with assms(4) have steps: "node_steps (sc_stores c1) (sc_stores c3)" by (rule node_steps_trans)
  obtain l where l: "Leader c1 = Some l" "sr_peer_id l = p" "rn_role (sr_raft l) = kLeader"
    "length (sc_stores c1) < 2 * votes_for (rn_current_term (sr_raft l)) p (sc_stores c1)"
    using ElectLeader_votes [OF assms(1-3)] by metis
  obtain l' s0 where l': "Leader c3 = Some l'" "find_peer q (sc_stores c2) = Some s0"
    "rn_current_term (sr_raft l') = rn_current_term (sr_raft s0) + 1"
    "length (sc_stores c3) < 2 * votes_for (rn_current_term (sr_raft l')) q (sc_stores c3)"
    "sr_peer_id l' = q" "rn_role (sr_raft l') = kLeader"
    using ElectLeader_votes [OF assms(5,6) ids2] by metis
  have "rn_current_term (sr_raft l) \<noteq> rn_current_term (sr_raft l')"
  proof
    assume "rn_current_term (sr_raft l) = rn_current_term (sr_raft l')"
    then have "p = q" using votes_intersect(2) [OF steps l(4) l'(4)] by simp
    moreover have "find_peer p (sc_stores c1) = Some l" using l find_peer_Some by (fastforce simp: Leader_def)
    ultimately have "raft_step\<^sup>*\<^sup>* (sr_raft l) (sr_raft s0)"
      using node_steps_find [OF assms(4)] l'(2) by fastforce
    then have "rn_current_term (sr_raft l) \<le> rn_current_term (sr_raft s0)" by (rule raft_steps_term)
    moreover have "rn_current_term (sr_raft s0) < rn_current_term (sr_raft l')"
      unfolding l'(3) by (rule word_less_succ) (use assms(7) find_peer_Some [OF l'(2)] in blast)
    ultimately show False using \<open>rn_current_term (sr_raft l) = _\<close> by simp
  qed
  with votes_intersect(1) [OF steps l(4) l'(4)]
  have "rn_current_term (sr_raft l) < rn_current_term (sr_raft l')" by simp
  with l l'(1,4-6) show ?thesis by blast
qed

definition demo_cluster :: SingleRegionCluster where
  "demo_cluster = (SingleRegionCluster_new \<lparr>fe_log = (\<lambda>_. []), fe_io = (\<lambda>_. [])\<rparr>)
     \<lparr>sc_peer_ids := [1, 2, 3],
      sc_stores := map (\<lambda>i. (SingleRegionStore_new i i 1 [1, 2, 3])\<lparr>sr_raft_storage := True\<rparr>) [1, 2, 3]\<rparr>"

lemma synced_term: "synced r t L m ss \<Longrightarrow> s \<in> set ss \<Longrightarrow> rn_current_term (sr_raft s) = t"
  by (simp add: synced_def store_at_def)

lemma demo_synced: "synced 1 0 [] fmempty (sc_stores demo_cluster)"
  using engine_rel_new [of 1]
  by (auto simp: synced_def demo_cluster_def SingleRegionStore_new_def store_at_def store_log_rel_def
      RaftNode_new_def raft_wf_def)

lemma synced_write:
  assumes "synced r t L m ss" and "find_peer p ss = Some s" and "same_ids s s'"
    and "store_at r t L (length L) (length L) m s'"
  shows "synced r t L m (write_peer p s' ss)"
proof -
  have "set (write_peer p s' ss) \<subseteq> insert s' (set ss)" by (induction ss) auto
  then show ?thesis
    using assms write_peer_ids [OF assms(2,3)] by (auto simp: synced_def)
qed

text \<open>Peer 1 is elected, its store is closed and reopened on its file, then peer 2 is elected.\<close>

theorem one_leader_per_term_witness:
  "\<exists>c1 l s' c3 l'. ElectLeader 1 demo_cluster = Some (Status_Ok, c1) \<and> Leader c1 = Some l \<and>
     store_Open \<lparr>fe_log = (\<lambda>_. kv_disk (sr_engine l)), fe_io = (\<lambda>_. [])\<rparr> ''d''
       (SingleRegionStore_new (sr_store_id l) 1 1 [1, 2, 3]) = Some (Status_Ok, s') \<and>
     ElectLeader 2 (c1\<lparr>sc_stores := write_peer 1 s' (sc_stores c1)\<rparr>) = Some (Status_Ok, c3) \<and>
     Leader c3 = Some l' \<and> sr_peer_id l' = 2 \<and> rn_current_term (sr_raft l) < rn_current_term (sr_raft l')"
proof -
  let ?ss = "sc_stores demo_cluster"
  have p: "map sr_peer_id ?ss = [1, 2, 3]"
    by (simp add: demo_cluster_def SingleRegionStore_new_def)
  have ids: "cluster_ids ?ss"
    by (simp add: cluster_ids_def demo_cluster_def SingleRegionStore_new_def RaftNode_new_def)
  obtain c1 where c1: "ElectLeader 1 demo_cluster = Some (Status_Ok, c1)" "synced 1 1 [] fmempty (sc_stores c1)"
    "map sr_peer_id (sc_stores c1) = map sr_peer_id ?ss" "\<forall>s \<in> set (sc_stores c1). store_rel 1 fmempty s"
    by (rule ElectLeader_synced [OF demo_synced, of 1]) (auto simp: demo_cluster_def SingleRegionStore_new_def)
  obtain l where l: "Leader c1 = Some l" "sr_peer_id l = 1" "rn_voted_for (sr_raft l) = Some 1"
    by (rule ElectLeader_votes [OF c1(1) _ ids]) auto
  then have find: "find_peer 1 (sc_stores c1) = Some l" and mem: "l \<in> set (sc_stores c1)"
    using find_peer_Some by (fastforce simp: Leader_def)+
  have t0: "rn_current_term (sr_raft s) = 0" if "s \<in> set ?ss" for s
    using that synced_term [OF demo_synced] by simp
  then have "node_steps ?ss (sc_stores c1)"
    by (intro ElectLeader_ok_steps [OF c1(1) _ ids]) (auto dest: find_peer_Some)
  then have "rn_self_id (sr_raft l) = 1"
    using node_steps_ids ids mem l(2) by (auto simp: cluster_ids_def)
  moreover have at: "store_at 1 1 [] 0 0 fmempty l" using c1(2) mem by (auto simp: synced_def)
  ultimately obtain s' where s': "store_Open \<lparr>fe_log = (\<lambda>_. kv_disk (sr_engine l)), fe_io = (\<lambda>_. [])\<rparr> ''d''
       (SingleRegionStore_new (sr_store_id l) 1 1 [1, 2, 3]) = Some (Status_Ok, s')"
    "store_at 1 1 [] 0 0 fmempty s'" "same_ids l s'" "raft_step (sr_raft l) (sr_raft s')"
    using store_Open_kept [OF _ at, of "\<lparr>fe_log = (\<lambda>_. kv_disk (sr_engine l)), fe_io = (\<lambda>_. [])\<rparr>" "''d''"
      "sr_store_id l" 1 "[1, 2, 3]"] c1(4) mem l(2,3) by (force simp: same_ids_def)
  define c2 where "c2 = c1\<lparr>sc_stores := write_peer 1 s' (sc_stores c1)\<rparr>"
  have sy: "synced 1 1 [] fmempty (sc_stores c2)"
    unfolding c2_def using synced_write [OF c1(2) find s'(3)] s'(2) by simp
  have st: "node_steps (sc_stores c1) (sc_stores c2)"
    unfolding c2_def node_steps_def using s'(3,4)
    by (auto simp: same_ids_def intro!: write_peer_all2 [OF find])
  have "2 \<in> set (map sr_peer_id (sc_stores c2))" unfolding node_steps_peers [OF st] c1(3) p by simp
  then obtain c3 where c3: "ElectLeader 2 c2 = Some (Status_Ok, c3)"
    by (rule_tac ElectLeader_synced [OF sy, of 2]) auto
  have t: "rn_current_term (sr_raft s) \<noteq> - 1" if "s \<in> set ?ss \<union> set (sc_stores c2)" for s
    using that synced_term [OF sy] t0 by (elim UnE) simp_all
  from one_leader_per_term [OF c1(1) _ ids st c3 _ t] l(1) obtain l' where
    "Leader c3 = Some l'" "sr_peer_id l' = 2" "rn_current_term (sr_raft l) < rn_current_term (sr_raft l')"
    by auto
  with c1(1) l(1) s'(1) c3 show ?thesis unfolding c2_def by blast
qed

end
