(* ===== verification/Single_Region_Peers.thy ===== *)
theory Single_Region_Peers
  imports Single_Region
begin

text \<open>
  Membership changes of the single-region cluster: what a new peer receives from the leader,
  what removing a peer leaves, and the state that failing calls leave behind.
\<close>

section \<open>Adding a peer\<close>

lemma user_view_refl [simp]: "user_view m m"
  by (simp add: user_view_def)

lemma PersistLogEntry_healthy:
  assumes "sr_raft_storage s" and "kv_io (sr_engine s) = []"
  obtains e where "PersistLogEntry x s = (Status_Ok, s\<lparr>sr_engine := e\<rparr>)" and "kv_io e = []"
    and "user_view (kv_data (sr_engine s)) (kv_data e)"
  using assms
  by (intro that [of "snd (AppendLog file_kv_ops x (sr_engine s))"])
     (simp_all add: PersistLogEntry_def AppendLog_def file_kv_ops_def kv_Put_def WriteBatch_healthy user_view_raft_key)

lemma PersistHardState_healthy:
  assumes "sr_raft_storage s" and "kv_io (sr_engine s) = []"
  obtains e where "PersistHardState s = (Status_Ok, s\<lparr>sr_engine := e\<rparr>)" and "kv_io e = []"
    and "user_view (kv_data (sr_engine s)) (kv_data e)"
  using assms
  by (intro that [of "snd (SaveHardState file_kv_ops (rn_region_id (sr_raft s)) (hard_state_of (sr_raft s)) (sr_engine s))"])
     (simp_all add: PersistHardState_def SaveHardState_def file_kv_ops_def WriteBatch_healthy user_view_raft_key)

lemma user_view_trans: "user_view a b \<Longrightarrow> user_view b c \<Longrightarrow> user_view a c"
  by (simp add: user_view_def)

lemma persist_entries_healthy:
  assumes "sr_raft_storage s" and "kv_io (sr_engine s) = []"
  shows "\<exists>e. persist_entries es s = (Status_Ok, s\<lparr>sr_engine := e\<rparr>) \<and> kv_io e = [] \<and>
     user_view (kv_data (sr_engine s)) (kv_data e)"
  using assms
proof (induction es arbitrary: s)
  case Nil
  then show ?case by (intro exI [of _ "sr_engine s"]) (simp add: user_view_def)
next
  case (Cons x es)
  obtain e where e: "PersistLogEntry x s = (Status_Ok, s\<lparr>sr_engine := e\<rparr>)" "kv_io e = []"
    "user_view (kv_data (sr_engine s)) (kv_data e)"
    by (rule PersistLogEntry_healthy [OF Cons.prems])
  have "\<exists>e'. persist_entries es (s\<lparr>sr_engine := e\<rparr>) = (Status_Ok, s\<lparr>sr_engine := e, sr_engine := e'\<rparr>) \<and>
      kv_io e' = [] \<and> user_view (kv_data (sr_engine (s\<lparr>sr_engine := e\<rparr>))) (kv_data e')"
    using Cons.prems e by (intro Cons.IH) simp_all
  with e show ?case by (auto intro: user_view_trans)
qed

lemma raft_Restore_of_leader:
  assumes "raft_wf l" and "rn_region_id n = rn_region_id l"
  shows "raft_Restore (rn_current_term l) (rn_voted_for l) (rn_commit_index l) (rn_last_applied l) (rn_log l) n =
     (Status_Ok, n\<lparr>rn_role := kFollower, rn_current_term := rn_current_term l, rn_voted_for := rn_voted_for l,
        rn_commit_index := rn_commit_index l, rn_last_applied := rn_last_applied l, rn_log := rn_log l\<rparr>)"
  using assms check_restored_ok [of "rn_region_id l" 0 "rn_log l"]
  by (auto simp: raft_Restore_def raft_wf_def Let_def not_less)

lemma adopt_leader_healthy:
  assumes "raft_wf (sr_raft l)" and "rn_region_id (sr_raft s) = rn_region_id (sr_raft l)"
    and "sr_raft_storage s" and "kv_io (sr_engine s) = []"
  obtains s' where "adopt_leader l s = (Status_Ok, s')" and "kv_io (sr_engine s') = []"
    and "user_view (kv_data (sr_engine s)) (kv_data (sr_engine s'))"
    and "same_ids s s'" and "rn_log (sr_raft s') = rn_log (sr_raft l)"
    and "hard_state_of (sr_raft s') = hard_state_of (sr_raft l)"
proof -
  let ?l = "sr_raft l"
  define s1 where "s1 = s\<lparr>sr_raft := (sr_raft s)\<lparr>rn_role := kFollower, rn_current_term := rn_current_term ?l,
      rn_voted_for := rn_voted_for ?l, rn_commit_index := rn_commit_index ?l,
      rn_last_applied := rn_last_applied ?l, rn_log := rn_log ?l\<rparr>\<rparr>"
  have s1: "sr_raft_storage s1" "kv_io (sr_engine s1) = []" "sr_engine s1 = sr_engine s"
    using assms by (simp_all add: s1_def)
  obtain e where e: "persist_entries (rn_log ?l) s1 = (Status_Ok, s1\<lparr>sr_engine := e\<rparr>)" "kv_io e = []"
    "user_view (kv_data (sr_engine s)) (kv_data e)"
    using persist_entries_healthy [OF s1(1,2), of "rn_log ?l"] s1(3) by auto
  obtain e' where e': "PersistHardState (s1\<lparr>sr_engine := e\<rparr>) = (Status_Ok, s1\<lparr>sr_engine := e'\<rparr>)" "kv_io e' = []"
    "user_view (kv_data e) (kv_data e')"
    by (rule PersistHardState_healthy [of "s1\<lparr>sr_engine := e\<rparr>"]) (use s1 e in simp_all)
  have "adopt_leader l s = (Status_Ok, s1\<lparr>sr_engine := e'\<rparr>)"
    using raft_Restore_of_leader [OF assms(1,2)] e(1) e'(1)
    by (simp add: adopt_leader_def Let_def s1_def)
  then show thesis
    using e(3) e'(2,3) user_view_trans
    by (intro that [of "s1\<lparr>sr_engine := e'\<rparr>"]) (auto simp: s1_def same_ids_def hard_state_of_def)
qed

lemma raft_Restore_region: "raft_Restore t v c a L n = (st, n') \<Longrightarrow> rn_region_id n' = rn_region_id n"
  by (auto simp: raft_Restore_def Let_def split: if_splits)

lemma RestoreRaftState_frame:
  assumes "RestoreRaftState s = Some (st, s')"
  shows "same_ids s s'" and "sr_raft_storage s' = sr_raft_storage s" and "rn_region_id (sr_raft s') = rn_region_id (sr_raft s)"
    and "sr_engine s' = sr_engine s"
  using assms
  by (auto simp: RestoreRaftState_def Let_def same_ids_def raft_Restore_region
      split: if_splits option.splits sum.splits prod.splits)

lemma store_Open_ok:
  assumes "store_Open env d s = Some (st, s')" and "ok st"
  shows "same_ids s s'" and "sr_raft_storage s'" and "rn_region_id (sr_raft s') = rn_region_id (sr_raft s)"
proof -
  obtain st1 e where e: "Open (store_dir d (sr_store_id s))
      ((sr_engine s)\<lparr>kv_disk := fe_log env (store_dir d (sr_store_id s)), kv_io := fe_io env (store_dir d (sr_store_id s))\<rparr>) = (st1, e)"
    by fastforce
  then have "RestoreRaftState (s\<lparr>sr_engine := e, sr_raft_storage := True\<rparr>) = Some (st, s')"
    using assms by (auto simp: store_Open_def Let_def split: if_splits)
  from RestoreRaftState_frame [OF this]
  show "same_ids s s'" "sr_raft_storage s'" "rn_region_id (sr_raft s') = rn_region_id (sr_raft s)"
    by (simp_all add: same_ids_def)
qed

lemma map_of_filter_keys: "map_of (filter (\<lambda>kv. P (fst kv)) kvs) k = (if P k then map_of kvs k else None)"
  by (induction kvs) auto

lemma copied_lookup:
  "fmlookup (apply_mutations (map (\<lambda>(k, v). mk_put k v)
       (filter (\<lambda>kv. \<not> reserved_key (fst kv)) (entries m))) d) k =
     (case if reserved_key k then None else fmlookup m k of None \<Rightarrow> fmlookup d k | Some v \<Rightarrow> Some v)"
proof -
  have "distinct (map fst (filter (\<lambda>kv. \<not> reserved_key (fst kv)) (entries m)))"
    by (rule distinct_map_filter) simp
  then show ?thesis
    by (simp add: apply_puts_lookup map_of_filter_keys [of "\<lambda>k. \<not> reserved_key k"])
qed

lemma ScanRange_all: "ScanRange [] [] e = entries (kv_data e)"
  by (simp add: ScanRange_def)

lemma remove1_filter:
  "distinct (map sr_peer_id ss) \<Longrightarrow> find_peer p ss = Some s \<Longrightarrow>
     remove1 s ss = filter (\<lambda>s. sr_peer_id s \<noteq> p) ss"
proof (induction ss)
  case (Cons a ss)
  show ?case
  proof (cases "sr_peer_id a = p")
    case True
    then have "filter (\<lambda>s. sr_peer_id s \<noteq> p) ss = ss" "s = a"
      using Cons.prems by (auto simp: find_peer_def image_iff intro!: filter_True)
    with True show ?thesis by simp
  next
    case False
    then have "find_peer p ss = Some s" using Cons.prems(2) by (simp add: find_peer_def)
    moreover from this have "s \<noteq> a" using find_peer_Some False by blast
    ultimately show ?thesis using Cons False by simp
  qed
qed (simp add: find_peer_def)

lemma find_peer_filter: "q \<noteq> p \<Longrightarrow> find_peer q (filter (\<lambda>s. sr_peer_id s \<noteq> p) ss) = find_peer q ss"
  by (induction ss) (auto simp: find_peer_def)

section \<open>Properties\<close>

text \<open>
  C31. What a new peer receives. When the directory of the new store opens, on a healthy disk,
  the cluster gets a store with the leader's log and hard state; of the data it receives the
  leader's keys except those under \<open>raft/\<close>, \<open>region/\<close>, \<open>pd/\<close> and \<open>local/\<close>, and every key that
  is not copied keeps what the directory held before. So user keys under the last three
  prefixes are not replicated to a new peer, and keys of an old directory come back.
\<close>

theorem add_peer_receives:
  assumes "FindByStoreId i c = None" and "p \<notin> set (sc_peer_ids c)" and "Leader c = Some l"
    and "raft_wf (sr_raft l)" and "rn_region_id (sr_raft l) = sc_region_id c"
    and "store_Open (sc_files c) (sc_data_dir c)
           (SingleRegionStore_new i p (sc_region_id c) (sc_peer_ids c @ [p])) = Some (st, s0)"
    and "ok st" and "kv_io (sr_engine s0) = []"
  shows "\<exists>s c'. AddPeer i p c = Some (Status_Ok, c') \<and> sc_stores c' = sc_stores c @ [s] \<and>
     sr_store_id s = i \<and> sr_peer_id s = p \<and> rn_log (sr_raft s) = rn_log (sr_raft l) \<and>
     hard_state_of (sr_raft s) = hard_state_of (sr_raft l) \<and>
     (\<forall>k. \<not> prefix ''raft/'' k \<longrightarrow>
        store_Get k s = (case if reserved_key k then None else fmlookup (kv_data (sr_engine l)) k of
          Some v \<Rightarrow> Inr v | None \<Rightarrow> store_Get k s0))"
proof -
  note s0 = store_Open_ok [OF assms(6,7)]
  have "rn_region_id (sr_raft s0) = rn_region_id (sr_raft l)"
    using s0(3) assms(5) by (simp add: SingleRegionStore_new_def RaftNode_new_def)
  from adopt_leader_healthy [OF assms(4) this s0(2) assms(8)] obtain s1 where
    s1: "adopt_leader l s0 = (Status_Ok, s1)" "kv_io (sr_engine s1) = []"
      "user_view (kv_data (sr_engine s0)) (kv_data (sr_engine s1))" "same_ids s0 s1"
      "rn_log (sr_raft s1) = rn_log (sr_raft l)" "hard_state_of (sr_raft s1) = hard_state_of (sr_raft l)"
    by metis
  define puts where "puts = map (\<lambda>(k, v). mk_put k v)
      (filter (\<lambda>kv. \<not> reserved_key (fst kv)) (entries (kv_data (sr_engine l))))"
  define e where "e = snd (WriteBatch puts (sr_engine s1))"
  have e: "(if puts \<noteq> [] then WriteBatch puts (sr_engine s1) else (Status_Ok, sr_engine s1)) = (Status_Ok, e)"
    "kv_data e = apply_mutations puts (kv_data (sr_engine s1))"
    using s1(2) by (auto simp: e_def WriteBatch_healthy)
  let ?c = "c\<lparr>sc_peer_ids := sc_peer_ids c @ [p], sc_stores := sc_stores c @ [s1\<lparr>sr_engine := e\<rparr>]\<rparr>"
  have "Leader (c\<lparr>sc_peer_ids := sc_peer_ids c @ [p]\<rparr>) = Some l" using assms(3) by (simp add: Leader_def)
  then have add: "AddPeer i p c = Some (Status_Ok, ?c)"
    unfolding AddPeer_def using assms(1,2,6,7) s1(1) e(1)
    by (simp add: ScanRange_all puts_def [symmetric] split del: if_split)
  have get: "store_Get k (s1\<lparr>sr_engine := e\<rparr>) =
      (case if reserved_key k then None else fmlookup (kv_data (sr_engine l)) k of
         Some v \<Rightarrow> Inr v | None \<Rightarrow> store_Get k s0)" if "\<not> prefix ''raft/'' k" for k
  proof -
    have "fmlookup (kv_data (sr_engine s1)) k = fmlookup (kv_data (sr_engine s0)) k"
      using s1(3) that by (simp add: user_view_def)
    then show ?thesis
      by (simp add: store_Get_def kv_Get_def e(2) puts_def copied_lookup split: option.splits)
  qed
  show ?thesis
    using add get s1(4-6) s0(1)
    by (intro exI [of _ "s1\<lparr>sr_engine := e\<rparr>"] exI [of _ ?c]) (simp add: same_ids_def SingleRegionStore_new_def)
qed

text \<open>A leader without entries that holds a user key under one of the reserved prefixes.\<close>

definition demo_leader :: SingleRegionCluster where
  "demo_leader = demo_cluster\<lparr>sc_leader_peer_id := 1,
     sc_stores := map (\<lambda>s. s\<lparr>sr_engine := (sr_engine s)\<lparr>kv_data := fm_of_list [(''a'', ''1''), (''pd/x'', ''2'')]\<rparr>\<rparr>)
       (sc_stores demo_cluster)\<rparr>"

theorem add_peer_receives_witness:
  "\<exists>s c'. AddPeer 4 4 demo_leader = Some (Status_Ok, c') \<and> sc_stores c' = sc_stores demo_leader @ [s] \<and>
     store_Get ''a'' s = Inr ''1'' \<and> store_Get ''pd/x'' s = Inl (KeyNotFound ''key not found: pd/x'') \<and>
     GetFromStore 1 ''pd/x'' demo_leader = Inr ''2''"
proof -
  let ?env = "\<lparr>fe_log = (\<lambda>_. []), fe_io = (\<lambda>_. [])\<rparr>"
  obtain s0 where s0: "store_Open ?env [] (SingleRegionStore_new 4 4 1 [1, 2, 3, 4]) = Some (Status_Ok, s0)"
    "store_at 1 0 [] 0 0 fmempty s0"
    using store_Open_fresh [of ?env "[]" 4 4 1 "[1, 2, 3, 4]"] by (metis file_env.select_convs)
  obtain l where l: "Leader demo_leader = Some l" "kv_data (sr_engine l) = fm_of_list [(''a'', ''1''), (''pd/x'', ''2'')]"
    "sr_raft l = RaftNode_new 1 1 [1, 2, 3]"
    by (simp add: Leader_def find_peer_def demo_leader_def demo_cluster_def SingleRegionStore_new_def)
  have d: "FindByStoreId 4 demo_leader = None" "sc_peer_ids demo_leader = [1, 2, 3]" "sc_region_id demo_leader = 1"
    "sc_files demo_leader = ?env" "sc_data_dir demo_leader = []"
    by (simp_all add: FindByStoreId_def demo_leader_def demo_cluster_def SingleRegionStore_new_def SingleRegionCluster_new_def)
  obtain h where h: "engine_rel 1 [] h fmempty (sr_engine s0)"
    using s0(2) by (auto simp: store_at_def store_log_rel_def)
  have "kv_io (sr_engine s0) = []" and view: "user_view fmempty (kv_data (sr_engine s0))"
    using engine_rel_parts [OF h] by simp_all
  with add_peer_receives [OF d(1) _ l(1), of 4 Status_Ok s0] s0(1) d l(3) raft_wf_new
  obtain s c' where sc: "AddPeer 4 4 demo_leader = Some (Status_Ok, c')" "sc_stores c' = sc_stores demo_leader @ [s]"
    "\<And>k. \<not> prefix ''raft/'' k \<Longrightarrow>
        store_Get k s = (case if reserved_key k then None else fmlookup (kv_data (sr_engine l)) k of
          Some v \<Rightarrow> Inr v | None \<Rightarrow> store_Get k s0)"
    by (auto simp: RaftNode_new_def)
  have "store_Get ''a'' s = Inr ''1''"
    using sc(3) [of "''a''"] by (simp add: reserved_key_def l(2) fm_of_list_def)
  moreover have "store_Get ''pd/x'' s = Inl (KeyNotFound ''key not found: pd/x'')"
    using sc(3) [of "''pd/x''"] view
    by (simp add: reserved_key_def l(2) fm_of_list_def store_Get_def kv_Get_def user_view_def)
  moreover have "GetFromStore 1 ''pd/x'' demo_leader = Inr ''2''"
    by (simp add: GetFromStore_def demo_leader_def demo_cluster_def SingleRegionStore_new_def store_Get_def kv_Get_def
        fm_of_list_def)
  ultimately show ?thesis using sc(1,2) by blast
qed

text \<open>
  C32. Removing a peer keeps the data available. In a cluster of at least two stores that agree
  and have a leader, removing any of its peers succeeds; the remaining stores are the others in
  their order, still agree on log and data, and one of them leads: the old leader with its term,
  or, when the leader was removed, a remaining store in the next term.
\<close>

theorem remove_peer_keeps_leader:
  assumes "synced r t L m (sc_stores c)" and "led_by (sc_leader_peer_id c) (sc_stores c)"
    and "2 \<le> length (sc_stores c)" and "p \<in> sr_peer_id ` set (sc_stores c)" and "t \<noteq> - 1"
  shows "\<exists>c' t'. RemovePeer p c = Some (Status_Ok, c') \<and> synced r t' L m (sc_stores c') \<and>
     led_by (sc_leader_peer_id c') (sc_stores c') \<and>
     map sr_peer_id (sc_stores c') = filter (\<lambda>q. q \<noteq> p) (map sr_peer_id (sc_stores c)) \<and>
     t' = (if p = sc_leader_peer_id c then t + 1 else t)"
proof -
  let ?ss = "sc_stores c" and ?rest = "filter (\<lambda>s. sr_peer_id s \<noteq> p) (sc_stores c)"
  have d: "distinct (map sr_peer_id ?ss)" using assms(1) by (simp add: synced_def)
  obtain s where s: "find_peer p ?ss = Some s" using assms(4) find_peer_exists by blast
  have rest: "remove1 s ?ss = ?rest" "map sr_peer_id ?rest = filter (\<lambda>q. q \<noteq> p) (map sr_peer_id ?ss)"
    using remove1_filter [OF d s] by (simp_all add: filter_map o_def)
  have sy: "synced r t L m ?rest" using assms(1) by (auto simp: synced_def distinct_map_filter)
  define c1 where "c1 = c\<lparr>sc_stores := ?rest, sc_peer_ids := removeAll p (sc_peer_ids c),
      sc_files := close_store (sc_data_dir c) s (sc_files c)\<rparr>"
  show ?thesis
  proof (cases "sc_leader_peer_id c = p")
    case False
    then have "RemovePeer p c = Some (Status_Ok, c1)"
      using assms(3) s by (simp add: RemovePeer_def rest c1_def)
    moreover have "led_by (sc_leader_peer_id c1) (sc_stores c1)"
      using assms(2) False by (simp add: c1_def led_by_def find_peer_filter)
    ultimately show ?thesis
      using False sy rest(2) by (intro exI [of _ c1] exI [of _ t]) (simp add: c1_def)
  next
    case True
    let ?q = "sr_peer_id (hd ?rest)" and ?c2 = "c1\<lparr>sc_leader_peer_id := 0\<rparr>"
    have "Suc (length ?rest) = length ?ss" using length_others [OF d s] .
    then have "?rest \<noteq> []" using assms(3) by (auto simp del: filter_empty_conv)
    then have q: "?q \<in> sr_peer_id ` set (sc_stores ?c2)" using hd_in_set by (auto simp: c1_def simp del: filter_empty_conv set_filter)
    have "synced r t L m (sc_stores ?c2)" using sy by (simp add: c1_def)
    then obtain ss where "ElectLeader ?q ?c2 = Some (Status_Ok, ?c2\<lparr>sc_stores := ss, sc_leader_peer_id := ?q\<rparr>)"
      "synced r (t + 1) L m ss" "led_by ?q ss" "map sr_peer_id ss = map sr_peer_id (sc_stores ?c2)"
      by (rule ElectLeader_synced [OF _ q assms(5)])
    moreover have "RemovePeer p c = ElectLeader ?q ?c2"
      using True assms(3) s by (simp add: RemovePeer_def rest c1_def Let_def)
    ultimately show ?thesis
      using True rest(2) by (intro exI [of _ "?c2\<lparr>sc_stores := ss, sc_leader_peer_id := ?q\<rparr>"] exI [of _ "t + 1"])
        (simp add: c1_def)
  qed
qed

theorem remove_peer_keeps_leader_witness:
  "\<exists>c c' t'. ElectLeader 1 demo_cluster = Some (Status_Ok, c) \<and> RemovePeer 1 c = Some (Status_Ok, c') \<and>
     synced 1 t' [] fmempty (sc_stores c') \<and> map sr_peer_id (sc_stores c') = [2, 3]"
proof -
  have ids: "map sr_peer_id (sc_stores demo_cluster) = [1, 2, 3]"
    by (simp add: demo_cluster_def SingleRegionStore_new_def)
  obtain ss where el: "ElectLeader 1 demo_cluster =
      Some (Status_Ok, demo_cluster\<lparr>sc_stores := ss, sc_leader_peer_id := 1\<rparr>)" "synced 1 1 [] fmempty ss" "led_by 1 ss"
    "map sr_peer_id ss = [1, 2, 3]"
    by (rule ElectLeader_synced [OF demo_synced, of 1]) (auto simp: demo_cluster_def SingleRegionStore_new_def)
  let ?c = "demo_cluster\<lparr>sc_stores := ss, sc_leader_peer_id := 1\<rparr>"
  have "length ss = 3" using arg_cong [OF el(4), of length] by simp
  moreover have "1 \<in> sr_peer_id ` set ss" using arg_cong [OF el(4), of set] by auto
  ultimately have "\<exists>c' t'. RemovePeer 1 ?c = Some (Status_Ok, c') \<and> synced 1 t' [] fmempty (sc_stores c') \<and>
     led_by (sc_leader_peer_id c') (sc_stores c') \<and>
     map sr_peer_id (sc_stores c') = filter (\<lambda>q. q \<noteq> 1) (map sr_peer_id (sc_stores ?c)) \<and>
     t' = (if 1 = sc_leader_peer_id ?c then 1 + 1 else 1)"
    using el(2,3) by (intro remove_peer_keeps_leader) simp_all
  with el show ?thesis by auto
qed

text \<open>
  A peer whose store could not be opened cannot be added any more. \<open>AddPeer\<close> records the
  peer id before it opens the store; when the call fails before the store joins the cluster,
  repeating it is refused as a duplicate peer although no store has that peer.
\<close>

theorem failed_add_peer_blocks_retry:
  assumes "AddPeer i p c = Some (st, c')" and "\<not> ok st" and "FindByStoreId i c = None"
    and "p \<notin> set (sc_peer_ids c)" and "sc_stores c' = sc_stores c"
  shows "AddPeer i p c' = Some (InvalidArgument ''peer already exists in region cluster'', c')"
proof -
  have "p \<in> set (sc_peer_ids c')"
    using assms(1-4) by (auto simp: AddPeer_def Let_def split: option.splits if_splits prod.splits)
  moreover have "FindByStoreId i c' = None" using assms(3,5) by (simp add: FindByStoreId_def)
  ultimately show ?thesis by (simp add: AddPeer_def)
qed

theorem failed_add_peer_blocks_retry_witness:
  "let c = SingleRegionCluster_new \<lparr>fe_log = (\<lambda>_. []), fe_io = (\<lambda>_. [IoOpenFail ''full''])\<rparr>
   in \<exists>c'. AddPeer 4 4 c = Some (IoError ''failed to create data directory: full'', c') \<and>
        AddPeer 4 4 c' = Some (InvalidArgument ''peer already exists in region cluster'', c')"
proof -
  define c where "c = SingleRegionCluster_new \<lparr>fe_log = (\<lambda>_. []), fe_io = (\<lambda>_. [IoOpenFail ''full''])\<rparr>"
  have f: "FindByStoreId 4 c = None" "4 \<notin> set (sc_peer_ids c)"
    by (simp_all add: c_def FindByStoreId_def SingleRegionCluster_new_def)
  obtain c' where c': "AddPeer 4 4 c = Some (IoError ''failed to create data directory: full'', c')" "sc_stores c' = sc_stores c"
    by (simp add: c_def AddPeer_def FindByStoreId_def SingleRegionCluster_new_def store_Open_def SingleRegionStore_new_def
        FileKvEngine_new_def Open_def next_io_def Let_def)
  from failed_add_peer_blocks_retry [OF c'(1) _ f c'(2)] c'(1) show ?thesis
    unfolding c_def [symmetric] Let_def by auto
qed

text \<open>
  A committed entry whose command cannot be applied is skipped. When the engine refuses one
  of the committed entries, \<open>ApplyCommitted\<close> returns the error without saving the hard state,
  but the node has already counted all of them as applied: the next call finds nothing to apply.
\<close>

theorem failed_apply_is_skipped:
  assumes "raft_wf (sr_raft s)" and "ApplyCommitted s = Some (st, s')"
    and "TakeCommittedEntries (sr_raft s) = Some (es, n)" and "\<not> ok (fst (apply_entries es (sr_engine s)))"
  shows "\<not> ok st \<and> TakeCommittedEntries (sr_raft s') = Some ([], sr_raft s')"
proof -
  have n: "n = (sr_raft s)\<lparr>rn_last_applied := rn_commit_index (sr_raft s)\<rparr>"
    using TakeCommittedEntries_eq [of "sr_raft s"] assms(1,3) by (simp add: raft_wf_def)
  have "\<not> ok st" "sr_raft s' = n"
    using assms(2-4) by (auto simp: ApplyCommitted_def Let_def split: prod.splits if_splits)
  moreover have "TakeCommittedEntries n = Some ([], n)"
    by (subst TakeCommittedEntries.simps) (simp add: n)
  ultimately show ?thesis by simp
qed

theorem failed_apply_is_skipped_witness:
  "let x = \<lparr>le_region_id = 1, le_index = 1, le_term = 1, le_type = kNormal, le_command = ''SPLIT''\<rparr>;
       s = (SingleRegionStore_new 1 1 1 [1])\<lparr>sr_raft := (RaftNode_new 1 1 [1])\<lparr>rn_log := [x], rn_commit_index := 1\<rparr>\<rparr>
   in \<exists>st s'. ApplyCommitted s = Some (st, s') \<and> \<not> ok st \<and> TakeCommittedEntries (sr_raft s') = Some ([], sr_raft s')"
proof -
  define x where "x = \<lparr>le_region_id = 1, le_index = 1, le_term = 1, le_type = kNormal, le_command = ''SPLIT''\<rparr>"
  define s where "s = (SingleRegionStore_new 1 1 1 [1])\<lparr>sr_raft := (RaftNode_new 1 1 [1])\<lparr>rn_log := [x], rn_commit_index := 1\<rparr>\<rparr>"
  have wf: "raft_wf (sr_raft s)" by (simp add: s_def raft_wf_def RaftNode_new_def x_def)
  have take: "TakeCommittedEntries (sr_raft s) = Some ([x], (sr_raft s)\<lparr>rn_last_applied := 1\<rparr>)"
    using TakeCommittedEntries_eq [of "sr_raft s"] by (simp add: s_def RaftNode_new_def)
  have bad: "\<not> ok (fst (apply_entries [x] (sr_engine s)))"
    by (simp add: x_def ApplyKvCommand_def isspace_def)
  have "ApplyCommitted s \<noteq> None"
    using take by (simp add: ApplyCommitted_def Let_def case_prod_beta)
  then obtain st s' where "ApplyCommitted s = Some (st, s')" by fastforce
  with failed_apply_is_skipped [OF wf this take bad] show ?thesis
    unfolding x_def [symmetric] s_def [symmetric] Let_def by blast
qed

end
