(* ===== verification/Single_Region_Map.thy ===== *)
theory Single_Region_Map
  imports Single_Region
begin

text \<open>
  The cluster of one region as a replicated map. On healthy disks and without membership
  changes every write that the cluster accepts is applied by every store before the call
  returns, leader transfers keep the data, and a restart of the whole cluster on the same
  directory restores it. The refinement is proved by following one store through the phases of
  a proposal and lifting each phase over the loops with the lemmas of \<open>Single_Region\<close>.
\<close>

section \<open>Replication of one entry\<close>

text \<open>The two append requests of a proposal on a follower that has the leader's log.\<close>

lemma append_at_end:
  assumes "raft_wf n" and "rn_current_term n \<le> ae_term q" and "ae_entries q = [x]"
    and "unat (le_index x) = Suc (length (rn_log n))"
    and "ae_leader_commit q = rn_commit_index n"
    and "HasLogAt (ae_prev_log_index q) (ae_prev_log_term q) n"
  shows "\<exists>resp. HandleAppendEntries q n = Some (resp, push_entry x (step_down (ae_term q) n)) \<and> aer_success resp"
proof -
  let ?n = "step_down (ae_term q) n"
  have "unat (last_log_index n) = length (rn_log n)"
    using assms(1) by (auto simp: raft_wf_def dest: unat_last_log_index)
  then have "le_index x \<noteq> 0" "\<not> le_index x \<le> last_log_index ?n"
    using assms(4) by (auto simp: word_le_nat_alt)
  then have "append_entries_loop [x] ?n = Some (True, push_entry x ?n)" by simp
  moreover have "\<not> ae_term q < rn_current_term n" using assms(2) by simp
  ultimately show ?thesis
    using assms by (simp add: HandleAppendEntries_def Let_def del: append_entries_loop.simps)
qed

lemma commit_at_end:
  assumes "raft_wf n" and "rn_current_term n \<le> ae_term q" and "ae_entries q = []"
    and "ae_prev_log_index q = last_log_index n" and "ae_prev_log_term q = last_log_term n"
    and "rn_commit_index n < ae_leader_commit q" and "unat (ae_leader_commit q) = length (rn_log n)"
  shows "\<exists>resp. HandleAppendEntries q n =
     Some (resp, (step_down (ae_term q) n)\<lparr>rn_commit_index := ae_leader_commit q\<rparr>) \<and> aer_success resp"
proof -
  let ?n = "step_down (ae_term q) n"
  have l: "unat (last_log_index n) = length (rn_log n)"
    using assms(1) by (auto simp: raft_wf_def dest: unat_last_log_index)
  then have c: "min (ae_leader_commit q) (last_log_index n) = ae_leader_commit q"
    using assms(7) by (simp add: min_def word_le_nat_alt)
  have "HasLogAt (last_log_index n) (last_log_term n) n"
    using l last_log_term_nth [of n] by (auto simp: HasLogAt_def last_log_term_def unat_eq_0)
  moreover have "\<not> ae_term q < rn_current_term n" using assms(2) by simp
  ultimately show ?thesis
    using assms c by (simp add: HandleAppendEntries_def Let_def)
qed

text \<open>A command that stands for a batch of user mutations.\<close>

definition encodes :: "string \<Rightarrow> KvMutation list \<Rightarrow> bool" where
  "encodes command us \<longleftrightarrow> command \<noteq> [] \<and> (\<forall>e. ApplyKvCommand file_kv_ops command e = WriteBatch us e) \<and>
     (\<forall>u \<in> set us. user_key (mu_key u))"

lemma store_at_log:
  assumes s: "store_at r t L c a m s" and n: "rn_log n = L @ [x]" "rn_region_id n = r" "rn_current_term n = t"
    "unat (rn_commit_index n) = c" "unat (rn_last_applied n) = a"
    and x: "log_from r 0 (L @ [x])" "le_command x \<noteq> []"
  obtains e where "PersistLogEntry x (s\<lparr>sr_raft := n\<rparr>) = (Status_Ok, s\<lparr>sr_raft := n, sr_engine := e\<rparr>)"
    and "store_at r t (L @ [x]) c a m (s\<lparr>sr_raft := n, sr_engine := e\<rparr>)"
proof -
  have wf: "raft_wf n" using n x store_at_bounds [OF s] by (auto simp: raft_wf_alt)
  have "store_log_rel r m (s\<lparr>sr_raft := n, sr_raft := sr_raft s\<rparr>)" using s by (simp add: store_at_def)
  then obtain e where "PersistLogEntry x (s\<lparr>sr_raft := n\<rparr>) = (Status_Ok, s\<lparr>sr_raft := n, sr_engine := e\<rparr>)"
    and "store_log_rel r m (s\<lparr>sr_raft := n, sr_engine := e\<rparr>)"
    by (rule PersistLogEntry_rel) (use wf n x s in \<open>simp_all add: store_at_def\<close>)
  with n show thesis by (intro that) (auto simp: store_at_def)
qed

lemma replicate_body_sync:
  assumes s: "store_at r t L (length L) (length L) m s"
    and x: "log_from r 0 (L @ [x])" "le_command x \<noteq> []"
    and q: "ae_term q = t" "ae_entries q = [x]" "unat (ae_leader_commit q) = length L"
      "unat (ae_prev_log_index q) = length L" "ae_prev_log_term q = (if L = [] then 0 else le_term (last L))"
  shows "\<exists>s'. replicate_body (Some q) x s = Some (Status_Ok, True, s') \<and>
     (same_ids s s' \<and> store_at r t (L @ [x]) (length L) (length L) m s')"
proof -
  let ?n = "push_entry x (step_down t (sr_raft s))"
  have n: "rn_log (sr_raft s) = L" "rn_current_term (sr_raft s) = t" "raft_wf (sr_raft s)"
    "unat (rn_commit_index (sr_raft s)) = length L" "unat (rn_last_applied (sr_raft s)) = length L"
    "rn_region_id (sr_raft s) = r"
    using s by (simp_all add: store_at_def store_log_rel_def)
  have "HasLogAt (ae_prev_log_index q) (ae_prev_log_term q) (sr_raft s)"
    using q n by (auto simp: HasLogAt_def last_conv_nth unat_eq_0)
  moreover have "ae_leader_commit q = rn_commit_index (sr_raft s)" using q(3) n(4) by (simp add: word_unat_eq_iff)
  moreover have "unat (le_index x) = Suc (length L)" using x(1) by simp
  ultimately obtain resp where h: "HandleAppendEntries q (sr_raft s) = Some (resp, ?n)" "aer_success resp"
    using append_at_end [OF n(3), of q x] q n by auto
  obtain e where "PersistLogEntry x (s\<lparr>sr_raft := ?n\<rparr>) = (Status_Ok, s\<lparr>sr_raft := ?n, sr_engine := e\<rparr>)"
    and "store_at r t (L @ [x]) (length L) (length L) m (s\<lparr>sr_raft := ?n, sr_engine := e\<rparr>)"
    by (rule store_at_log [OF s _ _ _ _ _ x, of ?n]) (use n in simp_all)
  moreover from this(2) obtain e' where
    "PersistHardState (s\<lparr>sr_raft := ?n, sr_engine := e\<rparr>) = (Status_Ok, s\<lparr>sr_raft := ?n, sr_engine := e'\<rparr>)"
    "store_at r t (L @ [x]) (length L) (length L) m (s\<lparr>sr_raft := ?n, sr_engine := e'\<rparr>)"
    by (rule store_at_persist) simp
  ultimately show ?thesis using h by (simp add: replicate_body_def same_ids_def)
qed

lemma ApplyCommitted_sync:
  assumes s: "store_at r t (L @ [x]) (Suc (length L)) (length L) m s" and x: "le_type x = kNormal"
    and us: "encodes (le_command x) us"
  obtains s' where "ApplyCommitted s = Some (Status_Ok, s')" and "same_ids s s'"
    and "store_at r t (L @ [x]) (Suc (length L)) (Suc (length L)) (apply_mutations us m) s'"
    and "store_rel r (apply_mutations us m) s'" and "rn_role (sr_raft s') = rn_role (sr_raft s)"
proof -
  let ?n = "(sr_raft s)\<lparr>rn_last_applied := rn_commit_index (sr_raft s)\<rparr>"
  have n: "rn_log (sr_raft s) = L @ [x]" "raft_wf (sr_raft s)" "sr_raft_storage s" "rn_region_id (sr_raft s) = r"
    "unat (rn_commit_index (sr_raft s)) = Suc (length L)" "unat (rn_last_applied (sr_raft s)) = length L"
    using s by (simp_all add: store_at_def store_log_rel_def)
  obtain h where h: "engine_rel r (L @ [x]) h m (sr_engine s)"
    using s by (auto simp: store_at_def store_log_rel_def)
  have "\<forall>u \<in> set us. user_key (mu_key u)" using us unfolding encodes_def by blast
  from engine_rel_write [OF h this] obtain e where e: "WriteBatch us (sr_engine s) = (Status_Ok, e)"
    "engine_rel r (L @ [x]) h (apply_mutations us m) e"
    by blast
  have "TakeCommittedEntries (sr_raft s) = Some ([x], ?n)"
    using TakeCommittedEntries_eq [of "sr_raft s"] n by (simp add: raft_wf_def)
  moreover have "apply_entries [x] (sr_engine s) = (Status_Ok, e)"
    using us x e by (simp add: encodes_def)
  ultimately have ap: "ApplyCommitted s = Some (PersistHardState (s\<lparr>sr_raft := ?n, sr_engine := e\<rparr>))"
    by (simp add: ApplyCommitted_def del: apply_entries.simps)
  have "store_at r t (L @ [x]) (Suc (length L)) (Suc (length L)) (apply_mutations us m)
      (s\<lparr>sr_raft := ?n, sr_engine := e\<rparr>)"
    using s e n by (auto simp: store_at_def store_log_rel_def raft_wf_alt)
  then obtain e' where "PersistHardState (s\<lparr>sr_raft := ?n, sr_engine := e\<rparr>) = (Status_Ok, s\<lparr>sr_raft := ?n, sr_engine := e'\<rparr>)"
    "store_at r t (L @ [x]) (Suc (length L)) (Suc (length L)) (apply_mutations us m) (s\<lparr>sr_raft := ?n, sr_engine := e'\<rparr>)"
    "store_rel r (apply_mutations us m) (s\<lparr>sr_raft := ?n, sr_engine := e'\<rparr>)"
    by (rule store_at_persist) simp
  with ap show thesis
    by (intro that [of "s\<lparr>sr_raft := ?n, sr_engine := e'\<rparr>"]) (simp_all add: same_ids_def)
qed

lemma commit_body_sync:
  assumes s: "store_at r t (L @ [x]) (length L) (length L) m s" and x: "le_type x = kNormal"
    and us: "encodes (le_command x) us" and ci: "unat ci = Suc (length L)"
  shows "\<exists>s'. commit_body (commit_request rid t lp ci) s = Some (Status_Ok, True, s') \<and>
     (same_ids s s' \<and> store_at r t (L @ [x]) (Suc (length L)) (Suc (length L)) (apply_mutations us m) s' \<and>
      store_rel r (apply_mutations us m) s')"
proof -
  let ?n = "(step_down t (sr_raft s))\<lparr>rn_commit_index := ci\<rparr>"
  have n: "rn_log (sr_raft s) = L @ [x]" "raft_wf (sr_raft s)" "rn_current_term (sr_raft s) = t"
    "unat (rn_commit_index (sr_raft s)) = length L" "unat (rn_last_applied (sr_raft s)) = length L"
    "rn_region_id (sr_raft s) = r"
    using s by (simp_all add: store_at_def store_log_rel_def)
  then obtain resp where h: "HandleAppendEntries (commit_request rid t lp ci (sr_raft s)) (sr_raft s) = Some (resp, ?n)"
    "aer_success resp"
    using commit_at_end [OF n(2), of "commit_request rid t lp ci (sr_raft s)"] ci
    by (auto simp: commit_request_def word_less_nat_alt)
  have "store_at r t (L @ [x]) (Suc (length L)) (length L) m (s\<lparr>sr_raft := ?n\<rparr>)"
    by (rule store_at_raft [OF s]) (use n ci in simp_all)
  from ApplyCommitted_sync [OF this x us] obtain s' where "ApplyCommitted (s\<lparr>sr_raft := ?n\<rparr>) = Some (Status_Ok, s')"
    "same_ids (s\<lparr>sr_raft := ?n\<rparr>) s'"
    "store_at r t (L @ [x]) (Suc (length L)) (Suc (length L)) (apply_mutations us m) s'"
    "store_rel r (apply_mutations us m) s'"
    by metis
  then show ?thesis using h by (simp add: commit_body_def same_ids_def)
qed

section \<open>A proposal on a synchronised cluster\<close>

lemma write_peer_self: "find_peer p ss = Some s \<Longrightarrow> write_peer p s ss = ss"
  by (induction ss) (auto simp: find_peer_def split: if_splits)

lemma set_write_peer_others:
  "s \<in> set (write_peer p s1 ss) \<Longrightarrow> sr_peer_id s \<noteq> p \<Longrightarrow> sr_peer_id s1 = p \<Longrightarrow> s \<in> set ss"
  by (induction ss) (auto split: if_splits)

lemma replicate_request_sync:
  assumes x: "unat (le_index x) = Suc (length L)" and n: "rn_log n = L @ [x]" "rn_current_term n = t"
    "unat (rn_commit_index n) = length L"
  obtains q where "replicate_request rid lp n x = Some q" and "ae_term q = t" and "ae_entries q = [x]"
    and "unat (ae_leader_commit q) = length L" and "unat (ae_prev_log_index q) = length L"
    and "ae_prev_log_term q = (if L = [] then 0 else le_term (last L))"
proof -
  have nz: "le_index x \<noteq> 0" using x by auto
  then have prev: "unat (le_index x - 1) = length L" using x by (simp add: unat_minus_one_pos)
  have one: "le_index x = 1 \<longleftrightarrow> L = []" using x by (auto simp: word_unat_eq_iff)
  have two: "unat (le_index x - 2) = length L - 1" if "L \<noteq> []"
  proof -
    have "le_index x - 1 \<noteq> 0" using that one by simp
    then show ?thesis using unat_minus_one_pos [of "le_index x - 1"] prev by simp
  qed
  define q where "q = \<lparr>ae_region_id = rid, ae_term = t, ae_leader_id = lp,
      ae_prev_log_index = le_index x - 1, ae_prev_log_term = (if L = [] then 0 else le_term (last L)),
      ae_entries = [x], ae_leader_commit = rn_commit_index n\<rparr>"
  have "replicate_request rid lp n x = Some q"
    using one two n by (cases "L = []") (simp_all add: replicate_request_def q_def nth_append last_conv_nth)
  then show thesis using prev n by (intro that [of q]) (simp_all add: q_def)
qed

lemma BroadcastCommit_sync:
  assumes d: "distinct (map sr_peer_id (sc_stores c))" and ld: "Leader c = Some l"
    and l: "store_at r t (L @ [x]) (Suc (length L)) (Suc (length L)) (apply_mutations us m) l"
      "store_rel r (apply_mutations us m) l"
    and others: "\<forall>s \<in> set (sc_stores c). sr_peer_id s \<noteq> sc_leader_peer_id c \<longrightarrow>
      store_at r t (L @ [x]) (length L) (length L) m s"
    and x: "le_type x = kNormal" "encodes (le_command x) us" "unat ci = Suc (length L)"
  obtains ss where "BroadcastCommit ci c = Some (Status_Ok, c\<lparr>sc_stores := ss\<rparr>)"
    and "find_peer (sc_leader_peer_id c) ss = Some l"
    and "\<forall>s \<in> set ss. store_at r t (L @ [x]) (Suc (length L)) (Suc (length L)) (apply_mutations us m) s \<and>
      store_rel r (apply_mutations us m) s"
    and "map sr_peer_id ss = map sr_peer_id (sc_stores c)"
    and "map sr_store_id ss = map sr_store_id (sc_stores c)"
proof -
  let ?p = "sc_leader_peer_id c" and ?ss = "sc_stores c"
  let ?Q = "\<lambda>s. store_at r t (L @ [x]) (Suc (length L)) (Suc (length L)) (apply_mutations us m) s \<and>
      store_rel r (apply_mutations us m) s"
  let ?body = "commit_body (commit_request (sc_region_id c) (rn_current_term (sr_raft l)) ?p ci)"
  have t: "rn_current_term (sr_raft l) = t" using l by (simp add: store_at_def)
  have fl: "find_peer ?p ?ss = Some l" using ld by (simp add: Leader_def)
  have "\<exists>s'. ?body s = Some (Status_Ok, True, s') \<and> (same_ids s s' \<and> ?Q s')"
    if "s \<in> set ?ss" "sr_peer_id s \<noteq> ?p" for s
    unfolding t using commit_body_sync [OF _ x] others that by blast
  from for_others_ok [of ?ss ?p ?body, OF this] obtain ss where
    fo: "for_others ?p ?body ?ss = Some (Status_Ok, length (filter (\<lambda>s. sr_peer_id s \<noteq> ?p) ?ss), ss)"
    and st: "list_all2 (\<lambda>s s'. if sr_peer_id s = ?p then s' = s else same_ids s s' \<and> ?Q s') ?ss ss"
    by blast
  have i: "same_ids l l" by (simp add: same_ids_def)
  note fin = others_then_write [OF d fl i i, of ?Q, unfolded write_peer_self [OF fl], OF _ st]
  have "find_peer ?p ss = Some l" using fin(1) l by blast
  note fin' = fin [unfolded write_peer_self [OF this]]
  show thesis
    using fin' l fo ld by (intro that [of ss]) (simp_all add: BroadcastCommit_def)
qed

lemma leader_proposes:
  assumes at0: "store_at r t L (length L) (length L) m l" and role: "rn_role (sr_raft l) = kLeader"
    and len: "Suc (length L) < 2 ^ 64" and cmd: "cmd \<noteq> []"
  obtains x l1 where "Propose kNormal cmd (sr_raft l) = Inr (x, push_entry x (sr_raft l))"
    and "PersistLogEntry x (l\<lparr>sr_raft := push_entry x (sr_raft l)\<rparr>) = (Status_Ok, l1)"
    and "store_at r t (L @ [x]) (length L) (length L) m l1" and "same_ids l l1"
    and "rn_role (sr_raft l1) = kLeader" and "le_command x = cmd" and "le_type x = kNormal"
proof -
  have n: "rn_log (sr_raft l) = L" "raft_wf (sr_raft l)" "rn_current_term (sr_raft l) = t"
    "unat (rn_commit_index (sr_raft l)) = length L" "unat (rn_last_applied (sr_raft l)) = length L"
    "rn_region_id (sr_raft l) = r"
    using at0 by (simp_all add: store_at_def store_log_rel_def)
  define x where "x = \<lparr>le_region_id = r, le_index = last_log_index (sr_raft l) + 1, le_term = t,
      le_type = kNormal, le_command = cmd\<rparr>"
  have pr: "Propose kNormal cmd (sr_raft l) = Inr (x, push_entry x (sr_raft l))"
    using role n by (simp add: Propose_def x_def Let_def)
  have "log_from r 0 (L @ [x])"
    using Propose_wf [OF n(2) _ pr] n len by (simp add: raft_wf_def)
  moreover have "le_command x \<noteq> []" using cmd by (simp add: x_def)
  ultimately obtain e where "PersistLogEntry x (l\<lparr>sr_raft := push_entry x (sr_raft l)\<rparr>) =
      (Status_Ok, l\<lparr>sr_raft := push_entry x (sr_raft l), sr_engine := e\<rparr>)"
    and "store_at r t (L @ [x]) (length L) (length L) m (l\<lparr>sr_raft := push_entry x (sr_raft l), sr_engine := e\<rparr>)"
    by (rule_tac store_at_log [OF at0, of "push_entry x (sr_raft l)" x]) (use n in simp_all)
  from that [OF pr this] show thesis using role by (simp add: x_def same_ids_def)
qed

lemma replicate_phase:
  assumes sy: "synced r t L m ss" and l: "find_peer p ss = Some l0" "same_ids l0 l1"
    and at1: "store_at r t (L @ [x]) (length L) (length L) m l1" and x: "le_command x \<noteq> []"
  obtains k stores where
    "for_others p (replicate_body (replicate_request rid p (sr_raft l1) x) x) (write_peer p l1 ss) = Some (Status_Ok, k, stores)"
    and "Suc k = length stores"
    and "list_all2 (\<lambda>s s'. if sr_peer_id s = p then s' = s else same_ids s s' \<and>
      store_at r t (L @ [x]) (length L) (length L) m s') (write_peer p l1 ss) stores"
proof -
  let ?W = "write_peer p l1 ss" and ?B = "\<lambda>s. store_at r t (L @ [x]) (length L) (length L) m s"
  have d: "distinct (map sr_peer_id ss)" and all: "\<And>s. s \<in> set ss \<Longrightarrow> store_at r t L (length L) (length L) m s"
    using sy by (auto simp: synced_def)
  have i1: "sr_peer_id l1 = p" using find_peer_Some [OF l(1)] l(2) by (simp add: same_ids_def)
  have lx: "log_from r 0 (L @ [x])" using store_at_bounds(3) [OF at1] .
  then obtain q where q: "replicate_request rid p (sr_raft l1) x = Some q" "ae_term q = t" "ae_entries q = [x]"
    "unat (ae_leader_commit q) = length L" "unat (ae_prev_log_index q) = length L"
    "ae_prev_log_term q = (if L = [] then 0 else le_term (last L))"
    by (rule_tac replicate_request_sync [of x L "sr_raft l1" t]) (use at1 in \<open>simp_all add: store_at_def\<close>)
  have "\<exists>s'. replicate_body (Some q) x s = Some (Status_Ok, True, s') \<and> (same_ids s s' \<and> ?B s')"
    if "s \<in> set ?W" "sr_peer_id s \<noteq> p" for s
    using replicate_body_sync [OF all lx x q(2-6)] set_write_peer_others [OF that i1] by blast
  from for_others_ok [of ?W p "replicate_body (Some q) x", OF this] obtain stores where
    fo: "for_others p (replicate_body (Some q) x) ?W =
      Some (Status_Ok, length (filter (\<lambda>s. sr_peer_id s \<noteq> p) ?W), stores)"
    and st: "list_all2 (\<lambda>s s'. if sr_peer_id s = p then s' = s else same_ids s s' \<and> ?B s') ?W stores"
    by blast
  have "find_peer p ?W = Some l1" "distinct (map sr_peer_id ?W)"
    using find_peer_write [OF i1 l(1)] write_peer_ids [OF l] d by simp_all
  then have "Suc (length (filter (\<lambda>s. sr_peer_id s \<noteq> p) ?W)) = length stores"
    using length_others list_all2_lengthD [OF st] by metis
  from that [OF fo [folded q(1)] this st] show thesis .
qed

lemma leader_commits:
  assumes at1: "store_at r t (L @ [x]) (length L) (length L) m l" and x: "le_type x = kNormal"
    and us: "encodes (le_command x) us"
  obtains l2 where "ApplyCommitted (l\<lparr>sr_raft := SetCommitIndex (le_index x) (sr_raft l)\<rparr>) = Some (Status_Ok, l2)"
    and "same_ids l l2" and "store_at r t (L @ [x]) (Suc (length L)) (Suc (length L)) (apply_mutations us m) l2"
    and "store_rel r (apply_mutations us m) l2" and "rn_role (sr_raft l2) = rn_role (sr_raft l)"
proof -
  let ?l = "l\<lparr>sr_raft := SetCommitIndex (le_index x) (sr_raft l)\<rparr>"
  have "rn_log (sr_raft l) = L @ [x]" "unat (le_index x) = Suc (length L)"
    using at1 store_at_bounds(3) [OF at1] by (simp_all add: store_at_def)
  then have "store_at r t (L @ [x]) (Suc (length L)) (length L) m ?l"
    using at1 store_at_bounds [OF at1]
    by (intro store_at_raft [OF at1]) (simp_all add: SetCommitIndex_def last_log_index_def store_at_def)
  from ApplyCommitted_sync [OF this x us] obtain l2 where "ApplyCommitted ?l = Some (Status_Ok, l2)" "same_ids ?l l2"
    "store_at r t (L @ [x]) (Suc (length L)) (Suc (length L)) (apply_mutations us m) l2"
    "store_rel r (apply_mutations us m) l2" "rn_role (sr_raft l2) = rn_role (sr_raft ?l)"
    by blast
  then show thesis by (intro that [of l2]) (simp_all add: same_ids_def SetCommitIndex_def)
qed

lemma ProposeAndReplicate_sync:
  assumes sy: "synced r t L m (sc_stores c)" and ld: "led_by (sc_leader_peer_id c) (sc_stores c)"
    and len: "Suc (length L) < 2 ^ 64" and us: "encodes cmd us"
  obtains ss x where "ProposeAndReplicate cmd c = Some (Status_Ok, c\<lparr>sc_stores := ss\<rparr>)"
    and "synced r t (L @ [x]) (apply_mutations us m) ss" and "led_by (sc_leader_peer_id c) ss"
    and "\<forall>s \<in> set ss. store_rel r (apply_mutations us m) s"
    and "map sr_peer_id ss = map sr_peer_id (sc_stores c)"
    and "map sr_store_id ss = map sr_store_id (sc_stores c)" and "le_command x = cmd"
proof -
  let ?p = "sc_leader_peer_id c" and ?ss = "sc_stores c"
  have d: "distinct (map sr_peer_id ?ss)" using sy by (simp add: synced_def)
  obtain l0 where l0: "find_peer ?p ?ss = Some l0" "rn_role (sr_raft l0) = kLeader"
    using ld by (auto simp: led_by_def)
  then have at0: "store_at r t L (length L) (length L) m l0"
    using find_peer_Some [OF l0(1)] sy by (auto simp: synced_def)
  have "cmd \<noteq> []" using us by (simp add: encodes_def)
  from leader_proposes [OF at0 l0(2) len this] obtain x l1 where
    pr: "Propose kNormal cmd (sr_raft l0) = Inr (x, push_entry x (sr_raft l0))"
      "PersistLogEntry x (l0\<lparr>sr_raft := push_entry x (sr_raft l0)\<rparr>) = (Status_Ok, l1)"
    and l1: "store_at r t (L @ [x]) (length L) (length L) m l1" "same_ids l0 l1" "rn_role (sr_raft l1) = kLeader"
    and x0: "le_command x = cmd" "le_type x = kNormal"
    by metis
  have x: "le_command x = cmd" "le_type x = kNormal" "le_command x \<noteq> []" "encodes (le_command x) us"
    using x0 us \<open>cmd \<noteq> []\<close> by simp_all
  have xi: "unat (le_index x) = Suc (length L)" using store_at_bounds(3) [OF l1(1)] by simp
  let ?W = "write_peer ?p l1 ?ss" and ?B = "\<lambda>s. store_at r t (L @ [x]) (length L) (length L) m s"
  obtain k stores where
    fo: "for_others ?p (replicate_body (replicate_request (sc_region_id c) ?p (sr_raft l1) x) x) ?W = Some (Status_Ok, k, stores)"
      "Suc k = length stores"
    and st: "list_all2 (\<lambda>s s'. if sr_peer_id s = ?p then s' = s else same_ids s s' \<and> ?B s') ?W stores"
    using replicate_phase [OF sy l0(1) l1(2,1) x(3)] by blast
  obtain l2 where
    l2: "ApplyCommitted (l1\<lparr>sr_raft := SetCommitIndex (le_index x) (sr_raft l1)\<rparr>) = Some (Status_Ok, l2)"
      "same_ids l1 l2" "store_at r t (L @ [x]) (Suc (length L)) (Suc (length L)) (apply_mutations us m) l2"
      "store_rel r (apply_mutations us m) l2" "rn_role (sr_raft l2) = kLeader"
    using leader_commits [OF l1(1) x(2,4)] l1(3) by metis
  have i2: "same_ids l0 l2" using l2(2) l1(2) by (simp add: same_ids_def)
  let ?c3 = "c\<lparr>sc_stores := write_peer ?p l2 stores\<rparr>"
  have Q2: "sr_peer_id l2 \<noteq> ?p \<longrightarrow> ?B l2" using i2 find_peer_Some [OF l0(1)] by (simp add: same_ids_def)
  have "list_all2 (\<lambda>s s'. if sr_peer_id s = ?p then s' = s else same_ids s s' \<and> (sr_peer_id s' \<noteq> ?p \<longrightarrow> ?B s')) ?W stores"
    using st by (rule list_all2_mono) (auto split: if_splits)
  note fin = others_then_write [OF d l0(1) l1(2) i2, of "\<lambda>s. sr_peer_id s \<noteq> ?p \<longrightarrow> ?B s", OF Q2 this]
  have "distinct (map sr_peer_id (sc_stores ?c3))" "Leader ?c3 = Some l2"
    using fin d by (simp_all add: Leader_def)
  from BroadcastCommit_sync [OF this l2(3,4) _ x(2,4) xi] obtain ss where
    ss: "BroadcastCommit (le_index x) ?c3 = Some (Status_Ok, c\<lparr>sc_stores := ss\<rparr>)" "find_peer ?p ss = Some l2"
     "\<forall>s \<in> set ss. store_at r t (L @ [x]) (Suc (length L)) (Suc (length L)) (apply_mutations us m) s \<and>
      store_rel r (apply_mutations us m) s"
     "map sr_peer_id ss = map sr_peer_id ?ss" "map sr_store_id ss = map sr_store_id ?ss"
    using fin by auto
  have "ProposeAndReplicate cmd c = Some (Status_Ok, c\<lparr>sc_stores := ss\<rparr>)"
    using l0(1) pr fo l2(1) ss(1) by (simp add: ProposeAndReplicate_def Leader_def Let_def)
  then show thesis
    using that [of ss x] ss d l2(5) x(1) by (simp add: synced_def led_by_def)
qed

section \<open>Starting and restarting the cluster\<close>

definition healthy_env :: "file_env \<Rightarrow> bool" where
  "healthy_env env \<longleftrightarrow> (\<forall>p. fe_io env p = [])"

text \<open>
  The state between calls: the cluster of \<open>n\<close> stores bootstrapped in directory \<open>d\<close>, every
  store with the same term, log and data, all of it on disk, and an acting leader.
\<close>

definition cluster_rel :: "string \<Rightarrow> nat \<Rightarrow> u64 \<Rightarrow> u64 \<Rightarrow> LogEntry list \<Rightarrow> kv_map \<Rightarrow> SingleRegionCluster \<Rightarrow> bool" where
  "cluster_rel d n r t L m c \<longleftrightarrow> 0 < n \<and> sc_region_id c = r \<and> sc_data_dir c = d \<and> healthy_env (sc_files c) \<and>
     synced r t L m (sc_stores c) \<and> (\<forall>s \<in> set (sc_stores c). store_rel r m s) \<and>
     led_by (sc_leader_peer_id c) (sc_stores c) \<and>
     map sr_peer_id (sc_stores c) = boot_ids n \<and> map sr_store_id (sc_stores c) = boot_ids n"

definition close_all :: "SingleRegionCluster \<Rightarrow> file_env" where
  "close_all c = fold (close_store (sc_data_dir c)) (sc_stores c) (sc_files c)"

lemma distinct_boot_ids: "n < 2 ^ 64 \<Longrightarrow> distinct (boot_ids n)"
  unfolding boot_ids_def distinct_map
proof
  assume n: "n < 2 ^ 64"
  show "inj_on (\<lambda>i. of_nat (i + 1) :: u64) (set [0..<n])"
  proof (rule inj_onI)
    fix i j
    assume ij: "i \<in> set [0..<n]" "j \<in> set [0..<n]" "(of_nat (i + 1) :: u64) = of_nat (j + 1)"
    then have "i + 1 < 2 ^ 64" "j + 1 < 2 ^ 64" using n by auto
    then show "i = j" using arg_cong [OF ij(3), of unat] by (simp add: unat_of_nat del: of_nat_Suc)
  qed
qed simp

lemma boot_ids_hd: "0 < n \<Longrightarrow> hd (boot_ids n) \<in> set (boot_ids n)"
  by (rule hd_in_set) (simp add: boot_ids_def)

lemma store_dir_inj [simp]: "store_dir d i = store_dir d j \<longleftrightarrow> i = j"
  by (simp add: store_dir_def)

lemma close_store_sel [simp]:
  "fe_log (close_store d s env) = (fe_log env)(store_dir d (sr_store_id s) := kv_disk (sr_engine s))"
  "fe_io (close_store d s env) = (fe_io env)(store_dir d (sr_store_id s) := kv_io (sr_engine s))"
  by (simp_all add: close_store_def Let_def)

lemma close_stores:
  assumes "distinct (map sr_store_id ss)" and "s \<in> set ss"
  shows "fe_log (fold (close_store d) ss env) (store_dir d (sr_store_id s)) = kv_disk (sr_engine s)"
proof -
  have other: "fe_log (fold (close_store d) ss env) (store_dir d i) = fe_log env (store_dir d i)"
    if "i \<notin> sr_store_id ` set ss" for ss env i
    using that by (induction ss arbitrary: env) auto
  show ?thesis
    using assms
  proof (induction ss arbitrary: env)
    case (Cons a ss)
    then show ?case by (cases "s = a") (auto simp: other)
  qed simp
qed

lemma close_stores_healthy:
  "healthy_env env \<Longrightarrow> \<forall>s \<in> set ss. kv_io (sr_engine s) = [] \<Longrightarrow> healthy_env (fold (close_store d) ss env)"
  by (induction ss arbitrary: env) (auto simp: healthy_env_def)

lemma dir_op_healthy [simp]: "healthy_env env \<Longrightarrow> dir_op d env = Some env"
  by (simp add: healthy_env_def dir_op_def)

lemma open_stores_ok:
  assumes "\<And>i. i \<in> set ids \<Longrightarrow> \<exists>s. store_Open env d (SingleRegionStore_new i i r peers) = Some (Status_Ok, s) \<and> P i s"
  shows "\<exists>ss. open_stores d r peers ids env = Some (Status_Ok, ss, env) \<and> list_all2 P ids ss"
  using assms
proof (induction ids)
  case (Cons i ids)
  then obtain s ss where "store_Open env d (SingleRegionStore_new i i r peers) = Some (Status_Ok, s)" "P i s"
    "open_stores d r peers ids env = Some (Status_Ok, ss, env)" "list_all2 P ids ss"
    by (metis list.set_intros)
  then show ?case by simp
qed simp

text \<open>
  Bootstrapping on a healthy file system: when every store directory opens to a store in the
  same term with the same log and data, the first store is elected.
\<close>

lemma Bootstrap_opens:
  assumes n: "0 < n" "n < 2 ^ 64" and env: "healthy_env env" and t: "t \<noteq> - 1"
    and opens: "\<And>i. i \<in> set (boot_ids n) \<Longrightarrow> \<exists>s. store_Open env' d (SingleRegionStore_new i i r (boot_ids n)) = Some (Status_Ok, s) \<and>
      (store_at r t L (length L) (length L) m s \<and> sr_store_id s = i \<and> sr_peer_id s = i \<and> rn_role (sr_raft s) = kFollower)"
    and env': "env' = (if reset then remove_all d env else env)"
  shows "\<exists>c. Bootstrap d n r reset (SingleRegionCluster_new env) = Some (Status_Ok, c) \<and> cluster_rel d n r (t + 1) L m c"
proof -
  let ?P = "\<lambda>i s. store_at r t L (length L) (length L) m s \<and> sr_store_id s = i \<and> sr_peer_id s = i \<and> rn_role (sr_raft s) = kFollower"
  obtain ss where ss: "open_stores d r (boot_ids n) (boot_ids n) env' = Some (Status_Ok, ss, env')"
    "list_all2 ?P (boot_ids n) ss"
    using open_stores_ok [of "boot_ids n" env' d r "boot_ids n" ?P] opens by blast
  have ids: "map sr_peer_id ss = boot_ids n" "map sr_store_id ss = boot_ids n"
    using ss(2) by (induction rule: list_all2_induct) simp_all
  have "\<forall>s \<in> set ss. store_at r t L (length L) (length L) m s \<and> rn_role (sr_raft s) = kFollower"
    using list_all2_in_set [OF ss(2)] by blast
  then have sy: "synced r t L m ss" and none: "find (\<lambda>s. rn_role (sr_raft s) = kLeader) ss = None"
    using ids distinct_boot_ids [OF n(2)] by (auto simp: synced_def find_None_iff)
  define c where "c = \<lparr>sc_region_id = r, sc_leader_peer_id = 0, sc_peer_ids = boot_ids n, sc_stores = ss,
      sc_data_dir = d, sc_files = env'\<rparr>"
  have "hd (boot_ids n) \<in> sr_peer_id ` set (sc_stores c)"
    using boot_ids_hd [OF n(1)] ids(1) by (metis SingleRegionCluster.select_convs(4) c_def list.set_map)
  from ElectLeader_synced [of r t L m c, OF _ this t] sy obtain ss' where
    el: "ElectLeader (hd (boot_ids n)) c = Some (Status_Ok, c\<lparr>sc_stores := ss', sc_leader_peer_id := hd (boot_ids n)\<rparr>)"
    "synced r (t + 1) L m ss'" "led_by (hd (boot_ids n)) ss'" "\<forall>s \<in> set ss'. store_rel r m s"
    "map sr_peer_id ss' = map sr_peer_id ss" "map sr_store_id ss' = map sr_store_id ss"
    by (metis SingleRegionCluster.select_convs(4) c_def)
  have h': "healthy_env env'" using env env' by (simp add: healthy_env_def remove_all_def)
  have "Bootstrap d n r reset (SingleRegionCluster_new env) = ElectLeader (hd (boot_ids n)) c"
    using n env h' env' ss(1) none
    by (cases reset) (simp_all add: Bootstrap_def SingleRegionCluster_new_def Let_def c_def)
  with el ids h' n show ?thesis by (auto simp: cluster_rel_def c_def)
qed

lemma store_at_cong_view: "store_at r t L c a m s \<Longrightarrow> kv_io (sr_engine s) = []"
  by (auto simp: store_at_def store_log_rel_def dest: engine_rel_parts(2))

lemma Bootstrap_fresh:
  assumes "0 < n" "n < 2 ^ 64" and "healthy_env env"
  shows "\<exists>c. Bootstrap d n r True (SingleRegionCluster_new env) = Some (Status_Ok, c) \<and> cluster_rel d n r 1 [] fmempty c"
proof -
  have log: "fe_log (remove_all d env) (store_dir d i) = []" "fe_io (remove_all d env) (store_dir d i) = []" for i
    using assms(3) by (simp_all add: remove_all_def store_dir_def healthy_env_def)
  have "\<exists>c. Bootstrap d n r True (SingleRegionCluster_new env) = Some (Status_Ok, c) \<and>
      cluster_rel d n r (0 + 1) [] fmempty c"
  proof (rule Bootstrap_opens [OF assms, where env' = "remove_all d env"])
    fix i
    obtain s where "store_Open (remove_all d env) d (SingleRegionStore_new i i r (boot_ids n)) = Some (Status_Ok, s)"
      "store_at r 0 [] 0 0 fmempty s" "sr_store_id s = i" "sr_peer_id s = i" "rn_role (sr_raft s) = kFollower"
      by (rule store_Open_fresh [OF log, of i])
    then show "\<exists>s. store_Open (remove_all d env) d (SingleRegionStore_new i i r (boot_ids n)) = Some (Status_Ok, s) \<and>
        (store_at r 0 [] (length []) (length []) fmempty s \<and> sr_store_id s = i \<and> sr_peer_id s = i \<and>
         rn_role (sr_raft s) = kFollower)"
      by simp
  qed simp_all
  then show ?thesis by simp
qed

lemma Bootstrap_reopens:
  assumes c: "cluster_rel d n r t L m c" and n: "n < 2 ^ 64" and t: "t \<noteq> - 1" and env: "healthy_env env"
    and logs: "\<And>s. s \<in> set (sc_stores c) \<Longrightarrow> fe_log env (store_dir d (sr_store_id s)) = kv_disk (sr_engine s)"
  shows "\<exists>c'. Bootstrap d n r False (SingleRegionCluster_new env) = Some (Status_Ok, c') \<and> cluster_rel d n r (t + 1) L m c'"
proof -
  have sc: "0 < n" "map sr_store_id (sc_stores c) = boot_ids n"
    and st: "\<And>s. s \<in> set (sc_stores c) \<Longrightarrow> store_rel r m s \<and> store_at r t L (length L) (length L) m s"
    using c by (auto simp: cluster_rel_def synced_def)
  show ?thesis
  proof (rule Bootstrap_opens [OF sc(1) n env t, where env' = env])
    fix i
    assume "i \<in> set (boot_ids n)"
    then obtain s where s: "s \<in> set (sc_stores c)" "sr_store_id s = i"
      unfolding sc(2) [symmetric] by auto
    have io: "fe_io env (store_dir d i) = []" using env by (simp add: healthy_env_def)
    from st [OF s(1)] logs [OF s(1)] show "\<exists>s. store_Open env d (SingleRegionStore_new i i r (boot_ids n)) = Some (Status_Ok, s) \<and>
        (store_at r t L (length L) (length L) m s \<and> sr_store_id s = i \<and> sr_peer_id s = i \<and>
         rn_role (sr_raft s) = kFollower)"
      using store_Open_kept [OF _ _ _ io] s(2) by metis
  qed simp
qed

lemma close_all_rel:
  assumes c: "cluster_rel d n r t L m c" and n: "n < 2 ^ 64"
  shows "healthy_env (close_all c)"
    and "s \<in> set (sc_stores c) \<Longrightarrow> fe_log (close_all c) (store_dir d (sr_store_id s)) = kv_disk (sr_engine s)"
proof -
  have sc: "sc_data_dir c = d" "healthy_env (sc_files c)" "map sr_store_id (sc_stores c) = boot_ids n"
    and st: "\<And>s. s \<in> set (sc_stores c) \<Longrightarrow> store_at r t L (length L) (length L) m s"
    using c by (auto simp: cluster_rel_def synced_def)
  show "healthy_env (close_all c)"
    unfolding close_all_def using sc(2) st by (intro close_stores_healthy) (auto dest: store_at_cong_view)
  show "s \<in> set (sc_stores c) \<Longrightarrow> fe_log (close_all c) (store_dir d (sr_store_id s)) = kv_disk (sr_engine s)"
    using close_stores [of "sc_stores c" s d "sc_files c"] sc distinct_boot_ids [OF n] by (simp add: close_all_def)
qed

lemma Bootstrap_restart:
  assumes c: "cluster_rel d n r t L m c" and n: "n < 2 ^ 64" and t: "t \<noteq> - 1"
  shows "\<exists>c'. Bootstrap d n r False (SingleRegionCluster_new (close_all c)) = Some (Status_Ok, c') \<and>
     cluster_rel d n r (t + 1) L m c'"
  by (rule Bootstrap_reopens [OF c n t]) (use close_all_rel [OF c n] in auto)

section \<open>The cluster as a map\<close>

text \<open>
  The calls a client makes, the effect of each on a map, and their conditions: keys that are
  not empty and not in the \<open>raft/\<close> range of the shared engine, transfers to existing peers.
\<close>

datatype cluster_op =
    CPut string string | CDelete string | CBatch "KvMutation list" | CTransfer u64 | CRestart

fun map_step :: "cluster_op \<Rightarrow> kv_map \<Rightarrow> kv_map" where
  "map_step (CPut k v) m = fmupd k v m"
| "map_step (CDelete k) m = fmdrop k m"
| "map_step (CBatch us) m = apply_mutations us m"
| "map_step (CTransfer p) m = m"
| "map_step CRestart m = m"

fun cluster_step :: "string \<Rightarrow> nat \<Rightarrow> u64 \<Rightarrow> cluster_op \<Rightarrow> SingleRegionCluster \<Rightarrow> (Status \<times> SingleRegionCluster) option" where
  "cluster_step d n r (CPut k v) c = cluster_Put k v c"
| "cluster_step d n r (CDelete k) c = cluster_Delete k c"
| "cluster_step d n r (CBatch us) c = cluster_Batch us c"
| "cluster_step d n r (CTransfer p) c = TransferLeader p c"
| "cluster_step d n r CRestart c = Bootstrap d n r False (SingleRegionCluster_new (close_all c))"

fun cluster_run :: "string \<Rightarrow> nat \<Rightarrow> u64 \<Rightarrow> cluster_op list \<Rightarrow> SingleRegionCluster \<Rightarrow> SingleRegionCluster option" where
  "cluster_run d n r [] c = Some c"
| "cluster_run d n r (op # rest) c =
     (case cluster_step d n r op c of
        Some (status, c') \<Rightarrow> if ok status then cluster_run d n r rest c' else None
      | None \<Rightarrow> None)"

fun cluster_op_ok :: "nat \<Rightarrow> cluster_op \<Rightarrow> bool" where
  "cluster_op_ok n (CPut k v) = user_key k"
| "cluster_op_ok n (CDelete k) = user_key k"
| "cluster_op_ok n (CBatch us) = (length us < 2 ^ 64 \<and> (\<forall>u \<in> set us. user_key (mu_key u)))"
| "cluster_op_ok n (CTransfer p) = (p \<in> set (boot_ids n))"
| "cluster_op_ok n CRestart = True"

lemma encodes_put: "user_key k \<Longrightarrow> encodes (EncodePutCommand k v) [mk_put k v]"
  by (simp add: encodes_def ApplyKvCommand_put user_key_def)
     (simp add: file_kv_ops_def kv_Put_def EncodePutCommand_def)

lemma encodes_delete: "user_key k \<Longrightarrow> encodes (EncodeDeleteCommand k) [mk_delete k]"
  by (simp add: encodes_def ApplyKvCommand_delete)
     (simp add: file_kv_ops_def kv_Delete_def EncodeDeleteCommand_def)

lemma encodes_batch:
  "\<forall>u \<in> set us. user_key (mu_key u) \<Longrightarrow> length us < 2 ^ 64 \<Longrightarrow> encodes (EncodeBatchCommand us) us"
  by (simp add: encodes_def ApplyKvCommand_batch user_key_def)
     (simp add: file_kv_ops_def EncodeBatchCommand_def)

lemma cluster_rel_propose:
  assumes c: "cluster_rel d n r t L m c" and "Suc (length L) < 2 ^ 64" and "encodes cmd us"
  shows "\<exists>c' x. ProposeAndReplicate cmd c = Some (Status_Ok, c') \<and> cluster_rel d n r t (L @ [x]) (apply_mutations us m) c'"
proof -
  have "synced r t L m (sc_stores c)" "led_by (sc_leader_peer_id c) (sc_stores c)"
    using c by (simp_all add: cluster_rel_def)
  then obtain ss x where "ProposeAndReplicate cmd c = Some (Status_Ok, c\<lparr>sc_stores := ss\<rparr>)"
    "synced r t (L @ [x]) (apply_mutations us m) ss" "led_by (sc_leader_peer_id c) ss"
    "\<forall>s \<in> set ss. store_rel r (apply_mutations us m) s"
    "map sr_peer_id ss = map sr_peer_id (sc_stores c)" "map sr_store_id ss = map sr_store_id (sc_stores c)"
    by (rule ProposeAndReplicate_sync [OF _ _ assms(2,3)])
  with c have "cluster_rel d n r t (L @ [x]) (apply_mutations us m) (c\<lparr>sc_stores := ss\<rparr>)"
    by (simp add: cluster_rel_def)
  with \<open>ProposeAndReplicate cmd c = _\<close> show ?thesis by blast
qed

lemma cluster_rel_elect:
  assumes c: "cluster_rel d n r t L m c" and "p \<in> set (boot_ids n)" and "t \<noteq> - 1"
  shows "\<exists>c'. ElectLeader p c = Some (Status_Ok, c') \<and> cluster_rel d n r (t + 1) L m c'"
proof -
  have "synced r t L m (sc_stores c)" and ids: "map sr_peer_id (sc_stores c) = boot_ids n"
    using c by (simp_all add: cluster_rel_def)
  moreover have "p \<in> sr_peer_id ` set (sc_stores c)" using assms(2) by (simp flip: ids)
  ultimately obtain ss where "ElectLeader p c = Some (Status_Ok, c\<lparr>sc_stores := ss, sc_leader_peer_id := p\<rparr>)"
    "synced r (t + 1) L m ss" "led_by p ss" "\<forall>s \<in> set ss. store_rel r m s"
    "map sr_peer_id ss = map sr_peer_id (sc_stores c)" "map sr_store_id ss = map sr_store_id (sc_stores c)"
    by (rule_tac ElectLeader_synced [OF _ _ assms(3)])
  moreover from this c have "cluster_rel d n r (t + 1) L m (c\<lparr>sc_stores := ss, sc_leader_peer_id := p\<rparr>)"
    by (simp add: cluster_rel_def)
  ultimately show ?thesis by blast
qed

text \<open>One call: it succeeds, and grows the term or the log by at most one.\<close>

lemma cluster_step_rel:
  assumes c: "cluster_rel d n r t L m c" and n: "n < 2 ^ 64" and ok: "cluster_op_ok n op"
    and t: "Suc (unat t) < 2 ^ 64" and L: "Suc (length L) < 2 ^ 64"
  shows "\<exists>c' t' L'. cluster_step d n r op c = Some (Status_Ok, c') \<and> cluster_rel d n r t' L' (map_step op m) c' \<and>
     unat t' \<le> Suc (unat t) \<and> length L' \<le> Suc (length L)" (is ?G)
proof -
  have t': "t \<noteq> - 1" "unat (t + 1) = Suc (unat t)" using t unat_Suc_bound [of t] by auto
  have propose: ?G if "encodes cmd us" "cluster_step d n r op c = ProposeAndReplicate cmd c"
    "map_step op m = apply_mutations us m" for cmd us
    using cluster_rel_propose [OF c L that(1)] that(2,3) by fastforce
  have elect: ?G if "\<exists>c'. cluster_step d n r op c = Some (Status_Ok, c') \<and> cluster_rel d n r (t + 1) L m c'"
    "map_step op m = m"
    using that t'(2) by fastforce
  have stay: ?G if "cluster_step d n r op c = Some (Status_Ok, c)" "map_step op m = m"
    using that c by fastforce
  show ?G
  proof (cases op)
    case (CPut k v)
    then show ?G using ok by (intro propose [OF encodes_put]) (auto simp: cluster_Put_def)
  next
    case (CDelete k)
    then show ?G using ok by (intro propose [OF encodes_delete]) (auto simp: cluster_Delete_def)
  next
    case (CBatch us)
    show ?G
    proof (cases "us = []")
      case True
      then show ?G using CBatch by (intro stay) (auto simp: cluster_Batch_def)
    next
      case False
      then show ?G using ok CBatch by (intro propose [OF encodes_batch [of us]]) (auto simp: cluster_Batch_def)
    qed
  next
    case (CTransfer p)
    show ?G
    proof (cases "sc_leader_peer_id c = p")
      case True
      then show ?G using CTransfer by (intro stay) (auto simp: TransferLeader_def)
    next
      case False
      then show ?G using CTransfer ok cluster_rel_elect [OF c _ t'(1)] by (intro elect) (auto simp: TransferLeader_def)
    qed
  next
    case CRestart
    then show ?G using Bootstrap_restart [OF c n t'(1)] by (intro elect) simp_all
  qed
qed

lemma cluster_run_rel:
  assumes "cluster_rel d n r t L m c" and n: "n < 2 ^ 64" and "\<forall>op \<in> set ops. cluster_op_ok n op"
    and "unat t + length ops < 2 ^ 64" and "length L + length ops < 2 ^ 64"
  shows "\<exists>c' t' L'. cluster_run d n r ops c = Some c' \<and> cluster_rel d n r t' L' (fold map_step ops m) c'"
  using assms
proof (induction ops arbitrary: c t L m)
  case (Cons op ops)
  have "cluster_op_ok n op" "Suc (unat t) < 2 ^ 64" "Suc (length L) < 2 ^ 64"
    using Cons.prems(3-5) by auto
  from cluster_step_rel [OF Cons.prems(1) n this] obtain c' t' L' where
    step: "cluster_step d n r op c = Some (Status_Ok, c')" "cluster_rel d n r t' L' (map_step op m) c'"
      "unat t' \<le> Suc (unat t)" "length L' \<le> Suc (length L)"
    by blast
  have "\<exists>c'' t'' L''. cluster_run d n r ops c' = Some c'' \<and> cluster_rel d n r t'' L'' (fold map_step ops (map_step op m)) c''"
    using Cons.prems step by (intro Cons.IH [OF step(2) n]) auto
  with step(1) show ?case by simp
qed auto

lemma cluster_rel_get:
  assumes "cluster_rel d n r t L m c" and "i \<in> set (boot_ids n)" and "\<not> prefix ''raft/'' k"
  shows "GetFromStore i k c = (case fmlookup m k of None \<Rightarrow> Inl (KeyNotFound (''key not found: '' @ k)) | Some v \<Rightarrow> Inr v)"
proof -
  have ids: "map sr_store_id (sc_stores c) = boot_ids n" and st: "\<forall>s \<in> set (sc_stores c). store_rel r m s"
    using assms(1) by (simp_all add: cluster_rel_def)
  have "i \<in> sr_store_id ` set (sc_stores c)" using assms(2) by (simp flip: ids)
  then have "find (\<lambda>s. sr_store_id s = i) (sc_stores c) \<noteq> None" by (auto simp: find_None_iff)
  then obtain s where s: "find (\<lambda>s. sr_store_id s = i) (sc_stores c) = Some s" by blast
  then have "store_rel r m s" using st by (auto simp: find_Some_iff)
  then have "user_view m (kv_data (sr_engine s))" by (auto simp: store_rel_def dest: engine_rel_parts(6))
  then show ?thesis using s assms(3) by (simp add: GetFromStore_def store_Get_def kv_Get_def user_view_def)
qed

section \<open>Properties\<close>

text \<open>
  C3. The replicated cluster refines a map. Bootstrap any number of stores in an empty directory
  on healthy disks and run any sequence of puts, deletes, batches, leader transfers and restarts
  of the whole cluster, with keys that are not empty and outside the \<open>raft/\<close> range: every call
  succeeds, and afterwards a read of any such key from any store returns what the map holds
  after the same calls, or key-not-found.
\<close>

theorem cluster_refines_map:
  assumes "0 < n" and "n < 2 ^ 64" and "healthy_env env" and "\<forall>op \<in> set ops. cluster_op_ok n op"
    and "length ops < 2 ^ 64 - 1"
  shows "\<exists>c0 c. Bootstrap d n r True (SingleRegionCluster_new env) = Some (Status_Ok, c0) \<and>
     cluster_run d n r ops c0 = Some c \<and>
     (\<forall>i k. i \<in> set (boot_ids n) \<longrightarrow> \<not> prefix ''raft/'' k \<longrightarrow>
        GetFromStore i k c = (case fmlookup (fold map_step ops fmempty) k of
          None \<Rightarrow> Inl (KeyNotFound (''key not found: '' @ k)) | Some v \<Rightarrow> Inr v))"
proof -
  obtain c0 where c0: "Bootstrap d n r True (SingleRegionCluster_new env) = Some (Status_Ok, c0)"
    "cluster_rel d n r 1 [] fmempty c0"
    using Bootstrap_fresh [OF assms(1-3)] by blast
  have "unat (1 :: u64) + length ops < 2 ^ 64" "length ([] :: LogEntry list) + length ops < 2 ^ 64"
    using assms(5) by simp_all
  from cluster_run_rel [OF c0(2) assms(2,4) this] obtain c t L where
    "cluster_run d n r ops c0 = Some c" "cluster_rel d n r t L (fold map_step ops fmempty) c"
    by blast
  then show ?thesis using c0(1) cluster_rel_get by blast
qed

theorem cluster_refines_map_witness:
  "\<exists>c0 c. Bootstrap ''d'' 3 1 True (SingleRegionCluster_new \<lparr>fe_log = (\<lambda>_. []), fe_io = (\<lambda>_. [])\<rparr>) = Some (Status_Ok, c0) \<and>
     cluster_run ''d'' 3 1 [CPut ''a'' ''1'', CTransfer 2, CBatch [mk_put ''b'' ''2'', mk_delete ''a''], CRestart] c0 = Some c \<and>
     GetFromStore 3 ''b'' c = Inr ''2'' \<and> GetFromStore 1 ''a'' c = Inl (KeyNotFound ''key not found: a'')"
proof -
  let ?ops = "[CPut ''a'' ''1'', CTransfer 2, CBatch [mk_put ''b'' ''2'', mk_delete ''a''], CRestart]"
  have ids: "boot_ids 3 = [1, 2, 3]" by (simp add: boot_ids_def upt_rec)
  have "\<forall>op \<in> set ?ops. cluster_op_ok 3 op" by (simp add: user_key_def ids)
  from cluster_refines_map [OF _ _ _ this, of "\<lparr>fe_log = (\<lambda>_. []), fe_io = (\<lambda>_. [])\<rparr>" "''d''" 1]
  show ?thesis by (fastforce simp: healthy_env_def ids)
qed

end
