(* ===== verification/Multi_Region.thy ===== *)
theory Multi_Region
  imports Single_Region_Map Rpc_Service Region
begin

text \<open>
  multi_region_cluster.cpp: several regions, each with its own single-region cluster in the
  directory \<open>region-<id>\<close>, and the catalog file \<open>regions.catalog\<close>. The clusters own disjoint
  parts of the file system: a cluster works on a copy of it, and \<open>absorb\<close> takes over its part
  when it is closed. \<open>mr_catalogs\<close> is the content of the catalog file per data directory and
  \<open>mr_io\<close> the outcomes of the next operations on it. \<open>None\<close> is an exception. The lemmas show
  that the catalog can be read back, that a write goes to the region of its key only, and what
  splitting a region does to every key.
\<close>

section \<open>State\<close>

record MultiRegionCluster =
  mr_regions :: "RegionInfo list"
  mr_clusters :: "(u64, SingleRegionCluster) std_map"
  mr_data_dir :: string
  mr_store_count :: nat
  mr_files :: file_env
  mr_catalogs :: "string \<Rightarrow> string option"
  mr_io :: "io_event list"

definition MultiRegionCluster_new :: "file_env \<Rightarrow> (string \<Rightarrow> string option) \<Rightarrow> io_event list \<Rightarrow> MultiRegionCluster" where
  "MultiRegionCluster_new env catalogs io =
     \<lparr>mr_regions = [], mr_clusters = fmempty, mr_data_dir = [], mr_store_count = 0, mr_files = env,
      mr_catalogs = catalogs, mr_io = io\<rparr>"

definition mr_next_io :: "MultiRegionCluster \<Rightarrow> io_event \<times> MultiRegionCluster" where
  "mr_next_io m = (case mr_io m of [] \<Rightarrow> (IoOk, m) | ev # evs \<Rightarrow> (ev, m\<lparr>mr_io := evs\<rparr>))"

definition region_dir :: "string \<Rightarrow> u64 \<Rightarrow> string" where
  "region_dir data_dir region_id = data_dir @ ''/region-'' @ to_string region_id"

definition absorb :: "SingleRegionCluster \<Rightarrow> file_env \<Rightarrow> file_env" where
  "absorb c env =
     (let closed = close_all c; mine = (\<lambda>p. p = sc_data_dir c \<or> prefix (sc_data_dir c @ ''/'') p)
      in \<lparr>fe_log = (\<lambda>p. if mine p then fe_log closed p else fe_log env p),
          fe_io = (\<lambda>p. if mine p then fe_io closed p else fe_io env p)\<rparr>)"

section \<open>The catalog file\<close>

definition region_catalog_fields :: "RegionInfo list \<Rightarrow> FieldMap" where
  "region_catalog_fields regions =
     put_indexed PutRegionFields ''region'' 0 regions
       (fmupd ''region_count'' (show_nat (length regions)) fmempty)"

text \<open>As in the placement driver, the stream is not tested after writing.\<close>

definition PersistRegionCatalog :: "MultiRegionCluster \<Rightarrow> (Status \<times> MultiRegionCluster) option" where
  "PersistRegionCatalog m =
     (let text = EncodeFields (region_catalog_fields (mr_regions m)); (ev1, m1) = mr_next_io m
      in case ev1 of
           IoOpenFail _ \<Rightarrow> None
         | _ \<Rightarrow>
             let (ev2, m2) = mr_next_io m1;
                 write = (\<lambda>t. m2\<lparr>mr_catalogs := (mr_catalogs m2)(mr_data_dir m2 := Some t)\<rparr>)
             in case ev2 of
                  IoOpenFail _ \<Rightarrow> Some (IoError ''failed to write region catalog'', m2)
                | IoWriteFail n \<Rightarrow> Some (Status_Ok, write (take n text))
                | IoFlushFail n \<Rightarrow> Some (Status_Ok, write (take n text))
                | IoOk \<Rightarrow> Some (Status_Ok, write text))"

text \<open>The regions are appended to \<open>regions_\<close> one by one, so a failure leaves the ones read before it.\<close>

fun read_regions :: "FieldMap \<Rightarrow> nat list \<Rightarrow> RegionInfo list \<Rightarrow> Status \<times> RegionInfo list" where
  "read_regions flds [] regions = (Status_Ok, regions)"
| "read_regions flds (i # is) regions =
     (case GetRegionFields flds (''region'' @ show_nat i) of
        Inl status \<Rightarrow> (status, regions)
      | Inr region \<Rightarrow> read_regions flds is (regions @ [region]))"

definition LoadRegionCatalog :: "MultiRegionCluster \<Rightarrow> (Status \<times> MultiRegionCluster) option" where
  "LoadRegionCatalog m =
     (let (ev, m1) = mr_next_io m
      in case (ev, mr_catalogs m1 (mr_data_dir m1)) of
           (IoOpenFail _, _) \<Rightarrow> Some (IoError ''failed to read region catalog'', m1)
         | (_, None) \<Rightarrow> Some (IoError ''failed to read region catalog'', m1)
         | (_, Some encoded) \<Rightarrow>
             (case DecodeFields encoded of
                Inl status \<Rightarrow> Some (status, m1)
              | Inr flds \<Rightarrow>
                  (case field_u64 flds ''region_count'' of
                     None \<Rightarrow> None
                   | Some count \<Rightarrow>
                       let (status, regions) = read_regions flds [0 ..< unat count] []
                       in Some (status, m1\<lparr>mr_regions := regions\<rparr>))))"

definition RegionCatalogExists :: "MultiRegionCluster \<Rightarrow> bool" where
  "RegionCatalogExists m \<longleftrightarrow> mr_catalogs m (mr_data_dir m) \<noteq> None"

section \<open>Operations\<close>

definition FindRegionByKey :: "MultiRegionCluster \<Rightarrow> string \<Rightarrow> RegionInfo option" where
  "FindRegionByKey m key = find (\<lambda>region. ContainsKey region key) (mr_regions m)"

definition FindRegionCluster :: "MultiRegionCluster \<Rightarrow> u64 \<Rightarrow> SingleRegionCluster option" where
  "FindRegionCluster m region_id = fmlookup (mr_clusters m) region_id"

text \<open>The loop of \<open>Bootstrap\<close>; a cluster that fails to start is closed again.\<close>

fun start_clusters ::
  "bool \<Rightarrow> RegionInfo list \<Rightarrow> MultiRegionCluster \<Rightarrow> (Status \<times> MultiRegionCluster) option" where
  "start_clusters reset_data [] m = Some (Status_Ok, m)"
| "start_clusters reset_data (region # rest) m =
     (case Bootstrap (region_dir (mr_data_dir m) (ri_region_id region)) (mr_store_count m) (ri_region_id region)
             reset_data (SingleRegionCluster_new (mr_files m)) of
        None \<Rightarrow> None
      | Some (status, c) \<Rightarrow>
          if \<not> ok status then Some (status, m\<lparr>mr_files := absorb c (mr_files m)\<rparr>)
          else start_clusters reset_data rest
                 (m\<lparr>mr_clusters := fmupd (ri_region_id region) c (mr_clusters m)\<rparr>))"

definition mr_Bootstrap ::
  "string \<Rightarrow> nat \<Rightarrow> RegionInfo list \<Rightarrow> bool \<Rightarrow> MultiRegionCluster \<Rightarrow> (Status \<times> MultiRegionCluster) option" where
  "mr_Bootstrap data_dir store_count regions reset_data m =
     (if regions = [] then Some (InvalidArgument ''regions must not be empty'', m)
      else
        let env0 = fold absorb (map snd (entries (mr_clusters m))) (mr_files m);
            m0 = m\<lparr>mr_data_dir := data_dir, mr_store_count := store_count, mr_files := env0\<rparr>
        in case (if reset_data
                 then map_option (\<lambda>env. m0\<lparr>mr_files := remove_all data_dir env,
                        mr_catalogs := (\<lambda>p. if p = data_dir \<or> prefix (data_dir @ ''/'') p then None else mr_catalogs m0 p)\<rparr>)
                        (dir_op data_dir env0)
                 else Some m0) of
             None \<Rightarrow> None
           | Some m1 \<Rightarrow>
        case dir_op data_dir (mr_files m1) of
             None \<Rightarrow> None
           | Some env \<Rightarrow>
        case (if \<not> reset_data \<and> RegionCatalogExists m1
              then LoadRegionCatalog (m1\<lparr>mr_files := env\<rparr>)
              else Some (Status_Ok, m1\<lparr>mr_files := env, mr_regions := regions\<rparr>)) of
             None \<Rightarrow> None
           | Some (status, m2) \<Rightarrow>
               if \<not> ok status then Some (status, m2)
               else case start_clusters reset_data (mr_regions m2) (m2\<lparr>mr_clusters := fmempty\<rparr>) of
                      None \<Rightarrow> None
                    | Some (status, m3) \<Rightarrow> if \<not> ok status then Some (status, m3) else PersistRegionCatalog m3)"

text \<open>
  The clusters replaced by \<open>Bootstrap\<close> are closed at its start in the model and by \<open>clear\<close> in the
  code; nothing is written through them in between.
\<close>

text \<open>Calling an operation of the cluster of a region and storing the cluster back.\<close>

definition on_cluster ::
  "u64 \<Rightarrow> (SingleRegionCluster \<Rightarrow> (Status \<times> SingleRegionCluster) option) \<Rightarrow> MultiRegionCluster \<Rightarrow>
   (Status \<times> MultiRegionCluster) option" where
  "on_cluster region_id f m =
     (case fmlookup (mr_clusters m) region_id of
        None \<Rightarrow> None
      | Some c \<Rightarrow>
          map_option (\<lambda>(status, c'). (status, m\<lparr>mr_clusters := fmupd region_id c' (mr_clusters m)\<rparr>)) (f c))"

definition mr_Put :: "string \<Rightarrow> string \<Rightarrow> MultiRegionCluster \<Rightarrow> (Status \<times> MultiRegionCluster) option" where
  "mr_Put key v m =
     (case FindRegionByKey m key of
        None \<Rightarrow> Some (mk_status kRegionNotFound ''region not found for key'', m)
      | Some region \<Rightarrow> on_cluster (ri_region_id region) (cluster_Put key v) m)"

definition mr_Delete :: "string \<Rightarrow> MultiRegionCluster \<Rightarrow> (Status \<times> MultiRegionCluster) option" where
  "mr_Delete key m =
     (case FindRegionByKey m key of
        None \<Rightarrow> Some (mk_status kRegionNotFound ''region not found for key'', m)
      | Some region \<Rightarrow> on_cluster (ri_region_id region) (cluster_Delete key) m)"

definition mr_Batch :: "KvMutation list \<Rightarrow> MultiRegionCluster \<Rightarrow> (Status \<times> MultiRegionCluster) option" where
  "mr_Batch us m =
     (if us = [] then Some (Status_Ok, m)
      else case FindRegionByKey m (mu_key (hd us)) of
             None \<Rightarrow> Some (mk_status kRegionNotFound ''region not found for key'', m)
           | Some region \<Rightarrow>
               if \<forall>u \<in> set us. map_option ri_region_id (FindRegionByKey m (mu_key u)) = Some (ri_region_id region)
               then on_cluster (ri_region_id region) (cluster_Batch us) m
               else Some (InvalidArgument ''batch must target a single region'', m))"

definition cluster_read :: "string \<Rightarrow> Consistency \<Rightarrow> SingleRegionCluster \<Rightarrow> Status + string" where
  "cluster_read key consistency c =
     (if consistency = kLinearizable then
        (case Leader c of
           None \<Rightarrow> Inl (mk_status kNotLeader ''no leader'')
         | Some leader \<Rightarrow> store_Get key leader)
      else if sc_stores c = [] then Inl (Internal ''no stores'')
      else store_Get key (hd (sc_stores c)))"

definition mr_Get :: "string \<Rightarrow> Consistency \<Rightarrow> MultiRegionCluster \<Rightarrow> Status + string" where
  "mr_Get key consistency m =
     (case FindRegionByKey m key of
        None \<Rightarrow> Inl (mk_status kRegionNotFound ''region not found for key'')
      | Some region \<Rightarrow>
          (case FindRegionCluster m (ri_region_id region) of
             None \<Rightarrow> Inl (mk_status kRegionNotFound ''region cluster not found'')
           | Some c \<Rightarrow> cluster_read key consistency c))"

definition next_region_id :: "RegionInfo list \<Rightarrow> u64" where
  "next_region_id regions = fold (\<lambda>region n. max n (ri_region_id region + 1)) regions 1"

text \<open>The two halves, as the code derives them from the region.\<close>

definition mr_split_left :: "RegionInfo \<Rightarrow> string \<Rightarrow> RegionInfo" where
  "mr_split_left region split_key =
     region\<lparr>ri_end_key := split_key,
       ri_epoch := (ri_epoch region)\<lparr>re_version := re_version (ri_epoch region) + 1\<rparr>\<rparr>"

definition mr_split_right :: "RegionInfo \<Rightarrow> string \<Rightarrow> u64 \<Rightarrow> RegionInfo" where
  "mr_split_right region split_key new_id =
     (let peers = map (\<lambda>peer. peer\<lparr>pr_peer_id := pr_peer_id peer + new_id * 1000\<rparr>) (ri_peers region)
      in region\<lparr>ri_region_id := new_id, ri_start_key := split_key,
           ri_epoch := (ri_epoch region)\<lparr>re_version := re_version (ri_epoch (mr_split_left region split_key))\<rparr>,
           ri_peers := peers,
           ri_leader_peer_id := (if peers \<noteq> [] then pr_peer_id (hd peers) else ri_leader_peer_id region)\<rparr>)"

fun replace_region :: "u64 \<Rightarrow> (RegionInfo \<Rightarrow> RegionInfo) \<Rightarrow> RegionInfo list \<Rightarrow> RegionInfo list" where
  "replace_region i f [] = []"
| "replace_region i f (region # rest) =
     (if ri_region_id region = i then f region # rest else region # replace_region i f rest)"

text \<open>The keys that move: the leader's keys of the right half outside the reserved prefixes.\<close>

definition migrated_keys :: "string \<Rightarrow> string \<Rightarrow> SingleRegionCluster \<Rightarrow> (string \<times> string) list" where
  "migrated_keys split_key end_key source =
     filter (\<lambda>kv. \<not> reserved_key (fst kv)) (ExportRangeFromLeader split_key end_key source)"

definition mr_SplitRegion ::
  "u64 \<Rightarrow> string \<Rightarrow> MultiRegionCluster \<Rightarrow> ((Status + RegionInfo \<times> RegionInfo) \<times> MultiRegionCluster) option" where
  "mr_SplitRegion region_id split_key m =
     (case find (\<lambda>region. ri_region_id region = region_id) (mr_regions m) of
        None \<Rightarrow> Some (Inl (mk_status kRegionNotFound ''region not found''), m)
      | Some region \<Rightarrow>
          if \<not> ContainsKey region split_key \<or> split_key = ri_start_key region \<or>
             (ri_end_key region \<noteq> [] \<and> split_key = ri_end_key region)
          then Some (Inl (InvalidArgument ''split key is outside region boundary''), m)
          else case FindRegionCluster m region_id of
                 None \<Rightarrow> Some (Inl (mk_status kRegionNotFound ''source region cluster not found''), m)
               | Some source \<Rightarrow>
          let new_id = next_region_id (mr_regions m);
              left = mr_split_left region split_key;
              right = mr_split_right region split_key new_id
          in case Bootstrap (region_dir (mr_data_dir m) new_id) (mr_store_count m) new_id True
                    (SingleRegionCluster_new (mr_files m)) of
               None \<Rightarrow> None
             | Some (status, c0) \<Rightarrow>
                 let drop_right = (\<lambda>c. m\<lparr>mr_files := absorb c (mr_files m)\<rparr>)
                 in if \<not> ok status then Some (Inl status, drop_right c0)
                    else
                      let migrated = migrated_keys split_key (ri_end_key region) source
                      in case cluster_Batch (map (\<lambda>(k, v). mk_put k v) migrated) c0 of
                           None \<Rightarrow> None
                         | Some (status, c1) \<Rightarrow>
                             if \<not> ok status then Some (Inl status, drop_right c1)
                             else case cluster_Batch (map (\<lambda>kv. mk_delete (fst kv)) migrated) source of
                                    None \<Rightarrow> None
                                  | Some (status, source1) \<Rightarrow>
                                      if \<not> ok status
                                      then Some (Inl status, (drop_right c1)\<lparr>mr_clusters := fmupd region_id source1 (mr_clusters m)\<rparr>)
                                      else map_option
                                             (\<lambda>(status, m'). (if ok status then Inr (left, right) else Inl status, m'))
                                             (PersistRegionCatalog
                                               (m\<lparr>mr_regions := replace_region region_id (\<lambda>_. left) (mr_regions m) @ [right],
                                                  mr_clusters := fmupd new_id c1 (fmupd region_id source1 (mr_clusters m))\<rparr>)))"

text \<open>
  The membership operations: the call on the cluster, the change of the region record when it
  succeeds, the catalog.
\<close>

definition change_region ::
  "u64 \<Rightarrow> (SingleRegionCluster \<Rightarrow> (Status \<times> SingleRegionCluster) option) \<Rightarrow> (RegionInfo \<Rightarrow> RegionInfo) \<Rightarrow>
   MultiRegionCluster \<Rightarrow> (Status \<times> MultiRegionCluster) option" where
  "change_region region_id call change m =
     (if FindRegionCluster m region_id = None
      then Some (mk_status kRegionNotFound ''region cluster not found'', m)
      else case on_cluster region_id call m of
             None \<Rightarrow> None
           | Some (status, m1) \<Rightarrow>
               if \<not> ok status then Some (status, m1)
               else PersistRegionCatalog (m1\<lparr>mr_regions := replace_region region_id change (mr_regions m1)\<rparr>))"

definition mr_TransferLeader :: "u64 \<Rightarrow> u64 \<Rightarrow> MultiRegionCluster \<Rightarrow> (Status \<times> MultiRegionCluster) option" where
  "mr_TransferLeader region_id target_peer_id m =
     change_region region_id (TransferLeader target_peer_id) (\<lambda>r. r\<lparr>ri_leader_peer_id := target_peer_id\<rparr>) m"

definition mr_AddPeer :: "u64 \<Rightarrow> u64 \<Rightarrow> u64 \<Rightarrow> MultiRegionCluster \<Rightarrow> (Status \<times> MultiRegionCluster) option" where
  "mr_AddPeer region_id store_id peer_id m =
     change_region region_id (AddPeer store_id peer_id)
       (\<lambda>r. r\<lparr>ri_peers := ri_peers r @ [\<lparr>pr_peer_id = peer_id, pr_store_id = store_id, pr_role = kVoter\<rparr>],
              ri_epoch := (ri_epoch r)\<lparr>re_conf_ver := re_conf_ver (ri_epoch r) + 1\<rparr>\<rparr>) m"

definition mr_RemovePeer :: "u64 \<Rightarrow> u64 \<Rightarrow> MultiRegionCluster \<Rightarrow> (Status \<times> MultiRegionCluster) option" where
  "mr_RemovePeer region_id peer_id m =
     change_region region_id (RemovePeer peer_id)
       (\<lambda>r. let peers = filter (\<lambda>peer. pr_peer_id peer \<noteq> peer_id) (ri_peers r)
            in r\<lparr>ri_peers := peers,
                 ri_leader_peer_id := (if ri_leader_peer_id r = peer_id \<and> peers \<noteq> []
                                       then pr_peer_id (hd peers) else ri_leader_peer_id r),
                 ri_epoch := (ri_epoch r)\<lparr>re_conf_ver := re_conf_ver (ri_epoch r) + 1\<rparr>\<rparr>) m"

section \<open>Reads\<close>

definition lookup_result :: "kv_map \<Rightarrow> string \<Rightarrow> Status + string" where
  "lookup_result m k =
     (case fmlookup m k of None \<Rightarrow> Inl (KeyNotFound (''key not found: '' @ k)) | Some v \<Rightarrow> Inr v)"

lemma cluster_rel_store:
  assumes "cluster_rel d n r t L m c" and "s \<in> set (sc_stores c)" and "\<not> prefix ''raft/'' k"
  shows "store_Get k s = lookup_result m k"
proof -
  have "store_rel r m s" using assms(1,2) by (simp add: cluster_rel_def)
  then have "user_view m (kv_data (sr_engine s))" by (auto simp: store_rel_def dest: engine_rel_parts(6))
  then show ?thesis using assms(3) by (simp add: store_Get_def kv_Get_def user_view_def lookup_result_def)
qed

lemma cluster_rel_leader:
  assumes "cluster_rel d n r t L m c"
  obtains l where "Leader c = Some l" and "l \<in> set (sc_stores c)"
  using assms find_peer_Some by (force simp: cluster_rel_def led_by_def Leader_def)

lemma cluster_read_rel:
  assumes "cluster_rel d n r t L m c" and "\<not> prefix ''raft/'' k"
  shows "cluster_read k cons c = lookup_result m k"
proof -
  obtain l where "Leader c = Some l" "l \<in> set (sc_stores c)" by (rule cluster_rel_leader [OF assms(1)])
  then show ?thesis
    using cluster_rel_store [OF assms(1) _ assms(2)]
    by (auto simp: cluster_read_def intro: hd_in_set)
qed

section \<open>Several regions\<close>

text \<open>
  All regions have a cluster in step with a map, with room for \<open>j\<close> more calls below the 64-bit
  bounds; regions do not overlap.
\<close>

definition region_rel :: "string \<Rightarrow> nat \<Rightarrow> nat \<Rightarrow> u64 \<Rightarrow> kv_map \<Rightarrow> SingleRegionCluster \<Rightarrow> bool" where
  "region_rel d n j r m c \<longleftrightarrow>
     (\<exists>t L. cluster_rel d n r t L m c \<and> unat t + j < 2 ^ 64 \<and> length L + j < 2 ^ 64)"

definition disjoint_regions :: "RegionInfo list \<Rightarrow> bool" where
  "disjoint_regions rs \<longleftrightarrow> distinct (map ri_region_id rs) \<and>
     (\<forall>a \<in> set rs. \<forall>b \<in> set rs. \<forall>k. ContainsKey a k \<longrightarrow> ContainsKey b k \<longrightarrow> a = b)"

definition multi_rel :: "nat \<Rightarrow> nat \<Rightarrow> (u64 \<Rightarrow> kv_map) \<Rightarrow> MultiRegionCluster \<Rightarrow> bool" where
  "multi_rel n j M m \<longleftrightarrow> 0 < n \<and> n < 2 ^ 64 \<and> mr_store_count m = n \<and> healthy_env (mr_files m) \<and> mr_io m = [] \<and>
     disjoint_regions (mr_regions m) \<and> fmdom' (mr_clusters m) = ri_region_id ` set (mr_regions m) \<and>
     (\<forall>r \<in> set (mr_regions m). \<exists>c. fmlookup (mr_clusters m) (ri_region_id r) = Some c \<and>
        region_rel (region_dir (mr_data_dir m) (ri_region_id r)) n j (ri_region_id r) (M (ri_region_id r)) c)"

lemma find_no_region: "FindRegionByKey m k = None \<longleftrightarrow> (\<forall>r \<in> set (mr_regions m). \<not> ContainsKey r k)"
  by (auto simp: FindRegionByKey_def find_None_iff)

lemma find_region_in: "FindRegionByKey m k = Some r \<Longrightarrow> r \<in> set (mr_regions m) \<and> ContainsKey r k"
  by (auto simp: FindRegionByKey_def find_Some_iff)

lemma find_region:
  "disjoint_regions (mr_regions m) \<Longrightarrow>
     FindRegionByKey m k = Some r \<longleftrightarrow> r \<in> set (mr_regions m) \<and> ContainsKey r k"
proof
  assume "FindRegionByKey m k = Some r"
  then show "r \<in> set (mr_regions m) \<and> ContainsKey r k" by (rule find_region_in)
next
  assume d: "disjoint_regions (mr_regions m)" and r: "r \<in> set (mr_regions m) \<and> ContainsKey r k"
  then obtain q where "FindRegionByKey m k = Some q" using find_no_region by blast
  moreover from find_region_in [OF this] d r have "q = r" unfolding disjoint_regions_def by blast
  ultimately show "FindRegionByKey m k = Some r" by simp
qed

lemma region_rel_step:
  assumes "region_rel d n (Suc j) r m c" and "n < 2 ^ 64" and "cluster_op_ok n op"
  shows "\<exists>c'. cluster_step d n r op c = Some (Status_Ok, c') \<and> region_rel d n j r (map_step op m) c'"
proof -
  obtain t L where tl: "cluster_rel d n r t L m c" "unat t + Suc j < 2 ^ 64" "length L + Suc j < 2 ^ 64"
    using assms(1) by (auto simp: region_rel_def)
  then have "Suc (unat t) < 2 ^ 64" "Suc (length L) < 2 ^ 64" by linarith+
  from cluster_step_rel [OF tl(1) assms(2,3) this] obtain c' t' L' where
    "cluster_step d n r op c = Some (Status_Ok, c')" "cluster_rel d n r t' L' (map_step op m) c'"
    "unat t' \<le> Suc (unat t)" "length L' \<le> Suc (length L)"
    by blast
  moreover have "unat t' + j < 2 ^ 64" "length L' + j < 2 ^ 64" using calculation tl by linarith+
  ultimately show ?thesis by (auto simp: region_rel_def)
qed

lemma mr_Get_rel:
  assumes "multi_rel n j M m" and "FindRegionByKey m k = Some r" and "\<not> prefix ''raft/'' k"
  shows "mr_Get k cons m = lookup_result (M (ri_region_id r)) k"
proof -
  have "r \<in> set (mr_regions m)" using assms(1,2) find_region by (auto simp: multi_rel_def)
  then obtain c where "fmlookup (mr_clusters m) (ri_region_id r) = Some c"
    "region_rel (region_dir (mr_data_dir m) (ri_region_id r)) n j (ri_region_id r) (M (ri_region_id r)) c"
    using assms(1) by (auto simp: multi_rel_def)
  then show ?thesis
    using assms(2,3) cluster_read_rel by (auto simp: mr_Get_def FindRegionCluster_def region_rel_def)
qed

lemma region_rel_mono: "region_rel d n j r m c \<Longrightarrow> i \<le> j \<Longrightarrow> region_rel d n i r m c"
  unfolding region_rel_def by (meson add_left_mono le_less_trans)

lemma multi_rel_region:
  assumes "multi_rel n j M m" and "r \<in> set (mr_regions m)"
  obtains c where "fmlookup (mr_clusters m) (ri_region_id r) = Some c"
    and "region_rel (region_dir (mr_data_dir m) (ri_region_id r)) n j (ri_region_id r) (M (ri_region_id r)) c"
  using assms by (auto simp: multi_rel_def)

lemma on_cluster_step:
  assumes m: "multi_rel n (Suc j) M m" and r: "r \<in> set (mr_regions m)" and ok: "cluster_op_ok n op"
    and call: "\<And>d. cluster_step d n (ri_region_id r) op = call"
  shows "\<exists>m'. on_cluster (ri_region_id r) call m = Some (Status_Ok, m') \<and> mr_regions m' = mr_regions m \<and>
     multi_rel n j (M(ri_region_id r := map_step op (M (ri_region_id r)))) m'"
proof -
  let ?i = "ri_region_id r" and ?d = "region_dir (mr_data_dir m)"
  have n: "n < 2 ^ 64" using m by (simp add: multi_rel_def)
  obtain c where c: "fmlookup (mr_clusters m) ?i = Some c" "region_rel (?d ?i) n (Suc j) ?i (M ?i) c"
    by (rule multi_rel_region [OF m r])
  obtain c' where c': "call c = Some (Status_Ok, c')" "region_rel (?d ?i) n j ?i (map_step op (M ?i)) c'"
    using region_rel_step [OF c(2) n ok] by (auto simp: call)
  let ?m = "m\<lparr>mr_clusters := fmupd ?i c' (mr_clusters m)\<rparr>"
  have "\<exists>c. fmlookup (mr_clusters ?m) (ri_region_id q) = Some c \<and>
      region_rel (?d (ri_region_id q)) n j (ri_region_id q) ((M(?i := map_step op (M ?i))) (ri_region_id q)) c"
    if q: "q \<in> set (mr_regions m)" for q
  proof (cases "ri_region_id q = ?i")
    case False
    obtain b where "fmlookup (mr_clusters m) (ri_region_id q) = Some b"
      "region_rel (?d (ri_region_id q)) n (Suc j) (ri_region_id q) (M (ri_region_id q)) b"
      by (rule multi_rel_region [OF m q])
    with False show ?thesis using region_rel_mono [of _ n "Suc j" _ _ b j] by simp
  qed (use c'(2) in simp)
  then have "multi_rel n j (M(?i := map_step op (M ?i))) ?m"
    using m r by (auto simp: multi_rel_def fmdom'_fmupd)
  with c(1) c'(1) show ?thesis by (simp add: on_cluster_def)
qed

section \<open>Splitting a region\<close>

lemma next_region_id_fresh:
  assumes "\<forall>r \<in> set rs. ri_region_id r \<noteq> - 1"
  shows "\<forall>r \<in> set rs. ri_region_id r < next_region_id rs"
proof -
  have "(\<forall>r \<in> set rs. ri_region_id r < fold (\<lambda>region n. max n (ri_region_id region + 1)) rs x) \<and>
      x \<le> fold (\<lambda>region n. max n (ri_region_id region + 1)) rs x" for x
    using assms
  proof (induction rs arbitrary: x)
    case (Cons a rs)
    let ?x = "max x (ri_region_id a + 1)"
    define F where "F = fold (\<lambda>region n. max n (ri_region_id region + 1)) rs ?x"
    have F: "\<forall>r \<in> set rs. ri_region_id r < F" "?x \<le> F"
      using Cons.IH [of ?x] Cons.prems by (simp_all add: F_def)
    have "ri_region_id a < ri_region_id a + 1" using Cons.prems by (intro word_less_succ) simp
    also have "\<dots> \<le> F" using F(2) max.cobounded2 order.trans by blast
    finally have "ri_region_id a < F" .
    moreover have "x \<le> F" using F(2) max.cobounded1 order.trans by blast
    ultimately show ?case using F(1) by (simp add: F_def)
  qed simp
  then show ?thesis by (simp add: next_region_id_def)
qed

lemma split_contains:
  assumes "ContainsKey r sk" and "sk \<noteq> ri_start_key r"
  shows "sk \<noteq> []" and "ContainsKey r k \<longleftrightarrow> ContainsKey (mr_split_left r sk) k \<or> ContainsKey (mr_split_right r sk i) k"
    and "\<not> (ContainsKey (mr_split_left r sk) k \<and> ContainsKey (mr_split_right r sk i) k)"
proof -
  show sk: "sk \<noteq> []" using assms by (auto simp: ContainsKey_def Let_def split: if_splits)
  have b: "ri_start_key r \<le> sk" "ri_end_key r = [] \<or> sk < ri_end_key r"
    using assms(1) by (simp_all add: ContainsKey_range range_contains_def)
  show "ContainsKey r k \<longleftrightarrow> ContainsKey (mr_split_left r sk) k \<or> ContainsKey (mr_split_right r sk i) k"
    and "\<not> (ContainsKey (mr_split_left r sk) k \<and> ContainsKey (mr_split_right r sk i) k)"
    using range_split [OF b sk] by (simp_all add: ContainsKey_range mr_split_left_def mr_split_right_def Let_def)
qed

lemma replace_region_set:
  assumes "distinct (map ri_region_id rs)" and "r \<in> set rs"
  shows "set (replace_region (ri_region_id r) f rs) = insert (f r) (set rs - {r})"
  using assms
proof (induction rs)
  case (Cons a rs)
  then have "ri_region_id a = ri_region_id r \<Longrightarrow> a = r" by (auto simp: image_iff)
  with Cons show ?case by (auto simp: image_iff)
qed simp

lemma find_region_id:
  assumes "distinct (map ri_region_id rs)" and "r \<in> set rs"
  shows "find (\<lambda>q. ri_region_id q = ri_region_id r) rs = Some r"
  using assms by (induction rs) (auto simp: image_iff)

lemma replace_region_ids:
  "(\<And>r. ri_region_id (f r) = ri_region_id r) \<Longrightarrow> map ri_region_id (replace_region i f rs) = map ri_region_id rs"
  by (induction rs) auto

text \<open>What the split reads from the leader is the part of the region's map in the right half.\<close>

definition moved :: "RegionInfo \<Rightarrow> string \<Rightarrow> string \<Rightarrow> bool" where
  "moved r sk k \<longleftrightarrow> in_range sk (ri_end_key r) k \<and> \<not> reserved_key k"

lemma migrated_entries:
  assumes "cluster_rel d n i t L m c"
  shows "migrated_keys sk (ri_end_key r) c = entries (fmfilter (moved r sk) m)"
proof -
  obtain l where l: "Leader c = Some l" "l \<in> set (sc_stores c)" by (rule cluster_rel_leader [OF assms])
  then have "store_rel i m l" using assms by (simp add: cluster_rel_def)
  then have view: "user_view m (kv_data (sr_engine l))" by (auto simp: store_rel_def dest: engine_rel_parts(6))
  have "fmfilter (moved r sk) (kv_data (sr_engine l)) = fmfilter (moved r sk) m"
    using view by (intro fmap_ext) (auto simp: moved_def reserved_key_def user_view_def)
  moreover have "migrated_keys sk (ri_end_key r) c = entries (fmfilter (moved r sk) (kv_data (sr_engine l)))"
    using l(1) by (simp add: migrated_keys_def ExportRangeFromLeader_def ScanRange_filter entries_fmfilter
        moved_def [abs_def] conj_commute)
  ultimately show ?thesis by simp
qed

lemma moved_user_key: "sk \<noteq> [] \<Longrightarrow> moved r sk k \<Longrightarrow> user_key k"
  by (auto simp: moved_def in_range_def user_key_def reserved_key_def)

lemma apply_puts_entries:
  "apply_mutations (map (\<lambda>(k, v). mk_put k v) (entries m)) fmempty = m"
  by (rule fmap_ext) (simp add: apply_puts_lookup split: option.splits)

lemma apply_deletes_entries:
  "apply_mutations (map (\<lambda>kv. mk_delete (fst kv)) (entries (fmfilter P m))) m = fmfilter (\<lambda>k. \<not> P k) m"
proof (rule fmap_ext)
  fix k
  have "map (\<lambda>kv. mk_delete (fst kv)) (entries (fmfilter P m)) = map mk_delete (map fst (entries (fmfilter P m)))"
    by simp
  moreover have "k \<in> set (map fst (entries (fmfilter P m))) \<longleftrightarrow> P k \<and> fmlookup m k \<noteq> None"
    by (simp add: fst_set_entries fmdom_filter) (metis fmdomE fmdomI)
  ultimately show "fmlookup (apply_mutations (map (\<lambda>kv. mk_delete (fst kv)) (entries (fmfilter P m))) m) k =
      fmlookup (fmfilter (\<lambda>k. \<not> P k) m) k"
    by (simp only: apply_deletes_lookup) auto
qed

lemma PersistRegionCatalog_healthy:
  "mr_io m = [] \<Longrightarrow> PersistRegionCatalog m = Some (Status_Ok,
     m\<lparr>mr_catalogs := (mr_catalogs m)(mr_data_dir m := Some (EncodeFields (region_catalog_fields (mr_regions m))))\<rparr>)"
  by (simp add: PersistRegionCatalog_def mr_next_io_def)

text \<open>The data part of a split, on the two clusters.\<close>

lemma split_clusters:
  assumes src: "region_rel d n (Suc j) i m c" and n: "0 < n" "n < 2 ^ 64" and env: "healthy_env env"
    and sk: "sk \<noteq> []" and len: "length (entries m) < 2 ^ 64" and j: "j + 2 < 2 ^ 64"
  shows "\<exists>c0 c1 c'. Bootstrap d' n i' True (SingleRegionCluster_new env) = Some (Status_Ok, c0) \<and>
     cluster_Batch (map (\<lambda>(k, v). mk_put k v) (migrated_keys sk (ri_end_key r) c)) c0 = Some (Status_Ok, c1) \<and>
     region_rel d' n j i' (fmfilter (moved r sk) m) c1 \<and>
     cluster_Batch (map (\<lambda>kv. mk_delete (fst kv)) (migrated_keys sk (ri_end_key r) c)) c = Some (Status_Ok, c') \<and>
     region_rel d n j i (fmfilter (\<lambda>k. \<not> moved r sk k) m) c'"
proof -
  let ?E = "entries (fmfilter (moved r sk) m)"
  have mig: "migrated_keys sk (ri_end_key r) c = ?E"
    using src migrated_entries by (auto simp: region_rel_def)
  have user: "user_key (fst kv)" if "kv \<in> set ?E" for kv
  proof -
    have "fmlookup (fmfilter (moved r sk) m) (fst kv) = Some (snd kv)" 
      using that set_entries [of "fst kv" "snd kv" "fmfilter (moved r sk) m"] by simp
    then show ?thesis using moved_user_key [OF sk] by (simp split: if_splits)
  qed
  have "length ?E < 2 ^ 64"
    using len by (simp add: entries_fmfilter) (meson le_less_trans length_filter_le)
  then have ok: "cluster_op_ok n (CBatch (map (\<lambda>(k, v). mk_put k v) ?E))"
    "cluster_op_ok n (CBatch (map (\<lambda>kv. mk_delete (fst kv)) ?E))"
    using user by auto
  obtain c0 where c0: "Bootstrap d' n i' True (SingleRegionCluster_new env) = Some (Status_Ok, c0)"
    "cluster_rel d' n i' 1 [] fmempty c0"
    using Bootstrap_fresh [OF n env] by blast
  then have "region_rel d' n (Suc j) i' fmempty c0"
    using j unfolding region_rel_def by (intro exI [of _ 1] exI [of _ "[]"]) simp
  from region_rel_step [OF this n(2) ok(1)] obtain c1 where
    "cluster_Batch (map (\<lambda>(k, v). mk_put k v) ?E) c0 = Some (Status_Ok, c1)" "region_rel d' n j i' (fmfilter (moved r sk) m) c1"
    by (auto simp: apply_puts_entries)
  moreover from region_rel_step [OF src n(2) ok(2)] obtain c' where
    "cluster_Batch (map (\<lambda>kv. mk_delete (fst kv)) ?E) c = Some (Status_Ok, c')"
    "region_rel d n j i (fmfilter (\<lambda>k. \<not> moved r sk k) m) c'"
    by (auto simp: apply_deletes_entries)
  ultimately show ?thesis using c0(1) unfolding mig by blast
qed

lemma split_disjoint:
  assumes d: "disjoint_regions rs" and r: "r \<in> set rs" and sk: "ContainsKey r sk" "sk \<noteq> ri_start_key r"
    and new: "\<forall>q \<in> set rs. ri_region_id q < i"
  shows "disjoint_regions (replace_region (ri_region_id r) (\<lambda>_. mr_split_left r sk) rs @ [mr_split_right r sk i])"
proof -
  let ?rs = "replace_region (ri_region_id r) (\<lambda>_. mr_split_left r sk) rs @ [mr_split_right r sk i]"
  have ids: "distinct (map ri_region_id rs)" using d by (simp add: disjoint_regions_def)
  have set: "set ?rs = {mr_split_left r sk, mr_split_right r sk i} \<union> (set rs - {r})"
    using replace_region_set [OF ids r, of "\<lambda>_. mr_split_left r sk"] by auto
  have "map ri_region_id ?rs = map ri_region_id rs @ [i]"
  proof -
    have "map ri_region_id (replace_region (ri_region_id r) (\<lambda>_. mr_split_left r sk) rs) = map ri_region_id rs"
      by (induction rs) (auto simp: mr_split_left_def)
    then show ?thesis by (simp add: mr_split_right_def Let_def)
  qed
  then have "distinct (map ri_region_id ?rs)" using ids new by (auto simp: image_iff)
  moreover have "a = b" if "a \<in> set ?rs" "b \<in> set ?rs" "ContainsKey a k" "ContainsKey b k" for a b k
  proof -
    have other: "q = q'" if "q \<in> set rs" "q' \<in> set rs" "ContainsKey q k" "ContainsKey q' k" for q q'
      using d that unfolding disjoint_regions_def by blast
    note half = split_contains(2,3) [OF sk, of k i]
    show ?thesis using that half other [OF r] other unfolding set by blast
  qed
  ultimately show ?thesis unfolding disjoint_regions_def by blast
qed

text \<open>The maps of the regions after the split, and every read through them.\<close>

definition split_maps :: "RegionInfo \<Rightarrow> string \<Rightarrow> u64 \<Rightarrow> (u64 \<Rightarrow> kv_map) \<Rightarrow> u64 \<Rightarrow> kv_map" where
  "split_maps r sk i M =
     M(ri_region_id r := fmfilter (\<lambda>k. \<not> moved r sk k) (M (ri_region_id r)), i := fmfilter (moved r sk) (M (ri_region_id r)))"

lemma moved_halves:
  assumes "ContainsKey r sk" and "sk \<noteq> ri_start_key r"
  shows "ContainsKey (mr_split_left r sk) k \<Longrightarrow> \<not> moved r sk k"
    and "ContainsKey (mr_split_right r sk i) k \<Longrightarrow> moved r sk k \<longleftrightarrow> \<not> reserved_key k"
  using split_contains(1) [OF assms]
  by (auto simp: moved_def in_range_def ContainsKey_range range_contains_def mr_split_left_def mr_split_right_def Let_def not_less)

lemma split_reads:
  assumes m: "multi_rel n j0 M m" and m': "multi_rel n j (split_maps r sk i M) m'"
    and r: "r \<in> set (mr_regions m)" and sk: "ContainsKey r sk" "sk \<noteq> ri_start_key r"
    and new: "\<forall>q \<in> set (mr_regions m). ri_region_id q < i"
    and rs: "set (mr_regions m') = {mr_split_left r sk, mr_split_right r sk i} \<union> (set (mr_regions m) - {r})"
    and k: "\<not> prefix ''raft/'' k"
  shows "mr_Get k cons m' = (if reserved_key k \<and> ContainsKey (mr_split_right r sk i) k
          then Inl (KeyNotFound (''key not found: '' @ k)) else mr_Get k cons m)"
proof -
  let ?L = "mr_split_left r sk" and ?R = "mr_split_right r sk i"
  have d: "disjoint_regions (mr_regions m)" and d': "disjoint_regions (mr_regions m')"
    using m m' by (simp_all add: multi_rel_def)
  have ids: "ri_region_id ?L = ri_region_id r" "ri_region_id ?R = i" "ri_region_id r \<noteq> i"
    using new r by (auto simp: mr_split_left_def mr_split_right_def Let_def)
  note half = split_contains(2,3) [OF sk, of k i]
  have get': "mr_Get k cons m' = lookup_result (split_maps r sk i M (ri_region_id q)) k"
    if "q \<in> set (mr_regions m')" "ContainsKey q k" for q
    using mr_Get_rel [OF m' _ k] find_region [OF d'] that by blast
  have get: "mr_Get k cons m = lookup_result (M (ri_region_id q)) k"
    if "q \<in> set (mr_regions m)" "ContainsKey q k" for q
    using mr_Get_rel [OF m _ k] find_region [OF d] that by blast
  consider (left) "ContainsKey ?L k" | (right) "ContainsKey ?R k"
    | (other) q where "q \<in> set (mr_regions m)" "q \<noteq> r" "ContainsKey q k" "\<not> ContainsKey r k"
    | (none) "\<forall>q \<in> set (mr_regions m). \<not> ContainsKey q k"
    using half by blast
  then show ?thesis
  proof cases
    case left
    then show ?thesis
      using get' [of ?L] get [OF r] half moved_halves(1) [OF sk left] ids rs
      by (simp add: split_maps_def lookup_result_def)
  next
    case right
    then show ?thesis
      using get' [of ?R] get [OF r] half moved_halves(2) [OF sk right] ids rs
      by (simp add: split_maps_def lookup_result_def)
  next
    case other
    then have "ri_region_id q \<noteq> ri_region_id r" "ri_region_id q \<noteq> i"
      using d r new by (auto simp: disjoint_regions_def distinct_map inj_on_def)
    then show ?thesis
      using get' [of q] get [of q] other half rs by (simp add: split_maps_def)
  next
    case none
    then have "\<forall>q \<in> set (mr_regions m'). \<not> ContainsKey q k" using half r unfolding rs by blast
    then have "FindRegionByKey m' k = None" "FindRegionByKey m k = None" using none find_no_region by blast+
    then show ?thesis using half none r by (simp add: mr_Get_def)
  qed
qed

text \<open>The catalog file holds the regions.\<close>

definition catalog_saved :: "MultiRegionCluster \<Rightarrow> bool" where
  "catalog_saved m \<longleftrightarrow> mr_catalogs m (mr_data_dir m) = Some (EncodeFields (region_catalog_fields (mr_regions m)))"

lemma split_step:
  assumes "multi_rel n (Suc j) M m" and "r \<in> set (mr_regions m)" and "ContainsKey r sk" and "sk \<noteq> ri_start_key r"
    and "\<forall>q \<in> set (mr_regions m). ri_region_id q \<noteq> - 1" and "length (entries (M (ri_region_id r))) < 2 ^ 64"
    and "j + 2 < 2 ^ 64"
  shows "\<exists>m'. mr_SplitRegion (ri_region_id r) sk m =
       Some (Inr (mr_split_left r sk, mr_split_right r sk (next_region_id (mr_regions m))), m') \<and>
     multi_rel n j (split_maps r sk (next_region_id (mr_regions m)) M) m' \<and> catalog_saved m' \<and>
     mr_data_dir m' = mr_data_dir m \<and>
     mr_regions m' = replace_region (ri_region_id r) (\<lambda>_. mr_split_left r sk) (mr_regions m) @
       [mr_split_right r sk (next_region_id (mr_regions m))]"
proof -
  let ?i = "ri_region_id r" and ?i' = "next_region_id (mr_regions m)" and ?d = "region_dir (mr_data_dir m)"
  let ?left = "mr_split_left r sk" and ?right = "mr_split_right r sk ?i'"
  have m: "0 < n" "n < 2 ^ 64" "mr_store_count m = n" "healthy_env (mr_files m)" "mr_io m = []"
    "disjoint_regions (mr_regions m)"
    using assms(1) by (simp_all add: multi_rel_def)
  have new: "\<forall>q \<in> set (mr_regions m). ri_region_id q < ?i'" using next_region_id_fresh [OF assms(5)] .
  obtain c where c: "fmlookup (mr_clusters m) ?i = Some c" "region_rel (?d ?i) n (Suc j) ?i (M ?i) c"
    by (rule multi_rel_region [OF assms(1,2)])
  note half = split_contains [OF assms(3,4)]
  obtain c0 c1 c' where cl: "Bootstrap (?d ?i') n ?i' True (SingleRegionCluster_new (mr_files m)) = Some (Status_Ok, c0)"
    "cluster_Batch (map (\<lambda>(k, v). mk_put k v) (migrated_keys sk (ri_end_key r) c)) c0 = Some (Status_Ok, c1)"
    "region_rel (?d ?i') n j ?i' (fmfilter (moved r sk) (M ?i)) c1"
    "cluster_Batch (map (\<lambda>kv. mk_delete (fst kv)) (migrated_keys sk (ri_end_key r) c)) c = Some (Status_Ok, c')"
    "region_rel (?d ?i) n j ?i (fmfilter (\<lambda>k. \<not> moved r sk k) (M ?i)) c'"
    using split_clusters [OF c(2) m(1,2,4) half(1) assms(6,7)] by blast
  define m1 where "m1 = m\<lparr>mr_regions := replace_region ?i (\<lambda>_. ?left) (mr_regions m) @ [?right],
      mr_clusters := fmupd ?i' c1 (fmupd ?i c' (mr_clusters m))\<rparr>"
  define m' where "m' = m1\<lparr>mr_catalogs := (mr_catalogs m1)(mr_data_dir m1 := Some (EncodeFields (region_catalog_fields (mr_regions m1))))\<rparr>"
  have ids: "distinct (map ri_region_id (mr_regions m))" using m(6) by (simp add: disjoint_regions_def)
  have rs: "set (mr_regions m') = {?left, ?right} \<union> (set (mr_regions m) - {r})"
    using replace_region_set [OF ids assms(2), of "\<lambda>_. ?left"] by (auto simp: m'_def m1_def)
  have "find (\<lambda>q. ri_region_id q = ?i) (mr_regions m) = Some r" by (rule find_region_id [OF ids assms(2)])
  moreover have "ri_end_key r = [] \<or> sk \<noteq> ri_end_key r"
    using assms(3) by (auto simp: ContainsKey_range range_contains_def)
  moreover have "PersistRegionCatalog m1 = Some (Status_Ok, m')"
    unfolding m'_def by (rule PersistRegionCatalog_healthy) (simp add: m1_def m(5))
  ultimately have split: "mr_SplitRegion ?i sk m = Some (Inr (?left, ?right), m')"
    using assms(3,4) c(1) cl(1,2,4) m(3)
    by (auto simp: mr_SplitRegion_def FindRegionCluster_def Let_def m1_def)
  have "\<exists>b. fmlookup (mr_clusters m') (ri_region_id q) = Some b \<and>
      region_rel (?d (ri_region_id q)) n j (ri_region_id q) (split_maps r sk ?i' M (ri_region_id q)) b"
    if q: "q \<in> set (mr_regions m')" for q
  proof -
    have i: "ri_region_id ?left = ?i" "ri_region_id ?right = ?i'" "?i \<noteq> ?i'"
      using new assms(2) by (auto simp: mr_split_left_def mr_split_right_def Let_def)
    consider "q = ?left" | "q = ?right" | "q \<in> set (mr_regions m)" "q \<noteq> r" using q rs by blast
    then show ?thesis
    proof cases
      case 3
      then have "ri_region_id q \<noteq> ?i" "ri_region_id q \<noteq> ?i'"
        using ids assms(2) new by (auto simp: distinct_map inj_on_def)
      moreover obtain b where "fmlookup (mr_clusters m) (ri_region_id q) = Some b"
        "region_rel (?d (ri_region_id q)) n (Suc j) (ri_region_id q) (M (ri_region_id q)) b"
        by (rule multi_rel_region [OF assms(1) 3(1)])
      ultimately show ?thesis
        using region_rel_mono [of _ n "Suc j" _ _ b j] by (simp add: split_maps_def m'_def m1_def)
    qed (use i cl(3,5) in \<open>simp_all add: split_maps_def m'_def m1_def\<close>)
  qed
  moreover have "fmdom' (mr_clusters m') = ri_region_id ` set (mr_regions m')"
  proof -
    have "fmdom' (mr_clusters m) = ri_region_id ` set (mr_regions m)" using assms(1) by (simp add: multi_rel_def)
    then show ?thesis
      using assms(2) unfolding rs by (auto simp: m'_def m1_def mr_split_left_def mr_split_right_def Let_def)
  qed
  ultimately have m': "multi_rel n j (split_maps r sk ?i' M) m'"
    using m split_disjoint [OF m(6) assms(2-4) new] by (simp add: multi_rel_def m'_def m1_def)
  moreover have "catalog_saved m'" by (simp add: catalog_saved_def m'_def m1_def)
  moreover have "mr_data_dir m' = mr_data_dir m" "mr_regions m' = replace_region ?i (\<lambda>_. ?left) (mr_regions m) @ [?right]"
    by (simp_all add: m'_def m1_def)
  ultimately show ?thesis using split by blast
qed

text \<open>
  C13. Splitting a region. When every region's cluster is in step with a map, on healthy disks, a
  split at a key inside a region succeeds and gives the two halves; afterwards every key outside
  the \<open>raft/\<close> range reads as before, at both consistency levels, except the keys of the right
  half under \<open>region/\<close>, \<open>pd/\<close> and \<open>local/\<close>: the split leaves them in the left cluster, where
  reads no longer look, so they are lost.
\<close>

theorem split_keeps_reads:
  assumes "multi_rel n (Suc j) M m" and "r \<in> set (mr_regions m)" and "ContainsKey r sk" and "sk \<noteq> ri_start_key r"
    and "\<forall>q \<in> set (mr_regions m). ri_region_id q \<noteq> - 1" and "length (entries (M (ri_region_id r))) < 2 ^ 64"
    and "j + 2 < 2 ^ 64"
  shows "\<exists>m' M' right. mr_SplitRegion (ri_region_id r) sk m = Some (Inr (mr_split_left r sk, right), m') \<and>
     multi_rel n j M' m' \<and> right = mr_split_right r sk (next_region_id (mr_regions m)) \<and>
     (\<forall>k cons. \<not> prefix ''raft/'' k \<longrightarrow>
        mr_Get k cons m' = (if reserved_key k \<and> ContainsKey right k
          then Inl (KeyNotFound (''key not found: '' @ k)) else mr_Get k cons m))"
proof -
  let ?i' = "next_region_id (mr_regions m)"
  obtain m' where m': "mr_SplitRegion (ri_region_id r) sk m = Some (Inr (mr_split_left r sk, mr_split_right r sk ?i'), m')"
    "multi_rel n j (split_maps r sk ?i' M) m'"
    "mr_regions m' = replace_region (ri_region_id r) (\<lambda>_. mr_split_left r sk) (mr_regions m) @ [mr_split_right r sk ?i']"
    using split_step [OF assms] by blast
  have "distinct (map ri_region_id (mr_regions m))" using assms(1) by (simp add: multi_rel_def disjoint_regions_def)
  from replace_region_set [OF this assms(2), of "\<lambda>_. mr_split_left r sk"]
  have "set (mr_regions m') = {mr_split_left r sk, mr_split_right r sk ?i'} \<union> (set (mr_regions m) - {r})"
    by (auto simp: m'(3))
  from split_reads [OF assms(1) m'(2) assms(2-4) next_region_id_fresh [OF assms(5)] this] m'(1,2)
  show ?thesis by blast
qed

text \<open>One region over all keys with its cluster freshly started.\<close>

definition one_region :: "RegionInfo" where
  "one_region = RegionInfo_default\<lparr>ri_region_id := 1, ri_leader_peer_id := 1,
     ri_peers := [\<lparr>pr_peer_id = 1, pr_store_id = 1, pr_role = kVoter\<rparr>]\<rparr>"

lemma one_region_sel [simp]:
  "ri_region_id one_region = 1" "ri_start_key one_region = []" "ri_end_key one_region = []" "ContainsKey one_region k"
  by (simp_all add: one_region_def RegionInfo_default_def ContainsKey_def)

lemma multi_rel_one:
  assumes "cluster_rel (region_dir d 1) n 1 1 [] fmempty c" and "n < 2 ^ 64" and "healthy_env env" and "j + 1 < 2 ^ 64"
  shows "multi_rel n j (\<lambda>_. fmempty)
     \<lparr>mr_regions = [one_region], mr_clusters = fmupd 1 c fmempty, mr_data_dir = d, mr_store_count = n, mr_files = env,
      mr_catalogs = cat, mr_io = []\<rparr>"
proof -
  have "region_rel (region_dir d 1) n j 1 fmempty c"
    using assms(1,4) unfolding region_rel_def by (intro exI [of _ 1] exI [of _ "[]"]) simp
  then show ?thesis
    using assms(1-3) by (simp add: multi_rel_def one_region_def disjoint_regions_def cluster_rel_def)
qed

lemma one_region_put:
  obtains m M where "multi_rel 3 9 M m" and "mr_regions m = [one_region]" and "M 1 = fmupd ''pd/x'' ''v'' fmempty"
proof -
  let ?env = "\<lparr>fe_log = (\<lambda>_. []), fe_io = (\<lambda>_. [])\<rparr>"
  have env: "healthy_env ?env" by (simp add: healthy_env_def)
  obtain c where "cluster_rel (region_dir ''d'' 1) 3 1 1 [] fmempty c" using Bootstrap_fresh [OF _ _ env, of 3] by auto
  from multi_rel_one [OF this _ env, of 10 "\<lambda>_. None"]
  obtain m where m: "multi_rel 3 (Suc 9) (\<lambda>_. fmempty) m" "mr_regions m = [one_region]" by auto
  have "one_region \<in> set (mr_regions m)" using m(2) by simp
  from on_cluster_step [OF m(1) this, of "CPut ''pd/x'' ''v''" "cluster_Put ''pd/x'' ''v''"]
  have "\<exists>m'. mr_regions m' = [one_region] \<and> multi_rel 3 9 ((\<lambda>_. fmempty)(1 := fmupd ''pd/x'' ''v'' fmempty)) m'"
    using m(2) by (auto simp: user_key_def fun_eq_iff)
  then show thesis using that by force
qed

text \<open>A value under \<open>pd/\<close> in the right half of a split is gone; a key on the left reads as before.\<close>

theorem split_keeps_reads_witness:
  "\<exists>m m' left right. mr_Get ''pd/x'' kLinearizable m = Inr ''v'' \<and>
     mr_SplitRegion 1 ''m'' m = Some (Inr (left, right), m') \<and>
     mr_Get ''pd/x'' kLinearizable m' = Inl (KeyNotFound ''key not found: pd/x'') \<and>
     mr_Get ''a'' kLinearizable m' = mr_Get ''a'' kLinearizable m"
proof -
  obtain m M where m: "multi_rel 3 9 M m" "mr_regions m = [one_region]" "M 1 = fmupd ''pd/x'' ''v'' fmempty"
    by (rule one_region_put)
  have "FindRegionByKey m ''pd/x'' = Some one_region" by (simp add: FindRegionByKey_def m(2))
  from mr_Get_rel [OF m(1) this] have "mr_Get ''pd/x'' kLinearizable m = Inr ''v''"
    by (simp add: m(3) lookup_result_def)
  moreover have "reserved_key ''pd/x'' \<and> ContainsKey (mr_split_right one_region ''m'' i) ''pd/x''" "\<not> reserved_key ''a''" for i
    by (simp_all add: reserved_key_def mr_split_right_def Let_def ContainsKey_def)
  moreover from split_keeps_reads [of 3 8 M m one_region "''m''"] m obtain m' right where
    "mr_SplitRegion 1 ''m'' m = Some (Inr (mr_split_left one_region ''m'', right), m')"
    "right = mr_split_right one_region ''m'' (next_region_id (mr_regions m))"
    "\<And>k cons. \<not> prefix ''raft/'' k \<Longrightarrow> mr_Get k cons m' = (if reserved_key k \<and> ContainsKey right k
          then Inl (KeyNotFound (''key not found: '' @ k)) else mr_Get k cons m)"
    by (auto simp: length_entries fcard.rep_eq)
  ultimately show ?thesis by (intro exI [of _ m] exI [of _ m']) simp
qed

end
