(* ===== verification/Multi_Region_Map.thy ===== *)
theory Multi_Region_Map
  imports Multi_Region
begin

text \<open>
  What the multi-region cluster keeps: the catalog file reads back as the region list, a restart
  from the files brings every region back with its data, and any sequence of puts, deletes,
  splits and restarts is one map over all keys.
\<close>

section \<open>The catalog\<close>

lemma read_regions_ok:
  assumes "\<And>i. i \<in> set is \<Longrightarrow> GetRegionFields flds (''region'' @ show_nat i) = Inr (g i)"
  shows "read_regions flds is rs = (Status_Ok, rs @ map g is)"
  using assms by (induction "is" arbitrary: rs) simp_all

lemma region_catalog_count:
  "length rs < 2 ^ 64 \<Longrightarrow> field_u64 (region_catalog_fields rs) ''region_count'' = Some (of_nat (length rs))"
  using indexed_prefix_plain [of "CHR ''_''" "''region''" _ "''count''"]
  by (simp add: field_u64_def GetOr_def region_catalog_fields_def region_list.put_indexed_frame [of "''region''"]
      is_digit_def stoull_show_nat)

lemma LoadRegionCatalog_saved:
  assumes "catalog_saved m" and "mr_io m = []" and "length (mr_regions m) < 2 ^ 64"
    and "\<forall>r \<in> set (mr_regions m). length (ri_peers r) < 2 ^ 64"
  shows "LoadRegionCatalog (m\<lparr>mr_regions := rs\<rparr>) = Some (Status_Ok, m)"
proof -
  let ?F = "region_catalog_fields (mr_regions m)"
  have "GetRegionFields ?F (''region'' @ show_nat i) = Inr (mr_regions m ! i)" if "i < length (mr_regions m)" for i
    using region_list.get_put_indexed [of "''region''" i "mr_regions m" 0] that assms(4)
    by (simp add: region_catalog_fields_def)
  then have "read_regions ?F [0 ..< length (mr_regions m)] [] = (Status_Ok, mr_regions m)"
    using read_regions_ok [of "[0 ..< length (mr_regions m)]" ?F "(!) (mr_regions m)" "[]"]
    by (simp add: map_nth)
  then show ?thesis
    using assms(1,2) region_catalog_count [OF assms(3)] assms(3)
    by (simp add: LoadRegionCatalog_def mr_next_io_def catalog_saved_def decode_encode_fields unat_of_nat)
qed

section \<open>Directories\<close>

lemma region_dir_neq:
  assumes "a \<noteq> b"
  shows "\<not> prefix (region_dir d a @ ''/'') (store_dir (region_dir d b) i)" and "store_dir (region_dir d b) i \<noteq> region_dir d a"
proof -
  have digits: "takeWhile is_digit (to_string w @ CHR ''/'' # s) = to_string w" for w :: u64 and s
    by (subst takeWhile_append2) (auto dest: to_string_digits simp: is_digit_def)
  show "\<not> prefix (region_dir d a @ ''/'') (store_dir (region_dir d b) i)"
  proof
    assume "prefix (region_dir d a @ ''/'') (store_dir (region_dir d b) i)"
    then obtain s where "to_string a @ CHR ''/'' # s = to_string b @ CHR ''/'' # ''store-'' @ to_string i"
      by (auto simp: prefix_def region_dir_def store_dir_def)
    then have "to_string a = to_string b" by (metis digits)
    with assms show False by simp
  qed
  show "store_dir (region_dir d b) i \<noteq> region_dir d a"
  proof
    assume "store_dir (region_dir d b) i = region_dir d a"
    then have "CHR ''/'' \<in> set (to_string a)"
      by (auto simp: region_dir_def store_dir_def dest: sym)
    then show False by (auto dest: to_string_digits simp: is_digit_def)
  qed
qed

lemma absorb_other:
  "sc_data_dir c = region_dir d a \<Longrightarrow> a \<noteq> b \<Longrightarrow>
     fe_log (absorb c env) (store_dir (region_dir d b) i) = fe_log env (store_dir (region_dir d b) i)"
  using region_dir_neq [of a b d i] by (auto simp: absorb_def Let_def)

lemma absorb_own:
  "sc_data_dir c = d \<Longrightarrow> fe_log (absorb c env) (store_dir d i) = fe_log (close_all c) (store_dir d i)"
  by (simp add: absorb_def Let_def store_dir_def)

lemma absorb_healthy: "healthy_env env \<Longrightarrow> healthy_env (close_all c) \<Longrightarrow> healthy_env (absorb c env)"
  by (simp add: healthy_env_def absorb_def Let_def)

lemma absorb_all:
  assumes "\<forall>(i, c) \<in> set xs. sc_data_dir c = region_dir d i" and "distinct (map fst xs)" and "(i, c) \<in> set xs"
  shows "fe_log (fold absorb (map snd xs) env) (store_dir (region_dir d i) k) = fe_log (close_all c) (store_dir (region_dir d i) k)"
proof -
  have other: "fe_log (fold absorb (map snd xs) env) (store_dir (region_dir d i) k) = fe_log env (store_dir (region_dir d i) k)"
    if "i \<notin> fst ` set xs" "\<forall>(i, c) \<in> set xs. sc_data_dir c = region_dir d i" for xs env
    using that by (induction xs arbitrary: env) (auto simp: absorb_other)
  show ?thesis
    using assms
  proof (induction xs arbitrary: env)
    case (Cons x xs)
    then show ?case
      by (cases "x = (i, c)") (auto simp: other absorb_own)
  qed simp
qed

lemma absorb_all_healthy:
  "healthy_env env \<Longrightarrow> \<forall>c \<in> set cs. healthy_env (close_all c) \<Longrightarrow> healthy_env (fold absorb cs env)"
  by (induction cs arbitrary: env) (auto simp: absorb_healthy)

section \<open>Restarting\<close>

definition reopenable :: "file_env \<Rightarrow> string \<Rightarrow> nat \<Rightarrow> nat \<Rightarrow> u64 \<Rightarrow> kv_map \<Rightarrow> bool" where
  "reopenable env d n j i m \<longleftrightarrow> (\<exists>c. region_rel d n (Suc j) i m c \<and>
     (\<forall>s \<in> set (sc_stores c). fe_log env (store_dir d (sr_store_id s)) = kv_disk (sr_engine s)))"

lemma reopenable_Bootstrap:
  assumes "reopenable env d n j i m" and "n < 2 ^ 64" and "healthy_env env"
  shows "\<exists>c. Bootstrap d n i False (SingleRegionCluster_new env) = Some (Status_Ok, c) \<and> region_rel d n j i m c"
proof -
  obtain c t L where c: "cluster_rel d n i t L m c" "unat t + Suc j < 2 ^ 64" "length L + Suc j < 2 ^ 64"
    "\<And>s. s \<in> set (sc_stores c) \<Longrightarrow> fe_log env (store_dir d (sr_store_id s)) = kv_disk (sr_engine s)"
    using assms(1) by (auto simp: reopenable_def region_rel_def)
  have "Suc (unat t) < 2 ^ 64" using c(2) by simp
  then have t: "t \<noteq> - 1" and "unat (t + 1) = Suc (unat t)" using unat_Suc_bound [of t] by auto
  then have "unat (t + 1) + j < 2 ^ 64" "length L + j < 2 ^ 64" using c(2,3) by simp_all
  with Bootstrap_reopens [OF c(1) assms(2) t assms(3) c(4)] show ?thesis
    by (auto simp: region_rel_def)
qed

lemma start_clusters_ok:
  assumes "mr_store_count m = n" and "distinct (map ri_region_id rs)"
    and "\<And>r. r \<in> set rs \<Longrightarrow> \<exists>c. Bootstrap (region_dir (mr_data_dir m) (ri_region_id r)) n (ri_region_id r) reset
          (SingleRegionCluster_new (mr_files m)) = Some (Status_Ok, c) \<and> P (ri_region_id r) c"
  shows "\<exists>C. start_clusters reset rs m = Some (Status_Ok, m\<lparr>mr_clusters := C\<rparr>) \<and>
     fmdom' C = fmdom' (mr_clusters m) \<union> ri_region_id ` set rs \<and>
     (\<forall>r \<in> set rs. \<exists>c. fmlookup C (ri_region_id r) = Some c \<and> P (ri_region_id r) c) \<and>
     (\<forall>i. i \<notin> ri_region_id ` set rs \<longrightarrow> fmlookup C i = fmlookup (mr_clusters m) i)"
  using assms
proof (induction rs arbitrary: m)
  case Nil
  then show ?case by (intro exI [of _ "mr_clusters m"]) simp
next
  case (Cons r rs)
  let ?i = "ri_region_id r" and ?d = "region_dir (mr_data_dir m)"
  obtain c where c: "Bootstrap (?d ?i) n ?i reset (SingleRegionCluster_new (mr_files m)) = Some (Status_Ok, c)" "P ?i c"
    using Cons.prems(3) by (meson list.set_intros(1))
  let ?m = "m\<lparr>mr_clusters := fmupd ?i c (mr_clusters m)\<rparr>"
  obtain C where C: "start_clusters reset rs ?m = Some (Status_Ok, ?m\<lparr>mr_clusters := C\<rparr>)"
    "fmdom' C = fmdom' (mr_clusters ?m) \<union> ri_region_id ` set rs"
    "\<forall>q \<in> set rs. \<exists>c. fmlookup C (ri_region_id q) = Some c \<and> P (ri_region_id q) c"
    "\<forall>i. i \<notin> ri_region_id ` set rs \<longrightarrow> fmlookup C i = fmlookup (mr_clusters ?m) i"
    using Cons.IH [of ?m] Cons.prems by auto
  have "fmlookup C ?i = Some c" using C(4) Cons.prems(2) by simp
  with C c Cons.prems(1) show ?case by (intro exI [of _ C]) auto
qed

text \<open>The process ends: all clusters are closed, only the files remain.\<close>

definition mr_close :: "MultiRegionCluster \<Rightarrow> MultiRegionCluster" where
  "mr_close m =
     MultiRegionCluster_new (fold absorb (map snd (entries (mr_clusters m))) (mr_files m)) (mr_catalogs m) (mr_io m)"

lemma multi_rel_reopenable:
  assumes "multi_rel n (Suc j) M m" and env: "env = fold absorb (map snd (entries (mr_clusters m))) (mr_files m)"
  shows "healthy_env env"
    and "r \<in> set (mr_regions m) \<Longrightarrow>
      reopenable env (region_dir (mr_data_dir m) (ri_region_id r)) n j (ri_region_id r) (M (ri_region_id r))"
proof -
  let ?xs = "entries (mr_clusters m)" and ?d = "region_dir (mr_data_dir m)"
  have m: "n < 2 ^ 64" "healthy_env (mr_files m)" "fmdom' (mr_clusters m) = ri_region_id ` set (mr_regions m)"
    using assms(1) by (simp_all add: multi_rel_def)
  have all: "\<exists>q \<in> set (mr_regions m). i = ri_region_id q \<and> region_rel (?d i) n (Suc j) i (M i) c"
    if "(i, c) \<in> set ?xs" for i c
  proof -
    have c: "fmlookup (mr_clusters m) i = Some c" using that by (simp add: set_entries)
    then obtain q where "q \<in> set (mr_regions m)" "i = ri_region_id q" using m(3) by (metis fmdom'I image_iff)
    with c show ?thesis using multi_rel_region [OF assms(1)] by (metis option.inject)
  qed
  have dirs: "\<forall>(i, c) \<in> set ?xs. sc_data_dir c = ?d i"
    using all by (fastforce simp: region_rel_def cluster_rel_def)
  have closed: "\<forall>c \<in> set (map snd ?xs). healthy_env (close_all c)"
    using all close_all_rel(1) [OF _ m(1)] by (fastforce simp: region_rel_def)
  show "healthy_env env" unfolding env by (rule absorb_all_healthy [OF m(2) closed])
  assume r: "r \<in> set (mr_regions m)"
  let ?i = "ri_region_id r"
  obtain c where c: "fmlookup (mr_clusters m) ?i = Some c" "region_rel (?d ?i) n (Suc j) ?i (M ?i) c"
    by (rule multi_rel_region [OF assms(1) r])
  then obtain t L where cr: "cluster_rel (?d ?i) n ?i t L (M ?i) c" by (auto simp: region_rel_def)
  have "fe_log env (store_dir (?d ?i) k) = fe_log (close_all c) (store_dir (?d ?i) k)" for k
    unfolding env using absorb_all [OF dirs distinct_entries] c(1) by (simp add: set_entries)
  with c(2) close_all_rel(2) [OF cr m(1)] show "reopenable env (?d ?i) n j ?i (M ?i)"
    unfolding reopenable_def by (metis (no_types))
qed

lemma restart_step:
  assumes m: "multi_rel n (Suc j) M m" and saved: "catalog_saved m" and len: "length (mr_regions m) < 2 ^ 64"
    "\<forall>r \<in> set (mr_regions m). length (ri_peers r) < 2 ^ 64" and "regs \<noteq> []"
  shows "\<exists>m'. mr_Bootstrap (mr_data_dir m) n regs False (mr_close m) = Some (Status_Ok, m') \<and> multi_rel n j M m' \<and>
     catalog_saved m' \<and> mr_regions m' = mr_regions m \<and> mr_data_dir m' = mr_data_dir m"
proof -
  define env where "env = fold absorb (map snd (entries (mr_clusters m))) (mr_files m)"
  note env = multi_rel_reopenable [OF m env_def]
  have mr: "n < 2 ^ 64" "mr_store_count m = n" "mr_io m = []" "distinct (map ri_region_id (mr_regions m))"
    using m by (simp_all add: multi_rel_def disjoint_regions_def)
  let ?m0 = "m\<lparr>mr_files := env, mr_clusters := fmempty\<rparr>"
  let ?m1 = "?m0\<lparr>mr_regions := []\<rparr>"
  have close: "mr_close m = ?m1\<lparr>mr_data_dir := [], mr_store_count := 0\<rparr>"
    by (simp add: mr_close_def MultiRegionCluster_new_def env_def)
  have same: "m\<lparr>mr_clusters := fmempty, mr_regions := [], mr_store_count := n, mr_files := env\<rparr> =
      m\<lparr>mr_clusters := fmempty, mr_regions := [], mr_files := env\<rparr>"
    "m\<lparr>mr_clusters := fmempty, mr_regions := [], mr_files := env\<rparr> = ?m1"
    by (rule MultiRegionCluster.equality; simp add: mr(2))+
  have load: "LoadRegionCatalog ?m1 = Some (Status_Ok, ?m0)"
    using LoadRegionCatalog_saved [of ?m0 "[]"] saved mr(3) len by (simp add: catalog_saved_def)
  obtain C where C: "start_clusters False (mr_regions m) ?m0 = Some (Status_Ok, ?m0\<lparr>mr_clusters := C\<rparr>)"
    "fmdom' C = ri_region_id ` set (mr_regions m)"
    "\<forall>r \<in> set (mr_regions m). \<exists>c. fmlookup C (ri_region_id r) = Some c \<and>
        region_rel (region_dir (mr_data_dir m) (ri_region_id r)) n j (ri_region_id r) (M (ri_region_id r)) c"
    using start_clusters_ok [where m = ?m0 and rs = "mr_regions m" and reset = False and
        P = "\<lambda>i. region_rel (region_dir (mr_data_dir m) i) n j i (M i)"]
      reopenable_Bootstrap [OF env(2) mr(1) env(1)] mr by auto
  let ?m2 = "?m0\<lparr>mr_clusters := C\<rparr>"
  let ?m3 = "?m2\<lparr>mr_catalogs := (mr_catalogs ?m2)(mr_data_dir ?m2 := Some (EncodeFields (region_catalog_fields (mr_regions ?m2))))\<rparr>"
  have "PersistRegionCatalog ?m2 = Some (Status_Ok, ?m3)"
    by (rule PersistRegionCatalog_healthy) (simp add: mr(3))
  moreover have "RegionCatalogExists ?m1" using saved by (simp add: RegionCatalogExists_def catalog_saved_def)
  ultimately have "mr_Bootstrap (mr_data_dir m) n regs False (mr_close m) = Some (Status_Ok, ?m3)"
    using load C(1) env(1) assms(5) unfolding close
    by (simp add: mr_Bootstrap_def Let_def RegionCatalogExists_def same)
  moreover have "multi_rel n j M ?m3" using m C(2,3) env(1) by (simp add: multi_rel_def)
  moreover have "catalog_saved ?m3" by (simp add: catalog_saved_def)
  ultimately show ?thesis by auto
qed

section \<open>The cluster as one map\<close>

datatype multi_op =
    MPut string string | MDelete string | MSplit u64 string | MRestart "RegionInfo list"

text \<open>The calls; \<open>MRestart\<close> ends the process and starts another one on the same files.\<close>

fun multi_step :: "nat \<Rightarrow> multi_op \<Rightarrow> MultiRegionCluster \<Rightarrow> (Status \<times> MultiRegionCluster) option" where
  "multi_step n (MPut k v) m = mr_Put k v m"
| "multi_step n (MDelete k) m = mr_Delete k m"
| "multi_step n (MSplit i k) m =
     map_option (\<lambda>(r, m'). (case r of Inl status \<Rightarrow> status | Inr _ \<Rightarrow> Status_Ok, m')) (mr_SplitRegion i k m)"
| "multi_step n (MRestart regs) m = mr_Bootstrap (mr_data_dir m) n regs False (mr_close m)"

fun multi_run :: "nat \<Rightarrow> multi_op list \<Rightarrow> MultiRegionCluster \<Rightarrow> MultiRegionCluster option" where
  "multi_run n [] m = Some m"
| "multi_run n (op # ops) m =
     (case multi_step n op m of
        None \<Rightarrow> None
      | Some (status, m') \<Rightarrow>
          if ok status \<or> (\<exists>i k. op = MSplit i k) then multi_run n ops m' else None)"

fun global_step :: "multi_op \<Rightarrow> kv_map \<Rightarrow> kv_map" where
  "global_step (MPut k v) g = fmupd k v g"
| "global_step (MDelete k) g = fmdrop k g"
| "global_step (MSplit i k) g = g"
| "global_step (MRestart regs) g = g"

fun multi_op_ok :: "multi_op \<Rightarrow> bool" where
  "multi_op_ok (MPut k v) \<longleftrightarrow> k \<noteq> [] \<and> \<not> reserved_key k"
| "multi_op_ok (MDelete k) \<longleftrightarrow> k \<noteq> [] \<and> \<not> reserved_key k"
| "multi_op_ok (MSplit i k) \<longleftrightarrow> True"
| "multi_op_ok (MRestart regs) \<longleftrightarrow> regs \<noteq> []"

text \<open>
  The invariant of a run: room for \<open>j\<close> more calls below the 64-bit bounds on region ids, region
  counts and sizes, regions that cover all keys, and the global map cut along the regions.
\<close>

definition region_inv :: "nat \<Rightarrow> kv_map \<Rightarrow> kv_map \<Rightarrow> RegionInfo \<Rightarrow> bool" where
  "region_inv j g m r \<longleftrightarrow> length (ri_peers r) < 2 ^ 64 \<and> unat (ri_region_id r) + j + 1 < 2 ^ 64 \<and>
     length (entries m) + j < 2 ^ 64 \<and>
     (\<forall>k. ContainsKey r k \<longrightarrow> \<not> reserved_key k \<longrightarrow> fmlookup m k = fmlookup g k)"

definition multi_inv :: "nat \<Rightarrow> nat \<Rightarrow> (u64 \<Rightarrow> kv_map) \<Rightarrow> kv_map \<Rightarrow> MultiRegionCluster \<Rightarrow> bool" where
  "multi_inv n j M g m \<longleftrightarrow> multi_rel n j M m \<and> catalog_saved m \<and> length (mr_regions m) + j + 1 < 2 ^ 64 \<and>
     (\<forall>k. \<exists>r \<in> set (mr_regions m). ContainsKey r k) \<and>
     (\<forall>r \<in> set (mr_regions m). region_inv j g (M (ri_region_id r)) r)"

lemma multi_inv_reads:
  assumes "multi_inv n j M g m" and "\<not> reserved_key k"
  shows "mr_Get k cons m = lookup_result g k"
proof -
  obtain r where M: "multi_rel n j M m" "r \<in> set (mr_regions m)" "ContainsKey r k"
    "fmlookup (M (ri_region_id r)) k = fmlookup g k"
    using assms unfolding multi_inv_def region_inv_def by blast
  then have "FindRegionByKey m k = Some r" using find_region by (auto simp: multi_rel_def)
  from mr_Get_rel [OF M(1) this] assms(2) M(4) show ?thesis by (simp add: reserved_key_def lookup_result_def)
qed

lemma multi_rel_mono: "multi_rel n (Suc j) M m \<Longrightarrow> multi_rel n j M m"
  unfolding multi_rel_def using region_rel_mono [of _ n "Suc j" _ _ _ j] by (metis le_SucI order_refl)

lemma region_inv_mono: "region_inv (Suc j) g m r \<Longrightarrow> region_inv j g m r"
  by (simp add: region_inv_def)

lemma multi_inv_mono: "multi_inv n (Suc j) M g m \<Longrightarrow> multi_inv n j M g m"
  unfolding multi_inv_def by (auto intro: multi_rel_mono region_inv_mono)

lemma multi_rel_le: "multi_rel n (i + j) M m \<Longrightarrow> multi_rel n j M m"
  by (induction i) (auto dest: multi_rel_mono)

text \<open>A write to keys of one region: that region changes, the others do not have the keys.\<close>

lemma write_inv:
  assumes m: "multi_inv n (Suc w + j) M g m" and r: "r \<in> set (mr_regions m)" "\<And>k. k \<in> K \<Longrightarrow> ContainsKey r k"
    and op: "\<And>x k. fmlookup (map_step op x) k = (if k \<in> K then y k else fmlookup x k)"
    and size: "\<And>x. length (entries (map_step op x)) \<le> Suc w + length (entries x)"
    and g': "\<And>k. fmlookup g' k = (if k \<in> K then y k else fmlookup g k)"
    and ok: "cluster_op_ok n op" and call: "\<And>d. cluster_step d n (ri_region_id r) op = call"
  shows "\<exists>m' M'. on_cluster (ri_region_id r) call m = Some (Status_Ok, m') \<and> multi_inv n j M' g' m'"
proof -
  let ?i = "ri_region_id r"
  let ?M = "M(?i := map_step op (M ?i))"
  have mr: "multi_rel n (Suc (w + j)) M m" and d: "disjoint_regions (mr_regions m)"
    and inv: "\<And>q. q \<in> set (mr_regions m) \<Longrightarrow> region_inv (Suc w + j) g (M (ri_region_id q)) q"
    using m by (auto simp: multi_inv_def multi_rel_def)
  from on_cluster_step [OF mr r(1) ok call] obtain m' where m': "on_cluster ?i call m = Some (Status_Ok, m')"
    "mr_regions m' = mr_regions m" "multi_rel n (w + j) ?M m'" by blast
  have "catalog_saved m'"
    using m m'(1) by (auto simp: on_cluster_def multi_inv_def catalog_saved_def split: option.splits)
  moreover have "region_inv j g' (?M (ri_region_id q)) q" if q: "q \<in> set (mr_regions m)" for q
  proof (cases "q = r")
    case True
    then show ?thesis using inv [OF r(1)] op g' size [of "M ?i"] by (auto simp: region_inv_def)
  next
    case False
    then have "ri_region_id q \<noteq> ?i" "\<And>k. k \<in> K \<Longrightarrow> \<not> ContainsKey q k"
      using d q r unfolding disjoint_regions_def distinct_map inj_on_def by blast+
    then show ?thesis using inv [OF q] g' by (auto simp: region_inv_def)
  qed
  moreover have "multi_rel n j ?M m'" by (rule multi_rel_le [OF m'(3)])
  ultimately have "multi_inv n j ?M g' m'" using m m'(2) by (simp add: multi_inv_def)
  with m'(1) show ?thesis by blast
qed

lemma entries_upd_le: "length (entries (fmupd k v m)) \<le> Suc (length (entries m))"
  by (simp add: length_entries fcard_finsert_if)

lemma entries_drop_le: "length (entries (fmdrop k m)) \<le> Suc (length (entries m))"
  unfolding length_entries fmdom_drop by (metis fcard_fminus1_le le_SucI)

lemma next_region_id_cases: "next_region_id rs = 1 \<or> (\<exists>r \<in> set rs. next_region_id rs = ri_region_id r + 1)"
proof -
  let ?F = "\<lambda>rs x. fold (\<lambda>region n. max n (ri_region_id region + 1)) rs x"
  have "?F rs x = x \<or> (\<exists>r \<in> set rs. ?F rs x = ri_region_id r + 1)" for x
  proof (induction rs arbitrary: x)
    case (Cons a rs)
    from Cons [of "max x (ri_region_id a + 1)"] show ?case by (auto simp: max_def)
  qed simp
  then show ?thesis by (simp add: next_region_id_def)
qed

lemma entries_filter_le: "length (entries (fmfilter P m)) \<le> length (entries m)"
  by (simp add: entries_fmfilter)

lemma split_region_inv:
  assumes inv: "region_inv (Suc j) g m r" and sk: "ContainsKey r sk" "sk \<noteq> ri_start_key r" and i: "unat i + j + 1 < 2 ^ 64"
  shows "region_inv j g (fmfilter (\<lambda>k. \<not> moved r sk k) m) (mr_split_left r sk)"
    and "region_inv j g (fmfilter (moved r sk) m) (mr_split_right r sk i)"
proof -
  have m: "length (ri_peers r) < 2 ^ 64" "unat (ri_region_id r) + j + 1 < 2 ^ 64" "length (entries m) + j < 2 ^ 64"
    "\<And>k. ContainsKey r k \<Longrightarrow> \<not> reserved_key k \<Longrightarrow> fmlookup m k = fmlookup g k"
    using inv by (auto simp: region_inv_def)
  have peers: "length (ri_peers (mr_split_left r sk)) = length (ri_peers r)" "ri_region_id (mr_split_left r sk) = ri_region_id r"
    "length (ri_peers (mr_split_right r sk i)) = length (ri_peers r)" "ri_region_id (mr_split_right r sk i) = i"
    by (simp_all add: mr_split_left_def mr_split_right_def Let_def)
  note half = split_contains(2) [OF sk] and moved = moved_halves [OF sk]
  have size: "length (entries (fmfilter P m)) + j < 2 ^ 64" for P using m(3) entries_filter_le [of P m] by linarith
  show "region_inv j g (fmfilter (\<lambda>k. \<not> moved r sk k) m) (mr_split_left r sk)"
    using m(1,2,4) peers size half [of _ i] moved(1) by (simp add: region_inv_def)
  show "region_inv j g (fmfilter (moved r sk) m) (mr_split_right r sk i)"
    using m(1,4) i peers size half [of _ i] moved(2) by (simp add: region_inv_def)
qed

lemma split_inv:
  assumes m: "multi_inv n (Suc j) M g m" and r: "r \<in> set (mr_regions m)"
    and sk: "ContainsKey r sk" "sk \<noteq> ri_start_key r"
  shows "\<exists>m' M' rs. mr_SplitRegion (ri_region_id r) sk m = Some (Inr rs, m') \<and> multi_inv n j M' g m' \<and>
     mr_regions m' = replace_region (ri_region_id r) (\<lambda>_. mr_split_left r sk) (mr_regions m) @
       [mr_split_right r sk (next_region_id (mr_regions m))] \<and> mr_data_dir m' = mr_data_dir m \<and> unat (next_region_id (mr_regions m)) + j + 1 < 2 ^ 64"
proof -
  let ?i = "ri_region_id r" and ?i' = "next_region_id (mr_regions m)"
  let ?L = "mr_split_left r sk" and ?R = "mr_split_right r sk ?i'" and ?M = "split_maps r sk ?i' M"
  have mr: "multi_rel n (Suc j) M m" "length (mr_regions m) + j + 2 < 2 ^ 64" "disjoint_regions (mr_regions m)"
    and inv: "\<And>q. q \<in> set (mr_regions m) \<Longrightarrow> region_inv (Suc j) g (M (ri_region_id q)) q"
    using m by (auto simp: multi_inv_def multi_rel_def)
  have last: "\<forall>q \<in> set (mr_regions m). ri_region_id q \<noteq> - 1"
  proof
    fix q assume "q \<in> set (mr_regions m)"
    then have "Suc (unat (ri_region_id q)) < 2 ^ 64" using inv [of q] by (simp add: region_inv_def)
    then show "ri_region_id q \<noteq> - 1" using unat_Suc_bound [of "ri_region_id q"] by auto
  qed
  then have new: "\<forall>q \<in> set (mr_regions m). ri_region_id q < ?i'" by (rule next_region_id_fresh)
  have i': "unat ?i' + j + 1 < 2 ^ 64"
    using next_region_id_cases [of "mr_regions m"]
  proof (elim disjE bexE)
    fix q assume q: "q \<in> set (mr_regions m)" "?i' = ri_region_id q + 1"
    then have "unat ?i' = Suc (unat (ri_region_id q))" using inv [OF q(1)] unat_Suc_bound [of "ri_region_id q"] by (simp add: region_inv_def)
    then show ?thesis using inv [OF q(1)] by (simp add: region_inv_def)
  qed (use mr(2) in simp)
  obtain m' where m': "mr_SplitRegion ?i sk m = Some (Inr (?L, ?R), m')" "multi_rel n j ?M m'" "catalog_saved m'"
    "mr_regions m' = replace_region ?i (\<lambda>_. ?L) (mr_regions m) @ [?R]" "mr_data_dir m' = mr_data_dir m"
    using split_step [OF mr(1) r sk last] inv [OF r] mr(2) by (auto simp: region_inv_def)
  have rs: "set (mr_regions m') = {?L, ?R} \<union> (set (mr_regions m) - {r})"
    using replace_region_set [of "mr_regions m" r "\<lambda>_. ?L"] mr(3) r by (auto simp: m'(4) disjoint_regions_def)
  have "length (replace_region ?i f xs) = length xs" for f xs by (induction xs) auto
  then have len: "length (mr_regions m') + j + 1 < 2 ^ 64" using mr(2) m'(4) by simp
  have "region_inv j g (?M (ri_region_id q)) q" if q: "q \<in> set (mr_regions m')" for q
  proof -
    have ids: "ri_region_id ?L = ?i" "ri_region_id ?R = ?i'" "?i \<noteq> ?i'"
      using new r by (auto simp: mr_split_left_def mr_split_right_def Let_def)
    consider "q = ?L" | "q = ?R" | "q \<in> set (mr_regions m)" "q \<noteq> r" using q rs by blast
    then show ?thesis
    proof cases
      case 3
      then have "ri_region_id q \<noteq> ?i" "ri_region_id q \<noteq> ?i'"
        using mr(3) r new by (auto simp: disjoint_regions_def distinct_map inj_on_def)
      then show ?thesis using inv [OF 3(1)] by (simp add: split_maps_def region_inv_mono)
    qed (use split_region_inv [OF inv [OF r] sk i'] ids in \<open>simp_all add: split_maps_def\<close>)
  qed
  moreover have "\<exists>q \<in> set (mr_regions m'). ContainsKey q k" for k
    using m split_contains(2) [OF sk, of k ?i'] unfolding rs multi_inv_def by blast
  ultimately have "multi_inv n j ?M g m'" using m'(2,3) len by (simp add: multi_inv_def)
  with m'(1,4,5) i' show ?thesis by blast
qed

lemma multi_inv_region:
  assumes "multi_inv n j M g m"
  obtains r where "FindRegionByKey m k = Some r" and "r \<in> set (mr_regions m)" and "ContainsKey r k"
  using assms find_region [of m k] unfolding multi_inv_def multi_rel_def by blast

lemma multi_put_inv:
  assumes "multi_inv n (Suc j) M g m" and "k \<noteq> []" and "\<not> reserved_key k"
  shows "\<exists>m' M'. mr_Put k v m = Some (Status_Ok, m') \<and> multi_inv n j M' (fmupd k v g) m'"
proof -
  obtain r where r: "FindRegionByKey m k = Some r" "r \<in> set (mr_regions m)" "ContainsKey r k"
    by (rule multi_inv_region [OF assms(1)])
  have "\<exists>m' M'. on_cluster (ri_region_id r) (cluster_Put k v) m = Some (Status_Ok, m') \<and> multi_inv n j M' (fmupd k v g) m'"
    by (rule write_inv [where w = 0 and K = "{k}" and op = "CPut k v" and y = "\<lambda>_. Some v"])
      (use assms r entries_upd_le in \<open>auto simp: reserved_key_def user_key_def\<close>)
  then show ?thesis using r(1) by (auto simp: mr_Put_def)
qed

lemma multi_delete_inv:
  assumes "multi_inv n (Suc j) M g m" and "k \<noteq> []" and "\<not> reserved_key k"
  shows "\<exists>m' M'. mr_Delete k m = Some (Status_Ok, m') \<and> multi_inv n j M' (fmdrop k g) m'"
proof -
  obtain r where r: "FindRegionByKey m k = Some r" "r \<in> set (mr_regions m)" "ContainsKey r k"
    by (rule multi_inv_region [OF assms(1)])
  have "\<exists>m' M'. on_cluster (ri_region_id r) (cluster_Delete k) m = Some (Status_Ok, m') \<and> multi_inv n j M' (fmdrop k g) m'"
    by (rule write_inv [where w = 0 and K = "{k}" and op = "CDelete k" and y = "\<lambda>_. None"])
      (use assms r entries_drop_le in \<open>auto simp: reserved_key_def user_key_def\<close>)
  then show ?thesis using r(1) by (auto simp: mr_Delete_def)
qed

text \<open>A batch within one region is applied whole; any other batch is refused and changes nothing.\<close>

definition one_region_batch :: "KvMutation list \<Rightarrow> MultiRegionCluster \<Rightarrow> bool" where
  "one_region_batch us m \<longleftrightarrow> (\<exists>r \<in> set (mr_regions m). \<forall>u \<in> set us. ContainsKey r (mu_key u))"

lemma apply_mutations_lookup:
  "fmlookup (apply_mutations us m) k =
     (if k \<in> mu_key ` set us then fmlookup (apply_mutations us fmempty) k else fmlookup m k)"
  by (induction us rule: rev_induct) (auto simp: apply_mutation_def split: KvMutationType.splits)

lemma apply_mutations_size: "length (entries (apply_mutations us m)) \<le> length us + length (entries m)"
proof (induction us arbitrary: m)
  case (Cons u us)
  have "length (entries (apply_mutation u m)) \<le> Suc (length (entries m))"
    using entries_upd_le [of "mu_key u" "mu_value u" m] entries_drop_le [of "mu_key u" m]
    by (simp add: apply_mutation_def split: KvMutationType.splits)
  with Cons [of "apply_mutation u m"] show ?case by simp
qed simp

lemma multi_batch_inv:
  assumes m: "multi_inv n (length us + j) M g m" and us: "us \<noteq> []" "\<forall>u \<in> set us. mu_key u \<noteq> [] \<and> \<not> reserved_key (mu_key u)"
    and one: "one_region_batch us m"
  shows "\<exists>m' M'. mr_Batch us m = Some (Status_Ok, m') \<and> multi_inv n j M' (apply_mutations us g) m'"
proof -
  have d: "disjoint_regions (mr_regions m)" using m by (simp add: multi_inv_def multi_rel_def)
  obtain r where r: "r \<in> set (mr_regions m)" "\<forall>u \<in> set us. ContainsKey r (mu_key u)"
    using one by (auto simp: one_region_batch_def)
  then have find: "FindRegionByKey m (mu_key u) = Some r" if "u \<in> set us" for u using that find_region [OF d] by blast
  obtain u us' where u: "us = u # us'" using us(1) by (cases us) auto
  have "length us < 2 ^ 64" using m by (simp add: multi_inv_def)
  then have ok: "cluster_op_ok n (CBatch us)" using us(2) by (auto simp: reserved_key_def user_key_def)
  have "\<exists>m' M'. on_cluster (ri_region_id r) (cluster_Batch us) m = Some (Status_Ok, m') \<and>
      multi_inv n j M' (apply_mutations us g) m'"
  proof (rule write_inv [OF _ r(1) _ _ _ _ ok])
    show "multi_inv n (Suc (length us') + j) M g m" using m by (simp add: u)
    show "ContainsKey r k" if "k \<in> mu_key ` set us" for k using r(2) that by auto
    show "fmlookup (map_step (CBatch us) x) k =
        (if k \<in> mu_key ` set us then fmlookup (apply_mutations us fmempty) k else fmlookup x k)" for x k
      unfolding map_step.simps by (rule apply_mutations_lookup)
    show "fmlookup (apply_mutations us g) k =
        (if k \<in> mu_key ` set us then fmlookup (apply_mutations us fmempty) k else fmlookup g k)" for k
      by (rule apply_mutations_lookup)
    show "length (entries (map_step (CBatch us) x)) \<le> Suc (length us') + length (entries x)" for x
      using apply_mutations_size [of us x] by (simp add: u)
  qed (simp add: fun_eq_iff)
  moreover have "mr_Batch us m = on_cluster (ri_region_id r) (cluster_Batch us) m"
    using find us(1) by (simp add: mr_Batch_def)
  ultimately show ?thesis by simp
qed

lemma multi_batch_refused:
  assumes "multi_inv n j M g m" and "us \<noteq> []" and "\<not> one_region_batch us m"
  shows "mr_Batch us m = Some (InvalidArgument ''batch must target a single region'', m)"
proof -
  obtain r where r: "FindRegionByKey m (mu_key (hd us)) = Some r" "r \<in> set (mr_regions m)"
    by (rule multi_inv_region [OF assms(1)])
  have d: "disjoint_regions (mr_regions m)" using assms(1) by (simp add: multi_inv_def multi_rel_def)
  obtain u where u: "u \<in> set us" "\<not> ContainsKey r (mu_key u)" using assms(3) r(2) by (auto simp: one_region_batch_def)
  obtain q where q: "FindRegionByKey m (mu_key u) = Some q" "q \<in> set (mr_regions m)" "ContainsKey q (mu_key u)"
    by (rule multi_inv_region [OF assms(1)])
  have "ri_region_id q \<noteq> ri_region_id r" using d q u r by (auto simp: disjoint_regions_def distinct_map inj_on_def)
  with q(1) u(1) have "\<not> (\<forall>u \<in> set us. map_option ri_region_id (FindRegionByKey m (mu_key u)) = Some (ri_region_id r))"
    by force
  with r(1) assms(2) show ?thesis by (auto simp: mr_Batch_def)
qed

lemma multi_restart_inv:
  assumes m: "multi_inv n (Suc j) M g m" and "regs \<noteq> []"
  shows "\<exists>m'. mr_Bootstrap (mr_data_dir m) n regs False (mr_close m) = Some (Status_Ok, m') \<and> multi_inv n j M g m' \<and>
     mr_regions m' = mr_regions m \<and> mr_data_dir m' = mr_data_dir m"
proof -
  have len: "length (mr_regions m) < 2 ^ 64" "\<forall>r \<in> set (mr_regions m). length (ri_peers r) < 2 ^ 64"
    using m by (auto simp: multi_inv_def region_inv_def)
  have "multi_rel n (Suc j) M m" "catalog_saved m" using m by (simp_all add: multi_inv_def)
  from restart_step [OF this len assms(2)] obtain m' where
    "mr_Bootstrap (mr_data_dir m) n regs False (mr_close m) = Some (Status_Ok, m')" "multi_rel n j M m'"
    "catalog_saved m'" "mr_regions m' = mr_regions m" "mr_data_dir m' = mr_data_dir m"
    by blast
  moreover from this have "multi_inv n j M g m'" using multi_inv_mono [OF m] by (simp add: multi_inv_def)
  ultimately show ?thesis by blast
qed

lemma multi_step_inv:
  assumes m: "multi_inv n (Suc j) M g m" and ok: "multi_op_ok op"
  shows "\<exists>status m' M'. multi_step n op m = Some (status, m') \<and> (ok status \<or> (\<exists>i k. op = MSplit i k)) \<and>
     multi_inv n j M' (global_step op g) m'"
proof -
  show ?thesis
  proof (cases op)
    case (MPut k v)
    then show ?thesis using multi_put_inv [OF m, of k v] ok by auto
  next
    case (MDelete k)
    then show ?thesis using multi_delete_inv [OF m, of k] ok by auto
  next
    case (MSplit i k)
    then show ?thesis
    proof (cases "\<exists>r \<in> set (mr_regions m). ri_region_id r = i \<and> ContainsKey r k \<and> k \<noteq> ri_start_key r")
      case True
      then show ?thesis using MSplit split_inv [OF m] by fastforce
    next
      case False
      then have "\<exists>status. mr_SplitRegion i k m = Some (Inl status, m)"
        by (auto simp: mr_SplitRegion_def find_Some_iff split: option.splits)
      then show ?thesis using MSplit multi_inv_mono [OF m] by auto
    qed
  next
    case (MRestart regs)
    then show ?thesis using multi_restart_inv [OF m, of regs] ok by auto
  qed
qed

lemma multi_run_inv:
  "multi_inv n (length ops + j) M g m \<Longrightarrow> \<forall>op \<in> set ops. multi_op_ok op \<Longrightarrow>
     \<exists>m' M'. multi_run n ops m = Some m' \<and> multi_inv n j M' (fold global_step ops g) m'"
proof (induction ops arbitrary: m M g)
  case (Cons op ops)
  from multi_step_inv [of n "length ops + j" M g m op] Cons.prems obtain status m1 M1 where
    "multi_step n op m = Some (status, m1)" "ok status \<or> (\<exists>i k. op = MSplit i k)"
    "multi_inv n (length ops + j) M1 (global_step op g) m1"
    by auto
  with Cons.IH [of M1 "global_step op g" m1] Cons.prems(2) show ?case by auto
qed auto

section \<open>Starting with empty data\<close>

lemma fresh_inv:
  assumes n: "0 < n" "n < 2 ^ 64" and env: "healthy_env env" and rs: "disjoint_regions rs" "rs \<noteq> []"
    and cover: "\<forall>k. \<exists>r \<in> set rs. ContainsKey r k" and len: "length rs + j + 1 < 2 ^ 64"
    and bound: "\<forall>r \<in> set rs. length (ri_peers r) < 2 ^ 64 \<and> unat (ri_region_id r) + j + 1 < 2 ^ 64"
  shows "\<exists>m. mr_Bootstrap d n rs True (MultiRegionCluster_new env cat []) = Some (Status_Ok, m) \<and>
     multi_inv n j (\<lambda>_. fmempty) fmempty m \<and> mr_regions m = rs \<and> mr_data_dir m = d"
proof -
  define m0 where "m0 = \<lparr>mr_regions = rs, mr_clusters = fmempty, mr_data_dir = d, mr_store_count = n,
      mr_files = remove_all d env, mr_catalogs = (\<lambda>p. if p = d \<or> prefix (d @ ''/'') p then None else cat p), mr_io = []\<rparr>"
  have h: "healthy_env (remove_all d env)" using env by (simp add: healthy_env_def remove_all_def)
  have "region_rel d' n j i fmempty c" if "cluster_rel d' n i 1 [] fmempty c" for d' i c
    using that len unfolding region_rel_def by (intro exI [of _ 1] exI [of _ "[]"]) auto
  then obtain C where C: "start_clusters True rs m0 = Some (Status_Ok, m0\<lparr>mr_clusters := C\<rparr>)"
    "fmdom' C = ri_region_id ` set rs"
    "\<forall>r \<in> set rs. \<exists>c. fmlookup C (ri_region_id r) = Some c \<and> region_rel (region_dir d (ri_region_id r)) n j (ri_region_id r) fmempty c"
    using start_clusters_ok [where m = m0 and rs = rs and reset = True and n = n and
        P = "\<lambda>i. region_rel (region_dir d i) n j i fmempty"] Bootstrap_fresh [OF n h] rs(1)
    by (fastforce simp: m0_def disjoint_regions_def)
  let ?m = "m0\<lparr>mr_clusters := C\<rparr>"
  let ?m' = "?m\<lparr>mr_catalogs := (mr_catalogs ?m)(mr_data_dir ?m := Some (EncodeFields (region_catalog_fields (mr_regions ?m))))\<rparr>"
  have "PersistRegionCatalog ?m = Some (Status_Ok, ?m')"
    by (rule PersistRegionCatalog_healthy) (simp add: m0_def)
  moreover have "mr_Bootstrap d n rs True (MultiRegionCluster_new env cat []) = PersistRegionCatalog ?m"
    using C(1) rs(2) env h by (simp add: mr_Bootstrap_def MultiRegionCluster_new_def Let_def m0_def cong: if_cong)
  moreover have "multi_rel n j (\<lambda>_. fmempty) ?m'" using n h rs(1) C(2,3) by (simp add: multi_rel_def m0_def)
  then have "multi_inv n j (\<lambda>_. fmempty) fmempty ?m'"
    using len bound cover by (simp add: multi_inv_def region_inv_def catalog_saved_def m0_def)
  moreover have "mr_regions ?m' = rs" "mr_data_dir ?m' = d" by (simp_all add: m0_def)
  ultimately show ?thesis by auto
qed

text \<open>
  C6. The multi-region cluster is one map. Started with empty data on healthy disks, with regions
  that are disjoint and cover all keys, any sequence of puts and deletes (of keys outside the
  reserved prefixes), splits at any key and restarts from the files succeeds, and afterwards every
  key reads, at both consistency levels, as in the map obtained by the puts and deletes alone:
  splitting regions and restarting are invisible to clients.
\<close>

theorem multi_region_refines_map:
  assumes "0 < n" and "n < 2 ^ 64" and "healthy_env env" and "disjoint_regions rs" and "rs \<noteq> []"
    and "\<forall>k. \<exists>r \<in> set rs. ContainsKey r k" and "length rs + length ops + 1 < 2 ^ 64"
    and "\<forall>r \<in> set rs. length (ri_peers r) < 2 ^ 64 \<and> unat (ri_region_id r) + length ops + 1 < 2 ^ 64"
    and "\<forall>op \<in> set ops. multi_op_ok op"
  shows "\<exists>m0 m. mr_Bootstrap d n rs True (MultiRegionCluster_new env cat []) = Some (Status_Ok, m0) \<and>
     multi_run n ops m0 = Some m \<and>
     (\<forall>k cons. \<not> reserved_key k \<longrightarrow> mr_Get k cons m = lookup_result (fold global_step ops fmempty) k)"
proof -
  obtain m0 where m0: "mr_Bootstrap d n rs True (MultiRegionCluster_new env cat []) = Some (Status_Ok, m0)"
    "multi_inv n (length ops + 0) (\<lambda>_. fmempty) fmempty m0"
    using fresh_inv [OF assms(1-6), of "length ops" d cat] assms(7,8) by auto
  with multi_run_inv [OF m0(2) assms(9)] multi_inv_reads show ?thesis by blast
qed

theorem multi_region_refines_map_witness:
  "\<exists>m0 m. mr_Bootstrap ''d'' 3 [one_region] True (MultiRegionCluster_new \<lparr>fe_log = (\<lambda>_. []), fe_io = (\<lambda>_. [])\<rparr> (\<lambda>_. None) []) =
       Some (Status_Ok, m0) \<and>
     multi_run 3 [MPut ''x'' ''1'', MSplit 1 ''m'', MPut ''a'' ''2'', MRestart [one_region], MDelete ''a''] m0 = Some m \<and>
     mr_Get ''x'' kLinearizable m = Inr ''1'' \<and> mr_Get ''a'' kEventual m = Inl (KeyNotFound ''key not found: a'')"
proof -
  let ?ops = "[MPut ''x'' ''1'', MSplit 1 ''m'', MPut ''a'' ''2'', MRestart [one_region], MDelete ''a'']"
  have keys: "\<not> reserved_key ''x''" "\<not> reserved_key ''a''" by (simp_all add: reserved_key_def)
  have peers: "length (ri_peers one_region) = 1" by (simp add: one_region_def)
  from multi_region_refines_map [of 3 "\<lparr>fe_log = (\<lambda>_. []), fe_io = (\<lambda>_. [])\<rparr>" "[one_region]" ?ops "''d''" "\<lambda>_. None"]
  show ?thesis
    using keys peers by (fastforce simp: healthy_env_def disjoint_regions_def lookup_result_def)
qed

section \<open>The peers recorded for the right half\<close>

lemma transfer_unknown_peer:
  assumes "region_rel d n j i m c" and "p \<notin> set (boot_ids n)"
  shows "TransferLeader p c = Some (InvalidArgument ''leader peer not found'', c)"
proof -
  have "map sr_peer_id (sc_stores c) = boot_ids n" and led: "led_by (sc_leader_peer_id c) (sc_stores c)"
    using assms(1) by (auto simp: region_rel_def cluster_rel_def)
  then have ids: "sr_peer_id ` set (sc_stores c) = set (boot_ids n)" by (metis list.set_map)
  have "find_peer p (sc_stores c) = None"
    using assms(2) ids by (auto simp: find_peer_def find_None_iff)
  moreover have "sc_leader_peer_id c \<noteq> p"
    using led assms(2) ids find_peer_Some by (force simp: led_by_def)
  ultimately show ?thesis by (simp add: TransferLeader_def ElectLeader_def)
qed

lemma boot_ids_le: "p \<in> set (boot_ids n) \<Longrightarrow> n < 2 ^ 64 \<Longrightarrow> unat p \<le> n"
  by (auto simp: boot_ids_def unat_of_nat simp del: of_nat_Suc)

text \<open>
  The catalog of a split names peers that do not exist. The stores of the new cluster have the
  peer ids \<open>1, 2, ...\<close>, but the region record of the right half adds \<open>id * 1000\<close> to the ids of the
  original peers: transferring leadership of the right half to the peer that the catalog names
  as its leader is refused, for any region led by its first peer and any new id below the wrap-around.
\<close>

theorem split_right_leader_unknown:
  assumes "multi_rel n (Suc j) M m" and "r \<in> set (mr_regions m)" and "ContainsKey r sk" and "sk \<noteq> ri_start_key r"
    and "\<forall>q \<in> set (mr_regions m). ri_region_id q \<noteq> - 1" and "length (entries (M (ri_region_id r))) < 2 ^ 64"
    and "j + 2 < 2 ^ 64" and "n < 1000" and "ri_peers r \<noteq> []" and "pr_peer_id (hd (ri_peers r)) \<in> set (boot_ids n)"
    and "unat (next_region_id (mr_regions m)) * 1000 + 1000 < 2 ^ 64" and "next_region_id (mr_regions m) \<noteq> 0"
  shows "\<exists>left right m'. mr_SplitRegion (ri_region_id r) sk m = Some (Inr (left, right), m') \<and>
     mr_TransferLeader (ri_region_id right) (ri_leader_peer_id right) m' =
       Some (InvalidArgument ''leader peer not found'', m')"
proof -
  let ?i = "next_region_id (mr_regions m)" and ?p = "pr_peer_id (hd (ri_peers r))"
  let ?R = "mr_split_right r sk ?i"
  obtain m' where m': "mr_SplitRegion (ri_region_id r) sk m = Some (Inr (mr_split_left r sk, ?R), m')"
    "multi_rel n j (split_maps r sk ?i M) m'" "?R \<in> set (mr_regions m')"
    using split_step [OF assms(1-7)] by auto
  obtain c where c: "fmlookup (mr_clusters m') (ri_region_id ?R) = Some c"
    "region_rel (region_dir (mr_data_dir m') (ri_region_id ?R)) n j (ri_region_id ?R) (split_maps r sk ?i M (ri_region_id ?R)) c"
    by (rule multi_rel_region [OF m'(2,3)])
  have p: "unat ?p \<le> n" using boot_ids_le assms(8,10) by simp
  have leader: "ri_leader_peer_id ?R = ?p + ?i * 1000"
    using assms(9) by (simp add: mr_split_right_def Let_def hd_map)
  have "unat (?i * 1000) = unat ?i * 1000" using assms(11) by (subst unat_mult_lem [THEN iffD1]) simp_all
  moreover from this have "unat (?p + ?i * 1000) = unat ?p + unat ?i * 1000"
    using assms(8,11) p by (subst unat_add_lem [THEN iffD1]) simp_all
  moreover have "0 < unat ?i" using assms(12) by (simp add: unat_gt_0)
  ultimately have "?p + ?i * 1000 \<notin> set (boot_ids n)"
    using assms(8) boot_ids_le [of "?p + ?i * 1000" n] by auto
  from transfer_unknown_peer [OF c(2) this]
  have "TransferLeader (ri_leader_peer_id ?R) c = Some (InvalidArgument ''leader peer not found'', c)"
    by (simp only: leader)
  moreover have "fmupd (ri_region_id ?R) c (mr_clusters m') = mr_clusters m'" using c(1) by (intro fmap_ext) auto
  ultimately have "mr_TransferLeader (ri_region_id ?R) (ri_leader_peer_id ?R) m' =
      Some (InvalidArgument ''leader peer not found'', m')"
    using c(1) by (simp add: mr_TransferLeader_def change_region_def FindRegionCluster_def on_cluster_def)
  with m'(1) show ?thesis by blast
qed

theorem split_right_leader_unknown_witness:
  "\<exists>m left right m'. mr_regions m = [one_region] \<and> mr_SplitRegion 1 ''m'' m = Some (Inr (left, right), m') \<and>
     mr_TransferLeader (ri_region_id right) (ri_leader_peer_id right) m' =
       Some (InvalidArgument ''leader peer not found'', m')"
proof -
  obtain m M where m: "multi_rel 3 9 M m" "mr_regions m = [one_region]" "M 1 = fmupd ''pd/x'' ''v'' fmempty"
    by (rule one_region_put)
  have "boot_ids 3 = [1, 2, 3]" by (simp add: boot_ids_def upt_rec)
  moreover have "hd (ri_peers one_region) = \<lparr>pr_peer_id = 1, pr_store_id = 1, pr_role = kVoter\<rparr>" "ri_peers one_region \<noteq> []"
    by (simp_all add: one_region_def)
  moreover have "next_region_id [one_region] = 2" by (simp add: next_region_id_def max_def)
  ultimately show ?thesis
    using split_right_leader_unknown [of 3 8 M m one_region "''m''"] m by (auto simp: length_entries fcard.rep_eq)
qed

end
