(* ===== verification/Gateway_Server.thy ===== *)
theory Gateway_Server
  imports Multi_Region_Map Pd_Server
begin

text \<open>
  route_cache.cpp, gateway_server.cpp and rstone_client.cpp: the route cache, the in-process
  gateway and the client. The gateway asks the placement driver for the region of a key, keeps
  the answer in the cache and passes the call on to a single-region or a multi-region cluster.
  The locale \<open>kv_backend\<close> is what the gateway relies on from a cluster; it is interpreted for both
  kinds. Its lemmas show that the gateway adds nothing to and takes nothing from what the
  cluster does, whatever the cache contains.
\<close>

section \<open>The route cache\<close>

record RouteEntry =
  rt_region :: RegionInfo
  rt_leader_store :: StoreInfo
  rt_last_update_ms :: i64

type_synonym RouteCache = "(u64, RouteEntry) std_map"

definition RouteCache_Put :: "RouteEntry \<Rightarrow> RouteCache \<Rightarrow> RouteCache" where
  "RouteCache_Put entry cache = fmupd (ri_region_id (rt_region entry)) entry cache"

definition RouteCache_GetByKey :: "RouteCache \<Rightarrow> string \<Rightarrow> RouteEntry option" where
  "RouteCache_GetByKey cache key = find (\<lambda>entry. ContainsKey (rt_region entry) key) (map snd (entries cache))"

definition RouteCache_Invalidate :: "u64 \<Rightarrow> RouteCache \<Rightarrow> RouteCache" where
  "RouteCache_Invalidate region_id cache = fmdrop region_id cache"

definition RouteCache_Clear :: "RouteCache \<Rightarrow> RouteCache" where
  "RouteCache_Clear cache = fmempty"

definition RouteCache_Size :: "RouteCache \<Rightarrow> nat" where
  "RouteCache_Size cache = length (entries cache)"

section \<open>The gateway\<close>

text \<open>
  The two constructors take a pointer to either kind of cluster; \<open>None\<close> is the null pointer.
\<close>

datatype ClusterRef = SingleRef "SingleRegionCluster option" | MultiRef "MultiRegionCluster option"

record GatewayServer =
  gw_pd :: "PdServer option"
  gw_cluster :: ClusterRef
  gw_route_cache :: RouteCache

definition GatewayServer_new :: "PdServer option \<Rightarrow> ClusterRef \<Rightarrow> GatewayServer" where
  "GatewayServer_new pd cluster = \<lparr>gw_pd = pd, gw_cluster = cluster, gw_route_cache = fmempty\<rparr>"

fun null_ref :: "ClusterRef \<Rightarrow> bool" where
  "null_ref (SingleRef c) \<longleftrightarrow> c = None"
| "null_ref (MultiRef m) \<longleftrightarrow> m = None"

definition gw_ResolveRoute :: "string \<Rightarrow> GatewayServer \<Rightarrow> (Status + RouteEntry) \<times> GatewayServer" where
  "gw_ResolveRoute key g =
     (case gw_pd g of
        None \<Rightarrow> (Inl (InvalidArgument ''gateway is not initialized''), g)
      | Some pd \<Rightarrow>
          if null_ref (gw_cluster g) then (Inl (InvalidArgument ''gateway is not initialized''), g)
          else case RouteCache_GetByKey (gw_route_cache g) key of
                 Some cached \<Rightarrow> (Inr cached, g)
               | None \<Rightarrow>
                   (case pd_GetRegionByKey pd key of
                      None \<Rightarrow> (Inl (mk_status kRegionNotFound ''region not found for key''), g)
                    | Some region \<Rightarrow>
                        (case GetRegionLeaderStore pd region of
                           None \<Rightarrow> (Inl (mk_status kNotLeader ''region leader store not found''), g)
                         | Some leader_store \<Rightarrow>
                             let entry = \<lparr>rt_region = region, rt_leader_store = leader_store, rt_last_update_ms = 0\<rparr>
                             in (Inr entry, g\<lparr>gw_route_cache := RouteCache_Put entry (gw_route_cache g)\<rparr>))))"

text \<open>The calls through the pointer that is set; \<open>None\<close> is the null dereference that the check excludes.\<close>

fun ref_Put :: "string \<Rightarrow> string \<Rightarrow> ClusterRef \<Rightarrow> (Status \<times> ClusterRef) option" where
  "ref_Put key v (MultiRef (Some m)) = map_option (map_prod id (MultiRef \<circ> Some)) (mr_Put key v m)"
| "ref_Put key v (SingleRef (Some c)) = map_option (map_prod id (SingleRef \<circ> Some)) (cluster_Put key v c)"
| "ref_Put key v _ = None"

fun ref_Delete :: "string \<Rightarrow> ClusterRef \<Rightarrow> (Status \<times> ClusterRef) option" where
  "ref_Delete key (MultiRef (Some m)) = map_option (map_prod id (MultiRef \<circ> Some)) (mr_Delete key m)"
| "ref_Delete key (SingleRef (Some c)) = map_option (map_prod id (SingleRef \<circ> Some)) (cluster_Delete key c)"
| "ref_Delete key _ = None"

fun ref_Batch :: "KvMutation list \<Rightarrow> ClusterRef \<Rightarrow> (Status \<times> ClusterRef) option" where
  "ref_Batch us (MultiRef (Some m)) = map_option (map_prod id (MultiRef \<circ> Some)) (mr_Batch us m)"
| "ref_Batch us (SingleRef (Some c)) = map_option (map_prod id (SingleRef \<circ> Some)) (cluster_Batch us c)"
| "ref_Batch us _ = None"

fun ref_Get :: "string \<Rightarrow> Consistency \<Rightarrow> ClusterRef \<Rightarrow> (Status + string) option" where
  "ref_Get key consistency (MultiRef (Some m)) = Some (mr_Get key consistency m)"
| "ref_Get key consistency (SingleRef (Some c)) =
     Some (if consistency = kLinearizable then
             (case Leader c of
                None \<Rightarrow> Inl (mk_status kNotLeader ''no leader'')
              | Some leader \<Rightarrow> store_Get key leader)
           else if sc_stores c = [] then Inl (Internal ''no stores'')
           else store_Get key (hd (sc_stores c)))"
| "ref_Get key consistency _ = None"

definition gw_write ::
  "string \<Rightarrow> (ClusterRef \<Rightarrow> (Status \<times> ClusterRef) option) \<Rightarrow> GatewayServer \<Rightarrow> (Status \<times> GatewayServer) option" where
  "gw_write key call g =
     (case gw_ResolveRoute key g of
        (Inl status, g1) \<Rightarrow> Some (status, g1)
      | (Inr _, g1) \<Rightarrow> map_option (\<lambda>(status, c). (status, g1\<lparr>gw_cluster := c\<rparr>)) (call (gw_cluster g1)))"

definition gw_Put :: "string \<Rightarrow> string \<Rightarrow> GatewayServer \<Rightarrow> (Status \<times> GatewayServer) option" where
  "gw_Put key v g = gw_write key (ref_Put key v) g"

definition gw_Delete :: "string \<Rightarrow> GatewayServer \<Rightarrow> (Status \<times> GatewayServer) option" where
  "gw_Delete key g = gw_write key (ref_Delete key) g"

text \<open>The loop of \<open>Batch\<close> that routes every key of the batch.\<close>

fun check_routes :: "u64 \<Rightarrow> KvMutation list \<Rightarrow> GatewayServer \<Rightarrow> Status \<times> GatewayServer" where
  "check_routes region_id [] g = (Status_Ok, g)"
| "check_routes region_id (u # us) g =
     (case gw_ResolveRoute (mu_key u) g of
        (Inl status, g1) \<Rightarrow> (status, g1)
      | (Inr route, g1) \<Rightarrow>
          if ri_region_id (rt_region route) \<noteq> region_id
          then (InvalidArgument ''batch must target a single region'', g1)
          else check_routes region_id us g1)"

definition gw_Batch :: "KvMutation list \<Rightarrow> GatewayServer \<Rightarrow> (Status \<times> GatewayServer) option" where
  "gw_Batch us g =
     (if us = [] then Some (Status_Ok, g)
      else case gw_ResolveRoute (mu_key (hd us)) g of
             (Inl status, g1) \<Rightarrow> Some (status, g1)
           | (Inr route, g1) \<Rightarrow>
               let (status, g2) = check_routes (ri_region_id (rt_region route)) us g1
               in if \<not> ok status then Some (status, g2)
                  else map_option (\<lambda>(status, c). (status, g2\<lparr>gw_cluster := c\<rparr>)) (ref_Batch us (gw_cluster g2)))"

definition gw_Get :: "string \<Rightarrow> Consistency \<Rightarrow> GatewayServer \<Rightarrow> ((Status + string) \<times> GatewayServer) option" where
  "gw_Get key consistency g =
     (case gw_ResolveRoute key g of
        (Inl status, g1) \<Rightarrow> Some (Inl status, g1)
      | (Inr _, g1) \<Rightarrow> map_option (\<lambda>r. (r, g1)) (ref_Get key consistency (gw_cluster g1)))"

section \<open>The client\<close>

type_synonym RStoneClient = "GatewayServer option"

definition client_call ::
  "(GatewayServer \<Rightarrow> (Status \<times> GatewayServer) option) \<Rightarrow> RStoneClient \<Rightarrow> (Status \<times> RStoneClient) option" where
  "client_call f c =
     (case c of
        None \<Rightarrow> Some (InvalidArgument ''client has no gateway'', None)
      | Some g \<Rightarrow> map_option (map_prod id Some) (f g))"

definition client_Put :: "string \<Rightarrow> string \<Rightarrow> RStoneClient \<Rightarrow> (Status \<times> RStoneClient) option" where
  "client_Put key v c = client_call (gw_Put key v) c"

definition client_Delete :: "string \<Rightarrow> RStoneClient \<Rightarrow> (Status \<times> RStoneClient) option" where
  "client_Delete key c = client_call (gw_Delete key) c"

definition client_Batch :: "KvMutation list \<Rightarrow> RStoneClient \<Rightarrow> (Status \<times> RStoneClient) option" where
  "client_Batch us c = client_call (gw_Batch us) c"

definition client_GetWith ::
  "string \<Rightarrow> Consistency \<Rightarrow> RStoneClient \<Rightarrow> ((Status + string) \<times> RStoneClient) option" where
  "client_GetWith key consistency c =
     (case c of
        None \<Rightarrow> Some (Inl (InvalidArgument ''client has no gateway''), None)
      | Some g \<Rightarrow> map_option (map_prod id Some) (gw_Get key consistency g))"

definition client_Get :: "string \<Rightarrow> RStoneClient \<Rightarrow> ((Status + string) \<times> RStoneClient) option" where
  "client_Get key c = client_GetWith key kLinearizable c"

section \<open>Clusters as the gateway sees them\<close>

abbreviation client_key :: "string \<Rightarrow> bool" where
  "client_key k \<equiv> k \<noteq> [] \<and> \<not> reserved_key k"

text \<open>
  The operations a client sends, their effect on a map, and a run of them with the statuses
  returned. An operation that fails is expected to have no effect.
\<close>

datatype client_op = ClPut string string | ClDelete string | ClBatch "KvMutation list"

fun client_map :: "client_op \<Rightarrow> kv_map \<Rightarrow> kv_map" where
  "client_map (ClPut k v) m = fmupd k v m"
| "client_map (ClDelete k) m = fmdrop k m"
| "client_map (ClBatch us) m = apply_mutations us m"

fun client_op_ok :: "client_op \<Rightarrow> bool" where
  "client_op_ok (ClPut k v) \<longleftrightarrow> client_key k"
| "client_op_ok (ClDelete k) \<longleftrightarrow> client_key k"
| "client_op_ok (ClBatch us) \<longleftrightarrow> us \<noteq> [] \<and> (\<forall>u \<in> set us. client_key (mu_key u))"

fun op_size :: "client_op \<Rightarrow> nat" where
  "op_size (ClBatch us) = length us"
| "op_size _ = 1"

fun client_step :: "client_op \<Rightarrow> RStoneClient \<Rightarrow> (Status \<times> RStoneClient) option" where
  "client_step (ClPut k v) c = client_Put k v c"
| "client_step (ClDelete k) c = client_Delete k c"
| "client_step (ClBatch us) c = client_Batch us c"

fun client_run :: "client_op list \<Rightarrow> RStoneClient \<Rightarrow> (Status list \<times> RStoneClient) option" where
  "client_run [] c = Some ([], c)"
| "client_run (op # ops) c =
     (case client_step op c of
        None \<Rightarrow> None
      | Some (status, c') \<Rightarrow> map_option (map_prod (Cons status) id) (client_run ops c'))"

text \<open>What the operations that returned ok do to a map.\<close>

definition acknowledged :: "client_op list \<Rightarrow> Status list \<Rightarrow> kv_map \<Rightarrow> kv_map" where
  "acknowledged ops sts m = fold (\<lambda>(op, status) m. if ok status then client_map op m else m) (zip ops sts) m"

lemma acknowledged_simps [simp]:
  "acknowledged [] sts m = m"
  "acknowledged (op # ops) (status # sts) m = acknowledged ops sts (if ok status then client_map op m else m)"
  by (simp_all add: acknowledged_def)

text \<open>The batches a cluster takes: a multi-region cluster only those within one of its regions.\<close>

fun cluster_takes :: "KvMutation list \<Rightarrow> ClusterRef \<Rightarrow> bool" where
  "cluster_takes us (MultiRef (Some m)) \<longleftrightarrow> one_region_batch us m"
| "cluster_takes us _ \<longleftrightarrow> True"

text \<open>
  The keys of a batch are in one region of the placement driver, and the routes in a cache are
  regions of its catalog. Routes of an older catalog may be in a cache as well; then the cache
  decides.
\<close>

definition one_route :: "PdServer \<Rightarrow> KvMutation list \<Rightarrow> bool" where
  "one_route pd us \<longleftrightarrow> (\<exists>r \<in> set (pd_ListRegions pd). \<forall>u \<in> set us. ContainsKey r (mu_key u))"

definition known_routes :: "PdServer \<Rightarrow> RouteCache \<Rightarrow> bool" where
  "known_routes pd cache \<longleftrightarrow> (\<forall>e \<in> snd ` set (entries cache). rt_region e \<in> set (pd_ListRegions pd))"

text \<open>When an operation is acknowledged.\<close>

fun op_taken :: "PdServer \<Rightarrow> ClusterRef \<Rightarrow> client_op \<Rightarrow> bool" where
  "op_taken pd c (ClBatch us) \<longleftrightarrow> one_route pd us \<and> cluster_takes us c"
| "op_taken pd c _ \<longleftrightarrow> True"

lemma known_routes_put:
  "known_routes pd cache \<Longrightarrow> rt_region e \<in> set (pd_ListRegions pd) \<Longrightarrow> known_routes pd (RouteCache_Put e cache)"
  by (auto simp: known_routes_def RouteCache_Put_def image_iff Bex_def set_entries split: if_splits)

text \<open>Two regions of a catalog with the same id, or with a key in common, are the same.\<close>

lemma pd_regions_unique:
  assumes wf: "catalog_wf (pd_metadata pd)" and "r \<in> set (pd_ListRegions pd)" and "q \<in> set (pd_ListRegions pd)"
  shows "ri_region_id r = ri_region_id q \<longleftrightarrow> r = q" and "ContainsKey r k \<Longrightarrow> ContainsKey q k \<Longrightarrow> r = q"
proof -
  obtain i j where r: "fmlookup (pm_regions (pd_metadata pd)) i = Some r" and q: "fmlookup (pm_regions (pd_metadata pd)) j = Some q"
    using assms(2,3) by (auto simp: pd_ListRegions_def set_ListRegions)
  show "ri_region_id r = ri_region_id q \<longleftrightarrow> r = q" using catalog_wfD(1) [OF wf r] catalog_wfD(1) [OF wf q] r q by (metis option.inject)
  show "r = q" if "ContainsKey r k" "ContainsKey q k"
    using key_partition_unique [OF catalog_wfD(5) [OF wf r] r q that] r q by simp
qed

locale kv_backend =
  fixes rel :: "nat \<Rightarrow> kv_map \<Rightarrow> ClusterRef \<Rightarrow> bool"
  assumes not_null: "rel j m c \<Longrightarrow> \<not> null_ref c"
    and put_law: "rel (Suc j) m c \<Longrightarrow> client_key k \<Longrightarrow>
      \<exists>c'. ref_Put k v c = Some (Status_Ok, c') \<and> rel j (fmupd k v m) c' \<and> (\<forall>us. cluster_takes us c' = cluster_takes us c)"
    and delete_law: "rel (Suc j) m c \<Longrightarrow> client_key k \<Longrightarrow>
      \<exists>c'. ref_Delete k c = Some (Status_Ok, c') \<and> rel j (fmdrop k m) c' \<and> (\<forall>us. cluster_takes us c' = cluster_takes us c)"
    and batch_law: "rel (length us + j) m c \<Longrightarrow> us \<noteq> [] \<Longrightarrow> \<forall>u \<in> set us. client_key (mu_key u) \<Longrightarrow>
      \<exists>status c'. ref_Batch us c = Some (status, c') \<and> rel j (if ok status then apply_mutations us m else m) c' \<and>
        (ok status \<longleftrightarrow> cluster_takes us c) \<and> (\<forall>us'. cluster_takes us' c' = cluster_takes us' c)"
    and get_law: "rel j m c \<Longrightarrow> \<not> reserved_key k \<Longrightarrow> ref_Get k consistency c = Some (lookup_result m k)"
    and weaken: "rel (i + j) m c \<Longrightarrow> rel j m c"
begin

text \<open>A gateway with a catalog that routes every key, in front of such a cluster.\<close>

definition gateway_rel :: "PdServer \<Rightarrow> nat \<Rightarrow> kv_map \<Rightarrow> GatewayServer \<Rightarrow> bool" where
  "gateway_rel pd j m g \<longleftrightarrow> gw_pd g = Some pd \<and> catalog_wf (pd_metadata pd) \<and> pd_ListRegions pd \<noteq> [] \<and>
     rel j m (gw_cluster g)"

text \<open>What a step keeps: the batches the cluster takes, and a cache with known routes.\<close>

definition keeps_routes :: "PdServer \<Rightarrow> GatewayServer \<Rightarrow> GatewayServer \<Rightarrow> bool" where
  "keeps_routes pd g g' \<longleftrightarrow> (\<forall>us. cluster_takes us (gw_cluster g') = cluster_takes us (gw_cluster g)) \<and>
     (known_routes pd (gw_route_cache g) \<longrightarrow> known_routes pd (gw_route_cache g'))"

lemma resolves:
  assumes "gateway_rel pd j m g"
  obtains e cache where "gw_ResolveRoute k g = (Inr e, g\<lparr>gw_route_cache := cache\<rparr>)" and "ContainsKey (rt_region e) k"
    and "known_routes pd (gw_route_cache g) \<Longrightarrow> rt_region e \<in> set (pd_ListRegions pd) \<and> known_routes pd cache"
proof -
  have pd: "gw_pd g = Some pd" "catalog_wf (pd_metadata pd)" "pd_ListRegions pd \<noteq> []"
    and c: "\<not> null_ref (gw_cluster g)"
    using assms not_null by (auto simp: gateway_rel_def)
  show thesis
  proof (cases "RouteCache_GetByKey (gw_route_cache g) k")
    case None
    obtain r st where r: "pd_GetRegionByKey pd k = Some r" "ContainsKey r k" "GetRegionLeaderStore pd r = Some st"
      using route_of_key [OF pd(2,3), of k] by auto
    have mem: "r \<in> set (pd_ListRegions pd)"
      using GetRegionByKey_sound [of "pd_metadata pd" k r] r(1)
      by (auto simp: pd_GetRegionByKey_def pd_ListRegions_def set_ListRegions GetRegion_def)
    let ?e = "\<lparr>rt_region = r, rt_leader_store = st, rt_last_update_ms = 0\<rparr>"
    have "gw_ResolveRoute k g = (Inr ?e, g\<lparr>gw_route_cache := RouteCache_Put ?e (gw_route_cache g)\<rparr>)"
      using None pd(1) c r by (simp add: gw_ResolveRoute_def Let_def)
    moreover have "rt_region ?e = r" by simp
    ultimately show thesis using r(2) mem known_routes_put [of pd "gw_route_cache g" ?e] that by metis
  next
    case (Some e)
    then have "ContainsKey (rt_region e) k" "e \<in> snd ` set (entries (gw_route_cache g))"
      by (auto simp: RouteCache_GetByKey_def find_Some_iff)
    with Some pd(1) c show thesis
      by (intro that [of e "gw_route_cache g"]) (auto simp: gw_ResolveRoute_def known_routes_def)
  qed
qed

lemma gateway_write:
  assumes "gateway_rel pd j m g" and "call (gw_cluster g) = Some (status, c)" and "rel i m' c"
    and "\<forall>us. cluster_takes us c = cluster_takes us (gw_cluster g)"
  shows "\<exists>g'. gw_write k call g = Some (status, g') \<and> gateway_rel pd i m' g' \<and> keeps_routes pd g g'"
proof -
  obtain e cache where "gw_ResolveRoute k g = (Inr e, g\<lparr>gw_route_cache := cache\<rparr>)"
    "known_routes pd (gw_route_cache g) \<Longrightarrow> known_routes pd cache"
    using resolves [OF assms(1)] by metis
  with assms show ?thesis by (auto simp: gw_write_def gateway_rel_def keeps_routes_def)
qed

lemma gateway_put:
  assumes "gateway_rel pd (Suc j) m g" and "client_key k"
  shows "\<exists>g'. gw_Put k v g = Some (Status_Ok, g') \<and> gateway_rel pd j (fmupd k v m) g' \<and> keeps_routes pd g g'"
proof -
  have "rel (Suc j) m (gw_cluster g)" using assms(1) by (simp add: gateway_rel_def)
  from put_law [OF this assms(2)] gateway_write [OF assms(1)] show ?thesis unfolding gw_Put_def by metis
qed

lemma gateway_delete:
  assumes "gateway_rel pd (Suc j) m g" and "client_key k"
  shows "\<exists>g'. gw_Delete k g = Some (Status_Ok, g') \<and> gateway_rel pd j (fmdrop k m) g' \<and> keeps_routes pd g g'"
proof -
  have "rel (Suc j) m (gw_cluster g)" using assms(1) by (simp add: gateway_rel_def)
  from delete_law [OF this assms(2)] gateway_write [OF assms(1)] show ?thesis unfolding gw_Delete_def by metis
qed

lemma routes_checked:
  assumes "gateway_rel pd j m g"
  shows "\<exists>status cache. check_routes i us g = (status, g\<lparr>gw_route_cache := cache\<rparr>) \<and>
    (known_routes pd (gw_route_cache g) \<longrightarrow> known_routes pd cache \<and>
      (ok status \<longleftrightarrow> (\<forall>u \<in> set us. \<exists>r \<in> set (pd_ListRegions pd). ri_region_id r = i \<and> ContainsKey r (mu_key u))))"
  using assms
proof (induction us arbitrary: g)
  case (Cons u us)
  have wf: "catalog_wf (pd_metadata pd)" using Cons.prems by (simp add: gateway_rel_def)
  obtain e cache where e: "gw_ResolveRoute (mu_key u) g = (Inr e, g\<lparr>gw_route_cache := cache\<rparr>)" "ContainsKey (rt_region e) (mu_key u)"
    "known_routes pd (gw_route_cache g) \<Longrightarrow> rt_region e \<in> set (pd_ListRegions pd) \<and> known_routes pd cache"
    using resolves [OF Cons.prems] by metis
  have id: "known_routes pd (gw_route_cache g) \<Longrightarrow>
      (\<exists>r \<in> set (pd_ListRegions pd). ri_region_id r = i \<and> ContainsKey r (mu_key u)) \<longleftrightarrow> ri_region_id (rt_region e) = i"
    using e(2,3) pd_regions_unique(2) [OF wf] by metis
  have "gateway_rel pd j m (g\<lparr>gw_route_cache := cache\<rparr>)" using Cons.prems by (simp add: gateway_rel_def)
  from Cons.IH [OF this] obtain status cache' where c: "check_routes i us (g\<lparr>gw_route_cache := cache\<rparr>) = (status, g\<lparr>gw_route_cache := cache'\<rparr>)"
    "known_routes pd cache \<longrightarrow> known_routes pd cache' \<and>
      (ok status \<longleftrightarrow> (\<forall>u \<in> set us. \<exists>r \<in> set (pd_ListRegions pd). ri_region_id r = i \<and> ContainsKey r (mu_key u)))"
    by auto
  show ?case
  proof (cases "ri_region_id (rt_region e) = i")
    case True
    with e c id show ?thesis by (intro exI [of _ status] exI [of _ cache']) simp
  next
    case False
    with e id show ?thesis
      by (intro exI [of _ "InvalidArgument ''batch must target a single region''"] exI [of _ cache]) simp
  qed
next
  case Nil
  then show ?case by (intro exI [of _ Status_Ok] exI [of _ "gw_route_cache g"]) simp
qed

lemma gateway_batch:
  assumes g: "gateway_rel pd (length us + j) m g" and us: "us \<noteq> []" "\<forall>u \<in> set us. client_key (mu_key u)"
  shows "\<exists>status g'. gw_Batch us g = Some (status, g') \<and> gateway_rel pd j (if ok status then apply_mutations us m else m) g' \<and>
    keeps_routes pd g g' \<and>
    (known_routes pd (gw_route_cache g) \<longrightarrow> (ok status \<longleftrightarrow> one_route pd us \<and> cluster_takes us (gw_cluster g)))"
proof -
  have wf: "catalog_wf (pd_metadata pd)" and rel: "rel (length us + j) m (gw_cluster g)" using g by (simp_all add: gateway_rel_def)
  obtain e cache where e: "gw_ResolveRoute (mu_key (hd us)) g = (Inr e, g\<lparr>gw_route_cache := cache\<rparr>)"
    "ContainsKey (rt_region e) (mu_key (hd us))"
    "known_routes pd (gw_route_cache g) \<Longrightarrow> rt_region e \<in> set (pd_ListRegions pd) \<and> known_routes pd cache"
    using resolves [OF g] by metis
  let ?i = "ri_region_id (rt_region e)"
  have "gateway_rel pd (length us + j) m (g\<lparr>gw_route_cache := cache\<rparr>)" using g by (simp add: gateway_rel_def)
  from routes_checked [OF this, of ?i us] obtain status cache' where
    check: "check_routes ?i us (g\<lparr>gw_route_cache := cache\<rparr>) = (status, g\<lparr>gw_route_cache := cache'\<rparr>)"
    "known_routes pd cache \<longrightarrow> known_routes pd cache' \<and>
      (ok status \<longleftrightarrow> (\<forall>u \<in> set us. \<exists>r \<in> set (pd_ListRegions pd). ri_region_id r = ?i \<and> ContainsKey r (mu_key u)))"
    by auto
  have routed: "known_routes pd (gw_route_cache g) \<Longrightarrow> ok status \<longleftrightarrow> one_route pd us"
  proof -
    assume k: "known_routes pd (gw_route_cache g)"
    have r: "rt_region e \<in> set (pd_ListRegions pd)" using e(3) k by simp
    have "(\<exists>r \<in> set (pd_ListRegions pd). ri_region_id r = ?i \<and> ContainsKey r (mu_key u)) \<longleftrightarrow> ContainsKey (rt_region e) (mu_key u)" for u
      using pd_regions_unique(1) [OF wf _ r] r by blast
    then have "ok status \<longleftrightarrow> (\<forall>u \<in> set us. ContainsKey (rt_region e) (mu_key u))" using check(2) e(3) k by metis
    moreover have "one_route pd us \<longleftrightarrow> (\<forall>u \<in> set us. ContainsKey (rt_region e) (mu_key u))"
      unfolding one_route_def using pd_regions_unique(2) [OF wf _ r _ e(2)] r us(1) hd_in_set by metis
    ultimately show ?thesis by simp
  qed
  show ?thesis
  proof (cases "ok status")
    case True
    obtain st c' where c': "ref_Batch us (gw_cluster g) = Some (st, c')" "rel j (if ok st then apply_mutations us m else m) c'"
      "ok st \<longleftrightarrow> cluster_takes us (gw_cluster g)" "\<forall>us'. cluster_takes us' c' = cluster_takes us' (gw_cluster g)"
      using batch_law [OF rel us] by blast
    have "gw_Batch us g = Some (st, g\<lparr>gw_route_cache := cache', gw_cluster := c'\<rparr>)"
      using True e(1) check(1) c'(1) us(1) by (simp add: gw_Batch_def)
    moreover have "keeps_routes pd g (g\<lparr>gw_route_cache := cache', gw_cluster := c'\<rparr>)"
      using c'(4) check(2) e(3) by (simp add: keeps_routes_def)
    ultimately show ?thesis
      using g c'(2,3) routed True by (intro exI [of _ st] exI conjI) (auto simp: gateway_rel_def)
  next
    case False
    have "gw_Batch us g = Some (status, g\<lparr>gw_route_cache := cache'\<rparr>)" using False e(1) check(1) us(1) by (simp add: gw_Batch_def)
    moreover have "keeps_routes pd g (g\<lparr>gw_route_cache := cache'\<rparr>)" using check(2) e(3) by (simp add: keeps_routes_def)
    ultimately show ?thesis
      using g weaken [OF rel] routed False by (intro exI [of _ status] exI conjI) (auto simp: gateway_rel_def)
  qed
qed

lemma gateway_get:
  assumes "gateway_rel pd j m g" and "\<not> reserved_key k"
  shows "\<exists>g'. gw_Get k consistency g = Some (lookup_result m k, g') \<and> gateway_rel pd j m g'"
proof -
  obtain e cache where "gw_ResolveRoute k g = (Inr e, g\<lparr>gw_route_cache := cache\<rparr>)" by (rule resolves [OF assms(1)])
  then show ?thesis using assms get_law [of j m "gw_cluster g" k] by (auto simp: gw_Get_def gateway_rel_def)
qed

lemma client_step_rel:
  assumes g: "gateway_rel pd (op_size op + j) m g" and ok: "client_op_ok op"
  shows "\<exists>status g'. client_step op (Some g) = Some (status, Some g') \<and>
     gateway_rel pd j (if ok status then client_map op m else m) g' \<and> keeps_routes pd g g' \<and>
     (ok status \<or> (\<exists>us. op = ClBatch us)) \<and>
     (known_routes pd (gw_route_cache g) \<longrightarrow> (ok status \<longleftrightarrow> op_taken pd (gw_cluster g) op))"
proof (cases op)
  case (ClPut k v)
  then show ?thesis using gateway_put [of pd j m g k v] g ok by (auto simp: client_Put_def client_call_def)
next
  case (ClDelete k)
  then show ?thesis using gateway_delete [of pd j m g k] g ok by (auto simp: client_Delete_def client_call_def)
next
  case (ClBatch us)
  then obtain status g' where "gw_Batch us g = Some (status, g')" "keeps_routes pd g g'"
    "gateway_rel pd j (if ok status then apply_mutations us m else m) g'"
    "known_routes pd (gw_route_cache g) \<longrightarrow> (ok status \<longleftrightarrow> one_route pd us \<and> cluster_takes us (gw_cluster g))"
    using gateway_batch [of pd us j m g] g ok by auto
  then show ?thesis
    using ClBatch by (intro exI [of _ status] exI [of _ g']) (cases "ok status"; simp add: client_Batch_def client_call_def)
qed

lemma op_taken_kept: "keeps_routes pd g g' \<Longrightarrow> op_taken pd (gw_cluster g') op = op_taken pd (gw_cluster g) op"
  by (cases op) (simp_all add: keeps_routes_def)

lemma client_run_rel:
  assumes "gateway_rel pd (sum_list (map op_size ops) + j) m g" and "\<forall>op \<in> set ops. client_op_ok op"
  shows "\<exists>sts g'. client_run ops (Some g) = Some (sts, Some g') \<and> gateway_rel pd j (acknowledged ops sts m) g' \<and>
     list_all2 (\<lambda>op status. ok status \<or> (\<exists>us. op = ClBatch us)) ops sts \<and>
     (known_routes pd (gw_route_cache g) \<longrightarrow> list_all2 (\<lambda>op status. ok status \<longleftrightarrow> op_taken pd (gw_cluster g) op) ops sts)"
  using assms
proof (induction ops arbitrary: m g)
  case (Cons op ops)
  from client_step_rel [of pd op "sum_list (map op_size ops) + j" m g] Cons.prems obtain status g1 where
    1: "client_step op (Some g) = Some (status, Some g1)" "ok status \<or> (\<exists>us. op = ClBatch us)"
    "gateway_rel pd (sum_list (map op_size ops) + j) (if ok status then client_map op m else m) g1" "keeps_routes pd g g1"
    "known_routes pd (gw_route_cache g) \<longrightarrow> (ok status \<longleftrightarrow> op_taken pd (gw_cluster g) op)"
    by (auto simp: ac_simps)
  from Cons.IH [OF 1(3)] Cons.prems(2) obtain sts g' where
    2: "client_run ops (Some g1) = Some (sts, Some g')"
    "gateway_rel pd j (acknowledged ops sts (if ok status then client_map op m else m)) g'"
    "list_all2 (\<lambda>op status. ok status \<or> (\<exists>us. op = ClBatch us)) ops sts"
    "known_routes pd (gw_route_cache g1) \<longrightarrow> list_all2 (\<lambda>op status. ok status \<longleftrightarrow> op_taken pd (gw_cluster g1) op) ops sts"
    by auto
  have "known_routes pd (gw_route_cache g) \<longrightarrow> known_routes pd (gw_route_cache g1)" using 1(4) by (simp add: keeps_routes_def)
  then have "known_routes pd (gw_route_cache g) \<longrightarrow> list_all2 (\<lambda>op status. ok status \<longleftrightarrow> op_taken pd (gw_cluster g) op) ops sts"
    using 2(4) unfolding op_taken_kept [OF 1(4)] by blast
  with 1 2 show ?case
    by (intro exI [of _ "status # sts"] exI [of _ g'] conjI impI) simp_all
qed auto

text \<open>A run of calls and the reads that follow it.\<close>

lemma client_serves:
  assumes "gateway_rel pd (sum_list (map op_size ops) + j) m g" and "\<forall>op \<in> set ops. client_op_ok op"
  shows "\<exists>sts g'. client_run ops (Some g) = Some (sts, Some g') \<and>
     list_all2 (\<lambda>op status. ok status \<or> (\<exists>us. op = ClBatch us)) ops sts \<and>
     (known_routes pd (gw_route_cache g) \<longrightarrow> list_all2 (\<lambda>op status. ok status \<longleftrightarrow> op_taken pd (gw_cluster g) op) ops sts) \<and>
     (\<forall>k consistency. \<not> reserved_key k \<longrightarrow>
        (\<exists>c. client_GetWith k consistency (Some g') = Some (lookup_result (acknowledged ops sts m) k, c)))"
proof -
  from client_run_rel [OF assms] obtain sts g' where
    run: "client_run ops (Some g) = Some (sts, Some g')" "gateway_rel pd j (acknowledged ops sts m) g'"
    "list_all2 (\<lambda>op status. ok status \<or> (\<exists>us. op = ClBatch us)) ops sts"
    "known_routes pd (gw_route_cache g) \<longrightarrow> list_all2 (\<lambda>op status. ok status \<longleftrightarrow> op_taken pd (gw_cluster g) op) ops sts"
    by blast
  have "\<exists>c. client_GetWith k consistency (Some g') = Some (lookup_result (acknowledged ops sts m) k, c)"
    if "\<not> reserved_key k" for k consistency
    using gateway_get [OF run(2) that, of consistency] by (auto simp: client_GetWith_def)
  with run show ?thesis by blast
qed

end

section \<open>Both kinds of cluster\<close>

definition single_backend :: "string \<Rightarrow> nat \<Rightarrow> u64 \<Rightarrow> nat \<Rightarrow> kv_map \<Rightarrow> ClusterRef \<Rightarrow> bool" where
  "single_backend d n i j m c \<longleftrightarrow> n < 2 ^ 64 \<and> (\<exists>x. c = SingleRef (Some x) \<and> region_rel d n j i m x)"

definition multi_backend :: "nat \<Rightarrow> nat \<Rightarrow> kv_map \<Rightarrow> ClusterRef \<Rightarrow> bool" where
  "multi_backend n j m c \<longleftrightarrow> (\<exists>x M. c = MultiRef (Some x) \<and> multi_inv n j M m x)"

lemma client_key_user: "client_key k \<Longrightarrow> user_key k"
  by (auto simp: user_key_def reserved_key_def)

lemma region_rel_batch:
  assumes "region_rel d n (length us + j) i m c" and "us \<noteq> []" and "n < 2 ^ 64" and "\<forall>u \<in> set us. client_key (mu_key u)"
  shows "\<exists>c'. cluster_Batch us c = Some (Status_Ok, c') \<and> region_rel d n j i (apply_mutations us m) c'"
proof -
  obtain u us' where u: "us = u # us'" using assms(2) by (cases us) auto
  have "region_rel d n (Suc j) i m c" using region_rel_mono [OF assms(1)] by (simp add: u)
  moreover have "cluster_op_ok n (CBatch us)"
    using assms client_key_user by (auto simp: region_rel_def)
  ultimately show ?thesis using region_rel_step [OF _ assms(3)] by fastforce
qed

lemma mr_write_regions:
  "mr_Put k v x = Some (st, x') \<Longrightarrow> mr_regions x' = mr_regions x \<and> mr_data_dir x' = mr_data_dir x"
  "mr_Delete k x = Some (st, x') \<Longrightarrow> mr_regions x' = mr_regions x \<and> mr_data_dir x' = mr_data_dir x"
  "mr_Batch us x = Some (st, x') \<Longrightarrow> mr_regions x' = mr_regions x \<and> mr_data_dir x' = mr_data_dir x"
  by (auto simp: mr_Put_def mr_Delete_def mr_Batch_def on_cluster_def split: option.splits if_splits prod.splits)

interpretation single: kv_backend "single_backend d n i" for d n i
proof
  fix i' j m c
  show "\<not> null_ref c" if "single_backend d n i j m c" using that by (auto simp: single_backend_def)
  show "single_backend d n i j m c" if "single_backend d n i (i' + j) m c"
    using that region_rel_mono [of d n "i' + j" i m _ j] by (auto simp: single_backend_def)
  fix k v
  show "\<exists>c'. ref_Put k v c = Some (Status_Ok, c') \<and> single_backend d n i j (fmupd k v m) c' \<and> (\<forall>us. cluster_takes us c' = cluster_takes us c)"
    if "single_backend d n i (Suc j) m c" "client_key k"
    using that region_rel_step [of d n j i m _ "CPut k v"] client_key_user by (fastforce simp: single_backend_def)
  show "\<exists>c'. ref_Delete k c = Some (Status_Ok, c') \<and> single_backend d n i j (fmdrop k m) c' \<and> (\<forall>us. cluster_takes us c' = cluster_takes us c)"
    if "single_backend d n i (Suc j) m c" "client_key k"
    using that region_rel_step [of d n j i m _ "CDelete k"] client_key_user by (fastforce simp: single_backend_def)
  show "ref_Get k consistency c = Some (lookup_result m k)" if "single_backend d n i j m c" "\<not> reserved_key k" for consistency
    using that cluster_read_rel by (fastforce simp: single_backend_def region_rel_def reserved_key_def cluster_read_def)
  show "\<exists>status c'. ref_Batch us c = Some (status, c') \<and>
      single_backend d n i j (if ok status then apply_mutations us m else m) c' \<and>
      (ok status \<longleftrightarrow> cluster_takes us c) \<and> (\<forall>us'. cluster_takes us' c' = cluster_takes us' c)"
    if c: "single_backend d n i (length us + j) m c" and us: "us \<noteq> []" "\<forall>u \<in> set us. client_key (mu_key u)" for us :: "KvMutation list"
  proof -
    obtain x where x: "c = SingleRef (Some x)" "region_rel d n (length us + j) i m x" "n < 2 ^ 64"
      using c by (auto simp: single_backend_def)
    from region_rel_batch [OF x(2) us(1) x(3) us(2)] x show ?thesis
      by (intro exI [of _ Status_Ok]) (auto simp: single_backend_def)
  qed
qed

lemma multi_inv_le: "multi_inv n (i + j) M g m \<Longrightarrow> multi_inv n j M g m"
  by (induction i) (auto dest: multi_inv_mono)

lemma takes_cong: "mr_regions x' = mr_regions x \<Longrightarrow> cluster_takes us (MultiRef (Some x')) = cluster_takes us (MultiRef (Some x))"
  by (simp add: one_region_batch_def)

interpretation multi: kv_backend "multi_backend n" for n
proof
  fix i' j m c
  show "\<not> null_ref c" if "multi_backend n j m c" using that by (auto simp: multi_backend_def)
  show "multi_backend n j m c" if "multi_backend n (i' + j) m c"
    using that multi_inv_le unfolding multi_backend_def by blast
  fix k v
  show "\<exists>c'. ref_Put k v c = Some (Status_Ok, c') \<and> multi_backend n j (fmupd k v m) c' \<and> (\<forall>us. cluster_takes us c' = cluster_takes us c)"
    if c: "multi_backend n (Suc j) m c" and k: "client_key k"
  proof -
    obtain x M where x: "c = MultiRef (Some x)" "multi_inv n (Suc j) M m x" using c by (auto simp: multi_backend_def)
    then obtain x' M' where x': "mr_Put k v x = Some (Status_Ok, x')" "multi_inv n j M' (fmupd k v m) x'"
      using multi_put_inv [of n j M m x k v] k by blast
    moreover have "cluster_takes us (MultiRef (Some x')) = cluster_takes us c" for us
      unfolding x(1) by (rule takes_cong) (use mr_write_regions(1) [OF x'(1)] in simp)
    ultimately show ?thesis unfolding multi_backend_def using x(1) by (intro exI [of _ "MultiRef (Some x')"]) auto
  qed
  show "\<exists>c'. ref_Delete k c = Some (Status_Ok, c') \<and> multi_backend n j (fmdrop k m) c' \<and> (\<forall>us. cluster_takes us c' = cluster_takes us c)"
    if c: "multi_backend n (Suc j) m c" and k: "client_key k"
  proof -
    obtain x M where x: "c = MultiRef (Some x)" "multi_inv n (Suc j) M m x" using c by (auto simp: multi_backend_def)
    then obtain x' M' where x': "mr_Delete k x = Some (Status_Ok, x')" "multi_inv n j M' (fmdrop k m) x'"
      using multi_delete_inv [of n j M m x k] k by blast
    moreover have "cluster_takes us (MultiRef (Some x')) = cluster_takes us c" for us
      unfolding x(1) by (rule takes_cong) (use mr_write_regions(2) [OF x'(1)] in simp)
    ultimately show ?thesis unfolding multi_backend_def using x(1) by (intro exI [of _ "MultiRef (Some x')"]) auto
  qed
  show "ref_Get k consistency c = Some (lookup_result m k)" if "multi_backend n j m c" "\<not> reserved_key k" for consistency
    using that multi_inv_reads by (fastforce simp: multi_backend_def)
  show "\<exists>status c'. ref_Batch us c = Some (status, c') \<and> multi_backend n j (if ok status then apply_mutations us m else m) c' \<and>
      (ok status \<longleftrightarrow> cluster_takes us c) \<and> (\<forall>us'. cluster_takes us' c' = cluster_takes us' c)"
    if c: "multi_backend n (length us + j) m c" and us: "us \<noteq> []" "\<forall>u \<in> set us. client_key (mu_key u)" for us :: "KvMutation list"
  proof -
    obtain x M where x: "c = MultiRef (Some x)" "multi_inv n (length us + j) M m x" using c by (auto simp: multi_backend_def)
    show ?thesis
    proof (cases "one_region_batch us x")
      case True
      from multi_batch_inv [OF x(2) us True] obtain x' M' where
        x': "mr_Batch us x = Some (Status_Ok, x')" "multi_inv n j M' (apply_mutations us m) x'" by blast
      with x(1) True mr_write_regions(3) [OF x'(1)] show ?thesis
        by (intro exI [of _ Status_Ok] exI [of _ "MultiRef (Some x')"]) (auto simp: multi_backend_def one_region_batch_def)
    next
      case False
      from multi_batch_refused [OF x(2) us(1) False] multi_inv_le [OF x(2)] x(1) False show ?thesis
        by (auto simp: multi_backend_def)
    qed
  qed
qed

section \<open>Properties\<close>

text \<open>
  C2. The whole in-process system is one map. With a placement driver in any reachable state that
  has a region, whatever the route cache contains, and a multi-region or a single-region cluster
  started on empty healthy disks, every sequence of client calls returns; all puts and deletes are
  acknowledged, a batch is applied whole or not at all, and afterwards the client reads at both
  consistency levels exactly what the acknowledged calls wrote. When the routes in the cache are
  those of the placement driver, as with an empty cache, a batch is acknowledged exactly when its
  keys are in one region of the placement driver and, on a multi-region cluster, in one region of
  the cluster. Keys are not empty and not under a reserved prefix, batches are not empty, and log
  and id counters do not wrap around.
\<close>

theorem client_refines_map:
  assumes "pd_step\<^sup>*\<^sup>* (PdServer_new cat0 io) pd" and "pd_ListRegions pd \<noteq> []"
    and "0 < n" and "n < 2 ^ 64" and "healthy_env env" and "disjoint_regions rs" and "rs \<noteq> []"
    and "\<forall>k. \<exists>r \<in> set rs. ContainsKey r k" and "\<forall>op \<in> set ops. client_op_ok op"
    and "length rs + sum_list (map op_size ops) + 1 < 2 ^ 64"
    and "\<forall>r \<in> set rs. length (ri_peers r) < 2 ^ 64 \<and> unat (ri_region_id r) + sum_list (map op_size ops) + 1 < 2 ^ 64"
  shows "\<exists>m0 c0. mr_Bootstrap d n rs True (MultiRegionCluster_new env cat []) = Some (Status_Ok, m0) \<and> mr_regions m0 = rs \<and>
     Bootstrap d n i True (SingleRegionCluster_new env) = Some (Status_Ok, c0) \<and>
     (\<forall>cluster \<in> {MultiRef (Some m0), SingleRef (Some c0)}. \<exists>sts g.
        client_run ops (Some \<lparr>gw_pd = Some pd, gw_cluster = cluster, gw_route_cache = cache\<rparr>) = Some (sts, Some g) \<and>
        list_all2 (\<lambda>op status. ok status \<or> (\<exists>us. op = ClBatch us)) ops sts \<and>
        (known_routes pd cache \<longrightarrow> list_all2 (\<lambda>op status. ok status \<longleftrightarrow> op_taken pd cluster op) ops sts) \<and>
        (\<forall>k consistency. \<not> reserved_key k \<longrightarrow>
           (\<exists>c. client_GetWith k consistency (Some g) = Some (lookup_result (acknowledged ops sts fmempty) k, c))))"
proof -
  let ?j = "sum_list (map op_size ops) + 0"
  have wf: "catalog_wf (pd_metadata pd)" using assms(1) by (rule reachable_catalog_wf)
  obtain m0 where m0: "mr_Bootstrap d n rs True (MultiRegionCluster_new env cat []) = Some (Status_Ok, m0)"
    "multi_inv n ?j (\<lambda>_. fmempty) fmempty m0" "mr_regions m0 = rs"
    using fresh_inv [OF assms(3-8), of ?j d cat] assms(10,11) by auto
  obtain c0 where c0: "Bootstrap d n i True (SingleRegionCluster_new env) = Some (Status_Ok, c0)" "cluster_rel d n i 1 [] fmempty c0"
    using Bootstrap_fresh [OF assms(3-5)] by blast
  let ?P = "\<lambda>cluster. \<exists>sts g.
        client_run ops (Some \<lparr>gw_pd = Some pd, gw_cluster = cluster, gw_route_cache = cache\<rparr>) = Some (sts, Some g) \<and>
        list_all2 (\<lambda>op status. ok status \<or> (\<exists>us. op = ClBatch us)) ops sts \<and>
        (known_routes pd cache \<longrightarrow> list_all2 (\<lambda>op status. ok status \<longleftrightarrow> op_taken pd cluster op) ops sts) \<and>
        (\<forall>k consistency. \<not> reserved_key k \<longrightarrow>
           (\<exists>c. client_GetWith k consistency (Some g) = Some (lookup_result (acknowledged ops sts fmempty) k, c)))"
  have "multi.gateway_rel n pd ?j fmempty \<lparr>gw_pd = Some pd, gw_cluster = MultiRef (Some m0), gw_route_cache = cache\<rparr>"
    using m0(2) assms(2) wf by (auto simp: multi.gateway_rel_def multi_backend_def)
  from multi.client_serves [OF this assms(9)] have "?P (MultiRef (Some m0))" by simp
  moreover have "single_backend d n i ?j fmempty (SingleRef (Some c0))"
    using c0(2) assms(4,10) by (auto simp: single_backend_def region_rel_def intro!: exI [of _ 1] exI [of _ "[]"])
  then have "single.gateway_rel d n i pd ?j fmempty \<lparr>gw_pd = Some pd, gw_cluster = SingleRef (Some c0), gw_route_cache = cache\<rparr>"
    using assms(2) wf by (simp add: single.gateway_rel_def)
  from single.client_serves [OF this assms(9)] have "?P (SingleRef (Some c0))" by simp
  ultimately show ?thesis using m0(1,3) c0(1) by blast
qed

text \<open>One region: the batch is taken. Both clusters give the same answers.\<close>

theorem client_refines_map_witness:
  "\<exists>m0 c0. mr_Bootstrap ''d'' 3 [one_region] True (MultiRegionCluster_new \<lparr>fe_log = (\<lambda>_. []), fe_io = (\<lambda>_. [])\<rparr> (\<lambda>_. None) []) =
       Some (Status_Ok, m0) \<and>
     Bootstrap ''d'' 3 1 True (SingleRegionCluster_new \<lparr>fe_log = (\<lambda>_. []), fe_io = (\<lambda>_. [])\<rparr>) = Some (Status_Ok, c0) \<and>
     (\<forall>cluster \<in> {MultiRef (Some m0), SingleRef (Some c0)}. \<exists>sts g c.
        client_run [ClPut ''a'' ''1'', ClBatch [mk_put ''b'' ''2'', mk_delete ''a'']]
          (Some (GatewayServer_new (Some pd_demo) cluster)) = Some (sts, Some g) \<and> list_all ok sts \<and>
        client_GetWith ''b'' kLinearizable (Some g) = Some (Inr ''2'', c))"
proof -
  let ?us = "[mk_put ''b'' ''2'', mk_delete ''a'']"
  let ?ops = "[ClPut ''a'' ''1'', ClBatch ?us]"
  let ?env = "\<lparr>fe_log = (\<lambda>_. []), fe_io = (\<lambda>_. [])\<rparr>"
  have keys: "\<not> reserved_key ''a''" "\<not> reserved_key ''b''" by (simp_all add: reserved_key_def)
  have peers: "length (ri_peers one_region) = 1" by (simp add: one_region_def)
  have mem: "demo_region \<in> set (pd_ListRegions pd_demo)"
    by (auto simp: pd_ListRegions_def set_ListRegions pd_demo_def intro!: exI [of _ 1])
  have known: "known_routes pd_demo fmempty" by (simp add: known_routes_def)
  have "ContainsKey demo_region k" for k by (simp add: ContainsKey_def demo_region_def RegionInfo_default_def)
  then have route: "one_route pd_demo us" for us using mem by (auto simp: one_route_def)
  from mem have "pd_ListRegions pd_demo \<noteq> []" by auto
  from client_refines_map [OF pd_demo_reachable this, of 3 ?env "[one_region]" ?ops "''d''" "\<lambda>_. None" 1 fmempty]
  obtain m0 c0 where boot: "mr_Bootstrap ''d'' 3 [one_region] True (MultiRegionCluster_new ?env (\<lambda>_. None) []) = Some (Status_Ok, m0)"
    "mr_regions m0 = [one_region]" "Bootstrap ''d'' 3 1 True (SingleRegionCluster_new ?env) = Some (Status_Ok, c0)"
    and run: "\<forall>cluster \<in> {MultiRef (Some m0), SingleRef (Some c0)}. \<exists>sts g.
        client_run ?ops (Some \<lparr>gw_pd = Some pd_demo, gw_cluster = cluster, gw_route_cache = fmempty\<rparr>) = Some (sts, Some g) \<and>
        list_all2 (\<lambda>op status. ok status \<or> (\<exists>us. op = ClBatch us)) ?ops sts \<and>
        (known_routes pd_demo fmempty \<longrightarrow> list_all2 (\<lambda>op status. ok status \<longleftrightarrow> op_taken pd_demo cluster op) ?ops sts) \<and>
        (\<forall>k consistency. \<not> reserved_key k \<longrightarrow>
           (\<exists>c. client_GetWith k consistency (Some g) = Some (lookup_result (acknowledged ?ops sts fmempty) k, c)))"
    using keys peers by (auto simp: healthy_env_def disjoint_regions_def)
  have "\<exists>sts g c. client_run ?ops (Some (GatewayServer_new (Some pd_demo) cluster)) = Some (sts, Some g) \<and> list_all ok sts \<and>
        client_GetWith ''b'' kLinearizable (Some g) = Some (Inr ''2'', c)"
    if cl: "cluster \<in> {MultiRef (Some m0), SingleRef (Some c0)}" for cluster
  proof -
    obtain sts g where g: "client_run ?ops (Some (GatewayServer_new (Some pd_demo) cluster)) = Some (sts, Some g)"
      "list_all2 (\<lambda>op status. ok status \<longleftrightarrow> op_taken pd_demo cluster op) ?ops sts"
      "\<exists>c. client_GetWith ''b'' kLinearizable (Some g) = Some (lookup_result (acknowledged ?ops sts fmempty) ''b'', c)"
      using run cl known keys(2) unfolding GatewayServer_new_def by blast
    have "cluster_takes ?us cluster" using cl boot(2) by (auto simp: one_region_batch_def)
    then obtain a b where sts: "sts = [a, b]" "ok a" "ok b"
      using g(2) route by (auto simp: list_all2_Cons1)
    then have "lookup_result (acknowledged ?ops sts fmempty) ''b'' = Inr ''2''" by (simp add: lookup_result_def apply_mutation_def)
    moreover have "list_all ok sts" using sts by simp
    ultimately show ?thesis using g(1,3) by metis
  qed
  with boot show ?thesis by blast
qed

end
