(* ===== verification/Tcp_Rpc.thy ===== *)
theory Tcp_Rpc
  imports Rpc_Codec
begin

text \<open>
  tcp_rpc.cpp: RPC messages in frames with a four-byte length over a TCP connection. What the
  kernel decides is given: \<open>send\<close> takes a tape of the numbers of bytes that the next calls accept
  (an exhausted tape accepts everything, zero is a failure), and \<open>recv\<close> the chunks in which the
  bytes arrive (an empty chunk and the end of the list are failures or the end of the stream).
  The lemmas show that frames and whole calls survive every way of cutting the streams, and what
  happens to messages over the size limit. A failed \<open>send\<close> returns an error here; that it can
  instead raise SIGPIPE, which the program does not block, is not modelled.
\<close>

section \<open>Bytes on the wire\<close>

fun WriteAll :: "string \<Rightarrow> nat list \<Rightarrow> Status \<times> string \<times> nat list" where
  "WriteAll [] tape = (Status_Ok, [], tape)"
| "WriteAll (b # bs) [] = (Status_Ok, b # bs, [])"
| "WriteAll (b # bs) (n # ns) =
     (let written = min n (length (b # bs))
      in if written = 0 then (IoError ''socket write failed'', [], ns)
         else let (status, sent, tape) = WriteAll (drop written (b # bs)) ns
              in (status, take written (b # bs) @ sent, tape))"

definition recv :: "nat \<Rightarrow> string list \<Rightarrow> string \<times> string list" where
  "recv want chunks =
     (case chunks of
        [] \<Rightarrow> ([], [])
      | c # cs \<Rightarrow> if length c \<le> want then (c, cs) else (take want c, drop want c # cs))"

function ReadAll :: "nat \<Rightarrow> string list \<Rightarrow> (Status + string) \<times> string list" where
  "ReadAll want chunks =
     (if want = 0 then (Inr [], chunks)
      else let (got, rest) = recv want chunks
           in if got = [] then (Inl (IoError ''socket read failed''), rest)
              else case ReadAll (want - length got) rest of
                     (Inl status, rest') \<Rightarrow> (Inl status, rest')
                   | (Inr tail, rest') \<Rightarrow> (Inr (got @ tail), rest'))"
  by auto
termination
  by (relation "measure fst") auto

declare ReadAll.simps [simp del]

definition htonl_bytes :: "32 word \<Rightarrow> string" where
  "htonl_bytes w = map (\<lambda>i. char_of (unat w div 256 ^ i)) [3, 2, 1, 0]"

definition ntohl_bytes :: "string \<Rightarrow> 32 word" where
  "ntohl_bytes bs = of_nat (foldl (\<lambda>n c. n * 256 + of_char c) 0 bs)"

definition WriteFrame :: "string \<Rightarrow> nat list \<Rightarrow> Status \<times> string \<times> nat list" where
  "WriteFrame payload tape =
     (let (status, sent, tape1) = WriteAll (htonl_bytes (of_nat (length payload))) tape
      in if \<not> ok status then (status, sent, tape1)
         else let (status, sent2, tape2) = WriteAll payload tape1 in (status, sent @ sent2, tape2))"

definition max_frame :: nat where
  "max_frame = 64 * 1024 * 1024"

definition ReadFrame :: "string list \<Rightarrow> (Status + string) \<times> string list" where
  "ReadFrame chunks =
     (case ReadAll 4 chunks of
        (Inl status, rest) \<Rightarrow> (Inl status, rest)
      | (Inr header, rest) \<Rightarrow>
          let len = ntohl_bytes header
          in if unat len > max_frame then (Inl (InvalidArgument ''rpc frame is too large''), rest)
             else ReadAll (unat len) rest)"

section \<open>Server and client\<close>

definition ErrorResponse :: "RpcRequest \<Rightarrow> Status \<Rightarrow> RpcResponse" where
  "ErrorResponse request status = MakeRpcError request (ErrorCodeName (st_code status)) (st_message status)"

text \<open>The request that a failed read or decode leaves in the local variable.\<close>

definition RpcRequest_default :: RpcRequest where
  "RpcRequest_default =
     \<lparr>rq_request_id = [], rq_method = [], rq_source = [], rq_target = [], rq_deadline_ms = 3000,
      rq_payload = [], rq_metadata = fmempty\<rparr>"

text \<open>One connection: the chunks that arrive, the tape of \<open>send\<close>; the result has the bytes sent back.\<close>

definition HandleClient :: "'s RpcServer \<Rightarrow> string list \<Rightarrow> nat list \<Rightarrow> 's \<Rightarrow> (string \<times> 's) option" where
  "HandleClient server chunks tape s =
     (let decoded = (case fst (ReadFrame chunks) of
                       Inl status \<Rightarrow> Inl status
                     | Inr encoded_request \<Rightarrow> DecodeRpcRequest encoded_request)
      in case decoded of
           Inr request \<Rightarrow>
             map_option (\<lambda>(response, s'). (fst (snd (WriteFrame (EncodeRpcResponse response) tape)), s'))
               (RpcServer_Handle server request s)
         | Inl status \<Rightarrow>
             Some (fst (snd (WriteFrame (EncodeRpcResponse (ErrorResponse RpcRequest_default status)) tape)), s))"

text \<open>
  What the kernel and the network do with a call: the outcomes of \<open>socket\<close>, \<open>inet_pton\<close> and
  \<open>connect\<close>, the tapes of \<open>send\<close> on both sides, and how the bytes of each direction are cut.
\<close>

record connection =
  cn_socket :: bool
  cn_host :: bool
  cn_connect :: bool
  cn_request_tape :: "nat list"
  cn_response_tape :: "nat list"
  cn_cut_request :: "string \<Rightarrow> string list"
  cn_cut_response :: "string \<Rightarrow> string list"

text \<open>
  \<open>TcpRpcClient::Call\<close> with the server at the other end: \<open>None\<close> for a request whose handler
  raises, which ends the server process. The client's writes come before the server's answer; a
  server that closes the connection before it has read everything makes later writes fail, which
  is a tape of \<open>send\<close> with a failure in it, and may take bytes of its answer away, which is a cut
  of the answer that loses its end.
\<close>

definition TcpRpcClient_Call :: "connection \<Rightarrow> 's RpcServer \<Rightarrow> 's RpcHandler" where
  "TcpRpcClient_Call cn server request s =
     (if \<not> cn_socket cn then Some (MakeRpcError request (ErrorCodeName kRpcError) ''failed to create socket'', s)
      else if \<not> cn_host cn then Some (MakeRpcError request (ErrorCodeName kInvalidArgument) ''invalid tcp host'', s)
      else if \<not> cn_connect cn then Some (MakeRpcError request (ErrorCodeName kRpcError) ''failed to connect tcp rpc server'', s)
      else
        let (status, sent, _) = WriteFrame (EncodeRpcRequest request) (cn_request_tape cn)
        in case HandleClient server (cn_cut_request cn sent) (cn_response_tape cn) s of
             None \<Rightarrow> None
           | Some (reply, s') \<Rightarrow>
               if \<not> ok status then Some (ErrorResponse request status, s')
               else case fst (ReadFrame (cn_cut_response cn reply)) of
                      Inl status \<Rightarrow> Some (ErrorResponse request status, s')
                    | Inr encoded_response \<Rightarrow>
                        (case DecodeRpcResponse encoded_response of
                           Inl status \<Rightarrow> Some (ErrorResponse request status, s')
                         | Inr response \<Rightarrow> Some (response, s')))"

section \<open>Starting the server\<close>

record listen_outcomes =
  lo_socket :: bool
  lo_pton :: bool
  lo_bind :: bool
  lo_getsockname :: "16 word option"
  lo_listen :: bool

record TcpRpcServer =
  ts_has_server :: bool
  ts_running :: bool
  ts_listening :: bool
  ts_bound_port :: int

definition TcpRpcServer_Start :: "listen_outcomes \<Rightarrow> string \<Rightarrow> int \<Rightarrow> TcpRpcServer \<Rightarrow> Status \<times> TcpRpcServer" where
  "TcpRpcServer_Start out host port t =
     (if \<not> ts_has_server t then (InvalidArgument ''rpc server must not be null'', t)
      else if \<not> lo_socket out then (IoError ''failed to create socket'', t\<lparr>ts_listening := False\<rparr>)
      else if \<not> lo_pton out then (InvalidArgument (''invalid tcp host: '' @ host), t\<lparr>ts_listening := False\<rparr>)
      else if \<not> lo_bind out then (IoError ''failed to bind tcp rpc server'', t\<lparr>ts_listening := False\<rparr>)
      else
        let t1 = t\<lparr>ts_listening := True,
                   ts_bound_port := (case lo_getsockname out of Some p \<Rightarrow> uint p | None \<Rightarrow> port)\<rparr>
        in if \<not> lo_listen out then (IoError ''failed to listen tcp rpc server'', t1\<lparr>ts_listening := False\<rparr>)
           else (Status_Ok, t1\<lparr>ts_running := True\<rparr>))"

definition TcpRpcServer_Stop :: "TcpRpcServer \<Rightarrow> TcpRpcServer" where
  "TcpRpcServer_Stop t = (if ts_running t then t\<lparr>ts_running := False, ts_listening := False\<rparr> else t)"

section \<open>Streams\<close>

lemma WriteAll_progress:
  "0 \<notin> set tape \<Longrightarrow> \<exists>tape'. WriteAll bs tape = (Status_Ok, bs, tape') \<and> 0 \<notin> set tape'"
proof (induction bs tape rule: WriteAll.induct)
  case (3 b bs n ns)
  let ?w = "min n (length (b # bs))"
  have w: "?w \<noteq> 0" using 3(2) by auto
  with 3 obtain tape' where "WriteAll (drop ?w (b # bs)) ns = (Status_Ok, drop ?w (b # bs), tape')" "0 \<notin> set tape'"
    by (auto simp: Let_def)
  with w show ?case unfolding WriteAll.simps Let_def by (simp only: split if_False append_take_drop_id) blast
qed auto

lemma ReadAll_0 [simp]: "ReadAll 0 chunks = (Inr [], chunks)"
  by (subst ReadAll.simps) simp

lemma ReadAll_stop: "n \<noteq> 0 \<Longrightarrow> recv n chunks = ([], rest) \<Longrightarrow> ReadAll n chunks = (Inl (IoError ''socket read failed''), rest)"
  by (subst ReadAll.simps) simp

lemma ReadAll_step:
  "n \<noteq> 0 \<Longrightarrow> recv n chunks = (got, rest) \<Longrightarrow> got \<noteq> [] \<Longrightarrow>
     ReadAll n chunks = map_prod (map_sum id ((@) got)) id (ReadAll (n - length got) rest)"
  by (subst ReadAll.simps) (auto split: prod.split sum.split)

lemma ReadAll_exact:
  assumes "[] \<notin> set chunks" and "n \<le> length (concat chunks)"
  shows "\<exists>rest. ReadAll n chunks = (Inr (take n (concat chunks)), rest) \<and> concat rest = drop n (concat chunks) \<and> [] \<notin> set rest"
  using assms
proof (induction chunks arbitrary: n)
  case (Cons c cs)
  show ?case
  proof (cases "length c \<le> n")
    case True
    with Cons.prems have n: "n \<noteq> 0" and r: "recv n (c # cs) = (c, cs)" by (cases c; auto simp: recv_def)+
    from Cons.IH [of "n - length c"] Cons.prems True obtain rest where
      "ReadAll (n - length c) cs = (Inr (take (n - length c) (concat cs)), rest)"
      "concat rest = drop (n - length c) (concat cs)" "[] \<notin> set rest"
      by fastforce
    with ReadAll_step [OF n r] Cons.prems True show ?thesis by auto
  next
    case False
    show ?thesis
    proof (cases "n = 0")
      case False
      from \<open>\<not> length c \<le> n\<close> have "recv n (c # cs) = (take n c, drop n c # cs)" by (simp add: recv_def)
      from ReadAll_step [OF False this] False \<open>\<not> length c \<le> n\<close> Cons.prems show ?thesis by auto
    qed (use Cons.prems in auto)
  qed
qed simp

lemma ReadAll_short:
  "length (concat chunks) < n \<Longrightarrow> \<exists>rest. ReadAll n chunks = (Inl (IoError ''socket read failed''), rest)"
proof (induction chunks arbitrary: n)
  case Nil
  then show ?case using ReadAll_stop [of n "[]"] by (auto simp: recv_def)
next
  case (Cons c cs)
  then have n: "n \<noteq> 0" and r: "recv n (c # cs) = (c, cs)" by (auto simp: recv_def)
  show ?case
  proof (cases "c = []")
    case False
    have "length (concat cs) < n - length c" using Cons.prems by simp
    from Cons.IH [OF this] obtain rest where
      "ReadAll (n - length c) cs = (Inl (IoError ''socket read failed''), rest)" by blast
    with ReadAll_step [OF n r False] show ?thesis by simp
  qed (use ReadAll_stop [OF n] r in auto)
qed

lemma ntohl_htonl [simp]: "ntohl_bytes (htonl_bytes w) = w"
proof -
  define u where "u = unat w"
  have "u < 2 ^ 32" unfolding u_def using unsigned_less [of w] by simp
  then have 3: "u div 16777216 mod 256 = u div 16777216" by simp
  have 2: "u div 16777216 * 256 + u div 65536 mod 256 = u div 65536"
    using div_mult_mod_eq [of "u div 65536" 256] by (simp add: div_mult2_eq [symmetric])
  have 1: "u div 65536 * 256 + u div 256 mod 256 = u div 256"
    using div_mult_mod_eq [of "u div 256" 256] by (simp add: div_mult2_eq [symmetric])
  have "foldl (\<lambda>n c. n * 256 + of_char c) 0 (htonl_bytes w) = u"
    by (simp add: htonl_bytes_def u_def [symmetric] 3 2 1)
  then show ?thesis by (simp add: ntohl_bytes_def u_def)
qed

lemma length_htonl [simp]: "length (htonl_bytes w) = 4"
  by (simp add: htonl_bytes_def)

lemma WriteFrame_progress:
  assumes "0 \<notin> set tape"
  shows "\<exists>tape'. WriteFrame p tape = (Status_Ok, htonl_bytes (of_nat (length p)) @ p, tape')"
proof -
  obtain t1 where "WriteAll (htonl_bytes (of_nat (length p))) tape = (Status_Ok, htonl_bytes (of_nat (length p)), t1)" "0 \<notin> set t1"
    using WriteAll_progress [OF assms] by blast
  moreover from WriteAll_progress [OF this(2)] obtain t2 where "WriteAll p t1 = (Status_Ok, p, t2)" by blast
  ultimately show ?thesis by (simp add: WriteFrame_def)
qed

text \<open>What a frame reads as, however it is cut: the length field decides.\<close>

lemma ReadFrame_cut:
  assumes "[] \<notin> set chunks" and "concat chunks = htonl_bytes w @ p"
  shows "fst (ReadFrame chunks) =
     (if unat w > max_frame then Inl (InvalidArgument ''rpc frame is too large'')
      else if length p < unat w then Inl (IoError ''socket read failed'')
      else Inr (take (unat w) p))"
proof -
  obtain rest where rest: "ReadAll 4 chunks = (Inr (htonl_bytes w), rest)" "concat rest = p" "[] \<notin> set rest"
    using ReadAll_exact [OF assms(1), of 4] by (auto simp: assms(2))
  show ?thesis
  proof (cases "length p < unat w")
    case True
    with ReadAll_short [of rest "unat w"] rest show ?thesis by (auto simp: ReadFrame_def Let_def)
  next
    case False
    with ReadAll_exact [OF rest(3), of "unat w"] rest show ?thesis by (auto simp: ReadFrame_def Let_def)
  qed
qed

definition cuts :: "(string \<Rightarrow> string list) \<Rightarrow> bool" where
  "cuts f \<longleftrightarrow> (\<forall>bs. concat (f bs) = bs \<and> [] \<notin> set (f bs))"

text \<open>A connection that is made and never fails, with any partial sends and any cuts.\<close>

definition reliable :: "connection \<Rightarrow> bool" where
  "reliable cn \<longleftrightarrow> cn_socket cn \<and> cn_host cn \<and> cn_connect cn \<and> 0 \<notin> set (cn_request_tape cn) \<and>
     0 \<notin> set (cn_response_tape cn) \<and> cuts (cn_cut_request cn) \<and> cuts (cn_cut_response cn)"

abbreviation frame_len :: "string \<Rightarrow> nat" where
  "frame_len p \<equiv> unat (of_nat (length p) :: 32 word)"

lemma frame_len_le: "frame_len p \<le> length p"
  by (simp add: unat_of_nat)

lemma frame_cut:
  assumes "cuts f" and "0 \<notin> set tape"
  shows "fst (WriteFrame p tape) = Status_Ok" and
    "fst (ReadFrame (f (fst (snd (WriteFrame p tape))))) =
       (if frame_len p > max_frame then Inl (InvalidArgument ''rpc frame is too large'') else Inr (take (frame_len p) p))"
proof -
  obtain t where w: "WriteFrame p tape = (Status_Ok, htonl_bytes (of_nat (length p)) @ p, t)"
    using WriteFrame_progress [OF assms(2)] by blast
  then show "fst (WriteFrame p tape) = Status_Ok" by simp
  show "fst (ReadFrame (f (fst (snd (WriteFrame p tape))))) =
       (if frame_len p > max_frame then Inl (InvalidArgument ''rpc frame is too large'') else Inr (take (frame_len p) p))"
    using ReadFrame_cut [of "f (htonl_bytes (of_nat (length p)) @ p)" "of_nat (length p)" p] assms(1) w frame_len_le [of p]
    by (auto simp: cuts_def)
qed

lemma frame_len_exact: "length p \<le> max_frame \<Longrightarrow> frame_len p = length p"
  by (simp add: unat_of_nat max_frame_def)

lemma HandleClient_cut:
  assumes "cuts f" and "0 \<notin> set tape" and "length (EncodeRpcRequest req) \<le> max_frame"
  shows "HandleClient server (f (fst (snd (WriteFrame (EncodeRpcRequest req) tape)))) tape' s =
     map_option (\<lambda>(resp, s'). (fst (snd (WriteFrame (EncodeRpcResponse resp) tape')), s'))
       (RpcServer_Handle server (req\<lparr>rq_metadata := fmfilter metadata_key (rq_metadata req)\<rparr>) s)"
  using frame_cut(2) [OF assms(1,2), of "EncodeRpcRequest req"] frame_len_exact [OF assms(3)] assms(3)
  by (simp add: HandleClient_def decode_encode_request)

lemma Call_reliable:
  assumes "reliable cn" and "length (EncodeRpcRequest req) \<le> max_frame"
    and "RpcServer_Handle server (req\<lparr>rq_metadata := fmfilter metadata_key (rq_metadata req)\<rparr>) s = Some (resp, s')"
  shows "TcpRpcClient_Call cn server req s =
     (if frame_len (EncodeRpcResponse resp) > max_frame
      then Some (ErrorResponse req (InvalidArgument ''rpc frame is too large''), s')
      else case DecodeRpcResponse (take (frame_len (EncodeRpcResponse resp)) (EncodeRpcResponse resp)) of
             Inl status \<Rightarrow> Some (ErrorResponse req status, s')
           | Inr response \<Rightarrow> Some (response, s'))"
proof -
  let ?W = "WriteFrame (EncodeRpcRequest req) (cn_request_tape cn)"
  have cn: "cn_socket cn" "cn_host cn" "cn_connect cn" "0 \<notin> set (cn_request_tape cn)" "0 \<notin> set (cn_response_tape cn)"
    "cuts (cn_cut_request cn)" "cuts (cn_cut_response cn)"
    using assms(1) by (simp_all add: reliable_def)
  have "fst ?W = Status_Ok" by (rule frame_cut(1) [OF cn(6,4)])
  moreover note HandleClient_cut [OF cn(6,4) assms(2), of server "cn_response_tape cn" s]
    frame_cut(2) [OF cn(7,5), of "EncodeRpcResponse resp"]
  ultimately show ?thesis using cn(1-3) assms(3)
    by (cases ?W) (simp add: TcpRpcClient_Call_def)
qed

section \<open>Properties\<close>

text \<open>
  C19. A call over TCP is a call of the server. On a connection that is made and does not fail,
  however the kernel cuts the two byte streams and however few bytes each \<open>send\<close> accepts, with
  messages within the frame limit the client gets the response of the handler for its request, both
  without reserved metadata, and the state of the server changes as by the handler.
\<close>

theorem tcp_call_transparent:
  assumes "reliable cn" and "length (EncodeRpcRequest req) \<le> max_frame"
    and "RpcServer_Handle server (req\<lparr>rq_metadata := fmfilter metadata_key (rq_metadata req)\<rparr>) s = Some (resp, s')"
    and "length (EncodeRpcResponse resp) \<le> max_frame"
  shows "TcpRpcClient_Call cn server req s =
     Some (resp\<lparr>rs_metadata := fmfilter metadata_key (rs_metadata resp)\<rparr>, s')"
  using Call_reliable [OF assms(1-3)] frame_len_exact [OF assms(4)] assms(4) by (simp add: decode_encode_response)

text \<open>A connection that delivers one byte at a time.\<close>

definition slow_connection :: connection where
  "slow_connection = \<lparr>cn_socket = True, cn_host = True, cn_connect = True, cn_request_tape = [1, 2, 3],
     cn_response_tape = [1], cn_cut_request = map (\<lambda>b. [b]), cn_cut_response = map (\<lambda>b. [b])\<rparr>"

lemma slow_reliable: "reliable slow_connection"
proof -
  have "concat (map (\<lambda>b. [b]) bs) = bs" for bs :: string by (induction bs) simp_all
  then show ?thesis by (auto simp: reliable_def slow_connection_def cuts_def)
qed

lemma length_EncodeFields_upd:
  "fmlookup m k = None \<Longrightarrow> length (EncodeFields (fmupd k v m)) = 2 * length k + 2 * length v + 2 + length (EncodeFields m)"
proof -
  assume k: "fmlookup m k = None"
  have sum: "length (EncodeFields m) = (\<Sum>kv \<in> set (entries m). 2 * length (fst kv) + 2 * length (snd kv) + 2)" for m
  proof -
    have "length (EncodeFields m) = sum_list (map (\<lambda>kv. 2 * length (fst kv) + 2 * length (snd kv) + 2) (entries m))"
      by (simp add: EncodeFields_def field_line_def length_concat comp_def length_HexEncode)
    then show ?thesis using distinct_entries [of m] by (simp add: sum_list_distinct_conv_sum_set distinct_map)
  qed
  have "set (entries (fmupd k v m)) = insert (k, v) (set (entries m))"
    using k by (auto simp: set_entries split: if_splits)
  moreover have "(k, v) \<notin> set (entries m)" using k by (simp add: set_entries)
  ultimately show ?thesis by (simp add: sum)
qed

lemma EncodeFields_empty [simp]: "EncodeFields fmempty = []"
  by (simp add: EncodeFields_def)

lemma metadata_empty [simp]:
  "rs_metadata (MakeRpcError req c msg) = fmempty" "fmfilter metadata_key (rs_metadata (MakeRpcError req c msg)) = fmempty"
  "(MakeRpcError req c msg)\<lparr>rs_metadata := fmempty\<rparr> = MakeRpcError req c msg"
proof -
  show 1: "rs_metadata (MakeRpcError req c msg) = fmempty" by (simp add: MakeRpcError_def RpcResponse_default_def)
  show "fmfilter metadata_key (rs_metadata (MakeRpcError req c msg)) = fmempty" unfolding 1 by simp
  show "(MakeRpcError req c msg)\<lparr>rs_metadata := fmempty\<rparr> = MakeRpcError req c msg"
    by (simp add: MakeRpcError_def RpcResponse_default_def)
qed

lemma decode_encode_error: "DecodeRpcResponse (EncodeRpcResponse (MakeRpcError req c msg)) = Inr (MakeRpcError req c msg)"
  by (simp add: decode_encode_response)

lemma length_EncodeRpcResponse:
  "length (EncodeRpcResponse (MakeRpcError req c msg)) =
     106 + 2 * length (rq_request_id req) + 2 * length c + 2 * length msg"
  by (simp add: EncodeRpcResponse_def MakeRpcError_def RpcResponse_default_def Let_def length_EncodeFields_upd)

theorem tcp_call_transparent_witness:
  "TcpRpcClient_Call slow_connection RpcServer_new RpcRequest_default (0 :: nat) =
     Some (MakeRpcError RpcRequest_default ''RPC_ERROR'' ''method not found: '', 0)"
proof -
  have h: "RpcServer_Handle RpcServer_new (RpcRequest_default\<lparr>rq_metadata := fmfilter metadata_key (rq_metadata RpcRequest_default)\<rparr>) (0 :: nat) =
      Some (MakeRpcError RpcRequest_default ''RPC_ERROR'' ''method not found: '', 0)"
    by (simp add: RpcServer_Handle_def RpcServer_new_def MakeRpcError_def RpcRequest_default_def)
  have "length (to_string_signed (3000 :: i32)) = 4" by (simp add: to_string_signed_def show_int_def show_nat.simps)
  then have "length (EncodeRpcRequest RpcRequest_default) \<le> max_frame"
    by (simp add: EncodeRpcRequest_def RpcRequest_default_def Let_def length_EncodeFields_upd max_frame_def)
  from tcp_call_transparent [OF slow_reliable this h] show ?thesis
    by (simp add: length_EncodeRpcResponse max_frame_def RpcRequest_default_def)
qed

text \<open>Streams that may break off: what arrives is a prefix of what was sent, in any pieces.\<close>

definition breaks :: "(string \<Rightarrow> string list) \<Rightarrow> bool" where
  "breaks f \<longleftrightarrow> (\<forall>bs. prefix (concat (f bs)) bs)"

lemma ReadAll_broken:
  "ReadAll n chunks = (Inr bs, rest) \<Longrightarrow>
     n \<le> length (concat chunks) \<and> bs = take n (concat chunks) \<and> concat rest = drop n (concat chunks)"
proof (induction n chunks arbitrary: bs rest rule: ReadAll.induct)
  case (1 n chunks)
  show ?case
  proof (cases "n = 0")
    case False
    obtain got tail where r: "recv n chunks = (got, tail)" by fastforce
    have got: "got \<noteq> []"
    proof
      assume "got = []"
      with ReadAll_stop [OF False, of chunks tail] r 1(2) show False by simp
    qed
    obtain bs' where bs': "ReadAll (n - length got) tail = (Inr bs', rest)" "bs = got @ bs'"
      using ReadAll_step [OF False r got] 1(2) by (cases "ReadAll (n - length got) tail"; cases "fst (ReadAll (n - length got) tail)") auto
    have c: "concat chunks = got @ concat tail" "length got \<le> n"
      using r got by (auto simp: recv_def split: list.splits if_splits)
    from "1.IH" [OF False r [symmetric] refl got bs'(1)] bs'(2) c show ?thesis by auto
  qed (use 1(2) in simp)
qed

lemma ReadFrame_broken:
  assumes "prefix (concat chunks) (htonl_bytes w @ p)" and "fst (ReadFrame chunks) = Inr payload"
  shows "unat w \<le> max_frame \<and> unat w \<le> length p \<and> payload = take (unat w) p"
proof -
  obtain header rest where h: "ReadAll 4 chunks = (Inr header, rest)"
    using assms(2) by (cases "ReadAll 4 chunks"; cases "fst (ReadAll 4 chunks)") (auto simp: ReadFrame_def)
  note hd = ReadAll_broken [OF h]
  obtain ps where ps: "concat chunks = htonl_bytes w @ ps" "prefix ps p"
  proof -
    obtain zs where zs: "htonl_bytes w @ p = concat chunks @ zs" using assms(1) by (auto simp: prefix_def)
    from arg_cong [OF this, of "take 4"] have "take 4 (concat chunks) = htonl_bytes w"
      using hd by simp
    then have c: "concat chunks = htonl_bytes w @ drop 4 (concat chunks)" by (metis append_take_drop_id)
    with zs have "p = drop 4 (concat chunks) @ zs" by (metis append.assoc same_append_eq)
    with c that show thesis by (auto simp: prefix_def)
  qed
  have "header = htonl_bytes w" "concat rest = ps" using hd ps(1) by simp_all
  then have "unat w \<le> max_frame" and r: "fst (ReadAll (unat w) rest) = Inr payload"
    using assms(2) h by (auto simp: ReadFrame_def Let_def split: if_splits)
  from ReadAll_broken [of "unat w" rest payload "snd (ReadAll (unat w) rest)"] r \<open>concat rest = ps\<close>
  have "unat w \<le> length ps" "payload = take (unat w) ps" by (metis prod.collapse)+
  with ps(2) \<open>unat w \<le> max_frame\<close> show ?thesis by (auto simp: prefix_def)
qed

lemma WriteAll_step:
  "w = min n (length (b # bs)) \<Longrightarrow> WriteAll (b # bs) (n # ns) =
     (if w = 0 then (IoError ''socket write failed'', [], ns)
      else case WriteAll (drop w (b # bs)) ns of (status, sent, tape) \<Rightarrow> (status, take w (b # bs) @ sent, tape))"
  unfolding WriteAll.simps Let_def by (simp only:)

lemma WriteAll_sent:
  "prefix (fst (snd (WriteAll bs tape))) bs \<and> (ok (fst (WriteAll bs tape)) \<longrightarrow> fst (snd (WriteAll bs tape)) = bs)"
proof (induction bs tape rule: WriteAll.induct)
  case (3 b bs n ns)
  define w where "w = min n (length (b # bs))"
  show ?case
  proof (cases "w = 0")
    case False
    obtain st sent tape where r: "WriteAll (drop w (b # bs)) ns = (st, sent, tape)" by (cases "WriteAll (drop w (b # bs)) ns")
    define x y where "x = take w (b # bs)" and "y = drop w (b # bs)"
    have xy: "b # bs = x @ y" by (simp add: x_def y_def)
    have ih: "prefix sent y \<and> (ok st \<longrightarrow> sent = y)"
      using 3 [OF w_def False] r by (simp add: y_def)
    have "WriteAll (b # bs) (n # ns) = (st, x @ sent, tape)"
      unfolding WriteAll_step [OF w_def] r x_def using False by simp
    then have *: "fst (WriteAll (b # bs) (n # ns)) = st" "fst (snd (WriteAll (b # bs) (n # ns))) = x @ sent" by simp_all
    show ?thesis unfolding * unfolding xy using ih by simp
  qed (simp add: WriteAll_step [OF w_def] del: WriteAll.simps)
qed simp_all

lemma WriteFrame_prefix: "prefix (fst (snd (WriteFrame p tape))) (htonl_bytes (of_nat (length p)) @ p)"
proof -
  let ?h = "htonl_bytes (of_nat (length p))"
  obtain st sent t1 where w: "WriteAll ?h tape = (st, sent, t1)" by (cases "WriteAll ?h tape")
  obtain st2 sent2 t2 where w2: "WriteAll p t1 = (st2, sent2, t2)" by (cases "WriteAll p t1")
  have "prefix sent ?h" "ok st \<Longrightarrow> sent = ?h" "prefix sent2 p"
    using WriteAll_sent [of ?h tape] WriteAll_sent [of p t1] w w2 by simp_all
  then show ?thesis by (simp add: WriteFrame_def w w2)
qed

text \<open>What comes out of a frame that was written and cut in any way, with failures anywhere.\<close>

lemma broken_frame:
  assumes "breaks f" and "fst (ReadFrame (f (fst (snd (WriteFrame p tape))))) = Inr payload"
  shows "frame_len p \<le> max_frame \<and> payload = take (frame_len p) p"
proof -
  have "prefix (concat (f (fst (snd (WriteFrame p tape))))) (htonl_bytes (of_nat (length p)) @ p)"
    using assms(1) WriteFrame_prefix [of p tape] prefix_order.trans unfolding breaks_def by blast
  from ReadFrame_broken [OF this assms(2)] show ?thesis by simp
qed

lemma frame_len_below: "length p < 2 ^ 32 \<Longrightarrow> frame_len p = length p"
  by (simp add: unat_of_nat take_bit_nat_eq_self)

lemma error_not_ok [simp]: "\<not> rs_ok (MakeRpcError req c m)" "\<not> rs_ok (ErrorResponse req st)"
  by (simp_all add: MakeRpcError_def ErrorResponse_def)

text \<open>Whatever becomes of the answer, a client whose answer is not an ok response gets no ok response.\<close>

lemma broken_reply:
  assumes "breaks f" and "fst (ReadFrame (f (fst (snd (WriteFrame (EncodeRpcResponse resp) tape))))) = Inr payload"
    and "max_frame < length (EncodeRpcResponse resp) \<and> length (EncodeRpcResponse resp) < 2 ^ 32 \<or>
      (\<exists>req c m. resp = MakeRpcError req c m) \<and> length (EncodeRpcResponse resp) \<le> max_frame"
    and "DecodeRpcResponse payload = Inr response"
  shows "\<not> rs_ok response"
proof -
  note b = broken_frame [OF assms(1,2)]
  have small: "length (EncodeRpcResponse resp) \<le> max_frame"
    using assms(3) b frame_len_below [of "EncodeRpcResponse resp"] by auto
  then obtain req c m where "resp = MakeRpcError req c m" using assms(3) by auto
  with b assms(4) frame_len_exact [OF small] have "response = MakeRpcError req c m" by (simp add: decode_encode_error)
  then show ?thesis by (simp only: error_not_ok not_False_eq_True)
qed

lemma ReadAll_error: "fst (ReadAll n chunks) = Inl st \<Longrightarrow> st = IoError ''socket read failed''"
proof (induction n chunks rule: ReadAll.induct)
  case (1 n chunks)
  show ?case
  proof (cases "n = 0")
    case False
    obtain got tail where r: "recv n chunks = (got, tail)" by fastforce
    show ?thesis
    proof (cases "got = []")
      case True
      with ReadAll_stop [OF False, of chunks tail] r 1(2) show ?thesis by simp
    next
      case got: False
      have "fst (ReadAll (n - length got) tail) = Inl st"
        using ReadAll_step [OF False r got] 1(2) by (cases "fst (ReadAll (n - length got) tail)") (simp_all add: map_prod_def split_beta)
      with "1.IH" [OF False r [symmetric] refl got] show ?thesis by simp
    qed
  qed (use 1(2) in simp)
qed

lemma ReadFrame_error:
  "fst (ReadFrame chunks) = Inl st \<Longrightarrow> st \<in> {IoError ''socket read failed'', InvalidArgument ''rpc frame is too large''}"
  using ReadAll_error [of 4 chunks] ReadAll_error
  by (fastforce simp: ReadFrame_def Let_def split: prod.splits sum.splits if_splits)

lemma refusal_fits:
  "st \<in> {IoError ''socket read failed'', InvalidArgument ''rpc frame is too large''} \<Longrightarrow>
     length (EncodeRpcResponse (ErrorResponse RpcRequest_default st)) \<le> max_frame"
  by (auto simp: ErrorResponse_def length_EncodeRpcResponse max_frame_def RpcRequest_default_def IoError_def
      InvalidArgument_def mk_status_def)

lemma oversized_request:
  assumes big: "max_frame < length (EncodeRpcRequest req)" "length (EncodeRpcRequest req) < 2 ^ 32"
    and br: "breaks (cn_cut_request cn)" "breaks (cn_cut_response cn)"
  shows "\<exists>answer. TcpRpcClient_Call cn server req s = Some (answer, s) \<and> \<not> rs_ok answer"
proof (cases "cn_socket cn \<and> cn_host cn \<and> cn_connect cn")
  case False
  then show ?thesis by (auto simp: TcpRpcClient_Call_def)
next
  case True
  obtain st sent t where w: "WriteFrame (EncodeRpcRequest req) (cn_request_tape cn) = (st, sent, t)"
    by (cases "WriteFrame (EncodeRpcRequest req) (cn_request_tape cn)")
  have "fst (ReadFrame (cn_cut_request cn sent)) \<noteq> Inr payload" for payload
    using broken_frame [OF br(1), of "EncodeRpcRequest req" "cn_request_tape cn" payload] w big frame_len_below [OF big(2)] by auto
  then obtain e where e: "fst (ReadFrame (cn_cut_request cn sent)) = Inl e" by (metis sum.exhaust)
  let ?err = "ErrorResponse RpcRequest_default e"
  let ?reply = "fst (snd (WriteFrame (EncodeRpcResponse ?err) (cn_response_tape cn)))"
  have h: "HandleClient server (cn_cut_request cn sent) (cn_response_tape cn) s = Some (?reply, s)"
    by (simp add: HandleClient_def e)
  have "(\<exists>req c m. ?err = MakeRpcError req c m) \<and> length (EncodeRpcResponse ?err) \<le> max_frame"
    using refusal_fits [OF ReadFrame_error [OF e]] by (auto simp: ErrorResponse_def)
  then have "DecodeRpcResponse payload = Inr response \<Longrightarrow> \<not> rs_ok response"
    if "fst (ReadFrame (cn_cut_response cn ?reply)) = Inr payload" for payload response
    using broken_reply [OF br(2) that, of response] by blast
  then show ?thesis
    using True by (auto simp: TcpRpcClient_Call_def w h split: sum.splits)
qed

lemma oversized_response:
  assumes "length (EncodeRpcRequest req) \<le> max_frame"
    and h: "RpcServer_Handle server (req\<lparr>rq_metadata := fmfilter metadata_key (rq_metadata req)\<rparr>) s = Some (resp, s')"
    and big: "max_frame < length (EncodeRpcResponse resp)" "length (EncodeRpcResponse resp) < 2 ^ 32"
    and cn: "cn_socket cn" "cn_host cn" "cn_connect cn" "0 \<notin> set (cn_request_tape cn)" "cuts (cn_cut_request cn)"
    and br: "breaks (cn_cut_response cn)"
  shows "\<exists>answer. TcpRpcClient_Call cn server req s = Some (answer, s') \<and> \<not> rs_ok answer"
proof -
  let ?W = "WriteFrame (EncodeRpcRequest req) (cn_request_tape cn)"
  let ?reply = "fst (snd (WriteFrame (EncodeRpcResponse resp) (cn_response_tape cn)))"
  have "fst ?W = Status_Ok" by (rule frame_cut(1) [OF cn(5,4)])
  moreover have "HandleClient server (cn_cut_request cn (fst (snd ?W))) (cn_response_tape cn) s = Some (?reply, s')"
    using HandleClient_cut [OF cn(5,4) assms(1), of server "cn_response_tape cn" s] h by simp
  moreover have "fst (ReadFrame (cn_cut_response cn ?reply)) \<noteq> Inr payload" for payload
    using broken_frame [OF br, of "EncodeRpcResponse resp" "cn_response_tape cn" payload] big frame_len_below [OF big(2)] by auto
  ultimately show ?thesis
    using cn(1-3) by (cases ?W) (auto simp: TcpRpcClient_Call_def split: sum.splits)
qed

text \<open>
  C20. Messages over the frame limit, of 64 MiB up to 4 GiB. A request of this size is never
  carried out: however the two streams are cut and wherever sends fail or the connection breaks
  (the server answers and closes it without reading the body), the call returns, the state of
  the server is as it was and the client does not get an ok answer. A response of this size is
  lost after the request was carried out: the server does not check the size of what it sends;
  the request having arrived, the state of the server is that after the handler and the client
  does not get an ok answer; on a connection that does not fail it gets the error that the frame
  is too large. (A message of 4 GiB or more is announced with its length modulo \<open>2 ^ 32\<close>.)
\<close>

theorem oversized_messages:
  assumes "breaks (cn_cut_response cn)"
  shows "(max_frame < length (EncodeRpcRequest req) \<and> length (EncodeRpcRequest req) < 2 ^ 32 \<and> breaks (cn_cut_request cn) \<longrightarrow>
      (\<exists>answer. TcpRpcClient_Call cn server req s = Some (answer, s) \<and> \<not> rs_ok answer)) \<and>
    (length (EncodeRpcRequest req) \<le> max_frame \<and>
      RpcServer_Handle server (req\<lparr>rq_metadata := fmfilter metadata_key (rq_metadata req)\<rparr>) s = Some (resp, s') \<and>
      max_frame < length (EncodeRpcResponse resp) \<and> length (EncodeRpcResponse resp) < 2 ^ 32 \<and>
      cn_socket cn \<and> cn_host cn \<and> cn_connect cn \<and> 0 \<notin> set (cn_request_tape cn) \<and> cuts (cn_cut_request cn) \<longrightarrow>
      (\<exists>answer. TcpRpcClient_Call cn server req s = Some (answer, s') \<and> \<not> rs_ok answer \<and>
        (reliable cn \<longrightarrow> answer = MakeRpcError req ''INVALID_ARGUMENT'' ''rpc frame is too large'')))"
proof (intro conjI impI)
  assume "max_frame < length (EncodeRpcRequest req) \<and> length (EncodeRpcRequest req) < 2 ^ 32 \<and> breaks (cn_cut_request cn)"
  then show "\<exists>answer. TcpRpcClient_Call cn server req s = Some (answer, s) \<and> \<not> rs_ok answer"
    using oversized_request [of req cn server s] assms by blast
next
  assume a: "length (EncodeRpcRequest req) \<le> max_frame \<and>
      RpcServer_Handle server (req\<lparr>rq_metadata := fmfilter metadata_key (rq_metadata req)\<rparr>) s = Some (resp, s') \<and>
      max_frame < length (EncodeRpcResponse resp) \<and> length (EncodeRpcResponse resp) < 2 ^ 32 \<and>
      cn_socket cn \<and> cn_host cn \<and> cn_connect cn \<and> 0 \<notin> set (cn_request_tape cn) \<and> cuts (cn_cut_request cn)"
  then obtain answer where ans: "TcpRpcClient_Call cn server req s = Some (answer, s')" "\<not> rs_ok answer"
    using oversized_response [of req server s resp s' cn] assms by blast
  moreover have "answer = MakeRpcError req ''INVALID_ARGUMENT'' ''rpc frame is too large''" if "reliable cn"
    using Call_reliable [OF that, of req server s resp s'] a ans(1) frame_len_below [of "EncodeRpcResponse resp"]
    by (simp add: ErrorResponse_def InvalidArgument_def mk_status_def)
  ultimately show "\<exists>answer. TcpRpcClient_Call cn server req s = Some (answer, s') \<and> \<not> rs_ok answer \<and>
      (reliable cn \<longrightarrow> answer = MakeRpcError req ''INVALID_ARGUMENT'' ''rpc frame is too large'')" by blast
qed
text \<open>A server whose method counts its calls and answers with \<open>2 ^ 26\<close> bytes.\<close>

definition big_server :: "nat RpcServer" where
  "big_server = \<lparr>handlers = fmupd ''big'' (\<lambda>req n. Some (MakeRpcOk req (replicate (2 ^ 26) CHR ''x''), Suc n)) fmempty\<rparr>"

text \<open>A request of over \<open>2 ^ 27\<close> bytes to a server that closes the connection after the header, and a large answer.\<close>

definition closing_connection :: connection where
  "closing_connection = slow_connection\<lparr>cn_request_tape := [4, 1000, 0]\<rparr>"

theorem oversized_messages_witness:
  "(\<exists>answer. TcpRpcClient_Call closing_connection big_server
       (RpcRequest_default\<lparr>rq_method := ''big'', rq_payload := replicate (2 ^ 26) CHR ''x''\<rparr>) 0 = Some (answer, 0) \<and> \<not> rs_ok answer) \<and>
   TcpRpcClient_Call slow_connection big_server (RpcRequest_default\<lparr>rq_method := ''big''\<rparr>) 0 =
     Some (MakeRpcError (RpcRequest_default\<lparr>rq_method := ''big''\<rparr>) ''INVALID_ARGUMENT'' ''rpc frame is too large'', 1)"
proof
  have cut: "cuts (cn_cut_request slow_connection)" "cuts (cn_cut_response slow_connection)"
    using slow_reliable by (simp_all add: reliable_def)
  then have br: "breaks (cn_cut_request slow_connection)" "breaks (cn_cut_response slow_connection)"
    by (simp_all add: cuts_def breaks_def)
  have four: "length (to_string_signed (3000 :: i32)) = 4" by (simp add: to_string_signed_def show_int_def show_nat.simps)
  let ?big = "RpcRequest_default\<lparr>rq_method := ''big'', rq_payload := replicate (2 ^ 26) CHR ''x''\<rparr>"
  have "2 ^ 27 \<le> length (EncodeRpcRequest ?big)" "length (EncodeRpcRequest ?big) < 2 ^ 28"
    using four by (simp_all add: EncodeRpcRequest_def RpcRequest_default_def Let_def length_EncodeFields_upd)
  then have "max_frame < length (EncodeRpcRequest ?big)" "length (EncodeRpcRequest ?big) < 2 ^ 32"
    by (simp_all add: max_frame_def)
  with oversized_messages [of closing_connection ?big big_server 0] br
  show "\<exists>answer. TcpRpcClient_Call closing_connection big_server ?big 0 = Some (answer, 0) \<and> \<not> rs_ok answer"
    by (simp add: closing_connection_def)
  let ?req = "RpcRequest_default\<lparr>rq_method := ''big''\<rparr>"
  let ?resp = "MakeRpcOk ?req (replicate (2 ^ 26) CHR ''x'')"
  have h: "RpcServer_Handle big_server (?req\<lparr>rq_metadata := fmfilter metadata_key (rq_metadata ?req)\<rparr>) 0 = Some (?resp, 1)"
    by (simp add: RpcServer_Handle_def big_server_def MakeRpcOk_def RpcRequest_default_def)
  have req: "length (EncodeRpcRequest ?req) \<le> max_frame"
    using four by (simp add: EncodeRpcRequest_def RpcRequest_default_def Let_def length_EncodeFields_upd max_frame_def)
  have "length (EncodeRpcResponse ?resp) = 106 + 2 ^ 27"
    by (simp add: EncodeRpcResponse_def MakeRpcOk_def RpcResponse_default_def RpcRequest_default_def Let_def
        length_EncodeFields_upd)
  then have resp: "max_frame < length (EncodeRpcResponse ?resp)" "length (EncodeRpcResponse ?resp) < 2 ^ 32"
    by (simp_all add: max_frame_def)
  have "cn_socket slow_connection \<and> cn_host slow_connection \<and> cn_connect slow_connection \<and> 0 \<notin> set (cn_request_tape slow_connection)"
    by (simp add: slow_connection_def)
  with oversized_messages [OF br(2), of ?req big_server 0 ?resp 1] req h resp cut(1) slow_reliable
  show "TcpRpcClient_Call slow_connection big_server ?req 0 =
     Some (MakeRpcError ?req ''INVALID_ARGUMENT'' ''rpc frame is too large'', 1)" by auto
qed

end
