(* ===== verification/Raft_Messages.thy ===== *)
theory Raft_Messages
  imports Rpc_Service Raft_Storage "HOL-Library.Monad_Syntax"
begin

text \<open>
  The Raft messages as field maps, from distributed_region_node.cpp: votes and appends, requests
  and responses. \<open>None\<close> is the exception of \<open>std::map::at\<close> or of \<open>std::stoull\<close>/\<open>std::stoi\<close>. The
  lemmas show that every message survives its field map.
\<close>

section \<open>Operations\<close>

text \<open>\<open>std::stoull(fields.at(key))\<close>.\<close>

definition at_u64 :: "FieldMap \<Rightarrow> string \<Rightarrow> u64 option" where
  "at_u64 flds key = Option.bind (fmlookup flds key) stoull"

definition PutRequestVoteFields :: "FieldMap \<Rightarrow> RequestVoteRequest \<Rightarrow> FieldMap" where
  "PutRequestVoteFields flds request =
     (let flds = fmupd ''region_id'' (to_string (rv_region_id request)) flds;
          flds = fmupd ''term'' (to_string (rv_term request)) flds;
          flds = fmupd ''candidate_id'' (to_string (rv_candidate_id request)) flds;
          flds = fmupd ''last_log_index'' (to_string (rv_last_log_index request)) flds
      in fmupd ''last_log_term'' (to_string (rv_last_log_term request)) flds)"

definition GetRequestVoteFields :: "FieldMap \<Rightarrow> RequestVoteRequest option" where
  "GetRequestVoteFields flds =
     do { region_id \<leftarrow> at_u64 flds ''region_id'';
          term \<leftarrow> at_u64 flds ''term'';
          candidate_id \<leftarrow> at_u64 flds ''candidate_id'';
          last_log_index \<leftarrow> at_u64 flds ''last_log_index'';
          last_log_term \<leftarrow> at_u64 flds ''last_log_term'';
          Some \<lparr>rv_region_id = region_id, rv_term = term, rv_candidate_id = candidate_id,
                rv_last_log_index = last_log_index, rv_last_log_term = last_log_term\<rparr> }"

definition PutRequestVoteResponseFields :: "FieldMap \<Rightarrow> RequestVoteResponse \<Rightarrow> FieldMap" where
  "PutRequestVoteResponseFields flds response =
     fmupd ''vote_granted'' (if rvr_vote_granted response then ''1'' else ''0'')
       (fmupd ''term'' (to_string (rvr_term response)) flds)"

definition GetRequestVoteResponseFields :: "FieldMap \<Rightarrow> RequestVoteResponse option" where
  "GetRequestVoteResponseFields flds =
     map_option (\<lambda>t. \<lparr>rvr_term = t, rvr_vote_granted = (GetOr flds ''vote_granted'' ''0'' = ''1'')\<rparr>) (at_u64 flds ''term'')"

definition put_log_entry :: "FieldMap \<Rightarrow> LogEntry \<Rightarrow> string \<Rightarrow> FieldMap" where
  "put_log_entry flds entry p =
     (let flds = fmupd (p @ ''.region_id'') (to_string (le_region_id entry)) flds;
          flds = fmupd (p @ ''.index'') (to_string (le_index entry)) flds;
          flds = fmupd (p @ ''.term'') (to_string (le_term entry)) flds;
          flds = fmupd (p @ ''.type'') (to_string_signed (EntryTypeToInt (le_type entry))) flds
      in fmupd (p @ ''.command'') (HexEncode (le_command entry)) flds)"

definition PutAppendEntriesFields :: "FieldMap \<Rightarrow> AppendEntriesRequest \<Rightarrow> FieldMap" where
  "PutAppendEntriesFields flds request =
     (let flds = fmupd ''region_id'' (to_string (ae_region_id request)) flds;
          flds = fmupd ''term'' (to_string (ae_term request)) flds;
          flds = fmupd ''leader_id'' (to_string (ae_leader_id request)) flds;
          flds = fmupd ''prev_log_index'' (to_string (ae_prev_log_index request)) flds;
          flds = fmupd ''prev_log_term'' (to_string (ae_prev_log_term request)) flds;
          flds = fmupd ''leader_commit'' (to_string (ae_leader_commit request)) flds;
          flds = fmupd ''entry_count'' (show_nat (length (ae_entries request))) flds
      in put_indexed put_log_entry ''entry'' 0 (ae_entries request) flds)"

definition get_log_entry :: "FieldMap \<Rightarrow> string \<Rightarrow> (Status + LogEntry) option" where
  "get_log_entry flds p =
     do { region_id \<leftarrow> at_u64 flds (p @ ''.region_id'');
          index \<leftarrow> at_u64 flds (p @ ''.index'');
          term \<leftarrow> at_u64 flds (p @ ''.term'');
          type \<leftarrow> Option.bind (fmlookup flds (p @ ''.type'')) stoi;
          hex \<leftarrow> fmlookup flds (p @ ''.command'');
          Some (case HexDecode hex of
                  Inl status \<Rightarrow> Inl status
                | Inr command \<Rightarrow>
                    Inr \<lparr>le_region_id = region_id, le_index = index, le_term = term,
                         le_type = EntryTypeFromInt type, le_command = command\<rparr>) }"

fun get_log_entries :: "FieldMap \<Rightarrow> nat list \<Rightarrow> (Status + LogEntry list) option" where
  "get_log_entries flds [] = Some (Inr [])"
| "get_log_entries flds (i # is) =
     (case get_log_entry flds (''entry'' @ show_nat i) of
        None \<Rightarrow> None
      | Some (Inl status) \<Rightarrow> Some (Inl status)
      | Some (Inr entry) \<Rightarrow> map_option (map_sum id (Cons entry)) (get_log_entries flds is))"

definition GetAppendEntriesFields :: "FieldMap \<Rightarrow> (Status + AppendEntriesRequest) option" where
  "GetAppendEntriesFields flds =
     do { region_id \<leftarrow> at_u64 flds ''region_id'';
          term \<leftarrow> at_u64 flds ''term'';
          leader_id \<leftarrow> at_u64 flds ''leader_id'';
          prev_log_index \<leftarrow> at_u64 flds ''prev_log_index'';
          prev_log_term \<leftarrow> at_u64 flds ''prev_log_term'';
          leader_commit \<leftarrow> at_u64 flds ''leader_commit'';
          entry_count \<leftarrow> at_u64 flds ''entry_count'';
          map_option (map_sum id (\<lambda>log_entries.
            \<lparr>ae_region_id = region_id, ae_term = term, ae_leader_id = leader_id, ae_prev_log_index = prev_log_index,
             ae_prev_log_term = prev_log_term, ae_entries = log_entries, ae_leader_commit = leader_commit\<rparr>))
            (get_log_entries flds [0 ..< unat entry_count]) }"

definition PutAppendEntriesResponseFields :: "FieldMap \<Rightarrow> AppendEntriesResponse \<Rightarrow> FieldMap" where
  "PutAppendEntriesResponseFields flds response =
     fmupd ''match_index'' (to_string (aer_match_index response))
       (fmupd ''success'' (if aer_success response then ''1'' else ''0'')
         (fmupd ''term'' (to_string (aer_term response)) flds))"

definition GetAppendEntriesResponseFields :: "FieldMap \<Rightarrow> AppendEntriesResponse option" where
  "GetAppendEntriesResponseFields flds =
     do { term \<leftarrow> at_u64 flds ''term'';
          match_index \<leftarrow> at_u64 flds ''match_index'';
          Some \<lparr>aer_term = term, aer_success = (GetOr flds ''success'' ''0'' = ''1''), aer_match_index = match_index\<rparr> }"

section \<open>Round trips\<close>

lemma at_u64_upd [simp]: "at_u64 (fmupd k v f) k' = (if k = k' then stoull v else at_u64 f k')"
  by (simp add: at_u64_def)

lemma put_log_entry_lookup:
  "fmlookup (put_log_entry f e p) (p @ ''.region_id'') = Some (to_string (le_region_id e))"
  "fmlookup (put_log_entry f e p) (p @ ''.index'') = Some (to_string (le_index e))"
  "fmlookup (put_log_entry f e p) (p @ ''.term'') = Some (to_string (le_term e))"
  "fmlookup (put_log_entry f e p) (p @ ''.type'') = Some (to_string_signed (EntryTypeToInt (le_type e)))"
  "fmlookup (put_log_entry f e p) (p @ ''.command'') = Some (HexEncode (le_command e))"
  by (simp_all add: put_log_entry_def Let_def)

lemma get_put_log_entry: "get_log_entry (put_log_entry f e p) p = Some (Inr e)"
  unfolding get_log_entry_def at_u64_def put_log_entry_lookup
  by (simp only: Option.bind.bind_lunit stoull_to_string stoi_to_string_signed EntryType_int HexDecode_HexEncode sum.case) simp

lemma put_log_entry_frame: "\<not> prefix (p @ ''.'') k \<Longrightarrow> fmlookup (put_log_entry f e p) k = fmlookup f k"
proof -
  assume "\<not> prefix (p @ ''.'') k"
  then have "p @ CHR ''.'' # n \<noteq> k" for n by auto
  then show ?thesis by (simp add: put_log_entry_def Let_def)
qed

lemma get_log_entry_cong:
  assumes "\<And>k. prefix (p @ ''.'') k \<Longrightarrow> fmlookup f k = fmlookup g k"
  shows "get_log_entry f p = get_log_entry g p"
proof -
  have "fmlookup f (p @ CHR ''.'' # n) = fmlookup g (p @ CHR ''.'' # n)" for n using assms by simp
  then show ?thesis by (simp add: get_log_entry_def at_u64_def)
qed

interpretation log_entry_list: indexed_fields put_log_entry get_log_entry "Some \<circ> Inr" "\<lambda>_. True"
  by unfold_locales (simp add: get_put_log_entry, rule put_log_entry_frame, assumption, rule get_log_entry_cong, assumption)

lemma get_log_entries_ok:
  assumes "\<And>i. i \<in> set is \<Longrightarrow> get_log_entry f (''entry'' @ show_nat i) = Some (Inr (g i))"
  shows "get_log_entries f is = Some (Inr (map g is))"
  using assms by (induction "is") simp_all

lemma get_put_append_entries:
  assumes "length (ae_entries r) < 2 ^ 64"
  shows "GetAppendEntriesFields (PutAppendEntriesFields f r) = Some (Inr r)"
proof -
  let ?n = "length (ae_entries r)"
  have entry: "get_log_entry (PutAppendEntriesFields f r) (''entry'' @ show_nat i) = Some (Inr (ae_entries r ! i))"
    if "i \<in> set [0 ..< ?n]" for i
    using that log_entry_list.get_put_indexed [of "''entry''" i "ae_entries r" 0]
    by (simp add: PutAppendEntriesFields_def Let_def)
  have entries: "get_log_entries (PutAppendEntriesFields f r) [0 ..< ?n] = Some (Inr (ae_entries r))"
    using get_log_entries_ok [OF entry, of "[0 ..< ?n]"] by (simp add: map_nth)
  have frame: "fmlookup (PutAppendEntriesFields f r) k =
      fmlookup (PutAppendEntriesFields f (r\<lparr>ae_entries := []\<rparr>)) k"
    if "\<And>i. \<not> prefix (''entry'' @ show_nat i @ ''.'') k" "k \<noteq> ''entry_count''" for k
    using that by (simp add: PutAppendEntriesFields_def Let_def log_entry_list.put_indexed_frame)
  have count: "at_u64 (PutAppendEntriesFields f r) ''entry_count'' = Some (of_nat ?n)"
    using assms indexed_prefix_plain [of "CHR ''_''" "''entry''" _ "''count''"]
    by (simp add: at_u64_def PutAppendEntriesFields_def Let_def log_entry_list.put_indexed_frame is_digit_def stoull_show_nat)
  have scalar: "at_u64 (PutAppendEntriesFields f r) k = at_u64 (PutAppendEntriesFields f (r\<lparr>ae_entries := []\<rparr>)) k"
    if "\<And>i. \<not> prefix (''entry'' @ show_nat i @ ''.'') k" "k \<noteq> ''entry_count''" for k
    unfolding at_u64_def frame [OF that] ..
  have plain: "\<not> prefix (''entry'' @ show_nat i @ ''.'') (c # k)" if "c \<noteq> CHR ''e''" for i c k
    using that by auto
  have fields: "at_u64 (PutAppendEntriesFields f r) ''region_id'' = Some (ae_region_id r)"
    "at_u64 (PutAppendEntriesFields f r) ''term'' = Some (ae_term r)"
    "at_u64 (PutAppendEntriesFields f r) ''leader_id'' = Some (ae_leader_id r)"
    "at_u64 (PutAppendEntriesFields f r) ''prev_log_index'' = Some (ae_prev_log_index r)"
    "at_u64 (PutAppendEntriesFields f r) ''prev_log_term'' = Some (ae_prev_log_term r)"
    "at_u64 (PutAppendEntriesFields f r) ''leader_commit'' = Some (ae_leader_commit r)"
    by (subst scalar; simp add: plain PutAppendEntriesFields_def stoull_to_string)+
  have n: "unat (of_nat ?n :: u64) = ?n" using assms by (simp add: unat_of_nat)
  show ?thesis
    unfolding GetAppendEntriesFields_def fields count
    by (simp only: Option.bind.bind_lunit n entries option.map map_sum.simps) simp
qed

lemma get_put_vote: "GetRequestVoteFields (PutRequestVoteFields f r) = Some r"
  by (cases r) (simp add: GetRequestVoteFields_def PutRequestVoteFields_def Let_def stoull_to_string)

lemma get_put_vote_response: "GetRequestVoteResponseFields (PutRequestVoteResponseFields f r) = Some r"
  by (cases r) (simp add: GetRequestVoteResponseFields_def PutRequestVoteResponseFields_def stoull_to_string)

lemma get_put_append_response: "GetAppendEntriesResponseFields (PutAppendEntriesResponseFields f r) = Some r"
  by (cases r) (simp add: GetAppendEntriesResponseFields_def PutAppendEntriesResponseFields_def stoull_to_string)

section \<open>Property\<close>

text \<open>
  C25. Every Raft message survives the way over the wire: written into fields, encoded as a payload,
  decoded and read back, a vote request, a vote answer, an append request with fewer than
  \<open>2 ^ 64\<close> entries of any kind and content, and an append answer are what was sent.
\<close>

theorem raft_messages_roundtrip:
  assumes "length (ae_entries append_request) < 2 ^ 64"
  shows "map_sum id GetRequestVoteFields (DecodeFields (EncodeFields (PutRequestVoteFields fmempty vote_request)))
           = Inr (Some vote_request) \<and>
         map_sum id GetRequestVoteResponseFields
             (DecodeFields (EncodeFields (PutRequestVoteResponseFields fmempty vote_response))) = Inr (Some vote_response) \<and>
         map_sum id GetAppendEntriesFields (DecodeFields (EncodeFields (PutAppendEntriesFields fmempty append_request)))
           = Inr (Some (Inr append_request)) \<and>
         map_sum id GetAppendEntriesResponseFields
             (DecodeFields (EncodeFields (PutAppendEntriesResponseFields fmempty append_response))) = Inr (Some append_response)"
  using assms
  by (simp add: decode_encode_fields get_put_vote get_put_vote_response get_put_append_entries get_put_append_response)

theorem raft_messages_roundtrip_witness:
  "map_sum id GetAppendEntriesFields (DecodeFields (EncodeFields (PutAppendEntriesFields fmempty
       \<lparr>ae_region_id = 1, ae_term = 2, ae_leader_id = 3, ae_prev_log_index = 0, ae_prev_log_term = 0,
        ae_entries = [\<lparr>le_region_id = 1, le_index = 1, le_term = 2, le_type = kNoop, le_command = []\<rparr>],
        ae_leader_commit = 0\<rparr>)))
   = Inr (Some (Inr \<lparr>ae_region_id = 1, ae_term = 2, ae_leader_id = 3, ae_prev_log_index = 0, ae_prev_log_term = 0,
        ae_entries = [\<lparr>le_region_id = 1, le_index = 1, le_term = 2, le_type = kNoop, le_command = []\<rparr>],
        ae_leader_commit = 0\<rparr>))"
  using raft_messages_roundtrip [of "\<lparr>ae_region_id = 1, ae_term = 2, ae_leader_id = 3, ae_prev_log_index = 0, ae_prev_log_term = 0,
        ae_entries = [\<lparr>le_region_id = 1, le_index = 1, le_term = 2, le_type = kNoop, le_command = []\<rparr>],
        ae_leader_commit = 0\<rparr>"] by auto

end
