(* ===== verification/Distributed_Region.thy ===== *)
theory Distributed_Region
  imports Single_Region Raft_Messages
begin

text \<open>
  distributed_region_node.cpp: the peer of one region in one store process, which reaches the
  other peers by RPC. The network is a parameter: \<open>call ep request w\<close> is what
  \<open>TcpRpcClient::Call\<close> to the endpoint \<open>ep\<close> returns in the world \<open>w\<close> and the world after it (an
  unreachable store is an answer that is not ok). \<open>None\<close> is an exception of \<open>std::map::at\<close> or
  \<open>std::stoull\<close>, a null dereference, or a read outside of the log vector. \<open>Distributed_Replication\<close>,
  \<open>Distributed_Map\<close> and \<open>Distributed_Failures\<close> have the lemmas.
\<close>

section \<open>State\<close>

type_synonym 'w tcp = "Endpoint \<Rightarrow> RpcRequest \<Rightarrow> 'w \<Rightarrow> RpcResponse \<times> 'w"

record DistributedRegionNode =
  dn_local_store :: StoreInfo
  dn_stores :: "StoreInfo list"
  dn_region :: RegionInfo
  dn_local_peer :: Peer
  dn_raft :: "RaftNode option"
  dn_engine :: FileKvEngine
  dn_raft_storage :: bool
  dn_next_request_id :: u64

definition DistributedRegionNode_new :: DistributedRegionNode where
  "DistributedRegionNode_new =
     \<lparr>dn_local_store = StoreInfo_default, dn_stores = [], dn_region = RegionInfo_default, dn_local_peer = Peer_default,
      dn_raft = None, dn_engine = FileKvEngine_new [] [], dn_raft_storage = False, dn_next_request_id = 1\<rparr>"

section \<open>Local operations\<close>

definition FindLocalPeer :: "DistributedRegionNode \<Rightarrow> Peer option" where
  "FindLocalPeer n = find (\<lambda>peer. pr_store_id peer = si_store_id (dn_local_store n)) (ri_peers (dn_region n))"

definition FindStoreByPeer :: "u64 \<Rightarrow> DistributedRegionNode \<Rightarrow> StoreInfo option" where
  "FindStoreByPeer peer_id n =
     (case find (\<lambda>peer. pr_peer_id peer = peer_id) (ri_peers (dn_region n)) of
        None \<Rightarrow> None
      | Some target_peer \<Rightarrow> find (\<lambda>store. si_store_id store = pr_store_id target_peer) (dn_stores n))"

definition dn_PersistHardState :: "DistributedRegionNode \<Rightarrow> Status \<times> DistributedRegionNode" where
  "dn_PersistHardState n =
     (case dn_raft n of
        None \<Rightarrow> (InvalidArgument ''raft storage is not initialized'', n)
      | Some raft \<Rightarrow>
          if \<not> dn_raft_storage n then (InvalidArgument ''raft storage is not initialized'', n)
          else let (status, e) = SaveHardState file_kv_ops (ri_region_id (dn_region n)) (hard_state_of raft) (dn_engine n)
               in (status, n\<lparr>dn_engine := e\<rparr>))"

fun append_logs :: "LogEntry list \<Rightarrow> FileKvEngine \<Rightarrow> Status \<times> FileKvEngine" where
  "append_logs [] e = (Status_Ok, e)"
| "append_logs (x # xs) e =
     (let (status, e1) = AppendLog file_kv_ops x e
      in if \<not> ok status then (status, e1) else append_logs xs e1)"

definition PersistLogFrom :: "u64 \<Rightarrow> DistributedRegionNode \<Rightarrow> (Status \<times> DistributedRegionNode) option" where
  "PersistLogFrom first_index n =
     (case dn_raft n of
        None \<Rightarrow> Some (InvalidArgument ''raft storage is not initialized'', n)
      | Some raft \<Rightarrow>
          if \<not> dn_raft_storage n then Some (InvalidArgument ''raft storage is not initialized'', n)
          else case DeleteLogsFrom file_kv_ops (ri_region_id (dn_region n)) first_index (dn_engine n) of
                 None \<Rightarrow> None
               | Some (status, e) \<Rightarrow>
                   if \<not> ok status then Some (status, n\<lparr>dn_engine := e\<rparr>)
                   else let (status, e') = append_logs (filter (\<lambda>x. le_index x \<ge> first_index) (rn_log raft)) e
                        in Some (status, n\<lparr>dn_engine := e'\<rparr>))"

text \<open>\<open>raft_\<close> is dereferenced: \<open>None\<close> without a node.\<close>

definition dn_ApplyCommitted :: "DistributedRegionNode \<Rightarrow> (Status \<times> DistributedRegionNode) option" where
  "dn_ApplyCommitted n =
     (case Option.bind (dn_raft n) TakeCommittedEntries of
        None \<Rightarrow> None
      | Some (es, raft) \<Rightarrow>
          let (status, e) = apply_entries es (dn_engine n)
          in Some (status, n\<lparr>dn_raft := Some raft, dn_engine := e\<rparr>))"

definition dn_Bootstrap ::
  "file_env \<Rightarrow> string \<Rightarrow> StoreInfo \<Rightarrow> StoreInfo list \<Rightarrow> RegionInfo \<Rightarrow> DistributedRegionNode \<Rightarrow>
   (Status \<times> DistributedRegionNode) option" where
  "dn_Bootstrap env data_dir local_store stores region n =
     (let n1 = n\<lparr>dn_local_store := local_store, dn_stores := stores, dn_region := region\<rparr>
      in case FindLocalPeer n1 of
           None \<Rightarrow> Some (InvalidArgument ''local store does not host a peer for region'', n1)
         | Some local_peer \<Rightarrow>
             let peer_ids = map pr_peer_id (ri_peers region);
                 raft = RaftNode_new (ri_region_id region) (pr_peer_id local_peer) peer_ids;
                 dir = data_dir @ ''/region-'' @ to_string (ri_region_id region);
                 (status, e) = Open dir ((dn_engine n1)\<lparr>kv_disk := fe_log env dir, kv_io := fe_io env dir\<rparr>);
                 n2 = n1\<lparr>dn_local_peer := local_peer, dn_raft := Some raft, dn_engine := e\<rparr>
             in if \<not> ok status then Some (status, n2)
                else
                  let n3 = n2\<lparr>dn_raft_storage := True\<rparr>
                  in case LoadHardState file_kv_ops (ri_region_id region) e of
                       None \<Rightarrow> None
                     | Some (Inl status) \<Rightarrow> Some (if st_code status = kKeyNotFound then Status_Ok else status, n3)
                     | Some (Inr hard_state) \<Rightarrow>
                         (case LoadLog file_kv_ops (ri_region_id region) e of
                            Inl status \<Rightarrow> Some (status, n3)
                          | Inr es \<Rightarrow>
                              let voted_for = (if hs_voted_for hard_state \<noteq> 0 then Some (hs_voted_for hard_state) else None);
                                  (status, raft') = raft_Restore (hs_current_term hard_state) voted_for
                                    (hs_commit_index hard_state) (hs_last_applied hard_state) es raft
                              in Some (status, n3\<lparr>dn_raft := Some raft'\<rparr>)))"

definition dn_Get :: "string \<Rightarrow> Consistency \<Rightarrow> DistributedRegionNode \<Rightarrow> Status + string" where
  "dn_Get key consistency n = kv_Get key (dn_engine n)"

section \<open>Handlers of the Raft messages\<close>

text \<open>The results of persisting are discarded.\<close>

definition dn_HandleRequestVote ::
  "RequestVoteRequest \<Rightarrow> DistributedRegionNode \<Rightarrow> RequestVoteResponse \<times> DistributedRegionNode" where
  "dn_HandleRequestVote request n =
     (case dn_raft n of
        None \<Rightarrow> (\<lparr>rvr_term = 0, rvr_vote_granted = False\<rparr>, n)
      | Some raft \<Rightarrow>
          let (response, raft') = HandleRequestVote request raft
          in (response, snd (dn_PersistHardState (n\<lparr>dn_raft := Some raft'\<rparr>))))"

definition dn_HandleAppendEntries ::
  "AppendEntriesRequest \<Rightarrow> DistributedRegionNode \<Rightarrow> (AppendEntriesResponse \<times> DistributedRegionNode) option" where
  "dn_HandleAppendEntries request n =
     (case dn_raft n of
        None \<Rightarrow> Some (\<lparr>aer_term = 0, aer_success = False, aer_match_index = 0\<rparr>, n)
      | Some raft \<Rightarrow>
          let first_new_index = (if ae_entries request = [] then 0 else le_index (hd (ae_entries request)))
          in case HandleAppendEntries request raft of
               None \<Rightarrow> None
             | Some (response, raft') \<Rightarrow>
                 let n1 = n\<lparr>dn_raft := Some raft'\<rparr>
                 in if \<not> aer_success response then Some (response, snd (dn_PersistHardState n1))
                    else
                      case (if first_new_index \<noteq> 0 then map_option snd (PersistLogFrom first_new_index n1) else Some n1) of
                        None \<Rightarrow> None
                      | Some n2 \<Rightarrow>
                          map_option (\<lambda>(_, n3). (response, snd (dn_PersistHardState n3))) (dn_ApplyCommitted n2))"

section \<open>Calls to other stores\<close>

definition dn_CallStore ::
  "'w tcp \<Rightarrow> StoreInfo \<Rightarrow> string \<Rightarrow> FieldMap \<Rightarrow> DistributedRegionNode \<Rightarrow> 'w \<Rightarrow>
   RpcResponse \<times> DistributedRegionNode \<times> 'w" where
  "dn_CallStore call store rpc_method flds n w =
     (let request = \<lparr>rq_request_id = ''store-raft-'' @ to_string (dn_next_request_id n), rq_method = rpc_method,
            rq_source = ''store-'' @ to_string (si_store_id (dn_local_store n)),
            rq_target = ''store-'' @ to_string (si_store_id store), rq_deadline_ms = 3000,
            rq_payload = EncodeFields flds, rq_metadata = fmempty\<rparr>;
          (response, w') = call (si_client_endpoint store) request w
      in (response, n\<lparr>dn_next_request_id := dn_next_request_id n + 1\<rparr>, w'))"

text \<open>The loop over the peers in \<open>EnsureLeader\<close>: the votes granted, or the error that ends it.\<close>

fun request_votes ::
  "'w tcp \<Rightarrow> RequestVoteRequest \<Rightarrow> Peer list \<Rightarrow> DistributedRegionNode \<Rightarrow> 'w \<Rightarrow>
   ((Status + nat) \<times> DistributedRegionNode \<times> 'w) option" where
  "request_votes call request [] n w = Some (Inr 0, n, w)"
| "request_votes call request (peer # peers) n w =
     (if pr_peer_id peer = pr_peer_id (dn_local_peer n) then request_votes call request peers n w
      else case FindStoreByPeer (pr_peer_id peer) n of
             None \<Rightarrow> request_votes call request peers n w
           | Some store \<Rightarrow>
               let (response, n1, w1) = dn_CallStore call store ''store.RaftRequestVote'' (PutRequestVoteFields fmempty request) n w
               in if \<not> rs_ok response then request_votes call request peers n1 w1
                  else case DecodeFields (rs_payload response) of
                         Inl status \<Rightarrow> Some (Inl status, n1, w1)
                       | Inr flds \<Rightarrow>
                           (case GetRequestVoteResponseFields flds of
                              None \<Rightarrow> None
                            | Some vote \<Rightarrow>
                                map_option (map_prod (map_sum id ((+) (if rvr_vote_granted vote then 1 else 0))) id)
                                  (request_votes call request peers n1 w1)))"

definition EnsureLeader ::
  "'w tcp \<Rightarrow> DistributedRegionNode \<Rightarrow> 'w \<Rightarrow> (Status \<times> DistributedRegionNode \<times> 'w) option" where
  "EnsureLeader call n w =
     (case dn_raft n of
        None \<Rightarrow> Some (InvalidArgument ''raft node is not initialized'', n, w)
      | Some raft \<Rightarrow>
          if rn_role raft = kLeader then Some (Status_Ok, n, w)
          else if pr_peer_id (dn_local_peer n) \<noteq> ri_leader_peer_id (dn_region n)
          then Some (mk_status kNotLeader ''request must be sent to region leader'', n, w)
          else
            let candidate = BecomeCandidate raft;
                (status, n1) = dn_PersistHardState (n\<lparr>dn_raft := Some candidate\<rparr>)
            in if \<not> ok status then Some (status, n1, w)
               else
                 let request = \<lparr>rv_region_id = ri_region_id (dn_region n), rv_term = rn_current_term candidate,
                       rv_candidate_id = pr_peer_id (dn_local_peer n), rv_last_log_index = last_log_index candidate,
                       rv_last_log_term = last_log_term candidate\<rparr>
                 in case request_votes call request (ri_peers (dn_region n)) n1 w of
                      None \<Rightarrow> None
                    | Some (Inl status, n2, w2) \<Rightarrow> Some (status, n2, w2)
                    | Some (Inr granted, n2, w2) \<Rightarrow>
                        if 1 + granted \<le> length (ri_peers (dn_region n)) div 2
                        then Some (Internal ''failed to elect distributed region leader'', n2, w2)
                        else let (status, n3) = dn_PersistHardState (n2\<lparr>dn_raft := Some (BecomeLeader candidate)\<rparr>)
                             in Some (status, n3, w2))"

text \<open>
  The attempts of \<open>ReplicateToStore\<close>, at most \<open>k\<close> of them: whether the follower has the entries.
  The log is indexed without a bounds check; \<open>None\<close> is a read outside of it.
\<close>

definition replication_request :: "u64 \<Rightarrow> u64 \<Rightarrow> DistributedRegionNode \<Rightarrow> RaftNode \<Rightarrow> AppendEntriesRequest option" where
  "replication_request next_index leader_commit n raft =
     (let prev_log_index = (if next_index = 0 then 0 else next_index - 1)
      in if prev_log_index \<noteq> 0 \<and> length (rn_log raft) < unat prev_log_index then None
         else Some \<lparr>ae_region_id = ri_region_id (dn_region n), ae_term = rn_current_term raft,
                    ae_leader_id = pr_peer_id (dn_local_peer n), ae_prev_log_index = prev_log_index,
                    ae_prev_log_term = (if prev_log_index = 0 then 0 else le_term (rn_log raft ! (unat prev_log_index - 1))),
                    ae_entries = filter (\<lambda>x. le_index x \<ge> next_index) (rn_log raft), ae_leader_commit = leader_commit\<rparr>)"

fun replicate_attempts ::
  "'w tcp \<Rightarrow> nat \<Rightarrow> StoreInfo \<Rightarrow> u64 \<Rightarrow> u64 \<Rightarrow> RaftNode \<Rightarrow> DistributedRegionNode \<Rightarrow> 'w \<Rightarrow>
   ((Status + bool) \<times> DistributedRegionNode \<times> 'w) option" where
  "replicate_attempts call 0 store next_index leader_commit raft n w = Some (Inr False, n, w)"
| "replicate_attempts call (Suc k) store next_index leader_commit raft n w =
     (case replication_request next_index leader_commit n raft of
        None \<Rightarrow> None
      | Some request \<Rightarrow>
          let (response, n1, w1) = dn_CallStore call store ''store.RaftAppendEntries'' (PutAppendEntriesFields fmempty request) n w
          in if \<not> rs_ok response then Some (Inr False, n1, w1)
             else case DecodeFields (rs_payload response) of
                    Inl status \<Rightarrow> Some (Inl status, n1, w1)
                  | Inr flds \<Rightarrow>
                      (case GetAppendEntriesResponseFields flds of
                         None \<Rightarrow> None
                       | Some append_response \<Rightarrow>
                           if aer_success append_response then Some (Inr True, n1, w1)
                           else replicate_attempts call k store
                                  (if aer_match_index append_response = 0 then 1 else aer_match_index append_response)
                                  leader_commit raft n1 w1))"

definition ReplicateToStore ::
  "'w tcp \<Rightarrow> StoreInfo \<Rightarrow> u64 \<Rightarrow> u64 \<Rightarrow> DistributedRegionNode \<Rightarrow> 'w \<Rightarrow>
   ((Status + bool) \<times> DistributedRegionNode \<times> 'w) option" where
  "ReplicateToStore call store first_index leader_commit n w =
     (case dn_raft n of
        None \<Rightarrow> Some (Inl (InvalidArgument ''raft node is not initialized''), n, w)
      | Some raft \<Rightarrow> replicate_attempts call 8 store first_index leader_commit raft n w)"

fun replicate_peers ::
  "'w tcp \<Rightarrow> u64 \<Rightarrow> u64 \<Rightarrow> Peer list \<Rightarrow> DistributedRegionNode \<Rightarrow> 'w \<Rightarrow>
   ((Status + nat) \<times> DistributedRegionNode \<times> 'w) option" where
  "replicate_peers call first_index leader_commit [] n w = Some (Inr 0, n, w)"
| "replicate_peers call first_index leader_commit (peer # peers) n w =
     (if pr_peer_id peer = pr_peer_id (dn_local_peer n) then replicate_peers call first_index leader_commit peers n w
      else case FindStoreByPeer (pr_peer_id peer) n of
             None \<Rightarrow> replicate_peers call first_index leader_commit peers n w
           | Some store \<Rightarrow>
               (case ReplicateToStore call store first_index leader_commit n w of
                  None \<Rightarrow> None
                | Some (Inl status, n1, w1) \<Rightarrow> Some (Inl status, n1, w1)
                | Some (Inr replicated, n1, w1) \<Rightarrow>
                    map_option (map_prod (map_sum id ((+) (if replicated then 1 else 0))) id)
                      (replicate_peers call first_index leader_commit peers n1 w1)))"

text \<open>Results of \<open>ReplicateToStore\<close> are discarded here.\<close>

fun broadcast_peers ::
  "'w tcp \<Rightarrow> u64 \<Rightarrow> u64 \<Rightarrow> Peer list \<Rightarrow> DistributedRegionNode \<Rightarrow> 'w \<Rightarrow> (DistributedRegionNode \<times> 'w) option" where
  "broadcast_peers call first_index leader_commit [] n w = Some (n, w)"
| "broadcast_peers call first_index leader_commit (peer # peers) n w =
     (if pr_peer_id peer = pr_peer_id (dn_local_peer n) then broadcast_peers call first_index leader_commit peers n w
      else case FindStoreByPeer (pr_peer_id peer) n of
             None \<Rightarrow> broadcast_peers call first_index leader_commit peers n w
           | Some store \<Rightarrow>
               (case ReplicateToStore call store first_index leader_commit n w of
                  None \<Rightarrow> None
                | Some (_, n1, w1) \<Rightarrow> broadcast_peers call first_index leader_commit peers n1 w1))"

definition dn_BroadcastCommit ::
  "'w tcp \<Rightarrow> u64 \<Rightarrow> RaftNode \<Rightarrow> DistributedRegionNode \<Rightarrow> 'w \<Rightarrow> (Status \<times> DistributedRegionNode \<times> 'w) option" where
  "dn_BroadcastCommit call commit_index raft n w =
     map_option (Pair Status_Ok)
       (broadcast_peers call (last_log_index raft + 1) commit_index (ri_peers (dn_region n)) n w)"

definition dn_ProposeAndReplicate ::
  "'w tcp \<Rightarrow> string \<Rightarrow> DistributedRegionNode \<Rightarrow> 'w \<Rightarrow> (Status \<times> DistributedRegionNode \<times> 'w) option" where
  "dn_ProposeAndReplicate call command n w =
     (case EnsureLeader call n w of
        None \<Rightarrow> None
      | Some (status, n1, w1) \<Rightarrow>
          if \<not> ok status then Some (status, n1, w1)
          else case dn_raft n1 of
                 None \<Rightarrow> None
               | Some raft \<Rightarrow>
          (case Propose kNormal command raft of
             Inl status \<Rightarrow> Some (status, n1, w1)
           | Inr (entry, raft1) \<Rightarrow>
               if \<not> dn_raft_storage n1 then None
               else
               let (status, e) = AppendLog file_kv_ops entry (dn_engine n1);
                   n2 = n1\<lparr>dn_raft := Some raft1, dn_engine := e\<rparr>
               in if \<not> ok status then Some (status, n2, w1)
                  else case replicate_peers call (le_index entry) (rn_commit_index raft1) (ri_peers (dn_region n2)) n2 w1 of
                         None \<Rightarrow> None
                       | Some (Inl status, n3, w3) \<Rightarrow> Some (status, n3, w3)
                       | Some (Inr replicated, n3, w3) \<Rightarrow>
                           if 1 + replicated \<le> length (ri_peers (dn_region n3)) div 2
                           then Some (Internal ''failed to replicate entry to majority'', n3, w3)
                           else
                             let raft2 = SetCommitIndex (le_index entry) raft1
                             in case dn_ApplyCommitted (n3\<lparr>dn_raft := Some raft2\<rparr>) of
                                  None \<Rightarrow> None
                                | Some (status, n4) \<Rightarrow>
                                    if \<not> ok status then Some (status, n4, w3)
                                    else
                                      let (status, n5) = dn_PersistHardState n4
                                      in if \<not> ok status then Some (status, n5, w3)
                                         else case dn_raft n5 of
                                                None \<Rightarrow> None
                                              | Some raft5 \<Rightarrow> dn_BroadcastCommit call (le_index entry) raft5 n5 w3))"

definition dn_Put :: "'w tcp \<Rightarrow> string \<Rightarrow> string \<Rightarrow> DistributedRegionNode \<Rightarrow> 'w \<Rightarrow> (Status \<times> DistributedRegionNode \<times> 'w) option" where
  "dn_Put call key v n w = dn_ProposeAndReplicate call (EncodePutCommand key v) n w"

definition dn_Delete :: "'w tcp \<Rightarrow> string \<Rightarrow> DistributedRegionNode \<Rightarrow> 'w \<Rightarrow> (Status \<times> DistributedRegionNode \<times> 'w) option" where
  "dn_Delete call key n w = dn_ProposeAndReplicate call (EncodeDeleteCommand key) n w"

definition dn_Batch :: "'w tcp \<Rightarrow> KvMutation list \<Rightarrow> DistributedRegionNode \<Rightarrow> 'w \<Rightarrow> (Status \<times> DistributedRegionNode \<times> 'w) option" where
  "dn_Batch call us n w =
     (if us = [] then Some (Status_Ok, n, w) else dn_ProposeAndReplicate call (EncodeBatchCommand us) n w)"

definition dn_TransferLeader :: "'w tcp \<Rightarrow> u64 \<Rightarrow> DistributedRegionNode \<Rightarrow> 'w \<Rightarrow> (Status \<times> DistributedRegionNode \<times> 'w) option" where
  "dn_TransferLeader call target_peer_id n w =
     (if target_peer_id \<noteq> pr_peer_id (dn_local_peer n)
      then Some (mk_status kNotLeader ''transfer request must be sent to target peer'', n, w)
      else EnsureLeader call (n\<lparr>dn_region := (dn_region n)\<lparr>ri_leader_peer_id := target_peer_id\<rparr>\<rparr>) w)"

end
