(* ===== verification/Distributed_Replication.thy ===== *)
theory Distributed_Replication
  imports Distributed_Region
begin

text \<open>
  What replication by RPC does to the logs of the peers. The locale \<open>raft_transport\<close> states what a
  leader relies on: an append request reaches the node of the store or is lost, and an answer that
  arrives is the answer of that node. Its lemmas follow a proposal through the loops of
  distributed_region_node.cpp.
\<close>

section \<open>Requests are slices of the leader's log\<close>

definition slice_request :: "u64 \<Rightarrow> u64 \<Rightarrow> LogEntry list \<Rightarrow> AppendEntriesRequest \<Rightarrow> bool" where
  "slice_request rid t L r \<longleftrightarrow> ae_region_id r = rid \<and> ae_term r = t \<and> unat (ae_prev_log_index r) \<le> length L \<and>
     ae_entries r = drop (unat (ae_prev_log_index r)) L \<and>
     ae_prev_log_term r = (if ae_prev_log_index r = 0 then 0 else le_term (L ! (unat (ae_prev_log_index r) - 1)))"

lemma filter_log_from:
  assumes "log_from rid k L"
  shows "filter (\<lambda>x. i \<le> le_index x) L = drop (unat i - Suc k) L"
  using assms
proof (induction L arbitrary: k)
  case (Cons x L)
  then have x: "unat (le_index x) = Suc k" and L: "log_from rid (Suc k) L" by simp_all
  show ?case
  proof (cases "unat i \<le> Suc k")
    case True
    then have "unat i - Suc (Suc k) = 0" by simp
    with True Cons.IH [OF L] x show ?thesis by (simp add: word_le_nat_alt)
  next
    case False
    then have "unat i - Suc k = Suc (unat i - Suc (Suc k))" by simp
    with False Cons.IH [OF L] x show ?thesis by (simp add: word_le_nat_alt)
  qed
qed simp

lemma replication_request_slice:
  assumes "log_from rid 0 (rn_log raft)" and "replication_request i c n raft = Some r"
  shows "slice_request (ri_region_id (dn_region n)) (rn_current_term raft) (rn_log raft) r \<and> ae_leader_commit r = c"
proof (cases "i = 0")
  case True
  then show ?thesis
    using assms filter_log_from [OF assms(1), of i]
    by (auto simp: replication_request_def slice_request_def Let_def)
next
  case False
  then show ?thesis
    using assms filter_log_from [OF assms(1), of i] unat_minus_one_pos [OF False]
    by (auto simp: replication_request_def slice_request_def Let_def split: if_splits)
qed

lemma log_from_drop: "log_from rid k L \<Longrightarrow> log_from rid (k + i) (drop i L)"
  by (auto simp: log_from_def)

lemma slice_request_wf: "log_from rid 0 L \<Longrightarrow> slice_request rid' t L r \<Longrightarrow> request_wf rid r"
  using log_from_drop [of rid 0 L "unat (ae_prev_log_index r)"] by (simp add: slice_request_def request_wf_def)

section \<open>A node that receives an append request\<close>

lemma dn_PersistHardState_frame [simp]:
  "dn_raft (snd (dn_PersistHardState n)) = dn_raft n" "dn_region (snd (dn_PersistHardState n)) = dn_region n"
  "dn_local_peer (snd (dn_PersistHardState n)) = dn_local_peer n" "dn_stores (snd (dn_PersistHardState n)) = dn_stores n"
  by (auto simp: dn_PersistHardState_def Let_def split: option.splits prod.splits)

lemma PersistLogFrom_frame:
  "PersistLogFrom i n = Some (st, n') \<Longrightarrow> dn_raft n' = dn_raft n \<and> dn_region n' = dn_region n \<and>
     dn_local_peer n' = dn_local_peer n \<and> dn_stores n' = dn_stores n"
  by (auto simp: PersistLogFrom_def Let_def split: option.splits prod.splits if_splits)

lemma dn_ApplyCommitted_raft:
  assumes "dn_ApplyCommitted n = Some (st, n')"
  obtains es q q' where "dn_raft n = Some q" and "TakeCommittedEntries q = Some (es, q')" and "dn_raft n' = Some q'"
    and "dn_region n' = dn_region n" and "dn_local_peer n' = dn_local_peer n" and "dn_stores n' = dn_stores n"
  using assms
  by (auto simp: dn_ApplyCommitted_def Let_def bind_eq_Some_conv split: option.splits prod.splits)

text \<open>The log, the term and the region of the raft node after the request are those of \<open>RaftNode\<close>.\<close>

lemma dn_append_raft:
  assumes "dn_HandleAppendEntries r n = Some (a, n')" and "dn_raft n = Some q"
  obtains q1 q' where "HandleAppendEntries r q = Some (a, q1)" and "dn_raft n' = Some q'"
    and "rn_log q' = rn_log q1" and "rn_current_term q' = rn_current_term q1" and "rn_region_id q' = rn_region_id q1"
    and "raft_wf q1 \<Longrightarrow> raft_wf q'"
proof -
  obtain q1 where q1: "HandleAppendEntries r q = Some (a, q1)"
    using assms by (auto simp: dn_HandleAppendEntries_def Let_def split: option.splits prod.splits if_splits)
  let ?n1 = "n\<lparr>dn_raft := Some q1\<rparr>"
  show thesis
  proof (cases "aer_success a")
    case False
    then have "n' = snd (dn_PersistHardState ?n1)"
      using assms q1 by (simp add: dn_HandleAppendEntries_def Let_def)
    then have "dn_raft n' = Some q1" by simp
    with q1 show thesis by (intro that [of q1 q1]) simp_all
  next
    case True
    let ?i = "if ae_entries r = [] then 0 else le_index (hd (ae_entries r))"
    let ?p = "if ?i \<noteq> 0 then map_option snd (PersistLogFrom ?i ?n1) else Some ?n1"
    have "(case ?p of None \<Rightarrow> None
        | Some n2 \<Rightarrow> map_option (\<lambda>(_, n3). (a, snd (dn_PersistHardState n3))) (dn_ApplyCommitted n2)) = Some (a, n')"
      using assms q1 True by (simp only: dn_HandleAppendEntries_def Let_def option.case prod.case if_True not_True_eq_False if_False)
    then obtain n2 where p: "?p = Some n2" and "map_option (\<lambda>(_, n3). (a, snd (dn_PersistHardState n3))) (dn_ApplyCommitted n2) = Some (a, n')"
      by (cases ?p) simp_all
    moreover have "dn_raft n2 = Some q1"
    proof (cases "?i = 0")
      case False
      then obtain st where "PersistLogFrom ?i ?n1 = Some (st, n2)" using p by auto
      then show ?thesis using PersistLogFrom_frame by fastforce
    qed (use p in auto)
    ultimately have n2: "dn_raft n2 = Some q1"
      "map_option (\<lambda>(_, n3). (a, snd (dn_PersistHardState n3))) (dn_ApplyCommitted n2) = Some (a, n')" by simp_all
    then obtain st n3 where n3: "dn_ApplyCommitted n2 = Some (st, n3)" "n' = snd (dn_PersistHardState n3)" by auto
    then obtain es q' where q': "TakeCommittedEntries q1 = Some (es, q')" "dn_raft n' = Some q'"
      using n2(1) by (auto elim: dn_ApplyCommitted_raft)
    show thesis
    proof (rule that [OF q1 q'(2)])
      show "raft_wf q'" if "raft_wf q1" using TakeCommittedEntries_wf [OF that] q'(1) by (metis option.inject prod.inject)
    qed (use TakeCommittedEntries_frame [OF q'(1)] in simp_all)
  qed
qed

text \<open>
  A follower that may be behind or ahead of the leader's log \<open>L\<close> but agrees with it wherever terms
  agree, and one that has acknowledged \<open>L\<close> in the leader's term \<open>t\<close>.
\<close>

definition follows :: "u64 \<Rightarrow> LogEntry list \<Rightarrow> DistributedRegionNode \<Rightarrow> bool" where
  "follows rid L n \<longleftrightarrow>
     (\<forall>q. dn_raft n = Some q \<longrightarrow> raft_wf q \<and> rn_region_id q = rid \<and> log_matching L (rn_log q))"

definition has_acked :: "u64 \<Rightarrow> u64 \<Rightarrow> LogEntry list \<Rightarrow> DistributedRegionNode \<Rightarrow> bool" where
  "has_acked rid t L n \<longleftrightarrow>
     (\<exists>q. dn_raft n = Some q \<and> raft_wf q \<and> rn_region_id q = rid \<and> rn_current_term q = t \<and> prefix L (rn_log q))"

text \<open>A peer that may know less or more than a leader, but nothing of the leader's term beyond its log.\<close>

definition behind_leader :: "RaftNode \<Rightarrow> DistributedRegionNode \<Rightarrow> bool" where
  "behind_leader raft n \<longleftrightarrow> follows (rn_region_id raft) (rn_log raft) n \<and>
     (\<forall>q. dn_raft n = Some q \<longrightarrow> (\<forall>y \<in> set (drop (length (rn_log raft)) (rn_log q)). le_term y \<noteq> rn_current_term raft))"

lemma log_matching_snoc:
  assumes "log_matching L F" and "\<forall>y \<in> set (drop (length L) F). le_term y \<noteq> le_term x"
  shows "log_matching (L @ [x]) F"
  unfolding log_matching_def
proof (intro allI impI)
  fix i
  assume i: "i < length (L @ [x]) \<and> i < length F \<and> le_term ((L @ [x]) ! i) = le_term (F ! i)"
  have "i \<noteq> length L"
  proof
    assume "i = length L"
    then have "F ! i \<in> set (drop (length L) F)" using i by (metis Cons_nth_drop_Suc list.set_intros(1))
    moreover have "le_term (F ! i) = le_term x" using i \<open>i = length L\<close> by simp
    ultimately show False using assms(2) by blast
  qed
  then have "i < length L" using i by simp
  then show "take (Suc i) (L @ [x]) = take (Suc i) F" using i assms(1) by (simp add: log_matching_def nth_append)
qed

lemma behind_leader_snoc:
  "behind_leader raft n \<Longrightarrow> le_term x = rn_current_term raft \<Longrightarrow> follows (rn_region_id raft) (rn_log raft @ [x]) n"
  unfolding behind_leader_def follows_def by (metis log_matching_snoc)

lemma slice_matches:
  assumes r: "slice_request rid' t L r" and m: "log_matching L (rn_log q)"
    and h: "HasLogAt (ae_prev_log_index r) (ae_prev_log_term r) q"
  shows "take (unat (ae_prev_log_index r)) (rn_log q) = take (unat (ae_prev_log_index r)) L"
proof (rule log_matching_upto [OF m HasLogAt_range [OF h]])
  show "unat (ae_prev_log_index r) \<le> length L" using r by (simp add: slice_request_def)
qed (use r h in \<open>auto simp: HasLogAt_def slice_request_def unat_eq_zero split: if_splits\<close>)

lemma append_slice:
  assumes L: "log_from rid 0 L" and r: "slice_request rid' t L r" and f: "follows rid L n"
    and step: "dn_HandleAppendEntries r n = Some (a, n')"
  shows "follows rid L n'" and "aer_success a \<Longrightarrow> has_acked rid t L n'"
proof -
  have "follows rid L n' \<and> (aer_success a \<longrightarrow> has_acked rid t L n')"
  proof (cases "dn_raft n")
    case None
    then show ?thesis using step by (auto simp: dn_HandleAppendEntries_def follows_def)
  next
    case (Some q)
    let ?p = "unat (ae_prev_log_index r)"
    have q: "raft_wf q" "rn_region_id q = rid" "log_matching L (rn_log q)" using f Some by (simp_all add: follows_def)
    obtain q1 q' where h: "HandleAppendEntries r q = Some (a, q1)" and q': "dn_raft n' = Some q'"
      "rn_log q' = rn_log q1" "rn_current_term q' = rn_current_term q1" "rn_region_id q' = rn_region_id q1"
      "raft_wf q1 \<Longrightarrow> raft_wf q'"
      using dn_append_raft [OF step Some] by metis
    have wf: "request_wf (rn_region_id q) r" using slice_request_wf [OF L r] q(2) by simp
    obtain b q2 where "HandleAppendEntries r q = Some (b, q2)" "raft_wf q2" "rn_region_id q2 = rn_region_id q"
      by (rule HandleAppendEntries_wf [OF q(1) wf])
    then have q1: "raft_wf q1" "rn_region_id q1 = rid" using h q(2) by simp_all
    consider (stale) "ae_term r < rn_current_term q"
      | (mismatch) "\<not> ae_term r < rn_current_term q" "\<not> HasLogAt (ae_prev_log_index r) (ae_prev_log_term r) q"
      | (match) "\<not> ae_term r < rn_current_term q" "HasLogAt (ae_prev_log_index r) (ae_prev_log_term r) q"
      by blast
    then show ?thesis
    proof cases
      case stale
      then show ?thesis using h q q' by (auto simp: HandleAppendEntries_stale follows_def)
    next
      case mismatch
      then have "rn_log q1 = rn_log q" "\<not> aer_success a"
        using h HandleAppendEntries_mismatch [OF mismatch] by (metis option.inject prod.inject)+
      then show ?thesis using q q' q1 by (auto simp: follows_def)
    next
      case match
      have p: "?p \<le> length (rn_log q)" "?p \<le> length L" "ae_entries r = take (length L) (drop ?p L)"
        using HasLogAt_range [OF match(2)] r by (simp_all add: slice_request_def)
      have "rn_log q1 = take ?p (rn_log q) @ merge_log (drop ?p (rn_log q)) (ae_entries r)" "rn_current_term q1 = ae_term r"
        using h HandleAppendEntries_match [OF q(1) wf match] by (metis option.inject prod.inject)+
      with merge_from_leader [OF q(3) slice_matches [OF r q(3) match(2)] p]
      have "take (?p + length (ae_entries r)) (rn_log q1) = take (?p + length (ae_entries r)) L" "log_matching L (rn_log q1)"
        by simp_all
      moreover have "?p + length (ae_entries r) = length L" using p r by (simp add: slice_request_def)
      ultimately have "prefix L (rn_log q1)" "log_matching L (rn_log q1)" by (metis take_is_prefix take_all order_refl)+
      moreover have "rn_current_term q1 = t" using \<open>rn_current_term q1 = ae_term r\<close> r by (simp add: slice_request_def)
      ultimately show ?thesis using q' q1 by (auto simp: follows_def has_acked_def)
    qed
  qed
  then show "follows rid L n'" and "aer_success a \<Longrightarrow> has_acked rid t L n'" by simp_all
qed

text \<open>The broadcast of a commit index to a peer that has the whole log.\<close>

lemma append_nothing:
  assumes f: "has_acked rid t L n" and r: "ae_term r = t" "ae_entries r = []"
    "unat (ae_prev_log_index r) = length L" "ae_prev_log_term r = (if L = [] then 0 else le_term (last L))"
  obtains a n' where "dn_HandleAppendEntries r n = Some (a, n')" and "aer_success a" and "has_acked rid t L n'"
proof -
  obtain q where q: "dn_raft n = Some q" "raft_wf q" "rn_region_id q = rid" "rn_current_term q = t" "prefix L (rn_log q)"
    using f by (auto simp: has_acked_def)
  obtain M where M: "rn_log q = L @ M" using q(5) by (auto simp: prefix_def)
  have h: "HasLogAt (ae_prev_log_index r) (ae_prev_log_term r) q"
    using r(3,4) M by (auto simp: HasLogAt_def last_conv_nth nth_append unat_eq_0)
  have wf: "request_wf (rn_region_id q) r" using r(2) by (simp add: request_wf_def)
  have nt: "\<not> ae_term r < rn_current_term q" using q(4) r(1) by simp
  obtain a q1 where q1: "HandleAppendEntries r q = Some (a, q1)" "aer_success a" "raft_wf q1" "rn_region_id q1 = rid"
    "rn_current_term q1 = t" "rn_log q1 = rn_log q"
    using HandleAppendEntries_match [OF q(2) wf nt h] q(3) r(1,2) by (metis append_take_drop_id merge_log.simps(1))
  let ?n1 = "n\<lparr>dn_raft := Some q1\<rparr>"
  obtain es q2 where q2: "TakeCommittedEntries q1 = Some (es, q2)" "raft_wf q2" by (rule TakeCommittedEntries_wf [OF q1(3)])
  obtain st e where e: "apply_entries es (dn_engine n) = (st, e)" by fastforce
  let ?n2 = "?n1\<lparr>dn_raft := Some q2, dn_engine := e\<rparr>"
  have "dn_HandleAppendEntries r n = Some (a, snd (dn_PersistHardState ?n2))"
    using q(1) q1(1,2) q2(1) e r(2) by (simp add: dn_HandleAppendEntries_def dn_ApplyCommitted_def Let_def)
  moreover have "has_acked rid t L (snd (dn_PersistHardState ?n2))"
    using q2 q1 q(5) TakeCommittedEntries_frame [OF q2(1)] by (simp add: has_acked_def)
  ultimately show thesis using q1(2) that by blast
qed

section \<open>Replication over a transport\<close>

lemma map_sum_InrE: "map_sum f g s = Inr y \<Longrightarrow> (\<And>x. s = Inr x \<Longrightarrow> y = g x \<Longrightarrow> P) \<Longrightarrow> P"
  by (cases s) auto

text \<open>Calling other stores changes nothing of a node but the number of its next request.\<close>

definition same_node :: "DistributedRegionNode \<Rightarrow> DistributedRegionNode \<Rightarrow> bool" where
  "same_node n n' \<longleftrightarrow> n' = n\<lparr>dn_next_request_id := dn_next_request_id n'\<rparr>"

lemma same_node_refl [simp]: "same_node n n"
  by (simp add: same_node_def)

lemma same_node_trans: "same_node a b \<Longrightarrow> same_node b c \<Longrightarrow> same_node a c"
  unfolding same_node_def by (metis DistributedRegionNode.update_convs(8) DistributedRegionNode.cases_scheme)

lemma same_node_sel:
  assumes "same_node n n'"
  shows "dn_local_store n' = dn_local_store n" "dn_stores n' = dn_stores n" "dn_region n' = dn_region n"
    "dn_local_peer n' = dn_local_peer n" "dn_raft n' = dn_raft n" "dn_engine n' = dn_engine n"
    "dn_raft_storage n' = dn_raft_storage n"
  using assms unfolding same_node_def by (cases n; cases n'; simp)+

lemma dn_CallStore_same: "dn_CallStore call store m f n w = (resp, n', w') \<Longrightarrow> same_node n n'"
  by (auto simp: dn_CallStore_def same_node_def Let_def split: prod.splits)

lemma replication_request_same: "same_node n n' \<Longrightarrow> replication_request i c n' raft = replication_request i c n raft"
  by (simp add: replication_request_def same_node_sel Let_def)

lemma DecodeFields_not_ok: "DecodeFields p = Inl st \<Longrightarrow> \<not> ok st"
proof -
  have "decode_lines ls f = Inl st \<Longrightarrow> \<not> ok st" for ls f
    by (induction ls arbitrary: f) (auto dest: HexDecode_not_ok split: if_splits sum.splits)
  then show "DecodeFields p = Inl st \<Longrightarrow> \<not> ok st" by (simp add: DecodeFields_def)
qed

lemma replicate_attempts_not_ok: "replicate_attempts call k store i c raft n w = Some (Inl st, n', w') \<Longrightarrow> \<not> ok st"
  by (induction k arbitrary: i n w)
     (auto simp: Let_def dest: DecodeFields_not_ok split: option.splits prod.splits if_splits sum.splits)

lemma replicate_peers_not_ok: "replicate_peers call i c ps n w = Some (Inl st, n', w') \<Longrightarrow> \<not> ok st"
proof (induction ps arbitrary: n w)
  case (Cons p ps)
  have "map_sum id f r = Inl s \<longleftrightarrow> r = Inl s" for f :: "nat \<Rightarrow> nat" and r and s :: Status by (cases r) auto
  with Cons show ?case
    using replicate_attempts_not_ok [of call 8]
    by (fastforce simp: ReplicateToStore_def split: option.splits if_splits sum.splits)
qed simp

lemma dn_ProposeAndReplicate_ok:
  assumes run: "dn_ProposeAndReplicate call cmd n w = Some (st, n', w')" "ok st"
    and lead: "EnsureLeader call n w = Some (Status_Ok, n1, w1)" "dn_raft n1 = Some raft"
      "Propose kNormal cmd raft = Inr (x, raft1)"
  obtains e1 k n3 w3 s4 n4 n5 raft5 where
    "replicate_peers call (le_index x) (rn_commit_index raft1) (ri_peers (dn_region n1))
       (n1\<lparr>dn_raft := Some raft1, dn_engine := e1\<rparr>) w1 = Some (Inr k, n3, w3)"
    and "length (ri_peers (dn_region n3)) div 2 < 1 + k"
    and "dn_ApplyCommitted (n3\<lparr>dn_raft := Some (SetCommitIndex (le_index x) raft1)\<rparr>) = Some (s4, n4)" and "ok s4"
    and "n5 = snd (dn_PersistHardState n4)" and "dn_raft n5 = Some raft5"
    and "dn_BroadcastCommit call (le_index x) raft5 n5 w3 = Some (st, n', w')"
proof -
  obtain s1 e1 where ap: "AppendLog file_kv_ops x (dn_engine n1) = (s1, e1)" by fastforce
  let ?n2 = "n1\<lparr>dn_raft := Some raft1, dn_engine := e1\<rparr>"
  let ?rp = "replicate_peers call (le_index x) (rn_commit_index raft1) (ri_peers (dn_region n1)) ?n2 w1"
  have storage: "dn_raft_storage n1"
    by (rule ccontr) (use run lead in \<open>simp add: dn_ProposeAndReplicate_def\<close>)
  note defs = dn_ProposeAndReplicate_def Let_def
  have "ok s1" by (rule ccontr) (use run lead ap storage in \<open>simp add: defs\<close>)
  note u = run lead ap storage this
  obtain res n3 w3 where rp: "?rp = Some (res, n3, w3)" using u by (cases ?rp) (auto simp: defs)
  obtain k where k: "res = Inr k" using u rp replicate_peers_not_ok by (cases res) (fastforce simp: defs)+
  note u = u rp k
  have maj: "length (ri_peers (dn_region n3)) div 2 < 1 + k" by (rule ccontr) (use u in \<open>auto simp: defs\<close>)
  let ?ac = "dn_ApplyCommitted (n3\<lparr>dn_raft := Some (SetCommitIndex (le_index x) raft1)\<rparr>)"
  obtain s4 n4 where ac: "?ac = Some (s4, n4)" using u maj by (cases ?ac) (auto simp: defs)
  have s4: "ok s4" by (rule ccontr) (use u maj ac in \<open>simp add: defs\<close>)
  obtain s5 n5 where hs: "dn_PersistHardState n4 = (s5, n5)" by fastforce
  have s5: "ok s5" by (rule ccontr) (use u maj ac s4 hs in \<open>simp add: defs\<close>)
  obtain raft5 where raft5: "dn_raft n5 = Some raft5" using u maj ac s4 hs s5 by (cases "dn_raft n5") (auto simp: defs)
  then have "dn_BroadcastCommit call (le_index x) raft5 n5 w3 = Some (st, n', w')"
    using u maj ac s4 hs s5 by (simp add: defs)
  with that [OF rp [unfolded k] maj ac s4 _ raft5] hs show thesis by simp
qed

definition peer_endpoint :: "DistributedRegionNode \<Rightarrow> Peer \<Rightarrow> Endpoint option" where
  "peer_endpoint n p =
     (if pr_peer_id p = pr_peer_id (dn_local_peer n) then None
      else map_option si_client_endpoint (FindStoreByPeer (pr_peer_id p) n))"

lemma peer_endpoint_same: "same_node n n' \<Longrightarrow> peer_endpoint n' = peer_endpoint n"
  by (auto simp: peer_endpoint_def FindStoreByPeer_def same_node_sel fun_eq_iff split: option.splits)

locale raft_transport =
  fixes call :: "'w tcp" and node_at :: "'w \<Rightarrow> Endpoint \<Rightarrow> u64 \<Rightarrow> DistributedRegionNode option"
  assumes elsewhere: "call ep req w = (resp, w') \<Longrightarrow> ep' \<noteq> ep \<Longrightarrow> node_at w' ep' i = node_at w ep' i"
    and append_answer:
      "call ep req w = (resp, w') \<Longrightarrow> rq_method req = ''store.RaftAppendEntries'' \<Longrightarrow>
       rq_payload req = EncodeFields (PutAppendEntriesFields fmempty r) \<Longrightarrow> length (ae_entries r) < 2 ^ 64 \<Longrightarrow> rs_ok resp \<Longrightarrow>
       \<exists>a. rs_payload resp = EncodeFields (PutAppendEntriesResponseFields fmempty a) \<and>
         (case node_at w ep (ae_region_id r) of
            None \<Rightarrow> \<not> aer_success a \<and> node_at w' ep (ae_region_id r) = None
          | Some n \<Rightarrow> (\<exists>n'. dn_HandleAppendEntries r n = Some (a, n') \<and> node_at w' ep (ae_region_id r) = Some n'))"
    and append_lost:
      "call ep req w = (resp, w') \<Longrightarrow> rq_method req = ''store.RaftAppendEntries'' \<Longrightarrow>
       rq_payload req = EncodeFields (PutAppendEntriesFields fmempty r) \<Longrightarrow> length (ae_entries r) < 2 ^ 64 \<Longrightarrow> \<not> rs_ok resp \<Longrightarrow>
       node_at w' ep (ae_region_id r) = node_at w ep (ae_region_id r) \<or>
       (\<exists>n. node_at w ep (ae_region_id r) = Some n \<and>
          node_at w' ep (ae_region_id r) = map_option snd (dn_HandleAppendEntries r n))"
begin

definition all_follow :: "u64 \<Rightarrow> LogEntry list \<Rightarrow> 'w \<Rightarrow> bool" where
  "all_follow rid L w \<longleftrightarrow> (\<forall>ep n. node_at w ep rid = Some n \<longrightarrow> follows rid L n)"

definition acked :: "u64 \<Rightarrow> u64 \<Rightarrow> LogEntry list \<Rightarrow> 'w \<Rightarrow> Endpoint \<Rightarrow> bool" where
  "acked rid t L w ep \<longleftrightarrow> (\<exists>n. node_at w ep rid = Some n \<and> has_acked rid t L n)"

text \<open>One call.\<close>

lemma append_call:
  assumes c: "dn_CallStore call store ''store.RaftAppendEntries'' (PutAppendEntriesFields fmempty r) n w = (resp, n', w')"
    and L: "log_from rid 0 L" "length L < 2 ^ 64" and r: "slice_request rid t L r" and f: "all_follow rid L w"
  shows "all_follow rid L w'"
    and "rs_ok resp \<Longrightarrow> \<exists>a. rs_payload resp = EncodeFields (PutAppendEntriesResponseFields fmempty a) \<and>
           (aer_success a \<longrightarrow> acked rid t L w' (si_client_endpoint store))"
proof -
  let ?ep = "si_client_endpoint store"
  obtain req where req: "call ?ep req w = (resp, w')" "rq_method req = ''store.RaftAppendEntries''"
    "rq_payload req = EncodeFields (PutAppendEntriesFields fmempty r)"
    using c by (force simp: dn_CallStore_def Let_def split: prod.splits)
  have len: "length (ae_entries r) < 2 ^ 64" and rid: "ae_region_id r = rid"
    using r L(2) by (simp_all add: slice_request_def)
  have step: "follows rid L n2" "aer_success a \<Longrightarrow> has_acked rid t L n2"
    if "node_at w ?ep rid = Some n1" "dn_HandleAppendEntries r n1 = Some (a, n2)" for n1 n2 a
    using append_slice [OF L(1) r _ that(2)] f that(1) by (auto simp: all_follow_def)
  have at: "follows rid L m" if "node_at w' ?ep rid = Some m" for m
  proof (cases "rs_ok resp")
    case True
    then show ?thesis
      using append_answer [OF req len True] that step rid by (auto split: option.splits)
  next
    case False
    then show ?thesis
      using append_lost [OF req len False] that step rid f by (fastforce simp: all_follow_def)
  qed
  show "all_follow rid L w'"
    unfolding all_follow_def
  proof (intro allI impI)
    fix ep m
    assume m: "node_at w' ep rid = Some m"
    show "follows rid L m"
    proof (cases "ep = ?ep")
      case False
      then show ?thesis using elsewhere [OF req(1) False, of rid] m f by (simp add: all_follow_def)
    qed (use m at in simp)
  qed
  show "\<exists>a. rs_payload resp = EncodeFields (PutAppendEntriesResponseFields fmempty a) \<and>
           (aer_success a \<longrightarrow> acked rid t L w' ?ep)" if "rs_ok resp"
    using append_answer [OF req len that] step rid by (fastforce simp: acked_def split: option.splits)
qed

lemma call_elsewhere:
  "dn_CallStore call store m f n w = (resp, n', w') \<Longrightarrow> ep \<noteq> si_client_endpoint store \<Longrightarrow> node_at w' ep i = node_at w ep i"
  using elsewhere by (auto simp: dn_CallStore_def Let_def split: prod.splits)

text \<open>The attempts on one store.\<close>

lemma attempts_frame:
  assumes "replicate_attempts call k store i c raft n w = Some (res, n', w')"
  shows "same_node n n' \<and> (\<forall>ep. ep \<noteq> si_client_endpoint store \<longrightarrow> (\<forall>j. node_at w' ep j = node_at w ep j))"
  using assms
proof (induction k arbitrary: i n w)
  case (Suc k)
  then obtain r resp n1 w1 where
    r: "replication_request i c n raft = Some r"
    and cl: "dn_CallStore call store ''store.RaftAppendEntries'' (PutAppendEntriesFields fmempty r) n w = (resp, n1, w1)"
    by (auto split: option.splits prod.splits)
  note f1 = dn_CallStore_same [OF cl] call_elsewhere [OF cl]
  have "(n', w') = (n1, w1) \<or> (\<exists>j. replicate_attempts call k store j c raft n1 w1 = Some (res, n', w'))"
    using Suc.prems r cl by (auto simp: Let_def split: if_splits sum.splits option.splits)
  then show ?case using f1 Suc.IH same_node_trans by fastforce
qed simp

lemma attempts_follow:
  assumes "replicate_attempts call k store i c raft n w = Some (res, n', w')"
    and "log_from rid 0 (rn_log raft)" and "length (rn_log raft) < 2 ^ 64" and "ri_region_id (dn_region n) = rid"
    and "all_follow rid (rn_log raft) w"
  shows "all_follow rid (rn_log raft) w' \<and>
    (res = Inr True \<longrightarrow> acked rid (rn_current_term raft) (rn_log raft) w' (si_client_endpoint store))"
  using assms(1,4,5)
proof (induction k arbitrary: i n w)
  case (Suc k)
  let ?L = "rn_log raft" and ?t = "rn_current_term raft"
  obtain r resp n1 w1 where
    r: "replication_request i c n raft = Some r"
    and cl: "dn_CallStore call store ''store.RaftAppendEntries'' (PutAppendEntriesFields fmempty r) n w = (resp, n1, w1)"
    using Suc.prems(1) by (auto split: option.splits prod.splits)
  have sl: "slice_request rid ?t ?L r" using replication_request_slice [OF assms(2) r] Suc.prems(2) by simp
  note call1 = append_call [OF cl assms(2,3) sl Suc.prems(3)]
  have n1: "ri_region_id (dn_region n1) = rid" using same_node_sel(3) [OF dn_CallStore_same [OF cl]] Suc.prems(2) by simp
  consider (lost) "\<not> rs_ok resp" "res = Inr False" "w' = w1"
    | (answered) a where "rs_ok resp" "rs_payload resp = EncodeFields (PutAppendEntriesResponseFields fmempty a)"
        "aer_success a \<longrightarrow> acked rid ?t ?L w1 (si_client_endpoint store)"
    using Suc.prems(1) r cl call1(2) by (cases "rs_ok resp") auto
  then show ?case
  proof cases
    case lost
    then show ?thesis using call1(1) by simp
  next
    case answered
    have dec: "DecodeFields (rs_payload resp) = Inr (PutAppendEntriesResponseFields fmempty a)"
      using answered(2) by (simp add: decode_encode_fields)
    show ?thesis
    proof (cases "aer_success a")
      case True
      then show ?thesis using Suc.prems(1) r cl answered dec call1(1) by (auto simp: get_put_append_response)
    next
      case False
      then have "replicate_attempts call k store (if aer_match_index a = 0 then 1 else aer_match_index a) c raft n1 w1 = Some (res, n', w')"
        using Suc.prems(1) r cl answered dec by (auto simp: get_put_append_response)
      then show ?thesis using Suc.IH n1 call1(1) by blast
    qed
  qed
qed auto

text \<open>The loop over the peers counts no store that does not hold the log.\<close>

lemma replicate_peers_frame:
  assumes "replicate_peers call i c peers n w = Some (res, n', w')"
  shows "same_node n n' \<and> (\<forall>ep. ep \<notin> set (List.map_filter (peer_endpoint n) peers) \<longrightarrow> (\<forall>j. node_at w' ep j = node_at w ep j))"
  using assms
proof (induction peers arbitrary: n w res)
  case (Cons p peers)
  show ?case
  proof (cases "peer_endpoint n p")
    case None
    then have "replicate_peers call i c peers n w = Some (res, n', w')"
      using Cons.prems by (auto simp: peer_endpoint_def split: if_splits option.splits)
    from Cons.IH [OF this] None show ?thesis by (simp add: List.map_filter_simps)
  next
    case (Some ep)
    then obtain store where st: "FindStoreByPeer (pr_peer_id p) n = Some store" "ep = si_client_endpoint store"
      "pr_peer_id p \<noteq> pr_peer_id (dn_local_peer n)"
      by (auto simp: peer_endpoint_def split: if_splits)
    then obtain res1 n1 w1 where r1: "ReplicateToStore call store i c n w = Some (res1, n1, w1)"
      using Cons.prems by (auto split: option.splits)
    then have f1: "same_node n n1" "\<forall>ep. ep \<noteq> si_client_endpoint store \<longrightarrow> (\<forall>j. node_at w1 ep j = node_at w ep j)"
      using attempts_frame by (auto simp: ReplicateToStore_def split: option.splits)
    show ?thesis
    proof (cases res1)
      case (Inl status)
      then have "n' = n1" "w' = w1" using Cons.prems st r1 by auto
      then show ?thesis using f1 Some st by (simp add: List.map_filter_simps)
    next
      case (Inr b)
      then obtain res2 where "replicate_peers call i c peers n1 w1 = Some (res2, n', w')"
        using Cons.prems st r1 by (auto split: option.splits)
      from Cons.IH [OF this] f1 Some st show ?thesis
        by (auto simp: List.map_filter_simps peer_endpoint_same intro: same_node_trans)
    qed
  qed
qed (simp add: List.map_filter_simps)

lemma replicate_peers_acked:
  assumes "replicate_peers call i c peers n w = Some (Inr k, n', w')" and "dn_raft n = Some raft"
    and "log_from rid 0 (rn_log raft)" and "length (rn_log raft) < 2 ^ 64" and "ri_region_id (dn_region n) = rid"
    and "all_follow rid (rn_log raft) w" and "distinct (List.map_filter (peer_endpoint n) peers)"
  shows "k \<le> length (filter (acked rid (rn_current_term raft) (rn_log raft) w') (List.map_filter (peer_endpoint n) peers))"
  using assms(1,2,5-7)
proof (induction peers arbitrary: n w k)
  case (Cons p peers)
  show ?case
  proof (cases "peer_endpoint n p")
    case None
    then have "replicate_peers call i c peers n w = Some (Inr k, n', w')"
      using Cons.prems(1) by (auto simp: peer_endpoint_def split: if_splits option.splits)
    from Cons.IH [OF this] None Cons.prems show ?thesis by (simp add: List.map_filter_simps)
  next
    case (Some ep)
    then obtain store where st: "FindStoreByPeer (pr_peer_id p) n = Some store" "ep = si_client_endpoint store"
      "pr_peer_id p \<noteq> pr_peer_id (dn_local_peer n)"
      by (auto simp: peer_endpoint_def split: if_splits)
    then obtain b n1 w1 k1 where r1: "ReplicateToStore call store i c n w = Some (Inr b, n1, w1)"
      and rest: "replicate_peers call i c peers n1 w1 = Some (Inr k1, n', w')" and k: "k = (if b then 1 else 0) + k1"
      using Cons.prems(1) by (auto split: option.splits sum.splits elim!: map_sum_InrE)
    have at: "replicate_attempts call 8 store i c raft n w = Some (Inr b, n1, w1)"
      using r1 Cons.prems(2) by (simp add: ReplicateToStore_def)
    note f1 = attempts_frame [OF at, THEN conjunct1]
      and w1 = attempts_follow [OF at assms(3,4) Cons.prems(3,4)]
    have n1: "dn_raft n1 = Some raft" "ri_region_id (dn_region n1) = rid" "peer_endpoint n1 = peer_endpoint n"
      using same_node_sel [OF f1] Cons.prems(2,3) peer_endpoint_same [OF f1] by simp_all
    have d: "distinct (List.map_filter (peer_endpoint n1) peers)" "ep \<notin> set (List.map_filter (peer_endpoint n1) peers)"
      using Cons.prems(5) Some n1(3) by (simp_all add: List.map_filter_simps)
    have "k1 \<le> length (filter (acked rid (rn_current_term raft) (rn_log raft) w') (List.map_filter (peer_endpoint n) peers))"
      using Cons.IH [OF rest n1(1,2) _ d(1)] w1 n1(3) by simp
    moreover have "acked rid (rn_current_term raft) (rn_log raft) w' ep" if b
      using w1 that replicate_peers_frame [OF rest] d(2) st(2) by (simp add: acked_def)
    ultimately show ?thesis using Some k by (simp add: List.map_filter_simps)
  qed
qed (simp add: List.map_filter_simps)

text \<open>The broadcast of the commit index keeps what the peers have acknowledged.\<close>

lemma commit_request_at_end:
  assumes "log_from rid 0 (rn_log raft)" and "Suc (length (rn_log raft)) < 2 ^ 64"
  obtains r where "replication_request (last_log_index raft + 1) c n raft = Some r" and "ae_term r = rn_current_term raft"
    and "ae_entries r = []" and "unat (ae_prev_log_index r) = length (rn_log raft)"
    and "ae_prev_log_term r = (if rn_log raft = [] then 0 else le_term (last (rn_log raft)))"
    and "ae_region_id r = ri_region_id (dn_region n)"
proof -
  have l: "unat (last_log_index raft) = length (rn_log raft)" by (rule unat_last_log_index [OF assms(1)])
  then have s: "unat (last_log_index raft + 1) = Suc (length (rn_log raft))" using assms(2) by (simp add: unat_Suc_bound)
  then have nz: "last_log_index raft + 1 \<noteq> 0" by auto
  have e: "last_log_index raft = 0 \<longleftrightarrow> rn_log raft = []" using l by (auto simp: unat_eq_0)
  have "\<exists>r. replication_request (last_log_index raft + 1) c n raft = Some r"
    using l nz by (simp add: replication_request_def Let_def)
  then obtain r where r: "replication_request (last_log_index raft + 1) c n raft = Some r" by blast
  from replication_request_slice [OF assms(1) r]
  have sl: "slice_request (ri_region_id (dn_region n)) (rn_current_term raft) (rn_log raft) r" ..
  have p: "ae_prev_log_index r = last_log_index raft" using r nz by (auto simp: replication_request_def Let_def split: if_splits)
  show thesis
    using sl l p e by (intro that [OF r]) (auto simp: slice_request_def last_conv_nth)
qed

lemma commit_call_acked:
  assumes a: "acked rid t L w (si_client_endpoint store)" and r: "ae_term r = t" "ae_entries r = []"
    "unat (ae_prev_log_index r) = length L" "ae_prev_log_term r = (if L = [] then 0 else le_term (last L))"
    "ae_region_id r = rid"
    and c: "dn_CallStore call store ''store.RaftAppendEntries'' (PutAppendEntriesFields fmempty r) n w = (resp, n', w')"
  shows "acked rid t L w' (si_client_endpoint store)"
    and "rs_ok resp \<Longrightarrow> \<exists>b. rs_payload resp = EncodeFields (PutAppendEntriesResponseFields fmempty b) \<and> aer_success b"
proof -
  let ?ep = "si_client_endpoint store"
  obtain req where req: "call ?ep req w = (resp, w')" "rq_method req = ''store.RaftAppendEntries''"
    "rq_payload req = EncodeFields (PutAppendEntriesFields fmempty r)"
    using c by (force simp: dn_CallStore_def Let_def split: prod.splits)
  have len: "length (ae_entries r) < 2 ^ 64" using r(2) by simp
  obtain m where m: "node_at w ?ep rid = Some m" "has_acked rid t L m" using a by (auto simp: acked_def)
  obtain b m' where step: "dn_HandleAppendEntries r m = Some (b, m')" "aer_success b" "has_acked rid t L m'"
    by (rule append_nothing [OF m(2) r(1-4)])
  show "acked rid t L w' ?ep"
  proof (cases "rs_ok resp")
    case True
    then show ?thesis using append_answer [OF req len True] m step r(5) by (auto simp: acked_def)
  next
    case False
    then show ?thesis using append_lost [OF req len False] m step r(5) by (auto simp: acked_def)
  qed
  show "\<exists>b. rs_payload resp = EncodeFields (PutAppendEntriesResponseFields fmempty b) \<and> aer_success b" if "rs_ok resp"
    using append_answer [OF req len that] m step r(5) by auto
qed

lemma broadcast_attempts_acked:
  assumes at: "replicate_attempts call (Suc k) store (last_log_index raft + 1) c raft n w = Some (res, n', w')"
    and L: "log_from rid 0 (rn_log raft)" "Suc (length (rn_log raft)) < 2 ^ 64" "ri_region_id (dn_region n) = rid"
    and a: "acked rid (rn_current_term raft) (rn_log raft) w ep"
  shows "acked rid (rn_current_term raft) (rn_log raft) w' ep"
proof (cases "ep = si_client_endpoint store")
  case True
  obtain r where r: "replication_request (last_log_index raft + 1) c n raft = Some r" "ae_term r = rn_current_term raft"
    "ae_entries r = []" "unat (ae_prev_log_index r) = length (rn_log raft)"
    "ae_prev_log_term r = (if rn_log raft = [] then 0 else le_term (last (rn_log raft)))" "ae_region_id r = rid"
    using commit_request_at_end [OF L(1,2)] L(3) by metis
  obtain resp n1 w1 where cl: "dn_CallStore call store ''store.RaftAppendEntries'' (PutAppendEntriesFields fmempty r) n w = (resp, n1, w1)"
    by (metis prod_cases3)
  note c1 = commit_call_acked [OF a [unfolded True] r(2-6) cl]
  have "w' = w1"
  proof (cases "rs_ok resp")
    case True
    from c1(2) [OF True] obtain b where "rs_payload resp = EncodeFields (PutAppendEntriesResponseFields fmempty b)" "aer_success b"
      by blast
    then show ?thesis using at r(1) cl True by (simp add: decode_encode_fields get_put_append_response)
  qed (use at r(1) cl in simp)
  with c1(1) True show ?thesis by simp
next
  case False
  then show ?thesis using attempts_frame [OF at] a by (simp add: acked_def)
qed

lemma broadcast_same: "broadcast_peers call i c peers n w = Some (n', w') \<Longrightarrow> same_node n n'"
proof (induction peers arbitrary: n w)
  case (Cons p peers)
  show ?case
  proof (cases "peer_endpoint n p")
    case None
    then show ?thesis using Cons by (auto simp: peer_endpoint_def split: if_splits option.splits)
  next
    case (Some ep)
    then obtain store res n1 w1 where at: "ReplicateToStore call store i c n w = Some (res, n1, w1)"
      and rest: "broadcast_peers call i c peers n1 w1 = Some (n', w')"
      using Cons.prems by (auto simp: peer_endpoint_def split: if_splits option.splits)
    have "same_node n n1" using at attempts_frame by (auto simp: ReplicateToStore_def split: option.splits)
    with Cons.IH [OF rest] show ?thesis by (blast intro: same_node_trans)
  qed
qed simp

lemma broadcast_acked:
  assumes "broadcast_peers call (last_log_index raft + 1) c peers n w = Some (n', w')" and "dn_raft n = Some raft"
    and "log_from rid 0 (rn_log raft)" "Suc (length (rn_log raft)) < 2 ^ 64" "ri_region_id (dn_region n) = rid"
    and "acked rid (rn_current_term raft) (rn_log raft) w ep"
  shows "acked rid (rn_current_term raft) (rn_log raft) w' ep"
  using assms(1,2,5,6)
proof (induction peers arbitrary: n w)
  case (Cons p peers)
  show ?case
  proof (cases "peer_endpoint n p")
    case None
    then have "broadcast_peers call (last_log_index raft + 1) c peers n w = Some (n', w')"
      using Cons.prems(1) by (auto simp: peer_endpoint_def split: if_splits option.splits)
    then show ?thesis using Cons by blast
  next
    case (Some ep')
    then obtain store res n1 w1 where at: "replicate_attempts call 8 store (last_log_index raft + 1) c raft n w = Some (res, n1, w1)"
      and rest: "broadcast_peers call (last_log_index raft + 1) c peers n1 w1 = Some (n', w')"
      using Cons.prems(1,2) by (auto simp: peer_endpoint_def ReplicateToStore_def split: if_splits option.splits)
    have f: "same_node n n1" using attempts_frame [OF at] ..
    have "acked rid (rn_current_term raft) (rn_log raft) w1 ep"
      using broadcast_attempts_acked [OF at [unfolded eval_nat_numeral BitM.simps] assms(3,4) Cons.prems(3,4)] .
    from Cons.IH [OF rest _ _ this] f Cons.prems(2,3) show ?thesis
      by (simp add: same_node_sel)
  qed
qed simp

lemma acknowledged_write:
  assumes run: "dn_ProposeAndReplicate call cmd n w = Some (st, n', w')" "ok st"
    and raft: "dn_raft n = Some raft" "rn_role raft = kLeader" "raft_wf raft" "length (rn_log raft) + 2 < 2 ^ 64"
      "ri_region_id (dn_region n) = rn_region_id raft"
    and f: "\<And>ep m. node_at w ep (rn_region_id raft) = Some m \<Longrightarrow> behind_leader raft m"
    and d: "distinct (List.map_filter (peer_endpoint n) (ri_peers (dn_region n)))"
  obtains x raft' where "le_command x = cmd" and "le_term x = rn_current_term raft" and "dn_raft n' = Some raft'"
    and "rn_log raft' = rn_log raft @ [x]" and "rn_last_applied raft' = le_index x"
    and "length (ri_peers (dn_region n)) < 2 * (1 + length (filter
           (acked (rn_region_id raft) (rn_current_term raft) (rn_log raft @ [x]) w')
           (List.map_filter (peer_endpoint n) (ri_peers (dn_region n)))))"
proof -
  let ?rid = "rn_region_id raft" and ?t = "rn_current_term raft" and ?peers = "ri_peers (dn_region n)"
  define x where "x = \<lparr>le_region_id = ?rid, le_index = last_log_index raft + 1, le_term = ?t, le_type = kNormal, le_command = cmd\<rparr>"
  let ?raft1 = "push_entry x raft" and ?L = "rn_log raft @ [x]"
  have lead: "EnsureLeader call n w = Some (Status_Ok, n, w)" using raft by (simp add: EnsureLeader_def)
  have pr: "Propose kNormal cmd raft = Inr (x, ?raft1)" using raft(2) by (simp add: Propose_def x_def Let_def)
  from Propose_wf [OF raft(3) _ pr] raft(4) have wf1: "raft_wf ?raft1" "unat (le_index x) = Suc (length (rn_log raft))" by simp_all
  then have L: "log_from ?rid 0 (rn_log ?raft1)" "length (rn_log ?raft1) < 2 ^ 64" "Suc (length (rn_log ?raft1)) < 2 ^ 64"
    using raft(4) by (simp_all add: raft_wf_def)
  obtain e1 k n3 w3 s4 n4 n5 raft5 where
    rp: "replicate_peers call (le_index x) (rn_commit_index ?raft1) ?peers (n\<lparr>dn_raft := Some ?raft1, dn_engine := e1\<rparr>) w = Some (Inr k, n3, w3)"
      "length (ri_peers (dn_region n3)) div 2 < 1 + k"
    and ac: "dn_ApplyCommitted (n3\<lparr>dn_raft := Some (SetCommitIndex (le_index x) ?raft1)\<rparr>) = Some (s4, n4)"
    and n5: "n5 = snd (dn_PersistHardState n4)" "dn_raft n5 = Some raft5"
      "dn_BroadcastCommit call (le_index x) raft5 n5 w3 = Some (st, n', w')"
    using dn_ProposeAndReplicate_ok [OF run lead raft(1) pr] by metis
  let ?n2 = "n\<lparr>dn_raft := Some ?raft1, dn_engine := e1\<rparr>"
  have n3: "same_node ?n2 n3" using replicate_peers_frame [OF rp(1)] ..
  obtain es where "TakeCommittedEntries (SetCommitIndex (le_index x) ?raft1) = Some (es, raft5)"
    and n4: "dn_region n4 = dn_region n"
    using ac n5(1,2) same_node_sel [OF n3] by (auto elim: dn_ApplyCommitted_raft)
  moreover have "last_log_index ?raft1 = le_index x" by (simp add: last_log_index_def push_entry_def)
  moreover have "unat (rn_last_applied raft) \<le> unat (le_index x)" using raft(3) wf1(2) by (simp add: raft_wf_alt)
  ultimately have r5: "rn_log raft5 = ?L" "rn_current_term raft5 = ?t" "rn_last_applied raft5 = le_index x"
    using TakeCommittedEntries_eq [of "SetCommitIndex (le_index x) ?raft1"] wf1(2)
    by (auto simp: SetCommitIndex_def word_le_nat_alt)
  have "?n2 = ?n2 \<and> peer_endpoint ?n2 = peer_endpoint n"
    by (auto simp: peer_endpoint_def FindStoreByPeer_def fun_eq_iff split: option.splits)
  moreover have "all_follow ?rid ?L w"
    using behind_leader_snoc [OF f] by (auto simp: all_follow_def x_def)
  ultimately have k: "k \<le> length (filter (acked ?rid ?t ?L w3) (List.map_filter (peer_endpoint n) ?peers))"
    using replicate_peers_acked [OF rp(1) _ L(1,2)] raft(5) d by simp
  have bc: "broadcast_peers call (last_log_index raft5 + 1) (le_index x) ?peers n5 w3 = Some (n', w')"
    using n5 n4 by (auto simp: dn_BroadcastCommit_def)
  note keep = broadcast_same [OF bc]
  have acks: "acked ?rid ?t ?L w' ep" if "acked ?rid ?t ?L w3 ep" for ep
    using broadcast_acked [OF bc n5(2), of ?rid ep] that L r5 n4 n5(1) raft(5) by simp
  show thesis
  proof (rule that)
    show "dn_raft n' = Some raft5" using keep n5(2) by (simp add: same_node_sel)
    have "length (filter (acked ?rid ?t ?L w3) ps) \<le> length (filter (acked ?rid ?t ?L w') ps)" for ps
      using acks by (induction ps) auto
    from this [of "List.map_filter (peer_endpoint n) ?peers"] k
    show "length ?peers < 2 * (1 + length (filter (acked ?rid ?t ?L w') (List.map_filter (peer_endpoint n) ?peers)))"
      using rp(2) same_node_sel(3) [OF n3] by simp
  qed (simp_all add: r5 x_def)
qed

end

end
