(* ===== verification/Distributed_Store.thy ===== *)
theory Distributed_Store
  imports Distributed_Region Region
begin

text \<open>
  distributed_store_node.cpp: the peers that one store process holds, one region node for every
  region that has a peer on the store.
\<close>

section \<open>State\<close>

record DistributedStoreNode =
  ds_local_store :: StoreInfo
  ds_stores :: "StoreInfo list"
  ds_data_dir :: string
  ds_regions :: "(u64, DistributedRegionNode) std_map"

definition DistributedStoreNode_new :: DistributedStoreNode where
  "DistributedStoreNode_new =
     \<lparr>ds_local_store = StoreInfo_default, ds_stores = [], ds_data_dir = [], ds_regions = fmempty\<rparr>"

section \<open>Operations\<close>

definition FindRegion :: "DistributedStoreNode \<Rightarrow> u64 \<Rightarrow> DistributedRegionNode option" where
  "FindRegion s region_id = fmlookup (ds_regions s) region_id"

definition CheckRegionKey :: "DistributedStoreNode \<Rightarrow> u64 \<Rightarrow> string \<Rightarrow> Status" where
  "CheckRegionKey s region_id key =
     (case FindRegion s region_id of
        None \<Rightarrow> mk_status kRegionNotFound ''region not found in local store''
      | Some node \<Rightarrow>
          if \<not> ContainsKey (dn_region node) key
          then mk_status kStaleEpoch ''request key is outside target region''
          else Status_Ok)"

text \<open>The loop of \<open>Bootstrap\<close> over the regions of the catalog.\<close>

fun bootstrap_regions ::
  "file_env \<Rightarrow> RegionInfo list \<Rightarrow> DistributedStoreNode \<Rightarrow> (Status \<times> DistributedStoreNode) option" where
  "bootstrap_regions env [] s = Some (Status_Ok, s)"
| "bootstrap_regions env (region # regions) s =
     (if \<not> list_ex (\<lambda>peer. pr_store_id peer = si_store_id (ds_local_store s)) (ri_peers region)
      then bootstrap_regions env regions s
      else case dn_Bootstrap env (ds_data_dir s) (ds_local_store s) (ds_stores s) region DistributedRegionNode_new of
             None \<Rightarrow> None
           | Some (status, node) \<Rightarrow>
               if \<not> ok status then Some (status, s)
               else bootstrap_regions env regions (s\<lparr>ds_regions := fmupd (ri_region_id region) node (ds_regions s)\<rparr>))"

definition ds_Bootstrap ::
  "file_env \<Rightarrow> string \<Rightarrow> StoreInfo \<Rightarrow> StoreInfo list \<Rightarrow> RegionInfo list \<Rightarrow> DistributedStoreNode \<Rightarrow>
   (Status \<times> DistributedStoreNode) option" where
  "ds_Bootstrap env data_dir local_store stores regions s =
     (if regions = [] then Some (InvalidArgument ''distributed store needs at least one region'', s)
      else case bootstrap_regions env regions
                  \<lparr>ds_local_store = local_store, ds_stores = stores, ds_data_dir = data_dir, ds_regions = fmempty\<rparr> of
             None \<Rightarrow> None
           | Some (status, s') \<Rightarrow>
               if \<not> ok status then Some (status, s')
               else if ds_regions s' = fmempty
               then Some (InvalidArgument ''local store has no peer in any region'', s')
               else Some (Status_Ok, s'))"

text \<open>A call on the node of a region, which is written back; \<open>None\<close> is the exception of \<open>at\<close>.\<close>

definition on_region ::
  "u64 \<Rightarrow> (DistributedRegionNode \<Rightarrow> 'w \<Rightarrow> ('a \<times> DistributedRegionNode \<times> 'w) option) \<Rightarrow>
   DistributedStoreNode \<Rightarrow> 'w \<Rightarrow> ('a \<times> DistributedStoreNode \<times> 'w) option" where
  "on_region region_id f s w =
     (case fmlookup (ds_regions s) region_id of
        None \<Rightarrow> None
      | Some node \<Rightarrow>
          map_option (\<lambda>(r, node', w'). (r, s\<lparr>ds_regions := fmupd region_id node' (ds_regions s)\<rparr>, w')) (f node w))"

definition ds_Put ::
  "'w tcp \<Rightarrow> u64 \<Rightarrow> string \<Rightarrow> string \<Rightarrow> DistributedStoreNode \<Rightarrow> 'w \<Rightarrow> (Status \<times> DistributedStoreNode \<times> 'w) option" where
  "ds_Put call region_id key v s w =
     (let status = CheckRegionKey s region_id key
      in if \<not> ok status then Some (status, s, w) else on_region region_id (dn_Put call key v) s w)"

definition ds_Delete ::
  "'w tcp \<Rightarrow> u64 \<Rightarrow> string \<Rightarrow> DistributedStoreNode \<Rightarrow> 'w \<Rightarrow> (Status \<times> DistributedStoreNode \<times> 'w) option" where
  "ds_Delete call region_id key s w =
     (let status = CheckRegionKey s region_id key
      in if \<not> ok status then Some (status, s, w) else on_region region_id (dn_Delete call key) s w)"

fun check_region_keys :: "DistributedStoreNode \<Rightarrow> u64 \<Rightarrow> KvMutation list \<Rightarrow> Status" where
  "check_region_keys s region_id [] = Status_Ok"
| "check_region_keys s region_id (u # us) =
     (let status = CheckRegionKey s region_id (mu_key u)
      in if \<not> ok status then status else check_region_keys s region_id us)"

definition ds_Batch ::
  "'w tcp \<Rightarrow> u64 \<Rightarrow> KvMutation list \<Rightarrow> DistributedStoreNode \<Rightarrow> 'w \<Rightarrow> (Status \<times> DistributedStoreNode \<times> 'w) option" where
  "ds_Batch call region_id us s w =
     (let status = check_region_keys s region_id us
      in if \<not> ok status then Some (status, s, w)
         else if FindRegion s region_id = None
         then Some (mk_status kRegionNotFound ''region not found in local store'', s, w)
         else on_region region_id (dn_Batch call us) s w)"

definition ds_Get :: "u64 \<Rightarrow> string \<Rightarrow> Consistency \<Rightarrow> DistributedStoreNode \<Rightarrow> (Status + string) option" where
  "ds_Get region_id key consistency s =
     (let status = CheckRegionKey s region_id key
      in if \<not> ok status then Some (Inl status)
         else map_option (dn_Get key consistency) (fmlookup (ds_regions s) region_id))"

definition ds_TransferLeader ::
  "'w tcp \<Rightarrow> u64 \<Rightarrow> u64 \<Rightarrow> DistributedStoreNode \<Rightarrow> 'w \<Rightarrow> (Status \<times> DistributedStoreNode \<times> 'w) option" where
  "ds_TransferLeader call region_id target_peer_id s w =
     (if FindRegion s region_id = None
      then Some (mk_status kRegionNotFound ''region not found in local store'', s, w)
      else on_region region_id (dn_TransferLeader call target_peer_id) s w)"

definition ds_HandleRequestVote ::
  "RequestVoteRequest \<Rightarrow> DistributedStoreNode \<Rightarrow> RequestVoteResponse \<times> DistributedStoreNode" where
  "ds_HandleRequestVote request s =
     (case FindRegion s (rv_region_id request) of
        None \<Rightarrow> (\<lparr>rvr_term = 0, rvr_vote_granted = False\<rparr>, s)
      | Some node \<Rightarrow>
          let (response, node') = dn_HandleRequestVote request node
          in (response, s\<lparr>ds_regions := fmupd (rv_region_id request) node' (ds_regions s)\<rparr>))"

definition ds_HandleAppendEntries ::
  "AppendEntriesRequest \<Rightarrow> DistributedStoreNode \<Rightarrow> (AppendEntriesResponse \<times> DistributedStoreNode) option" where
  "ds_HandleAppendEntries request s =
     (case FindRegion s (ae_region_id request) of
        None \<Rightarrow> Some (\<lparr>aer_term = 0, aer_success = False, aer_match_index = 0\<rparr>, s)
      | Some node \<Rightarrow>
          map_option (\<lambda>(response, node'). (response, s\<lparr>ds_regions := fmupd (ae_region_id request) node' (ds_regions s)\<rparr>))
            (dn_HandleAppendEntries request node))"

definition ds_ListRegions :: "DistributedStoreNode \<Rightarrow> RegionInfo list" where
  "ds_ListRegions s = map (dn_region \<circ> snd) (entries (ds_regions s))"

end
