(* ===== verification/Store_Service.thy ===== *)
theory Store_Service
  imports Distributed_Store Multi_Region Rpc_Service
begin

text \<open>
  store_service.cpp: the RPC interface of a store process, in front of one of four backends: a
  single-region cluster, a multi-region cluster, the node of one region, or the nodes of a store.
  A handler takes and returns the service with its backend and the world that the network call
  \<open>call\<close> of the distributed nodes acts on. \<open>None\<close> is an exception (\<open>std::stoull\<close>, \<open>std::map::at\<close>),
  a null dereference, or an undefined read of a backend.
\<close>

section \<open>State\<close>

text \<open>The four pointers of the service; the constructors set one of them.\<close>

record StoreService =
  sv_single_cluster :: "SingleRegionCluster option"
  sv_multi_cluster :: "MultiRegionCluster option"
  sv_distributed_node :: "DistributedRegionNode option"
  sv_distributed_store :: "DistributedStoreNode option"

definition StoreService_single :: "SingleRegionCluster option \<Rightarrow> StoreService" where
  "StoreService_single cluster =
     \<lparr>sv_single_cluster = cluster, sv_multi_cluster = None, sv_distributed_node = None, sv_distributed_store = None\<rparr>"

definition StoreService_multi :: "MultiRegionCluster option \<Rightarrow> StoreService" where
  "StoreService_multi cluster =
     \<lparr>sv_single_cluster = None, sv_multi_cluster = cluster, sv_distributed_node = None, sv_distributed_store = None\<rparr>"

definition StoreService_node :: "DistributedRegionNode option \<Rightarrow> StoreService" where
  "StoreService_node node =
     \<lparr>sv_single_cluster = None, sv_multi_cluster = None, sv_distributed_node = node, sv_distributed_store = None\<rparr>"

definition StoreService_store :: "DistributedStoreNode option \<Rightarrow> StoreService" where
  "StoreService_store node =
     \<lparr>sv_single_cluster = None, sv_multi_cluster = None, sv_distributed_node = None, sv_distributed_store = node\<rparr>"

section \<open>Helpers\<close>

definition ParseConsistency :: "string \<Rightarrow> Consistency" where
  "ParseConsistency v = (if v = ''eventual'' then kEventual else kLinearizable)"

definition ValidateRoute :: "MultiRegionCluster option \<Rightarrow> FieldMap \<Rightarrow> string \<Rightarrow> Status option" where
  "ValidateRoute cluster flds key =
     (case cluster of
        None \<Rightarrow> Some Status_Ok
      | Some m \<Rightarrow>
          let expected = GetOr flds ''region_id'' []
          in if expected = [] then Some Status_Ok
             else case FindRegionByKey m key of
                    None \<Rightarrow> Some (mk_status kRegionNotFound ''region not found for key'')
                  | Some actual_region \<Rightarrow>
                      map_option (\<lambda>expected_region_id.
                        if ri_region_id actual_region \<noteq> expected_region_id
                        then mk_status kStaleEpoch ''request route is stale'' else Status_Ok)
                        (stoull expected))"

text \<open>
  The choice of the backend in the order of the code, with the call on it; the last case is the
  null dereference of \<open>single_cluster_\<close>.
\<close>

definition on_backend ::
  "(DistributedStoreNode \<Rightarrow> 'w \<Rightarrow> (Status \<times> DistributedStoreNode \<times> 'w) option) \<Rightarrow>
   (DistributedRegionNode \<Rightarrow> 'w \<Rightarrow> (Status \<times> DistributedRegionNode \<times> 'w) option) \<Rightarrow>
   (MultiRegionCluster \<Rightarrow> (Status \<times> MultiRegionCluster) option) \<Rightarrow>
   (SingleRegionCluster \<Rightarrow> (Status \<times> SingleRegionCluster) option) \<Rightarrow>
   StoreService \<times> 'w \<Rightarrow> (Status \<times> StoreService \<times> 'w) option" where
  "on_backend f_store f_node f_multi f_single = (\<lambda>(s, w).
     case sv_distributed_store s of
       Some d \<Rightarrow> map_option (\<lambda>(status, d', w'). (status, s\<lparr>sv_distributed_store := Some d'\<rparr>, w')) (f_store d w)
     | None \<Rightarrow>
         (case sv_distributed_node s of
            Some n \<Rightarrow> map_option (\<lambda>(status, n', w'). (status, s\<lparr>sv_distributed_node := Some n'\<rparr>, w')) (f_node n w)
          | None \<Rightarrow>
              (case sv_multi_cluster s of
                 Some m \<Rightarrow> map_option (\<lambda>(status, m'). (status, s\<lparr>sv_multi_cluster := Some m'\<rparr>, w)) (f_multi m)
               | None \<Rightarrow>
                   (case sv_single_cluster s of
                      Some c \<Rightarrow> map_option (\<lambda>(status, c'). (status, s\<lparr>sv_single_cluster := Some c'\<rparr>, w)) (f_single c)
                    | None \<Rightarrow> None))))"

text \<open>The frame of the key-value handlers: fields, route, region id.\<close>

definition routed ::
  "RpcRequest \<Rightarrow> StoreService \<times> 'w \<Rightarrow> (FieldMap \<Rightarrow> u64 \<Rightarrow> (RpcResponse \<times> StoreService \<times> 'w) option) \<Rightarrow>
   (RpcResponse \<times> StoreService \<times> 'w) option" where
  "routed request sw k =
     with_fields request sw (\<lambda>flds.
       case ValidateRoute (sv_multi_cluster (fst sw)) flds (GetOr flds ''key'' []) of
         None \<Rightarrow> None
       | Some status \<Rightarrow>
           if \<not> ok status then Some (StatusToRpcError request status, sw)
           else case stoull (GetOr flds ''region_id'' ''0'') of
                  None \<Rightarrow> None
                | Some region_id \<Rightarrow> k flds region_id)"

definition finish :: "RpcRequest \<Rightarrow> (Status \<times> 's) option \<Rightarrow> (RpcResponse \<times> 's) option" where
  "finish request result = map_option (\<lambda>(status, s). (answer request status [], s)) result"

section \<open>Key-value handlers\<close>

definition store_HandlePut :: "'w tcp \<Rightarrow> (StoreService \<times> 'w) RpcHandler" where
  "store_HandlePut call request sw =
     routed request sw (\<lambda>flds region_id.
       let key = GetOr flds ''key'' []; v = GetOr flds ''value'' []
       in finish request (on_backend (ds_Put call region_id key v) (dn_Put call key v) (mr_Put key v) (cluster_Put key v) sw))"

definition store_HandleDelete :: "'w tcp \<Rightarrow> (StoreService \<times> 'w) RpcHandler" where
  "store_HandleDelete call request sw =
     routed request sw (\<lambda>flds region_id.
       let key = GetOr flds ''key'' []
       in finish request (on_backend (ds_Delete call region_id key) (dn_Delete call key) (mr_Delete key) (cluster_Delete key) sw))"

definition backend_Get :: "u64 \<Rightarrow> string \<Rightarrow> Consistency \<Rightarrow> StoreService \<Rightarrow> (Status + string) option" where
  "backend_Get region_id key consistency s =
     (case sv_distributed_store s of
        Some d \<Rightarrow> ds_Get region_id key consistency d
      | None \<Rightarrow>
          (case sv_distributed_node s of
             Some n \<Rightarrow> Some (dn_Get key consistency n)
           | None \<Rightarrow>
               (case sv_multi_cluster s of
                  Some m \<Rightarrow> Some (mr_Get key consistency m)
                | None \<Rightarrow>
                    map_option (\<lambda>c. case Leader c of
                                      None \<Rightarrow> Inl (mk_status kNotLeader ''no leader'')
                                    | Some leader \<Rightarrow> store_Get key leader) (sv_single_cluster s))))"

definition store_HandleGet :: "(StoreService \<times> 'w) RpcHandler" where
  "store_HandleGet request sw =
     routed request sw (\<lambda>flds region_id.
       map_option (\<lambda>result.
         (case result of
            Inl status \<Rightarrow> StatusToRpcError request status
          | Inr v \<Rightarrow> MakeRpcOk request (EncodeFields (fmupd ''value'' v fmempty)), sw))
         (backend_Get region_id (GetOr flds ''key'' []) (ParseConsistency (GetOr flds ''consistency'' [])) (fst sw)))"

definition get_op :: "FieldMap \<Rightarrow> string \<Rightarrow> KvMutation" where
  "get_op flds p =
     \<lparr>mu_type = (if GetOr flds (p @ ''.type'') ''put'' = ''delete'' then kDelete else kPut),
      mu_key = GetOr flds (p @ ''.key'') [], mu_value = GetOr flds (p @ ''.value'') []\<rparr>"

definition store_HandleBatch :: "'w tcp \<Rightarrow> (StoreService \<times> 'w) RpcHandler" where
  "store_HandleBatch call request sw =
     with_fields request sw (\<lambda>flds.
       let checked = (if GetOr flds ''op_count'' ''0'' \<noteq> ''0''
                      then ValidateRoute (sv_multi_cluster (fst sw)) flds (GetOr flds ''op0.key'' []) else Some Status_Ok)
       in case checked of
            None \<Rightarrow> None
          | Some status \<Rightarrow>
              if \<not> ok status then Some (StatusToRpcError request status, sw)
              else case (stoull (GetOr flds ''op_count'' ''0''), stoull (GetOr flds ''region_id'' ''0'')) of
                     (Some count, Some region_id) \<Rightarrow>
                       let us = map (\<lambda>i. get_op flds (''op'' @ show_nat i)) [0 ..< unat count]
                       in finish request (on_backend (ds_Batch call region_id us) (dn_Batch call us) (mr_Batch us) (cluster_Batch us) sw)
                   | _ \<Rightarrow> None)"

section \<open>Handlers of the catalog operations\<close>

definition refuse :: "RpcRequest \<Rightarrow> string \<Rightarrow> RpcResponse" where
  "refuse request message = MakeRpcError request (ErrorCodeName kInvalidArgument) message"

definition distributed :: "StoreService \<Rightarrow> bool" where
  "distributed s \<longleftrightarrow> sv_distributed_store s \<noteq> None \<or> sv_distributed_node s \<noteq> None"

definition store_HandleAddPeer :: "(StoreService \<times> 'w) RpcHandler" where
  "store_HandleAddPeer request sw =
     with_fields request sw (\<lambda>flds.
       case (field_u64 flds ''region_id'', field_u64 flds ''store_id'', field_u64 flds ''peer_id'') of
         (Some region_id, Some store_id, Some peer_id) \<Rightarrow>
           if distributed (fst sw) then Some (refuse request ''distributed store add peer is not implemented yet'', sw)
           else finish request (on_backend (\<lambda>_ _. None) (\<lambda>_ _. None)
                  (mr_AddPeer region_id store_id peer_id) (AddPeer store_id peer_id) sw)
       | _ \<Rightarrow> None)"

definition store_HandleRemovePeer :: "(StoreService \<times> 'w) RpcHandler" where
  "store_HandleRemovePeer request sw =
     with_fields request sw (\<lambda>flds.
       case (field_u64 flds ''region_id'', field_u64 flds ''peer_id'') of
         (Some region_id, Some peer_id) \<Rightarrow>
           if distributed (fst sw) then Some (refuse request ''distributed store remove peer is not implemented yet'', sw)
           else finish request (on_backend (\<lambda>_ _. None) (\<lambda>_ _. None)
                  (mr_RemovePeer region_id peer_id) (RemovePeer peer_id) sw)
       | _ \<Rightarrow> None)"

definition store_HandleTransferLeader :: "'w tcp \<Rightarrow> (StoreService \<times> 'w) RpcHandler" where
  "store_HandleTransferLeader call request sw =
     with_fields request sw (\<lambda>flds.
       case (field_u64 flds ''region_id'', field_u64 flds ''target_peer_id'') of
         (Some region_id, Some target_peer_id) \<Rightarrow>
           finish request (on_backend (ds_TransferLeader call region_id target_peer_id) (dn_TransferLeader call target_peer_id)
             (mr_TransferLeader region_id target_peer_id) (TransferLeader target_peer_id) sw)
       | _ \<Rightarrow> None)"

definition store_HandleSplitRegion :: "(StoreService \<times> 'w) RpcHandler" where
  "store_HandleSplitRegion request sw =
     (if distributed (fst sw) then Some (refuse request ''distributed split is not implemented yet'', sw)
      else case sv_multi_cluster (fst sw) of
             None \<Rightarrow> Some (refuse request ''split requires multi-region cluster'', sw)
           | Some m \<Rightarrow>
               with_fields request sw (\<lambda>flds.
                 case field_u64 flds ''region_id'' of
                   None \<Rightarrow> None
                 | Some region_id \<Rightarrow>
                     map_option (\<lambda>(result, m').
                       (case result of
                          Inl status \<Rightarrow> StatusToRpcError request status
                        | Inr (left, right) \<Rightarrow>
                            MakeRpcOk request (EncodeFields
                              (PutRegionFields (PutRegionFields fmempty left ''left'') right ''right'')),
                        (fst sw)\<lparr>sv_multi_cluster := Some m'\<rparr>, snd sw))
                       (mr_SplitRegion region_id (GetOr flds ''split_key'' []) m)))"

section \<open>Status\<close>

text \<open>The fields of one region node after those of its region.\<close>

definition put_node_status :: "FieldMap \<Rightarrow> DistributedRegionNode \<Rightarrow> string \<Rightarrow> FieldMap" where
  "put_node_status flds node p =
     (let flds = fmupd (p @ ''.local_store_id'') (to_string (si_store_id (dn_local_store node))) flds;
          flds = fmupd (p @ ''.local_peer_id'') (to_string (pr_peer_id (dn_local_peer node))) flds
      in case dn_raft node of
           None \<Rightarrow> flds
         | Some raft \<Rightarrow>
             let flds = fmupd (p @ ''.runtime_role'') (RaftRoleName (rn_role raft)) flds;
                 flds = fmupd (p @ ''.runtime_commit_index'') (to_string (rn_commit_index raft)) flds;
                 flds = fmupd (p @ ''.runtime_last_applied'') (to_string (rn_last_applied raft)) flds
             in fmupd (p @ ''.runtime_last_log_index'') (to_string (last_log_index raft)) flds)"

definition put_hosted_region :: "DistributedStoreNode \<Rightarrow> FieldMap \<Rightarrow> RegionInfo \<Rightarrow> string \<Rightarrow> FieldMap" where
  "put_hosted_region d flds region p =
     (let flds = PutRegionFields flds region p
      in case FindRegion d (ri_region_id region) of
           None \<Rightarrow> flds
         | Some node \<Rightarrow> put_node_status flds node p)"

definition put_cluster_status :: "FieldMap \<Rightarrow> SingleRegionCluster option \<Rightarrow> string \<Rightarrow> FieldMap" where
  "put_cluster_status flds cluster p =
     (case Option.bind cluster Leader of
        None \<Rightarrow> flds
      | Some leader \<Rightarrow>
          fmupd (p @ ''.runtime_peer_count'') (show_nat (length (sc_stores (the cluster))))
            (fmupd (p @ ''.runtime_leader_peer_id'') (to_string (sr_peer_id leader)) flds))"

definition put_clustered_region :: "MultiRegionCluster \<Rightarrow> FieldMap \<Rightarrow> RegionInfo \<Rightarrow> string \<Rightarrow> FieldMap" where
  "put_clustered_region m flds region p =
     put_cluster_status (PutRegionFields flds region p) (FindRegionCluster m (ri_region_id region)) p"

definition service_status :: "StoreService \<Rightarrow> FieldMap" where
  "service_status s =
     (case sv_distributed_store s of
        Some d \<Rightarrow>
          let regions = ds_ListRegions d
          in put_indexed (put_hosted_region d) ''region'' 0 regions
               (fmupd ''region_count'' (show_nat (length regions)) fmempty)
      | None \<Rightarrow>
          (case sv_distributed_node s of
             Some n \<Rightarrow>
               put_node_status (PutRegionFields (fmupd ''region_count'' ''1'' fmempty) (dn_region n) ''region0'') n ''region0''
           | None \<Rightarrow>
               (case sv_multi_cluster s of
                  Some m \<Rightarrow>
                    put_indexed (put_clustered_region m) ''region'' 0 (mr_regions m)
                      (fmupd ''region_count'' (show_nat (length (mr_regions m))) fmempty)
                | None \<Rightarrow>
                    put_cluster_status
                      (fmupd ''region0.region_id'' (if sv_single_cluster s \<noteq> None then ''1'' else ''0'')
                        (fmupd ''region_count'' ''1'' fmempty))
                      (sv_single_cluster s) ''region0'')))"

definition store_HandleStatus :: "(StoreService \<times> 'w) RpcHandler" where
  "store_HandleStatus request sw = Some (MakeRpcOk request (EncodeFields (service_status (fst sw))), sw)"

section \<open>Raft messages\<close>

definition service_RequestVote :: "RequestVoteRequest \<Rightarrow> StoreService \<Rightarrow> (RequestVoteResponse \<times> StoreService) option" where
  "service_RequestVote vote_request s =
     (case sv_distributed_store s of
        Some d \<Rightarrow> Some (map_prod id (\<lambda>d'. s\<lparr>sv_distributed_store := Some d'\<rparr>) (ds_HandleRequestVote vote_request d))
      | None \<Rightarrow>
          map_option (\<lambda>n. map_prod id (\<lambda>n'. s\<lparr>sv_distributed_node := Some n'\<rparr>) (dn_HandleRequestVote vote_request n))
            (sv_distributed_node s))"

definition store_HandleRaftRequestVote :: "(StoreService \<times> 'w) RpcHandler" where
  "store_HandleRaftRequestVote request sw =
     (if \<not> distributed (fst sw) then Some (refuse request ''raft request vote requires distributed store node'', sw)
      else with_fields request sw (\<lambda>flds.
             case GetRequestVoteFields flds of
               None \<Rightarrow> None
             | Some vote_request \<Rightarrow>
                 map_option (\<lambda>(vote_response, s').
                   (MakeRpcOk request (EncodeFields (PutRequestVoteResponseFields fmempty vote_response)), s', snd sw))
                   (service_RequestVote vote_request (fst sw))))"

definition service_AppendEntries :: "AppendEntriesRequest \<Rightarrow> StoreService \<Rightarrow> (AppendEntriesResponse \<times> StoreService) option" where
  "service_AppendEntries append_request s =
     (case sv_distributed_store s of
        Some d \<Rightarrow> map_option (map_prod id (\<lambda>d'. s\<lparr>sv_distributed_store := Some d'\<rparr>)) (ds_HandleAppendEntries append_request d)
      | None \<Rightarrow>
          Option.bind (sv_distributed_node s)
            (\<lambda>n. map_option (map_prod id (\<lambda>n'. s\<lparr>sv_distributed_node := Some n'\<rparr>)) (dn_HandleAppendEntries append_request n)))"

definition store_HandleRaftAppendEntries :: "(StoreService \<times> 'w) RpcHandler" where
  "store_HandleRaftAppendEntries request sw =
     (if \<not> distributed (fst sw) then Some (refuse request ''raft append entries requires distributed store node'', sw)
      else with_fields request sw (\<lambda>flds.
             case GetAppendEntriesFields flds of
               None \<Rightarrow> None
             | Some (Inl status) \<Rightarrow> Some (StatusToRpcError request status, sw)
             | Some (Inr append_request) \<Rightarrow>
                 map_option (\<lambda>(append_response, s').
                   (MakeRpcOk request (EncodeFields (PutAppendEntriesResponseFields fmempty append_response)), s', snd sw))
                   (service_AppendEntries append_request (fst sw))))"

section \<open>Registration\<close>

definition store_methods :: "'w tcp \<Rightarrow> (string \<times> (StoreService \<times> 'w) RpcHandler) list" where
  "store_methods call =
     [(''store.KvPut'', store_HandlePut call), (''store.KvDelete'', store_HandleDelete call),
      (''store.KvGet'', store_HandleGet), (''store.KvBatch'', store_HandleBatch call),
      (''store.SplitRegion'', store_HandleSplitRegion), (''store.TransferLeader'', store_HandleTransferLeader call),
      (''store.AddPeer'', store_HandleAddPeer), (''store.RemovePeer'', store_HandleRemovePeer),
      (''store.Status'', store_HandleStatus), (''store.RaftRequestVote'', store_HandleRaftRequestVote),
      (''store.RaftAppendEntries'', store_HandleRaftAppendEntries)]"

definition store_RegisterHandlers ::
  "'w tcp \<Rightarrow> (StoreService \<times> 'w) RpcServer option \<Rightarrow> Status \<times> (StoreService \<times> 'w) RpcServer option" where
  "store_RegisterHandlers call server =
     (case server of
        None \<Rightarrow> (InvalidArgument ''rpc server must not be null'', None)
      | Some srv \<Rightarrow> (let (status, srv1) = register_all (store_methods call) srv in (status, Some srv1)))"

section \<open>The registered service\<close>

interpretation store_rpc: rpc_service "store_methods call" for call
  by unfold_locales (simp_all add: store_methods_def)

definition store_rpc_server :: "'w tcp \<Rightarrow> (StoreService \<times> 'w) RpcServer" where
  "store_rpc_server call = snd (register_all (store_methods call) RpcServer_new)"

lemma store_dispatch:
  "rq_method req = ''store.KvPut'' \<Longrightarrow> RpcServer_Handle (store_rpc_server call) req sw = store_HandlePut call req sw"
  "rq_method req = ''store.KvDelete'' \<Longrightarrow> RpcServer_Handle (store_rpc_server call) req sw = store_HandleDelete call req sw"
  "rq_method req = ''store.KvGet'' \<Longrightarrow> RpcServer_Handle (store_rpc_server call) req sw = store_HandleGet req sw"
  "rq_method req = ''store.KvBatch'' \<Longrightarrow> RpcServer_Handle (store_rpc_server call) req sw = store_HandleBatch call req sw"
  "rq_method req = ''store.SplitRegion'' \<Longrightarrow> RpcServer_Handle (store_rpc_server call) req sw = store_HandleSplitRegion req sw"
  "rq_method req = ''store.RaftRequestVote'' \<Longrightarrow> RpcServer_Handle (store_rpc_server call) req sw = store_HandleRaftRequestVote req sw"
  "rq_method req = ''store.RaftAppendEntries'' \<Longrightarrow> RpcServer_Handle (store_rpc_server call) req sw = store_HandleRaftAppendEntries req sw"
  unfolding store_rpc_server_def by (intro store_rpc.dispatch; simp add: store_methods_def)+

end
