(* ===== verification/Distributed_Network.thy ===== *)
theory Distributed_Network
  imports Distributed_Replication Store_Service
begin

text \<open>
  Store processes on a network: every endpoint serves the store service of its process, requests
  and answers can be lost, and a process whose handler raises an exception is gone. The network
  satisfies the contract of \<open>raft_transport\<close>, so the lemmas on replication hold for the handlers
  of store_service.cpp. The properties say what an acknowledged write has reached, and which
  followers the retry loop of \<open>ReplicateToStore\<close> repairs and which it never does.
\<close>

section \<open>The network\<close>

datatype net_event = NetDeliver | NetLoseRequest | NetLoseAnswer

record network =
  nw_stores :: "Endpoint \<Rightarrow> StoreService option"
  nw_events :: "net_event list"

definition next_event :: "network \<Rightarrow> net_event \<times> network" where
  "next_event w = (case nw_events w of [] \<Rightarrow> (NetDeliver, w) | ev # evs \<Rightarrow> (ev, w\<lparr>nw_events := evs\<rparr>))"

definition unreachable :: "RpcRequest \<Rightarrow> RpcResponse" where
  "unreachable request = MakeRpcError request (ErrorCodeName kRpcError) ''failed to connect tcp rpc server''"

text \<open>The handlers of the Raft messages make no calls themselves.\<close>

definition no_peers :: "unit tcp" where
  "no_peers ep request u = (unreachable request, u)"

definition net_call :: "network tcp" where
  "net_call ep request w0 =
     (let (ev, w) = next_event w0
      in if ev = NetLoseRequest then (unreachable request, w)
         else case nw_stores w ep of
                None \<Rightarrow> (unreachable request, w)
              | Some service \<Rightarrow>
                  (case RpcServer_Handle (store_rpc_server no_peers) request (service, ()) of
                     None \<Rightarrow> (unreachable request, w\<lparr>nw_stores := (nw_stores w)(ep := None)\<rparr>)
                   | Some (response, service', _) \<Rightarrow>
                       (if ev = NetLoseAnswer then unreachable request else response,
                        w\<lparr>nw_stores := (nw_stores w)(ep := Some service')\<rparr>)))"

definition service_node :: "StoreService \<Rightarrow> u64 \<Rightarrow> DistributedRegionNode option" where
  "service_node s region_id =
     (case sv_distributed_store s of Some d \<Rightarrow> FindRegion d region_id | None \<Rightarrow> sv_distributed_node s)"

definition node_at :: "network \<Rightarrow> Endpoint \<Rightarrow> u64 \<Rightarrow> DistributedRegionNode option" where
  "node_at w ep region_id = Option.bind (nw_stores w ep) (\<lambda>s. service_node s region_id)"

section \<open>The network carries Raft messages\<close>

lemma unreachable_sel [simp]: "\<not> rs_ok (unreachable req)"
  by (simp add: unreachable_def)

lemma next_event_frame: "next_event w0 = (ev, w) \<Longrightarrow> nw_stores w = nw_stores w0"
  by (auto simp: next_event_def split: list.splits)

lemma node_at_event: "next_event w0 = (ev, w) \<Longrightarrow> node_at w ep i = node_at w0 ep i"
  by (simp add: node_at_def next_event_frame)

lemma net_call_elsewhere:
  "net_call ep req w = (resp, w') \<Longrightarrow> ep' \<noteq> ep \<Longrightarrow> node_at w' ep' i = node_at w ep' i"
  by (auto simp: net_call_def node_at_def next_event_frame Let_def split: prod.splits option.splits if_splits)

text \<open>The append handler of the service on its node.\<close>

lemma service_AppendEntries_node:
  "distributed s \<Longrightarrow> service_node s (ae_region_id r) = Some n \<Longrightarrow>
     map_option (map_prod id (\<lambda>s'. service_node s' (ae_region_id r))) (service_AppendEntries r s) =
     map_option (map_prod id Some) (dn_HandleAppendEntries r n)"
  by (cases "dn_HandleAppendEntries r n"; cases "sv_distributed_store s")
     (simp_all add: service_node_def service_AppendEntries_def ds_HandleAppendEntries_def FindRegion_def distributed_def
       map_prod_def split: prod.splits)

lemma service_AppendEntries_none:
  "distributed s \<Longrightarrow> service_node s (ae_region_id r) = None \<Longrightarrow>
     service_AppendEntries r s = Some (\<lparr>aer_term = 0, aer_success = False, aer_match_index = 0\<rparr>, s)"
  by (auto simp: service_node_def service_AppendEntries_def ds_HandleAppendEntries_def distributed_def
      split: option.splits)

lemma handle_append_message:
  assumes "rq_method req = ''store.RaftAppendEntries''" and "rq_payload req = EncodeFields (PutAppendEntriesFields fmempty r)"
    and "length (ae_entries r) < 2 ^ 64"
  shows "RpcServer_Handle (store_rpc_server call) req (s, u) =
     (if \<not> distributed s then Some (refuse req ''raft append entries requires distributed store node'', s, u)
      else map_option (\<lambda>(a, s'). (MakeRpcOk req (EncodeFields (PutAppendEntriesResponseFields fmempty a)), s', u))
             (service_AppendEntries r s))"
  using assms get_put_append_entries [OF assms(3), of fmempty]
  by (simp add: store_dispatch store_HandleRaftAppendEntries_def)

lemma not_distributed_node: "\<not> distributed s \<Longrightarrow> service_node s i = None"
  by (simp add: distributed_def service_node_def)

lemma net_append_message:
  assumes c: "net_call ep req w = (resp, w')" "rq_method req = ''store.RaftAppendEntries''"
    "rq_payload req = EncodeFields (PutAppendEntriesFields fmempty r)" "length (ae_entries r) < 2 ^ 64"
  shows "\<not> rs_ok resp \<and> node_at w' ep (ae_region_id r) = node_at w ep (ae_region_id r) \<or>
    rs_ok resp \<and> node_at w ep (ae_region_id r) = None \<and> node_at w' ep (ae_region_id r) = None \<and>
      rs_payload resp = EncodeFields (PutAppendEntriesResponseFields fmempty \<lparr>aer_term = 0, aer_success = False, aer_match_index = 0\<rparr>) \<or>
    (\<exists>n. node_at w ep (ae_region_id r) = Some n \<and>
       (case dn_HandleAppendEntries r n of
          None \<Rightarrow> \<not> rs_ok resp \<and> node_at w' ep (ae_region_id r) = None
        | Some (a, n') \<Rightarrow> node_at w' ep (ae_region_id r) = Some n' \<and>
            (rs_ok resp \<longrightarrow> rs_payload resp = EncodeFields (PutAppendEntriesResponseFields fmempty a))))"
proof -
  let ?i = "ae_region_id r"
  note msg = handle_append_message [OF c(2-4), of no_peers _ "()"]
  obtain ev w0 where ev: "next_event w = (ev, w0)" by fastforce
  have at: "node_at w ep ?i = Option.bind (nw_stores w0 ep) (\<lambda>s. service_node s ?i)"
    using node_at_event [OF ev, of ep ?i] by (simp add: node_at_def)
  show ?thesis
  proof (cases "ev = NetLoseRequest \<or> nw_stores w0 ep = None")
    case True
    then have "\<not> rs_ok resp \<and> w' = w0" using c(1) ev by (auto simp: net_call_def split: if_splits)
    then show ?thesis using node_at_event [OF ev, of ep ?i] by simp
  next
    case False
    then obtain s where s: "nw_stores w0 ep = Some s" "ev \<noteq> NetLoseRequest" by blast
    note run = c(1) [unfolded net_call_def ev Let_def prod.case]
    show ?thesis
    proof (cases "distributed s")
      case no: False
      then have "\<not> rs_ok resp" "node_at w' ep ?i = service_node s ?i"
        using run s msg no by (auto simp: node_at_def refuse_def split: if_splits)
      then show ?thesis using at s by simp
    next
      case d: True
      show ?thesis
      proof (cases "service_node s ?i")
        case None
        then have "node_at w' ep ?i = None" "rs_ok resp \<longrightarrow> rs_payload resp =
            EncodeFields (PutAppendEntriesResponseFields fmempty \<lparr>aer_term = 0, aer_success = False, aer_match_index = 0\<rparr>)"
          using run s msg d service_AppendEntries_none [OF d None] by (auto simp: node_at_def split: if_splits)
        then show ?thesis using at s None by auto
      next
        case (Some n)
        show ?thesis
        proof (cases "dn_HandleAppendEntries r n")
          case None
          then have "service_AppendEntries r s = None" using service_AppendEntries_node [OF d Some] by simp
          then have "\<not> rs_ok resp" "node_at w' ep ?i = None" using run s msg d by (auto simp: node_at_def split: if_splits)
          then show ?thesis using at s Some None by simp
        next
          case step: (Some an)
          obtain a n' where an: "an = (a, n')" by fastforce
          obtain s' where "service_AppendEntries r s = Some (a, s')" "service_node s' ?i = Some n'"
            using service_AppendEntries_node [OF d Some] step an by auto
          then have "node_at w' ep ?i = Some n'"
            "rs_ok resp \<longrightarrow> rs_payload resp = EncodeFields (PutAppendEntriesResponseFields fmempty a)"
            using run s msg d by (auto simp: node_at_def split: if_splits)
          then show ?thesis using at s Some step an by simp
        qed
      qed
    qed
  qed
qed

interpretation net: raft_transport net_call node_at
proof
  fix ep req w resp w' r
  assume c: "net_call ep req w = (resp, w')" "rq_method req = ''store.RaftAppendEntries''"
    "rq_payload req = EncodeFields (PutAppendEntriesFields fmempty r)" "length (ae_entries r) < 2 ^ 64"
  note m = net_append_message [OF c]
  show "\<exists>a. rs_payload resp = EncodeFields (PutAppendEntriesResponseFields fmempty a) \<and>
       (case node_at w ep (ae_region_id r) of
          None \<Rightarrow> \<not> aer_success a \<and> node_at w' ep (ae_region_id r) = None
        | Some n \<Rightarrow> (\<exists>n'. dn_HandleAppendEntries r n = Some (a, n') \<and> node_at w' ep (ae_region_id r) = Some n'))"
    if "rs_ok resp" using m that by (force split: option.splits)
  show "node_at w' ep (ae_region_id r) = node_at w ep (ae_region_id r) \<or>
     (\<exists>n. node_at w ep (ae_region_id r) = Some n \<and>
        node_at w' ep (ae_region_id r) = map_option snd (dn_HandleAppendEntries r n))"
    if "\<not> rs_ok resp" using m that by (auto split: option.splits)
qed (rule net_call_elsewhere)

end
