(* ===== verification/Distributed_Map.thy ===== *)
theory Distributed_Map
  imports Distributed_Network Single_Region_Map
begin

text \<open>
  The peers of a region on a network that loses nothing, as a replicated map. A peer may lag
  behind the leader's log by any number of entries; its data is what the applied part of the log
  gives, and log and hard state are on its disk. Every write at the leader succeeds, brings all
  peers up to the leader's log and applies it everywhere.
\<close>

section \<open>The data that a log gives\<close>

inductive log_gives :: "LogEntry list \<Rightarrow> kv_map \<Rightarrow> bool" where
  start: "log_gives [] fmempty"
| entry: "log_gives L m \<Longrightarrow> le_type x = kNormal \<Longrightarrow> encodes (le_command x) us \<Longrightarrow> log_gives (L @ [x]) (apply_mutations us m)"

inductive_cases log_gives_snocE: "log_gives (L @ [x]) m"

lemma log_gives_commands: "log_gives L m \<Longrightarrow> x \<in> set L \<Longrightarrow> le_command x \<noteq> []"
  by (induction rule: log_gives.induct) (auto simp: encodes_def)

lemma log_gives_snoc:
  assumes "log_gives (L @ [x]) m"
  obtains us where "le_type x = kNormal" and "encodes (le_command x) us"
  using assms by (cases rule: log_gives.cases) auto

lemma log_gives_take: "log_gives L m \<Longrightarrow> \<exists>m'. log_gives (take k L) m'"
proof (induction rule: log_gives.induct)
  case (entry L m x us)
  then show ?case by (cases "k \<le> length L") (auto intro: log_gives.entry)
qed (auto intro: log_gives.start)

lemma log_gives_next:
  assumes "log_gives L m" and "i < length L"
  obtains us where "le_type (L ! i) = kNormal" and "encodes (le_command (L ! i)) us"
proof -
  obtain m' where "log_gives (take i L @ [L ! i]) m'"
    using log_gives_take [OF assms(1), of "Suc i"] assms(2) by (auto simp: take_Suc_conv_app_nth)
  then show thesis using log_gives_snoc that by blast
qed

lemma apply_entries_append:
  "apply_entries (xs @ ys) e = (let (st, e1) = apply_entries xs e in if \<not> ok st then (st, e1) else apply_entries ys e1)"
  by (induction xs arbitrary: e) (auto simp: Let_def split: prod.splits)

lemma apply_entries_gives:
  assumes L: "log_gives L m0" and m: "log_gives (take a L) m" and e: "engine_rel r K h m e"
    and c: "a \<le> c" "c \<le> length L"
  shows "\<exists>e' m'. apply_entries (drop a (take c L)) e = (Status_Ok, e') \<and> engine_rel r K h m' e' \<and> log_gives (take c L) m'"
  using c
proof (induction c)
  case 0
  then show ?case using m e by auto
next
  case (Suc c)
  show ?case
  proof (cases "a = Suc c")
    case True
    then show ?thesis using m e by auto
  next
    case False
    with Suc obtain e1 m1 where 1: "apply_entries (drop a (take c L)) e = (Status_Ok, e1)" "engine_rel r K h m1 e1"
      "log_gives (take c L) m1" by auto
    have c: "c < length L" "a \<le> c" using Suc.prems False by simp_all
    obtain us where us: "le_type (L ! c) = kNormal" "encodes (le_command (L ! c)) us" by (rule log_gives_next [OF L c(1)])
    then have "\<forall>u \<in> set us. user_key (mu_key u)" unfolding encodes_def by blast
    from engine_rel_write [OF 1(2) this] obtain e2 where e2: "WriteBatch us e1 = (Status_Ok, e2)"
      "engine_rel r K h (apply_mutations us m1) e2" by blast
    have "drop a (take (Suc c) L) = drop a (take c L) @ [L ! c]"
      using c by (simp add: take_Suc_conv_app_nth)
    moreover have "apply_entries [L ! c] e1 = (Status_Ok, e2)" using us e2(1) by (simp add: encodes_def)
    ultimately have "apply_entries (drop a (take (Suc c) L)) e = (Status_Ok, e2)"
      using 1(1) by (simp add: apply_entries_append del: apply_entries.simps)
    moreover have "log_gives (take (Suc c) L) (apply_mutations us m1)"
      using log_gives.entry [OF 1(3) us] c(1) by (simp add: take_Suc_conv_app_nth)
    ultimately show ?thesis using e2(2) by blast
  qed
qed

section \<open>Persisting a suffix\<close>

lemma engine_rel_truncate:
  assumes "engine_rel r L h m e"
  obtains e' where "DeleteLogsFrom file_kv_ops r i e = Some (Status_Ok, e')"
    and "engine_rel r (filter (\<lambda>x. le_index x < i) L) h m e'"
proof -
  obtain e' where e': "storage_step r (OpTruncate i) e = Some (Status_Ok, e')"
    "storage_rel r (spec_op (OpTruncate i) \<lparr>rs_log = L, rs_hard = h\<rparr>) e'"
    using assms rel_truncate unfolding engine_rel_def by metis
  note parts = engine_rel_parts [OF assms]
  obtain e2 ms where e2: "DeleteLogsFrom file_kv_ops r i e = Some (Status_Ok, e2)"
    "WriteBatch ms e = (Status_Ok, e2)" "\<forall>u \<in> set ms. \<exists>i. u = mk_delete (RaftLogKey r i)"
    by (rule file_kv.DeleteLogsFrom_stored [OF parts(2,3), of i]) (simp add: file_kv_ops_def)
  have "fmlookup (apply_mutations ms d) k = fmlookup d k" if "\<not> prefix ''raft/'' k" for k d
    using e2(3) that by (induction ms arbitrary: d) (auto simp: apply_mutation_simps)
  then have "user_view m (kv_data e2)"
    using parts(2,6) e2(2) by (auto simp: WriteBatch_healthy user_view_def)
  then show thesis using e' e2(1) that [of e2] by (simp add: engine_rel_def)
qed

lemma append_logs_rel:
  assumes "engine_rel r L h m e" and "log_from r 0 (L @ xs)" and "\<forall>x \<in> set xs. le_command x \<noteq> []"
  shows "\<exists>e'. append_logs xs e = (Status_Ok, e') \<and> engine_rel r (L @ xs) h m e'"
  using assms
proof (induction xs arbitrary: L e)
  case (Cons x xs)
  have "log_from r 0 (L @ [x])" using Cons.prems(2) by simp
  with Cons.prems(1,3) obtain e1 where e1: "AppendLog file_kv_ops x e = (Status_Ok, e1)" "engine_rel r (L @ [x]) h m e1"
    using engine_rel_append by (metis list.set_intros(1))
  with Cons.IH [OF e1(2)] Cons.prems show ?case by simp
qed simp

lemma filter_log_upto:
  assumes "log_from r 0 L" and "unat i = Suc p"
  shows "filter (\<lambda>x. le_index x < i) (take k L) = take p (take k L)"
  using assms(1)
proof (induction k)
  case (Suc k)
  then show ?case
    using assms(2) log_from_nth [OF assms(1), of k]
    by (cases "k < length L") (auto simp: take_Suc_conv_app_nth word_less_nat_alt min_def)
qed simp

lemma PersistLogFrom_rel:
  assumes "dn_raft n = Some q" and "dn_raft_storage n" and "ri_region_id (dn_region n) = r"
    and L: "log_from r 0 L" "rn_log q = L" "\<forall>x \<in> set L. le_command x \<noteq> []"
    and i: "unat i = Suc p" "p \<le> k" "p \<le> length L" and e: "engine_rel r (take k L) h m (dn_engine n)"
  shows "\<exists>e'. PersistLogFrom i n = Some (Status_Ok, n\<lparr>dn_engine := e'\<rparr>) \<and> engine_rel r L h m e'"
proof -
  obtain e1 where e1: "DeleteLogsFrom file_kv_ops r i (dn_engine n) = Some (Status_Ok, e1)"
    "engine_rel r (filter (\<lambda>x. le_index x < i) (take k L)) h m e1"
    by (rule engine_rel_truncate [OF e])
  then have "engine_rel r (take p L) h m e1"
    using filter_log_upto [OF L(1) i(1), of k] i(2) by (simp add: min_def)
  moreover have "filter (\<lambda>x. i \<le> le_index x) L = drop p L" using filter_log_from [OF L(1), of i] i(1) by simp
  ultimately obtain e2 where "append_logs (filter (\<lambda>x. i \<le> le_index x) L) e1 = (Status_Ok, e2)" "engine_rel r L h m e2"
    using append_logs_rel [of r "take p L" h m e1 "drop p L"] L by (auto dest: in_set_dropD)
  then show ?thesis using assms(1-3) L(2) e1(1) by (auto simp: PersistLogFrom_def)
qed

section \<open>Replicas\<close>

text \<open>
  A peer of region \<open>r\<close> whose log is the first \<open>k\<close> entries of \<open>L\<close>, in a term of at most \<open>t\<close>: log on
  disk, data from the applied part.
\<close>

definition replica :: "u64 \<Rightarrow> u64 \<Rightarrow> LogEntry list \<Rightarrow> nat \<Rightarrow> DistributedRegionNode \<Rightarrow> bool" where
  "replica r t L k n \<longleftrightarrow> dn_raft_storage n \<and> ri_region_id (dn_region n) = r \<and> k \<le> length L \<and>
     (\<exists>q h m. dn_raft n = Some q \<and> rn_region_id q = r \<and> raft_wf q \<and> rn_current_term q \<le> t \<and> rn_log q = take k L \<and>
        engine_rel r (take k L) h m (dn_engine n) \<and> log_gives (take (unat (rn_last_applied q)) L) m)"

definition good_log :: "u64 \<Rightarrow> LogEntry list \<Rightarrow> bool" where
  "good_log r L \<longleftrightarrow> log_from r 0 L \<and> length L + 2 < 2 ^ 64 \<and> sorted (map le_term L) \<and> (\<exists>m. log_gives L m)"

text \<open>All of \<open>L\<close> is there, and the first \<open>c\<close> entries are applied.\<close>

definition caught_up :: "u64 \<Rightarrow> u64 \<Rightarrow> LogEntry list \<Rightarrow> nat \<Rightarrow> DistributedRegionNode \<Rightarrow> bool" where
  "caught_up r t L c n \<longleftrightarrow> replica r t L (length L) n \<and>
     (\<exists>q. dn_raft n = Some q \<and> rn_current_term q = t \<and> c \<le> unat (rn_last_applied q))"

lemma dn_PersistHardState_rel:
  assumes "dn_raft n = Some q" and "dn_raft_storage n" and "ri_region_id (dn_region n) = r"
    and "engine_rel r L h m (dn_engine n)"
  obtains e where "dn_PersistHardState n = (Status_Ok, n\<lparr>dn_engine := e\<rparr>)"
    and "engine_rel r L (Some (hard_state_of q)) m e"
proof -
  obtain e where "SaveHardState file_kv_ops r (hard_state_of q) (dn_engine n) = (Status_Ok, e)"
    "engine_rel r L (Some (hard_state_of q)) m e"
    by (rule engine_rel_hard [OF assms(4)])
  with assms(1-3) show thesis by (intro that) (simp_all add: dn_PersistHardState_def)
qed

lemma dn_ApplyCommitted_rel:
  assumes n: "dn_raft n = Some q" "raft_wf q" and L: "log_gives L m0" "rn_log q = L"
    and m: "log_gives (take (unat (rn_last_applied q)) L) m" "engine_rel r L h m (dn_engine n)"
  shows "\<exists>e m'. dn_ApplyCommitted n = Some (Status_Ok, n\<lparr>dn_raft := Some (q\<lparr>rn_last_applied := rn_commit_index q\<rparr>), dn_engine := e\<rparr>) \<and>
     engine_rel r L h m' e \<and> log_gives (take (unat (rn_commit_index q)) L) m'"
proof -
  have ac: "rn_last_applied q \<le> rn_commit_index q" "unat (rn_commit_index q) \<le> length L"
    using n(2) L(2) by (simp_all add: raft_wf_def)
  obtain e m' where "apply_entries (drop (unat (rn_last_applied q)) (take (unat (rn_commit_index q)) L)) (dn_engine n) = (Status_Ok, e)"
    "engine_rel r L h m' e" "log_gives (take (unat (rn_commit_index q)) L) m'"
    using apply_entries_gives [OF L(1) m, of "unat (rn_commit_index q)"] ac by (auto simp: word_le_nat_alt)
  then show ?thesis
    using n(1) TakeCommittedEntries_eq [of q] ac L(2) by (auto simp: dn_ApplyCommitted_def)
qed

lemma replica_append_behind:
  assumes "replica r t L k n" and "good_log r L" and "slice_request r t L rq" and "k < unat (ae_prev_log_index rq)"
  shows "\<exists>a n'. dn_HandleAppendEntries rq n = Some (a, n') \<and> \<not> aer_success a \<and> unat (aer_match_index a) = k \<and> replica r t L k n'"
proof -
  obtain q h m where n: "dn_raft_storage n" "ri_region_id (dn_region n) = r" "k \<le> length L" "dn_raft n = Some q"
    and q: "rn_region_id q = r" "raft_wf q" "rn_current_term q \<le> t" "rn_log q = take k L"
    and e: "engine_rel r (take k L) h m (dn_engine n)" "log_gives (take (unat (rn_last_applied q)) L) m"
    using assms(1) by (auto simp: replica_def)
  have t: "ae_term rq = t" using assms(3) by (simp add: slice_request_def)
  have "ae_prev_log_index rq \<noteq> 0" using assms(4) by auto
  then have h': "\<not> HasLogAt (ae_prev_log_index rq) (ae_prev_log_term rq) q"
    using assms(4) q(4) n(3) by (simp add: HasLogAt_def)
  have nt: "\<not> ae_term rq < rn_current_term q" using t q(3) by simp
  let ?q = "step_down t q"
  have hd: "HandleAppendEntries rq q = Some (\<lparr>aer_term = t, aer_success = False, aer_match_index = last_log_index q\<rparr>, ?q)"
    using nt h' t q(3) by (simp add: HandleAppendEntries_def Let_def)
  have l: "unat (last_log_index q) = k"
    using unat_last_log_index [of r q] q n(3) by (simp add: raft_wf_def)
  let ?n1 = "n\<lparr>dn_raft := Some ?q\<rparr>"
  have "dn_raft ?n1 = Some ?q" "dn_raft_storage ?n1" "ri_region_id (dn_region ?n1) = r" "engine_rel r (take k L) h m (dn_engine ?n1)"
    using n e by simp_all
  then obtain e' where e': "dn_PersistHardState ?n1 = (Status_Ok, ?n1\<lparr>dn_engine := e'\<rparr>)"
    "engine_rel r (take k L) (Some (hard_state_of ?q)) m e'"
    by (rule dn_PersistHardState_rel)
  have "raft_wf ?q" using q(2) by (simp add: raft_wf_def)
  moreover have "rn_current_term ?q = t" using q(3) by simp
  ultimately have "replica r t L k (?n1\<lparr>dn_engine := e'\<rparr>)"
    using n q e(2) e'(2) unfolding replica_def by auto
  then show ?thesis using n(4) hd e'(1) l by (simp add: dn_HandleAppendEntries_def Let_def)
qed

text \<open>A request that starts within the follower's log brings it up to the leader's.\<close>

lemma append_loop_prefix:
  assumes L: "log_from r 0 L" and "rn_log q = take k L" and "k \<le> length L" and "p \<le> k" and "raft_wf q" and "rn_region_id q = r"
  shows "append_entries_loop (drop p L) q = Some (True, q\<lparr>rn_log := L\<rparr>)"
  using assms(2-6)
proof (induction "length L - p" arbitrary: p k q)
  case 0
  then have "q\<lparr>rn_log := L\<rparr> = q" by simp
  with 0 show ?case by simp
next
  case (Suc j)
  then have p: "p < length L" by simp
  let ?x = "L ! p"
  have x: "unat (le_index ?x) = Suc p" using log_from_nth [OF L p] by simp
  then have nz: "le_index ?x \<noteq> 0" by auto
  have d: "drop p L = ?x # drop (Suc p) L" using p by (simp add: Cons_nth_drop_Suc)
  have l: "unat (last_log_index q) = k"
    using unat_last_log_index [of r q] Suc.prems by (simp add: raft_wf_def)
  show ?case
  proof (cases "p < k")
    case True
    then have "le_index ?x \<le> last_log_index q" "rn_log q ! p = ?x" "p < length (rn_log q)"
      using x l Suc.prems(1,2) by (simp_all add: word_le_nat_alt)
    then have "append_entries_loop (drop p L) q = append_entries_loop (drop (Suc p) L) q"
      using nz x unfolding d by simp
    also have "\<dots> = Some (True, q\<lparr>rn_log := L\<rparr>)"
      by (rule Suc.hyps(1)) (use Suc.hyps(2) Suc.prems True in \<open>simp_all add: Suc_le_eq\<close>)
    finally show ?thesis .
  next
    case False
    then have pk: "p = k" using Suc.prems(3) by simp
    let ?q = "push_entry ?x q"
    have "\<not> le_index ?x \<le> last_log_index q" using x l pk by (simp add: word_le_nat_alt)
    then have "append_entries_loop (drop p L) q = append_entries_loop (drop (Suc p) L) ?q"
      using nz unfolding d by simp
    also have "\<dots> = Some (True, ?q\<lparr>rn_log := L\<rparr>)"
    proof (rule Suc.hyps(1))
      show "rn_log ?q = take (Suc p) L" using Suc.prems(1) p pk by (simp add: take_Suc_conv_app_nth)
      moreover have "log_from r 0 (take (Suc p) L)" by (rule log_from_take [OF L])
      moreover have "unat (rn_commit_index q) \<le> p" using Suc.prems(1,4) pk p by (simp add: raft_wf_def)
      ultimately show "raft_wf ?q" using Suc.prems(4,5) p by (simp add: raft_wf_def del: push_entry_frame(1))
    qed (use Suc.hyps(2) Suc.prems p in simp_all)
    also have "?q\<lparr>rn_log := L\<rparr> = q\<lparr>rn_log := L\<rparr>" by (simp add: push_entry_def)
    finally show ?thesis .
  qed
qed

lemma append_within:
  assumes q: "rn_region_id q = r" "raft_wf q" "rn_current_term q \<le> t" "rn_log q = take k L" "k \<le> length L"
    and L: "log_from r 0 L" and rq: "slice_request r t L rq" "unat (ae_prev_log_index rq) \<le> k"
    and c: "unat (ae_leader_commit rq) \<le> length L"
  obtains a q1 where "HandleAppendEntries rq q = Some (a, q1)" and "aer_success a" and "raft_wf q1"
    and "rn_log q1 = L" and "rn_region_id q1 = r" and "rn_current_term q1 = t"
    and "unat (ae_leader_commit rq) \<le> unat (rn_commit_index q1)" and "rn_last_applied q1 = rn_last_applied q"
proof -
  let ?p = "unat (ae_prev_log_index rq)" and ?q = "(step_down t q)\<lparr>rn_log := L\<rparr>"
  have t: "\<not> ae_term rq < rn_current_term q" "ae_term rq = t" using rq(1) q(3) by (simp_all add: slice_request_def)
  have "?p \<noteq> 0 \<longleftrightarrow> ae_prev_log_index rq \<noteq> 0" by (simp add: unat_eq_0)
  then have h: "HasLogAt (ae_prev_log_index rq) (ae_prev_log_term rq) q"
    using rq q(4,5) by (auto simp: HasLogAt_def slice_request_def)
  have sd: "raft_wf (step_down t q)" using q(2) by (simp add: raft_wf_def)
  have loop: "append_entries_loop (ae_entries rq) (step_down t q) = Some (True, ?q)"
    using append_loop_prefix [OF L _ q(5) rq(2) sd] rq(1) q(1,4) by (simp add: slice_request_def)
  have l: "unat (last_log_index ?q) = length L" using unat_last_log_index [of r ?q] L by simp
  define q1 where "q1 = (if ae_leader_commit rq > rn_commit_index ?q
      then ?q\<lparr>rn_commit_index := min (ae_leader_commit rq) (last_log_index ?q)\<rparr> else ?q)"
  have "HandleAppendEntries rq q = Some (\<lparr>aer_term = t, aer_success = True, aer_match_index = last_log_index q1\<rparr>, q1)"
    using t h loop q(3) by (simp add: HandleAppendEntries_def Let_def q1_def)
  moreover have "raft_wf q1"
    using q(1,2,4,5) L l c by (auto simp: q1_def raft_wf_alt min_def word_le_nat_alt word_less_nat_alt split: if_splits)
  moreover have "unat (ae_leader_commit rq) \<le> unat (rn_commit_index q1)"
    using l c by (auto simp: q1_def min_def word_le_nat_alt word_less_nat_alt)
  moreover have "rn_current_term q1 = t" using q(3) by (simp add: q1_def)
  moreover have "rn_log q1 = L" "rn_region_id q1 = r" "rn_last_applied q1 = rn_last_applied q"
    using q(1) by (simp_all add: q1_def)
  ultimately show thesis
    by (intro that [of "\<lparr>aer_term = t, aer_success = True, aer_match_index = last_log_index q1\<rparr>" q1]) simp_all
qed

lemma replica_append:
  assumes "replica r t L k n" and L: "good_log r L" and rq: "slice_request r t L rq" "unat (ae_prev_log_index rq) \<le> k"
    and c: "unat (ae_leader_commit rq) \<le> length L"
  shows "\<exists>a n'. dn_HandleAppendEntries rq n = Some (a, n') \<and> aer_success a \<and> caught_up r t L (unat (ae_leader_commit rq)) n'"
proof -
  obtain q h m where n: "dn_raft_storage n" "ri_region_id (dn_region n) = r" "k \<le> length L" "dn_raft n = Some q"
    and q: "rn_region_id q = r" "raft_wf q" "rn_current_term q \<le> t" "rn_log q = take k L"
    and e: "engine_rel r (take k L) h m (dn_engine n)" "log_gives (take (unat (rn_last_applied q)) L) m"
    using assms(1) by (auto simp: replica_def)
  obtain m0 where lf: "log_from r 0 L" and m0: "log_gives L m0" using L by (auto simp: good_log_def)
  obtain a q1 where q1: "HandleAppendEntries rq q = Some (a, q1)" "aer_success a" "raft_wf q1" "rn_log q1 = L"
    "rn_region_id q1 = r" "rn_current_term q1 = t" "unat (ae_leader_commit rq) \<le> unat (rn_commit_index q1)"
    "rn_last_applied q1 = rn_last_applied q"
    by (rule append_within [OF q n(3) lf rq c])
  let ?p = "unat (ae_prev_log_index rq)" and ?n1 = "n\<lparr>dn_raft := Some q1\<rparr>"
  let ?i = "if ae_entries rq = [] then 0 else le_index (hd (ae_entries rq))"
  have es: "ae_entries rq = drop ?p L" "?p \<le> length L" using rq(1) by (simp_all add: slice_request_def)
  have "\<exists>e1. (if ?i \<noteq> 0 then map_option snd (PersistLogFrom ?i ?n1) else Some ?n1) = Some (?n1\<lparr>dn_engine := e1\<rparr>) \<and>
      engine_rel r L h m e1"
  proof (cases "?p = length L")
    case True
    then have "k = length L" using rq(2) n(3) by simp
    then show ?thesis using e(1) es True by (intro exI [of _ "dn_engine n"]) simp
  next
    case False
    then have p: "?p < length L" using es by simp
    then have i: "ae_entries rq \<noteq> []" "hd (ae_entries rq) = L ! ?p" using es by (simp_all add: hd_drop_conv_nth)
    then have ui: "unat ?i = Suc ?p" using log_from_nth [OF lf p] by simp
    then have "?i \<noteq> 0" by (rule_tac notI) simp
    moreover have "\<exists>e1. PersistLogFrom ?i ?n1 = Some (Status_Ok, ?n1\<lparr>dn_engine := e1\<rparr>) \<and> engine_rel r L h m e1"
    proof (rule PersistLogFrom_rel)
      show "dn_raft ?n1 = Some q1" "dn_raft_storage ?n1" "ri_region_id (dn_region ?n1) = r"
        "engine_rel r (take k L) h m (dn_engine ?n1)" using n e(1) by simp_all
      show "\<forall>x \<in> set L. le_command x \<noteq> []" using log_gives_commands [OF m0] by blast
    qed (fact lf q1(4) ui rq(2) es(2))+
    ultimately show ?thesis by auto
  qed
  then obtain e1 where e1: "(if ?i \<noteq> 0 then map_option snd (PersistLogFrom ?i ?n1) else Some ?n1) = Some (?n1\<lparr>dn_engine := e1\<rparr>)"
    "engine_rel r L h m e1" by blast
  let ?n2 = "?n1\<lparr>dn_engine := e1\<rparr>" and ?q2 = "q1\<lparr>rn_last_applied := rn_commit_index q1\<rparr>"
  obtain e2 m2 where e2: "dn_ApplyCommitted ?n2 = Some (Status_Ok, ?n2\<lparr>dn_raft := Some ?q2, dn_engine := e2\<rparr>)"
    "engine_rel r L h m2 e2" "log_gives (take (unat (rn_commit_index q1)) L) m2"
    using dn_ApplyCommitted_rel [of ?n2 q1 L m0 m r h] q1 m0 e(2) e1(2) by auto
  let ?n3 = "?n2\<lparr>dn_raft := Some ?q2, dn_engine := e2\<rparr>"
  obtain e3 where e3: "dn_PersistHardState ?n3 = (Status_Ok, ?n3\<lparr>dn_engine := e3\<rparr>)"
    "engine_rel r L (Some (hard_state_of ?q2)) m2 e3"
    by (rule dn_PersistHardState_rel [of ?n3 ?q2 r L h m2]) (use n e2(2) in simp_all)
  have "dn_HandleAppendEntries rq n = Some (a, ?n3\<lparr>dn_engine := e3\<rparr>)"
    using n(4) q1(1,2) e1(1) e2(1) e3(1) by (simp only: dn_HandleAppendEntries_def Let_def option.case prod.case) simp
  moreover have "caught_up r t L (unat (ae_leader_commit rq)) (?n3\<lparr>dn_engine := e3\<rparr>)"
    using n(1,2) q1 e2(3) e3(2) by (auto simp: caught_up_def replica_def raft_wf_def)
  ultimately show ?thesis using q1(2) by blast
qed

section \<open>Messages on a network that loses nothing\<close>

lemma node_at_service: "node_at w ep i = Some n \<Longrightarrow> \<exists>s. nw_stores w ep = Some s \<and> service_node s i = Some n \<and> distributed s"
  using not_distributed_node by (cases "nw_stores w ep") (force simp: node_at_def)+

lemma net_append_healthy:
  assumes "nw_events w = []" and "node_at w (si_client_endpoint store) (ae_region_id rq) = Some m"
    and "dn_HandleAppendEntries rq m = Some (a, m')" and "length (ae_entries rq) < 2 ^ 64"
    and cl: "dn_CallStore net_call store ''store.RaftAppendEntries'' (PutAppendEntriesFields fmempty rq) n w = (resp, n1, w1)"
  shows "rs_ok resp" and "DecodeFields (rs_payload resp) = Inr (PutAppendEntriesResponseFields fmempty a)"
    and "nw_events w1 = []" and "node_at w1 (si_client_endpoint store) (ae_region_id rq) = Some m'"
proof -
  let ?ep = "si_client_endpoint store" and ?i = "ae_region_id rq"
  obtain s where s: "nw_stores w ?ep = Some s" "service_node s ?i = Some m" "distributed s"
    using node_at_service [OF assms(2)] by blast
  then obtain s' where s': "service_AppendEntries rq s = Some (a, s')" "service_node s' ?i = Some m'"
    using service_AppendEntries_node [OF s(3,2)] assms(3) by auto
  obtain req where req: "net_call ?ep req w = (resp, w1)" "rq_method req = ''store.RaftAppendEntries''"
    "rq_payload req = EncodeFields (PutAppendEntriesFields fmempty rq)"
    using cl by (force simp: dn_CallStore_def Let_def split: prod.splits)
  note msg = handle_append_message [OF req(2,3) assms(4), of no_peers s "()"]
  have "resp = MakeRpcOk req (EncodeFields (PutAppendEntriesResponseFields fmempty a)) \<and>
      w1 = w\<lparr>nw_stores := (nw_stores w)(?ep := Some s')\<rparr>"
    using req(1) msg s s' assms(1) by (auto simp: net_call_def next_event_def)
  then show "rs_ok resp" "DecodeFields (rs_payload resp) = Inr (PutAppendEntriesResponseFields fmempty a)"
    "nw_events w1 = []" "node_at w1 ?ep ?i = Some m'"
    using assms(1) s'(2) by (simp_all add: decode_encode_fields node_at_def)
qed

lemma service_RequestVote_node:
  "distributed s \<Longrightarrow> service_node s (rv_region_id rq) = Some n \<Longrightarrow>
     map_option (map_prod id (\<lambda>s'. service_node s' (rv_region_id rq))) (service_RequestVote rq s) =
     Some (map_prod id Some (dn_HandleRequestVote rq n))"
  by (cases "sv_distributed_store s")
     (simp_all add: service_node_def service_RequestVote_def ds_HandleRequestVote_def FindRegion_def distributed_def
       map_prod_def split: prod.splits)

lemma net_vote_healthy:
  assumes "nw_events w = []" and "node_at w (si_client_endpoint store) (rv_region_id rq) = Some m"
    and "dn_HandleRequestVote rq m = (a, m')"
    and cl: "dn_CallStore net_call store ''store.RaftRequestVote'' (PutRequestVoteFields fmempty rq) n w = (resp, n1, w1)"
  shows "rs_ok resp" and "DecodeFields (rs_payload resp) = Inr (PutRequestVoteResponseFields fmempty a)"
    and "nw_events w1 = []" and "node_at w1 (si_client_endpoint store) (rv_region_id rq) = Some m'"
proof -
  let ?ep = "si_client_endpoint store" and ?i = "rv_region_id rq"
  obtain s where s: "nw_stores w ?ep = Some s" "service_node s ?i = Some m" "distributed s"
    using node_at_service [OF assms(2)] by blast
  then obtain s' where s': "service_RequestVote rq s = Some (a, s')" "service_node s' ?i = Some m'"
    using service_RequestVote_node [OF s(3,2)] assms(3) by auto
  obtain req where req: "net_call ?ep req w = (resp, w1)" "rq_method req = ''store.RaftRequestVote''"
    "rq_payload req = EncodeFields (PutRequestVoteFields fmempty rq)"
    using cl by (force simp: dn_CallStore_def Let_def split: prod.splits)
  have "RpcServer_Handle (store_rpc_server no_peers) req (s, ()) =
      Some (MakeRpcOk req (EncodeFields (PutRequestVoteResponseFields fmempty a)), s', ())"
    using req(2,3) s(3) s'(1) get_put_vote [of fmempty rq]
    by (simp add: store_dispatch store_HandleRaftRequestVote_def)
  then have "resp = MakeRpcOk req (EncodeFields (PutRequestVoteResponseFields fmempty a)) \<and>
      w1 = w\<lparr>nw_stores := (nw_stores w)(?ep := Some s')\<rparr>"
    using req(1) s assms(1) by (auto simp: net_call_def next_event_def)
  then show "rs_ok resp" "DecodeFields (rs_payload resp) = Inr (PutRequestVoteResponseFields fmempty a)"
    "nw_events w1 = []" "node_at w1 ?ep ?i = Some m'"
    using assms(1) s'(2) by (simp_all add: decode_encode_fields node_at_def)
qed

section \<open>Replication to one store\<close>

lemma replication_request_exists:
  assumes "1 \<le> unat i" and "unat i \<le> Suc (length (rn_log raft))"
  obtains rq where "replication_request i c n raft = Some rq" and "unat (ae_prev_log_index rq) = unat i - 1"
proof -
  have nz: "i \<noteq> 0" using assms(1) by auto
  then have u: "unat (i - 1) = unat i - 1" using unat_minus_one_pos [of i] by simp
  then have "\<not> length (rn_log raft) < unat (i - 1)" using assms(2) by simp
  then have "\<exists>rq. replication_request i c n raft = Some rq" using nz by (simp add: replication_request_def Let_def)
  then obtain rq where rq: "replication_request i c n raft = Some rq" by blast
  then have "ae_prev_log_index rq = i - 1" using nz by (auto simp: replication_request_def Let_def split: if_splits)
  with that [OF rq] u show thesis by simp
qed

lemma attempts_catch_up:
  assumes w: "nw_events w = []" "node_at w (si_client_endpoint store) r = Some m" "replica r t L k m"
    and raft: "rn_log raft = L" "rn_current_term raft = t" and L: "good_log r L" and n: "ri_region_id (dn_region n) = r"
    and i: "1 \<le> unat i" "unat i \<le> Suc (length L)" and c: "unat c \<le> length L"
  shows "\<exists>n' w' m'. replicate_attempts net_call (Suc (Suc j)) store i c raft n w = Some (Inr True, n', w') \<and>
     nw_events w' = [] \<and> node_at w' (si_client_endpoint store) r = Some m' \<and> caught_up r t L (unat c) m'"
proof -
  have lf: "log_from r 0 (rn_log raft)" and len: "length L < 2 ^ 64" using L raft by (simp_all add: good_log_def)
  have fin: "\<exists>n' w' m'. replicate_attempts net_call (Suc j) store i c raft n w = Some (Inr True, n', w') \<and>
      nw_events w' = [] \<and> node_at w' (si_client_endpoint store) r = Some m' \<and> caught_up r t L (unat c) m'"
    if w: "nw_events w = []" "node_at w (si_client_endpoint store) r = Some m" "replica r t L k m"
      and n: "ri_region_id (dn_region n) = r" and i: "1 \<le> unat i" "unat i - 1 \<le> k"
    for w m n i j
  proof -
    have "k \<le> length L" using w(3) by (simp add: replica_def)
    then have i2: "unat i \<le> Suc (length (rn_log raft))" using i(2) raft(1) by simp
    obtain rq where rq: "replication_request i c n raft = Some rq" "unat (ae_prev_log_index rq) = unat i - 1"
      by (rule replication_request_exists [OF i(1) i2])
    have sl: "slice_request r t L rq" "ae_leader_commit rq = c"
      using replication_request_slice [OF lf rq(1)] n raft by simp_all
    obtain a m' where am: "dn_HandleAppendEntries rq m = Some (a, m')" "aer_success a" "caught_up r t L (unat c) m'"
      using replica_append [OF w(3) L sl(1)] rq(2) i(2) sl(2) c by auto
    obtain resp n1 w1 where cl: "dn_CallStore net_call store ''store.RaftAppendEntries'' (PutAppendEntriesFields fmempty rq) n w = (resp, n1, w1)"
      by (metis prod_cases3)
    have rid: "ae_region_id rq = r" and le: "length (ae_entries rq) < 2 ^ 64" using sl(1) len by (simp_all add: slice_request_def)
    note h = net_append_healthy [OF w(1) w(2) [folded rid] am(1) le cl]
    show ?thesis using rq(1) cl h am(2,3) rid by (simp add: get_put_append_response)
  qed
  show ?thesis
  proof (cases "unat i - 1 \<le> k")
    case True
    then show ?thesis using fin [OF w n i(1), of "Suc j"] by blast
  next
    case False
    have i2: "unat i \<le> Suc (length (rn_log raft))" using i(2) raft(1) by simp
    obtain rq where rq: "replication_request i c n raft = Some rq" "unat (ae_prev_log_index rq) = unat i - 1"
      by (rule replication_request_exists [OF i(1) i2])
    have sl: "slice_request r t L rq" using replication_request_slice [OF lf rq(1)] n raft by simp
    obtain a m' where am: "dn_HandleAppendEntries rq m = Some (a, m')" "\<not> aer_success a" "unat (aer_match_index a) = k"
      "replica r t L k m'"
      using replica_append_behind [OF w(3) L sl] rq(2) False by auto
    obtain resp n1 w1 where cl: "dn_CallStore net_call store ''store.RaftAppendEntries'' (PutAppendEntriesFields fmempty rq) n w = (resp, n1, w1)"
      by (metis prod_cases3)
    have rid: "ae_region_id rq = r" and le: "length (ae_entries rq) < 2 ^ 64" using sl len by (simp_all add: slice_request_def)
    note h = net_append_healthy [OF w(1) w(2) [folded rid] am(1) le cl]
    let ?i = "if aer_match_index a = 0 then 1 else aer_match_index a"
    have i': "1 \<le> unat ?i" "unat ?i - 1 \<le> k" using am(3) by (auto simp: Suc_le_eq unat_gt_0)
    have n1: "ri_region_id (dn_region n1) = r" using same_node_sel(3) [OF dn_CallStore_same [OF cl]] n by simp
    have "replicate_attempts net_call (Suc (Suc j)) store i c raft n w = replicate_attempts net_call (Suc j) store ?i c raft n1 w1"
      using rq(1) cl h am(2) by (simp add: get_put_append_response del: replicate_attempts.simps(2))
         (simp add: rq(1) cl h am(2) get_put_append_response)
    then show ?thesis using fin [OF h(3) h(4) [unfolded rid] am(4) n1 i', of j] by simp
  qed
qed

section \<open>The loops over the peers\<close>

text \<open>The stores at the endpoints \<open>P\<close> hold replicas of the leader's log; those at \<open>Q\<close> have all of it.\<close>

definition in_step :: "u64 \<Rightarrow> u64 \<Rightarrow> LogEntry list \<Rightarrow> Endpoint set \<Rightarrow> network \<Rightarrow> bool" where
  "in_step r t L P w \<longleftrightarrow> nw_events w = [] \<and> (\<forall>ep \<in> P. \<exists>m k. node_at w ep r = Some m \<and> replica r t L k m)"

definition all_up :: "u64 \<Rightarrow> u64 \<Rightarrow> LogEntry list \<Rightarrow> nat \<Rightarrow> Endpoint set \<Rightarrow> network \<Rightarrow> bool" where
  "all_up r t L c Q w \<longleftrightarrow> (\<forall>ep \<in> Q. \<exists>m. node_at w ep r = Some m \<and> caught_up r t L c m)"

definition endpoints :: "DistributedRegionNode \<Rightarrow> Peer list \<Rightarrow> Endpoint set" where
  "endpoints n peers = set (List.map_filter (peer_endpoint n) peers)"

text \<open>Every peer other than the local one is on a known store.\<close>

definition located :: "DistributedRegionNode \<Rightarrow> Peer list \<Rightarrow> bool" where
  "located n peers \<longleftrightarrow> (\<forall>p \<in> set peers. pr_peer_id p \<noteq> pr_peer_id (dn_local_peer n) \<longrightarrow> peer_endpoint n p \<noteq> None)"

abbreviation others :: "DistributedRegionNode \<Rightarrow> Peer list \<Rightarrow> nat" where
  "others n peers \<equiv> length (filter (\<lambda>p. pr_peer_id p \<noteq> pr_peer_id (dn_local_peer n)) peers)"

lemma replicate_one:
  assumes w: "in_step r t L P w" "all_up r t L (unat c) Q w" and ep: "si_client_endpoint store \<in> P"
    and raft: "dn_raft n = Some raft" "rn_log raft = L" "rn_current_term raft = t" "good_log r L" "ri_region_id (dn_region n) = r"
    and i: "1 \<le> unat i" "unat i \<le> Suc (length L)" and c: "unat c \<le> length L"
  shows "\<exists>n' w'. ReplicateToStore net_call store i c n w = Some (Inr True, n', w') \<and> same_node n n' \<and>
     in_step r t L P w' \<and> all_up r t L (unat c) (insert (si_client_endpoint store) Q) w'"
proof -
  let ?ep = "si_client_endpoint store"
  obtain m k where m: "nw_events w = []" "node_at w ?ep r = Some m" "replica r t L k m"
    using w(1) ep by (auto simp: in_step_def)
  obtain n' w' m' where at: "replicate_attempts net_call 8 store i c raft n w = Some (Inr True, n', w')"
    "nw_events w' = []" "node_at w' ?ep r = Some m'" "caught_up r t L (unat c) m'"
    using attempts_catch_up [OF m raft(2-5) i c, of 6] by (auto simp: eval_nat_numeral)
  note fr = net.attempts_frame [OF at(1)]
  have "\<exists>m k. node_at w' ep r = Some m \<and> replica r t L k m" if "ep \<in> P" for ep
  proof (cases "ep = ?ep")
    case True
    then show ?thesis using at(3,4) by (auto simp: caught_up_def)
  next
    case False
    then show ?thesis using fr that w(1) by (auto simp: in_step_def)
  qed
  moreover have "\<exists>m. node_at w' ep r = Some m \<and> caught_up r t L (unat c) m" if "ep \<in> insert ?ep Q" for ep
    using fr that w(2) at(3,4) by (cases "ep = ?ep") (auto simp: all_up_def)
  ultimately show ?thesis using at(1,2) fr raft(1) by (auto simp: ReplicateToStore_def in_step_def all_up_def)
qed

lemma endpoints_Cons:
  "endpoints n (p # ps) = (case peer_endpoint n p of None \<Rightarrow> endpoints n ps | Some ep \<Rightarrow> insert ep (endpoints n ps))"
  by (simp add: endpoints_def List.map_filter_simps split: option.splits)

lemma replicate_peers_in_step:
  assumes "in_step r t L P w" "all_up r t L (unat c) Q w" and "endpoints n peers \<subseteq> P" and "located n peers"
    and "dn_raft n = Some raft" "rn_log raft = L" "rn_current_term raft = t" "good_log r L" "ri_region_id (dn_region n) = r"
    and "1 \<le> unat i" "unat i \<le> Suc (length L)" "unat c \<le> length L"
  shows "\<exists>n' w'. replicate_peers net_call i c peers n w = Some (Inr (others n peers), n', w') \<and> same_node n n' \<and>
     in_step r t L P w' \<and> all_up r t L (unat c) (Q \<union> endpoints n peers) w'"
  using assms(1-5,9)
proof (induction peers arbitrary: n w Q)
  case Nil
  then show ?case by (auto simp: endpoints_def List.map_filter_simps)
next
  case (Cons p peers)
  have loc: "located n peers" using Cons.prems(4) by (simp add: located_def)
  show ?case
  proof (cases "peer_endpoint n p")
    case None
    then have "pr_peer_id p = pr_peer_id (dn_local_peer n)" using Cons.prems(4) by (auto simp: located_def)
    then show ?thesis using Cons.IH [OF Cons.prems(1,2) _ loc Cons.prems(5,6)] Cons.prems(3) None
      by (simp add: endpoints_Cons)
  next
    case (Some ep)
    then obtain store where st: "FindStoreByPeer (pr_peer_id p) n = Some store" "ep = si_client_endpoint store"
      "pr_peer_id p \<noteq> pr_peer_id (dn_local_peer n)"
      by (auto simp: peer_endpoint_def split: if_splits)
    have P: "si_client_endpoint store \<in> P" "endpoints n peers \<subseteq> P" using Cons.prems(3) Some st(2) by (simp_all add: endpoints_Cons)
    obtain n1 w1 where 1: "ReplicateToStore net_call store i c n w = Some (Inr True, n1, w1)" "same_node n n1"
      "in_step r t L P w1" "all_up r t L (unat c) (insert ep Q) w1"
      using replicate_one [OF Cons.prems(1,2) P(1) Cons.prems(5) assms(6-8) Cons.prems(6) assms(10-12)] st(2) by blast
    have e1: "endpoints n1 peers = endpoints n peers" "located n1 peers" "others n1 peers = others n peers"
      using loc by (simp_all add: endpoints_def located_def peer_endpoint_same [OF 1(2)] same_node_sel(4) [OF 1(2)])
    obtain n2 w2 where 2: "replicate_peers net_call i c peers n1 w1 = Some (Inr (others n peers), n2, w2)" "same_node n1 n2"
      "in_step r t L P w2" "all_up r t L (unat c) (insert ep Q \<union> endpoints n peers) w2"
      using Cons.IH [OF 1(3,4), of n1] P(2) e1 same_node_sel [OF 1(2)] Cons.prems(5,6) by auto
    then show ?thesis
      using 1 st Some by (auto simp: endpoints_Cons intro: same_node_trans)
  qed
qed

lemma broadcast_in_step:
  assumes "in_step r t L P w" "all_up r t L (unat c) Q w" and "endpoints n peers \<subseteq> P"
    and "dn_raft n = Some raft" "rn_log raft = L" "rn_current_term raft = t" "good_log r L" "ri_region_id (dn_region n) = r"
    and "1 \<le> unat i" "unat i \<le> Suc (length L)" "unat c \<le> length L"
  shows "\<exists>n' w'. broadcast_peers net_call i c peers n w = Some (n', w') \<and> same_node n n' \<and>
     in_step r t L P w' \<and> all_up r t L (unat c) (Q \<union> endpoints n peers) w'"
  using assms(1-4,8)
proof (induction peers arbitrary: n w Q)
  case Nil
  then show ?case by (auto simp: endpoints_def List.map_filter_simps)
next
  case (Cons p peers)
  show ?case
  proof (cases "peer_endpoint n p")
    case None
    then have "broadcast_peers net_call i c (p # peers) n w = broadcast_peers net_call i c peers n w"
      by (auto simp: peer_endpoint_def split: if_splits option.splits)
    then show ?thesis using Cons.IH [OF Cons.prems(1,2) _ Cons.prems(4,5)] Cons.prems(3) None
      by (simp add: endpoints_Cons)
  next
    case (Some ep)
    then obtain store where st: "FindStoreByPeer (pr_peer_id p) n = Some store" "ep = si_client_endpoint store"
      "pr_peer_id p \<noteq> pr_peer_id (dn_local_peer n)"
      by (auto simp: peer_endpoint_def split: if_splits)
    have P: "si_client_endpoint store \<in> P" "endpoints n peers \<subseteq> P" using Cons.prems(3) Some st(2) by (simp_all add: endpoints_Cons)
    obtain n1 w1 where 1: "ReplicateToStore net_call store i c n w = Some (Inr True, n1, w1)" "same_node n n1"
      "in_step r t L P w1" "all_up r t L (unat c) (insert ep Q) w1"
      using replicate_one [OF Cons.prems(1,2) P(1) Cons.prems(4) assms(5-7) Cons.prems(5) assms(9-11)] st(2) by blast
    have e1: "endpoints n1 peers = endpoints n peers" by (simp add: endpoints_def peer_endpoint_same [OF 1(2)])
    obtain n2 w2 where 2: "broadcast_peers net_call i c peers n1 w1 = Some (n2, w2)" "same_node n1 n2"
      "in_step r t L P w2" "all_up r t L (unat c) (insert ep Q \<union> endpoints n peers) w2"
      using Cons.IH [OF 1(3,4), of n1] P(2) e1 same_node_sel [OF 1(2)] Cons.prems(4,5) by auto
    then show ?thesis
      using 1 st Some by (auto simp: endpoints_Cons intro: same_node_trans)
  qed
qed

section \<open>A write at the leader\<close>

lemma encodes_unique:
  assumes "encodes cmd us" and "encodes cmd us'"
  shows "apply_mutations us m = apply_mutations us' m"
proof -
  let ?e = "(FileKvEngine_new [] [])\<lparr>kv_data := m\<rparr>"
  have "WriteBatch us ?e = WriteBatch us' ?e" using assms by (simp add: encodes_def)
  then have "kv_data (snd (WriteBatch us ?e)) = kv_data (snd (WriteBatch us' ?e))" by (rule arg_cong)
  moreover have "kv_io ?e = []" by (simp add: FileKvEngine_new_def)
  ultimately show ?thesis by (simp add: WriteBatch_healthy)
qed

lemma log_gives_unique: "log_gives L m \<Longrightarrow> log_gives L m' \<Longrightarrow> m' = m"
proof (induction arbitrary: m' rule: log_gives.induct)
  case start
  then show ?case by (cases rule: log_gives.cases) simp_all
next
  case (entry L m x us)
  from entry.prems obtain m1 us1 where "m' = apply_mutations us1 m1" "log_gives L m1" "encodes (le_command x) us1"
    by (cases rule: log_gives.cases) auto
  then show ?case using entry.IH encodes_unique [OF entry.hyps(3)] by simp
qed

definition same_config :: "DistributedRegionNode \<Rightarrow> DistributedRegionNode \<Rightarrow> bool" where
  "same_config n n' \<longleftrightarrow> dn_region n' = dn_region n \<and> dn_local_peer n' = dn_local_peer n \<and> dn_stores n' = dn_stores n"

lemma same_config_endpoint: "same_config n n' \<Longrightarrow> peer_endpoint n' = peer_endpoint n"
  by (auto simp: same_config_def peer_endpoint_def FindStoreByPeer_def fun_eq_iff split: option.splits)

lemma same_config_node: "same_node n n' \<Longrightarrow> same_config n n'"
  by (simp add: same_config_def same_node_sel)

text \<open>
  The node of the region in the store that takes the writes: everything in its log is applied, and
  its data is \<open>m\<close>.
\<close>

definition hosts :: "u64 \<Rightarrow> u64 \<Rightarrow> LogEntry list \<Rightarrow> kv_map \<Rightarrow> DistributedRegionNode \<Rightarrow> bool" where
  "hosts r t L m n \<longleftrightarrow> replica r t L (length L) n \<and> good_log r L \<and> log_gives L m \<and> (\<forall>x \<in> set L. le_term x \<le> t) \<and>
     (\<exists>q. dn_raft n = Some q \<and> rn_current_term q = t \<and> unat (rn_last_applied q) = length L) \<and>
     located n (ri_peers (dn_region n)) \<and> distinct (map pr_peer_id (ri_peers (dn_region n))) \<and>
     dn_local_peer n \<in> set (ri_peers (dn_region n))"

definition is_leader :: "DistributedRegionNode \<Rightarrow> bool" where
  "is_leader n \<longleftrightarrow> (\<exists>q. dn_raft n = Some q \<and> rn_role q = kLeader)"

lemma hosts_parts:
  assumes "hosts r t L m n"
  obtains q h where "dn_raft n = Some q" and "dn_raft_storage n" and "ri_region_id (dn_region n) = r"
    and "rn_region_id q = r" and "raft_wf q" and "rn_current_term q = t" and "rn_log q = L"
    and "unat (rn_last_applied q) = length L" and "unat (rn_commit_index q) = length L"
    and "engine_rel r L h m (dn_engine n)"
proof -
  obtain q h m' where q: "dn_raft n = Some q" "dn_raft_storage n" "ri_region_id (dn_region n) = r" "rn_region_id q = r"
    "raft_wf q" "rn_log q = L" "engine_rel r L h m' (dn_engine n)" "log_gives (take (unat (rn_last_applied q)) L) m'"
    "rn_current_term q = t" "unat (rn_last_applied q) = length L"
    using assms by (auto simp: hosts_def replica_def)
  then have "m' = m" using assms log_gives_unique [of L m m'] by (simp add: hosts_def)
  moreover have "unat (rn_commit_index q) = length L" using q(5,6,10) by (simp add: raft_wf_alt)
  ultimately show thesis using that q by blast
qed

lemma others_count:
  assumes "distinct (map pr_peer_id peers)" and "p \<in> set peers" and "pr_peer_id p = i"
  shows "Suc (length (filter (\<lambda>q. pr_peer_id q \<noteq> i) peers)) = length peers"
  using assms
proof (induction peers)
  case (Cons a peers)
  show ?case
  proof (cases "pr_peer_id a = i")
    case True
    then have "filter (\<lambda>q. pr_peer_id q \<noteq> i) peers = peers" using Cons.prems(1) by (auto simp: filter_id_conv image_iff)
    with True show ?thesis by simp
  qed (use Cons in auto)
qed simp

lemma replica_extend: "replica r t L k n \<Longrightarrow> replica r t (L @ [x]) k n"
proof -
  assume a: "replica r t L k n"
  have "take (unat (rn_last_applied q)) L = take (unat (rn_last_applied q)) (L @ [x])"
    if "raft_wf q" "rn_log q = take k L" "k \<le> length L" for q
    using that by (simp add: raft_wf_alt)
  with a show ?thesis by (fastforce simp: replica_def)
qed

lemma in_step_extend: "in_step r t L P w \<Longrightarrow> in_step r t (L @ [x]) P w"
  unfolding in_step_def using replica_extend by blast

lemma propose_in_step:
  assumes n: "hosts r t L m n" "is_leader n" and w: "in_step r t L (endpoints n (ri_peers (dn_region n))) w"
    and us: "encodes cmd us" and room: "length L + 3 < 2 ^ 64"
  shows "\<exists>n' w' x. dn_ProposeAndReplicate net_call cmd n w = Some (Status_Ok, n', w') \<and> same_config n n' \<and>
     hosts r t (L @ [x]) (apply_mutations us m) n' \<and> is_leader n' \<and>
     in_step r t (L @ [x]) (endpoints n (ri_peers (dn_region n))) w' \<and>
     all_up r t (L @ [x]) (Suc (length L)) (endpoints n (ri_peers (dn_region n))) w'"
proof -
  let ?peers = "ri_peers (dn_region n)"
  let ?P = "endpoints n ?peers"
  obtain q h where q: "dn_raft n = Some q" "dn_raft_storage n" "ri_region_id (dn_region n) = r" "rn_region_id q = r"
    "raft_wf q" "rn_current_term q = t" "rn_log q = L" "unat (rn_last_applied q) = length L"
    "unat (rn_commit_index q) = length L" "engine_rel r L h m (dn_engine n)"
    by (rule hosts_parts [OF n(1)])
  have role: "rn_role q = kLeader" using n(2) q(1) by (simp add: is_leader_def)
  define x where "x = \<lparr>le_region_id = r, le_index = last_log_index q + 1, le_term = t, le_type = kNormal, le_command = cmd\<rparr>"
  let ?q1 = "push_entry x q" and ?L = "L @ [x]"
  have pr: "Propose kNormal cmd q = Inr (x, ?q1)" using role q(4,6) by (simp add: Propose_def x_def Let_def)
  have wf1: "raft_wf ?q1" "unat (le_index x) = Suc (length L)"
    using Propose_wf [OF q(5) _ pr] room q(7) by simp_all
  have good: "good_log r ?L"
    using n(1) wf1(1) q(4,7) room us log_gives.entry [of L m x us]
    by (auto simp: good_log_def hosts_def raft_wf_def x_def sorted_append)
  have cmd: "le_command x \<noteq> []" using us by (simp add: x_def encodes_def)
  have lf: "log_from r 0 ?L" using good by (simp add: good_log_def)
  obtain e1 where e1: "AppendLog file_kv_ops x (dn_engine n) = (Status_Ok, e1)" "engine_rel r ?L h m e1"
    by (rule engine_rel_append [OF q(10) lf cmd])
  let ?n2 = "n\<lparr>dn_raft := Some ?q1, dn_engine := e1\<rparr>"
  have c2: "same_config n ?n2" by (simp add: same_config_def)
  have P2: "endpoints ?n2 ?peers = ?P" "located ?n2 ?peers" "others ?n2 ?peers = others n ?peers"
    using n(1) by (simp_all add: endpoints_def same_config_endpoint [OF c2] located_def hosts_def)
  have ci: "unat (rn_commit_index ?q1) \<le> length ?L" using q(9) by simp
  have xi: "1 \<le> unat (le_index x)" "unat (le_index x) \<le> Suc (length ?L)" "unat (le_index x) \<le> length ?L"
    using wf1(2) by simp_all
  obtain n3 w3 where 3: "replicate_peers net_call (le_index x) (rn_commit_index ?q1) ?peers ?n2 w = Some (Inr (others n ?peers), n3, w3)"
    "same_node ?n2 n3" "in_step r t ?L ?P w3"
    using replicate_peers_in_step [OF in_step_extend [OF w], of x "rn_commit_index ?q1" "{}" ?n2 ?peers ?q1 "le_index x"]
      P2 q good xi ci by (auto simp: all_up_def)
  have maj: "\<not> 1 + others n ?peers \<le> length (ri_peers (dn_region n3)) div 2"
    using others_count [of ?peers "dn_local_peer n"] n(1) same_node_sel(3) [OF 3(2)] by (auto simp: hosts_def)
  let ?q2 = "SetCommitIndex (le_index x) ?q1"
  have q2: "rn_commit_index ?q2 = le_index x" "rn_log ?q2 = ?L" "raft_wf ?q2" "rn_last_applied ?q2 = rn_last_applied q"
    using wf1 q(8) SetCommitIndex_wf [OF wf1(1), of "le_index x"]
    by (simp_all add: SetCommitIndex_def last_log_index_def word_le_nat_alt q(7))
  let ?n3 = "n3\<lparr>dn_raft := Some ?q2\<rparr>" and ?q4 = "?q2\<lparr>rn_last_applied := le_index x\<rparr>"
  have lm: "log_gives (take (unat (rn_last_applied ?q2)) ?L) m" "log_gives ?L (apply_mutations us m)"
    using n(1) q(8) q2(4) log_gives.entry [of L m x us] us by (simp_all add: hosts_def x_def)
  obtain e4 m4 where 4: "dn_ApplyCommitted ?n3 = Some (Status_Ok, ?n3\<lparr>dn_raft := Some ?q4, dn_engine := e4\<rparr>)"
    "engine_rel r ?L h m4 e4" "log_gives (take (unat (le_index x)) ?L) m4"
    using dn_ApplyCommitted_rel [of ?n3 ?q2 ?L "apply_mutations us m" m r h] q2 lm e1(2) same_node_sel(6) [OF 3(2)] by auto
  have m4: "m4 = apply_mutations us m" using 4(3) lm(2) wf1(2) log_gives_unique by simp
  let ?n4 = "?n3\<lparr>dn_raft := Some ?q4, dn_engine := e4\<rparr>"
  obtain e5 where 5: "dn_PersistHardState ?n4 = (Status_Ok, ?n4\<lparr>dn_engine := e5\<rparr>)" "engine_rel r ?L (Some (hard_state_of ?q4)) m4 e5"
    by (rule dn_PersistHardState_rel [of ?n4 ?q4 r ?L h m4]) (use q(2,3) same_node_sel [OF 3(2)] 4(2) in simp_all)
  let ?n5 = "?n4\<lparr>dn_engine := e5\<rparr>"
  have s5: "same_config n ?n5" using same_node_sel [OF 3(2)] by (simp add: same_config_def)
  have q4: "rn_log ?q4 = ?L" "rn_current_term ?q4 = t" "raft_wf ?q4" "rn_region_id ?q4 = r" "rn_role ?q4 = kLeader"
    "last_log_index ?q4 + 1 = last_log_index ?q1 + 1"
    using q2 q role by (simp_all add: SetCommitIndex_def raft_wf_def last_log_index_def)
  have li: "unat (last_log_index ?q4 + 1) = Suc (length ?L)"
    using unat_last_log_index [of r ?q4] q4 lf room by (simp add: unat_Suc_bound)
  have r5: "dn_raft ?n5 = Some ?q4" "ri_region_id (dn_region ?n5) = r" "ri_peers (dn_region ?n5) = ?peers"
    "endpoints ?n5 ?peers = ?P"
    using s5 q(3) same_config_endpoint [OF s5] by (simp_all only: same_config_def endpoints_def) simp_all
  obtain n6 w6 where 6: "broadcast_peers net_call (last_log_index ?q4 + 1) (le_index x) ?peers ?n5 w3 = Some (n6, w6)"
    "same_node ?n5 n6" "in_step r t ?L ?P w6" "all_up r t ?L (unat (le_index x)) ?P w6"
    using broadcast_in_step [OF 3(3), of "le_index x" "{}" ?n5 ?peers ?q4 "last_log_index ?q4 + 1"] r5 q4 good li xi
    by (auto simp: all_up_def)
  have "EnsureLeader net_call n w = Some (Status_Ok, n, w)" using q(1) role by (simp add: EnsureLeader_def)
  then have run: "dn_ProposeAndReplicate net_call cmd n w = Some (Status_Ok, n6, w6)"
    using q(1,2) pr e1(1) 3(1) maj 4(1) 5(1) 6(1) r5(3)
    by (simp add: dn_ProposeAndReplicate_def dn_BroadcastCommit_def Let_def)
  have s6: "same_config n n6" using s5 same_node_sel [OF 6(2)] by (simp add: same_config_def)
  have "replica r t ?L (length ?L) n6"
    using q(2,3) same_node_sel [OF 6(2)] same_node_sel [OF 3(2)] q4 5(2) 4(3) wf1(2) by (auto simp: replica_def)
  then have "hosts r t ?L (apply_mutations us m) n6"
    using n(1) good lm(2) s6 same_node_sel [OF 6(2)] q4 wf1(2)
    by (auto simp: hosts_def located_def same_config_endpoint [OF s6] same_config_def x_def)
  moreover have "is_leader n6" using q4(5) same_node_sel [OF 6(2)] by (simp add: is_leader_def)
  ultimately show ?thesis using run s6 6(3,4) wf1(2) by auto
qed

section \<open>Elections\<close>

lemma caught_up_votes:
  assumes "caught_up r t L c n" and "log_from r 0 L" and "t < rv_term rq" and "unat (rv_last_log_index rq) = length L"
    and "rv_last_log_term rq = (if L = [] then 0 else le_term (last L))"
  shows "\<exists>a n'. dn_HandleRequestVote rq n = (a, n') \<and> rvr_vote_granted a \<and> caught_up r (rv_term rq) L c n'"
proof -
  obtain q h m where n: "dn_raft_storage n" "ri_region_id (dn_region n) = r" "dn_raft n = Some q"
    and q: "rn_region_id q = r" "raft_wf q" "rn_current_term q = t" "rn_log q = L" "c \<le> unat (rn_last_applied q)"
    and e: "engine_rel r L h m (dn_engine n)" "log_gives (take (unat (rn_last_applied q)) L) m"
    using assms(1) by (auto simp: caught_up_def replica_def)
  let ?q = "(BecomeFollower (rv_term rq) q)\<lparr>rn_voted_for := Some (rv_candidate_id rq)\<rparr>"
  have "unat (last_log_index q) = length L" using unat_last_log_index [of r q] q(4) assms(2) by simp
  then have "IsCandidateLogUpToDate (rv_last_log_index rq) (rv_last_log_term rq) (BecomeFollower (rv_term rq) q)"
    using assms(4,5) q(4) by (simp add: IsCandidateLogUpToDate_def last_log_term_def word_le_nat_alt)
  then have v: "HandleRequestVote rq q = (\<lparr>rvr_term = rv_term rq, rvr_vote_granted = True\<rparr>, ?q)"
    using assms(3) q(3) by (auto simp: HandleRequestVote_def Let_def BecomeFollower_vote max_def)
  let ?n1 = "n\<lparr>dn_raft := Some ?q\<rparr>"
  obtain e' where e': "dn_PersistHardState ?n1 = (Status_Ok, ?n1\<lparr>dn_engine := e'\<rparr>)" "engine_rel r L (Some (hard_state_of ?q)) m e'"
    by (rule dn_PersistHardState_rel [of ?n1 ?q r L h m]) (use n e in simp_all)
  have "raft_wf ?q" using q(2) by (simp add: raft_wf_def)
  then have "caught_up r (rv_term rq) L c (?n1\<lparr>dn_engine := e'\<rparr>)"
    using n q e(2) e'(2) assms(3) by (auto simp: caught_up_def replica_def max_def)
  then show ?thesis using n(3) v e'(1) by (simp add: dn_HandleRequestVote_def)
qed

lemma request_votes_all:
  assumes "nw_events w = []" and "all_up r t L c (endpoints n peers) w" and "distinct (List.map_filter (peer_endpoint n) peers)"
    and "located n peers" and "ri_region_id (dn_region n) = r"
    and rq: "log_from r 0 L" "t < rv_term rq" "unat (rv_last_log_index rq) = length L"
      "rv_last_log_term rq = (if L = [] then 0 else le_term (last L))" "rv_region_id rq = r"
  shows "\<exists>n' w'. request_votes net_call rq peers n w = Some (Inr (others n peers), n', w') \<and> same_node n n' \<and>
     nw_events w' = [] \<and> all_up r (rv_term rq) L c (endpoints n peers) w' \<and>
     (\<forall>ep. ep \<notin> endpoints n peers \<longrightarrow> node_at w' ep r = node_at w ep r)"
  using assms(1-5)
proof (induction peers arbitrary: n w)
  case Nil
  then show ?case by (auto simp: endpoints_def List.map_filter_simps all_up_def)
next
  case (Cons p peers)
  have loc: "located n peers" using Cons.prems(4) by (simp add: located_def)
  show ?case
  proof (cases "peer_endpoint n p")
    case None
    then have "pr_peer_id p = pr_peer_id (dn_local_peer n)" using Cons.prems(4) by (auto simp: located_def)
    then show ?thesis using Cons.IH [OF Cons.prems(1) _ _ loc Cons.prems(5)] Cons.prems(2,3) None
      by (simp add: endpoints_Cons List.map_filter_simps)
  next
    case (Some ep)
    then obtain store where st: "FindStoreByPeer (pr_peer_id p) n = Some store" "ep = si_client_endpoint store"
      "pr_peer_id p \<noteq> pr_peer_id (dn_local_peer n)"
      by (auto simp: peer_endpoint_def split: if_splits)
    obtain m where m: "node_at w ep r = Some m" "caught_up r t L c m"
      using Cons.prems(2) Some by (auto simp: all_up_def endpoints_Cons)
    obtain a m' where am: "dn_HandleRequestVote rq m = (a, m')" "rvr_vote_granted a" "caught_up r (rv_term rq) L c m'"
      using caught_up_votes [OF m(2) rq(1-4)] by blast
    obtain resp n1 w1 where cl: "dn_CallStore net_call store ''store.RaftRequestVote'' (PutRequestVoteFields fmempty rq) n w = (resp, n1, w1)"
      by (metis prod_cases3)
    note h = net_vote_healthy [OF Cons.prems(1) m(1) [unfolded st(2), folded rq(5)] am(1) cl, unfolded rq(5)]
    note s1 = dn_CallStore_same [OF cl]
    have far: "node_at w1 ep' r = node_at w ep' r" if "ep' \<noteq> ep" for ep' using net.call_elsewhere [OF cl] that st(2) by simp
    have d: "ep \<notin> endpoints n peers" "distinct (List.map_filter (peer_endpoint n) peers)"
      using Cons.prems(3) Some by (simp_all add: endpoints_def List.map_filter_simps)
    have e1: "endpoints n1 peers = endpoints n peers" "located n1 peers" "others n1 peers = others n peers"
      "peer_endpoint n1 = peer_endpoint n" "ri_region_id (dn_region n1) = r"
      using loc Cons.prems(5) by (simp_all add: endpoints_def located_def peer_endpoint_same [OF s1] same_node_sel [OF s1])
    have up1: "all_up r t L c (endpoints n peers) w1"
      unfolding all_up_def
    proof
      fix ep'
      assume "ep' \<in> endpoints n peers"
      then have "ep' \<noteq> ep" "\<exists>m. node_at w ep' r = Some m \<and> caught_up r t L c m"
        using d(1) Cons.prems(2) Some by (auto simp: all_up_def endpoints_Cons)
      then show "\<exists>m. node_at w1 ep' r = Some m \<and> caught_up r t L c m" using far by simp
    qed
    obtain n2 w2 where 2: "request_votes net_call rq peers n1 w1 = Some (Inr (others n peers), n2, w2)" "same_node n1 n2"
      "nw_events w2 = []" "all_up r (rv_term rq) L c (endpoints n peers) w2"
      "\<forall>ep. ep \<notin> endpoints n peers \<longrightarrow> node_at w2 ep r = node_at w1 ep r"
      using Cons.IH [OF h(3), of n1] up1 d(2) e1 by auto
    have "request_votes net_call rq (p # peers) n w = Some (Inr (others n (p # peers)), n2, w2)"
      using st cl h(1,2) am(2) 2(1) by (simp add: get_put_vote_response)
    moreover have "all_up r (rv_term rq) L c (endpoints n (p # peers)) w2"
      using 2(4,5) d(1) h(4) am(3) st(2) Some by (simp add: all_up_def endpoints_Cons)
    ultimately show ?thesis
      using 2(2,3,5) s1 far Some by (auto simp: endpoints_Cons intro: same_node_trans)
  qed
qed

lemma elect_all:
  assumes n: "hosts r t L m n" "\<not> is_leader n" "pr_peer_id (dn_local_peer n) = ri_leader_peer_id (dn_region n)"
    and w: "nw_events w = []" "all_up r t L c (endpoints n (ri_peers (dn_region n))) w"
      "distinct (List.map_filter (peer_endpoint n) (ri_peers (dn_region n)))"
    and t: "Suc (unat t) < 2 ^ 64"
  shows "\<exists>n' w'. EnsureLeader net_call n w = Some (Status_Ok, n', w') \<and> same_config n n' \<and> hosts r (t + 1) L m n' \<and>
     is_leader n' \<and> nw_events w' = [] \<and> all_up r (t + 1) L c (endpoints n (ri_peers (dn_region n))) w' \<and>
     (\<forall>ep. ep \<notin> endpoints n (ri_peers (dn_region n)) \<longrightarrow> node_at w' ep r = node_at w ep r)"
proof -
  let ?peers = "ri_peers (dn_region n)"
  obtain q h where q: "dn_raft n = Some q" "dn_raft_storage n" "ri_region_id (dn_region n) = r" "rn_region_id q = r"
    "raft_wf q" "rn_current_term q = t" "rn_log q = L" "unat (rn_last_applied q) = length L"
    "unat (rn_commit_index q) = length L" "engine_rel r L h m (dn_engine n)"
    by (rule hosts_parts [OF n(1)])
  have role: "rn_role q \<noteq> kLeader" using n(2) q(1) by (simp add: is_leader_def)
  let ?q1 = "BecomeCandidate q" and ?q2 = "BecomeLeader (BecomeCandidate q)"
  have t1: "t < t + 1" "t \<le> t + 1" using t by (simp_all add: word_less_nat_alt word_le_nat_alt unat_Suc_bound)
  have lf: "log_from r 0 L" using n(1) by (simp add: hosts_def good_log_def)
  have q1: "rn_log ?q1 = L" "raft_wf ?q1" "rn_current_term ?q1 = t + 1" "rn_region_id ?q1 = r"
    "unat (last_log_index ?q1) = length L" "last_log_term ?q1 = (if L = [] then 0 else le_term (last L))"
    "rn_last_applied ?q1 = rn_last_applied q"
    using q unat_last_log_index [of r ?q1] lf by (simp_all add: BecomeCandidate_def raft_wf_def last_log_term_def)
  let ?n0 = "n\<lparr>dn_raft := Some ?q1\<rparr>"
  obtain e1 where e1: "dn_PersistHardState ?n0 = (Status_Ok, ?n0\<lparr>dn_engine := e1\<rparr>)" "engine_rel r L (Some (hard_state_of ?q1)) m e1"
    by (rule dn_PersistHardState_rel [of ?n0 ?q1 r L h m]) (use q in simp_all)
  let ?n1 = "?n0\<lparr>dn_engine := e1\<rparr>"
  let ?rq = "\<lparr>rv_region_id = r, rv_term = t + 1, rv_candidate_id = pr_peer_id (dn_local_peer n),
      rv_last_log_index = last_log_index ?q1, rv_last_log_term = last_log_term ?q1\<rparr>"
  have c1: "same_config n ?n1" by (simp add: same_config_def)
  have P1: "endpoints ?n1 ?peers = endpoints n ?peers" "located ?n1 ?peers" "others ?n1 ?peers = others n ?peers"
    "peer_endpoint ?n1 = peer_endpoint n"
    using n(1) by (simp_all add: endpoints_def same_config_endpoint [OF c1] located_def hosts_def)
  obtain n2 w2 where 2: "request_votes net_call ?rq ?peers ?n1 w = Some (Inr (others n ?peers), n2, w2)" "same_node ?n1 n2"
    "nw_events w2 = []" "all_up r (t + 1) L c (endpoints n ?peers) w2"
    "\<forall>ep. ep \<notin> endpoints n ?peers \<longrightarrow> node_at w2 ep r = node_at w ep r"
    using request_votes_all [OF w(1), of r t L c ?n1 ?peers ?rq] w(2,3) P1 q(3) lf q1 t1 by auto
  have maj: "\<not> 1 + others n ?peers \<le> length ?peers div 2"
    using others_count [of ?peers "dn_local_peer n"] n(1) by (auto simp: hosts_def)
  let ?n3 = "n2\<lparr>dn_raft := Some ?q2\<rparr>"
  obtain e3 where e3: "dn_PersistHardState ?n3 = (Status_Ok, ?n3\<lparr>dn_engine := e3\<rparr>)" "engine_rel r L (Some (hard_state_of ?q2)) m e3"
    by (rule dn_PersistHardState_rel [of ?n3 ?q2 r L "Some (hard_state_of ?q1)" m])
       (use q(2,3) e1(2) same_node_sel [OF 2(2)] in simp_all)
  let ?n4 = "?n3\<lparr>dn_engine := e3\<rparr>"
  have "EnsureLeader net_call n w = Some (Status_Ok, ?n4, w2)"
    using q(1,3) role n(3) e1(1) 2(1) maj e3(1) q1(3) by (simp add: EnsureLeader_def Let_def)
  moreover have c4: "same_config n ?n4" using same_node_sel [OF 2(2)] by (simp add: same_config_def)
  moreover have q2: "rn_log ?q2 = L" "raft_wf ?q2" "rn_current_term ?q2 = t + 1" "rn_region_id ?q2 = r"
    "rn_last_applied ?q2 = rn_last_applied q" "rn_role ?q2 = kLeader"
    using q1 by (simp_all add: BecomeLeader_def raft_wf_def)
  have "replica r (t + 1) L (length L) ?n4"
    using q(2,3,8) q2 e3(2) n(1) same_node_sel [OF 2(2)] by (auto simp: replica_def hosts_def)
  then have "hosts r (t + 1) L m ?n4"
    using n(1) q2 q(8) c4 t1(2) by (auto simp: hosts_def located_def same_config_endpoint [OF c4] same_config_def intro: order_trans)
  ultimately show ?thesis using 2(3-5) q2(6) by (auto simp: is_leader_def)
qed

section \<open>Runs of writes\<close>

datatype node_op = NPut string string | NDelete string | NBatch "KvMutation list"

fun node_map :: "node_op \<Rightarrow> kv_map \<Rightarrow> kv_map" where
  "node_map (NPut k v) m = fmupd k v m"
| "node_map (NDelete k) m = fmdrop k m"
| "node_map (NBatch us) m = apply_mutations us m"

fun node_op_ok :: "node_op \<Rightarrow> bool" where
  "node_op_ok (NPut k v) \<longleftrightarrow> user_key k"
| "node_op_ok (NDelete k) \<longleftrightarrow> user_key k"
| "node_op_ok (NBatch us) \<longleftrightarrow> length us < 2 ^ 64 \<and> (\<forall>u \<in> set us. user_key (mu_key u))"

fun node_step :: "'w tcp \<Rightarrow> node_op \<Rightarrow> DistributedRegionNode \<Rightarrow> 'w \<Rightarrow> (Status \<times> DistributedRegionNode \<times> 'w) option" where
  "node_step call (NPut k v) n w = dn_Put call k v n w"
| "node_step call (NDelete k) n w = dn_Delete call k n w"
| "node_step call (NBatch us) n w = dn_Batch call us n w"

fun node_run :: "'w tcp \<Rightarrow> node_op list \<Rightarrow> DistributedRegionNode \<Rightarrow> 'w \<Rightarrow> (Status list \<times> DistributedRegionNode \<times> 'w) option" where
  "node_run call [] n w = Some ([], n, w)"
| "node_run call (op # ops) n w =
     (case node_step call op n w of
        None \<Rightarrow> None
      | Some (status, n1, w1) \<Rightarrow> map_option (map_prod (Cons status) id) (node_run call ops n1 w1))"

text \<open>Between calls: the host of the leader and all other stores have the same log and have applied it.\<close>

definition level :: "u64 \<Rightarrow> u64 \<Rightarrow> LogEntry list \<Rightarrow> kv_map \<Rightarrow> DistributedRegionNode \<Rightarrow> network \<Rightarrow> bool" where
  "level r t L m n w \<longleftrightarrow> hosts r t L m n \<and> nw_events w = [] \<and>
     all_up r t L (length L) (endpoints n (ri_peers (dn_region n))) w \<and>
     distinct (List.map_filter (peer_endpoint n) (ri_peers (dn_region n))) \<and>
     (is_leader n \<or> pr_peer_id (dn_local_peer n) = ri_leader_peer_id (dn_region n) \<and> Suc (unat t) < 2 ^ 64)"

lemma all_up_in_step: "nw_events w = [] \<Longrightarrow> all_up r t L c P w \<Longrightarrow> in_step r t L P w"
  unfolding all_up_def in_step_def caught_up_def by blast

lemma same_config_level:
  assumes "same_config n n'"
  shows "ri_peers (dn_region n') = ri_peers (dn_region n)" "endpoints n' ps = endpoints n ps" "peer_endpoint n' = peer_endpoint n"
  using assms same_config_endpoint [OF assms] by (simp_all add: same_config_def endpoints_def)

lemma level_write:
  assumes lv: "level r t L m n w" and us: "encodes cmd us" and room: "length L + 3 < 2 ^ 64"
  shows "\<exists>t' x n' w'. dn_ProposeAndReplicate net_call cmd n w = Some (Status_Ok, n', w') \<and> same_config n n' \<and>
     level r t' (L @ [x]) (apply_mutations us m) n' w'"
proof -
  let ?P = "endpoints n (ri_peers (dn_region n))"
  have l: "hosts r t L m n" "nw_events w = []" "all_up r t L (length L) ?P w"
    "distinct (List.map_filter (peer_endpoint n) (ri_peers (dn_region n)))"
    using lv by (simp_all add: level_def)
  obtain t' n1 w1 where 1: "EnsureLeader net_call n w = Some (Status_Ok, n1, w1)" "same_config n n1" "hosts r t' L m n1"
    "is_leader n1" "nw_events w1 = []" "all_up r t' L (length L) ?P w1"
  proof (cases "is_leader n")
    case True
    then have "EnsureLeader net_call n w = Some (Status_Ok, n, w)" by (auto simp: is_leader_def EnsureLeader_def)
    with that l True show thesis by (auto simp: same_config_def)
  next
    case False
    then show thesis using elect_all [OF l(1) False _ l(2-4)] lv that by (auto simp: level_def)
  qed
  note c1 = same_config_level [OF 1(2)]
  have "in_step r t' L (endpoints n1 (ri_peers (dn_region n1))) w1"
    using all_up_in_step [OF 1(5,6)] c1 by simp
  from propose_in_step [OF 1(3,4) this us room] c1 obtain n2 w2 x where
    2: "dn_ProposeAndReplicate net_call cmd n1 w1 = Some (Status_Ok, n2, w2)" "same_config n1 n2"
    "hosts r t' (L @ [x]) (apply_mutations us m) n2" "is_leader n2" "in_step r t' (L @ [x]) ?P w2"
    "all_up r t' (L @ [x]) (Suc (length L)) ?P w2"
    by auto
  have "EnsureLeader net_call n1 w1 = Some (Status_Ok, n1, w1)" using 1(4) by (auto simp: is_leader_def EnsureLeader_def)
  then have "dn_ProposeAndReplicate net_call cmd n w = Some (Status_Ok, n2, w2)"
    using 2(1) 1(1) by (simp add: dn_ProposeAndReplicate_def)
  moreover have c2: "same_config n n2" using 1(2) 2(2) by (simp add: same_config_def)
  moreover have "level r t' (L @ [x]) (apply_mutations us m) n2 w2"
    using 2(3-6) l(4) same_config_level [OF c2] by (simp add: level_def in_step_def)
  ultimately show ?thesis by blast
qed

lemma level_step:
  assumes lv: "level r t L m n w" and op: "node_op_ok op" and room: "length L + 3 < 2 ^ 64"
  shows "\<exists>t' L' n' w'. node_step net_call op n w = Some (Status_Ok, n', w') \<and> same_config n n' \<and>
     level r t' L' (node_map op m) n' w' \<and> length L' \<le> Suc (length L)"
proof (cases op)
  case (NPut k v)
  then show ?thesis
    using level_write [OF lv encodes_put [of k v] room] op by (fastforce simp: dn_Put_def apply_mutation_simps)
next
  case (NDelete k)
  then show ?thesis
    using level_write [OF lv encodes_delete [of k] room] op by (fastforce simp: dn_Delete_def apply_mutation_simps)
next
  case (NBatch us)
  show ?thesis
  proof (cases "us = []")
    case True
    then show ?thesis using NBatch lv by (fastforce simp: dn_Batch_def same_config_def)
  next
    case False
    then show ?thesis using level_write [OF lv encodes_batch [of us] room] op NBatch by (fastforce simp: dn_Batch_def)
  qed
qed

lemma level_run:
  assumes "level r t L m n w" and "\<forall>op \<in> set ops. node_op_ok op" and "length L + length ops + 2 < 2 ^ 64"
  shows "\<exists>t' L' n' w'. node_run net_call ops n w = Some (replicate (length ops) Status_Ok, n', w') \<and> same_config n n' \<and>
     level r t' L' (fold node_map ops m) n' w'"
  using assms
proof (induction ops arbitrary: t L m n w)
  case Nil
  then show ?case by (auto simp: same_config_def)
next
  case (Cons op ops)
  obtain t1 L1 n1 w1 where 1: "node_step net_call op n w = Some (Status_Ok, n1, w1)" "same_config n n1"
    "level r t1 L1 (node_map op m) n1 w1" "length L1 \<le> Suc (length L)"
    using level_step [OF Cons.prems(1), of op] Cons.prems(2,3) by auto
  then obtain t2 L2 n2 w2 where "node_run net_call ops n1 w1 = Some (replicate (length ops) Status_Ok, n2, w2)"
    "same_config n1 n2" "level r t2 L2 (fold node_map ops (node_map op m)) n2 w2"
    using Cons.IH [OF 1(3)] Cons.prems(2,3) by auto
  then show ?case using 1(1,2) by (auto simp: same_config_def)
qed

lemma data_of_replica:
  assumes "caught_up r t L c n" and "log_gives L m" and "length L \<le> c" and "\<not> prefix ''raft/'' k"
  shows "dn_Get k cons n = lookup_result m k"
proof -
  obtain h m' where "engine_rel r L h m' (dn_engine n)" "log_gives L m'"
    using assms(1,3) by (fastforce simp: caught_up_def replica_def)
  then have "engine_rel r L h m (dn_engine n)" using log_gives_unique [OF assms(2)] by auto
  then have "user_view m (kv_data (dn_engine n))" by (rule engine_rel_parts(6))
  then show ?thesis using assms(4) by (simp add: dn_Get_def kv_Get_def user_view_def lookup_result_def)
qed

lemma level_reads:
  assumes "level r t L m n w" and "\<not> prefix ''raft/'' k"
  shows "dn_Get k cons n = lookup_result m k"
    and "ep \<in> endpoints n (ri_peers (dn_region n)) \<Longrightarrow> \<exists>f. node_at w ep r = Some f \<and> dn_Get k cons f = lookup_result m k"
proof -
  have m: "log_gives L m" using assms(1) by (simp add: level_def hosts_def)
  have "caught_up r t L (length L) n" using assms(1) by (auto simp: level_def hosts_def caught_up_def)
  then show "dn_Get k cons n = lookup_result m k" by (rule data_of_replica [OF _ m _ assms(2)]) simp
  show "\<exists>f. node_at w ep r = Some f \<and> dn_Get k cons f = lookup_result m k"
    if "ep \<in> endpoints n (ri_peers (dn_region n))"
    using that assms data_of_replica [OF _ m] unfolding level_def all_up_def by blast
qed

section \<open>Starting the stores\<close>

definition fresh_env :: "file_env \<Rightarrow> bool" where
  "fresh_env env \<longleftrightarrow> (\<forall>p. fe_log env p = [] \<and> fe_io env p = [])"

text \<open>The node of a store that was bootstrapped on an empty directory of a healthy disk.\<close>

definition started :: "StoreInfo \<Rightarrow> StoreInfo list \<Rightarrow> RegionInfo \<Rightarrow> DistributedRegionNode \<Rightarrow> bool" where
  "started store stores region n \<longleftrightarrow>
     (\<exists>env d. fresh_env env \<and> dn_Bootstrap env d store stores region DistributedRegionNode_new = Some (Status_Ok, n))"

lemma bootstrap_fresh:
  assumes env: "fresh_env env" and lp: "find (\<lambda>peer. pr_store_id peer = si_store_id store) (ri_peers region) = Some lp"
  obtains n where "dn_Bootstrap env d store stores region DistributedRegionNode_new = Some (Status_Ok, n)"
    and "dn_local_peer n = lp" and "dn_region n = region" and "dn_stores n = stores"
    and "caught_up (ri_region_id region) 0 [] 0 n" and "\<not> is_leader n"
    and "kv_disk (dn_engine n) = []" and "kv_io (dn_engine n) = []" and "dn_raft_storage n"
    and "dn_raft n = Some (RaftNode_new (ri_region_id region) (pr_peer_id lp) (map pr_peer_id (ri_peers region)))"
proof -
  let ?r = "ri_region_id region" and ?dir = "d @ ''/region-'' @ to_string (ri_region_id region)"
  let ?n1 = "DistributedRegionNode_new\<lparr>dn_local_store := store, dn_stores := stores, dn_region := region\<rparr>"
  obtain e where e: "Open ?dir (FileKvEngine_new [] []) = (Status_Ok, e)" "engine_rel ?r [] None fmempty e"
    using engine_rel_open [OF engine_rel_new [of ?r]] by (metis FileKvEngine.select_convs(3) FileKvEngine_new_def)
  obtain x where x: "LoadHardState file_kv_ops ?r e = Some (Inl (KeyNotFound x))" using LoadHardState_none [OF e(2)] by blast
  have fe: "(dn_engine ?n1)\<lparr>kv_disk := fe_log env ?dir, kv_io := fe_io env ?dir\<rparr> = FileKvEngine_new [] []"
    using env(1) by (simp add: fresh_env_def DistributedRegionNode_new_def FileKvEngine_new_def)
  have fl: "FindLocalPeer ?n1 = Some lp" using lp by (simp add: FindLocalPeer_def)
  define n where "n = ?n1\<lparr>dn_local_peer := lp, dn_raft := Some (RaftNode_new ?r (pr_peer_id lp) (map pr_peer_id (ri_peers region))),
      dn_engine := e, dn_raft_storage := True\<rparr>"
  have "dn_Bootstrap env d store stores region DistributedRegionNode_new = Some (Status_Ok, n)"
    using fl e(1) x unfolding dn_Bootstrap_def Let_def fe by (simp add: n_def)
  moreover have "caught_up ?r 0 [] 0 n"
    using e(2) log_gives.start by (auto simp: n_def caught_up_def replica_def RaftNode_new_def raft_wf_def)
  moreover have "kv_disk e = []" "kv_io e = []"
    using e(1) by (auto simp: Open_def Replay_def FileKvEngine_new_def next_io_def Let_def)
  ultimately show thesis
    by (intro that [of n]) (simp_all add: n_def is_leader_def RaftNode_new_def)
qed

lemma started_node:
  assumes "started store stores region n"
  obtains lp where "lp \<in> set (ri_peers region)" and "pr_store_id lp = si_store_id store" and "dn_local_peer n = lp"
    and "dn_region n = region" and "dn_stores n = stores" and "caught_up (ri_region_id region) 0 [] 0 n" and "\<not> is_leader n"
proof -
  obtain env d where env: "fresh_env env" "dn_Bootstrap env d store stores region DistributedRegionNode_new = Some (Status_Ok, n)"
    using assms by (auto simp: started_def)
  obtain lp where lp: "find (\<lambda>peer. pr_store_id peer = si_store_id store) (ri_peers region) = Some lp"
    using env(2) by (cases "find (\<lambda>peer. pr_store_id peer = si_store_id store) (ri_peers region)")
      (auto simp: dn_Bootstrap_def FindLocalPeer_def Let_def InvalidArgument_def Status_Ok_def mk_status_def)
  then have "lp \<in> set (ri_peers region)" "pr_store_id lp = si_store_id store" by (auto simp: find_Some_iff)
  then show thesis
    using bootstrap_fresh [OF env(1) lp, of d stores] env(2) that [of lp] by (metis option.inject prod.inject)
qed

lemma started_ex:
  assumes "p \<in> set (ri_peers region)" and "pr_store_id p = si_store_id store"
  shows "\<exists>n. started store stores region n"
proof -
  obtain lp where "find (\<lambda>peer. pr_store_id peer = si_store_id store) (ri_peers region) = Some lp"
    using assms by (cases "find (\<lambda>peer. pr_store_id peer = si_store_id store) (ri_peers region)") (auto simp: find_None_iff)
  moreover have "fresh_env \<lparr>fe_log = (\<lambda>_. []), fe_io = (\<lambda>_. [])\<rparr>" by (simp add: fresh_env_def)
  ultimately show ?thesis unfolding started_def using bootstrap_fresh by metis
qed

text \<open>Peers on different known stores, stores at different endpoints.\<close>

definition well_placed :: "StoreInfo list \<Rightarrow> RegionInfo \<Rightarrow> bool" where
  "well_placed stores region \<longleftrightarrow>
     distinct (map pr_peer_id (ri_peers region)) \<and> distinct (map pr_store_id (ri_peers region)) \<and>
     (\<forall>p \<in> set (ri_peers region). pr_store_id p \<in> si_store_id ` set stores) \<and>
     distinct (map si_store_id stores) \<and> distinct (map si_client_endpoint stores)"

lemma find_unique: "distinct (map f xs) \<Longrightarrow> x \<in> set xs \<Longrightarrow> find (\<lambda>y. f y = f x) xs = Some x"
  by (induction xs) (auto simp: image_iff)

lemma placed_endpoint:
  assumes "well_placed stores region" and "dn_region n = region" and "dn_stores n = stores" and "p \<in> set (ri_peers region)"
    and "pr_peer_id p \<noteq> pr_peer_id (dn_local_peer n)"
  obtains s where "s \<in> set stores" and "si_store_id s = pr_store_id p" and "peer_endpoint n p = Some (si_client_endpoint s)"
proof -
  obtain s where s: "s \<in> set stores" "si_store_id s = pr_store_id p"
    using assms(1,4) by (force simp: well_placed_def)
  have "find (\<lambda>q. pr_peer_id q = pr_peer_id p) (ri_peers region) = Some p"
    by (rule find_unique) (use assms(1,4) in \<open>simp_all add: well_placed_def\<close>)
  moreover have "find (\<lambda>q. si_store_id q = si_store_id s) stores = Some s"
    by (rule find_unique) (use assms(1) s(1) in \<open>simp_all add: well_placed_def\<close>)
  ultimately have "peer_endpoint n p = Some (si_client_endpoint s)"
    using assms(2,3,5) s(2) by (simp add: peer_endpoint_def FindStoreByPeer_def)
  with s show thesis by (rule that)
qed

lemma distinct_map_filter:
  "distinct xs \<Longrightarrow> (\<And>x y a. x \<in> set xs \<Longrightarrow> y \<in> set xs \<Longrightarrow> f x = Some a \<Longrightarrow> f y = Some a \<Longrightarrow> x = y) \<Longrightarrow> distinct (List.map_filter f xs)"
proof (induction xs)
  case (Cons x xs)
  have "a \<notin> set (List.map_filter f xs)" if "f x = Some a" for a
    using Cons.prems that by (fastforce simp: List.map_filter_def)
  moreover have "distinct (List.map_filter f xs)" using Cons by (intro Cons.IH) auto
  ultimately show ?case by (simp add: List.map_filter_simps split: option.splits)
qed (simp add: List.map_filter_simps)

lemma placed_distinct:
  assumes "well_placed stores region" and "dn_region n = region" and "dn_stores n = stores"
  shows "distinct (List.map_filter (peer_endpoint n) (ri_peers region))"
proof (rule distinct_map_filter)
  show "distinct (ri_peers region)" using assms(1) by (auto simp: well_placed_def distinct_map)
next
  fix p p' a
  assume p: "p \<in> set (ri_peers region)" "p' \<in> set (ri_peers region)" "peer_endpoint n p = Some a" "peer_endpoint n p' = Some a"
  then have "pr_peer_id p \<noteq> pr_peer_id (dn_local_peer n)" "pr_peer_id p' \<noteq> pr_peer_id (dn_local_peer n)"
    by (auto simp: peer_endpoint_def split: if_splits)
  then obtain s s' where s: "s \<in> set stores" "si_store_id s = pr_store_id p" "si_client_endpoint s = a"
    "s' \<in> set stores" "si_store_id s' = pr_store_id p'" "si_client_endpoint s' = a"
    using placed_endpoint [OF assms p(1)] placed_endpoint [OF assms p(2)] p(3,4) by (metis option.inject)
  then have "s = s'" using assms(1) by (auto simp: well_placed_def distinct_map dest: inj_onD)
  then have "pr_store_id p = pr_store_id p'" using s by simp
  then show "p = p'" using assms(1) p(1,2) by (auto simp: well_placed_def distinct_map dest: inj_onD)
qed

lemma started_level:
  assumes wp: "well_placed stores region" and n: "started local stores region n"
    and ld: "ri_leader_peer_id region = pr_peer_id (dn_local_peer n)" and w: "nw_events w = []"
    and others: "\<And>s. s \<in> set stores \<Longrightarrow> si_store_id s \<noteq> si_store_id local \<Longrightarrow> si_store_id s \<in> pr_store_id ` set (ri_peers region) \<Longrightarrow>
      \<exists>f. node_at w (si_client_endpoint s) (ri_region_id region) = Some f \<and> started s stores region f"
  shows "level (ri_region_id region) 0 [] fmempty n w"
proof -
  let ?r = "ri_region_id region"
  obtain lp where lp: "lp \<in> set (ri_peers region)" "pr_store_id lp = si_store_id local" "dn_local_peer n = lp"
    "dn_region n = region" "dn_stores n = stores" "caught_up ?r 0 [] 0 n" "\<not> is_leader n"
    by (rule started_node [OF n])
  have up: "all_up ?r 0 [] 0 (endpoints n (ri_peers region)) w"
    unfolding all_up_def endpoints_def
  proof
    fix ep
    assume "ep \<in> set (List.map_filter (peer_endpoint n) (ri_peers region))"
    then obtain p where p: "p \<in> set (ri_peers region)" "peer_endpoint n p = Some ep" by (auto simp: List.map_filter_def)
    then have np: "pr_peer_id p \<noteq> pr_peer_id (dn_local_peer n)" by (auto simp: peer_endpoint_def split: if_splits)
    obtain s where s: "s \<in> set stores" "si_store_id s = pr_store_id p" "ep = si_client_endpoint s"
      using placed_endpoint [OF wp lp(4,5) p(1) np] p(2) by (metis option.inject)
    have "pr_store_id p \<noteq> pr_store_id lp"
      using wp p(1) lp(1,3) np by (auto simp: well_placed_def distinct_map dest: inj_onD)
    then obtain f where "node_at w ep ?r = Some f" "started s stores region f"
      using others [OF s(1)] s p(1) lp(2) by auto
    then show "\<exists>m. node_at w ep ?r = Some m \<and> caught_up ?r 0 [] 0 m" using started_node by metis
  qed
  have "located n (ri_peers region)"
    unfolding located_def using placed_endpoint [OF wp lp(4,5)] by (metis option.distinct(1))
  moreover have "good_log ?r []" using log_gives.start by (auto simp: good_log_def)
  moreover have "replica ?r 0 [] 0 n" using lp(6) by (simp add: caught_up_def)
  moreover obtain q where "dn_raft n = Some q" "rn_current_term q = 0" "unat (rn_last_applied q) = 0"
    using lp(6) by (fastforce simp: caught_up_def replica_def raft_wf_alt)
  moreover have "distinct (map pr_peer_id (ri_peers region))" using wp by (simp add: well_placed_def)
  ultimately have "hosts ?r 0 [] fmempty n"
    using lp(1,3,4) log_gives.start by (simp add: hosts_def)
  then show ?thesis
    using up placed_distinct [OF wp lp(4,5)] lp w ld by (simp add: level_def)
qed

section \<open>Property\<close>

text \<open>
  C4. A region on several stores behaves as one map. The stores are bootstrapped on empty
  directories of healthy disks, with the peers of the region on different known stores, and the
  network loses nothing. Then the store of the peer that the catalog names as leader accepts any
  sequence of puts, deletes and batches with keys that are not empty and not under \<open>raft/\<close>: the
  first one elects it, every call returns ok, and afterwards every store that hosts a peer, at
  both consistency levels, reads the result of the operations in their order.
\<close>

theorem distributed_refines_map:
  assumes "well_placed stores region" and "started local stores region n"
    and "ri_leader_peer_id region = pr_peer_id (dn_local_peer n)" and "nw_events w = []"
    and "\<And>s. s \<in> set stores \<Longrightarrow> si_store_id s \<noteq> si_store_id local \<Longrightarrow> si_store_id s \<in> pr_store_id ` set (ri_peers region) \<Longrightarrow>
      \<exists>f. node_at w (si_client_endpoint s) (ri_region_id region) = Some f \<and> started s stores region f"
    and "\<forall>op \<in> set ops. node_op_ok op" and "length ops + 2 < 2 ^ 64"
  shows "\<exists>n' w'. node_run net_call ops n w = Some (replicate (length ops) Status_Ok, n', w') \<and>
     (\<forall>k cons. \<not> prefix ''raft/'' k \<longrightarrow>
        dn_Get k cons n' = lookup_result (fold node_map ops fmempty) k \<and>
        (\<forall>p s. p \<in> set (ri_peers region) \<longrightarrow> s \<in> set stores \<longrightarrow> si_store_id s = pr_store_id p \<longrightarrow> p \<noteq> dn_local_peer n \<longrightarrow>
           (\<exists>f. node_at w' (si_client_endpoint s) (ri_region_id region) = Some f \<and>
              dn_Get k cons f = lookup_result (fold node_map ops fmempty) k)))"
proof -
  let ?r = "ri_region_id region"
  obtain lp where lp: "lp \<in> set (ri_peers region)" "dn_local_peer n = lp" "dn_region n = region" "dn_stores n = stores"
    using started_node [OF assms(2)] by metis
  obtain t' L' n' w' where run: "node_run net_call ops n w = Some (replicate (length ops) Status_Ok, n', w')" "same_config n n'"
    and lv: "level ?r t' L' (fold node_map ops fmempty) n' w'"
    using level_run [OF started_level [OF assms(1-5)] assms(6)] assms(7) by auto
  have ep: "si_client_endpoint s \<in> endpoints n' (ri_peers (dn_region n'))"
    if p: "p \<in> set (ri_peers region)" "s \<in> set stores" "si_store_id s = pr_store_id p" "p \<noteq> dn_local_peer n" for p s
  proof -
    have "pr_peer_id p \<noteq> pr_peer_id (dn_local_peer n)"
      using assms(1) p(1,4) lp(1,2) by (auto simp: well_placed_def distinct_map dest: inj_onD)
    then obtain s' where s': "s' \<in> set stores" "si_store_id s' = pr_store_id p" "peer_endpoint n p = Some (si_client_endpoint s')"
      using placed_endpoint [OF assms(1) lp(3,4) p(1)] by blast
    then have "s' = s" using assms(1) p(2,3) by (metis distinct_map inj_onD well_placed_def)
    then show ?thesis
      using s'(3) p(1) lp(3) same_config_level [OF run(2)] by (force simp: endpoints_def List.map_filter_def)
  qed
  show ?thesis
    using run(1) level_reads [OF lv] ep by (intro exI [of _ n'] exI [of _ w']) blast
qed

text \<open>A region with three peers on three stores.\<close>

definition demo_store :: "u64 \<Rightarrow> StoreInfo" where
  "demo_store i = StoreInfo_default\<lparr>si_store_id := i, si_client_endpoint := \<lparr>ep_host = to_string i, ep_port = 7000\<rparr>\<rparr>"

definition demo_peer :: "u64 \<Rightarrow> Peer" where
  "demo_peer i = \<lparr>pr_peer_id = 10 + i, pr_store_id = i, pr_role = kVoter\<rparr>"

definition demo_region :: RegionInfo where
  "demo_region = RegionInfo_default\<lparr>ri_region_id := 1, ri_leader_peer_id := 11, ri_peers := map demo_peer [1, 2, 3]\<rparr>"

definition demo_stores :: "StoreInfo list" where
  "demo_stores = map demo_store [1, 2, 3]"

lemma demo_sel [simp]:
  "si_store_id (demo_store i) = i" "ri_region_id demo_region = 1" "ri_leader_peer_id demo_region = 11"
  "pr_store_id (demo_peer i) = i" "pr_peer_id (demo_peer i) = 10 + i"
  "set (ri_peers demo_region) = {demo_peer 1, demo_peer 2, demo_peer 3}" "set demo_stores = {demo_store 1, demo_store 2, demo_store 3}"
  by (auto simp: demo_store_def demo_region_def demo_peer_def demo_stores_def)

lemma demo_endpoint [simp]: "si_client_endpoint (demo_store i) = si_client_endpoint (demo_store j) \<longleftrightarrow> i = j"
  using stoull_to_string [of i] stoull_to_string [of j] by (auto simp: demo_store_def)

lemma demo_placed: "well_placed demo_stores demo_region"
  by (simp add: well_placed_def demo_stores_def demo_region_def)

lemma demo_network:
  obtains n w where "started (demo_store 1) demo_stores demo_region n" and "dn_local_peer n = demo_peer 1"
    and "nw_events w = []"
    and "\<And>s. s \<in> set demo_stores \<Longrightarrow> si_store_id s \<noteq> 1 \<Longrightarrow>
      \<exists>f. node_at w (si_client_endpoint s) 1 = Some f \<and> started s demo_stores demo_region f"
    and "\<And>ep. ep \<notin> {si_client_endpoint (demo_store 2), si_client_endpoint (demo_store 3)} \<Longrightarrow> node_at w ep 1 = None"
proof -
  have ex: "\<exists>n. started (demo_store i) demo_stores demo_region n" if "i \<in> {1, 2, 3}" for i
    by (rule started_ex [of "demo_peer i"]) (use that in auto)
  obtain n where n: "started (demo_store 1) demo_stores demo_region n" using ex by blast
  obtain f2 where f2: "started (demo_store 2) demo_stores demo_region f2" using ex by blast
  obtain f3 where f3: "started (demo_store 3) demo_stores demo_region f3" using ex by blast
  define w where "w = \<lparr>nw_stores = [si_client_endpoint (demo_store 2) \<mapsto> StoreService_node (Some f2),
      si_client_endpoint (demo_store 3) \<mapsto> StoreService_node (Some f3)], nw_events = []\<rparr>"
  obtain lp where "lp \<in> set (ri_peers demo_region)" "pr_store_id lp = 1" "dn_local_peer n = lp"
    using started_node [OF n] by (metis demo_sel(1))
  then have lp: "dn_local_peer n = demo_peer 1" by auto
  have w2: "node_at w (si_client_endpoint (demo_store 2)) 1 = Some f2" and w3: "node_at w (si_client_endpoint (demo_store 3)) 1 = Some f3"
    by (simp_all add: w_def node_at_def service_node_def StoreService_node_def)
  have ev: "nw_events w = []" by (simp add: w_def)
  show thesis
  proof (rule that [OF n lp ev])
    fix s
    assume "s \<in> set demo_stores" "si_store_id s \<noteq> 1"
    then consider "s = demo_store 2" | "s = demo_store 3" by auto
    then show "\<exists>f. node_at w (si_client_endpoint s) 1 = Some f \<and> started s demo_stores demo_region f"
      using w2 w3 f2 f3 by cases blast+
  qed (simp add: w_def node_at_def)
qed

theorem distributed_refines_map_witness:
  "\<exists>n w n' w' f. node_run net_call [NPut ''a'' ''1'', NPut ''b'' ''2'', NDelete ''b''] n w = Some ([Status_Ok, Status_Ok, Status_Ok], n', w') \<and>
     dn_Get ''a'' kLinearizable n' = Inr ''1'' \<and>
     node_at w' (si_client_endpoint (demo_store 3)) 1 = Some f \<and> dn_Get ''a'' kLinearizable f = Inr ''1''"
proof -
  define ops where "ops = [NPut ''a'' ''1'', NPut ''b'' ''2'', NDelete ''b'']"
  obtain n w where n: "started (demo_store 1) demo_stores demo_region n" "dn_local_peer n = demo_peer 1" "nw_events w = []"
    and w: "\<And>s. s \<in> set demo_stores \<Longrightarrow> si_store_id s \<noteq> 1 \<Longrightarrow>
      \<exists>f. node_at w (si_client_endpoint s) 1 = Some f \<and> started s demo_stores demo_region f"
    by (rule demo_network) blast
  have ld: "ri_leader_peer_id demo_region = pr_peer_id (dn_local_peer n)" using n(2) by simp
  have ops: "\<forall>op \<in> set ops. node_op_ok op" "length ops + 2 < 2 ^ 64" by (simp_all add: user_key_def ops_def)
  have p3: "demo_peer 3 \<in> set (ri_peers demo_region)" "demo_store 3 \<in> set demo_stores"
    "si_store_id (demo_store 3) = pr_store_id (demo_peer 3)" by simp_all
  have np: "demo_peer 3 \<noteq> dn_local_peer n" using n(2) by (simp add: demo_peer_def)
  have key: "\<not> prefix ''raft/'' ''a''" by simp
  have "lookup_result (fold node_map ops fmempty) ''a'' = Inr ''1''" by (simp add: lookup_result_def ops_def)
  moreover obtain n' w' where "node_run net_call ops n w = Some (replicate (length ops) Status_Ok, n', w')"
    "\<forall>k cons. \<not> prefix ''raft/'' k \<longrightarrow>
        dn_Get k cons n' = lookup_result (fold node_map ops fmempty) k \<and>
        (\<forall>p s. p \<in> set (ri_peers demo_region) \<longrightarrow> s \<in> set demo_stores \<longrightarrow> si_store_id s = pr_store_id p \<longrightarrow> p \<noteq> dn_local_peer n \<longrightarrow>
           (\<exists>f. node_at w' (si_client_endpoint s) (ri_region_id demo_region) = Some f \<and>
              dn_Get k cons f = lookup_result (fold node_map ops fmempty) k))"
    using distributed_refines_map [OF demo_placed n(1) ld n(3) _ ops] w by (metis demo_sel(1,2))
  ultimately show ?thesis
    using p3 np key unfolding ops_def by fastforce
qed

end
