(* ===== verification/Distributed_Failures.thy ===== *)
theory Distributed_Failures
  imports Distributed_Map
begin

text \<open>
  Distributed regions when messages, disks or logs fail: what an acknowledged write has reached
  in spite of lost messages, how far a lagging follower is brought back, and the cases that the
  code does not handle: logs that diverge by more than one entry, logs longer than the leader's,
  and a vote that is not on disk.
\<close>

section \<open>Acknowledged writes\<close>

text \<open>The store at an endpoint holds a log that starts with \<open>L\<close>.\<close>

definition holds_log :: "network \<Rightarrow> u64 \<Rightarrow> LogEntry list \<Rightarrow> Endpoint \<Rightarrow> bool" where
  "holds_log w r L ep \<longleftrightarrow> (\<exists>m q. node_at w ep r = Some m \<and> dn_raft m = Some q \<and> prefix L (rn_log q))"

text \<open>
  C5. An acknowledged write is on a majority, whatever the network loses. A leader proposes a
  command while requests and answers may be lost and other stores may end; the logs of the other
  peers of the region may be behind or ahead of the leader's, as long as entries of equal index
  and term agree and none has entries of the leader's term that the leader lacks. If the call
  returns ok, the leader has appended the command to its log and applied it, and the peers whose
  log now starts with the leader's log, the leader among them, are more than half.
\<close>

theorem acknowledged_write_on_majority:
  assumes "dn_ProposeAndReplicate net_call cmd n w = Some (st, n', w')" and "ok st"
    and "dn_raft n = Some raft" and "rn_role raft = kLeader" and "raft_wf raft" and "length (rn_log raft) + 2 < 2 ^ 64"
    and "ri_region_id (dn_region n) = rn_region_id raft"
    and "\<forall>ep m. node_at w ep (rn_region_id raft) = Some m \<longrightarrow> behind_leader raft m"
    and "distinct (List.map_filter (peer_endpoint n) (ri_peers (dn_region n)))"
  shows "\<exists>x raft'. le_command x = cmd \<and> dn_raft n' = Some raft' \<and> rn_log raft' = rn_log raft @ [x] \<and>
     rn_last_applied raft' = le_index x \<and>
     length (ri_peers (dn_region n)) < 2 * (1 + length (filter (holds_log w' (rn_region_id raft) (rn_log raft'))
       (List.map_filter (peer_endpoint n) (ri_peers (dn_region n)))))"
proof -
  let ?r = "rn_region_id raft" and ?eps = "List.map_filter (peer_endpoint n) (ri_peers (dn_region n))"
  obtain x raft' where x: "le_command x = cmd" "dn_raft n' = Some raft'" "rn_log raft' = rn_log raft @ [x]"
    "rn_last_applied raft' = le_index x"
    "length (ri_peers (dn_region n)) < 2 * (1 + length (filter (net.acked ?r (rn_current_term raft) (rn_log raft @ [x]) w') ?eps))"
    by (rule net.acknowledged_write [OF assms(1-7) _ assms(9)]) (use assms(8) in blast)+
  have "net.acked ?r t L w' ep \<Longrightarrow> holds_log w' ?r L ep" for t L ep
    by (auto simp: net.acked_def has_acked_def holds_log_def)
  then have "length (filter (net.acked ?r t L w') eps) \<le> length (filter (holds_log w' ?r L) eps)" for t L eps
    by (induction eps) auto
  with x show ?thesis by (metis (no_types, lifting) add_le_cancel_left mult_le_mono2 order_less_le_trans)
qed

lemma demo_leader:
  obtains n w where "hosts 1 1 [] fmempty n" and "is_leader n" and "dn_region n = demo_region" and "dn_stores n = demo_stores"
    and "nw_events w = []" and "all_up 1 1 [] 0 (endpoints n (ri_peers demo_region)) w"
    and "\<And>ep m. node_at w ep 1 = Some m \<Longrightarrow> caught_up 1 1 [] 0 m"
proof -
  obtain n w where n: "started (demo_store 1) demo_stores demo_region n" "dn_local_peer n = demo_peer 1" "nw_events w = []"
    and w: "\<And>s. s \<in> set demo_stores \<Longrightarrow> si_store_id s \<noteq> 1 \<Longrightarrow>
      \<exists>f. node_at w (si_client_endpoint s) 1 = Some f \<and> started s demo_stores demo_region f"
    and none: "\<And>ep. ep \<notin> {si_client_endpoint (demo_store 2), si_client_endpoint (demo_store 3)} \<Longrightarrow> node_at w ep 1 = None"
    by (rule demo_network) blast
  have cfg: "dn_region n = demo_region" "dn_stores n = demo_stores" "\<not> is_leader n" using started_node [OF n(1)] by metis+
  have "level (ri_region_id demo_region) 0 [] fmempty n w"
  proof (rule started_level [OF demo_placed n(1) _ n(3)])
    show "ri_leader_peer_id demo_region = pr_peer_id (dn_local_peer n)" using n(2) by simp
  qed (use w in \<open>metis demo_sel(1,2)\<close>)
  then obtain n1 w1 where 1: "EnsureLeader net_call n w = Some (Status_Ok, n1, w1)" "same_config n n1" "hosts 1 (0 + 1) [] fmempty n1"
    "is_leader n1" "nw_events w1 = []" "all_up 1 (0 + 1) [] 0 (endpoints n (ri_peers (dn_region n))) w1"
    "\<forall>ep. ep \<notin> endpoints n (ri_peers (dn_region n)) \<longrightarrow> node_at w1 ep 1 = node_at w ep 1"
    using elect_all [of 1 0 "[]" fmempty n w 0] cfg(3) unfolding level_def demo_sel(2) by auto
  have "caught_up 1 1 [] 0 m" if m: "node_at w1 ep 1 = Some m" for ep m
  proof (cases "ep \<in> endpoints n (ri_peers (dn_region n))")
    case True
    then show ?thesis using 1(6) m by (auto simp: all_up_def)
  next
    case False
    have "peer_endpoint n (demo_peer i) = Some (si_client_endpoint (demo_store i))" if i: "i \<in> {2, 3}" for i
    proof -
      have "demo_peer i \<in> set (ri_peers demo_region)" "pr_peer_id (demo_peer i) \<noteq> pr_peer_id (dn_local_peer n)" using i n(2) by auto
      then obtain s where "s \<in> set demo_stores" "si_store_id s = pr_store_id (demo_peer i)"
        "peer_endpoint n (demo_peer i) = Some (si_client_endpoint s)"
        by (rule placed_endpoint [OF demo_placed cfg(1,2)])
      then show ?thesis by auto
    qed
    then have "{si_client_endpoint (demo_store 2), si_client_endpoint (demo_store 3)} \<subseteq> endpoints n (ri_peers (dn_region n))"
      by (force simp: endpoints_def List.map_filter_def cfg(1))
    then have "node_at w ep 1 = None" using none False by blast
    then show ?thesis using False 1(7) m by simp
  qed
  moreover have "dn_region n1 = demo_region" "dn_stores n1 = demo_stores" using 1(2) cfg by (simp_all add: same_config_def)
  moreover have "endpoints n1 (ri_peers demo_region) = endpoints n (ri_peers (dn_region n))"
    using same_config_level(2) [OF 1(2)] cfg(1) by simp
  ultimately show thesis using that [of n1 w1] 1(3-6) by simp
qed

lemma caught_up_behind:
  assumes "caught_up r t [] c m" and "rn_region_id raft = r" and "rn_log raft = []"
  shows "behind_leader raft m"
  using assms by (auto simp: caught_up_def replica_def behind_leader_def follows_def log_matching_def)

theorem acknowledged_write_on_majority_witness:
  "\<exists>n w n' w' raft raft'. dn_ProposeAndReplicate net_call (EncodePutCommand ''k'' ''v'') n w = Some (Status_Ok, n', w') \<and>
     dn_raft n = Some raft \<and> dn_raft n' = Some raft' \<and> length (ri_peers (dn_region n)) = 3 \<and>
     filter (holds_log w' (rn_region_id raft) (rn_log raft')) (List.map_filter (peer_endpoint n) (ri_peers (dn_region n))) \<noteq> []"
proof -
  obtain n w where n: "hosts 1 1 [] fmempty n" "is_leader n" "dn_region n = demo_region" "dn_stores n = demo_stores"
    "nw_events w = []" "all_up 1 1 [] 0 (endpoints n (ri_peers demo_region)) w"
    and w: "\<And>ep m. node_at w ep 1 = Some m \<Longrightarrow> caught_up 1 1 [] 0 m"
    by (rule demo_leader) blast
  obtain q h where q: "dn_raft n = Some q" "dn_raft_storage n" "ri_region_id (dn_region n) = 1" "rn_region_id q = 1"
    "raft_wf q" "rn_current_term q = 1" "rn_log q = []"
    by (rule hosts_parts [OF n(1)])
  have role: "rn_role q = kLeader" using n(2) q(1) by (simp add: is_leader_def)
  have "in_step 1 1 [] (endpoints n (ri_peers (dn_region n))) w" using all_up_in_step [OF n(5,6)] n(3) by simp
  from propose_in_step [OF n(1,2) this encodes_put [of "''k''" "''v''"]]
  obtain n' w' where run: "dn_ProposeAndReplicate net_call (EncodePutCommand ''k'' ''v'') n w = Some (Status_Ok, n', w')"
    by (auto simp: user_key_def)
  have behind: "\<forall>ep m. node_at w ep (rn_region_id q) = Some m \<longrightarrow> behind_leader q m"
    using caught_up_behind [OF w] q(4,7) by simp
  have "length (rn_log q) + 2 < 2 ^ 64" "ri_region_id (dn_region n) = rn_region_id q" using q by simp_all
  moreover have "distinct (List.map_filter (peer_endpoint n) (ri_peers (dn_region n)))"
    using placed_distinct [OF demo_placed n(3,4)] n(3) by simp
  ultimately obtain raft' where "dn_raft n' = Some raft'"
    "length (ri_peers (dn_region n)) < 2 * (1 + length (filter (holds_log w' (rn_region_id q) (rn_log raft'))
       (List.map_filter (peer_endpoint n) (ri_peers (dn_region n)))))"
    using acknowledged_write_on_majority [OF run _ q(1) role q(5) _ _ behind] by auto
  moreover have "length (ri_peers (dn_region n)) = 3" using n(3) by (simp add: demo_region_def)
  ultimately show ?thesis using run q(1) by fastforce
qed

section \<open>Followers that lag behind\<close>

text \<open>
  C12. A follower that lags behind catches up. When the network loses nothing and the follower's log
  is any beginning of the leader's log, even an empty one, with its disk in order, replication to
  its store succeeds from every starting index between the first and the one after the log; the
  follower then has the leader's whole log, in memory and on disk, and has applied it up to the
  commit index of the leader.
\<close>

theorem lagging_follower_catches_up:
  assumes "nw_events w = []" and "node_at w (si_client_endpoint store) r = Some m" and "replica r (rn_current_term raft) (rn_log raft) k m"
    and "dn_raft n = Some raft" and "good_log r (rn_log raft)" and "ri_region_id (dn_region n) = r"
    and "1 \<le> unat i" and "unat i \<le> Suc (length (rn_log raft))" and "unat c \<le> length (rn_log raft)"
  shows "\<exists>n' w' m' q h d. ReplicateToStore net_call store i c n w = Some (Inr True, n', w') \<and>
     node_at w' (si_client_endpoint store) r = Some m' \<and> dn_raft m' = Some q \<and> rn_log q = rn_log raft \<and>
     engine_rel r (rn_log raft) h d (dn_engine m') \<and> unat c \<le> unat (rn_last_applied q) \<and>
     log_gives (take (unat (rn_last_applied q)) (rn_log raft)) d"
proof -
  obtain n' w' m' where run: "replicate_attempts net_call (Suc (Suc 6)) store i c raft n w = Some (Inr True, n', w')"
    and m': "node_at w' (si_client_endpoint store) r = Some m'" "caught_up r (rn_current_term raft) (rn_log raft) (unat c) m'"
    using attempts_catch_up [OF assms(1-3) refl refl assms(5-9), of 6] by blast
  have "ReplicateToStore net_call store i c n w = Some (Inr True, n', w')"
    using run assms(4) by (simp add: ReplicateToStore_def eval_nat_numeral)
  moreover obtain q h d where "dn_raft m' = Some q" "rn_log q = rn_log raft" "engine_rel r (rn_log raft) h d (dn_engine m')"
    "unat c \<le> unat (rn_last_applied q)" "log_gives (take (unat (rn_last_applied q)) (rn_log raft)) d"
    using m'(2) by (auto simp: caught_up_def replica_def)
  ultimately show ?thesis using m'(1) by blast
qed

definition demo_entry :: "u64 \<Rightarrow> u64 \<Rightarrow> LogEntry" where
  "demo_entry i t = \<lparr>le_region_id = 1, le_index = i, le_term = t, le_type = kNormal, le_command = EncodePutCommand ''k'' ''v''\<rparr>"

definition demo_raft :: "u64 \<Rightarrow> LogEntry list \<Rightarrow> RaftNode" where
  "demo_raft t L = (RaftNode_new 1 11 [11, 12, 13])\<lparr>rn_current_term := t, rn_log := L, rn_role := kLeader\<rparr>"

definition demo_node :: "RaftNode \<Rightarrow> DistributedRegionNode" where
  "demo_node raft = DistributedRegionNode_new\<lparr>dn_region := demo_region, dn_stores := demo_stores, dn_local_peer := demo_peer 1, dn_raft := Some raft\<rparr>"

lemma demo_node_sel [simp]:
  "dn_raft (demo_node raft) = Some raft" "ri_region_id (dn_region (demo_node raft)) = 1" "rn_log (demo_raft t L) = L"
  "rn_current_term (demo_raft t L) = t" "rn_region_id (demo_raft t L) = 1" "rn_commit_index (demo_raft t L) = 0"
  "rn_last_applied (demo_raft t L) = 0" "le_index (demo_entry i t) = i" "le_term (demo_entry i t) = t" "le_region_id (demo_entry i t) = 1"
  by (simp_all add: demo_node_def demo_raft_def demo_entry_def RaftNode_new_def)

lemma replica_mono: "replica r t L k n \<Longrightarrow> t \<le> t' \<Longrightarrow> replica r t' L k n"
  unfolding replica_def by (blast intro: order_trans)

theorem lagging_follower_catches_up_witness:
  "\<exists>w n' w' m' q. ReplicateToStore net_call (demo_store 2) 1 0 (demo_node (demo_raft 1 [demo_entry 1 1])) w = Some (Inr True, n', w') \<and>
     node_at w' (si_client_endpoint (demo_store 2)) 1 = Some m' \<and> dn_raft m' = Some q \<and> rn_log q = [demo_entry 1 1]"
proof -
  obtain n w where "nw_events w = []" and w: "\<And>s. s \<in> set demo_stores \<Longrightarrow> si_store_id s \<noteq> 1 \<Longrightarrow>
      \<exists>f. node_at w (si_client_endpoint s) 1 = Some f \<and> started s demo_stores demo_region f"
    by (rule demo_network) blast
  moreover obtain f where f: "node_at w (si_client_endpoint (demo_store 2)) 1 = Some f" "started (demo_store 2) demo_stores demo_region f"
    using w [of "demo_store 2"] by auto
  have "caught_up 1 0 [] 0 f" using started_node [OF f(2)] by (metis demo_sel(2))
  then have "replica 1 0 ([] @ [demo_entry 1 1]) 0 f" by (intro replica_extend) (simp add: caught_up_def)
  then have "replica 1 1 [demo_entry 1 1] 0 f" by (simp add: replica_mono [of _ 0])
  moreover have "encodes (le_command (demo_entry 1 1)) [mk_put ''k'' ''v'']"
    by (simp add: demo_entry_def encodes_put user_key_def)
  then have "log_gives ([] @ [demo_entry 1 1]) (apply_mutations [mk_put ''k'' ''v''] fmempty)"
    by (intro log_gives.intros) (simp_all add: demo_entry_def)
  then have "good_log 1 [demo_entry 1 1]" by (auto simp: good_log_def)
  ultimately obtain n' w' m' q where
    "ReplicateToStore net_call (demo_store 2) 1 0 (demo_node (demo_raft 1 [demo_entry 1 1])) w = Some (Inr True, n', w')"
    "node_at w' (si_client_endpoint (demo_store 2)) 1 = Some m'" "dn_raft m' = Some q" "rn_log q = [demo_entry 1 1]"
    using lagging_follower_catches_up [of w "demo_store 2" 1 f "demo_raft 1 [demo_entry 1 1]" 0 "demo_node (demo_raft 1 [demo_entry 1 1])" 1 0] f(1)
    by (simp only: demo_node_sel list.size) fastforce
  then show ?thesis by blast
qed

section \<open>Followers whose log diverges\<close>

lemma refused_append:
  assumes m: "dn_raft m = Some q" "raft_wf q" "rn_region_id q = r" and t: "\<not> ae_term rq < rn_current_term q"
    and h: "\<not> HasLogAt (ae_prev_log_index rq) (ae_prev_log_term rq) q"
  shows "\<exists>a m'. dn_HandleAppendEntries rq m = Some (a, m') \<and> \<not> aer_success a \<and> unat (aer_match_index a) = length (rn_log q) \<and>
     dn_raft m' = Some (step_down (ae_term rq) q) \<and> raft_wf (step_down (ae_term rq) q)"
proof -
  have "HandleAppendEntries rq q = Some (\<lparr>aer_term = rn_current_term (step_down (ae_term rq) q), aer_success = False,
      aer_match_index = last_log_index q\<rparr>, step_down (ae_term rq) q)"
    using t h by (simp add: HandleAppendEntries_def Let_def)
  moreover have "unat (last_log_index q) = length (rn_log q)" using unat_last_log_index [of r q] m(2,3) by (simp add: raft_wf_def)
  moreover have "raft_wf (step_down (ae_term rq) q)" using m(2) by (simp add: raft_wf_def)
  ultimately show ?thesis using m(1) by (simp add: dn_HandleAppendEntries_def Let_def)
qed





text \<open>The log of the leader and of the follower, in the witnesses: entries of the given terms.\<close>

definition demo_log :: "u64 list \<Rightarrow> LogEntry list" where
  "demo_log ts = map2 demo_entry (map of_nat [1..<Suc (length ts)]) ts"

definition demo_pair :: "u64 list \<Rightarrow> network" where
  "demo_pair ts = \<lparr>nw_stores = [si_client_endpoint (demo_store 2) \<mapsto> StoreService_node (Some (demo_node (demo_raft 2 (demo_log ts))))],
     nw_events = []\<rparr>"

lemma demo_pair_node: "node_at (demo_pair ts) (si_client_endpoint (demo_store 2)) 1 = Some (demo_node (demo_raft 2 (demo_log ts)))"
  by (simp add: demo_pair_def node_at_def StoreService_node_def service_node_def)

lemma demo_raft_wf: "log_from 1 0 L \<Longrightarrow> raft_wf (demo_raft t L)"
  by (simp add: raft_wf_def)


text \<open>
  C36. A follower with a longer log makes the leader read outside of its own log. On a network that
  loses nothing, when a follower refuses the first append and its log is longer than the leader's
  by at least two entries, the next attempt of \<open>ReplicateToStore\<close> starts at the follower's last
  index and reads the term of an entry the leader does not have: the call has no defined result.
\<close>

theorem longer_follower_overruns_leader_log:
  assumes "nw_events w = []" and "node_at w (si_client_endpoint store) r = Some m"
    and "dn_raft m = Some q" and "raft_wf q" and "rn_region_id q = r" and "rn_current_term q \<le> rn_current_term raft"
    and "raft_wf raft" and "rn_region_id raft = r" and "length (rn_log raft) + 2 < 2 ^ 64" and "Suc (length (rn_log raft)) < length (rn_log q)"
    and "dn_raft n = Some raft" and "ri_region_id (dn_region n) = r"
    and "2 \<le> unat i" and "unat i \<le> Suc (length (rn_log raft))"
    and "le_term (rn_log raft ! (unat i - 2)) \<noteq> le_term (rn_log q ! (unat i - 2))"
  shows "ReplicateToStore net_call store i c n w = None"
proof -
  let ?F = "rn_log q"
  have lf: "log_from r 0 (rn_log raft)" using assms(7,8) by (simp add: raft_wf_def)
  have i1: "1 \<le> unat i" using assms(13) by simp
  obtain rq where rq: "replication_request i c n raft = Some rq" "unat (ae_prev_log_index rq) = unat i - 1"
    by (rule replication_request_exists [OF i1 assms(14)])
  have sl: "slice_request r (rn_current_term raft) (rn_log raft) rq"
    using replication_request_slice [OF lf rq(1)] assms(12) by simp
  have rid: "ae_region_id rq = r" and t: "ae_term rq = rn_current_term raft" and le: "length (ae_entries rq) < 2 ^ 64"
    using sl assms(9) by (simp_all add: slice_request_def)
  have nz: "ae_prev_log_index rq \<noteq> 0" using rq(2) assms(13) by auto
  have "unat i - 1 - 1 = unat i - 2" by simp
  then have "\<not> HasLogAt (ae_prev_log_index rq) (ae_prev_log_term rq) q"
    using nz rq(2) sl assms(15) by (simp add: HasLogAt_def slice_request_def)
  then obtain a m1 where a: "dn_HandleAppendEntries rq m = Some (a, m1)" "\<not> aer_success a" "unat (aer_match_index a) = length ?F"
    using refused_append [OF assms(3,4,5)] assms(6) t by (metis leD)
  obtain resp n1 w1 where cl: "dn_CallStore net_call store ''store.RaftAppendEntries'' (PutAppendEntriesFields fmempty rq) n w = (resp, n1, w1)"
    by (metis prod_cases3)
  note h = net_append_healthy [OF assms(1) assms(2) [folded rid] a(1) le cl]
  have az: "aer_match_index a \<noteq> 0" using a(3) assms(10) by auto
  have "unat (aer_match_index a - 1) = length ?F - 1" using az a(3) unat_minus_one_pos [of "aer_match_index a"] by simp
  then have out: "length (rn_log raft) < unat (aer_match_index a - 1)" using assms(10) by simp
  then have "aer_match_index a - 1 \<noteq> 0" by (metis less_nat_zero_code unat_0)
  with out az have "replication_request (aer_match_index a) c n1 raft = None" by (simp add: replication_request_def)
  then have "replicate_attempts net_call (Suc k) store (aer_match_index a) c raft n1 w1 = None" for k by simp
  moreover have "replicate_attempts net_call (Suc k) store i c raft n w =
      replicate_attempts net_call k store (aer_match_index a) c raft n1 w1" for k
    using rq(1) cl h(1,2) a(2) az by (simp add: get_put_append_response)
  ultimately have "replicate_attempts net_call (Suc (Suc 6)) store i c raft n w = None" by metis
  then show ?thesis using assms(11) by (simp add: ReplicateToStore_def eval_nat_numeral)
qed

theorem longer_follower_overruns_leader_log_witness:
  "ReplicateToStore net_call (demo_store 2) 2 0 (demo_node (demo_raft 2 (demo_log [2]))) (demo_pair [1, 1, 1]) = None"
proof -
  have L: "demo_log [2] = [demo_entry 1 2]" "demo_log [1, 1, 1] = [demo_entry 1 1, demo_entry 2 1, demo_entry 3 1]"
    by (simp_all add: demo_log_def upt_rec)
  have "raft_wf (demo_raft 2 (demo_log [2]))" "raft_wf (demo_raft 2 (demo_log [1, 1, 1]))"
    by (auto intro!: demo_raft_wf simp: L log_from_def less_Suc_eq)
  then show ?thesis
    using longer_follower_overruns_leader_log [OF _ demo_pair_node [of "[1, 1, 1]"], of "demo_raft 2 (demo_log [1, 1, 1])"
        "demo_raft 2 (demo_log [2])" "demo_node (demo_raft 2 (demo_log [2]))" 2 0]
    by (simp add: L demo_pair_def)
qed

section \<open>Votes that are not on disk\<close>

lemma started_voter:
  assumes "started store stores region n"
  obtains lp where "find (\<lambda>peer. pr_store_id peer = si_store_id store) (ri_peers region) = Some lp"
    and "kv_disk (dn_engine n) = []" and "dn_raft_storage n"
    and "dn_raft n = Some (RaftNode_new (ri_region_id region) (pr_peer_id lp) (map pr_peer_id (ri_peers region)))"
proof -
  obtain env d where env: "fresh_env env" "dn_Bootstrap env d store stores region DistributedRegionNode_new = Some (Status_Ok, n)"
    using assms by (auto simp: started_def)
  obtain lp where lp: "find (\<lambda>peer. pr_store_id peer = si_store_id store) (ri_peers region) = Some lp"
    by (rule started_node [OF assms]) (metis (mono_tags, lifting) find_None_iff not_Some_eq)
  show thesis
    by (rule bootstrap_fresh [OF env(1) lp, of d stores]) (use env(2) that [OF lp] in simp)
qed

lemma fresh_voter_grants:
  assumes "dn_raft n = Some (RaftNode_new r p ps)" and "0 < rv_term a"
  shows "fst (dn_HandleRequestVote a n) = \<lparr>rvr_term = rv_term a, rvr_vote_granted = True\<rparr>"
  using assms by (simp add: dn_HandleRequestVote_def HandleRequestVote_def IsCandidateLogUpToDate_def BecomeFollower_def
      last_log_index_def last_log_term_def RaftNode_new_def Let_def word_gt_0)

text \<open>
  C37. A vote whose record fails is granted all the same, and granted again after a restart. When the
  disk refuses the write of the hard state, a new store still answers a vote request of a positive
  term with yes; a store started again on what is on its disk grants the same term to any other
  candidate. Two candidates of one term have its vote.
\<close>

theorem unrecorded_vote_given_twice:
  assumes "started store stores region n" and "0 < rv_term a" and "rv_term b = rv_term a"
    and "dn_HandleRequestVote a (n\<lparr>dn_engine := (dn_engine n)\<lparr>kv_io := [IoOpenFail msg]\<rparr>\<rparr>) = (ra, n1)"
  shows "ra = \<lparr>rvr_term = rv_term a, rvr_vote_granted = True\<rparr> \<and>
    (\<exists>n2. dn_Bootstrap \<lparr>fe_log = \<lambda>_. kv_disk (dn_engine n1), fe_io = \<lambda>_. []\<rparr> d store stores region DistributedRegionNode_new =
        Some (Status_Ok, n2) \<and> fst (dn_HandleRequestVote b n2) = ra)"
proof -
  let ?n = "n\<lparr>dn_engine := (dn_engine n)\<lparr>kv_io := [IoOpenFail msg]\<rparr>\<rparr>"
  obtain lp where lp: "find (\<lambda>peer. pr_store_id peer = si_store_id store) (ri_peers region) = Some lp"
    and n: "kv_disk (dn_engine n) = []" "dn_raft_storage n"
      "dn_raft n = Some (RaftNode_new (ri_region_id region) (pr_peer_id lp) (map pr_peer_id (ri_peers region)))"
    by (rule started_voter [OF assms(1)])
  have ra: "ra = \<lparr>rvr_term = rv_term a, rvr_vote_granted = True\<rparr>"
    using fresh_voter_grants [of ?n _ _ _ a] n(3) assms(2,4) by simp
  have "kv_disk (dn_engine n1) = []"
    using assms(4) n WriteBatch_open_fail [of "(dn_engine n)\<lparr>kv_io := [IoOpenFail msg]\<rparr>" 0 msg "[]"]
    by (auto simp: dn_HandleRequestVote_def dn_PersistHardState_def SaveHardState_def file_kv_ops_def Let_def split: prod.splits)
  then have fresh: "fresh_env \<lparr>fe_log = \<lambda>_. kv_disk (dn_engine n1), fe_io = \<lambda>_. []\<rparr>" by (simp add: fresh_env_def)
  obtain n2 where n2: "dn_Bootstrap \<lparr>fe_log = \<lambda>_. kv_disk (dn_engine n1), fe_io = \<lambda>_. []\<rparr> d store stores region
      DistributedRegionNode_new = Some (Status_Ok, n2)"
    "dn_raft n2 = Some (RaftNode_new (ri_region_id region) (pr_peer_id lp) (map pr_peer_id (ri_peers region)))"
    by (rule bootstrap_fresh [OF fresh lp, of d stores])
  have "fst (dn_HandleRequestVote b n2) = ra" using fresh_voter_grants [OF n2(2), of b] assms(2,3) ra by simp
  with ra n2(1) show ?thesis by blast
qed

definition demo_vote :: "u64 \<Rightarrow> RequestVoteRequest" where
  "demo_vote c = \<lparr>rv_region_id = 1, rv_term = 1, rv_candidate_id = c, rv_last_log_index = 0, rv_last_log_term = 0\<rparr>"

lemma demo_vote_term [simp]: "rv_term (demo_vote c) = 1"
  by (simp add: demo_vote_def)

theorem unrecorded_vote_given_twice_witness:
  "\<exists>n n1 n2. dn_HandleRequestVote (demo_vote 12) n = (\<lparr>rvr_term = 1, rvr_vote_granted = True\<rparr>, n1) \<and>
     dn_Bootstrap \<lparr>fe_log = \<lambda>_. kv_disk (dn_engine n1), fe_io = \<lambda>_. []\<rparr> [] (demo_store 1) demo_stores demo_region DistributedRegionNode_new =
       Some (Status_Ok, n2) \<and>
     fst (dn_HandleRequestVote (demo_vote 13) n2) = \<lparr>rvr_term = 1, rvr_vote_granted = True\<rparr>"
proof -
  obtain n where n: "started (demo_store 1) demo_stores demo_region n" using started_ex [of "demo_peer 1" demo_region "demo_store 1"] by auto
  let ?n = "n\<lparr>dn_engine := (dn_engine n)\<lparr>kv_io := [IoOpenFail []]\<rparr>\<rparr>"
  obtain ra n1 where run: "dn_HandleRequestVote (demo_vote 12) ?n = (ra, n1)" by fastforce
  have t: "0 < rv_term (demo_vote 12)" "rv_term (demo_vote 13) = rv_term (demo_vote 12)" by simp_all
  from unrecorded_vote_given_twice [OF n t run, of "[]"] run
  show ?thesis unfolding demo_vote_term by blast
qed

end
