(* ===== verification/Rpc_Gateway.thy ===== *)
theory Rpc_Gateway
  imports Gateway_Server Store_Service Tcp_Rpc Pd_Service
begin

text \<open>
  rpc_gateway_client.cpp: the gateway of a cluster of processes. It asks the placement driver for
  routes by RPC, keeps them in its cache, and sends the calls of clients to a store with the id of
  the region it believes to be right; when the store answers that the route is stale, it drops the
  cache and tries once more. The two clients it is given, and the TCP connections it opens to
  the stores in dynamic routing, act on a world \<open>'w\<close>. \<open>None\<close> is an exception of \<open>std::stoull\<close> or a
  null dereference.
\<close>

section \<open>State\<close>

record 'w gateway_env =
  ge_pd_client :: "'w RpcHandler option"
  ge_store_client :: "'w RpcHandler option"
  ge_tcp :: "'w tcp"

record RpcGatewayClient =
  rg_dynamic_store_routing :: bool
  rg_route_cache :: RouteCache
  rg_next_request_id :: u64

definition RpcGatewayClient_new :: "bool \<Rightarrow> RpcGatewayClient" where
  "RpcGatewayClient_new dynamic_store_routing =
     \<lparr>rg_dynamic_store_routing = dynamic_store_routing, rg_route_cache = fmempty, rg_next_request_id = 1\<rparr>"

definition RpcToStatus :: "RpcResponse \<Rightarrow> Status" where
  "RpcToStatus response =
     (if rs_ok response then Status_Ok
      else mk_status kRpcError (rs_error_code response @ '': '' @ rs_error_message response))"

definition ConsistencyName :: "Consistency \<Rightarrow> string" where
  "ConsistencyName consistency = (if consistency = kEventual then ''eventual'' else ''linearizable'')"

section \<open>Calls\<close>

text \<open>\<open>next_request_id_++\<close> in a request id, and the fields that all requests of the gateway have.\<close>

definition gateway_request :: "string \<Rightarrow> string \<Rightarrow> string \<Rightarrow> FieldMap \<Rightarrow> RpcGatewayClient \<Rightarrow> RpcRequest" where
  "gateway_request kind rpc_method target flds g =
     RpcRequest_default\<lparr>rq_request_id := ''gateway-'' @ kind @ ''-'' @ to_string (rg_next_request_id g),
       rq_method := rpc_method, rq_source := ''gateway'', rq_target := target, rq_payload := EncodeFields flds\<rparr>"

definition count_request :: "RpcGatewayClient \<Rightarrow> RpcGatewayClient" where
  "count_request g = g\<lparr>rg_next_request_id := rg_next_request_id g + 1\<rparr>"

definition CallPd ::
  "'w gateway_env \<Rightarrow> string \<Rightarrow> FieldMap \<Rightarrow> RpcGatewayClient \<Rightarrow> 'w \<Rightarrow> (RpcResponse \<times> RpcGatewayClient \<times> 'w) option" where
  "CallPd env rpc_method flds g w =
     (case ge_pd_client env of
        None \<Rightarrow> None
      | Some pd \<Rightarrow>
          map_option (map_prod id (Pair (count_request g))) (pd (gateway_request ''pd'' rpc_method ''pd'' flds g) w))"

definition rg_CallStore ::
  "'w gateway_env \<Rightarrow> string \<Rightarrow> FieldMap \<Rightarrow> RpcGatewayClient \<Rightarrow> 'w \<Rightarrow> (RpcResponse \<times> RpcGatewayClient \<times> 'w) option" where
  "rg_CallStore env rpc_method flds g w =
     (case ge_store_client env of
        None \<Rightarrow> None
      | Some store \<Rightarrow>
          map_option (map_prod id (Pair (count_request g)))
            (store (gateway_request ''store'' rpc_method ''store'' flds g) w))"

text \<open>A \<open>TcpRpcClient\<close> to the client endpoint of a store.\<close>

definition call_endpoint ::
  "'w gateway_env \<Rightarrow> StoreInfo \<Rightarrow> string \<Rightarrow> FieldMap \<Rightarrow> RpcGatewayClient \<Rightarrow> 'w \<Rightarrow> RpcResponse \<times> RpcGatewayClient \<times> 'w" where
  "call_endpoint env store rpc_method flds g w =
     map_prod id (Pair (count_request g))
       (ge_tcp env (si_client_endpoint store)
         (gateway_request ''store'' rpc_method (''store-'' @ to_string (si_store_id store)) flds g) w)"

definition rg_ResolveRoute ::
  "'w gateway_env \<Rightarrow> string \<Rightarrow> RpcGatewayClient \<Rightarrow> 'w \<Rightarrow> ((Status + RouteEntry) \<times> RpcGatewayClient \<times> 'w) option" where
  "rg_ResolveRoute env key g w =
     (if ge_pd_client env = None \<or> ge_store_client env = None
      then Some (Inl (InvalidArgument ''gateway rpc clients are not initialized''), g, w)
      else case RouteCache_GetByKey (rg_route_cache g) key of
             Some cached \<Rightarrow> Some (Inr cached, g, w)
           | None \<Rightarrow>
               (case CallPd env ''pd.GetRegionByKey'' (fmupd ''key'' key fmempty) g w of
                  None \<Rightarrow> None
                | Some (response, g1, w1) \<Rightarrow>
                    if \<not> rs_ok response then Some (Inl (RpcToStatus response), g1, w1)
                    else case DecodeFields (rs_payload response) of
                           Inl status \<Rightarrow> Some (Inl status, g1, w1)
                         | Inr flds \<Rightarrow>
                             (case GetRegionFields flds ''region'' of
                                Inl status \<Rightarrow> Some (Inl status, g1, w1)
                              | Inr region \<Rightarrow>
                                  let (status, leader_store) = GetStoreFields flds StoreInfo_default ''leader_store''
                                  in if \<not> ok status then Some (Inl status, g1, w1)
                                     else let entry = \<lparr>rt_region = region, rt_leader_store = leader_store, rt_last_update_ms = 0\<rparr>
                                          in Some (Inr entry, g1\<lparr>rg_route_cache := RouteCache_Put entry (rg_route_cache g1)\<rparr>, w1))))"

text \<open>The answer when no route is found: \<open>MakeRpcError\<close> on a request that has only an id.\<close>

definition synthetic_error :: "string \<Rightarrow> Status \<Rightarrow> RpcGatewayClient \<Rightarrow> RpcResponse" where
  "synthetic_error kind status g =
     MakeRpcError (RpcRequest_default\<lparr>rq_request_id := ''gateway-'' @ kind @ ''-'' @ to_string (rg_next_request_id g)\<rparr>)
       (ErrorCodeName (st_code status)) (st_message status)"

text \<open>The local function \<open>call_for_key\<close> of \<open>CallStoreWithRouteRetry\<close>.\<close>

definition call_for_key ::
  "'w gateway_env \<Rightarrow> string \<Rightarrow> string \<Rightarrow> FieldMap \<Rightarrow> RpcGatewayClient \<Rightarrow> 'w \<Rightarrow> (RpcResponse \<times> RpcGatewayClient \<times> 'w) option" where
  "call_for_key env rpc_method key flds g w =
     (if \<not> rg_dynamic_store_routing g then rg_CallStore env rpc_method flds g w
      else case rg_ResolveRoute env key g w of
             None \<Rightarrow> None
           | Some (Inl status, g1, w1) \<Rightarrow> Some (synthetic_error ''route'' status g1, count_request g1, w1)
           | Some (Inr route, g1, w1) \<Rightarrow> Some (call_endpoint env (rt_leader_store route) rpc_method flds g1 w1))"

definition IsRouteStaleError :: "RpcResponse \<Rightarrow> bool" where
  "IsRouteStaleError response \<longleftrightarrow> \<not> rs_ok response \<and>
     (rs_error_code response = ''STALE_EPOCH'' \<or> rs_error_code response = ''REGION_NOT_FOUND'' \<or>
      rs_error_code response = ''NOT_LEADER'')"

definition clear_routes :: "RpcGatewayClient \<Rightarrow> RpcGatewayClient" where
  "clear_routes g = g\<lparr>rg_route_cache := RouteCache_Clear (rg_route_cache g)\<rparr>"

definition CallStoreWithRouteRetry ::
  "'w gateway_env \<Rightarrow> string \<Rightarrow> string \<Rightarrow> FieldMap \<Rightarrow> RpcGatewayClient \<Rightarrow> 'w \<Rightarrow> (RpcResponse \<times> RpcGatewayClient \<times> 'w) option" where
  "CallStoreWithRouteRetry env rpc_method key flds g w =
     (case call_for_key env rpc_method key flds g w of
        None \<Rightarrow> None
      | Some (response, g1, w1) \<Rightarrow>
          if \<not> IsRouteStaleError response then Some (response, g1, w1)
          else case rg_ResolveRoute env key (clear_routes g1) w1 of
                 None \<Rightarrow> None
               | Some (Inl status, g2, w2) \<Rightarrow> Some (synthetic_error ''refresh'' status g2, count_request g2, w2)
               | Some (Inr refreshed, g2, w2) \<Rightarrow>
                   call_for_key env rpc_method key (fmupd ''region_id'' (to_string (ri_region_id (rt_region refreshed))) flds) g2 w2)"

section \<open>Keys and values\<close>

text \<open>The frame of \<open>Put\<close>, \<open>Delete\<close> and \<open>Get\<close>: the route of the key, then the call with its region id.\<close>

definition routed_call ::
  "'w gateway_env \<Rightarrow> string \<Rightarrow> string \<Rightarrow> FieldMap \<Rightarrow> RpcGatewayClient \<Rightarrow> 'w \<Rightarrow>
   ((Status + RpcResponse) \<times> RpcGatewayClient \<times> 'w) option" where
  "routed_call env rpc_method key flds g w =
     (case rg_ResolveRoute env key g w of
        None \<Rightarrow> None
      | Some (Inl status, g1, w1) \<Rightarrow> Some (Inl status, g1, w1)
      | Some (Inr route, g1, w1) \<Rightarrow>
          map_option (map_prod Inr id)
            (CallStoreWithRouteRetry env rpc_method key
               (fmupd ''region_id'' (to_string (ri_region_id (rt_region route))) flds) g1 w1))"

definition result_status :: "Status + RpcResponse \<Rightarrow> Status" where
  "result_status result = (case result of Inl status \<Rightarrow> status | Inr response \<Rightarrow> RpcToStatus response)"

definition rg_Put ::
  "'w gateway_env \<Rightarrow> string \<Rightarrow> string \<Rightarrow> RpcGatewayClient \<Rightarrow> 'w \<Rightarrow> (Status \<times> RpcGatewayClient \<times> 'w) option" where
  "rg_Put env key v g w =
     map_option (map_prod result_status id)
       (routed_call env ''store.KvPut'' key (fmupd ''value'' v (fmupd ''key'' key fmempty)) g w)"

definition rg_Delete ::
  "'w gateway_env \<Rightarrow> string \<Rightarrow> RpcGatewayClient \<Rightarrow> 'w \<Rightarrow> (Status \<times> RpcGatewayClient \<times> 'w) option" where
  "rg_Delete env key g w =
     map_option (map_prod result_status id) (routed_call env ''store.KvDelete'' key (fmupd ''key'' key fmempty) g w)"

definition rg_Get ::
  "'w gateway_env \<Rightarrow> string \<Rightarrow> Consistency \<Rightarrow> RpcGatewayClient \<Rightarrow> 'w \<Rightarrow> ((Status + string) \<times> RpcGatewayClient \<times> 'w) option" where
  "rg_Get env key consistency g w =
     map_option (map_prod (\<lambda>result.
         case result of
           Inl status \<Rightarrow> Inl status
         | Inr response \<Rightarrow>
             if \<not> rs_ok response then Inl (RpcToStatus response)
             else map_sum id (\<lambda>flds. GetOr flds ''value'' []) (DecodeFields (rs_payload response))) id)
       (routed_call env ''store.KvGet'' key (fmupd ''consistency'' (ConsistencyName consistency) (fmupd ''key'' key fmempty)) g w)"

text \<open>The loop of \<open>Batch\<close> that routes every key of the batch.\<close>

fun rg_check_routes ::
  "'w gateway_env \<Rightarrow> u64 \<Rightarrow> KvMutation list \<Rightarrow> RpcGatewayClient \<Rightarrow> 'w \<Rightarrow> (Status \<times> RpcGatewayClient \<times> 'w) option" where
  "rg_check_routes env region_id [] g w = Some (Status_Ok, g, w)"
| "rg_check_routes env region_id (u # us) g w =
     (case rg_ResolveRoute env (mu_key u) g w of
        None \<Rightarrow> None
      | Some (Inl status, g1, w1) \<Rightarrow> Some (status, g1, w1)
      | Some (Inr route, g1, w1) \<Rightarrow>
          if ri_region_id (rt_region route) \<noteq> region_id
          then Some (InvalidArgument ''batch must target a single region'', g1, w1)
          else rg_check_routes env region_id us g1 w1)"

definition put_op :: "FieldMap \<Rightarrow> KvMutation \<Rightarrow> string \<Rightarrow> FieldMap" where
  "put_op flds u p =
     fmupd (p @ ''.value'') (mu_value u)
       (fmupd (p @ ''.key'') (mu_key u)
         (fmupd (p @ ''.type'') (if mu_type u = kDelete then ''delete'' else ''put'') flds))"

definition batch_fields :: "u64 \<Rightarrow> KvMutation list \<Rightarrow> FieldMap" where
  "batch_fields region_id us =
     put_indexed put_op ''op'' 0 us
       (fmupd ''region_id'' (to_string region_id) (fmupd ''op_count'' (show_nat (length us)) fmempty))"

definition rg_Batch ::
  "'w gateway_env \<Rightarrow> KvMutation list \<Rightarrow> RpcGatewayClient \<Rightarrow> 'w \<Rightarrow> (Status \<times> RpcGatewayClient \<times> 'w) option" where
  "rg_Batch env us g w =
     (if us = [] then Some (Status_Ok, g, w)
      else case rg_ResolveRoute env (mu_key (hd us)) g w of
             None \<Rightarrow> None
           | Some (Inl status, g1, w1) \<Rightarrow> Some (status, g1, w1)
           | Some (Inr route, g1, w1) \<Rightarrow>
               (case rg_check_routes env (ri_region_id (rt_region route)) us g1 w1 of
                  None \<Rightarrow> None
                | Some (status, g2, w2) \<Rightarrow>
                    if \<not> ok status then Some (status, g2, w2)
                    else map_option (map_prod RpcToStatus id)
                           (CallStoreWithRouteRetry env ''store.KvBatch'' (mu_key (hd us))
                              (batch_fields (ri_region_id (rt_region route)) us) g2 w2)))"

section \<open>Changes of the cluster\<close>

text \<open>The end of the four operations: the cache is dropped whatever the store answers.\<close>

definition changed :: "RpcResponse \<times> RpcGatewayClient \<times> 'w \<Rightarrow> Status \<times> RpcGatewayClient \<times> 'w" where
  "changed = (\<lambda>(store_response, g, w). (RpcToStatus store_response, clear_routes g, w))"

definition rg_SplitRegion ::
  "'w gateway_env \<Rightarrow> u64 \<Rightarrow> string \<Rightarrow> RpcGatewayClient \<Rightarrow> 'w \<Rightarrow> (Status \<times> RpcGatewayClient \<times> 'w) option" where
  "rg_SplitRegion env region_id split_key g w =
     (let flds = fmupd ''split_key'' split_key (fmupd ''region_id'' (to_string region_id) fmempty)
      in case CallPd env ''pd.SplitRegion'' flds g w of
           None \<Rightarrow> None
         | Some (pd_response, g1, w1) \<Rightarrow>
             if \<not> rs_ok pd_response then Some (RpcToStatus pd_response, g1, w1)
             else map_option changed (rg_CallStore env ''store.SplitRegion'' flds g1 w1))"

text \<open>The loops of \<open>TransferLeader\<close> over the regions and the stores of the status answer.\<close>

fun find_target_peer :: "FieldMap \<Rightarrow> u64 \<Rightarrow> u64 \<Rightarrow> nat list \<Rightarrow> Status + u64" where
  "find_target_peer flds region_id target_peer_id [] = Inr 0"
| "find_target_peer flds region_id target_peer_id (i # is) =
     (case GetRegionFields flds (''region'' @ show_nat i) of
        Inl status \<Rightarrow> Inl status
      | Inr region \<Rightarrow>
          if ri_region_id region \<noteq> region_id then find_target_peer flds region_id target_peer_id is
          else Inr (case find (\<lambda>peer. pr_peer_id peer = target_peer_id) (ri_peers region) of
                      None \<Rightarrow> 0 | Some peer \<Rightarrow> pr_store_id peer))"

fun find_target_store :: "FieldMap \<Rightarrow> u64 \<Rightarrow> nat list \<Rightarrow> Status + StoreInfo option" where
  "find_target_store flds target_store_id [] = Inr None"
| "find_target_store flds target_store_id (i # is) =
     (let (status, store) = GetStoreFields flds StoreInfo_default (''store'' @ show_nat i)
      in if \<not> ok status then Inl status
         else if si_store_id store = target_store_id then Inr (Some store)
         else find_target_store flds target_store_id is)"

definition transfer_target :: "FieldMap \<Rightarrow> u64 \<Rightarrow> u64 \<Rightarrow> (Status + StoreInfo) option" where
  "transfer_target flds region_id target_peer_id =
     (case field_u64 flds ''region_count'' of
        None \<Rightarrow> None
      | Some region_count \<Rightarrow>
          (case find_target_peer flds region_id target_peer_id [0 ..< unat region_count] of
             Inl status \<Rightarrow> Some (Inl status)
           | Inr target_store_id \<Rightarrow>
               if target_store_id = 0 then Some (Inl (InvalidArgument ''target peer store not found''))
               else map_option (\<lambda>store_count.
                      case find_target_store flds target_store_id [0 ..< unat store_count] of
                        Inl status \<Rightarrow> Inl status
                      | Inr None \<Rightarrow> Inl (InvalidArgument ''target store not found'')
                      | Inr (Some store) \<Rightarrow> Inr store)
                      (field_u64 flds ''store_count'')))"

definition rg_TransferLeader ::
  "'w gateway_env \<Rightarrow> u64 \<Rightarrow> u64 \<Rightarrow> RpcGatewayClient \<Rightarrow> 'w \<Rightarrow> (Status \<times> RpcGatewayClient \<times> 'w) option" where
  "rg_TransferLeader env region_id target_peer_id g w =
     (let flds = fmupd ''target_peer_id'' (to_string target_peer_id) (fmupd ''region_id'' (to_string region_id) fmempty)
      in case CallPd env ''pd.TransferLeader'' flds g w of
           None \<Rightarrow> None
         | Some (pd_response, g1, w1) \<Rightarrow>
             if \<not> rs_ok pd_response then Some (RpcToStatus pd_response, g1, w1)
             else if \<not> rg_dynamic_store_routing g1
             then map_option changed (rg_CallStore env ''store.TransferLeader'' flds g1 w1)
             else case CallPd env ''pd.Status'' fmempty g1 w1 of
                    None \<Rightarrow> None
                  | Some (status_response, g2, w2) \<Rightarrow>
                      if \<not> rs_ok status_response then Some (RpcToStatus status_response, g2, w2)
                      else case DecodeFields (rs_payload status_response) of
                             Inl status \<Rightarrow> Some (status, g2, w2)
                           | Inr status_flds \<Rightarrow>
                               map_option (\<lambda>target.
                                 case target of
                                   Inl status \<Rightarrow> (status, g2, w2)
                                 | Inr target_store \<Rightarrow>
                                     changed (call_endpoint env target_store ''store.TransferLeader'' flds g2 w2))
                                 (transfer_target status_flds region_id target_peer_id))"

definition rg_AddPeer ::
  "'w gateway_env \<Rightarrow> u64 \<Rightarrow> u64 \<Rightarrow> RpcGatewayClient \<Rightarrow> 'w \<Rightarrow> (Status \<times> RpcGatewayClient \<times> 'w) option" where
  "rg_AddPeer env region_id store_id g w =
     (let flds = fmupd ''store_id'' (to_string store_id) (fmupd ''region_id'' (to_string region_id) fmempty)
      in case CallPd env ''pd.AddPeer'' flds g w of
           None \<Rightarrow> None
         | Some (pd_response, g1, w1) \<Rightarrow>
             if \<not> rs_ok pd_response then Some (RpcToStatus pd_response, g1, w1)
             else case DecodeFields (rs_payload pd_response) of
                    Inl status \<Rightarrow> Some (status, g1, w1)
                  | Inr response_fields \<Rightarrow>
                      map_option changed
                        (rg_CallStore env ''store.AddPeer'' (fmupd ''peer_id'' (GetOr response_fields ''peer_id'' []) flds) g1 w1))"

definition rg_RemovePeer ::
  "'w gateway_env \<Rightarrow> u64 \<Rightarrow> u64 \<Rightarrow> RpcGatewayClient \<Rightarrow> 'w \<Rightarrow> (Status \<times> RpcGatewayClient \<times> 'w) option" where
  "rg_RemovePeer env region_id peer_id g w =
     (let flds = fmupd ''peer_id'' (to_string peer_id) (fmupd ''region_id'' (to_string region_id) fmempty)
      in case CallPd env ''pd.RemovePeer'' flds g w of
           None \<Rightarrow> None
         | Some (pd_response, g1, w1) \<Rightarrow>
             if \<not> rs_ok pd_response then Some (RpcToStatus pd_response, g1, w1)
             else map_option changed (rg_CallStore env ''store.RemovePeer'' flds g1 w1))"

section \<open>Status\<close>

definition add_prefixed :: "string \<Rightarrow> FieldMap \<Rightarrow> FieldMap \<Rightarrow> FieldMap" where
  "add_prefixed p flds acc = fold (\<lambda>(key, v) m. fmupd (p @ key) v m) (entries flds) acc"

text \<open>The status, and the fields as they are left when a call fails.\<close>

definition rg_GetStatus ::
  "'w gateway_env \<Rightarrow> RpcGatewayClient \<Rightarrow> 'w \<Rightarrow> ((Status \<times> FieldMap) \<times> RpcGatewayClient \<times> 'w) option" where
  "rg_GetStatus env g w =
     (let flds = fmupd ''gateway.route_cache_size'' (show_nat (RouteCache_Size (rg_route_cache g))) fmempty
      in case CallPd env ''pd.Status'' fmempty g w of
           None \<Rightarrow> None
         | Some (pd_response, g1, w1) \<Rightarrow>
             if \<not> rs_ok pd_response then Some ((RpcToStatus pd_response, flds), g1, w1)
             else case DecodeFields (rs_payload pd_response) of
                    Inl status \<Rightarrow> Some ((status, flds), g1, w1)
                  | Inr pd_fields \<Rightarrow>
                      let flds = add_prefixed ''pd.'' pd_fields flds
                      in map_option (\<lambda>(store_response, g2, w2).
                           (if \<not> rs_ok store_response then (RpcToStatus store_response, flds)
                            else case DecodeFields (rs_payload store_response) of
                                   Inl status \<Rightarrow> (status, flds)
                                 | Inr store_fields \<Rightarrow> (Status_Ok, add_prefixed ''store.'' store_fields flds), g2, w2))
                           (rg_CallStore env ''store.Status'' fmempty g1 w1))"

end
