(* ===== verification/Gateway_Service.thy ===== *)
theory Gateway_Service
  imports Rpc_Gateway
begin

text \<open>
  gateway_service.cpp: the RPC interface of the gateway process. The state of a handler is the
  gateway that the service points to, with the world its calls act on; \<open>None\<close> is an exception of
  \<open>std::stoull\<close> or the dereference of a null pointer.
\<close>

section \<open>Handlers\<close>

type_synonym 'w GatewayService = "RpcGatewayClient option \<times> 'w"

definition DecodeBatchMutations :: "FieldMap \<Rightarrow> KvMutation list option" where
  "DecodeBatchMutations flds =
     map_option (\<lambda>count. map (\<lambda>i. get_op flds (''op'' @ show_nat i)) [0 ..< unat count]) (stoull (GetOr flds ''op_count'' ''0''))"

definition on_gateway ::
  "(RpcGatewayClient \<Rightarrow> 'w \<Rightarrow> ('a \<times> RpcGatewayClient \<times> 'w) option) \<Rightarrow> 'w GatewayService \<Rightarrow> ('a \<times> 'w GatewayService) option" where
  "on_gateway f = (\<lambda>(gateway, w).
     case gateway of
       None \<Rightarrow> None
     | Some g \<Rightarrow> map_option (\<lambda>(result, g', w'). (result, Some g', w')) (f g w))"

definition gateway_HandlePut :: "'w gateway_env \<Rightarrow> 'w GatewayService RpcHandler" where
  "gateway_HandlePut env request s =
     with_fields request s (\<lambda>flds.
       finish request (on_gateway (rg_Put env (GetOr flds ''key'' []) (GetOr flds ''value'' [])) s))"

definition gateway_HandleDelete :: "'w gateway_env \<Rightarrow> 'w GatewayService RpcHandler" where
  "gateway_HandleDelete env request s =
     with_fields request s (\<lambda>flds. finish request (on_gateway (rg_Delete env (GetOr flds ''key'' [])) s))"

definition gateway_HandleGet :: "'w gateway_env \<Rightarrow> 'w GatewayService RpcHandler" where
  "gateway_HandleGet env request s =
     with_fields request s (\<lambda>flds.
       map_option (map_prod (\<lambda>result.
           case result of
             Inl status \<Rightarrow> StatusToRpcError request status
           | Inr v \<Rightarrow> MakeRpcOk request (EncodeFields (fmupd ''value'' v fmempty))) id)
         (on_gateway (rg_Get env (GetOr flds ''key'' []) (ParseConsistency (GetOr flds ''consistency'' []))) s))"

definition gateway_HandleBatch :: "'w gateway_env \<Rightarrow> 'w GatewayService RpcHandler" where
  "gateway_HandleBatch env request s =
     with_fields request s (\<lambda>flds.
       case DecodeBatchMutations flds of
         None \<Rightarrow> None
       | Some us \<Rightarrow> finish request (on_gateway (rg_Batch env us) s))"

definition gateway_HandleSplitRegion :: "'w gateway_env \<Rightarrow> 'w GatewayService RpcHandler" where
  "gateway_HandleSplitRegion env request s =
     with_fields request s (\<lambda>flds.
       case field_u64 flds ''region_id'' of
         None \<Rightarrow> None
       | Some region_id \<Rightarrow> finish request (on_gateway (rg_SplitRegion env region_id (GetOr flds ''split_key'' [])) s))"

definition gateway_HandleTransferLeader :: "'w gateway_env \<Rightarrow> 'w GatewayService RpcHandler" where
  "gateway_HandleTransferLeader env request s =
     with_fields request s (\<lambda>flds.
       case (field_u64 flds ''region_id'', field_u64 flds ''target_peer_id'') of
         (Some region_id, Some target_peer_id) \<Rightarrow>
           finish request (on_gateway (rg_TransferLeader env region_id target_peer_id) s)
       | _ \<Rightarrow> None)"

definition gateway_HandleAddPeer :: "'w gateway_env \<Rightarrow> 'w GatewayService RpcHandler" where
  "gateway_HandleAddPeer env request s =
     with_fields request s (\<lambda>flds.
       case (field_u64 flds ''region_id'', field_u64 flds ''store_id'') of
         (Some region_id, Some store_id) \<Rightarrow> finish request (on_gateway (rg_AddPeer env region_id store_id) s)
       | _ \<Rightarrow> None)"

definition gateway_HandleRemovePeer :: "'w gateway_env \<Rightarrow> 'w GatewayService RpcHandler" where
  "gateway_HandleRemovePeer env request s =
     with_fields request s (\<lambda>flds.
       case (field_u64 flds ''region_id'', field_u64 flds ''peer_id'') of
         (Some region_id, Some peer_id) \<Rightarrow> finish request (on_gateway (rg_RemovePeer env region_id peer_id) s)
       | _ \<Rightarrow> None)"

definition gateway_HandleStatus :: "'w gateway_env \<Rightarrow> 'w GatewayService RpcHandler" where
  "gateway_HandleStatus env request s =
     map_option (map_prod (\<lambda>(status, flds).
         if \<not> ok status then StatusToRpcError request status else MakeRpcOk request (EncodeFields flds)) id)
       (on_gateway (rg_GetStatus env) s)"

section \<open>Registration\<close>

definition gateway_methods :: "'w gateway_env \<Rightarrow> (string \<times> 'w GatewayService RpcHandler) list" where
  "gateway_methods env =
     [(''kv.Put'', gateway_HandlePut env), (''kv.Delete'', gateway_HandleDelete env),
      (''kv.Get'', gateway_HandleGet env), (''kv.Batch'', gateway_HandleBatch env),
      (''cluster.SplitRegion'', gateway_HandleSplitRegion env),
      (''cluster.TransferLeader'', gateway_HandleTransferLeader env),
      (''cluster.AddPeer'', gateway_HandleAddPeer env), (''cluster.RemovePeer'', gateway_HandleRemovePeer env),
      (''cluster.Status'', gateway_HandleStatus env)]"

definition gateway_RegisterHandlers ::
  "'w gateway_env \<Rightarrow> 'w GatewayService RpcServer option \<Rightarrow> Status \<times> 'w GatewayService RpcServer option" where
  "gateway_RegisterHandlers env server =
     (case server of
        None \<Rightarrow> (InvalidArgument ''rpc server must not be null'', None)
      | Some srv \<Rightarrow> (let (status, srv1) = register_all (gateway_methods env) srv in (status, Some srv1)))"

section \<open>The registered service\<close>

interpretation gateway_rpc: rpc_service "gateway_methods env" for env
  by unfold_locales (simp_all add: gateway_methods_def)

definition gateway_rpc_server :: "'w gateway_env \<Rightarrow> 'w GatewayService RpcServer" where
  "gateway_rpc_server env = snd (register_all (gateway_methods env) RpcServer_new)"

lemma gateway_dispatch:
  "rq_method req = ''kv.Put'' \<Longrightarrow> RpcServer_Handle (gateway_rpc_server env) req s = gateway_HandlePut env req s"
  "rq_method req = ''kv.Delete'' \<Longrightarrow> RpcServer_Handle (gateway_rpc_server env) req s = gateway_HandleDelete env req s"
  "rq_method req = ''kv.Get'' \<Longrightarrow> RpcServer_Handle (gateway_rpc_server env) req s = gateway_HandleGet env req s"
  "rq_method req = ''kv.Batch'' \<Longrightarrow> RpcServer_Handle (gateway_rpc_server env) req s = gateway_HandleBatch env req s"
  "rq_method req = ''cluster.SplitRegion'' \<Longrightarrow> RpcServer_Handle (gateway_rpc_server env) req s = gateway_HandleSplitRegion env req s"
  unfolding gateway_rpc_server_def by (intro gateway_rpc.dispatch; simp add: gateway_methods_def)+

end
