(* ===== verification/Message_Size.thy ===== *)
theory Message_Size
  imports Tcp_Rpc Rpc_Service
begin

text \<open>
  How long messages become on the wire. A frame of tcp_rpc.cpp holds at most 64 MiB, and every
  field is written twice in hexadecimal digits, so a payload of 16 MiB fits and 1 MiB is a safe
  bound on the keys, values and host names in it. Messages that fit are delivered as they are.
\<close>

section \<open>Numbers\<close>

lemma length_show_nat: "n < 10 ^ Suc k \<Longrightarrow> length (show_nat n) \<le> Suc k"
proof (induction k arbitrary: n)
  case 0
  then show ?case by (simp add: show_nat.simps [of n])
next
  case (Suc k)
  have "length (show_nat (n div 10)) \<le> Suc k" if "\<not> n < 10"
    by (rule Suc.IH) (use Suc.prems in \<open>simp add: less_mult_imp_div_less\<close>)
  then show ?case by (cases "n < 10") (simp_all add: show_nat.simps [of n])
qed

lemma length_to_string: "length (to_string (w :: u64)) \<le> 20"
proof -
  have "unat w < 2 ^ 64" using unsigned_less [of w, where ?'a = nat] by simp
  then show ?thesis using length_show_nat [of "unat w" 19] by (simp add: to_string_def)
qed

lemma length_show_int: "\<bar>i\<bar> < 10 ^ 19 \<Longrightarrow> length (show_int i) \<le> 20"
  using length_show_nat [of "nat \<bar>i\<bar>" 18] by (auto simp: show_int_def abs_if nat_less_iff split: if_splits)

lemma length_to_string_signed: "length (to_string_signed (w :: i32)) \<le> 20" "length (to_string_signed (v :: i64)) \<le> 20"
  using length_show_int [of "sint w"] length_show_int [of "sint v"] sint_range32 [of w] sint_range64 [of v]
  by (auto simp: to_string_signed_def)

section \<open>Fields\<close>

definition field_size :: "string \<times> string \<Rightarrow> nat" where
  "field_size kv = 2 * length (fst kv) + 2 * length (snd kv) + 2"

lemma length_EncodeFields: "length (EncodeFields m) = (\<Sum>kv \<in> set (entries m). field_size kv)"
proof -
  have "length (EncodeFields m) = sum_list (map field_size (entries m))"
    by (simp add: EncodeFields_def field_line_def length_concat comp_def length_HexEncode field_size_def [abs_def])
  then show ?thesis using distinct_entries [of m] by (simp add: sum_list_distinct_conv_sum_set distinct_map)
qed

lemma length_EncodeFields_mono: "set (entries m) \<subseteq> set (entries m') \<Longrightarrow> length (EncodeFields m) \<le> length (EncodeFields m')"
  by (simp add: length_EncodeFields sum_mono2)

lemma length_EncodeFields_drop: "length (EncodeFields (fmdrop k m)) \<le> length (EncodeFields m)"
  by (rule length_EncodeFields_mono) (auto simp: set_entries split: if_splits)

lemma length_EncodeFields_replace:
  "length (EncodeFields (fmupd k v m)) = 2 * length k + 2 * length v + 2 + length (EncodeFields (fmdrop k m))"
proof -
  have "fmupd k v m = fmupd k v (fmdrop k m)" by (rule fmap_ext) simp
  then show ?thesis using length_EncodeFields_upd [of "fmdrop k m" k v] by simp
qed

lemma fields_le:
  assumes "length k \<le> a" and "length v \<le> b" and "length (EncodeFields m) \<le> n"
  shows "length (EncodeFields (fmupd k v m)) \<le> 2 * a + 2 * b + 2 + n"
  using length_EncodeFields_replace [of k v m] length_EncodeFields_drop [of k m] assms by linarith

lemma length_Key: "length (Key p name) \<le> length p + 1 + length name"
  by (simp add: Key_def)

lemma store_fields_le:
  assumes "length p \<le> 20" and "length (ep_host (si_raft_endpoint st)) \<le> h" and "length (ep_host (si_client_endpoint st)) \<le> h"
    and "length (si_state st) \<le> h" and "length (EncodeFields m) \<le> n"
  shows "length (EncodeFields (PutStoreFields m st p)) \<le> 6 * h + 1000 + n"
proof -
  have key: "length (Key p name) \<le> 40" if "length name \<le> 19" for name using length_Key [of p name] assms(1) that by linarith
  have "length (EncodeFields (PutStoreFields m st p)) \<le>
      2 * 40 + 2 * 20 + 2 + (2 * 40 + 2 * h + 2 + (2 * 40 + 2 * 20 + 2 + (2 * 40 + 2 * h + 2 + (2 * 40 + 2 * 20 + 2 + (2 * 40 + 2 * h + 2 +
      (2 * 40 + 2 * 20 + 2 + n))))))"
    unfolding PutStoreFields_def Let_def
    by (intro fields_le key assms length_to_string length_to_string_signed) simp_all
  then show ?thesis by simp
qed

lemma peer_fields_le:
  assumes "length p \<le> 20" and "i < 10 ^ 20" and "length (EncodeFields m) \<le> n"
  shows "length (EncodeFields (put_peer p (i, peer) m)) \<le> 500 + n"
proof -
  have "length (show_nat i) \<le> 20" using length_show_nat [of i 19] assms(2) by simp
  then have "length (Key p (''peer'' @ show_nat i)) \<le> 45" using length_Key [of p "''peer'' @ show_nat i"] assms(1) by simp
  then have key: "length (Key (Key p (''peer'' @ show_nat i)) name) \<le> 60" if "length name \<le> 10" for name
    using length_Key [of "Key p (''peer'' @ show_nat i)" name] that by linarith
  have role: "length (PeerRoleName r) \<le> 20" for r by (cases r) simp_all
  have "length (EncodeFields (put_peer p (i, peer) m)) \<le> 2 * 60 + 2 * 20 + 2 + (2 * 60 + 2 * 20 + 2 + (2 * 60 + 2 * 20 + 2 + n))"
    unfolding put_peer_def Let_def fst_conv snd_conv
    by (intro fields_le key assms length_to_string role) simp_all
  then show ?thesis by simp
qed

lemma peers_fields_le:
  "length p \<le> 20 \<Longrightarrow> i + length ps \<le> 10 ^ 20 \<Longrightarrow> length (EncodeFields m) \<le> n \<Longrightarrow>
     length (EncodeFields (fold (put_peer p) (enumerate i ps) m)) \<le> 500 * length ps + n"
proof (induction ps arbitrary: i m n)
  case (Cons peer ps)
  have "length (EncodeFields (put_peer p (i, peer) m)) \<le> 500 + n" by (rule peer_fields_le) (use Cons.prems in simp_all)
  from Cons.IH [OF Cons.prems(1) _ this, of "Suc i"] Cons.prems(2) show ?case by simp
qed simp

lemma region_fields_le:
  assumes "length p \<le> 20" and "length (ri_start_key r) \<le> h" and "length (ri_end_key r) \<le> h" and "length (ri_peers r) \<le> 1000"
    and "length (EncodeFields m) \<le> n"
  shows "length (EncodeFields (PutRegionFields m r p)) \<le> 4 * h + 501000 + n"
proof -
  have key: "length (Key p name) \<le> 40" if "length name \<le> 19" for name using length_Key [of p name] assms(1) that by linarith
  have count: "length (show_nat (length (ri_peers r))) \<le> 20" using length_show_nat [of "length (ri_peers r)" 19] assms(4) by simp
  have "length (EncodeFields (PutRegionFields m r p)) \<le> 500 * length (ri_peers r) +
      (2 * 40 + 2 * 20 + 2 + (2 * 40 + 2 * 20 + 2 + (2 * 40 + 2 * 20 + 2 + (2 * 40 + 2 * 20 + 2 + (2 * 40 + 2 * h + 2 + (2 * 40 + 2 * h + 2 +
      (2 * 40 + 2 * 20 + 2 + n)))))))"
    unfolding PutRegionFields_def Let_def
    by (intro peers_fields_le fields_le key assms length_to_string count) (use assms(4) in simp_all)
  then show ?thesis using assms(4) by simp
qed

section \<open>Messages\<close>

definition short :: "string \<Rightarrow> bool" where
  "short s \<longleftrightarrow> length s \<le> 2 ^ 20"

text \<open>Payloads, requests and responses with room to spare in a frame.\<close>

definition carried :: "string \<Rightarrow> bool" where
  "carried payload \<longleftrightarrow> length payload \<le> 2 ^ 24"

definition request_fits :: "RpcRequest \<Rightarrow> bool" where
  "request_fits req \<longleftrightarrow> rq_metadata req = fmempty \<and> length (rq_request_id req) \<le> 100 \<and> length (rq_method req) \<le> 100 \<and>
     length (rq_source req) \<le> 100 \<and> length (rq_target req) \<le> 100 \<and> carried (rq_payload req)"

definition response_fits :: "RpcResponse \<Rightarrow> bool" where
  "response_fits resp \<longleftrightarrow> rs_metadata resp = fmempty \<and> length (rs_request_id resp) \<le> 100 \<and> length (rs_error_code resp) \<le> 100 \<and>
     length (rs_error_message resp) \<le> 2 ^ 22 \<and> carried (rs_payload resp)"

lemma request_frame: "request_fits req \<Longrightarrow> length (EncodeRpcRequest req) \<le> max_frame"
  using length_to_string_signed(1) [of "rq_deadline_ms req"]
  by (simp add: request_fits_def EncodeRpcRequest_def Let_def length_EncodeFields_upd carried_def max_frame_def)

lemma response_frame: "response_fits resp \<Longrightarrow> length (EncodeRpcResponse resp) \<le> max_frame"
  by (simp add: response_fits_def EncodeRpcResponse_def Let_def length_EncodeFields_upd carried_def max_frame_def)

lemma call_delivers:
  assumes "reliable cn" and "request_fits req" and "RpcServer_Handle server req s = Some (resp, s')"
  shows "\<exists>resp'. TcpRpcClient_Call cn server req s = Some (resp', s')"
    and "response_fits resp \<Longrightarrow> TcpRpcClient_Call cn server req s = Some (resp, s')"
proof -
  have none: "fmfilter metadata_key fmempty = fmempty" by simp
  have meta: "rq_metadata req = fmempty" using assms(2) by (simp add: request_fits_def)
  then have "req\<lparr>rq_metadata := fmempty\<rparr> = req" by simp
  then have req: "req\<lparr>rq_metadata := fmfilter metadata_key (rq_metadata req)\<rparr> = req" by (simp only: meta none)
  note call = Call_reliable [OF assms(1) request_frame [OF assms(2)], of server s resp s', unfolded req, OF assms(3)]
  show "\<exists>resp'. TcpRpcClient_Call cn server req s = Some (resp', s')" unfolding call by (auto split: sum.split)
  assume resp: "response_fits resp"
  then have meta: "rs_metadata resp = fmempty" by (simp add: response_fits_def)
  then have "resp\<lparr>rs_metadata := fmempty\<rparr> = resp" by simp
  then have "resp\<lparr>rs_metadata := fmfilter metadata_key (rs_metadata resp)\<rparr> = resp" by (simp only: meta none)
  then show "TcpRpcClient_Call cn server req s = Some (resp, s')"
    unfolding call using frame_len_exact [OF response_frame [OF resp]] response_frame [OF resp] by (simp add: decode_encode_response)
qed

lemma length_ErrorCodeName: "length (ErrorCodeName c) \<le> 100"
  by (cases c) simp_all

lemma error_fits: "request_fits req \<Longrightarrow> length (st_message status) \<le> 2 ^ 22 \<Longrightarrow> response_fits (StatusToRpcError req status)"
  by (simp add: request_fits_def response_fits_def StatusToRpcError_def MakeRpcError_def RpcResponse_default_def length_ErrorCodeName carried_def)

lemma ok_fits: "request_fits req \<Longrightarrow> carried payload \<Longrightarrow> response_fits (MakeRpcOk req payload)"
  by (simp add: request_fits_def response_fits_def MakeRpcOk_def RpcResponse_default_def carried_def)

lemma carried_empty [simp]: "carried []"
  by (simp add: carried_def)

lemma answer_fits: "request_fits req \<Longrightarrow> length (st_message status) \<le> 2 ^ 22 \<Longrightarrow> response_fits (answer req status [])"
  by (simp add: answer_def error_fits ok_fits)

lemma ok_answer_fits: "request_fits req \<Longrightarrow> response_fits (answer req Status_Ok [])"
  by (simp add: answer_def ok_fits)

end
