(* ===== verification/Gateway_Routing.thy ===== *)
theory Gateway_Routing
  imports Gateway_Service Message_Size
begin

text \<open>
  What the gateway of rpc_gateway_client.cpp relies on, and what it gives its callers. The locale
  \<open>rpc_backend\<close> is the contract of the placement driver and the store behind the gateway: the
  placement driver names the region that the store expects for a key and an endpoint that reaches
  the store, and the store either carries out a request that fits in a frame or refuses it because
  of its region id and changes nothing. From it follows that every call succeeds whatever regions
  are in the route cache.
\<close>

section \<open>The fields of a batch\<close>

interpretation op_list: indexed_fields put_op get_op id "\<lambda>_. True"
proof
  fix f g :: FieldMap and p k :: string and x :: KvMutation
  show "get_op (put_op f x p) p = id x"
    by (cases "mu_type x") (simp_all add: get_op_def put_op_def GetOr_def)
  show "fmlookup (put_op f x p) k = fmlookup f k" if "\<not> prefix (p @ ''.'') k"
  proof -
    have "k \<noteq> p @ ''.'' @ t" for t using that by (auto simp: prefix_def)
    from this [of "''type''"] this [of "''key''"] this [of "''value''"] show ?thesis by (simp add: put_op_def eq_commute)
  qed
  show "get_op f p = get_op g p" if "\<And>k. prefix (p @ ''.'') k \<Longrightarrow> fmlookup f k = fmlookup g k"
    using that [of "p @ ''.type''"] that [of "p @ ''.key''"] that [of "p @ ''.value''"]
    by (simp add: get_op_def GetOr_def prefix_def)
qed

lemma batch_fields_read:
  "fmlookup (batch_fields i us) ''region_id'' = Some (to_string i)"
  "fmlookup (batch_fields i us) ''op_count'' = Some (show_nat (length us))"
  "n < length us \<Longrightarrow> get_op (batch_fields i us) (''op'' @ show_nat n) = us ! n"
proof -
  show "fmlookup (batch_fields i us) ''region_id'' = Some (to_string i)"
    unfolding batch_fields_def by (subst op_list.put_indexed_frame) simp_all
  show "fmlookup (batch_fields i us) ''op_count'' = Some (show_nat (length us))"
    unfolding batch_fields_def
    by (subst op_list.put_indexed_frame) (use indexed_prefix_plain [of "CHR ''_''" "''op''" _ "''count''"] in \<open>simp_all add: is_digit_def\<close>)
  show "get_op (batch_fields i us) (''op'' @ show_nat n) = us ! n" if "n < length us"
    using op_list.get_put_indexed [of "''op''" n us 0] that by (simp add: batch_fields_def)
qed

lemma get_op_region_id: "get_op (fmupd ''region_id'' v f) (''op'' @ p) = get_op f (''op'' @ p)"
  by (simp add: get_op_def GetOr_def)

section \<open>Answers of a store\<close>

text \<open>
  The store either refuses the region id, which was not the expected one, and is unchanged, or it
  does what is asked.
\<close>

definition served :: "bool \<Rightarrow> 'w \<Rightarrow> (RpcResponse \<Rightarrow> 'w \<Rightarrow> bool) \<Rightarrow> (RpcResponse \<times> 'w) option \<Rightarrow> bool" where
  "served expected w P result \<longleftrightarrow>
     (\<exists>resp w'. result = Some (resp, w') \<and> response_fits resp \<and>
        (IsRouteStaleError resp \<and> w' = w \<and> \<not> expected \<or> \<not> IsRouteStaleError resp \<and> P resp w'))"

section \<open>Requests that fit\<close>

text \<open>Fields that fit in a frame with any region id.\<close>

definition room_for_id :: "FieldMap \<Rightarrow> bool" where
  "room_for_id f \<longleftrightarrow> length (EncodeFields (fmdrop ''region_id'' f)) \<le> 2 ^ 23"

lemma room_for_id_upd [simp]: "room_for_id (fmupd ''region_id'' v f) = room_for_id f"
proof -
  have "fmdrop ''region_id'' (fmupd ''region_id'' v f) = fmdrop ''region_id'' f" by (rule fmap_ext) simp
  then show ?thesis by (simp add: room_for_id_def)
qed

lemma room_for_id_carried:
  assumes "room_for_id f" and "fmlookup f ''region_id'' = Some (to_string (i :: u64))"
  shows "carried (EncodeFields f)"
proof -
  have "fmupd ''region_id'' (to_string i) f = f" using assms(2) by (intro fmap_ext) auto
  then show ?thesis
    using length_EncodeFields_replace [of "''region_id''" "to_string i" f] length_to_string [of i] assms(1)
    by (simp add: room_for_id_def carried_def)
qed

lemma room_for_id_le: "length (EncodeFields f) \<le> 2 ^ 23 \<Longrightarrow> room_for_id f"
  using length_EncodeFields_drop [of "''region_id''" f] by (simp add: room_for_id_def)

lemma gateway_request_fits:
  "length kd \<le> 20 \<Longrightarrow> length M \<le> 50 \<Longrightarrow> length tg \<le> 50 \<Longrightarrow> carried (EncodeFields f) \<Longrightarrow> request_fits (gateway_request kd M tg f g)"
  using length_to_string [of "rg_next_request_id g"] by (simp add: request_fits_def gateway_request_def RpcRequest_default_def)

section \<open>The contract\<close>

locale rpc_backend =
  fixes env :: "'w gateway_env" and pd :: "'w RpcHandler" and st :: "Endpoint option \<Rightarrow> 'w RpcHandler"
    and reach :: "Endpoint option \<Rightarrow> bool"
    and owner :: "'w \<Rightarrow> string \<Rightarrow> u64" and rel :: "nat \<Rightarrow> kv_map \<Rightarrow> 'w \<Rightarrow> bool"
  assumes pd_client: "ge_pd_client env = Some pd"
    and store_client: "ge_store_client env = Some (st None)"
    and endpoints: "st (Some ep) req w = Some (ge_tcp env ep req w)"
    and client_reach: "reach None"
    and route_law: "rel j m w \<Longrightarrow> request_fits req \<Longrightarrow> rq_method req = ''pd.GetRegionByKey'' \<Longrightarrow>
      rq_payload req = EncodeFields (fmupd ''key'' k fmempty) \<Longrightarrow>
      \<exists>resp f r. pd req w = Some (resp, w) \<and> rs_ok resp \<and> DecodeFields (rs_payload resp) = Inr f \<and>
        GetRegionFields f ''region'' = Inr r \<and> ri_region_id r = owner w k \<and>
        reach (Some (si_client_endpoint (snd (GetStoreFields f StoreInfo_default ''leader_store''))))"
    and put_law: "rel (Suc j) m w \<Longrightarrow> reach a \<Longrightarrow> request_fits req \<Longrightarrow> client_key k \<Longrightarrow> short v \<Longrightarrow>
      rq_method req = ''store.KvPut'' \<Longrightarrow> rq_payload req = EncodeFields f \<Longrightarrow>
      fmlookup f ''region_id'' = Some (to_string (i :: u64)) \<Longrightarrow> fmlookup f ''key'' = Some k \<Longrightarrow> fmlookup f ''value'' = Some v \<Longrightarrow>
      served (i = owner w k) w (\<lambda>resp w'. rs_ok resp \<and> rel j (fmupd k v m) w') (st a req w)"
    and delete_law: "rel (Suc j) m w \<Longrightarrow> reach a \<Longrightarrow> request_fits req \<Longrightarrow> client_key k \<Longrightarrow>
      rq_method req = ''store.KvDelete'' \<Longrightarrow> rq_payload req = EncodeFields f \<Longrightarrow>
      fmlookup f ''region_id'' = Some (to_string (i :: u64)) \<Longrightarrow> fmlookup f ''key'' = Some k \<Longrightarrow>
      served (i = owner w k) w (\<lambda>resp w'. rs_ok resp \<and> rel j (fmdrop k m) w') (st a req w)"
    and batch_law: "rel (length us + j) m w \<Longrightarrow> reach a \<Longrightarrow> request_fits req \<Longrightarrow> us \<noteq> [] \<Longrightarrow>
      \<forall>u \<in> set us. client_key (mu_key u) \<and> short (mu_value u) \<Longrightarrow>
      rq_method req = ''store.KvBatch'' \<Longrightarrow> rq_payload req = EncodeFields f \<Longrightarrow>
      fmlookup f ''region_id'' = Some (to_string (i :: u64)) \<Longrightarrow> fmlookup f ''op_count'' = Some (show_nat (length us)) \<Longrightarrow>
      \<forall>n < length us. get_op f (''op'' @ show_nat n) = us ! n \<Longrightarrow>
      served (i = owner w (mu_key (hd us))) w (\<lambda>resp w'. rel j (if rs_ok resp then apply_mutations us m else m) w') (st a req w)"
    and get_law: "rel j m w \<Longrightarrow> reach a \<Longrightarrow> request_fits req \<Longrightarrow> \<not> reserved_key k \<Longrightarrow> short k \<Longrightarrow>
      rq_method req = ''store.KvGet'' \<Longrightarrow> rq_payload req = EncodeFields f \<Longrightarrow>
      fmlookup f ''region_id'' = Some (to_string (i :: u64)) \<Longrightarrow> fmlookup f ''key'' = Some k \<Longrightarrow>
      served (i = owner w k) w (\<lambda>resp w'. w' = w \<and> (case fmlookup m k of
          None \<Rightarrow> \<not> rs_ok resp \<and> rs_error_code resp = ''KEY_NOT_FOUND'' \<and> length (rs_error_message resp) \<le> 2 ^ 21
        | Some v \<Rightarrow> rs_ok resp \<and> DecodeFields (rs_payload resp) = Inr (fmupd ''value'' v fmempty))) (st a req w)"
    and split_law: "rel (Suc j) m w \<Longrightarrow> request_fits req \<Longrightarrow> short sk \<Longrightarrow>
      rq_method req = ''pd.SplitRegion'' \<Longrightarrow> rq_payload req = EncodeFields f \<Longrightarrow>
      fmlookup f ''region_id'' = Some (to_string (i :: u64)) \<Longrightarrow> fmlookup f ''split_key'' = Some sk \<Longrightarrow>
      \<exists>resp w1. pd req w = Some (resp, w1) \<and> (\<not> rs_ok resp \<and> rel j m w1 \<or>
        rs_ok resp \<and> (\<forall>req'. request_fits req' \<longrightarrow> rq_method req' = ''store.SplitRegion'' \<longrightarrow> rq_payload req' = EncodeFields f \<longrightarrow>
          (\<exists>resp' w'. st None req' w1 = Some (resp', w') \<and> rel j m w')))"
    and weaken: "rel (i' + j) m w \<Longrightarrow> rel j m w"
    and values_short: "rel j m w \<Longrightarrow> fmlookup m k = Some v \<Longrightarrow> short v"
begin

subsection \<open>Routes\<close>

text \<open>The endpoints in the cache reach the store.\<close>

definition cache_ok :: "RpcGatewayClient \<Rightarrow> bool" where
  "cache_ok g \<longleftrightarrow> (\<forall>i e. fmlookup (rg_route_cache g) i = Some e \<longrightarrow> reach (Some (si_client_endpoint (rt_leader_store e))))"

lemma cache_ok_simps [simp]:
  "cache_ok (count_request g) = cache_ok g" "cache_ok (clear_routes g)"
  "cache_ok g \<Longrightarrow> reach (Some (si_client_endpoint (rt_leader_store e))) \<Longrightarrow> cache_ok (g\<lparr>rg_route_cache := RouteCache_Put e (rg_route_cache g)\<rparr>)"
  by (auto simp: cache_ok_def count_request_def clear_routes_def RouteCache_Clear_def RouteCache_Put_def)

lemma cache_ok_new: "cache_ok (RpcGatewayClient_new dyn)"
  by (simp add: cache_ok_def RpcGatewayClient_new_def)

lemma cached_reach: "cache_ok g \<Longrightarrow> RouteCache_GetByKey (rg_route_cache g) k = Some e \<Longrightarrow> reach (Some (si_client_endpoint (rt_leader_store e)))"
proof -
  assume g: "cache_ok g" and "RouteCache_GetByKey (rg_route_cache g) k = Some e"
  then have "e \<in> set (map snd (entries (rg_route_cache g)))" unfolding RouteCache_GetByKey_def find_Some_iff by (metis nth_mem)
  then obtain i where "fmlookup (rg_route_cache g) i = Some e" by (auto simp: set_entries)
  with g show ?thesis by (auto simp: cache_ok_def)
qed

lemma resolve:
  assumes "rel j m w" and "cache_ok g" and "short k"
  obtains e g' where "rg_ResolveRoute env k g w = Some (Inr e, g', w)" and "cache_ok g'"
    and "reach (Some (si_client_endpoint (rt_leader_store e)))"
    and "RouteCache_GetByKey (rg_route_cache g) k = None \<longrightarrow> ri_region_id (rt_region e) = owner w k"
proof (cases "RouteCache_GetByKey (rg_route_cache g) k")
  case None
  let ?req = "gateway_request ''pd'' ''pd.GetRegionByKey'' ''pd'' (fmupd ''key'' k fmempty) g"
  have "request_fits ?req"
    by (rule gateway_request_fits) (use assms(3) in \<open>simp_all add: carried_def short_def length_EncodeFields_upd\<close>)
  then obtain resp f r where r: "pd ?req w = Some (resp, w)" "rs_ok resp" "DecodeFields (rs_payload resp) = Inr f"
    "GetRegionFields f ''region'' = Inr r" "ri_region_id r = owner w k"
    "reach (Some (si_client_endpoint (snd (GetStoreFields f StoreInfo_default ''leader_store''))))"
    using route_law [OF assms(1), of ?req k] by (auto simp: gateway_request_def)
  obtain s where s: "GetStoreFields f StoreInfo_default ''leader_store'' = (Status_Ok, s)" by (simp add: GetStoreFields_def)
  let ?e = "\<lparr>rt_region = r, rt_leader_store = s, rt_last_update_ms = 0\<rparr>"
  let ?g = "(count_request g)\<lparr>rg_route_cache := RouteCache_Put ?e (rg_route_cache (count_request g))\<rparr>"
  have reach: "reach (Some (si_client_endpoint (rt_leader_store ?e)))" using r(6) s by simp
  have "rg_ResolveRoute env k g w = Some (Inr ?e, ?g, w)"
    using None r(1-4) s pd_client store_client by (simp add: rg_ResolveRoute_def CallPd_def Let_def)
  moreover have "cache_ok ?g" by (rule cache_ok_simps(3)) (use assms(2) reach in simp_all)
  ultimately show thesis using that [of ?e ?g] r(5) reach by simp
next
  case (Some e)
  show thesis
    by (rule that [of e g]) (use Some assms(2) pd_client store_client cached_reach in \<open>simp_all add: rg_ResolveRoute_def\<close>)
qed

lemma call_for_key_reaches:
  assumes w: "rel j m w" "cache_ok g" "short k" and M: "length M \<le> 50" "carried (EncodeFields f)"
    and st: "\<And>a req. reach a \<Longrightarrow> request_fits req \<Longrightarrow> rq_method req = M \<Longrightarrow> rq_payload req = EncodeFields f \<Longrightarrow> served e w P (st a req w)"
  shows "\<exists>resp g' w'. call_for_key env M k f g w = Some (resp, g', w') \<and> cache_ok g' \<and> response_fits resp \<and>
     (IsRouteStaleError resp \<and> w' = w \<and> \<not> e \<or> \<not> IsRouteStaleError resp \<and> P resp w')"
proof -
  have req: "\<exists>resp w'. st a (gateway_request ''store'' M tg f g1) w = Some (resp, w') \<and> response_fits resp \<and>
     (IsRouteStaleError resp \<and> w' = w \<and> \<not> e \<or> \<not> IsRouteStaleError resp \<and> P resp w')" if "reach a" "length tg \<le> 50" for a tg g1
    using st [OF that(1) gateway_request_fits [OF _ M(1) that(2) M(2)], of "''store''" g1] by (simp add: gateway_request_def served_def)
  show ?thesis
  proof (cases "rg_dynamic_store_routing g")
    case True
    obtain e1 g1 where e1: "rg_ResolveRoute env k g w = Some (Inr e1, g1, w)" "cache_ok g1" "reach (Some (si_client_endpoint (rt_leader_store e1)))"
      by (rule resolve [OF w])
    let ?tg = "''store-'' @ to_string (si_store_id (rt_leader_store e1))"
    have "length ?tg \<le> 50" using length_to_string [of "si_store_id (rt_leader_store e1)"] by simp
    from req [OF e1(3) this, of g1] obtain resp w' where
      "ge_tcp env (si_client_endpoint (rt_leader_store e1)) (gateway_request ''store'' M ?tg f g1) w = (resp, w')" "response_fits resp"
      "IsRouteStaleError resp \<and> w' = w \<and> \<not> e \<or> \<not> IsRouteStaleError resp \<and> P resp w'"
      by (auto simp: endpoints)
    then show ?thesis using True e1(1,2) by (auto simp: call_for_key_def call_endpoint_def)
  next
    case False
    then show ?thesis
      using req [OF client_reach, of "''store''" g] store_client w(2) by (auto simp: call_for_key_def rg_CallStore_def)
  qed
qed

text \<open>Whatever the cache holds, the second attempt at the latest has the right region id.\<close>

lemma retry_serves:
  assumes w: "rel j m w" "cache_ok g" "short k" and F: "\<Phi> f" "\<And>f v. \<Phi> f \<Longrightarrow> \<Phi> (fmupd ''region_id'' v f)"
    and M: "length M \<le> 50" "room_for_id f"
    and st: "\<And>a req f (i :: u64). reach a \<Longrightarrow> request_fits req \<Longrightarrow> rq_method req = M \<Longrightarrow> rq_payload req = EncodeFields f \<Longrightarrow>
      fmlookup f ''region_id'' = Some (to_string i) \<Longrightarrow> \<Phi> f \<Longrightarrow> served (i = owner w k) w P (st a req w)"
    and i: "fmlookup f ''region_id'' = Some (to_string (i :: u64))"
  shows "\<exists>resp g' w'. CallStoreWithRouteRetry env M k f g w = Some (resp, g', w') \<and> cache_ok g' \<and> response_fits resp \<and> P resp w'"
proof -
  obtain resp g1 w1 where 1: "call_for_key env M k f g w = Some (resp, g1, w1)" "cache_ok g1" "response_fits resp"
    "IsRouteStaleError resp \<and> w1 = w \<and> i \<noteq> owner w k \<or> \<not> IsRouteStaleError resp \<and> P resp w1"
    using call_for_key_reaches [OF w M(1) room_for_id_carried [OF M(2) i], of "i = owner w k" P] st [OF _ _ _ _ i F(1)] by blast
  show ?thesis
  proof (cases "IsRouteStaleError resp")
    case True
    obtain e g2 where 2: "rg_ResolveRoute env k (clear_routes g1) w = Some (Inr e, g2, w)" "cache_ok g2"
      "RouteCache_GetByKey (rg_route_cache (clear_routes g1)) k = None \<longrightarrow> ri_region_id (rt_region e) = owner w k"
      by (rule resolve [OF w(1) cache_ok_simps(2) w(3), of g1])
    have "RouteCache_GetByKey (rg_route_cache (clear_routes g1)) k = None"
      by (simp add: clear_routes_def RouteCache_Clear_def RouteCache_GetByKey_def)
    with 2(3) have e: "ri_region_id (rt_region e) = owner w k" by simp
    let ?f = "fmupd ''region_id'' (to_string (ri_region_id (rt_region e))) f"
    have f: "carried (EncodeFields ?f)" by (rule room_for_id_carried [where i = "ri_region_id (rt_region e)"]) (simp_all add: M(2))
    have "\<exists>resp g' w'. call_for_key env M k ?f g2 w = Some (resp, g', w') \<and> cache_ok g' \<and> response_fits resp \<and>
        (IsRouteStaleError resp \<and> w' = w \<and> \<not> True \<or> \<not> IsRouteStaleError resp \<and> P resp w')"
      by (rule call_for_key_reaches [OF w(1) 2(2) w(3) M(1) f]) (use st [of _ _ ?f "owner w k"] F e in simp)
    with 1 True 2(1) show ?thesis by (auto simp: CallStoreWithRouteRetry_def)
  next
    case False
    with 1 show ?thesis by (auto simp: CallStoreWithRouteRetry_def)
  qed
qed

lemma routed_call_serves:
  assumes w: "rel j m w" "cache_ok g" "short k" and F: "\<Phi> f" "\<And>f v. \<Phi> f \<Longrightarrow> \<Phi> (fmupd ''region_id'' v f)"
    and M: "length M \<le> 50" "room_for_id f"
    and st: "\<And>a req f (i :: u64). reach a \<Longrightarrow> request_fits req \<Longrightarrow> rq_method req = M \<Longrightarrow> rq_payload req = EncodeFields f \<Longrightarrow>
      fmlookup f ''region_id'' = Some (to_string i) \<Longrightarrow> \<Phi> f \<Longrightarrow> served (i = owner w k) w P (st a req w)"
  shows "\<exists>resp g' w'. routed_call env M k f g w = Some (Inr resp, g', w') \<and> cache_ok g' \<and> P resp w'"
proof -
  obtain e g1 where e: "rg_ResolveRoute env k g w = Some (Inr e, g1, w)" "cache_ok g1" by (rule resolve [OF w])
  let ?i = "ri_region_id (rt_region e)"
  have "\<exists>resp g' w'. CallStoreWithRouteRetry env M k (fmupd ''region_id'' (to_string ?i) f) g1 w = Some (resp, g', w') \<and>
      cache_ok g' \<and> response_fits resp \<and> P resp w'"
    by (rule retry_serves [where \<Phi> = \<Phi> and i = ?i, OF w(1) e(2) w(3)]) (use F st M in simp_all)
  with e(1) show ?thesis by (auto simp: routed_call_def)
qed

subsection \<open>Operations\<close>

lemma put_serves:
  assumes "rel (Suc j) m w" and "cache_ok g" and "client_key k" and "short k" and "short v"
  shows "\<exists>g' w'. rg_Put env k v g w = Some (Status_Ok, g', w') \<and> cache_ok g' \<and> rel j (fmupd k v m) w'"
proof -
  let ?f = "fmupd ''value'' v (fmupd ''key'' k fmempty)"
  have room: "room_for_id ?f" by (rule room_for_id_le) (use assms(4,5) in \<open>simp add: length_EncodeFields_upd short_def\<close>)
  have "\<exists>resp g' w'. routed_call env ''store.KvPut'' k ?f g w = Some (Inr resp, g', w') \<and> cache_ok g' \<and> rs_ok resp \<and> rel j (fmupd k v m) w'"
    by (rule routed_call_serves [where \<Phi> = "\<lambda>f. fmlookup f ''key'' = Some k \<and> fmlookup f ''value'' = Some v", OF assms(1,2,4)])
      (use put_law [OF assms(1) _ _ assms(3,5)] room in simp_all)
  then show ?thesis by (auto simp: rg_Put_def result_status_def RpcToStatus_def)
qed

lemma delete_serves:
  assumes "rel (Suc j) m w" and "cache_ok g" and "client_key k" and "short k"
  shows "\<exists>g' w'. rg_Delete env k g w = Some (Status_Ok, g', w') \<and> cache_ok g' \<and> rel j (fmdrop k m) w'"
proof -
  let ?f = "fmupd ''key'' k fmempty"
  have room: "room_for_id ?f" by (rule room_for_id_le) (use assms(4) in \<open>simp add: length_EncodeFields_upd short_def\<close>)
  have "\<exists>resp g' w'. routed_call env ''store.KvDelete'' k ?f g w = Some (Inr resp, g', w') \<and> cache_ok g' \<and> rs_ok resp \<and> rel j (fmdrop k m) w'"
    by (rule routed_call_serves [where \<Phi> = "\<lambda>f. fmlookup f ''key'' = Some k", OF assms(1,2,4)])
      (use delete_law [OF assms(1) _ _ assms(3)] room in simp_all)
  then show ?thesis by (auto simp: rg_Delete_def result_status_def RpcToStatus_def)
qed

text \<open>A missing key is reported with the code of RPC errors, the code of the store is in the message.\<close>

definition missing :: "Status + string \<Rightarrow> bool" where
  "missing r \<longleftrightarrow> (\<exists>msg. length msg \<le> 2 ^ 21 \<and> r = Inl (mk_status kRpcError (''KEY_NOT_FOUND: '' @ msg)))"

lemma get_serves:
  assumes "rel j m w" and "cache_ok g" and "\<not> reserved_key k" and "short k"
  shows "\<exists>r g'. rg_Get env k c g w = Some (r, g', w) \<and> cache_ok g' \<and> (case fmlookup m k of None \<Rightarrow> missing r | Some v \<Rightarrow> r = Inr v)"
proof -
  let ?f = "fmupd ''consistency'' (ConsistencyName c) (fmupd ''key'' k fmempty)"
  let ?P = "\<lambda>resp w'. w' = w \<and> (case fmlookup m k of
          None \<Rightarrow> \<not> rs_ok resp \<and> rs_error_code resp = ''KEY_NOT_FOUND'' \<and> length (rs_error_message resp) \<le> 2 ^ 21
        | Some v \<Rightarrow> rs_ok resp \<and> DecodeFields (rs_payload resp) = Inr (fmupd ''value'' v fmempty))"
  have room: "room_for_id ?f" by (rule room_for_id_le) (use assms(4) in \<open>simp add: length_EncodeFields_upd short_def ConsistencyName_def\<close>)
  have "\<exists>resp g' w'. routed_call env ''store.KvGet'' k ?f g w = Some (Inr resp, g', w') \<and> cache_ok g' \<and> ?P resp w'"
    by (rule routed_call_serves [where \<Phi> = "\<lambda>f. fmlookup f ''key'' = Some k", OF assms(1,2,4)])
      (use get_law [OF assms(1) _ _ assms(3,4)] room in simp_all)
  then show ?thesis
    by (auto simp: rg_Get_def RpcToStatus_def missing_def GetOr_def split: option.splits)
qed

lemma check_routes_resolves:
  assumes "rel j m w" and "cache_ok g" and "\<forall>u \<in> set us. short (mu_key u)"
  shows "\<exists>status g'. rg_check_routes env i us g w = Some (status, g', w) \<and> cache_ok g'"
  using assms(2,3)
proof (induction us arbitrary: g)
  case (Cons u us)
  obtain e g1 where e: "rg_ResolveRoute env (mu_key u) g w = Some (Inr e, g1, w)" "cache_ok g1"
    by (rule resolve [OF assms(1) Cons.prems(1), of "mu_key u"]) (use Cons.prems(2) in auto)
  from Cons.IH [OF e(2)] Cons.prems(2) e show ?case by auto
qed simp

lemma batch_serves:
  assumes w: "rel (length us + j) m w" "cache_ok g" and us: "us \<noteq> []" "\<forall>u \<in> set us. client_key (mu_key u) \<and> short (mu_value u)"
    and size: "\<forall>u \<in> set us. short (mu_key u)" "\<forall>i. room_for_id (batch_fields i us)"
  shows "\<exists>status g' w'. rg_Batch env us g w = Some (status, g', w') \<and> cache_ok g' \<and> rel j (if ok status then apply_mutations us m else m) w'"
proof -
  let ?k = "mu_key (hd us)"
  have k: "short ?k" using us(1) size(1) by (simp add: hd_in_set)
  obtain e g1 where e: "rg_ResolveRoute env ?k g w = Some (Inr e, g1, w)" "cache_ok g1" by (rule resolve [OF w k])
  let ?i = "ri_region_id (rt_region e)"
  obtain status g2 where c: "rg_check_routes env ?i us g1 w = Some (status, g2, w)" "cache_ok g2"
    using check_routes_resolves [OF w(1) e(2) size(1)] by blast
  have keep: "rel j m w" using weaken w(1) by blast
  have "\<exists>resp g' w'. CallStoreWithRouteRetry env ''store.KvBatch'' ?k (batch_fields ?i us) g2 w = Some (resp, g', w') \<and> cache_ok g' \<and>
      response_fits resp \<and> rel j (if rs_ok resp then apply_mutations us m else m) w'"
    by (rule retry_serves [where \<Phi> = "\<lambda>f. fmlookup f ''op_count'' = Some (show_nat (length us)) \<and>
            (\<forall>n < length us. get_op f (''op'' @ show_nat n) = us ! n)" and i = ?i, OF w(1) c(2) k])
      (simp_all add: batch_law [OF w(1) _ _ us] batch_fields_read(1,2) batch_fields_read(3) [simplified] get_op_region_id [simplified] size(2))
  then obtain resp g' w' where r: "CallStoreWithRouteRetry env ''store.KvBatch'' ?k (batch_fields ?i us) g2 w = Some (resp, g', w')" "cache_ok g'"
    "rel j (if rs_ok resp then apply_mutations us m else m) w'" by blast
  have "ok (RpcToStatus resp) \<longleftrightarrow> rs_ok resp" by (simp add: RpcToStatus_def)
  then have "rel j (if ok (RpcToStatus resp) then apply_mutations us m else m) w'" using r(3) by simp
  moreover have "rg_Batch env us g w = Some (if ok status then (RpcToStatus resp, g', w') else (status, g2, w))"
    using e(1) c(1) us(1) r(1) by (simp add: rg_Batch_def)
  ultimately show ?thesis using keep c(2) r(2) by (cases "ok status") auto
qed

lemma split_serves:
  assumes "rel (Suc j) m w" and "cache_ok g" and "short sk"
  shows "\<exists>status g' w'. rg_SplitRegion env i sk g w = Some (status, g', w') \<and> cache_ok g' \<and> rel j m w'"
proof -
  let ?f = "fmupd ''split_key'' sk (fmupd ''region_id'' (to_string i) fmempty)"
  let ?req = "gateway_request ''pd'' ''pd.SplitRegion'' ''pd'' ?f g"
  let ?req' = "gateway_request ''store'' ''store.SplitRegion'' ''store'' ?f (count_request g)"
  have "carried (EncodeFields ?f)" using assms(3) length_to_string [of i] by (simp add: length_EncodeFields_upd short_def carried_def)
  then have fits: "request_fits ?req" "request_fits ?req'" by (simp_all add: gateway_request_fits)
  obtain resp w1 where 1: "pd ?req w = Some (resp, w1)" "\<not> rs_ok resp \<and> rel j m w1 \<or>
      rs_ok resp \<and> (\<exists>resp' w'. st None ?req' w1 = Some (resp', w') \<and> rel j m w')"
    using split_law [OF assms(1) fits(1) assms(3), of ?f i] fits(2) by (auto simp: gateway_request_def)
  then show ?thesis
    using pd_client store_client assms(2) by (auto simp: rg_SplitRegion_def CallPd_def rg_CallStore_def changed_def Let_def)
qed

end

end
