(* ===== verification/Rpc_Cluster.thy ===== *)
theory Rpc_Cluster
  imports Gateway_Routing Distributed_Network
begin

text \<open>
  The processes together: a gateway whose TCP connections reach the RPC service of a placement
  driver and the RPC service of one store process with a multi-region cluster. The contract
  \<open>rpc_backend\<close> holds for them while the two catalogs of regions agree and the placement driver
  names an endpoint of the store; splits through the gateway keep it so.
\<close>

section \<open>The processes\<close>

record rpc_cluster =
  rc_pd :: PdServer
  rc_store :: StoreService

text \<open>What the two services do with a request.\<close>

definition pd_link :: "rpc_cluster RpcHandler" where
  "pd_link req w =
     map_option (map_prod id (\<lambda>s. w\<lparr>rc_pd := s\<rparr>)) (InProcessRpcClient_Call (Some pd_rpc_server) req (rc_pd w))"

definition store_link :: "rpc_cluster RpcHandler" where
  "store_link req w =
     map_option (\<lambda>(resp, s, _). (resp, w\<lparr>rc_store := s\<rparr>))
       (InProcessRpcClient_Call (Some (store_rpc_server no_peers)) req (rc_store w, ()))"

text \<open>
  The network: which process listens at an endpoint, and what the kernel does with each call to it.
  An endpoint where no process of the backend listens refuses the connection.
\<close>

datatype process = PdProcess | StoreProcess | GatewayProcess

record wires =
  wr_at :: "Endpoint \<Rightarrow> process option"
  wr_conn :: "Endpoint \<Rightarrow> RpcRequest \<Rightarrow> connection"

definition dial :: "wires \<Rightarrow> Endpoint \<Rightarrow> rpc_cluster RpcHandler" where
  "dial net ep req w =
     (case wr_at net ep of
        Some PdProcess \<Rightarrow>
          map_option (map_prod id (\<lambda>s. w\<lparr>rc_pd := s\<rparr>)) (TcpRpcClient_Call (wr_conn net ep req) pd_rpc_server req (rc_pd w))
      | Some StoreProcess \<Rightarrow>
          map_option (\<lambda>(resp, s, _). (resp, w\<lparr>rc_store := s\<rparr>))
            (TcpRpcClient_Call (wr_conn net ep req) (store_rpc_server no_peers) req (rc_store w, ()))
      | _ \<Rightarrow> Some (unreachable req, w))"

text \<open>
  The gateway process: a TCP client for each of its two endpoints, and more in dynamic routing. A
  handler that raises ends the process it runs in; in dynamic routing the call is then answered
  as unreachable, and the lemmas show that no handler raises.
\<close>

definition wired :: "wires \<Rightarrow> Endpoint \<Rightarrow> Endpoint \<Rightarrow> rpc_cluster gateway_env" where
  "wired net pd_endpoint store_endpoint =
     \<lparr>ge_pd_client = Some (dial net pd_endpoint), ge_store_client = Some (dial net store_endpoint),
      ge_tcp = (\<lambda>ep req w. case dial net ep req w of None \<Rightarrow> (unreachable req, w) | Some x \<Rightarrow> x)\<rparr>"

text \<open>
  The endpoints are those of the two processes, \<open>c\<close> being the one the store is registered with, and
  connections are made and do not fail, with any partial sends and any cuts.
\<close>

definition connected :: "wires \<Rightarrow> Endpoint \<Rightarrow> Endpoint \<Rightarrow> Endpoint \<Rightarrow> bool" where
  "connected net pd_endpoint store_endpoint c \<longleftrightarrow>
     wr_at net pd_endpoint = Some PdProcess \<and> wr_at net store_endpoint = Some StoreProcess \<and> wr_at net c = Some StoreProcess \<and>
     (\<forall>ep req. reliable (wr_conn net ep req))"

lemma dial_pd:
  assumes "connected net pd_ep st_ep c" and "request_fits req" and "pd_link req w = Some (resp, w')" and "response_fits resp"
  shows "dial net pd_ep req w = Some (resp, w')"
proof -
  obtain s where s: "RpcServer_Handle pd_rpc_server req (rc_pd w) = Some (resp, s)" "w' = w\<lparr>rc_pd := s\<rparr>"
    using assms(3) by (auto simp: pd_link_def InProcessRpcClient_Call_def)
  have "wr_at net pd_ep = Some PdProcess" "reliable (wr_conn net pd_ep req)" using assms(1) by (simp_all add: connected_def)
  then show ?thesis using call_delivers(2) [OF _ assms(2) s(1) assms(4)] s(2) by (simp add: dial_def)
qed

lemma dial_store:
  assumes "connected net pd_ep st_ep c" and "ep = st_ep \<or> ep = c" and "request_fits req" and "store_link req w = Some (resp, w')"
  shows "\<exists>resp'. dial net ep req w = Some (resp', w')" and "response_fits resp \<Longrightarrow> dial net ep req w = Some (resp, w')"
proof -
  obtain s where s: "RpcServer_Handle (store_rpc_server no_peers) req (rc_store w, ()) = Some (resp, s, ())" "w' = w\<lparr>rc_store := s\<rparr>"
    using assms(4) by (auto simp: store_link_def InProcessRpcClient_Call_def)
  have ep: "wr_at net ep = Some StoreProcess" "reliable (wr_conn net ep req)" using assms(1,2) by (auto simp: connected_def)
  show "\<exists>resp'. dial net ep req w = Some (resp', w')" using call_delivers(1) [OF ep(2) assms(3) s(1)] ep(1) s(2) by (auto simp: dial_def)
  show "dial net ep req w = Some (resp, w')" if "response_fits resp"
    using call_delivers(2) [OF ep(2) assms(3) s(1) that] ep(1) s(2) by (simp add: dial_def)
qed

section \<open>The store\<close>

lemma multi_service_sel [simp]:
  "sv_multi_cluster (StoreService_multi x) = x" "sv_distributed_store (StoreService_multi x) = None"
  "sv_distributed_node (StoreService_multi x) = None" "\<not> distributed (StoreService_multi x)"
  "(StoreService_multi x)\<lparr>sv_multi_cluster := y\<rparr> = StoreService_multi y"
  by (simp_all add: StoreService_multi_def distributed_def)

text \<open>The region id that a multi-region store expects for a key.\<close>

definition region_of :: "MultiRegionCluster \<Rightarrow> string \<Rightarrow> u64" where
  "region_of x k = (case FindRegionByKey x k of None \<Rightarrow> 0 | Some r \<Rightarrow> ri_region_id r)"

definition stale :: "RpcRequest \<Rightarrow> RpcResponse" where
  "stale req = StatusToRpcError req (mk_status kStaleEpoch ''request route is stale'')"

lemma stale_error [simp]: "IsRouteStaleError (stale req)"
  by (simp add: stale_def IsRouteStaleError_def)

lemma stale_fits: "request_fits req \<Longrightarrow> response_fits (stale req)"
  by (simp add: stale_def error_fits mk_status_def)

lemma ok_not_stale: "rs_ok resp \<Longrightarrow> \<not> IsRouteStaleError resp"
  by (simp add: IsRouteStaleError_def)

lemma validate_route:
  assumes "multi_inv n j M m x" and "fmlookup f ''region_id'' = Some (to_string i)"
  shows "ValidateRoute (Some x) f k =
     Some (if i = region_of x k then Status_Ok else mk_status kStaleEpoch ''request route is stale'')"
proof -
  obtain r where "FindRegionByKey x k = Some r" by (rule multi_inv_region [OF assms(1)])
  moreover have "to_string i \<noteq> []" using stoull_to_string [of i] by auto
  ultimately show ?thesis
    using assms(2) by (auto simp: ValidateRoute_def GetOr_def region_of_def stoull_to_string)
qed

lemma multi_routed:
  assumes "multi_inv n j M m x" and "rq_payload req = EncodeFields f" and "fmlookup f ''region_id'' = Some (to_string i)"
    and "fmlookup f ''key'' = Some k"
  shows "routed req (StoreService_multi (Some x), w) K =
     (if i = region_of x k then K f i else Some (stale req, StoreService_multi (Some x), w))"
  using validate_route [OF assms(1,3)] assms(2-4)
  by (simp add: routed_def GetOr_def stoull_to_string stale_def)

lemma same_store: "rc_store w = s \<Longrightarrow> w\<lparr>rc_store := s\<rparr> = w"
  by simp

lemma multi_write:
  assumes x: "multi_inv n j M m x" and w: "rc_store w = StoreService_multi (Some x)"
    and req: "rq_payload req = EncodeFields f" "fmlookup f ''region_id'' = Some (to_string i)" "fmlookup f ''key'' = Some k"
    and h: "RpcServer_Handle (store_rpc_server no_peers) req (StoreService_multi (Some x), ()) =
      routed req (StoreService_multi (Some x), ()) (\<lambda>f i. finish req (on_backend (A f i) (B f) (F f) (C f) (StoreService_multi (Some x), ())))"
    and F: "F f x = Some (status, x')"
  shows "store_link req w = Some (if i = region_of x k then (answer req status [], w\<lparr>rc_store := StoreService_multi (Some x')\<rparr>) else (stale req, w))"
  using multi_routed [OF x req, of "()"] w F
  by (simp add: store_link_def InProcessRpcClient_Call_def h finish_def on_backend_def same_store)

section \<open>The catalogs\<close>

definition range_of :: "RegionInfo \<Rightarrow> u64 \<times> string \<times> string" where
  "range_of r = (ri_region_id r, ri_start_key r, ri_end_key r)"

text \<open>Both catalogs have the same regions and give the same id to the next one.\<close>

definition agreed :: "PdServer \<Rightarrow> MultiRegionCluster \<Rightarrow> bool" where
  "agreed s x \<longleftrightarrow> range_of ` set (pd_ListRegions s) = range_of ` set (mr_regions x) \<and>
     pm_next_region_id (pd_metadata s) = next_region_id (mr_regions x)"

text \<open>A well-formed and saved catalog on a healthy disk, with ids and epochs for \<open>j\<close> splits of regions with up to \<open>p\<close> peers.\<close>

definition pd_room :: "nat \<Rightarrow> string \<Rightarrow> nat \<Rightarrow> PdServer \<Rightarrow> bool" where
  "pd_room p e j s \<longleftrightarrow> pd_io s = [] \<and> pd_data_dir s = e \<and> pd_saved s \<and> catalog_wf (pd_metadata s) \<and>
     unat (pm_next_store_id (pd_metadata s)) + 3 * j + 1 < 2 ^ 64 \<and>
     unat (pm_next_region_id (pd_metadata s)) + j + 1 < 2 ^ 64 \<and> unat (pm_next_peer_id (pd_metadata s)) + p * j < 2 ^ 64 \<and>
     (\<forall>r \<in> set (pd_ListRegions s). length (ri_peers r) \<le> p \<and> unat (re_version (ri_epoch r)) + j < 2 ^ 64 \<and> re_conf_ver (ri_epoch r) \<noteq> - 1)"

text \<open>
  The leader of every region is its first peer, on a store that is registered with endpoint \<open>c\<close>, and
  the answer to a request for a route fits in a frame.
\<close>

definition routable :: "nat \<Rightarrow> Endpoint \<Rightarrow> PdServer \<Rightarrow> bool" where
  "routable p c s \<longleftrightarrow> p \<le> 1000 \<and> short (ep_host c) \<and>
     (\<forall>r \<in> set (pd_ListRegions s). short (ri_start_key r) \<and> short (ri_end_key r) \<and> ri_peers r \<noteq> [] \<and>
        ri_leader_peer_id r = pr_peer_id (hd (ri_peers r)) \<and>
        (\<exists>i. md_GetStore (pd_metadata s) (pr_store_id (hd (ri_peers r))) = Some (StoreInfo_default\<lparr>si_store_id := i, si_client_endpoint := c\<rparr>)))"

definition short_values :: "kv_map \<Rightarrow> bool" where
  "short_values m \<longleftrightarrow> (\<forall>k v. fmlookup m k = Some v \<longrightarrow> short v)"

lemma short_values_simps [simp]:
  "short_values fmempty" "short_values m \<Longrightarrow> short v \<Longrightarrow> short_values (fmupd k v m)" "short_values m \<Longrightarrow> short_values (fmdrop k m)"
  by (auto simp: short_values_def split: if_splits)

lemma short_values_batch: "short_values m \<Longrightarrow> \<forall>u \<in> set us. short (mu_value u) \<Longrightarrow> short_values (apply_mutations us m)"
proof (induction us arbitrary: m)
  case (Cons u us)
  from Cons.prems have "short_values (apply_mutation u m)" by (cases "mu_type u") (simp_all add: apply_mutation_def)
  with Cons show ?case by (simp add: apply_mutations_def)
qed (simp add: apply_mutations_def)

definition multi_world :: "nat \<Rightarrow> nat \<Rightarrow> string \<Rightarrow> string \<Rightarrow> Endpoint \<Rightarrow> nat \<Rightarrow> kv_map \<Rightarrow> rpc_cluster \<Rightarrow> bool" where
  "multi_world n p d e c j m w \<longleftrightarrow> pd_room p e j (rc_pd w) \<and> routable p c (rc_pd w) \<and> short_values m \<and>
     (\<exists>x M. rc_store w = StoreService_multi (Some x) \<and> multi_inv n j M m x \<and> agreed (rc_pd w) x \<and> mr_data_dir x = d)"

definition owner :: "rpc_cluster \<Rightarrow> string \<Rightarrow> u64" where
  "owner w k = (case sv_multi_cluster (rc_store w) of None \<Rightarrow> 0 | Some x \<Rightarrow> region_of x k)"

lemma range_contains_key: "range_of r = range_of q \<Longrightarrow> ContainsKey r k = ContainsKey q k"
  by (simp add: range_of_def ContainsKey_def)

lemma agreed_regions_nonempty:
  assumes "agreed s x" and "multi_inv n j M m x"
  shows "pd_ListRegions s \<noteq> []"
proof -
  obtain r where "r \<in> set (mr_regions x)" by (rule multi_inv_region [OF assms(2), of "[]"])
  then show ?thesis using assms(1) by (auto simp: agreed_def)
qed

lemma agreed_route:
  assumes s: "agreed s x" "catalog_wf (pd_metadata s)" and x: "multi_inv n j M m x"
  obtains r st where "pd_GetRegionByKey s k = Some r" and "GetRegionLeaderStore s r = Some st" and "ri_region_id r = region_of x k"
    and "length (ri_peers r) < 2 ^ 64" and "r \<in> set (pd_ListRegions s)"
proof -
  have ne: "pd_ListRegions s \<noteq> []" by (rule agreed_regions_nonempty [OF s(1) x])
  obtain r where r: "pd_GetRegionByKey s k = Some r" "ContainsKey r k" "GetRegionLeaderStore s r \<noteq> None" "region_wf (pd_metadata s) r"
    and only: "\<forall>q \<in> set (pd_ListRegions s). ContainsKey q k \<longrightarrow> q = r"
    using route_of_key [OF s(2) ne, of k] by blast
  obtain q where q: "FindRegionByKey x k = Some q" "q \<in> set (mr_regions x)" "ContainsKey q k" by (rule multi_inv_region [OF x])
  then have "range_of q \<in> range_of ` set (pd_ListRegions s)" using s(1) by (simp add: agreed_def)
  then obtain r' where r': "r' \<in> set (pd_ListRegions s)" "range_of r' = range_of q" by (metis imageE)
  then have "r' = r" using only range_contains_key [OF r'(2)] q(3) by simp
  then have "ri_region_id r = region_of x k" using r'(2) q(1) by (simp add: range_of_def region_of_def)
  moreover have "r \<in> set (pd_ListRegions s)" using r'(1) \<open>r' = r\<close> by simp
  ultimately show thesis using that r wf_peers_length by auto
qed

lemma routable_leader:
  assumes "routable p c s" and "r \<in> set (pd_ListRegions s)"
  obtains i where "GetRegionLeaderStore s r = Some (StoreInfo_default\<lparr>si_store_id := i, si_client_endpoint := c\<rparr>)"
proof -
  obtain q qs where q: "ri_peers r = q # qs" "ri_leader_peer_id r = pr_peer_id q"
    using assms by (cases "ri_peers r") (auto simp: routable_def)
  then have "FindPeer r (ri_leader_peer_id r) = Some q" by (simp add: FindPeer_def)
  then show thesis using that assms q(1) by (fastforce simp: routable_def GetRegionLeaderStore_def)
qed

lemma pd_room_mono: "pd_room p e (i + j) s \<Longrightarrow> pd_room p e j s"
  by (auto simp: pd_room_def algebra_simps)

lemma multi_world_mono: "multi_world n p d e c (i + j) m w \<Longrightarrow> multi_world n p d e c j m w"
  using pd_room_mono multi_inv_le unfolding multi_world_def by blast

lemma multi_world_write:
  assumes "multi_world n p d e c (i + j) m w" and "rc_store w = StoreService_multi (Some x)"
    and "multi_inv n j M' m' x'" and "short_values m'" and "mr_regions x' = mr_regions x \<and> mr_data_dir x' = mr_data_dir x"
  shows "multi_world n p d e c j m' (w\<lparr>rc_store := StoreService_multi (Some x')\<rparr>)"
proof -
  have "agreed (rc_pd w) x'" using assms(1,2,5) by (auto simp: multi_world_def agreed_def StoreService_multi_def)
  moreover have "mr_data_dir x' = d" using assms(1,2,5) by (auto simp: multi_world_def StoreService_multi_def)
  ultimately show ?thesis using assms(1,3,4) pd_room_mono by (auto simp: multi_world_def)
qed

lemma multi_worldE:
  assumes "multi_world n p d e c j m w"
  obtains x M where "rc_store w = StoreService_multi (Some x)" and "multi_inv n j M m x" and "agreed (rc_pd w) x"
    and "pd_room p e j (rc_pd w)" and "mr_data_dir x = d" and "\<And>k. owner w k = region_of x k"
    and "routable p c (rc_pd w)" and "short_values m"
  using assms by (auto simp: multi_world_def owner_def)

section \<open>The laws\<close>

lemma linked_route:
  assumes "multi_world n p d e c j m w" and "request_fits req" and "rq_method req = ''pd.GetRegionByKey''"
    and "rq_payload req = EncodeFields (fmupd ''key'' k fmempty)"
  shows "\<exists>resp f r. pd_link req w = Some (resp, w) \<and> response_fits resp \<and> rs_ok resp \<and> DecodeFields (rs_payload resp) = Inr f \<and>
     GetRegionFields f ''region'' = Inr r \<and> ri_region_id r = owner w k \<and>
     si_client_endpoint (snd (GetStoreFields f StoreInfo_default ''leader_store'')) = c"
proof -
  obtain x M where x: "multi_inv n j M m x" "agreed (rc_pd w) x" "pd_room p e j (rc_pd w)" "\<And>k. owner w k = region_of x k"
    and s: "routable p c (rc_pd w)"
    by (rule multi_worldE [OF assms(1)]) blast
  have "catalog_wf (pd_metadata (rc_pd w))" using x(3) by (simp add: pd_room_def)
  then obtain r where r: "pd_GetRegionByKey (rc_pd w) k = Some r" "ri_region_id r = region_of x k" "length (ri_peers r) < 2 ^ 64"
    "r \<in> set (pd_ListRegions (rc_pd w))"
    using agreed_route [OF x(2) _ x(1), of k thesis] by blast
  obtain i where st: "GetRegionLeaderStore (rc_pd w) r = Some (StoreInfo_default\<lparr>si_store_id := i, si_client_endpoint := c\<rparr>)"
    by (rule routable_leader [OF s r(4)])
  let ?st = "StoreInfo_default\<lparr>si_store_id := i, si_client_endpoint := c\<rparr>"
  let ?f = "PutStoreFields (PutRegionFields fmempty r ''region'') ?st ''leader_store''"
  have "RpcServer_Handle pd_rpc_server req (rc_pd w) = Some (MakeRpcOk req (EncodeFields ?f), rc_pd w)"
    using r(1) st assms(3,4) by (simp add: pd_dispatch HandleGetRegionByKey_def GetOr_def)
  then have "pd_link req w = Some (MakeRpcOk req (EncodeFields ?f), w)" by (simp add: pd_link_def InProcessRpcClient_Call_def)
  moreover have "carried (EncodeFields ?f)"
    using store_fields_le [of "''leader_store''" ?st "2 ^ 20", OF _ _ _ _ region_fields_le [of "''region''" r "2 ^ 20" fmempty 0]] s r(4) x(3)
    by (force simp: routable_def pd_room_def short_def carried_def StoreInfo_default_def Endpoint_default_def)
  ultimately show ?thesis using r(2,3) x(4) ok_fits [OF assms(2)] by (simp add: decode_encode_fields route_fields get_put_store)
qed

lemma linked_put:
  assumes w: "multi_world n p d e c (Suc j) m w" and fits: "request_fits req" and k: "client_key k" and v: "short v"
    and req: "rq_method req = ''store.KvPut''" "rq_payload req = EncodeFields f" "fmlookup f ''region_id'' = Some (to_string i)"
      "fmlookup f ''key'' = Some k" "fmlookup f ''value'' = Some v"
  shows "served (i = owner w k) w (\<lambda>resp w'. rs_ok resp \<and> multi_world n p d e c j (fmupd k v m) w') (store_link req w)"
proof -
  obtain x M where x: "rc_store w = StoreService_multi (Some x)" "multi_inv n (Suc j) M m x" "owner w k = region_of x k" "short_values m"
    by (rule multi_worldE [OF w]) blast
  obtain x' M' where x': "mr_Put k v x = Some (Status_Ok, x')" "multi_inv n j M' (fmupd k v m) x'"
    using multi_put_inv [OF x(2)] k by blast
  have "store_link req w = Some (if i = region_of x k then (answer req Status_Ok [], w\<lparr>rc_store := StoreService_multi (Some x')\<rparr>) else (stale req, w))"
    by (rule multi_write [OF x(2,1) req(2-4), where F = "\<lambda>f. mr_Put (GetOr f ''key'' []) (GetOr f ''value'' [])"])
      (use req x'(1) in \<open>auto simp: store_dispatch store_HandlePut_def GetOr_def Let_def\<close>)
  moreover have "multi_world n p d e c j (fmupd k v m) (w\<lparr>rc_store := StoreService_multi (Some x')\<rparr>)"
    by (rule multi_world_write [where i = 1, OF _ x(1) x'(2) _ mr_write_regions(1) [OF x'(1)]]) (use w v x(4) in simp_all)
  ultimately show ?thesis using x(3) fits by (simp add: served_def answer_def ok_not_stale stale_fits ok_fits)
qed

lemma linked_delete:
  assumes w: "multi_world n p d e c (Suc j) m w" and fits: "request_fits req" and k: "client_key k"
    and req: "rq_method req = ''store.KvDelete''" "rq_payload req = EncodeFields f" "fmlookup f ''region_id'' = Some (to_string i)"
      "fmlookup f ''key'' = Some k"
  shows "served (i = owner w k) w (\<lambda>resp w'. rs_ok resp \<and> multi_world n p d e c j (fmdrop k m) w') (store_link req w)"
proof -
  obtain x M where x: "rc_store w = StoreService_multi (Some x)" "multi_inv n (Suc j) M m x" "owner w k = region_of x k" "short_values m"
    by (rule multi_worldE [OF w]) blast
  obtain x' M' where x': "mr_Delete k x = Some (Status_Ok, x')" "multi_inv n j M' (fmdrop k m) x'"
    using multi_delete_inv [OF x(2)] k by blast
  have "store_link req w = Some (if i = region_of x k then (answer req Status_Ok [], w\<lparr>rc_store := StoreService_multi (Some x')\<rparr>) else (stale req, w))"
    by (rule multi_write [OF x(2,1) req(2-4), where F = "\<lambda>f. mr_Delete (GetOr f ''key'' [])"])
      (use req x'(1) in \<open>auto simp: store_dispatch store_HandleDelete_def GetOr_def Let_def\<close>)
  moreover have "multi_world n p d e c j (fmdrop k m) (w\<lparr>rc_store := StoreService_multi (Some x')\<rparr>)"
    by (rule multi_world_write [where i = 1, OF _ x(1) x'(2) _ mr_write_regions(2) [OF x'(1)]]) (use w x(4) in simp_all)
  ultimately show ?thesis using x(3) fits by (simp add: served_def answer_def ok_not_stale stale_fits ok_fits)
qed

lemma linked_get:
  assumes w: "multi_world n p d e c j m w" and fits: "request_fits req" and k: "\<not> reserved_key k" "short k"
    and req: "rq_method req = ''store.KvGet''" "rq_payload req = EncodeFields f" "fmlookup f ''region_id'' = Some (to_string i)"
      "fmlookup f ''key'' = Some k"
  shows "served (i = owner w k) w (\<lambda>resp w'. w' = w \<and> (case fmlookup m k of
          None \<Rightarrow> \<not> rs_ok resp \<and> rs_error_code resp = ''KEY_NOT_FOUND'' \<and> length (rs_error_message resp) \<le> 2 ^ 21
        | Some v \<Rightarrow> rs_ok resp \<and> DecodeFields (rs_payload resp) = Inr (fmupd ''value'' v fmempty))) (store_link req w)"
proof -
  obtain x M where x: "rc_store w = StoreService_multi (Some x)" "multi_inv n j M m x" "owner w k = region_of x k" "short_values m"
    by (rule multi_worldE [OF w]) blast
  let ?resp = "case lookup_result m k of Inl status \<Rightarrow> StatusToRpcError req status | Inr v \<Rightarrow> MakeRpcOk req (EncodeFields (fmupd ''value'' v fmempty))"
  have "store_HandleGet req (StoreService_multi (Some x), ()) =
      Some (if i = region_of x k then ?resp else stale req, StoreService_multi (Some x), ())"
    unfolding store_HandleGet_def multi_routed [OF x(2) req(2-4)]
    using req(4) multi_inv_reads [OF x(2) k(1)] by (simp add: backend_Get_def GetOr_def)
  then have link: "store_link req w = Some (if i = region_of x k then ?resp else stale req, w)"
    using x(1) req(1) by (simp add: store_link_def InProcessRpcClient_Call_def store_dispatch same_store)
  have fit: "response_fits ?resp"
  proof (cases "fmlookup m k")
    case None
    then show ?thesis using k(2) by (auto simp: lookup_result_def KeyNotFound_def mk_status_def short_def intro!: error_fits [OF fits])
  next
    case (Some v)
    then have "short v" using x(4) by (auto simp: short_values_def)
    then show ?thesis using Some by (auto simp: lookup_result_def carried_def short_def length_EncodeFields_upd intro!: ok_fits [OF fits])
  qed
  have err: "rs_error_code ?resp = ''KEY_NOT_FOUND'' \<and> length (rs_error_message ?resp) \<le> 2 ^ 21" if "fmlookup m k = None"
    using that k(2) by (simp add: lookup_result_def KeyNotFound_def mk_status_def short_def)
  show ?thesis
  proof (cases "i = region_of x k")
    case True
    with link fit err x(3) show ?thesis
      by (auto simp: served_def lookup_result_def KeyNotFound_def IsRouteStaleError_def decode_encode_fields split: option.splits)
  next
    case False
    with link x(3) show ?thesis by (simp add: served_def stale_fits [OF fits])
  qed
qed

lemma linked_batch:
  assumes w: "multi_world n p d e c (length us + j) m w" and fits: "request_fits req"
    and us: "us \<noteq> []" "\<forall>u \<in> set us. client_key (mu_key u) \<and> short (mu_value u)"
    and req: "rq_method req = ''store.KvBatch''" "rq_payload req = EncodeFields f" "fmlookup f ''region_id'' = Some (to_string i)"
      "fmlookup f ''op_count'' = Some (show_nat (length us))" "\<forall>n < length us. get_op f (''op'' @ show_nat n) = us ! n"
  shows "served (i = owner w (mu_key (hd us))) w
     (\<lambda>resp w'. multi_world n p d e c j (if rs_ok resp then apply_mutations us m else m) w') (store_link req w)"
proof -
  let ?k = "mu_key (hd us)"
  have keys: "\<forall>u \<in> set us. client_key (mu_key u)" using us(2) by blast
  obtain x M where x: "rc_store w = StoreService_multi (Some x)" "multi_inv n (length us + j) M m x" "owner w ?k = region_of x ?k" "short_values m"
    by (rule multi_worldE [OF w]) blast
  have len: "length us < 2 ^ 64" using x(2) by (simp add: multi_inv_def)
  then have count: "stoull (show_nat (length us)) = Some (of_nat (length us))" by (rule stoull_show_nat)
  have zero: "show_nat 0 = ''0''" by code_simp
  have nz: "show_nat (length us) \<noteq> ''0''" using us(1) show_nat_inj [of "length us" 0] unfolding zero by simp
  have ops: "map (\<lambda>n. get_op f (''op'' @ show_nat n)) [0 ..< length us] = us" using req(5) by (intro nth_equalityI) simp_all
  have "get_op f (''op'' @ show_nat 0) = hd us" using req(5) us(1) by (simp add: hd_conv_nth)
  then have "mu_key (get_op f (''op'' @ show_nat 0)) = ?k" by (rule arg_cong)
  then have key: "GetOr f ''op0.key'' [] = ?k" by (simp add: get_op_def zero)
  obtain status x' where x': "mr_Batch us x = Some (status, x')" "status \<in> {Status_Ok, InvalidArgument ''batch must target a single region''}"
    "\<exists>M'. multi_inv n j M' (if ok status then apply_mutations us m else m) x'"
  proof (cases "one_region_batch us x")
    case True
    then obtain x' M' where "mr_Batch us x = Some (Status_Ok, x')" "multi_inv n j M' (apply_mutations us m) x'"
      using multi_batch_inv [OF x(2) us(1) keys] by blast
    then show thesis by (intro that) auto
  next
    case False
    then show thesis using multi_batch_refused [OF x(2) us(1)] multi_inv_le [OF x(2)] by (intro that) auto
  qed
  have "store_HandleBatch no_peers req (StoreService_multi (Some x), ()) =
      Some (if i = region_of x ?k then (answer req status [], StoreService_multi (Some x'), ()) else (stale req, StoreService_multi (Some x), ()))"
    using validate_route [OF x(2) req(3), of ?k] req(2-4) x'(1) count nz len ops key
    by (simp add: store_HandleBatch_def GetOr_def stoull_to_string unat_of_nat take_bit_nat_eq_self finish_def on_backend_def stale_def)
  then have "store_link req w = Some (if i = region_of x ?k then (answer req status [], w\<lparr>rc_store := StoreService_multi (Some x')\<rparr>) else (stale req, w))"
    using x(1) req(1) by (simp add: store_link_def InProcessRpcClient_Call_def store_dispatch same_store)
  moreover have "multi_world n p d e c j (if ok status then apply_mutations us m else m) (w\<lparr>rc_store := StoreService_multi (Some x')\<rparr>)"
    using multi_world_write [OF w x(1) _ _ mr_write_regions(3) [OF x'(1)]] x'(3) short_values_batch [OF x(4), of us] x(4) us(2) by auto
  moreover have "response_fits (answer req status [])"
    by (rule answer_fits [OF fits]) (use x'(2) in \<open>auto simp: InvalidArgument_def mk_status_def Status_Ok_def\<close>)
  ultimately show ?thesis
    using x(3) x'(2) stale_fits [OF fits] by (auto simp: served_def answer_def IsRouteStaleError_def stale_def InvalidArgument_def)
qed

subsection \<open>Splits\<close>

lemma split_halves_range:
  assumes "range_of r = range_of q"
  shows "range_of (split_left r sk) = range_of (mr_split_left q sk)"
    and "pm_next_region_id m = i \<Longrightarrow> range_of (split_right m r sk) = range_of (mr_split_right q sk i)"
  using assms by (simp_all add: range_of_def split_left_def split_right_def mr_split_left_def mr_split_right_def Let_def)

lemma next_region_id_split:
  assumes "unat (next_region_id rs) + 1 < 2 ^ 64" and "ri_region_id q = i"
  shows "next_region_id (replace_region i (\<lambda>_. mr_split_left q sk) rs @ [mr_split_right q sk (next_region_id rs)]) = next_region_id rs + 1"
proof -
  have "map ri_region_id (replace_region i (\<lambda>_. mr_split_left q sk) rs) = map ri_region_id rs"
    using assms(2) by (induction rs) (auto simp: mr_split_left_def)
  moreover have "fold (\<lambda>region n. max n (ri_region_id region + 1)) xs a = fold (\<lambda>j n. max n (j + 1)) (map ri_region_id xs) a"
    for xs and a :: u64
    by (induction xs arbitrary: a) simp_all
  ultimately have "next_region_id (replace_region i (\<lambda>_. mr_split_left q sk) rs) = next_region_id rs"
    unfolding next_region_id_def by metis
  moreover have "next_region_id rs < next_region_id rs + 1"
    using assms unat_Suc_bound [of "next_region_id rs"] by (simp add: word_less_nat_alt)
  ultimately show ?thesis by (simp add: next_region_id_def mr_split_right_def Let_def max_def)
qed

lemma pd_split_regions:
  assumes "GetRegion (pd_metadata s) i = Some r" and "catalog_wf (pd_metadata s)"
    and "pd_metadata s' = snd (PutRegion (split_right (pd_metadata s) r sk) (snd (PutRegion (split_left r sk) (split_ids (pd_metadata s) r))))"
  shows "set (pd_ListRegions s') = {split_left r sk, split_right (pd_metadata s) r sk} \<union> (set (pd_ListRegions s) - {r})"
    and "pm_next_region_id (pd_metadata s') = pm_next_region_id (pd_metadata s) + 1"
    and "pm_next_store_id (pd_metadata s') = pm_next_store_id (pd_metadata s)"
    and "pm_next_peer_id (pd_metadata s') = pm_next_peer_id (pd_metadata s) + of_nat (length (ri_peers r))"
    and "pm_stores (pd_metadata s') = pm_stores (pd_metadata s)"
proof -
  let ?m = "pd_metadata s" and ?n = "pm_next_region_id (pd_metadata s)"
  have lk: "fmlookup (pm_regions ?m) i = Some r" using assms(1) by (simp add: GetRegion_def)
  have id: "ri_region_id r = i" "i \<noteq> 0" "i < ?n" "?n \<noteq> 0" using catalog_wfD [OF assms(2) lk] catalog_wf_pos [OF assms(2)] by auto
  have sel: "ri_region_id (split_left r sk) = i" "ri_region_id (split_right ?m r sk) = ?n"
    by (simp_all add: split_left_def split_right_def Let_def id(1))
  have m': "pd_metadata s' = (split_ids ?m r)\<lparr>pm_regions := fmupd ?n (split_right ?m r sk) (fmupd i (split_left r sk) (pm_regions ?m)),
      pm_by_start := fmupd (ri_start_key (split_right ?m r sk)) ?n (fmupd (ri_start_key (split_left r sk)) i (pm_by_start ?m))\<rparr>"
    using id sel by (simp add: assms(3) PutRegion_def split_ids_def)
  show "pm_next_region_id (pd_metadata s') = ?n + 1" "pm_next_store_id (pd_metadata s') = pm_next_store_id ?m"
    "pm_next_peer_id (pd_metadata s') = pm_next_peer_id ?m + of_nat (length (ri_peers r))" "pm_stores (pd_metadata s') = pm_stores ?m"
    by (simp_all add: m' split_ids_def)
  have none: "fmlookup (pm_regions ?m) ?n = None" using catalog_wfD(3) [OF assms(2), of ?n] by (cases "fmlookup (pm_regions ?m) ?n") auto
  have only: "fmlookup (pm_regions ?m) j \<noteq> Some r" if "j \<noteq> i" for j using catalog_wfD(1) [OF assms(2), of j r] id(1) that by auto
  have ne: "i \<noteq> ?n" using id(3) by auto
  have "fmlookup (pm_regions (pd_metadata s')) j = Some q \<longleftrightarrow> j = i \<and> q = split_left r sk \<or> j = ?n \<and> q = split_right ?m r sk \<or>
      fmlookup (pm_regions ?m) j = Some q \<and> q \<noteq> r" for j q
  proof -
    consider "j = ?n" | "j = i" | "j \<noteq> ?n" "j \<noteq> i" by blast
    then show ?thesis by cases (use none only [of j] ne lk in \<open>auto simp: m'\<close>)
  qed
  then show "set (pd_ListRegions s') = {split_left r sk, split_right ?m r sk} \<union> (set (pd_ListRegions s) - {r})"
    unfolding pd_ListRegions_def by (intro set_eqI) (simp only: set_ListRegions Un_iff insert_iff Diff_iff empty_iff, blast)
qed

lemma split_room:
  assumes "length (ri_peers r) \<le> p" and "unat (re_version (ri_epoch r)) + Suc j < 2 ^ 64" and "re_conf_ver (ri_epoch r) \<noteq> - 1"
  shows "length (ri_peers (split_left r sk)) \<le> p \<and> unat (re_version (ri_epoch (split_left r sk))) + j < 2 ^ 64 \<and>
      re_conf_ver (ri_epoch (split_left r sk)) \<noteq> - 1"
    and "length (ri_peers (split_right m r sk)) \<le> p \<and> unat (re_version (ri_epoch (split_right m r sk))) + j < 2 ^ 64 \<and>
      re_conf_ver (ri_epoch (split_right m r sk)) \<noteq> - 1"
proof -
  have "unat (re_version (ri_epoch r) + 1) = Suc (unat (re_version (ri_epoch r)))" using assms(2) by (intro unat_Suc_bound) simp
  then show "length (ri_peers (split_left r sk)) \<le> p \<and> unat (re_version (ri_epoch (split_left r sk))) + j < 2 ^ 64 \<and>
      re_conf_ver (ri_epoch (split_left r sk)) \<noteq> - 1"
    "length (ri_peers (split_right m r sk)) \<le> p \<and> unat (re_version (ri_epoch (split_right m r sk))) + j < 2 ^ 64 \<and>
      re_conf_ver (ri_epoch (split_right m r sk)) \<noteq> - 1"
    using assms by (simp_all add: split_left_def split_right_def Let_def)
qed

lemma pd_split_saved:
  assumes "pd_io s = []" and "GetRegion (pd_metadata s) i = Some r" and "ri_region_id r \<noteq> 0" and "ContainsKey r sk" and "sk \<noteq> ri_start_key r"
    and "pd_SplitRegion i sk s = Some (Inr lr, s')"
  shows "pd_saved s' \<and> pd_data_dir s' = pd_data_dir s"
proof -
  let ?q = "split_right (pd_metadata s) r sk" and ?m = "snd (PutRegion (split_left r sk) (split_ids (pd_metadata s) r))"
  obtain st where "put_region_persist ?q (s\<lparr>pd_metadata := ?m\<rparr>) = Some (st, s')" "ok st"
    using assms(6) unfolding pd_SplitRegion_eq [OF assms(2-5)] by (auto split: if_splits)
  then have "Persist (s\<lparr>pd_metadata := snd (PutRegion ?q ?m)\<rparr>) = Some (st, s')"
    by (simp add: put_region_persist_def split_beta Let_def split: if_splits)
  then show ?thesis using Persist_saved Persist_frame assms(1) by fastforce
qed

lemma pd_split_room:
  assumes s: "pd_room p e (Suc j) s" and r: "GetRegion (pd_metadata s) i = Some r" "ContainsKey r sk" "sk \<noteq> ri_start_key r"
  obtains s' where "pd_SplitRegion i sk s = Some (Inr (split_left r sk, split_right (pd_metadata s) r sk), s')" and "pd_room p e j s'"
    and "set (pd_ListRegions s') = {split_left r sk, split_right (pd_metadata s) r sk} \<union> (set (pd_ListRegions s) - {r})"
    and "pm_next_region_id (pd_metadata s') = pm_next_region_id (pd_metadata s) + 1" and "pm_stores (pd_metadata s') = pm_stores (pd_metadata s)"
proof -
  let ?m = "pd_metadata s" and ?l = "split_left r sk" and ?q = "split_right (pd_metadata s) r sk"
  have R: "pd_io s = []" "catalog_wf ?m" "unat (pm_next_store_id ?m) + 3 * Suc j + 1 < 2 ^ 64" "unat (pm_next_region_id ?m) + Suc j + 1 < 2 ^ 64"
    "unat (pm_next_peer_id ?m) + p * Suc j < 2 ^ 64" "pd_data_dir s = e"
    and each: "\<And>q. q \<in> set (pd_ListRegions s) \<Longrightarrow> length (ri_peers q) \<le> p \<and> unat (re_version (ri_epoch q)) + Suc j < 2 ^ 64 \<and> re_conf_ver (ri_epoch q) \<noteq> - 1"
    using s unfolding pd_room_def by blast+
  have lk: "fmlookup (pm_regions ?m) i = Some r" using r(1) by (simp add: GetRegion_def)
  then have rin: "r \<in> set (pd_ListRegions s)" by (auto simp: pd_ListRegions_def set_ListRegions)
  have nz: "ri_region_id r \<noteq> 0" "pm_next_region_id ?m \<noteq> 0" using catalog_wfD(1,2) [OF R(2) lk] catalog_wf_pos [OF R(2)] by auto
  obtain s' where s': "pd_SplitRegion i sk s = Some (Inr (?l, ?q), s')" "pd_io s' = []"
    using pd_SplitRegion_succeeds [OF R(1) r(1) nz r(2,3)] by blast
  have m': "pd_metadata s' = snd (PutRegion ?q (snd (PutRegion ?l (split_ids ?m r))))"
    by (rule pd_SplitRegion_ok [OF r(1) nz(1) s'(1)])
  note regs = pd_split_regions [OF r(1) R(2) m']
  have len: "length (ri_peers r) \<le> p" using each [OF rin] by simp
  have n1: "unat (pm_next_region_id ?m + 1) = Suc (unat (pm_next_region_id ?m))" using R(4) by (intro unat_Suc_bound) simp
  have n2: "unat (pm_next_peer_id ?m + of_nat (length (ri_peers r))) = unat (pm_next_peer_id ?m) + length (ri_peers r)"
    using R(5) len by (intro unat_add_bound) simp
  have "pm_next_region_id ?m \<noteq> - 1" "re_version (ri_epoch r) \<noteq> - 1" "pm_next_store_id ?m \<noteq> - 1"
    using R(3,4) each [OF rin] unat_Suc_bound [of "pm_next_store_id ?m"] unat_Suc_bound [of "pm_next_region_id ?m"] unat_Suc_bound [of "re_version (ri_epoch r)"] by auto
  then have "id_room (peer_count i s) s" "epoch_room i s"
    using R(5) len r(1) each [OF rin] by (simp_all add: id_room_def peer_count_def epoch_room_def)
  then have wf: "catalog_wf (pd_metadata s')" using pd_SplitRegion_wf [OF R(2) _ _ s'(1)] by blast
  have "length (ri_peers q) \<le> p \<and> unat (re_version (ri_epoch q)) + j < 2 ^ 64 \<and> re_conf_ver (ri_epoch q) \<noteq> - 1"
    if "q \<in> set (pd_ListRegions s')" for q
    using that each split_room [of r p j] each [OF rin] unfolding regs(1) by fastforce
  then have "pd_room p e j s'"
    using s'(2) wf R(3-6) n1 n2 len pd_split_saved [OF R(1) r(1) nz(1) r(2,3) s'(1)] unfolding pd_room_def regs(2-4) by simp
  then show thesis using that s'(1) regs(1,2,5) by blast
qed

lemma routable_split:
  assumes "routable p c s" and "r \<in> set (pd_ListRegions s)" and "short sk"
    and "set (pd_ListRegions s') = {split_left r sk, split_right (pd_metadata s) r sk} \<union> (set (pd_ListRegions s) - {r})"
    and "pm_stores (pd_metadata s') = pm_stores (pd_metadata s)"
  shows "routable p c s'"
proof -
  obtain q qs where q: "ri_peers r = q # qs" using assms(1,2) by (cases "ri_peers r") (auto simp: routable_def)
  then have "\<exists>i. md_GetStore (pd_metadata s) (pr_store_id q) = Some (StoreInfo_default\<lparr>si_store_id := i, si_client_endpoint := c\<rparr>)"
    using assms(1,2) by (fastforce simp: routable_def)
  then show ?thesis
    using assms(1-3) q unfolding routable_def assms(4)
    by (auto simp: md_GetStore_def assms(5) split_left_def split_right_def Let_def)
qed

lemma split_reply_fits:
  assumes "routable p c s" and "pd_room p e j s" and "r \<in> set (pd_ListRegions s)" and "short sk" and "request_fits req"
  shows "response_fits (MakeRpcOk req (EncodeFields (PutRegionFields (PutRegionFields fmempty (split_left r sk) ''left'') (split_right m r sk) ''right'')))"
proof (rule ok_fits [OF assms(5)])
  have r: "short (ri_start_key r)" "short (ri_end_key r)" "length (ri_peers r) \<le> 1000"
    using assms(1-3) by (fastforce simp: routable_def pd_room_def)+
  have "length (EncodeFields (PutRegionFields (PutRegionFields fmempty (split_left r sk) ''left'') (split_right m r sk) ''right''))
      \<le> 4 * 2 ^ 20 + 501000 + (4 * 2 ^ 20 + 501000 + 0)"
    by (intro region_fields_le) (use r assms(4) in \<open>simp_all add: split_left_def split_right_def Let_def short_def\<close>)
  then show "carried (EncodeFields (PutRegionFields (PutRegionFields fmempty (split_left r sk) ''left'') (split_right m r sk) ''right''))"
    by (simp add: carried_def)
qed

lemma range_inj:
  "catalog_wf (pd_metadata s) \<Longrightarrow> inj_on range_of (set (pd_ListRegions s))"
  "disjoint_regions rs \<Longrightarrow> inj_on range_of (set rs)"
proof -
  show "inj_on range_of (set (pd_ListRegions s))" if "catalog_wf (pd_metadata s)"
    using catalog_wfD(1) [OF that] by (fastforce simp: inj_on_def pd_ListRegions_def set_ListRegions range_of_def)
  show "inj_on range_of (set rs)" if "disjoint_regions rs"
    using that by (auto simp: inj_on_def disjoint_regions_def distinct_map range_of_def)
qed

lemma agreed_split:
  assumes sx: "agreed s x" "catalog_wf (pd_metadata s)" "disjoint_regions (mr_regions x)"
    and r: "r \<in> set (pd_ListRegions s)" "q \<in> set (mr_regions x)" "range_of r = range_of q"
    and s': "set (pd_ListRegions s') = {split_left r sk, split_right (pd_metadata s) r sk} \<union> (set (pd_ListRegions s) - {r})"
      "pm_next_region_id (pd_metadata s') = pm_next_region_id (pd_metadata s) + 1"
    and x': "mr_regions x' = replace_region (ri_region_id q) (\<lambda>_. mr_split_left q sk) (mr_regions x) @
      [mr_split_right q sk (next_region_id (mr_regions x))]" "unat (next_region_id (mr_regions x)) + 1 < 2 ^ 64"
  shows "agreed s' x'"
proof -
  let ?A = "set (pd_ListRegions s)" and ?B = "set (mr_regions x)"
  have e: "range_of ` ?A = range_of ` ?B" "pm_next_region_id (pd_metadata s) = next_region_id (mr_regions x)"
    using sx(1) by (simp_all add: agreed_def)
  have B': "set (mr_regions x') = {mr_split_left q sk, mr_split_right q sk (next_region_id (mr_regions x))} \<union> (?B - {q})"
    using replace_region_set [of "mr_regions x" q "\<lambda>_. mr_split_left q sk"] sx(3) r(2) by (auto simp: x'(1) disjoint_regions_def)
  have "range_of ` (?A - {r}) = range_of ` ?A - {range_of r}" "range_of ` (?B - {q}) = range_of ` ?B - {range_of q}"
    using inj_on_image_set_diff [OF range_inj(1) [OF sx(2)], of ?A "{r}"] inj_on_image_set_diff [OF range_inj(2) [OF sx(3)], of ?B "{q}"] r(1,2)
    by auto
  then have "range_of ` set (pd_ListRegions s') = range_of ` set (mr_regions x')"
    unfolding s'(1) B' image_Un image_insert image_empty using split_halves_range [OF r(3)] e r(3) by simp
  moreover have "next_region_id (mr_regions x') = next_region_id (mr_regions x) + 1"
    unfolding x'(1) by (rule next_region_id_split [OF x'(2) refl])
  ultimately show ?thesis using e(2) s'(2) by (simp add: agreed_def)
qed

lemma linked_split:
  assumes w: "multi_world n p d e c (Suc j) m w" and fits: "request_fits req" and sk: "short sk"
    and req: "rq_method req = ''pd.SplitRegion''" "rq_payload req = EncodeFields f" "fmlookup f ''region_id'' = Some (to_string (i :: u64))"
      "fmlookup f ''split_key'' = Some sk"
  shows "\<exists>resp w1. pd_link req w = Some (resp, w1) \<and> response_fits resp \<and> (\<not> rs_ok resp \<and> multi_world n p d e c j m w1 \<or>
     rs_ok resp \<and> (\<forall>req'. rq_method req' = ''store.SplitRegion'' \<longrightarrow> rq_payload req' = EncodeFields f \<longrightarrow>
       (\<exists>resp' w'. store_link req' w1 = Some (resp', w') \<and> rs_ok resp' \<and> multi_world n p d e c j m w')))"
proof -
  let ?s = "rc_pd w"
  obtain x M where x: "rc_store w = StoreService_multi (Some x)" "multi_inv n (Suc j) M m x" "agreed ?s x" "pd_room p e (Suc j) ?s" "mr_data_dir x = d"
    "routable p c ?s" "short_values m"
    by (rule multi_worldE [OF w]) blast
  have f: "field_u64 f ''region_id'' = Some i" "GetOr f ''split_key'' [] = sk" using req(3,4) by (simp_all add: field_u64_def GetOr_def stoull_to_string)
  have link: "pd_link req w = map_option (map_prod id (\<lambda>s. w\<lparr>rc_pd := s\<rparr>)) (HandleSplitRegion req ?s)"
    using req(1) by (simp add: pd_link_def InProcessRpcClient_Call_def pd_dispatch)
  show ?thesis
  proof (cases "\<exists>r. GetRegion (pd_metadata ?s) i = Some r \<and> ContainsKey r sk \<and> sk \<noteq> ri_start_key r")
    case False
    then have "\<exists>status. pd_SplitRegion i sk ?s = Some (Inl status, ?s) \<and> length (st_message status) \<le> 100"
      by (cases "GetRegion (pd_metadata ?s) i") (auto simp: pd_SplitRegion_def mk_status_def InvalidArgument_def)
    then obtain status where status: "pd_SplitRegion i sk ?s = Some (Inl status, ?s)" "length (st_message status) \<le> 100" by blast
    then have "pd_link req w = Some (StatusToRpcError req status, w)" using req(2) f by (simp add: link HandleSplitRegion_def)
    moreover have "multi_world n p d e c j m w" using multi_world_mono [of n p d e c 1 j] w by simp
    ultimately show ?thesis using error_fits [OF fits, of status] status(2) by simp
  next
    case True
    then obtain r where r: "GetRegion (pd_metadata ?s) i = Some r" "ContainsKey r sk" "sk \<noteq> ri_start_key r" by blast
    obtain s' where s': "pd_SplitRegion i sk ?s = Some (Inr (split_left r sk, split_right (pd_metadata ?s) r sk), s')" "pd_room p e j s'"
      "set (pd_ListRegions s') = {split_left r sk, split_right (pd_metadata ?s) r sk} \<union> (set (pd_ListRegions ?s) - {r})"
      "pm_next_region_id (pd_metadata s') = pm_next_region_id (pd_metadata ?s) + 1" "pm_stores (pd_metadata s') = pm_stores (pd_metadata ?s)"
      by (rule pd_split_room [OF x(4) r])
    have wf: "catalog_wf (pd_metadata ?s)" using x(4) by (simp add: pd_room_def)
    have rin: "r \<in> set (pd_ListRegions ?s)" using r(1) by (auto simp: pd_ListRegions_def set_ListRegions GetRegion_def)
    have resp: "\<exists>resp. pd_link req w = Some (resp, w\<lparr>rc_pd := s'\<rparr>) \<and> response_fits resp \<and> rs_ok resp"
      using req(2) f s'(1) split_reply_fits [OF x(6,4) rin sk fits] by (simp add: link HandleSplitRegion_def)
    obtain q where q: "q \<in> set (mr_regions x)" "range_of r = range_of q" using x(3) rin by (force simp: agreed_def)
    have i: "ri_region_id r = i" using catalog_wfD(1) [OF wf] r(1) by (simp add: GetRegion_def)
    have k: "ContainsKey q sk" "sk \<noteq> ri_start_key q" "ri_region_id q = i"
      using r(2,3) range_contains_key [OF q(2)] q(2) i by (simp_all add: range_of_def)
    obtain x' M' rs where x': "mr_SplitRegion i sk x = Some (Inr rs, x')" "multi_inv n j M' m x'"
      "mr_regions x' = replace_region (ri_region_id q) (\<lambda>_. mr_split_left q sk) (mr_regions x) @
        [mr_split_right q sk (next_region_id (mr_regions x))]" "unat (next_region_id (mr_regions x)) + j + 1 < 2 ^ 64"
      "mr_data_dir x' = mr_data_dir x"
      using split_inv [OF x(2) q(1) k(1,2)] k(3) by auto
    have "disjoint_regions (mr_regions x)" using x(2) by (simp add: multi_inv_def multi_rel_def)
    then have "agreed s' x'" by (rule agreed_split [OF x(3) wf _ rin q s'(3,4) x'(3)]) (use x'(4) in simp)
    then have world: "multi_world n p d e c j m (w\<lparr>rc_pd := s', rc_store := StoreService_multi (Some x')\<rparr>)"
      using s'(2) x'(2,5) x(5,7) routable_split [OF x(6) rin sk s'(3,5)] by (auto simp: multi_world_def)
    have "\<exists>resp'. store_link req' (w\<lparr>rc_pd := s'\<rparr>) = Some (resp', w\<lparr>rc_pd := s', rc_store := StoreService_multi (Some x')\<rparr>) \<and> rs_ok resp'"
      if "rq_method req' = ''store.SplitRegion''" "rq_payload req' = EncodeFields f" for req'
      using that x(1) x'(1) f
      by (cases rs) (simp add: store_link_def InProcessRpcClient_Call_def store_dispatch store_HandleSplitRegion_def)
    with resp world show ?thesis by blast
  qed
qed

section \<open>The contract holds\<close>

text \<open>The ways to the store: the client of the gateway, and a connection to an endpoint.\<close>

definition store_at :: "wires \<Rightarrow> Endpoint \<Rightarrow> Endpoint option \<Rightarrow> rpc_cluster RpcHandler" where
  "store_at net store_endpoint a =
     (case a of
        None \<Rightarrow> dial net store_endpoint
      | Some ep \<Rightarrow> (\<lambda>req w. Some (case dial net ep req w of None \<Rightarrow> (unreachable req, w) | Some x \<Rightarrow> x)))"

lemma store_at_reaches:
  assumes "connected net pd_ep st_ep c" and "pred_option ((=) c) a" and "request_fits req" and "served b w P (store_link req w)"
  shows "served b w (\<lambda>resp w'. P resp w') (store_at net st_ep a req w)"
proof -
  obtain resp w' where r: "store_link req w = Some (resp, w')" "response_fits resp" using assms(4) by (auto simp: served_def)
  have "dial net ep req w = store_link req w" if "ep = st_ep \<or> ep = c" for ep
    using dial_store(2) [OF assms(1) that assms(3) r(1,2)] r(1) by simp
  then have "store_at net st_ep a req w = store_link req w" using assms(2) r(1) by (cases a) (auto simp: store_at_def)
  then show ?thesis using assms(4) by simp
qed

definition net_world ::
  "wires \<Rightarrow> Endpoint \<Rightarrow> Endpoint \<Rightarrow> nat \<Rightarrow> nat \<Rightarrow> string \<Rightarrow> string \<Rightarrow> Endpoint \<Rightarrow> nat \<Rightarrow> kv_map \<Rightarrow> rpc_cluster \<Rightarrow> bool" where
  "net_world net pd_ep st_ep n p d e c j m w \<longleftrightarrow> connected net pd_ep st_ep c \<and> multi_world n p d e c j m w"

lemma net_route:
  assumes "net_world net pd_ep st_ep n p d e c j m w" and "request_fits req" and "rq_method req = ''pd.GetRegionByKey''"
    and "rq_payload req = EncodeFields (fmupd ''key'' k fmempty)"
  shows "\<exists>resp f r. dial net pd_ep req w = Some (resp, w) \<and> rs_ok resp \<and> DecodeFields (rs_payload resp) = Inr f \<and>
     GetRegionFields f ''region'' = Inr r \<and> ri_region_id r = owner w k \<and>
     pred_option ((=) c) (Some (si_client_endpoint (snd (GetStoreFields f StoreInfo_default ''leader_store''))))"
proof -
  have w: "connected net pd_ep st_ep c" "multi_world n p d e c j m w" using assms(1) by (simp_all add: net_world_def)
  from linked_route [OF w(2) assms(2-4)] obtain resp f r where "pd_link req w = Some (resp, w)" "response_fits resp" "rs_ok resp"
    "DecodeFields (rs_payload resp) = Inr f" "GetRegionFields f ''region'' = Inr r" "ri_region_id r = owner w k"
    "si_client_endpoint (snd (GetStoreFields f StoreInfo_default ''leader_store'')) = c"
    by blast
  with dial_pd [OF w(1) assms(2)] show ?thesis by auto
qed

lemma net_served:
  assumes "net_world net pd_ep st_ep n p d e c i m w" and "pred_option ((=) c) a" and "request_fits req"
    and "multi_world n p d e c i m w \<Longrightarrow> served b w P (store_link req w)" and "\<And>resp w'. connected net pd_ep st_ep c \<Longrightarrow> P resp w' \<Longrightarrow> Q resp w'"
  shows "served b w Q (store_at net st_ep a req w)"
proof -
  have w: "connected net pd_ep st_ep c" "multi_world n p d e c i m w" using assms(1) by (simp_all add: net_world_def)
  have "served b w P (store_at net st_ep a req w)" by (rule store_at_reaches [OF w(1) assms(2,3) assms(4) [OF w(2)]])
  then show ?thesis using assms(5) [OF w(1)] by (auto simp: served_def)
qed

lemma net_split:
  assumes "net_world net pd_ep st_ep n p d e c (Suc j) m w" and "request_fits req" and "short sk" and "rq_method req = ''pd.SplitRegion''"
    and "rq_payload req = EncodeFields f" and "fmlookup f ''region_id'' = Some (to_string (i :: u64))" and "fmlookup f ''split_key'' = Some sk"
  shows "\<exists>resp w1. dial net pd_ep req w = Some (resp, w1) \<and> (\<not> rs_ok resp \<and> net_world net pd_ep st_ep n p d e c j m w1 \<or>
     rs_ok resp \<and> (\<forall>req'. request_fits req' \<longrightarrow> rq_method req' = ''store.SplitRegion'' \<longrightarrow> rq_payload req' = EncodeFields f \<longrightarrow>
       (\<exists>resp' w'. store_at net st_ep None req' w1 = Some (resp', w') \<and> net_world net pd_ep st_ep n p d e c j m w')))"
proof -
  have w: "connected net pd_ep st_ep c" "multi_world n p d e c (Suc j) m w" using assms(1) by (simp_all add: net_world_def)
  obtain resp w1 where 1: "pd_link req w = Some (resp, w1)" "response_fits resp" "\<not> rs_ok resp \<and> multi_world n p d e c j m w1 \<or>
     rs_ok resp \<and> (\<forall>req'. rq_method req' = ''store.SplitRegion'' \<longrightarrow> rq_payload req' = EncodeFields f \<longrightarrow>
       (\<exists>resp' w'. store_link req' w1 = Some (resp', w') \<and> rs_ok resp' \<and> multi_world n p d e c j m w'))"
    using linked_split [OF w(2) assms(2-7)] by blast
  have "\<exists>resp'. store_at net st_ep None req' w1 = Some (resp', w')" if "request_fits req'" "store_link req' w1 = Some (r, w')" for req' r w'
    using dial_store(1) [OF w(1) _ that] by (simp add: store_at_def)
  then show ?thesis using dial_pd [OF w(1) assms(2) 1(1,2)] 1(3) w(1) by (fastforce simp: net_world_def)
qed

interpretation rpc: rpc_backend "wired net pd_ep st_ep" "dial net pd_ep" "store_at net st_ep" "pred_option ((=) c)" owner
  "net_world net pd_ep st_ep n p d e c" for net pd_ep st_ep n p d e c
proof
  fix j m k v sk f i i' ep a and us :: "KvMutation list" and w :: rpc_cluster and req :: RpcRequest
  show "ge_pd_client (wired net pd_ep st_ep) = Some (dial net pd_ep)" "ge_store_client (wired net pd_ep st_ep) = Some (store_at net st_ep None)"
    "store_at net st_ep (Some ep) req w = Some (ge_tcp (wired net pd_ep st_ep) ep req w)" "pred_option ((=) c) None"
    by (simp_all add: wired_def store_at_def)
  show "net_world net pd_ep st_ep n p d e c j m w" if "net_world net pd_ep st_ep n p d e c (i' + j) m w"
    using that multi_world_mono by (auto simp: net_world_def)
  show "short v" if "net_world net pd_ep st_ep n p d e c j m w" "fmlookup m k = Some v"
    using that by (auto simp: net_world_def multi_world_def short_values_def)
next
  fix j m w and a :: "Endpoint option" and req :: RpcRequest and k v f and i :: u64
  assume w: "net_world net pd_ep st_ep n p d e c (Suc j) m w" and fits: "pred_option ((=) c) a" "request_fits req"
  show "served (i = owner w k) w (\<lambda>resp w'. rs_ok resp \<and> net_world net pd_ep st_ep n p d e c j (fmupd k v m) w') (store_at net st_ep a req w)"
    if "client_key k" "short v" "rq_method req = ''store.KvPut''" "rq_payload req = EncodeFields f"
      "fmlookup f ''region_id'' = Some (to_string i)" "fmlookup f ''key'' = Some k" "fmlookup f ''value'' = Some v"
    by (rule net_served [OF w fits linked_put [OF _ fits(2) that]]) (auto simp: net_world_def)
  show "served (i = owner w k) w (\<lambda>resp w'. rs_ok resp \<and> net_world net pd_ep st_ep n p d e c j (fmdrop k m) w') (store_at net st_ep a req w)"
    if "client_key k" "rq_method req = ''store.KvDelete''" "rq_payload req = EncodeFields f"
      "fmlookup f ''region_id'' = Some (to_string i)" "fmlookup f ''key'' = Some k"
    by (rule net_served [OF w fits linked_delete [OF _ fits(2) that]]) (auto simp: net_world_def)
next
  fix us :: "KvMutation list" and j m w and a :: "Endpoint option" and req :: RpcRequest and f and i :: u64
  assume w: "net_world net pd_ep st_ep n p d e c (length us + j) m w" and fits: "pred_option ((=) c) a" "request_fits req"
    and us: "us \<noteq> []" "\<forall>u \<in> set us. client_key (mu_key u) \<and> short (mu_value u)" "rq_method req = ''store.KvBatch''"
      "rq_payload req = EncodeFields f" "fmlookup f ''region_id'' = Some (to_string i)" "fmlookup f ''op_count'' = Some (show_nat (length us))"
      "\<forall>n < length us. get_op f (''op'' @ show_nat n) = us ! n"
  show "served (i = owner w (mu_key (hd us))) w (\<lambda>resp w'. net_world net pd_ep st_ep n p d e c j (if rs_ok resp then apply_mutations us m else m) w')
      (store_at net st_ep a req w)"
    by (rule net_served [OF w fits linked_batch [OF _ fits(2) us]]) (auto simp: net_world_def)
next
  fix j m w and a :: "Endpoint option" and req :: RpcRequest and k f and i :: u64
  assume w: "net_world net pd_ep st_ep n p d e c j m w" and fits: "pred_option ((=) c) a" "request_fits req"
    and k: "\<not> reserved_key k" "short k" "rq_method req = ''store.KvGet''" "rq_payload req = EncodeFields f"
      "fmlookup f ''region_id'' = Some (to_string i)" "fmlookup f ''key'' = Some k"
  show "served (i = owner w k) w (\<lambda>resp w'. w' = w \<and> (case fmlookup m k of
          None \<Rightarrow> \<not> rs_ok resp \<and> rs_error_code resp = ''KEY_NOT_FOUND'' \<and> length (rs_error_message resp) \<le> 2 ^ 21
        | Some v \<Rightarrow> rs_ok resp \<and> DecodeFields (rs_payload resp) = Inr (fmupd ''value'' v fmempty))) (store_at net st_ep a req w)"
    by (rule net_served [OF w fits linked_get [OF _ fits(2) k]])
qed (rule net_route net_split; assumption)+

end
