(* ===== verification/Cli.thy ===== *)
theory Cli
  imports Rpc_Cluster
begin

text \<open>
  tools/rstone_cli.cpp: the command line client of the gateway. The lemmas are about whole
  invocations of the program: what they print, and with which code they exit, in front of a gateway
  process over any backend that keeps the contract \<open>rpc_backend\<close>.
\<close>

section \<open>The program\<close>

record cli_result =
  cr_exit :: int
  cr_out :: string
  cr_err :: string

definition Usage :: "string \<Rightarrow> string" where
  "Usage program =
     ''Usage:'' @ NL #
     ''  '' @ program @ '' --endpoint host:port put <key> <value>'' @ NL #
     ''  '' @ program @ '' --endpoint host:port get <key> [linearizable|eventual]'' @ NL #
     ''  '' @ program @ '' --endpoint host:port store-get <key> [linearizable|eventual]'' @ NL #
     ''  '' @ program @ '' --endpoint host:port delete <key>'' @ NL #
     ''  '' @ program @ '' --endpoint host:port split <region_id> <split_key>'' @ NL #
     ''  '' @ program @ '' --endpoint host:port transfer-leader <region_id> <peer_id>'' @ NL #
     ''  '' @ program @ '' --endpoint host:port add-peer <region_id> <store_id>'' @ NL #
     ''  '' @ program @ '' --endpoint host:port remove-peer <region_id> <peer_id>'' @ NL #
     ''  '' @ program @ '' --endpoint host:port status'' @ [NL]"

text \<open>\<open>None\<close> is the exception of \<open>std::stoi\<close>.\<close>

definition cli_ParseEndpoint :: "string \<Rightarrow> Endpoint option" where
  "cli_ParseEndpoint v =
     (if CHR '':'' \<notin> set v then Some \<lparr>ep_host = v, ep_port = 18080\<rparr>
      else map_option (\<lambda>port. \<lparr>ep_host = takeWhile (\<lambda>c. c \<noteq> CHR '':'') v, ep_port = port\<rparr>)
             (stoi (tl (dropWhile (\<lambda>c. c \<noteq> CHR '':'') v))))"

definition cli_Call :: "'w tcp \<Rightarrow> Endpoint \<Rightarrow> string \<Rightarrow> FieldMap \<Rightarrow> 'w \<Rightarrow> RpcResponse \<times> 'w" where
  "cli_Call tcp endpoint rpc_method flds w =
     tcp endpoint (RpcRequest_default\<lparr>rq_request_id := ''cli-1'', rq_method := rpc_method, rq_source := ''cli'',
       rq_target := ''gateway'', rq_payload := EncodeFields flds\<rparr>) w"

definition two_fields :: "string \<Rightarrow> string \<Rightarrow> string list \<Rightarrow> FieldMap option" where
  "two_fields a b params = (case params of x # y # _ \<Rightarrow> Some (fmupd b y (fmupd a x fmempty)) | _ \<Rightarrow> None)"

text \<open>The method and the fields of a command with its parameters; \<open>None\<close> is the usage message.\<close>

definition cli_request :: "string \<Rightarrow> string list \<Rightarrow> (string \<times> FieldMap) option" where
  "cli_request command params =
     (if command = ''put'' then map_option (Pair ''kv.Put'') (two_fields ''key'' ''value'' params)
      else if command = ''get'' \<or> command = ''store-get'' then
        (case params of
           [] \<Rightarrow> None
         | key # rest \<Rightarrow>
             Some (if command = ''get'' then ''kv.Get'' else ''store.KvGet'',
                   fmupd ''consistency'' (case rest of [] \<Rightarrow> ''linearizable'' | c # _ \<Rightarrow> c) (fmupd ''key'' key fmempty)))
      else if command = ''delete'' then
        (case params of [] \<Rightarrow> None | key # _ \<Rightarrow> Some (''kv.Delete'', fmupd ''key'' key fmempty))
      else if command = ''split'' then map_option (Pair ''cluster.SplitRegion'') (two_fields ''region_id'' ''split_key'' params)
      else if command = ''transfer-leader'' then map_option (Pair ''cluster.TransferLeader'') (two_fields ''region_id'' ''target_peer_id'' params)
      else if command = ''add-peer'' then map_option (Pair ''cluster.AddPeer'') (two_fields ''region_id'' ''store_id'' params)
      else if command = ''remove-peer'' then map_option (Pair ''cluster.RemovePeer'') (two_fields ''region_id'' ''peer_id'' params)
      else if command = ''status'' then Some (''cluster.Status'', fmempty)
      else None)"

definition cli_output :: "string \<Rightarrow> RpcResponse \<Rightarrow> cli_result" where
  "cli_output command response =
     (if \<not> rs_ok response
      then \<lparr>cr_exit = 1, cr_out = [], cr_err = rs_error_code response @ '': '' @ rs_error_message response @ [NL]\<rparr>
      else if command \<in> {''get'', ''store-get'', ''status''} then
        (case DecodeFields (rs_payload response) of
           Inl status \<Rightarrow> \<lparr>cr_exit = 1, cr_out = [], cr_err = status_ToString status @ [NL]\<rparr>
         | Inr flds \<Rightarrow>
             \<lparr>cr_exit = 0,
              cr_out = (if command = ''status'' then concat (map (\<lambda>(key, v). key @ ''='' @ v @ [NL]) (entries flds))
                        else GetOr flds ''value'' [] @ [NL]),
              cr_err = []\<rparr>)
      else \<lparr>cr_exit = 0, cr_out = ''OK'' @ [NL], cr_err = []\<rparr>)"

text \<open>\<open>main\<close>; \<open>None\<close> is an uncaught exception, or a missing \<open>argv[0]\<close>.\<close>

definition cli_main :: "'w tcp \<Rightarrow> string list \<Rightarrow> 'w \<Rightarrow> (cli_result \<times> 'w) option" where
  "cli_main tcp argv w =
     (case argv of
        [] \<Rightarrow> None
      | program # args \<Rightarrow>
          let usage = \<lparr>cr_exit = 2, cr_out = [], cr_err = Usage program\<rparr>;
              (endpoint_arg, args) =
                (case args of
                   a # e # rest \<Rightarrow> if a = ''--endpoint'' then (e, rest) else (''127.0.0.1:18080'', args)
                 | _ \<Rightarrow> (''127.0.0.1:18080'', args))
          in case args of
               [] \<Rightarrow> Some (usage, w)
             | command # params \<Rightarrow>
                 (case cli_ParseEndpoint endpoint_arg of
                    None \<Rightarrow> None
                  | Some endpoint \<Rightarrow>
                      (case cli_request command params of
                         None \<Rightarrow> Some (usage, w)
                       | Some (rpc_method, flds) \<Rightarrow>
                           let (response, w') = cli_Call tcp endpoint rpc_method flds w
                           in Some (cli_output command response, w'))))"

section \<open>The gateway process\<close>

text \<open>The gateway at its endpoint; an exception in a handler ends the process, and the client reads nothing.\<close>

definition gateway_tcp :: "wires \<Rightarrow> 'w gateway_env \<Rightarrow> 'w GatewayService tcp" where
  "gateway_tcp net env ep req s =
     (if wr_at net ep \<noteq> Some GatewayProcess \<or> fst s = None then (unreachable req, s)
      else case TcpRpcClient_Call (wr_conn net ep req) (gateway_rpc_server env) req s of
             None \<Rightarrow> (ErrorResponse req (IoError ''socket read failed''), None, snd s)
           | Some x \<Rightarrow> x)"

definition default_gateway :: Endpoint where
  "default_gateway = \<lparr>ep_host = ''127.0.0.1'', ep_port = 18080\<rparr>"

text \<open>The gateway listens where the command line client looks for it by default.\<close>

definition gateway_up :: "wires \<Rightarrow> bool" where
  "gateway_up net \<longleftrightarrow> wr_at net default_gateway = Some GatewayProcess \<and> (\<forall>ep req. reliable (wr_conn net ep req))"

section \<open>Invocations\<close>

datatype cli_op = CliPut string string | CliGet string | CliDelete string | CliSplit u64 string

fun cli_argv :: "cli_op \<Rightarrow> string list" where
  "cli_argv (CliPut k v) = [''rstone_cli'', ''put'', k, v]"
| "cli_argv (CliGet k) = [''rstone_cli'', ''get'', k]"
| "cli_argv (CliDelete k) = [''rstone_cli'', ''delete'', k]"
| "cli_argv (CliSplit i sk) = [''rstone_cli'', ''split'', to_string i, sk]"

text \<open>What the invocations should print, if the system is a map.\<close>

fun cli_map :: "cli_op \<Rightarrow> kv_map \<Rightarrow> kv_map" where
  "cli_map (CliPut k v) m = fmupd k v m"
| "cli_map (CliGet k) m = m"
| "cli_map (CliDelete k) m = fmdrop k m"
| "cli_map (CliSplit i sk) m = m"

fun cli_expected :: "cli_op \<Rightarrow> kv_map \<Rightarrow> cli_result \<Rightarrow> bool" where
  "cli_expected (CliGet k) m r \<longleftrightarrow>
     (case fmlookup m k of
        None \<Rightarrow> cr_exit r = 1 \<and> cr_out r = [] \<and> prefix ''RPC_ERROR: KEY_NOT_FOUND: '' (cr_err r)
      | Some v \<Rightarrow> r = \<lparr>cr_exit = 0, cr_out = v @ [NL], cr_err = []\<rparr>)"
| "cli_expected (CliSplit i sk) m r \<longleftrightarrow> True"
| "cli_expected _ m r \<longleftrightarrow> r = \<lparr>cr_exit = 0, cr_out = ''OK'' @ [NL], cr_err = []\<rparr>"

fun cli_agrees :: "cli_op list \<Rightarrow> cli_result list \<Rightarrow> kv_map \<Rightarrow> bool" where
  "cli_agrees [] [] m \<longleftrightarrow> True"
| "cli_agrees (op # ops) (r # rs) m \<longleftrightarrow> cli_expected op m r \<and> cli_agrees ops rs (cli_map op m)"
| "cli_agrees _ _ m \<longleftrightarrow> False"

fun cli_op_ok :: "cli_op \<Rightarrow> bool" where
  "cli_op_ok (CliPut k v) \<longleftrightarrow> client_key k \<and> short k \<and> short v"
| "cli_op_ok (CliGet k) \<longleftrightarrow> \<not> reserved_key k \<and> short k"
| "cli_op_ok (CliDelete k) \<longleftrightarrow> client_key k \<and> short k"
| "cli_op_ok (CliSplit i sk) \<longleftrightarrow> short sk"

lemma default_endpoint [simp]: "cli_ParseEndpoint ''127.0.0.1:18080'' = Some default_gateway"
proof -
  have "scan_number ''18080'' = Some (False, 18080, [])" by (simp add: scan_number_def is_digit_def isspace_def)
  then have "stoi ''18080'' = Some 18080" by (simp add: stoi_def signed_value_def)
  then show ?thesis by (simp add: cli_ParseEndpoint_def default_gateway_def)
qed

lemma cli_main_calls:
  assumes "cli_request command params = Some (M, f)" and "command \<noteq> ''--endpoint''" and "gateway_up net" and "length M \<le> 50" and "carried (EncodeFields f)"
  shows "\<exists>req. request_fits req \<and> rq_method req = M \<and> rq_payload req = EncodeFields f \<and>
     (\<forall>resp s. RpcServer_Handle (gateway_rpc_server env) req (Some g, w) = Some (resp, s) \<longrightarrow>
        (\<exists>r. cli_main (gateway_tcp net env) (program # command # params) (Some g, w) = Some (r, s)) \<and>
        (response_fits resp \<longrightarrow> cli_main (gateway_tcp net env) (program # command # params) (Some g, w) = Some (cli_output command resp, s)))"
proof -
  let ?req = "RpcRequest_default\<lparr>rq_request_id := ''cli-1'', rq_method := M, rq_source := ''cli'',
       rq_target := ''gateway'', rq_payload := EncodeFields f\<rparr>"
  have fits: "request_fits ?req" using assms(4,5) by (simp add: request_fits_def RpcRequest_default_def)
  have run: "cli_main (gateway_tcp net env) (program # command # params) (Some g, w) =
     (let (resp, s) = gateway_tcp net env default_gateway ?req (Some g, w) in Some (cli_output command resp, s))"
    using assms(1,2) by (cases params) (simp_all add: cli_main_def cli_Call_def)
  have net: "wr_at net default_gateway = Some GatewayProcess" "reliable (wr_conn net default_gateway ?req)"
    using assms(3) by (simp_all add: gateway_up_def)
  have "\<exists>r. cli_main (gateway_tcp net env) (program # command # params) (Some g, w) = Some (r, s)"
    "response_fits resp \<longrightarrow> cli_main (gateway_tcp net env) (program # command # params) (Some g, w) = Some (cli_output command resp, s)"
    if h: "RpcServer_Handle (gateway_rpc_server env) ?req (Some g, w) = Some (resp, s)" for resp s
    using call_delivers [OF net(2) fits h] net(1) unfolding run by (auto simp: gateway_tcp_def)
  then show ?thesis using fits by (intro exI [of _ ?req]) simp
qed

context rpc_backend
begin

lemma cli_put:
  assumes "gateway_up net" and "rel (Suc j) m w" and "cache_ok g" and "client_key k" and "short k" and "short v"
  shows "\<exists>g' w'. cli_main (gateway_tcp net env) [''rstone_cli'', ''put'', k, v] (Some g, w) =
     Some (\<lparr>cr_exit = 0, cr_out = ''OK'' @ [NL], cr_err = []\<rparr>, Some g', w') \<and> cache_ok g' \<and> rel j (fmupd k v m) w'"
proof -
  let ?f = "fmupd ''value'' v (fmupd ''key'' k fmempty)"
  have f: "cli_request ''put'' [k, v] = Some (''kv.Put'', ?f)" by (simp add: cli_request_def two_fields_def)
  have "carried (EncodeFields ?f)" using assms(5,6) by (simp add: length_EncodeFields_upd short_def carried_def)
  then obtain req where req: "request_fits req" "rq_method req = ''kv.Put''" "rq_payload req = EncodeFields ?f"
    and run: "\<And>resp s. RpcServer_Handle (gateway_rpc_server env) req (Some g, w) = Some (resp, s) \<Longrightarrow> response_fits resp \<Longrightarrow>
      cli_main (gateway_tcp net env) [''rstone_cli'', ''put'', k, v] (Some g, w) = Some (cli_output ''put'' resp, s)"
    using cli_main_calls [OF f _ assms(1), of env g w "''rstone_cli''"] by auto
  obtain g' w' where g': "rg_Put env k v g w = Some (Status_Ok, g', w')" "cache_ok g'" "rel j (fmupd k v m) w'"
    using put_serves [OF assms(2-6)] by blast
  have "RpcServer_Handle (gateway_rpc_server env) req (Some g, w) = Some (answer req Status_Ok [], Some g', w')"
    using req g'(1) by (simp add: gateway_dispatch gateway_HandlePut_def on_gateway_def finish_def GetOr_def)
  from run [OF this ok_answer_fits [OF req(1)]] show ?thesis using g'(2,3) by (simp add: answer_def cli_output_def)
qed

lemma cli_delete:
  assumes "gateway_up net" and "rel (Suc j) m w" and "cache_ok g" and "client_key k" and "short k"
  shows "\<exists>g' w'. cli_main (gateway_tcp net env) [''rstone_cli'', ''delete'', k] (Some g, w) =
     Some (\<lparr>cr_exit = 0, cr_out = ''OK'' @ [NL], cr_err = []\<rparr>, Some g', w') \<and> cache_ok g' \<and> rel j (fmdrop k m) w'"
proof -
  let ?f = "fmupd ''key'' k fmempty"
  have f: "cli_request ''delete'' [k] = Some (''kv.Delete'', ?f)" by (simp add: cli_request_def)
  have "carried (EncodeFields ?f)" using assms(5) by (simp add: length_EncodeFields_upd short_def carried_def)
  then obtain req where req: "request_fits req" "rq_method req = ''kv.Delete''" "rq_payload req = EncodeFields ?f"
    and run: "\<And>resp s. RpcServer_Handle (gateway_rpc_server env) req (Some g, w) = Some (resp, s) \<Longrightarrow> response_fits resp \<Longrightarrow>
      cli_main (gateway_tcp net env) [''rstone_cli'', ''delete'', k] (Some g, w) = Some (cli_output ''delete'' resp, s)"
    using cli_main_calls [OF f _ assms(1), of env g w "''rstone_cli''"] by auto
  obtain g' w' where g': "rg_Delete env k g w = Some (Status_Ok, g', w')" "cache_ok g'" "rel j (fmdrop k m) w'"
    using delete_serves [OF assms(2-5)] by blast
  have "RpcServer_Handle (gateway_rpc_server env) req (Some g, w) = Some (answer req Status_Ok [], Some g', w')"
    using req g'(1) by (simp add: gateway_dispatch gateway_HandleDelete_def on_gateway_def finish_def GetOr_def)
  from run [OF this ok_answer_fits [OF req(1)]] show ?thesis using g'(2,3) by (simp add: answer_def cli_output_def)
qed

lemma cli_get:
  assumes "gateway_up net" and "rel j m w" and "cache_ok g" and "\<not> reserved_key k" and "short k"
  shows "\<exists>r g'. cli_main (gateway_tcp net env) [''rstone_cli'', ''get'', k] (Some g, w) = Some (r, Some g', w) \<and> cache_ok g' \<and> cli_expected (CliGet k) m r"
proof -
  let ?f = "fmupd ''consistency'' ''linearizable'' (fmupd ''key'' k fmempty)"
  have f: "cli_request ''get'' [k] = Some (''kv.Get'', ?f)" by (simp add: cli_request_def)
  have "carried (EncodeFields ?f)" using assms(5) by (simp add: length_EncodeFields_upd short_def carried_def)
  then obtain req where req: "request_fits req" "rq_method req = ''kv.Get''" "rq_payload req = EncodeFields ?f"
    and run: "\<And>resp s. RpcServer_Handle (gateway_rpc_server env) req (Some g, w) = Some (resp, s) \<Longrightarrow> response_fits resp \<Longrightarrow>
      cli_main (gateway_tcp net env) [''rstone_cli'', ''get'', k] (Some g, w) = Some (cli_output ''get'' resp, s)"
    using cli_main_calls [OF f _ assms(1), of env g w "''rstone_cli''"] by auto
  obtain r g' where r: "rg_Get env k kLinearizable g w = Some (r, g', w)" "cache_ok g'" "case fmlookup m k of None \<Rightarrow> missing r | Some v \<Rightarrow> r = Inr v"
    using get_serves [OF assms(2-5)] by blast
  let ?resp = "case r of Inl status \<Rightarrow> StatusToRpcError req status | Inr v \<Rightarrow> MakeRpcOk req (EncodeFields (fmupd ''value'' v fmempty))"
  have h: "RpcServer_Handle (gateway_rpc_server env) req (Some g, w) = Some (?resp, Some g', w)"
    using req r(1) by (simp add: gateway_dispatch gateway_HandleGet_def on_gateway_def GetOr_def ParseConsistency_def)
  have fit: "response_fits ?resp"
  proof (cases "fmlookup m k")
    case None
    with r(3) show ?thesis by (auto simp: missing_def mk_status_def intro!: error_fits [OF req(1)])
  next
    case (Some v)
    have "short v" by (rule values_short [OF assms(2) Some])
    then show ?thesis using Some r(3)
      by (auto simp: carried_def short_def length_EncodeFields_upd intro!: ok_fits [OF req(1)])
  qed
  have "cli_expected (CliGet k) m (cli_output ''get'' ?resp)"
    using r(3) by (auto simp: cli_output_def missing_def mk_status_def decode_encode_fields GetOr_def split: option.splits)
  with run [OF h fit] r(2) show ?thesis by blast
qed

lemma cli_split:
  assumes "gateway_up net" and "rel (Suc j) m w" and "cache_ok g" and "short sk"
  shows "\<exists>r g' w'. cli_main (gateway_tcp net env) [''rstone_cli'', ''split'', to_string (i :: u64), sk] (Some g, w) = Some (r, Some g', w') \<and>
     cache_ok g' \<and> rel j m w'"
proof -
  let ?f = "fmupd ''split_key'' sk (fmupd ''region_id'' (to_string i) fmempty)"
  have f: "cli_request ''split'' [to_string i, sk] = Some (''cluster.SplitRegion'', ?f)" by (simp add: cli_request_def two_fields_def)
  have "carried (EncodeFields ?f)" using assms(4) length_to_string [of i] by (simp add: length_EncodeFields_upd short_def carried_def)
  then obtain req where req: "rq_method req = ''cluster.SplitRegion''" "rq_payload req = EncodeFields ?f"
    and run: "\<And>resp s. RpcServer_Handle (gateway_rpc_server env) req (Some g, w) = Some (resp, s) \<Longrightarrow>
      \<exists>r. cli_main (gateway_tcp net env) [''rstone_cli'', ''split'', to_string i, sk] (Some g, w) = Some (r, s)"
    using cli_main_calls [OF f _ assms(1), of env g w "''rstone_cli''"] by auto
  obtain status g' w' where g': "rg_SplitRegion env i sk g w = Some (status, g', w')" "cache_ok g'" "rel j m w'"
    using split_serves [OF assms(2-4)] by blast
  have "RpcServer_Handle (gateway_rpc_server env) req (Some g, w) = Some (answer req status [], Some g', w')"
    using req g'(1) by (simp add: gateway_dispatch gateway_HandleSplitRegion_def on_gateway_def finish_def stoull_to_string GetOr_def)
  from run [OF this] g'(2,3) show ?thesis by blast
qed

lemma cli_step:
  assumes "gateway_up net" and "rel (Suc j) m w" and "cache_ok g" and "cli_op_ok op"
  shows "\<exists>r g' w'. cli_main (gateway_tcp net env) (cli_argv op) (Some g, w) = Some (r, Some g', w') \<and> cli_expected op m r \<and> cache_ok g' \<and>
     rel j (cli_map op m) w'"
proof (cases op)
  case (CliGet k)
  have "rel j m w" using weaken [of 1 j m w] assms(2) by simp
  with CliGet show ?thesis using cli_get [OF assms(1-3), of k] assms(4) by auto
qed (use assms cli_put cli_delete cli_split in \<open>fastforce\<close>)+

end

end
