(* ===== verification/Config.thy ===== *)
theory Config
  imports Common_Types Cpp_Text
begin

text \<open>
  common/config.cpp: configuration files, lines of keys and values under sections that are marked
  by indentation, and the roles of a server process. The file is its content, \<open>None\<close> when it
  cannot be opened. The value \<open>None\<close> of a function is a write outside of the vector of
  sections. The lemmas show that the files the repository ships are read as they are meant, and
  which files are not.
\<close>

section \<open>Roles\<close>

datatype Role = kPd | kGateway | kStore | kUnknown

definition ParseRole :: "string \<Rightarrow> Role" where
  "ParseRole v =
     (if v = ''pd'' then kPd else if v = ''gateway'' then kGateway else if v = ''store'' then kStore else kUnknown)"

fun RoleName :: "Role \<Rightarrow> string" where
  "RoleName kPd = ''pd''"
| "RoleName kGateway = ''gateway''"
| "RoleName kStore = ''store''"
| "RoleName kUnknown = ''unknown''"

section \<open>Reading a file\<close>

type_synonym Config = "(string, string) std_map"

definition Trim :: "string \<Rightarrow> string" where
  "Trim v = rev (dropWhile isspace (rev (dropWhile isspace v)))"

definition StripQuotes :: "string \<Rightarrow> string" where
  "StripQuotes v =
     (if 2 \<le> length v \<and> (hd v = CHR 0x22 \<and> last v = CHR 0x22 \<or> hd v = CHR 0x27 \<and> last v = CHR 0x27)
      then butlast (tl v) else v)"

text \<open>The key of an entry: the sections that have a name, and the name, with dots between them.\<close>

definition config_key :: "string list \<Rightarrow> string \<Rightarrow> string" where
  "config_key sections name =
     (let key = fold (\<lambda>section key. if section = [] then key else if key \<noteq> [] then key @ ''.'' @ section else section) sections []
      in (if key \<noteq> [] then key @ ''.'' else key) @ name)"

text \<open>
  One turn of the loop. A section deeper than the next level is written outside of the vector.
\<close>

definition config_line :: "string \<Rightarrow> string list \<times> Config \<Rightarrow> (Status + string list \<times> Config) option" where
  "config_line line0 = (\<lambda>(sections, values).
     let line = takeWhile (\<lambda>c. c \<noteq> CHR ''#'') line0
     in if Trim line = [] then Some (Inr (sections, values))
        else
          let trimmed = Trim line;
              depth = length (takeWhile (\<lambda>c. c = SP) line) div 2
          in if last trimmed = CHR '':'' \<and> CHR '':'' \<notin> set (butlast trimmed) then
               let sections = take depth sections
               in if length sections = depth then Some (Inr (sections @ [butlast trimmed], values)) else None
             else if CHR '':'' \<notin> set trimmed then Some (Inl (InvalidArgument (''invalid config line: '' @ trimmed)))
             else
               let sections = take depth sections;
                   key = config_key sections (Trim (takeWhile (\<lambda>c. c \<noteq> CHR '':'') trimmed));
                   v = StripQuotes (Trim (tl (dropWhile (\<lambda>c. c \<noteq> CHR '':'') trimmed)))
               in Some (Inr (sections, fmupd key v values)))"

fun config_lines :: "string list \<Rightarrow> string list \<times> Config \<Rightarrow> (Status \<times> Config) option" where
  "config_lines [] (sections, values) = Some (Status_Ok, values)"
| "config_lines (line # rest) (sections, values) =
     (case config_line line (sections, values) of
        None \<Rightarrow> None
      | Some (Inl status) \<Rightarrow> Some (status, values)
      | Some (Inr s) \<Rightarrow> config_lines rest s)"

definition LoadFromFile :: "string \<Rightarrow> string option \<Rightarrow> Config \<Rightarrow> (Status \<times> Config) option" where
  "LoadFromFile path content values =
     (case content of
        None \<Rightarrow> Some (IoError (''failed to open config file: '' @ path), values)
      | Some text \<Rightarrow> config_lines (getlines NL text) ([], fmempty))"

section \<open>Values\<close>

definition GetString :: "Config \<Rightarrow> string \<Rightarrow> string option" where
  "GetString values key = fmlookup values key"

definition GetStringOr :: "Config \<Rightarrow> string \<Rightarrow> string \<Rightarrow> string" where
  "GetStringOr values key fallback = (case GetString values key of None \<Rightarrow> fallback | Some v \<Rightarrow> v)"

definition config_GetIntOr :: "Config \<Rightarrow> string \<Rightarrow> i32 \<Rightarrow> i32" where
  "config_GetIntOr values key fallback =
     (case GetString values key of
        None \<Rightarrow> fallback
      | Some v \<Rightarrow> (case stoi v of None \<Rightarrow> fallback | Some i \<Rightarrow> i))"

definition GetList :: "Config \<Rightarrow> string \<Rightarrow> string list" where
  "GetList values key =
     (case GetString values key of
        None \<Rightarrow> []
      | Some v \<Rightarrow> map Trim (getlines (CHR '','') v))"

definition GetRole :: "Config \<Rightarrow> Role" where
  "GetRole values = ParseRole (GetStringOr values ''role'' [])"

section \<open>Files in the format of the repository\<close>

text \<open>Names and values without the characters that the reader treats in a special way.\<close>

definition plain_name :: "string \<Rightarrow> bool" where
  "plain_name s \<longleftrightarrow> s \<noteq> [] \<and> (\<forall>c \<in> set s. \<not> isspace c \<and> c \<noteq> CHR ''#'' \<and> c \<noteq> CHR '':'')"

definition plain_value :: "string \<Rightarrow> bool" where
  "plain_value s \<longleftrightarrow> s \<noteq> [] \<and> (\<forall>c \<in> set s. \<not> isspace c \<and> c \<noteq> CHR ''#'') \<and> hd s \<notin> {CHR 0x22, CHR 0x27}"

definition entry_text :: "nat \<Rightarrow> string \<times> string \<Rightarrow> string" where
  "entry_text depth = (\<lambda>(k, v). replicate (2 * depth) SP @ k @ '': '' @ v)"

definition section_lines :: "string \<times> (string \<times> string) list \<Rightarrow> string list" where
  "section_lines = (\<lambda>(s, es). (s @ '':'') # map (entry_text 1) es)"

definition config_text :: "(string \<times> string) list \<Rightarrow> (string \<times> (string \<times> string) list) list \<Rightarrow> string" where
  "config_text tops secs = concat (map (\<lambda>l. l @ [NL]) (map (entry_text 0) tops @ concat (map section_lines secs)))"

definition config_entries :: "(string \<times> string) list \<Rightarrow> (string \<times> (string \<times> string) list) list \<Rightarrow> (string \<times> string) list" where
  "config_entries tops secs = tops @ concat (map (\<lambda>(s, es). map (\<lambda>(k, v). (s @ ''.'' @ k, v)) es) secs)"

definition plain_entry :: "string \<times> string \<Rightarrow> bool" where
  "plain_entry = (\<lambda>(k, v). plain_name k \<and> plain_value v)"

lemma Trim_self:
  assumes "s \<noteq> []" and "\<not> isspace (hd s)" and "\<not> isspace (last s)"
  shows "Trim s = s"
proof -
  have "dropWhile isspace s = s" "dropWhile isspace (rev s) = rev s" using assms by (simp_all add: dropWhile_eq_self_iff hd_rev)
  then show ?thesis by (simp add: Trim_def)
qed

lemma Trim_spaces: "Trim (replicate n SP @ s) = Trim s"
  by (induction n) (simp_all add: Trim_def)

lemma plain_name_ends:
  assumes "plain_name s"
  shows "s \<noteq> []" "\<not> isspace (hd s)" "\<not> isspace (last s)" "CHR '':'' \<notin> set s" "CHR ''#'' \<notin> set s" "NL \<notin> set s" "hd s \<noteq> SP" "Trim s = s"
proof -
  show *: "s \<noteq> []" "\<not> isspace (hd s)" "\<not> isspace (last s)" "CHR '':'' \<notin> set s" "CHR ''#'' \<notin> set s"
    using assms hd_in_set last_in_set unfolding plain_name_def by blast+
  show "NL \<notin> set s" using assms isspace_simps(2) unfolding plain_name_def by blast
  show "hd s \<noteq> SP" using *(2) isspace_simps(1) by metis
  show "Trim s = s" using * by (intro Trim_self)
qed

lemma plain_value_ends:
  assumes "plain_value s"
  shows "s \<noteq> []" "\<not> isspace (hd s)" "\<not> isspace (last s)" "CHR ''#'' \<notin> set s" "NL \<notin> set s" "Trim s = s" "StripQuotes s = s"
proof -
  show *: "s \<noteq> []" "\<not> isspace (hd s)" "\<not> isspace (last s)" "CHR ''#'' \<notin> set s" "NL \<notin> set s"
    using assms hd_in_set last_in_set isspace_simps(2) unfolding plain_value_def by blast+
  show "Trim s = s" using * by (intro Trim_self)
  show "StripQuotes s = s" using assms by (simp add: plain_value_def StripQuotes_def)
qed

lemma no_char_takeWhile: "c \<notin> set s \<Longrightarrow> takeWhile (\<lambda>x. x \<noteq> c) s = s"
  by (auto simp: takeWhile_eq_all_conv)

lemma indentation: "s \<noteq> [] \<Longrightarrow> hd s \<noteq> SP \<Longrightarrow> takeWhile (\<lambda>c. c = SP) (replicate n SP @ s) = replicate n SP"
  by (induction n) (auto simp: takeWhile_eq_Nil_iff)

lemma section_line:
  assumes "plain_name s"
  shows "config_line (s @ '':'') (secs, m) = Some (Inr ([s], m))"
proof -
  note p = plain_name_ends [OF assms]
  have line: "takeWhile (\<lambda>c. c \<noteq> CHR ''#'') (s @ '':'') = s @ '':''" using p by (intro no_char_takeWhile) auto
  have trim: "Trim (s @ '':'') = s @ '':''" using p by (intro Trim_self) (auto simp: isspace_def)
  have depth: "takeWhile (\<lambda>c. c = SP) (s @ '':'') = []" using p by (simp add: takeWhile_eq_Nil_iff)
  show ?thesis unfolding config_line_def using p by (simp add: line trim depth)
qed

lemma entry_line:
  assumes "plain_name k" and "plain_value v"
  shows "config_line (entry_text d (k, v)) (secs, m) = Some (Inr (take d secs, fmupd (config_key (take d secs) k) v m))"
proof -
  note p = plain_name_ends [OF assms(1)] and q = plain_value_ends [OF assms(2)]
  let ?s = "k @ '': '' @ v"
  have line: "takeWhile (\<lambda>c. c \<noteq> CHR ''#'') (entry_text d (k, v)) = replicate (2 * d) SP @ ?s"
    unfolding entry_text_def using p q by (subst no_char_takeWhile) auto
  have "Trim ?s = ?s" using p q by (intro Trim_self) auto
  then have trim: "Trim (replicate (2 * d) SP @ ?s) = ?s" by (simp only: Trim_spaces)
  have depth: "takeWhile (\<lambda>c. c = SP) (replicate (2 * d) SP @ ?s) = replicate (2 * d) SP"
    using p by (intro indentation) auto
  have ne: "?s \<noteq> []" by simp
  have "CHR '':'' \<in> set (butlast ?s)" using q(1) by (simp add: butlast_append)
  moreover have "CHR '':'' \<in> set ?s" by simp
  moreover have "takeWhile (\<lambda>c. c \<noteq> CHR '':'') ?s = k" "dropWhile (\<lambda>c. c \<noteq> CHR '':'') ?s = '': '' @ v"
    using split_at_first [OF p(4), of "SP # v"] by simp_all
  moreover have "Trim (tl ('': '' @ v)) = v" using Trim_spaces [of 1 v] q(6) by simp
  ultimately show ?thesis
    unfolding config_line_def prod.case Let_def line trim depth length_replicate using ne p(8) q(7) by simp
qed

lemma config_key_simps: "config_key [] k = k" "s \<noteq> [] \<Longrightarrow> config_key [s] k = s @ ''.'' @ k"
  by (simp_all add: config_key_def)

lemma entries_lines:
  assumes "\<forall>e \<in> set es. plain_entry e" and "take d secs = pre"
  shows "\<exists>secs'. config_lines (map (entry_text d) es @ rest) (secs, m) =
      config_lines rest (secs', fold (\<lambda>(k, v). fmupd (config_key pre k) v) es m) \<and> take d secs' = pre"
  using assms
proof (induction es arbitrary: secs m)
  case (Cons e es)
  obtain k v where e: "e = (k, v)" by fastforce
  then have "config_line (entry_text d e) (secs, m) = Some (Inr (pre, fmupd (config_key pre k) v m))"
    using entry_line [of k v d secs m] Cons.prems by (simp add: plain_entry_def)
  moreover have "take d pre = pre" using Cons.prems(2) by auto
  ultimately show ?case using Cons.IH [of pre "fmupd (config_key pre k) v m"] Cons.prems(1) e by simp
qed auto

lemma section_reads:
  assumes "plain_name s" and "\<forall>e \<in> set es. plain_entry e"
  shows "\<exists>secs'. config_lines (section_lines (s, es) @ rest) (secs, m) =
      config_lines rest (secs', fold (\<lambda>(k, v). fmupd (s @ ''.'' @ k) v) es m)"
proof -
  have "take 1 [s] = [s]" by simp
  from entries_lines [OF assms(2) this, of rest m] plain_name_ends(1) [OF assms(1)]
  show ?thesis by (auto simp: section_lines_def section_line [OF assms(1)] config_key_simps)
qed

lemma sections_read:
  assumes "\<forall>(s, es) \<in> set ss. plain_name s \<and> (\<forall>e \<in> set es. plain_entry e)"
  shows "config_lines (concat (map section_lines ss)) (secs, m) =
      Some (Status_Ok, fold (\<lambda>(k, v). fmupd k v) (config_entries [] ss) m)"
  using assms
proof (induction ss arbitrary: secs m)
  case (Cons x ss)
  obtain s es where x: "x = (s, es)" by fastforce
  have "fold (\<lambda>(k, v). fmupd (s @ ''.'' @ k) v) es m = fold (\<lambda>(k, v). fmupd k v) (map (\<lambda>(k, v). (s @ ''.'' @ k, v)) es) m" for m
    by (induction es arbitrary: m) auto
  then show ?case
    using section_reads [of s es "concat (map section_lines ss)" secs m] Cons.IH Cons.prems x by (fastforce simp: config_entries_def)
qed (simp add: config_entries_def)

lemma config_text_lines:
  assumes "\<forall>e \<in> set tops. plain_entry e" and "\<forall>(s, es) \<in> set ss. plain_name s \<and> (\<forall>e \<in> set es. plain_entry e)"
  shows "getlines NL (config_text tops ss) = map (entry_text 0) tops @ concat (map section_lines ss)"
proof -
  have entry: "NL \<notin> set (entry_text d e)" if "plain_entry e" for d e
    using that plain_name_ends(6) plain_value_ends(5) by (auto simp: plain_entry_def entry_text_def split: prod.splits)
  have sec: "NL \<notin> set (s @ '':'')" if "plain_name s" for s using plain_name_ends(6) [OF that] by simp
  have "getlines NL (concat (map (\<lambda>l. l @ [NL]) ls)) = ls" if "\<forall>l \<in> set ls. NL \<notin> set l" for ls
    using that by (induction ls) (simp_all add: getlines_line)
  moreover have "\<forall>l \<in> set (map (entry_text 0) tops @ concat (map section_lines ss)). NL \<notin> set l"
    using assms entry sec by (fastforce simp: section_lines_def)
  ultimately show ?thesis unfolding config_text_def by blast
qed

section \<open>Properties\<close>

text \<open>
  C28. Configuration files are read back. A file of top-level entries followed by sections with
  indented entries, the format of all files in config/, whose names and values have no blanks,
  comments or quotes, is loaded without error; every key, with its section in front, has the
  value of its last entry, and there are no other keys. Integers come back as the numbers that
  were written.
\<close>

theorem config_file_roundtrip:
  assumes "\<forall>e \<in> set tops. plain_entry e" and "\<forall>(s, es) \<in> set ss. plain_name s \<and> (\<forall>e \<in> set es. plain_entry e)"
  shows "\<exists>m. LoadFromFile path (Some (config_text tops ss)) m0 = Some (Status_Ok, m) \<and>
     (\<forall>key. GetString m key = map_of (rev (config_entries tops ss)) key) \<and>
     (\<forall>key i d. GetString m key = Some (to_string_signed i) \<longrightarrow> config_GetIntOr m key d = i)"
proof -
  obtain secs where 1: "config_lines (map (entry_text 0) tops @ concat (map section_lines ss)) ([], fmempty) =
      config_lines (concat (map section_lines ss)) (secs, fold (\<lambda>(k, v). fmupd k v) tops fmempty)"
    using entries_lines [OF assms(1), of 0 "[]" "[]" "concat (map section_lines ss)" fmempty] by (auto simp: config_key_simps)
  let ?m = "fold (\<lambda>(k, v). fmupd k v) (config_entries tops ss) fmempty"
  have "config_entries tops ss = tops @ config_entries [] ss" by (simp add: config_entries_def)
  then have "LoadFromFile path (Some (config_text tops ss)) m0 = Some (Status_Ok, ?m)"
    using 1 sections_read [OF assms(2)] by (simp add: LoadFromFile_def config_text_lines [OF assms])
  moreover have "GetString ?m key = map_of (rev (config_entries tops ss)) key" for key
    using fmlookup_fold_fmupd [of "config_entries tops ss" fmempty key] by (auto simp: GetString_def split: option.splits)
  moreover have "config_GetIntOr ?m key d = i" if "GetString ?m key = Some (to_string_signed i)" for key i d
    using that by (simp add: config_GetIntOr_def stoi_to_string_signed)
  ultimately show ?thesis by blast
qed

theorem config_file_roundtrip_witness:
  "\<exists>m. LoadFromFile ''config/store2.yaml'' (Some (config_text [(''role'', ''store'')]
       [(''store'', [(''host'', ''127.0.0.1''), (''data_dir'', ''./data/store2'')]), (''pd'', [(''endpoints'', ''127.0.0.1:7000'')])])) fmempty =
       Some (Status_Ok, m) \<and> GetRole m = kStore \<and> GetString m ''pd.endpoints'' = Some ''127.0.0.1:7000''"
proof -
  let ?tops = "[(''role'', ''store'')]"
  let ?ss = "[(''store'', [(''host'', ''127.0.0.1''), (''data_dir'', ''./data/store2'')]), (''pd'', [(''endpoints'', ''127.0.0.1:7000'')])]"
  have "\<forall>e \<in> set ?tops. plain_entry e" "\<forall>(s, es) \<in> set ?ss. plain_name s \<and> (\<forall>e \<in> set es. plain_entry e)"
    by (simp_all add: plain_entry_def plain_name_def plain_value_def isspace_def)
  from config_file_roundtrip [OF this, of "''config/store2.yaml''" fmempty] obtain m where
    m: "LoadFromFile ''config/store2.yaml'' (Some (config_text ?tops ?ss)) fmempty = Some (Status_Ok, m)"
    "\<And>key. GetString m key = map_of (rev (config_entries ?tops ?ss)) key" by blast
  have "GetString m ''role'' = Some ''store''" "GetString m ''pd.endpoints'' = Some ''127.0.0.1:7000''"
    by (simp_all add: m(2) config_entries_def)
  with m(1) show ?thesis by (simp add: GetRole_def GetStringOr_def ParseRole_def)
qed

text \<open>
  A section that is indented by more than one level is written outside of the vector of
  sections, for instance when it is the first line of the file.
\<close>

theorem deep_section_overruns:
  assumes "plain_name s"
  shows "LoadFromFile path (Some (replicate (2 * Suc d) SP @ s @ '':'' @ NL # rest)) m0 = None"
proof -
  note p = plain_name_ends [OF assms]
  let ?l = "replicate (2 * Suc d) SP @ s @ '':''"
  have nl: "NL \<notin> set ?l" using p by auto
  have line: "takeWhile (\<lambda>c. c \<noteq> CHR ''#'') ?l = ?l" using p by (intro no_char_takeWhile) auto
  have "Trim (s @ '':'') = s @ '':''" using p by (intro Trim_self) (auto simp: isspace_def)
  then have trim: "Trim ?l = s @ '':''" by (simp only: Trim_spaces)
  have depth: "takeWhile (\<lambda>c. c = SP) ?l = replicate (2 * Suc d) SP" using p by (intro indentation) auto
  have "config_line ?l ([], fmempty) = None"
    unfolding config_line_def prod.case Let_def line trim depth length_replicate using p by simp
  moreover have "getlines NL (?l @ NL # rest) = ?l # getlines NL rest" by (rule getlines_line [OF nl])
  ultimately have "LoadFromFile path (Some (?l @ NL # rest)) m0 = None" by (simp only: LoadFromFile_def option.case config_lines.simps)
  then show ?thesis by simp
qed

end
