(* ===== verification/Status_Json.thy ===== *)
theory Status_Json
  imports Serialization
begin

text \<open>
  dashboard/status_json.cpp: the status page of the dashboard as a JSON text, built from the fields
  of the status answer of the gateway. The functions that append to an output stream are
  functions that give the appended text. The theorems compare the text with a reader of JSON.
\<close>

section \<open>Writing\<close>

abbreviation DQ :: char where "DQ \<equiv> CHR 0x22"
abbreviation BS :: char where "BS \<equiv> CHR 0x5C"
abbreviation CR :: char where "CR \<equiv> CHR 0x0D"
abbreviation TAB :: char where "TAB \<equiv> CHR 0x09"

definition GetSizeOr :: "FieldMap \<Rightarrow> string \<Rightarrow> nat \<Rightarrow> nat" where
  "GetSizeOr flds key fallback =
     (case fmlookup flds key of
        None \<Rightarrow> fallback
      | Some v \<Rightarrow> (case stoull v of None \<Rightarrow> fallback | Some n \<Rightarrow> unat n))"

definition escape_char :: "char \<Rightarrow> string" where
  "escape_char ch =
     (if ch = BS then [BS, BS]
      else if ch = DQ then [BS, DQ]
      else if ch = NL then BS # ''n''
      else if ch = CR then BS # ''r''
      else if ch = TAB then BS # ''t''
      else [ch])"

definition JsonEscape :: "string \<Rightarrow> string" where
  "JsonEscape v = concat (map escape_char v)"

definition AppendJsonString :: "string \<Rightarrow> string" where
  "AppendJsonString v = DQ # JsonEscape v @ [DQ]"

definition AppendJsonField :: "string \<Rightarrow> string \<Rightarrow> bool \<Rightarrow> string" where
  "AppendJsonField name v comma = AppendJsonString name @ '':'' @ AppendJsonString v @ (if comma then '','' else [])"

text \<open>A name that the code writes as a literal, and the loops that put commas between their items.\<close>

definition literal_name :: "string \<Rightarrow> string" where
  "literal_name name = DQ # name @ [DQ] @ '':''"

fun with_commas :: "string list \<Rightarrow> string" where
  "with_commas [] = []"
| "with_commas [x] = x"
| "with_commas (x # xs) = x @ '','' @ with_commas xs"

definition AppendWarningArray :: "string list \<Rightarrow> string" where
  "AppendWarningArray warnings = literal_name ''warnings'' @ ''['' @ with_commas (map AppendJsonString warnings) @ '']''"

definition BuildWarnings :: "FieldMap \<Rightarrow> string list" where
  "BuildWarnings flds =
     (let store_count = GetSizeOr flds ''pd.store_count'' 0;
          region_count = GetSizeOr flds ''pd.region_count'' 0
      in (if store_count = 0 then [''PD has no registered Store'']
          else if store_count < 3 then [''Store count is below the recommended replication factor''] else []) @
         (if region_count = 0 then [''PD has no Region metadata''] else []) @
         concat (map (\<lambda>i.
           let p = ''pd.region'' @ show_nat i @ ''.''
           in if GetOr flds (p @ ''leader_peer_id'') ''0'' = ''0''
              then [''Region '' @ GetOr flds (p @ ''region_id'') ''?'' @ '' has no leader''] else []) [0 ..< region_count]) @
         concat (map (\<lambda>i.
           let p = ''store.region'' @ show_nat i @ ''.'';
               commit = GetOr flds (p @ ''runtime_commit_index'') [];
               applied = GetOr flds (p @ ''runtime_last_applied'') []
           in if commit \<noteq> [] \<and> applied \<noteq> [] \<and> commit \<noteq> applied
              then [''Region '' @ GetOr flds (p @ ''region_id'') ''?'' @ '' has unapplied committed logs''] else [])
           [0 ..< GetSizeOr flds ''store.region_count'' 0]))"

definition store_item :: "FieldMap \<Rightarrow> nat \<Rightarrow> string" where
  "store_item flds i =
     (let p = ''pd.store'' @ show_nat i @ ''.''
      in ''{'' @
         AppendJsonField ''store_id'' (GetOr flds (p @ ''store_id'') ''0'') True @
         AppendJsonField ''client_endpoint''
           (GetOr flds (p @ ''client_host'') ''127.0.0.1'' @ '':'' @ GetOr flds (p @ ''client_port'') ''0'') True @
         AppendJsonField ''raft_endpoint''
           (GetOr flds (p @ ''raft_host'') ''127.0.0.1'' @ '':'' @ GetOr flds (p @ ''raft_port'') ''0'') True @
         AppendJsonField ''state'' (GetOr flds (p @ ''state'') ''Unknown'') True @
         AppendJsonField ''last_heartbeat_ms'' (GetOr flds (p @ ''last_heartbeat_ms'') ''0'') False @ ''}'')"

definition AppendStores :: "FieldMap \<Rightarrow> string" where
  "AppendStores flds =
     literal_name ''stores'' @ ''['' @ with_commas (map (store_item flds) [0 ..< GetSizeOr flds ''pd.store_count'' 0]) @ '']''"

definition peer_item :: "FieldMap \<Rightarrow> string \<Rightarrow> nat \<Rightarrow> string" where
  "peer_item flds p i =
     (let q = p @ ''peer'' @ show_nat i @ ''.''
      in ''{'' @
         AppendJsonField ''peer_id'' (GetOr flds (q @ ''peer_id'') ''0'') True @
         AppendJsonField ''store_id'' (GetOr flds (q @ ''store_id'') ''0'') True @
         AppendJsonField ''role'' (GetOr flds (q @ ''role'') ''Voter'') False @ ''}'')"

definition region_item :: "FieldMap \<Rightarrow> nat \<Rightarrow> string" where
  "region_item flds i =
     (let p = ''pd.region'' @ show_nat i @ ''.''
      in ''{'' @
         AppendJsonField ''region_id'' (GetOr flds (p @ ''region_id'') ''0'') True @
         AppendJsonField ''start_key'' (GetOr flds (p @ ''start_key'') []) True @
         AppendJsonField ''end_key'' (GetOr flds (p @ ''end_key'') []) True @
         AppendJsonField ''conf_ver'' (GetOr flds (p @ ''conf_ver'') ''1'') True @
         AppendJsonField ''version'' (GetOr flds (p @ ''version'') ''1'') True @
         AppendJsonField ''leader_peer_id'' (GetOr flds (p @ ''leader_peer_id'') ''0'') True @
         literal_name ''peers'' @ ''['' @
         with_commas (map (peer_item flds p) [0 ..< GetSizeOr flds (p @ ''peer_count'') 0]) @ '']}'')"

definition AppendRegions :: "FieldMap \<Rightarrow> string" where
  "AppendRegions flds =
     literal_name ''regions'' @ ''['' @ with_commas (map (region_item flds) [0 ..< GetSizeOr flds ''pd.region_count'' 0]) @ '']''"

definition runtime_item :: "FieldMap \<Rightarrow> nat \<Rightarrow> string" where
  "runtime_item flds i =
     (let p = ''store.region'' @ show_nat i @ ''.''
      in ''{'' @
         AppendJsonField ''region_id'' (GetOr flds (p @ ''region_id'') ''0'') True @
         AppendJsonField ''local_store_id'' (GetOr flds (p @ ''local_store_id'') []) True @
         AppendJsonField ''local_peer_id'' (GetOr flds (p @ ''local_peer_id'') []) True @
         AppendJsonField ''runtime_role'' (GetOr flds (p @ ''runtime_role'') []) True @
         AppendJsonField ''runtime_leader_peer_id'' (GetOr flds (p @ ''runtime_leader_peer_id'') []) True @
         AppendJsonField ''runtime_peer_count'' (GetOr flds (p @ ''runtime_peer_count'') []) True @
         AppendJsonField ''runtime_commit_index'' (GetOr flds (p @ ''runtime_commit_index'') []) True @
         AppendJsonField ''runtime_last_applied'' (GetOr flds (p @ ''runtime_last_applied'') []) True @
         AppendJsonField ''runtime_last_log_index'' (GetOr flds (p @ ''runtime_last_log_index'') []) False @ ''}'')"

definition AppendRuntimeRegions :: "FieldMap \<Rightarrow> string" where
  "AppendRuntimeRegions flds =
     literal_name ''runtime_regions'' @ ''['' @
     with_commas (map (runtime_item flds) [0 ..< GetSizeOr flds ''store.region_count'' 0]) @ '']''"

definition AppendRaw :: "FieldMap \<Rightarrow> string" where
  "AppendRaw flds =
     literal_name ''raw'' @ ''{'' @
     with_commas (map (\<lambda>(key, v). AppendJsonString key @ '':'' @ AppendJsonString v) (entries flds)) @ ''}''"

definition json_bool :: "bool \<Rightarrow> string" where
  "json_bool b = (if b then ''true'' else ''false'')"

definition BuildDashboardStatusJson :: "FieldMap \<Rightarrow> bool \<Rightarrow> string \<Rightarrow> i64 \<Rightarrow> i64 \<Rightarrow> string" where
  "BuildDashboardStatusJson flds success error_message refresh_cost_ms timestamp_ms =
     (let warnings = (if success then BuildWarnings flds else [error_message]);
          store_count = GetOr flds ''pd.store_count'' ''0'';
          region_count = GetOr flds ''pd.region_count'' ''0'';
          route_cache_size = GetOr flds ''gateway.route_cache_size'' ''0''
      in ''{'' @
         literal_name ''ok'' @ json_bool success @ '','' @
         literal_name ''timestamp_ms'' @ to_string_signed timestamp_ms @ '','' @
         literal_name ''refresh_cost_ms'' @ to_string_signed refresh_cost_ms @ '','' @
         AppendJsonField ''error'' (if success then [] else error_message) True @
         literal_name ''summary'' @ ''{'' @
         literal_name ''healthy'' @ json_bool (success \<and> warnings = []) @ '','' @
         AppendJsonField ''store_count'' store_count True @
         AppendJsonField ''region_count'' region_count True @
         AppendJsonField ''route_cache_size'' route_cache_size True @
         AppendWarningArray warnings @ ''},'' @
         literal_name ''gateway'' @ ''{'' @
         AppendJsonField ''route_cache_size'' route_cache_size False @ ''},'' @
         literal_name ''pd'' @ ''{'' @
         AppendJsonField ''store_count'' store_count True @
         AppendJsonField ''region_count'' region_count True @
         AppendStores flds @ '','' @ AppendRegions flds @ ''},'' @
         literal_name ''store'' @ ''{'' @
         AppendJsonField ''region_count'' (GetOr flds ''store.region_count'' ''0'') True @
         AppendRuntimeRegions flds @ ''},'' @
         AppendRaw flds @ ''}'')"

section \<open>Reading\<close>

text \<open>
  JSON values with whole numbers, their text without spaces, and a reader after RFC 8259 for such
  texts. As the standard asks, a string with an unescaped control character is refused. Escapes
  by code point are left out, since the writer has none. The fuel of the reader is the length of
  the text.
\<close>

datatype json = JString string | JNum int | JBool bool | JArr "json list" | JObj "(string \<times> json) list"

fun unescape :: "char \<Rightarrow> char option" where
  "unescape c =
     (if c = BS \<or> c = DQ \<or> c = CHR ''/'' then Some c
      else if c = CHR ''n'' then Some NL
      else if c = CHR ''r'' then Some CR
      else if c = CHR ''t'' then Some TAB
      else if c = CHR ''b'' then Some (CHR 0x08)
      else if c = CHR ''f'' then Some (CHR 0x0C)
      else None)"

definition control_char :: "char \<Rightarrow> bool" where
  "control_char c \<longleftrightarrow> of_char c < (32 :: nat)"

text \<open>
  The text after the opening quote. The reader works on bytes: every byte from 128 on is taken as
  it is, and whether these bytes form valid UTF-8 is not checked.
\<close>

fun parse_string :: "string \<Rightarrow> (string \<times> string) option" where
  "parse_string [] = None"
| "parse_string (c # cs) =
     (if c = DQ then Some ([], cs)
      else if c = BS then
        (case cs of
           [] \<Rightarrow> None
         | d # ds \<Rightarrow> (case unescape d of None \<Rightarrow> None | Some x \<Rightarrow> map_option (map_prod (Cons x) id) (parse_string ds)))
      else if control_char c then None
      else map_option (map_prod (Cons c) id) (parse_string cs))"

definition parse_digits :: "string \<Rightarrow> (nat \<times> string) option" where
  "parse_digits s =
     (let ds = takeWhile is_digit s
      in if ds = [] \<or> (hd ds = CHR ''0'' \<and> tl ds \<noteq> []) then None else Some (scan_digits 0 s))"

definition parse_number :: "string \<Rightarrow> (json \<times> string) option" where
  "parse_number s =
     (case s of
        [] \<Rightarrow> None
      | c # cs \<Rightarrow>
          if c = CHR ''-'' then map_option (map_prod (\<lambda>n. JNum (- int n)) id) (parse_digits cs)
          else map_option (map_prod (\<lambda>n. JNum (int n)) id) (parse_digits s))"

fun parse_value :: "nat \<Rightarrow> string \<Rightarrow> (json \<times> string) option"
  and parse_items :: "nat \<Rightarrow> string \<Rightarrow> (json list \<times> string) option"
  and parse_members :: "nat \<Rightarrow> string \<Rightarrow> ((string \<times> json) list \<times> string) option" where
  "parse_value 0 s = None"
| "parse_value (Suc n) s =
     (case s of
        [] \<Rightarrow> None
      | c # cs \<Rightarrow>
          if c = DQ then map_option (map_prod JString id) (parse_string cs)
          else if c = CHR ''['' then
            (if cs \<noteq> [] \<and> hd cs = CHR '']'' then Some (JArr [], tl cs) else map_option (map_prod JArr id) (parse_items n cs))
          else if c = CHR ''{'' then
            (if cs \<noteq> [] \<and> hd cs = CHR ''}'' then Some (JObj [], tl cs) else map_option (map_prod JObj id) (parse_members n cs))
          else if take 4 s = ''true'' then Some (JBool True, drop 4 s)
          else if take 5 s = ''false'' then Some (JBool False, drop 5 s)
          else parse_number s)"
| "parse_items 0 s = None"
| "parse_items (Suc n) s =
     (case parse_value n s of
        None \<Rightarrow> None
      | Some (v, r) \<Rightarrow>
          (case r of
             [] \<Rightarrow> None
           | c # cs \<Rightarrow>
               if c = CHR '','' then map_option (map_prod (Cons v) id) (parse_items n cs)
               else if c = CHR '']'' then Some ([v], cs) else None))"
| "parse_members 0 s = None"
| "parse_members (Suc n) s =
     (if s = [] \<or> hd s \<noteq> DQ then None
      else case parse_string (tl s) of
             None \<Rightarrow> None
           | Some (k, r) \<Rightarrow>
               if r = [] \<or> hd r \<noteq> CHR '':'' then None
               else case parse_value n (tl r) of
                      None \<Rightarrow> None
                    | Some (v, r) \<Rightarrow>
                        (case r of
                           [] \<Rightarrow> None
                         | c # cs \<Rightarrow>
                             if c = CHR '','' then map_option (map_prod (Cons (k, v)) id) (parse_members n cs)
                             else if c = CHR ''}'' then Some ([(k, v)], cs) else None))"

definition parse_json :: "string \<Rightarrow> json option" where
  "parse_json s = (case parse_value (length s) s of Some (j, []) \<Rightarrow> Some j | _ \<Rightarrow> None)"

text \<open>The text of a value, as the writer has it.\<close>

primrec json_text :: "json \<Rightarrow> string" where
  "json_text (JString s) = AppendJsonString s"
| "json_text (JNum i) = show_int i"
| "json_text (JBool b) = json_bool b"
| "json_text (JArr xs) = ''['' @ with_commas (map json_text xs) @ '']''"
| "json_text (JObj ms) =
     ''{'' @ with_commas (map (\<lambda>(k, t). AppendJsonString k @ '':'' @ t) (map (map_prod id json_text) ms)) @ ''}''"

text \<open>Texts whose control characters all have an escape.\<close>

definition json_safe :: "string \<Rightarrow> bool" where
  "json_safe s \<longleftrightarrow> (\<forall>c \<in> set s. control_char c \<longrightarrow> c \<in> {NL, CR, TAB})"

primrec json_ok :: "json \<Rightarrow> bool" where
  "json_ok (JString s) = json_safe s"
| "json_ok (JNum i) = True"
| "json_ok (JBool b) = True"
| "json_ok (JArr xs) = list_all id (map json_ok xs)"
| "json_ok (JObj ms) = list_all (\<lambda>(k, b). json_safe k \<and> b) (map (map_prod id json_ok) ms)"

primrec weight :: "json \<Rightarrow> nat" where
  "weight (JString s) = 1"
| "weight (JNum i) = 1"
| "weight (JBool b) = 1"
| "weight (JArr xs) = 1 + sum_list (map Suc (map weight xs))"
| "weight (JObj ms) = 1 + sum_list (map (\<lambda>(k, w). Suc w) (map (map_prod id weight) ms))"

section \<open>Strings\<close>

lemma JsonEscape_simps [simp]: "JsonEscape [] = []" "JsonEscape (c # cs) = escape_char c @ JsonEscape cs"
  by (simp_all add: JsonEscape_def)

lemma parse_escaped: "parse_string (JsonEscape s @ DQ # rest) = (if json_safe s then Some (s, rest) else None)"
proof (induction s)
  case Nil
  then show ?case by (simp add: json_safe_def)
next
  case (Cons c s)
  have safe: "json_safe (c # s) \<longleftrightarrow> (control_char c \<longrightarrow> c \<in> {NL, CR, TAB}) \<and> json_safe s" by (auto simp: json_safe_def)
  consider "c \<in> {BS, DQ, NL, CR, TAB}" | "c \<notin> {BS, DQ, NL, CR, TAB}" by blast
  then show ?case
  proof cases
    case 1
    then show ?thesis unfolding safe using Cons by (auto simp: escape_char_def control_char_def)
  next
    case 2
    then show ?thesis unfolding safe using Cons by (auto simp: escape_char_def)
  qed
qed

section \<open>Values\<close>

text \<open>What may follow a value.\<close>

definition ends :: "string \<Rightarrow> bool" where
  "ends rest \<longleftrightarrow> rest = [] \<or> hd rest \<in> {CHR '','', CHR '']'', CHR ''}''}"

lemma ends_simps [simp]: "ends []" "ends (c # cs) \<longleftrightarrow> c \<in> {CHR '','', CHR '']'', CHR ''}''}"
  by (simp_all add: ends_def)

lemma ends_no_digit: "ends rest \<Longrightarrow> rest = [] \<or> \<not> is_digit (hd rest)"
  by (auto simp: ends_def is_digit_def)

lemma digit_char_zero: "d < 10 \<Longrightarrow> digit_char d = CHR ''0'' \<longleftrightarrow> d = 0"
proof -
  assume "d < 10"
  moreover have "of_char (CHR ''0'') = (48 :: nat)" by simp
  ultimately show ?thesis using of_char_digit_char [of d] by (metis add_cancel_left_right of_char_eq_iff)
qed

lemma show_nat_leading: "hd (show_nat n) = CHR ''0'' \<Longrightarrow> n = 0"
proof (induction n rule: show_nat.induct)
  case (1 n)
  show ?case
  proof (cases "n < 10")
    case True
    then show ?thesis using 1(2) digit_char_zero [OF True] by (simp add: show_nat.simps [of n])
  next
    case False
    then have "hd (show_nat (n div 10)) = CHR ''0''" using 1(2) by (simp add: show_nat.simps [of n])
    then show ?thesis using 1(1) [OF False] False by simp
  qed
qed

lemma parse_digits_show:
  assumes "rest = [] \<or> \<not> is_digit (hd rest)"
  shows "parse_digits (show_nat n @ rest) = Some (n, rest)"
proof -
  have "takeWhile is_digit (show_nat n @ rest) = show_nat n"
    using assms show_nat_digits [of _ n] by (cases rest) (auto simp: takeWhile_append)
  moreover have "\<not> (hd (show_nat n) = CHR ''0'' \<and> tl (show_nat n) \<noteq> [])"
  proof
    assume "hd (show_nat n) = CHR ''0'' \<and> tl (show_nat n) \<noteq> []"
    then have "n = 0" "tl (show_nat n) \<noteq> []" using show_nat_leading by auto
    then show False by (simp add: show_nat.simps)
  qed
  ultimately show ?thesis by (auto simp: parse_digits_def Let_def scan_show_nat [OF assms])
qed

lemma show_int_first: "\<exists>c cs. show_int i = c # cs \<and> (is_digit c \<or> c = CHR ''-'')"
  using show_nat_Cons [of "nat i"] by (auto simp: show_int_def) (metis)

lemma parse_number_show:
  assumes "ends rest"
  shows "parse_number (show_int i @ rest) = Some (JNum i, rest)"
proof (cases "i < 0")
  case True
  then show ?thesis using parse_digits_show [OF ends_no_digit [OF assms]] by (simp add: parse_number_def show_int_def)
next
  case False
  obtain c cs where c: "show_nat (nat i) = c # cs" "is_digit c" by (rule show_nat_Cons)
  then have "c \<noteq> CHR ''-''" by auto
  then show ?thesis
    using False c parse_digits_show [OF ends_no_digit [OF assms], of "nat i"] by (simp add: parse_number_def show_int_def)
qed

lemma parse_number_value:
  assumes "ends rest"
  shows "parse_value (Suc n) (show_int i @ rest) = Some (JNum i, rest)"
proof -
  obtain c cs where c: "show_int i = c # cs" "is_digit c \<or> c = CHR ''-''" using show_int_first by blast
  then have "c \<noteq> DQ" "c \<noteq> CHR ''[''" "c \<noteq> CHR ''{''" "c \<noteq> CHR ''t''" "c \<noteq> CHR ''f''" by (auto simp: is_digit_def)
  then show ?thesis using parse_number_show [OF assms, of i] c(1) by simp
qed

lemma with_commas_Cons: "with_commas (x # xs) = x @ (if xs = [] then [] else CHR '','' # with_commas xs)"
  by (cases xs) simp_all

lemma parse_items_text:
  assumes "xs \<noteq> []" and "\<And>x n rest. x \<in> set xs \<Longrightarrow> weight x \<le> n \<Longrightarrow> ends rest \<Longrightarrow> parse_value n (json_text x @ rest) = Some (x, rest)"
    and "sum_list (map (\<lambda>x. Suc (weight x)) xs) \<le> n"
  shows "parse_items n (with_commas (map json_text xs) @ CHR '']'' # rest) = Some (xs, rest)"
  using assms
proof (induction xs arbitrary: n)
  case (Cons x xs)
  obtain k where k: "n = Suc k" "weight x \<le> k" "sum_list (map (\<lambda>x. Suc (weight x)) xs) \<le> k"
    using Cons.prems(3) by (cases n) auto
  show ?case
  proof (cases xs)
    case Nil
    then show ?thesis using Cons.prems(2) [of x k] k by simp
  next
    case (Cons y ys)
    then have "parse_items k (with_commas (map json_text xs) @ CHR '']'' # rest) = Some (xs, rest)"
      using Cons.IH [of k] Cons.prems(2) k(3) by simp
    then show ?thesis using Cons.prems(2) [of x k] k(1,2) Cons by (simp add: with_commas_Cons del: with_commas.simps)
  qed
qed simp

lemma parse_members_text:
  assumes "ms \<noteq> []" and "\<And>k x n rest. (k, x) \<in> set ms \<Longrightarrow> weight x \<le> n \<Longrightarrow> ends rest \<Longrightarrow> parse_value n (json_text x @ rest) = Some (x, rest)"
    and "\<forall>(k, x) \<in> set ms. json_safe k" and "sum_list (map (\<lambda>m. Suc (weight (snd m))) ms) \<le> n"
  shows "parse_members n (with_commas (map (\<lambda>m. AppendJsonString (fst m) @ CHR '':'' # json_text (snd m)) ms) @ CHR ''}'' # rest) = Some (ms, rest)"
  using assms
proof (induction ms arbitrary: n)
  case (Cons m ms)
  obtain k x where m: "m = (k, x)" by (cases m)
  obtain i where i: "n = Suc i" "weight x \<le> i" "sum_list (map (\<lambda>m. Suc (weight (snd m))) ms) \<le> i"
    using Cons.prems(4) m by (cases n) auto
  have k: "parse_string (JsonEscape k @ DQ # r) = Some (k, r)" for r using Cons.prems(3) m by (simp add: parse_escaped)
  show ?case
  proof (cases "ms = []")
    case True
    then show ?thesis using Cons.prems(2) [of k x i] i m k by (simp add: AppendJsonString_def)
  next
    case False
    then have "parse_members i (with_commas (map (\<lambda>m. AppendJsonString (fst m) @ CHR '':'' # json_text (snd m)) ms) @ CHR ''}'' # rest) = Some (ms, rest)"
      by (intro Cons.IH) (use Cons.prems(2,3) i(3) in auto)
    then show ?thesis using Cons.prems(2) [of k x i] i(1,2) m k False
      by (simp add: with_commas_Cons AppendJsonString_def del: with_commas.simps)
  qed
qed simp

lemma text_of_object:
  "json_text (JObj ms) = CHR ''{'' # with_commas (map (\<lambda>m. AppendJsonString (fst m) @ CHR '':'' # json_text (snd m)) ms) @ ''}''"
  by (simp add: comp_def map_prod_def split_beta)

lemma first_of_text: "\<exists>c cs. json_text j = c # cs \<and> c \<noteq> CHR '']'' \<and> c \<noteq> CHR ''}''"
proof (cases j)
  case (JNum i)
  then show ?thesis using show_int_first [of i] by (auto simp: is_digit_def)
qed (auto simp: AppendJsonString_def json_bool_def)

lemma parse_text:
  "json_ok j \<Longrightarrow> weight j \<le> n \<Longrightarrow> ends rest \<Longrightarrow> parse_value n (json_text j @ rest) = Some (j, rest)"
proof (induction j arbitrary: n rest)
  case (JString s)
  then show ?case by (cases n) (simp_all add: AppendJsonString_def parse_escaped)
next
  case (JNum i)
  then show ?case using parse_number_value by (cases n) simp_all
next
  case (JBool b)
  then show ?case by (cases n) (simp_all add: json_bool_def)
next
  case (JArr xs)
  obtain k where k: "n = Suc k" "sum_list (map (\<lambda>x. Suc (weight x)) xs) \<le> k" using JArr.prems(2) by (cases n) (auto simp: comp_def)
  show ?case
  proof (cases xs)
    case Nil
    then show ?thesis using k(1) by simp
  next
    case (Cons x ys)
    obtain c cs where c: "json_text x = c # cs" "c \<noteq> CHR '']''" using first_of_text [of x] by blast
    have "parse_items k (with_commas (map json_text xs) @ CHR '']'' # rest) = Some (xs, rest)"
      by (rule parse_items_text) (use Cons JArr k(2) in \<open>auto simp: list_all_iff\<close>)
    then show ?thesis using k(1) Cons c by (simp add: with_commas_Cons del: with_commas.simps)
  qed
next
  case (JObj ms)
  obtain k where k: "n = Suc k" "sum_list (map (\<lambda>m. Suc (weight (snd m))) ms) \<le> k"
    using JObj.prems(2) by (cases n) (auto simp: comp_def map_prod_def split_beta)
  show ?case
  proof (cases "ms = []")
    case True
    then show ?thesis using k(1) by simp
  next
    case False
    let ?t = "with_commas (map (\<lambda>m. AppendJsonString (fst m) @ CHR '':'' # json_text (snd m)) ms)"
    have "parse_members k (?t @ CHR ''}'' # rest) = Some (ms, rest)"
    proof (rule parse_members_text [OF False _ _ k(2)])
      show "\<forall>(k, x) \<in> set ms. json_safe k" using JObj.prems(1) by (auto simp: list_all_iff)
      fix kk x n' rest' assume x: "(kk, x) \<in> set ms" "weight x \<le> n'" "ends rest'"
      then have "json_ok x" using JObj.prems(1) by (force simp: list_all_iff)
      with x show "parse_value n' (json_text x @ rest') = Some (x, rest')" using JObj.IH [of "(kk, x)" x] by auto
    qed
    moreover have "\<exists>cs. ?t = DQ # cs" using False by (cases ms) (auto simp: with_commas_Cons AppendJsonString_def simp del: with_commas.simps)
    ultimately show ?thesis unfolding text_of_object k(1) by auto
  qed
qed

lemma weight_items: "(\<And>x. x \<in> set xs \<Longrightarrow> weight x \<le> length (f x)) \<Longrightarrow> sum_list (map (\<lambda>x. Suc (weight x)) xs) \<le> Suc (length (with_commas (map f xs)))"
proof (induction xs)
  case (Cons x xs)
  have "weight x \<le> length (f x)" "sum_list (map (\<lambda>x. Suc (weight x)) xs) \<le> Suc (length (with_commas (map f xs)))"
    using Cons by auto
  then show ?case by (cases xs) (simp_all add: with_commas_Cons del: with_commas.simps)
qed simp

lemma weight_le: "weight j \<le> length (json_text j)"
proof (induction j)
  case (JNum i)
  then show ?case using show_int_first [of i] by auto
next
  case (JArr xs)
  then have "sum_list (map (\<lambda>x. Suc (weight x)) xs) \<le> Suc (length (with_commas (map json_text xs)))" by (intro weight_items) auto
  then show ?case by (simp add: comp_def)
next
  case (JObj ms)
  let ?f = "\<lambda>m. AppendJsonString (fst m) @ CHR '':'' # json_text (snd m)"
  have "sum_list (map (\<lambda>m. Suc (weight (snd m))) ms) \<le> Suc (length (with_commas (map ?f ms)))"
    using JObj
  proof (induction ms)
    case (Cons m ms)
    have "weight (snd m) \<le> length (?f m)" using Cons.prems [of m "snd m"] by (cases m) auto
    moreover have "sum_list (map (\<lambda>m. Suc (weight (snd m))) ms) \<le> Suc (length (with_commas (map ?f ms)))" using Cons by auto
    ultimately show ?case by (cases ms) (simp_all add: with_commas_Cons del: with_commas.simps)
  qed simp
  then show ?case unfolding text_of_object by (simp add: comp_def map_prod_def split_beta)
qed (simp_all add: AppendJsonString_def json_bool_def)

lemma parse_json_text: "json_ok j \<Longrightarrow> parse_json (json_text j) = Some j"
  using parse_text [of j "length (json_text j)" "[]"] weight_le [of j] by (simp add: parse_json_def)

section \<open>The status page\<close>

text \<open>The page as a JSON value.\<close>

definition string_members :: "(string \<times> string) list \<Rightarrow> (string \<times> json) list" where
  "string_members = map (\<lambda>(k, v). (k, JString v))"

definition store_json :: "FieldMap \<Rightarrow> nat \<Rightarrow> json" where
  "store_json flds i =
     (let p = ''pd.store'' @ show_nat i @ ''.''
      in JObj (string_members
        [(''store_id'', GetOr flds (p @ ''store_id'') ''0''),
         (''client_endpoint'', GetOr flds (p @ ''client_host'') ''127.0.0.1'' @ '':'' @ GetOr flds (p @ ''client_port'') ''0''),
         (''raft_endpoint'', GetOr flds (p @ ''raft_host'') ''127.0.0.1'' @ '':'' @ GetOr flds (p @ ''raft_port'') ''0''),
         (''state'', GetOr flds (p @ ''state'') ''Unknown''),
         (''last_heartbeat_ms'', GetOr flds (p @ ''last_heartbeat_ms'') ''0'')]))"

definition peer_json :: "FieldMap \<Rightarrow> string \<Rightarrow> nat \<Rightarrow> json" where
  "peer_json flds p i =
     (let q = p @ ''peer'' @ show_nat i @ ''.''
      in JObj (string_members
        [(''peer_id'', GetOr flds (q @ ''peer_id'') ''0''), (''store_id'', GetOr flds (q @ ''store_id'') ''0''),
         (''role'', GetOr flds (q @ ''role'') ''Voter'')]))"

definition region_json :: "FieldMap \<Rightarrow> nat \<Rightarrow> json" where
  "region_json flds i =
     (let p = ''pd.region'' @ show_nat i @ ''.''
      in JObj (string_members
        [(''region_id'', GetOr flds (p @ ''region_id'') ''0''), (''start_key'', GetOr flds (p @ ''start_key'') []),
         (''end_key'', GetOr flds (p @ ''end_key'') []), (''conf_ver'', GetOr flds (p @ ''conf_ver'') ''1''),
         (''version'', GetOr flds (p @ ''version'') ''1''), (''leader_peer_id'', GetOr flds (p @ ''leader_peer_id'') ''0'')] @
        [(''peers'', JArr (map (peer_json flds p) [0 ..< GetSizeOr flds (p @ ''peer_count'') 0]))]))"

definition runtime_json :: "FieldMap \<Rightarrow> nat \<Rightarrow> json" where
  "runtime_json flds i =
     (let p = ''store.region'' @ show_nat i @ ''.''
      in JObj (string_members ((''region_id'', GetOr flds (p @ ''region_id'') ''0'') #
        map (\<lambda>name. (name, GetOr flds (p @ name) []))
          [''local_store_id'', ''local_peer_id'', ''runtime_role'', ''runtime_leader_peer_id'', ''runtime_peer_count'',
           ''runtime_commit_index'', ''runtime_last_applied'', ''runtime_last_log_index''])))"

definition status_document :: "FieldMap \<Rightarrow> bool \<Rightarrow> string \<Rightarrow> i64 \<Rightarrow> i64 \<Rightarrow> json" where
  "status_document flds success error_message cost now =
     (let warnings = (if success then BuildWarnings flds else [error_message]);
          store_count = (''store_count'', JString (GetOr flds ''pd.store_count'' ''0''));
          region_count = (''region_count'', JString (GetOr flds ''pd.region_count'' ''0''));
          route_cache_size = (''route_cache_size'', JString (GetOr flds ''gateway.route_cache_size'' ''0''))
      in JObj
        [(''ok'', JBool success), (''timestamp_ms'', JNum (sint now)), (''refresh_cost_ms'', JNum (sint cost)),
         (''error'', JString (if success then [] else error_message)),
         (''summary'', JObj [(''healthy'', JBool (success \<and> warnings = [])), store_count, region_count, route_cache_size,
            (''warnings'', JArr (map JString warnings))]),
         (''gateway'', JObj [route_cache_size]),
         (''pd'', JObj [store_count, region_count,
            (''stores'', JArr (map (store_json flds) [0 ..< GetSizeOr flds ''pd.store_count'' 0])),
            (''regions'', JArr (map (region_json flds) [0 ..< GetSizeOr flds ''pd.region_count'' 0]))]),
         (''store'', JObj [(''region_count'', JString (GetOr flds ''store.region_count'' ''0'')),
            (''runtime_regions'', JArr (map (runtime_json flds) [0 ..< GetSizeOr flds ''store.region_count'' 0]))]),
         (''raw'', JObj (string_members (entries flds)))])"

lemma literal_name_eq: "\<forall>c \<in> set name. c \<notin> {BS, DQ, NL, CR, TAB} \<Longrightarrow> literal_name name = AppendJsonString name @ '':''"
proof -
  assume "\<forall>c \<in> set name. c \<notin> {BS, DQ, NL, CR, TAB}"
  then have "JsonEscape name = name" by (induction name) (auto simp: escape_char_def)
  then show ?thesis by (simp add: literal_name_def AppendJsonString_def)
qed

lemma text_of_items:
  "json_text (store_json flds i) = store_item flds i"
  "json_text (peer_json flds p i) = peer_item flds p i"
  "json_text (runtime_json flds i) = runtime_item flds i"
  by (simp_all add: store_json_def store_item_def peer_json_def peer_item_def runtime_json_def runtime_item_def Let_def string_members_def
      AppendJsonField_def)

lemma text_of_region: "json_text (region_json flds i) = region_item flds i"
  by (simp add: region_json_def region_item_def Let_def string_members_def AppendJsonField_def literal_name_eq comp_def text_of_items)

lemma text_of_status: "json_text (status_document flds success msg cost now) = BuildDashboardStatusJson flds success msg cost now"
  by (simp add: status_document_def BuildDashboardStatusJson_def Let_def AppendJsonField_def literal_name_eq AppendWarningArray_def
      AppendStores_def AppendRegions_def AppendRuntimeRegions_def AppendRaw_def text_of_items text_of_region string_members_def comp_def
      to_string_signed_def case_prod_unfold)

lemma json_safe_simps [simp]:
  "json_safe []" "json_safe (c # cs) \<longleftrightarrow> (control_char c \<longrightarrow> c \<in> {NL, CR, TAB}) \<and> json_safe cs" "json_safe (a @ b) \<longleftrightarrow> json_safe a \<and> json_safe b"
  by (auto simp: json_safe_def)

definition fields_safe :: "FieldMap \<Rightarrow> bool" where
  "fields_safe flds \<longleftrightarrow> (\<forall>(k, v) \<in> set (entries flds). json_safe k \<and> json_safe v)"

lemma safe_GetOr: "fields_safe flds \<Longrightarrow> json_safe d \<Longrightarrow> json_safe (GetOr flds k d)"
  using set_entries [of k] by (fastforce simp: fields_safe_def GetOr_def split: option.split)

lemma BuildWarnings_safe: "fields_safe flds \<Longrightarrow> w \<in> set (BuildWarnings flds) \<Longrightarrow> json_safe w"
  by (auto simp: BuildWarnings_def Let_def control_char_def intro!: safe_GetOr split: if_splits)

lemma items_ok:
  assumes "fields_safe flds"
  shows "json_ok (store_json flds i)" and "json_ok (peer_json flds p i)" and "json_ok (runtime_json flds i)" and "json_ok (region_json flds i)"
proof -
  show peer: "json_ok (peer_json flds p i)" for p i
    using safe_GetOr [OF assms] by (simp add: peer_json_def string_members_def Let_def control_char_def)
  show "json_ok (store_json flds i)" "json_ok (runtime_json flds i)"
    using safe_GetOr [OF assms] by (simp_all add: store_json_def runtime_json_def string_members_def Let_def control_char_def)
  show "json_ok (region_json flds i)"
    using safe_GetOr [OF assms] peer by (simp add: region_json_def string_members_def Let_def control_char_def list_all_iff)
qed

lemma status_ok:
  assumes "fields_safe flds" and "json_safe msg"
  shows "json_ok (status_document flds success msg cost now)"
proof -
  have "list_all json_ok (map JString (if success then BuildWarnings flds else [msg]))"
    using BuildWarnings_safe [OF assms(1)] assms(2) by (auto simp: list_all_iff)
  moreover have "json_ok (JObj (string_members (entries flds)))"
    using assms(1) by (auto simp: string_members_def fields_safe_def list_all_iff)
  ultimately show ?thesis
    using safe_GetOr [OF assms(1)] items_ok [OF assms(1)] assms(2)
    by (simp add: status_document_def Let_def control_char_def list_all_iff)
qed

text \<open>
  C22. The status page is the JSON document it should be. For any fields whose names and values have
  no control characters other than line ends and tabs, and any error message of that kind, the text
  is read back, by a strict reader of JSON, as the document with the summary, the stores, the
  regions with their peers, the running regions and the raw fields.
\<close>

theorem status_page_is_json:
  assumes "fields_safe flds" and "json_safe error_message"
  shows "parse_json (BuildDashboardStatusJson flds success error_message cost now) =
     Some (status_document flds success error_message cost now)"
  using parse_json_text [OF status_ok [OF assms]] by (simp add: text_of_status)

theorem status_page_is_json_witness:
  "parse_json (BuildDashboardStatusJson (fmupd ''pd.store_count'' ''1'' fmempty) False [DQ, NL, BS] 5 (- 1)) =
     Some (status_document (fmupd ''pd.store_count'' ''1'' fmempty) False [DQ, NL, BS] 5 (- 1))"
  by (rule status_page_is_json) (simp_all add: fields_safe_def control_char_def)

text \<open>
  C39. Strings and control characters. A string that the dashboard writes is read back as it was, by
  a strict reader of JSON, exactly when its control characters are line ends, carriage returns or
  tabs; every other control character (a byte below 32 in a region boundary, for instance) is
  written as it is, and makes the page unreadable.
\<close>

theorem json_string_readable:
  "parse_json (AppendJsonString s) = (if \<forall>c \<in> set s. of_char c < (32 :: nat) \<longrightarrow> c \<in> {NL, CR, TAB} then Some (JString s) else None)"
  using parse_escaped [of s "[]"] by (auto simp: parse_json_def AppendJsonString_def json_safe_def control_char_def)

theorem json_string_readable_witness:
  "parse_json (AppendJsonString ''a'') = Some (JString ''a'') \<and> parse_json (AppendJsonString [CHR 0x01]) = None"
  using json_string_readable [of "''a''"] json_string_readable [of "[CHR 0x01]"] by simp

end
