(* ===== verification/Dashboard_Server.thy ===== *)
theory Dashboard_Server
  imports Status_Json Rpc_Cluster
begin

text \<open>
  dashboard/dashboard_server.cpp: the HTTP server of the dashboard. Files are their contents, the
  readings of the clock are arguments, and sockets are as in \<open>Tcp_Rpc\<close>. The accept loop, which
  starts a thread for each connection, is left out.
\<close>

section \<open>Requests and answers\<close>

text \<open>As \<open>WriteAll\<close> of the RPC transport, with another message: the bytes sent are the result.\<close>

fun http_WriteAll :: "string \<Rightarrow> nat list \<Rightarrow> Status \<times> string" where
  "http_WriteAll [] tape = (Status_Ok, [])"
| "http_WriteAll payload [] = (Status_Ok, payload)"
| "http_WriteAll payload (n # ns) =
     (let written = min n (length payload)
      in if written = 0 then (IoError ''http socket write failed'', [])
         else map_prod id (append (take written payload)) (http_WriteAll (drop written payload) ns))"

definition ReadHttpRequest :: "string list \<Rightarrow> string" where
  "ReadHttpRequest chunks = fst (recv 4096 chunks)"

definition ExtractPath :: "string \<Rightarrow> string" where
  "ExtractPath request =
     (let (rpc_method, input) = extract_string (Some request); (path, _) = extract_string input
      in if rpc_method \<noteq> ''GET'' \<or> path = [] then [] else takeWhile (\<lambda>c. c \<noteq> CHR ''?'') path)"

definition http_line :: "string \<Rightarrow> string" where
  "http_line s = s @ [CR, NL]"

definition HttpResponse :: "nat \<Rightarrow> string \<Rightarrow> string \<Rightarrow> string \<Rightarrow> string" where
  "HttpResponse status_code status_text content_type body =
     http_line (''HTTP/1.1 '' @ show_nat status_code @ '' '' @ status_text) @
     http_line (''Content-Type: '' @ content_type) @
     http_line (''Content-Length: '' @ show_nat (length body)) @
     http_line ''Cache-Control: no-store'' @
     http_line ''Connection: close'' @
     http_line [] @ body"

definition ServeFile :: "(string \<Rightarrow> string option) \<Rightarrow> string \<Rightarrow> string \<Rightarrow> string" where
  "ServeFile files path content_type =
     (case files path of
        None \<Rightarrow> HttpResponse 404 ''Not Found'' ''text/plain; charset=utf-8'' (''missing dashboard asset: '' @ path @ [NL])
      | Some body \<Rightarrow> HttpResponse 200 ''OK'' content_type body)"

definition BuildStatusResponse ::
  "'w gateway_env \<Rightarrow> i64 \<Rightarrow> i64 \<Rightarrow> RpcGatewayClient \<Rightarrow> 'w \<Rightarrow> (string \<times> RpcGatewayClient \<times> 'w) option" where
  "BuildStatusResponse env start_ms end_ms g w =
     map_option (map_prod (\<lambda>(status, flds).
         HttpResponse (if ok status then 200 else 503) (if ok status then ''OK'' else ''Service Unavailable'')
           ''application/json; charset=utf-8''
           (BuildDashboardStatusJson flds (ok status) (st_message status) (end_ms - start_ms) end_ms)) id)
       (rg_GetStatus env g w)"

definition health_body :: "i64 \<Rightarrow> string" where
  "health_body now =
     ''{'' @ literal_name ''ok'' @ ''true,'' @ literal_name ''service'' @ DQ # ''rstone-dashboard'' @ [DQ] @ '','' @
     literal_name ''timestamp_ms'' @ to_string_signed now @ ''}''"

definition HandleRequest ::
  "'w gateway_env \<Rightarrow> (string \<Rightarrow> string option) \<Rightarrow> i64 \<Rightarrow> i64 \<Rightarrow> string \<Rightarrow> RpcGatewayClient \<Rightarrow> 'w \<Rightarrow>
   (string \<times> RpcGatewayClient \<times> 'w) option" where
  "HandleRequest env files start_ms end_ms request g w =
     (let path = ExtractPath request
      in if path = ''/'' \<or> path = ''/index.html'' then Some (ServeFile files ''web/index.html'' ''text/html; charset=utf-8'', g, w)
         else if path = ''/app.js'' then Some (ServeFile files ''web/app.js'' ''application/javascript; charset=utf-8'', g, w)
         else if path = ''/style.css'' then Some (ServeFile files ''web/style.css'' ''text/css; charset=utf-8'', g, w)
         else if path = ''/api/health'' then Some (HttpResponse 200 ''OK'' ''application/json; charset=utf-8'' (health_body start_ms), g, w)
         else if path = ''/api/status'' then BuildStatusResponse env start_ms end_ms g w
         else Some (HttpResponse 404 ''Not Found'' ''text/plain; charset=utf-8'' (''not found'' @ [NL]), g, w))"

definition http_HandleClient ::
  "'w gateway_env \<Rightarrow> (string \<Rightarrow> string option) \<Rightarrow> i64 \<Rightarrow> i64 \<Rightarrow> string list \<Rightarrow> nat list \<Rightarrow> RpcGatewayClient \<Rightarrow> 'w \<Rightarrow>
   (string \<times> RpcGatewayClient \<times> 'w) option" where
  "http_HandleClient env files start_ms end_ms chunks tape g w =
     map_option (map_prod (\<lambda>response. snd (http_WriteAll response tape)) id)
       (HandleRequest env files start_ms end_ms (ReadHttpRequest chunks) g w)"

section \<open>Starting and stopping\<close>

record DashboardServer =
  ds_has_gateway :: bool
  ds_running :: bool
  ds_listening :: bool
  ds_bound_port :: int

definition DashboardServer_new :: "bool \<Rightarrow> DashboardServer" where
  "DashboardServer_new has_gateway =
     \<lparr>ds_has_gateway = has_gateway, ds_running = False, ds_listening = False, ds_bound_port = 0\<rparr>"

definition DashboardServer_Start :: "listen_outcomes \<Rightarrow> string \<Rightarrow> i32 \<Rightarrow> DashboardServer \<Rightarrow> Status \<times> DashboardServer" where
  "DashboardServer_Start out host port t =
     (if \<not> ds_has_gateway t then (InvalidArgument ''dashboard gateway client must not be null'', t)
      else if \<not> lo_socket out then (IoError ''failed to create dashboard socket'', t\<lparr>ds_listening := False\<rparr>)
      else if \<not> lo_pton out then (InvalidArgument (''invalid dashboard host: '' @ host), t\<lparr>ds_listening := False\<rparr>)
      else if \<not> lo_bind out then (IoError ''failed to bind dashboard server'', t\<lparr>ds_listening := False\<rparr>)
      else
        let t1 = t\<lparr>ds_bound_port := (case lo_getsockname out of Some p \<Rightarrow> uint p | None \<Rightarrow> sint port)\<rparr>
        in if \<not> lo_listen out then (IoError ''failed to listen dashboard server'', t1\<lparr>ds_listening := False\<rparr>)
           else (Status_Ok, t1\<lparr>ds_listening := True, ds_running := True\<rparr>))"

definition DashboardServer_Stop :: "DashboardServer \<Rightarrow> DashboardServer" where
  "DashboardServer_Stop t = (if ds_running t then t\<lparr>ds_running := False, ds_listening := False\<rparr> else t)"

section \<open>A reader of answers\<close>

text \<open>The lines up to the empty line, the status code, and a body of the announced length.\<close>

fun http_head :: "nat \<Rightarrow> string \<Rightarrow> (string list \<times> string) option" where
  "http_head 0 s = None"
| "http_head (Suc n) s =
     (let line = takeWhile (\<lambda>c. c \<noteq> CR) s; rest = dropWhile (\<lambda>c. c \<noteq> CR) s
      in if take 2 rest \<noteq> [CR, NL] then None
         else if line = [] then Some ([], drop 2 rest)
         else map_option (map_prod (Cons line) id) (http_head n (drop 2 rest)))"

definition http_parse :: "string \<Rightarrow> (nat \<times> string) option" where
  "http_parse s =
     (case http_head (length s) s of
        None \<Rightarrow> None
      | Some (head, body) \<Rightarrow>
          (case (head, find (\<lambda>l. take 16 l = ''Content-Length: '') head) of
             (status_line # _, Some l) \<Rightarrow>
               if take 9 status_line = ''HTTP/1.1 '' \<and> drop 16 l = show_nat (length body)
               then Some (fst (scan_digits 0 (drop 9 status_line)), body) else None
           | _ \<Rightarrow> None))"

lemma http_head_line:
  "CR \<notin> set line \<Longrightarrow> http_head (Suc n) (http_line line @ s) =
     (if line = [] then Some ([], s) else map_option (map_prod (Cons line) id) (http_head n s))"
proof -
  assume "CR \<notin> set line"
  then have "takeWhile (\<lambda>c. c \<noteq> CR) (line @ CR # NL # s) = line" "dropWhile (\<lambda>c. c \<noteq> CR) (line @ CR # NL # s) = CR # NL # s"
    by (induction line) auto
  then show ?thesis by (simp add: http_line_def)
qed

lemma show_nat_no_CR: "CR \<notin> set (show_nat n)"
  using show_nat_digits [of CR n] by (auto simp: is_digit_def)

lemma http_parse_response:
  assumes "CR \<notin> set status_text" and "CR \<notin> set content_type"
  shows "http_parse (HttpResponse code status_text content_type body) = Some (code, body)"
proof -
  let ?l1 = "''HTTP/1.1 '' @ show_nat code @ '' '' @ status_text" and ?l2 = "''Content-Type: '' @ content_type"
    and ?l3 = "''Content-Length: '' @ show_nat (length body)"
  let ?s = "HttpResponse code status_text content_type body"
  have "6 \<le> length ?s" by (simp add: HttpResponse_def http_line_def)
  then obtain n where six: "length ?s = Suc (Suc (Suc (Suc (Suc (Suc n)))))" using that [of "length ?s - 6"] by linarith
  have "CR \<notin> set ?l1" "CR \<notin> set ?l2" "CR \<notin> set ?l3" using assms show_nat_no_CR by auto
  then have "http_head (length ?s) ?s = Some ([?l1, ?l2, ?l3, ''Cache-Control: no-store'', ''Connection: close''], body)"
    unfolding six by (simp only: HttpResponse_def append_assoc) (simp add: http_head_line del: http_head.simps)
  moreover have "scan_digits 0 (show_nat code @ CHR '' '' # status_text) = (code, CHR '' '' # status_text)"
    by (rule scan_show_nat) simp
  ultimately show ?thesis by (simp add: http_parse_def)
qed

section \<open>What the dashboard serves\<close>

text \<open>
  The dashboard serves three files and nothing else. Whatever the request line asks for (a path
  with \<open>..\<close>, an absolute path), the answer depends on no file but the page, its script and its
  style sheet, and only a request for the status changes the gateway or the cluster.
\<close>

theorem dashboard_serves_only_assets:
  assumes "\<forall>p \<in> {''web/index.html'', ''web/app.js'', ''web/style.css''}. files p = files' p"
  shows "HandleRequest env files start_ms end_ms request g w = HandleRequest env files' start_ms end_ms request g w \<and>
     (ExtractPath request \<noteq> ''/api/status'' \<longrightarrow> (\<exists>response. HandleRequest env files start_ms end_ms request g w = Some (response, g, w)))"
  using assms by (simp add: HandleRequest_def ServeFile_def Let_def)

definition two_files :: "string \<Rightarrow> string option" where
  "two_files p = (if p = ''web/app.js'' then Some ''x'' else if p = ''/etc/passwd'' then Some ''root'' else None)"

definition small_cluster :: rpc_cluster where
  "small_cluster = \<lparr>rc_pd = pd_demo,
     rc_store = StoreService_multi (Some (MultiRegionCluster_new \<lparr>fe_log = (\<lambda>_. []), fe_io = (\<lambda>_. [])\<rparr> (\<lambda>_. None) []))\<rparr>"

text \<open>The placement driver at port 1 and the store at port 2, over connections that deliver one byte at a time.\<close>

definition small_net :: wires where
  "small_net = \<lparr>wr_at = (\<lambda>ep. if ep_port ep = 1 then Some PdProcess else if ep_port ep = 2 then Some StoreProcess else None),
     wr_conn = (\<lambda>_ _. slow_connection)\<rparr>"

abbreviation at_port :: "i32 \<Rightarrow> Endpoint" where
  "at_port p \<equiv> \<lparr>ep_host = ''127.0.0.1'', ep_port = p\<rparr>"

abbreviation small_env :: "rpc_cluster gateway_env" where
  "small_env \<equiv> wired small_net (at_port 1) (at_port 2)"

theorem dashboard_serves_only_assets_witness:
  "HandleRequest small_env two_files 0 0 ''GET /../etc/passwd HTTP/1.1'' (RpcGatewayClient_new False) small_cluster =
     HandleRequest small_env (two_files(''/etc/passwd'' := None)) 0 0 ''GET /../etc/passwd HTTP/1.1'' (RpcGatewayClient_new False) small_cluster"
  using dashboard_serves_only_assets [of two_files "two_files(''/etc/passwd'' := None)" small_env 0 0 "''GET /../etc/passwd HTTP/1.1''"
      "RpcGatewayClient_new False" small_cluster]
  by simp

text \<open>The fields of a status answer: what the gateway knows, what the placement driver adds and what the store adds.\<close>

definition gateway_fields :: "RpcGatewayClient \<Rightarrow> FieldMap" where
  "gateway_fields g = fmupd ''gateway.route_cache_size'' (show_nat (RouteCache_Size (rg_route_cache g))) fmempty"

definition pd_fields :: "RpcGatewayClient \<Rightarrow> rpc_cluster \<Rightarrow> FieldMap" where
  "pd_fields g w = add_prefixed ''pd.'' (status_fields (rc_pd w)) (gateway_fields g)"

definition cluster_fields :: "RpcGatewayClient \<Rightarrow> rpc_cluster \<Rightarrow> FieldMap" where
  "cluster_fields g w = add_prefixed ''store.'' (service_status (rc_store w)) (pd_fields g w)"

lemma pd_status_call:
  assumes "wr_at net ep = Some PdProcess" and "\<And>req. reliable (wr_conn net ep req)"
    and "carried (EncodeFields (status_fields (rc_pd w)))"
  shows "dial net ep (gateway_request ''pd'' ''pd.Status'' ''pd'' fmempty g) w =
    Some (MakeRpcOk (gateway_request ''pd'' ''pd.Status'' ''pd'' fmempty g) (EncodeFields (status_fields (rc_pd w))), w)"
proof -
  let ?req = "gateway_request ''pd'' ''pd.Status'' ''pd'' fmempty g"
  have fits: "request_fits ?req" by (rule gateway_request_fits) simp_all
  have "RpcServer_Handle pd_rpc_server ?req (rc_pd w) = Some (MakeRpcOk ?req (EncodeFields (status_fields (rc_pd w))), rc_pd w)"
    by (simp add: pd_dispatch HandleStatus_def gateway_request_def)
  from call_delivers(2) [OF assms(2) fits this ok_fits [OF fits assms(3)]] assms(1) show ?thesis by (simp add: dial_def)
qed

lemma store_status_call:
  assumes "wr_at net ep = Some StoreProcess" and "\<And>req. reliable (wr_conn net ep req)"
    and "carried (EncodeFields (service_status (rc_store w)))"
  shows "dial net ep (gateway_request ''store'' ''store.Status'' ''store'' fmempty g) w =
    Some (MakeRpcOk (gateway_request ''store'' ''store.Status'' ''store'' fmempty g) (EncodeFields (service_status (rc_store w))), w)"
proof -
  let ?req = "gateway_request ''store'' ''store.Status'' ''store'' fmempty g"
  have fits: "request_fits ?req" by (rule gateway_request_fits) simp_all
  have "RpcServer_Handle (store_rpc_server no_peers) ?req (rc_store w, ()) = store_HandleStatus ?req (rc_store w, ())"
    unfolding store_rpc_server_def by (rule store_rpc.dispatch) (simp add: store_methods_def gateway_request_def)
  then have "RpcServer_Handle (store_rpc_server no_peers) ?req (rc_store w, ()) =
      Some (MakeRpcOk ?req (EncodeFields (service_status (rc_store w))), rc_store w, ())"
    by (simp add: store_HandleStatus_def)
  from call_delivers(2) [OF assms(2) fits this ok_fits [OF fits assms(3)]] assms(1) show ?thesis by (simp add: dial_def)
qed

lemma refused_call: "wr_at net ep = None \<Longrightarrow> dial net ep req w = Some (unreachable req, w)"
  by (simp add: dial_def)

definition refused_message :: string where
  "refused_message = ''RPC_ERROR: failed to connect tcp rpc server''"

lemma refused_status: "RpcToStatus (unreachable req) = mk_status kRpcError refused_message"
  by (simp add: RpcToStatus_def unreachable_def MakeRpcError_def RpcResponse_default_def refused_message_def)

lemma wired_status:
  assumes "\<And>ep req. reliable (wr_conn net ep req)"
  shows "wr_at net pd_ep = None \<Longrightarrow>
      rg_GetStatus (wired net pd_ep st_ep) g w = Some ((mk_status kRpcError refused_message, gateway_fields g), count_request g, w)"
    and "wr_at net pd_ep = Some PdProcess \<Longrightarrow> carried (EncodeFields (status_fields (rc_pd w))) \<Longrightarrow> wr_at net st_ep = None \<Longrightarrow>
      rg_GetStatus (wired net pd_ep st_ep) g w =
        Some ((mk_status kRpcError refused_message, pd_fields g w), count_request (count_request g), w)"
    and "wr_at net pd_ep = Some PdProcess \<Longrightarrow> carried (EncodeFields (status_fields (rc_pd w))) \<Longrightarrow>
      wr_at net st_ep = Some StoreProcess \<Longrightarrow> carried (EncodeFields (service_status (rc_store w))) \<Longrightarrow>
      rg_GetStatus (wired net pd_ep st_ep) g w = Some ((Status_Ok, cluster_fields g w), count_request (count_request g), w)"
  using pd_status_call [of net pd_ep w g] store_status_call [of net st_ep w "count_request g"] assms
  by (simp_all add: rg_GetStatus_def CallPd_def rg_CallStore_def wired_def refused_call refused_status gateway_fields_def pd_fields_def
      cluster_fields_def decode_encode_fields Let_def)

lemma status_answer:
  assumes "ExtractPath request = ''/api/status''" and "rg_GetStatus env g w = Some ((status, flds), g', w)"
    and "fields_safe flds" and "json_safe (st_message status)"
  shows "\<exists>response body. HandleRequest env files start_ms end_ms request g w = Some (response, g', w) \<and>
     http_parse response = Some (if ok status then 200 else 503, body) \<and>
     parse_json body = Some (status_document flds (ok status) (st_message status) (end_ms - start_ms) end_ms)"
proof -
  have "parse_json (BuildDashboardStatusJson flds (ok status) (st_message status) (end_ms - start_ms) end_ms) =
      Some (status_document flds (ok status) (st_message status) (end_ms - start_ms) end_ms)"
    using parse_json_text [OF status_ok [OF assms(3,4)]] by (simp add: text_of_status)
  then show ?thesis
    using assms(1,2) by (simp add: HandleRequest_def BuildStatusResponse_def http_parse_response)
qed

lemma refused_message_safe: "json_safe refused_message"
  by (simp add: refused_message_def control_char_def)

text \<open>
  C23. The status page of a cluster. The dashboard reaches the placement driver and the store over
  TCP. When both listen at its endpoints, connections do not fail and the two status answers have
  at most 16 MiB, a request for the status is answered with code 200 and a body of the announced
  length that is the status document of the fields both report; when the placement driver or the
  store does not listen, it is answered with code 503 and the document of the fields gathered so
  far, with the connection error as its warning. In each case neither process changes. The fields
  have no control characters other than line ends and tabs; with others the body is not JSON.
\<close>

theorem dashboard_reports_cluster:
  assumes "ExtractPath request = ''/api/status''" and "fields_safe (cluster_fields g w)"
    and "fields_safe (pd_fields g w)" and "fields_safe (gateway_fields g)"
    and "\<And>ep req. reliable (wr_conn net ep req)"
    and "carried (EncodeFields (status_fields (rc_pd w)))" and "carried (EncodeFields (service_status (rc_store w)))"
    and "wr_at net pd_ep \<in> {None, Some PdProcess}" and "wr_at net st_ep \<in> {None, Some StoreProcess}"
  shows "\<exists>response g' body. HandleRequest (wired net pd_ep st_ep) files start_ms end_ms request g w = Some (response, g', w) \<and>
     (if wr_at net pd_ep = None then
        http_parse response = Some (503, body) \<and>
        parse_json body = Some (status_document (gateway_fields g) False refused_message (end_ms - start_ms) end_ms)
      else if wr_at net st_ep = None then
        http_parse response = Some (503, body) \<and>
        parse_json body = Some (status_document (pd_fields g w) False refused_message (end_ms - start_ms) end_ms)
      else
        http_parse response = Some (200, body) \<and>
        parse_json body = Some (status_document (cluster_fields g w) True [] (end_ms - start_ms) end_ms))"
proof -
  have msg: "st_message (mk_status kRpcError refused_message) = refused_message" "st_message Status_Ok = []"
    by (simp_all add: mk_status_def Status_Ok_def)
  note answer = status_answer [OF assms(1), of "wired net pd_ep st_ep" g w]
  consider "wr_at net pd_ep = None" | "wr_at net pd_ep = Some PdProcess" "wr_at net st_ep = None"
    | "wr_at net pd_ep = Some PdProcess" "wr_at net st_ep = Some StoreProcess"
    using assms(8,9) by auto
  then show ?thesis
  proof cases
    case 1
    from answer [OF wired_status(1) [OF assms(5) 1] assms(4), of files start_ms end_ms] 1 show ?thesis
      by (auto simp: msg refused_message_safe)
  next
    case 2
    from answer [OF wired_status(2) [OF assms(5) 2(1) assms(6) 2(2)] assms(3), of files start_ms end_ms] 2 show ?thesis
      by (auto simp: msg refused_message_safe)
  next
    case 3
    from answer [OF wired_status(3) [OF assms(5) 3(1) assms(6) 3(2) assms(7)] assms(2), of files start_ms end_ms] 3 show ?thesis
      by (auto simp: msg)
  qed
qed

lemma fields_safe_upd: "json_safe k \<Longrightarrow> json_safe v \<Longrightarrow> fields_safe f \<Longrightarrow> fields_safe (fmupd k v f)"
  by (auto simp: fields_safe_def set_entries split: if_splits)

lemma fields_safe_prefixed:
  assumes "json_safe p" and "fields_safe f" and "fields_safe acc"
  shows "fields_safe (add_prefixed p f acc)"
proof -
  have "fields_safe (fold (\<lambda>(key, v) m. fmupd (p @ key) v m) kvs acc)" if "\<forall>(k, v) \<in> set kvs. json_safe k \<and> json_safe v" for kvs
    using that assms(3)
  proof (induction kvs arbitrary: acc)
    case (Cons kv kvs)
    then have "fields_safe (fmupd (p @ fst kv) (snd kv) acc)" by (intro fields_safe_upd) (auto simp: assms(1))
    with Cons show ?case by (simp add: case_prod_unfold)
  qed simp
  then show ?thesis using assms(2) by (simp add: add_prefixed_def fields_safe_def)
qed

lemma show_nat_safe: "json_safe (show_nat n)"
proof -
  have "\<not> control_char c" if "c \<in> set (show_nat n)" for c
    using show_nat_digits [OF that] by (auto simp: control_char_def is_digit_def)
  then show ?thesis by (auto simp: json_safe_def)
qed

lemma to_string_safe: "json_safe (to_string i)"
  by (simp add: to_string_def show_nat_safe)

lemma to_string_signed_safe: "json_safe (to_string_signed i)"
  by (simp add: to_string_signed_def show_int_def show_nat_safe control_char_def)

lemma Key_safe: "json_safe p \<Longrightarrow> json_safe name \<Longrightarrow> json_safe (Key p name)"
  by (simp add: Key_def control_char_def)

lemma PutStoreFields_safe:
  assumes "fields_safe f" and "json_safe p" and "json_safe (ep_host (si_raft_endpoint st))"
    and "json_safe (ep_host (si_client_endpoint st))" and "json_safe (si_state st)"
  shows "fields_safe (PutStoreFields f st p)"
  unfolding PutStoreFields_def Let_def
  by (intro fields_safe_upd Key_safe to_string_safe to_string_signed_safe assms) (simp_all add: control_char_def)

lemma put_peer_safe:
  assumes "fields_safe f" and "json_safe p"
  shows "fields_safe (put_peer p ip f)"
proof -
  have "json_safe (PeerRoleName (pr_role (snd ip)))" by (cases "pr_role (snd ip)") (simp_all add: control_char_def)
  then show ?thesis
    unfolding put_peer_def Let_def
    by (intro fields_safe_upd Key_safe to_string_safe assms) (simp_all add: control_char_def show_nat_safe)
qed

lemma PutRegionFields_safe:
  assumes "fields_safe f" and "json_safe p" and "json_safe (ri_start_key r)" and "json_safe (ri_end_key r)"
  shows "fields_safe (PutRegionFields f r p)"
proof -
  have peers: "fields_safe (fold (put_peer p) ips m)" if "fields_safe m" for ips m
    using that assms(2) by (induction ips arbitrary: m) (simp_all add: put_peer_safe)
  show ?thesis
    unfolding PutRegionFields_def Let_def
    by (intro peers fields_safe_upd Key_safe to_string_safe show_nat_safe assms) (simp_all add: control_char_def)
qed

lemma demo_lists:
  "pd_ListStores pd_demo = [StoreInfo_default\<lparr>si_store_id := 1\<rparr>]" "pd_ListRegions pd_demo = [demo_region]"
proof -
  have "entries (fmupd i x fmempty) = [(i, x)]" for i :: u64 and x :: 'a
    by (rule entries_eqI) simp_all
  then show "pd_ListStores pd_demo = [StoreInfo_default\<lparr>si_store_id := 1\<rparr>]" "pd_ListRegions pd_demo = [demo_region]"
    by (simp_all add: pd_ListStores_def md_ListStores_def pd_ListRegions_def md_ListRegions_def pd_demo_def)
qed

lemma small_pd_status:
  "status_fields pd_demo = PutRegionFields (PutStoreFields (fmupd ''region_count'' (show_nat 1) (fmupd ''store_count'' (show_nat 1) fmempty))
     (StoreInfo_default\<lparr>si_store_id := 1\<rparr>) (''store'' @ show_nat 0)) demo_region (''region'' @ show_nat 0)"
  by (simp add: status_fields_def demo_lists Let_def)

lemma small_store_status: "service_status (rc_store small_cluster) = fmupd ''region_count'' (show_nat 0) fmempty"
  by (simp add: small_cluster_def service_status_def StoreService_multi_def MultiRegionCluster_new_def)

lemma small_cluster_carried:
  "carried (EncodeFields (status_fields (rc_pd small_cluster)))" "carried (EncodeFields (service_status (rc_store small_cluster)))"
proof -
  have n: "length (show_nat 0) = 1" "length (show_nat 1) = 1" by (simp_all add: show_nat.simps)
  let ?base = "fmupd ''region_count'' (show_nat 1) (fmupd ''store_count'' (show_nat 1) fmempty)"
  have "length (EncodeFields ?base) \<le> 100" using n by (simp add: length_EncodeFields_upd)
  then have "length (EncodeFields (status_fields pd_demo)) \<le> 4 * 10 + 501000 + (6 * 10 + 1000 + 100)"
    unfolding small_pd_status using n
    by (intro region_fields_le store_fields_le) (simp_all add: StoreInfo_default_def Endpoint_default_def demo_region_def RegionInfo_default_def)
  then show "carried (EncodeFields (status_fields (rc_pd small_cluster)))" by (simp add: carried_def small_cluster_def)
  show "carried (EncodeFields (service_status (rc_store small_cluster)))"
    unfolding small_store_status using n by (simp add: carried_def length_EncodeFields_upd)
qed

lemma small_cluster_safe:
  shows "fields_safe (gateway_fields (RpcGatewayClient_new False))"
    and "fields_safe (pd_fields (RpcGatewayClient_new False) small_cluster)"
    and "fields_safe (cluster_fields (RpcGatewayClient_new False) small_cluster)"
proof -
  have none: "fields_safe fmempty" by (simp add: fields_safe_def)
  show g: "fields_safe (gateway_fields (RpcGatewayClient_new False))"
    using none unfolding gateway_fields_def by (intro fields_safe_upd show_nat_safe) (simp_all add: control_char_def)
  have base: "fields_safe (fmupd ''region_count'' (show_nat 1) (fmupd ''store_count'' (show_nat 1) fmempty))"
    using none by (intro fields_safe_upd show_nat_safe) (simp_all add: control_char_def)
  have pd: "fields_safe (status_fields pd_demo)"
    unfolding small_pd_status
    by (intro PutRegionFields_safe PutStoreFields_safe base)
       (simp_all add: StoreInfo_default_def Endpoint_default_def demo_region_def RegionInfo_default_def control_char_def show_nat_safe)
  show p: "fields_safe (pd_fields (RpcGatewayClient_new False) small_cluster)"
    unfolding pd_fields_def using pd g by (intro fields_safe_prefixed) (simp_all add: control_char_def small_cluster_def)
  have "fields_safe (service_status (rc_store small_cluster))"
    unfolding small_store_status using none by (intro fields_safe_upd show_nat_safe) (simp_all add: control_char_def)
  then show "fields_safe (cluster_fields (RpcGatewayClient_new False) small_cluster)"
    unfolding cluster_fields_def using p by (intro fields_safe_prefixed) (simp_all add: control_char_def)
qed

text \<open>The page of the small cluster, and of the same cluster with nothing at port 3 for a store.\<close>

theorem dashboard_reports_cluster_witness:
  "(\<exists>response g' body. HandleRequest small_env two_files 3 8 ''GET /api/status?t=1 HTTP/1.1'' (RpcGatewayClient_new False) small_cluster =
       Some (response, g', small_cluster) \<and> http_parse response = Some (200, body) \<and>
     parse_json body = Some (status_document (cluster_fields (RpcGatewayClient_new False) small_cluster) True [] 5 8)) \<and>
   (\<exists>response g' body. HandleRequest (wired small_net (at_port 1) (at_port 3)) two_files 3 8 ''GET /api/status?t=1 HTTP/1.1''
       (RpcGatewayClient_new False) small_cluster = Some (response, g', small_cluster) \<and> http_parse response = Some (503, body))"
proof -
  have path: "ExtractPath ''GET /api/status?t=1 HTTP/1.1'' = ''/api/status''" by (simp add: ExtractPath_def isspace_def)
  have r: "reliable (wr_conn small_net ep req)" for ep req by (simp add: small_net_def slow_reliable)
  note report = dashboard_reports_cluster [OF path small_cluster_safe(3,2,1) r small_cluster_carried, where pd_ep = "at_port 1"
      and start_ms = 3 and end_ms = 8 and files = two_files]
  have at: "wr_at small_net (at_port 1) = Some PdProcess" "wr_at small_net (at_port 2) = Some StoreProcess"
    "wr_at small_net (at_port 3) = None"
    by (simp_all add: small_net_def)
  from report [of "at_port 2"] report [of "at_port 3"] at show ?thesis by auto
qed

end
