(* ===== verification/Server.thy ===== *)
theory Server
  imports Cli Config Dashboard_Server
begin

text \<open>
  src/main.cpp: the server program, which starts a placement driver, a store or a gateway from a
  configuration file. A service that has started waits forever; its state when it starts to
  listen is the result \<open>Inr\<close>, an exit code is \<open>Inl\<close>. Log lines and pauses are left out. The TCP
  connection to the placement driver acts on a world \<open>'w\<close>. Registering the handlers of a store or a
  gateway on a new registry cannot fail (\<open>register_ok\<close> of the locale of RPC services), so the
  exit after such a failure is not written out.
\<close>

section \<open>Helpers\<close>

definition PrintUsage :: "string \<Rightarrow> string" where
  "PrintUsage program =
     ''Usage: '' @ program @ '' --role <pd|gateway|store> --config <path> [--demo] [--serve]'' @ [NL]"

definition MakeDemoStore :: "i32 \<Rightarrow> StoreInfo" where
  "MakeDemoStore client_port =
     StoreInfo_default\<lparr>si_client_endpoint := \<lparr>ep_host = ''127.0.0.1'', ep_port = client_port\<rparr>\<rparr>"

text \<open>\<open>None\<close> is the exception of \<open>std::stoi\<close>.\<close>

definition ParseEndpoint :: "string \<Rightarrow> i32 \<Rightarrow> Endpoint option" where
  "ParseEndpoint v fallback_port =
     (if CHR '':'' \<notin> set v
      then Some \<lparr>ep_host = (if v = [] then ''127.0.0.1'' else v), ep_port = fallback_port\<rparr>
      else map_option (\<lambda>port. \<lparr>ep_host = takeWhile (\<lambda>c. c \<noteq> CHR '':'') v, ep_port = port\<rparr>)
             (stoi (tl (dropWhile (\<lambda>c. c \<noteq> CHR '':'') v))))"

definition CallRpc :: "'w tcp \<Rightarrow> Endpoint \<Rightarrow> string \<Rightarrow> FieldMap \<Rightarrow> string \<Rightarrow> 'w \<Rightarrow> RpcResponse \<times> 'w" where
  "CallRpc tcp endpoint rpc_method flds request_id w =
     tcp endpoint (RpcRequest_default\<lparr>rq_request_id := request_id, rq_method := rpc_method, rq_source := ''rstone-server'',
       rq_target := ''remote'', rq_payload := EncodeFields flds\<rparr>) w"

text \<open>
  The stores and regions of a status answer: \<open>Some None\<close> is the result \<open>false\<close>. The functions that read
  a store or a region from fields always succeed.
\<close>

definition DecodePdStatus :: "RpcResponse \<Rightarrow> (StoreInfo list \<times> RegionInfo list) option option" where
  "DecodePdStatus response =
     (if \<not> rs_ok response then Some None
      else case DecodeFields (rs_payload response) of
             Inl _ \<Rightarrow> Some None
           | Inr flds \<Rightarrow>
               (case (field_u64 flds ''store_count'', field_u64 flds ''region_count'') of
                  (Some store_count, Some region_count) \<Rightarrow>
                    Some (Some (map (\<lambda>i. snd (GetStoreFields flds StoreInfo_default (''store'' @ show_nat i))) [0 ..< unat store_count],
                      map (\<lambda>i. projr (GetRegionFields flds (''region'' @ show_nat i))) [0 ..< unat region_count]))
                | _ \<Rightarrow> None))"

text \<open>Starting the TCP server of a process that has its handlers: an exit code, or the state that waits.\<close>

definition serve :: "listen_outcomes \<Rightarrow> string \<Rightarrow> i32 \<Rightarrow> 's \<Rightarrow> int + 's" where
  "serve out host port s =
     (if ok (fst (TcpRpcServer_Start out host (sint port) \<lparr>ts_has_server = True, ts_running = False, ts_listening = False, ts_bound_port = 0\<rparr>))
      then Inr s else Inl 1)"

section \<open>The placement driver and the demonstration\<close>

definition RunPdService :: "Config \<Rightarrow> listen_outcomes \<Rightarrow> PdServer \<Rightarrow> (int + PdServer) option" where
  "RunPdService config out pd =
     (case pd_Open (GetStringOr config ''pd.data_dir'' ''./data/pd1'') pd of
        None \<Rightarrow> None
      | Some (status, pd1) \<Rightarrow>
          Some (if \<not> ok status then Inl 1
                else if \<not> ok (fst (pd_RegisterHandlers (Some RpcServer_new))) then Inl 1
                else serve out (GetStringOr config ''pd.host'' ''127.0.0.1'') (config_GetIntOr config ''pd.client_port'' 7000) pd1))"

definition RunGatewayDemo :: "file_env \<Rightarrow> int option" where
  "RunGatewayDemo env =
     (case RegisterStore (MakeDemoStore 8101) (PdServer_new None []) of
        None \<Rightarrow> None
      | Some (status, s1, pd1) \<Rightarrow>
          if \<not> ok status then Some 1
          else case RegisterStore (MakeDemoStore 8102) pd1 of
                 None \<Rightarrow> None
               | Some (status, s2, pd2) \<Rightarrow>
          if \<not> ok status then Some 1
          else case RegisterStore (MakeDemoStore 8103) pd2 of
                 None \<Rightarrow> None
               | Some (status, s3, pd3) \<Rightarrow>
          if \<not> ok status then Some 1
          else case BootstrapDefaultRegion [si_store_id s1, si_store_id s2, si_store_id s3] pd3 of
                 None \<Rightarrow> None
               | Some (status, pd4) \<Rightarrow>
          if \<not> ok status then Some 1
          else case Bootstrap ''build/demo-cluster'' 3 1 True (SingleRegionCluster_new env) of
                 None \<Rightarrow> None
               | Some (status, cluster) \<Rightarrow>
          if \<not> ok status then Some 1
          else case gw_Put ''demo:user:1'' ''alice'' (GatewayServer_new (Some pd4) (SingleRef (Some cluster))) of
                 None \<Rightarrow> None
               | Some (status, g1) \<Rightarrow>
          if \<not> ok status then Some 1
          else case gw_Get ''demo:user:1'' kLinearizable g1 of
                 None \<Rightarrow> None
               | Some (Inl _, g2) \<Rightarrow> Some 1
               | Some (Inr v, g2) \<Rightarrow> Some (if v = ''alice'' then 0 else 1))"

section \<open>The store\<close>

text \<open>The request to start the first region, with the stores that are registered.\<close>

definition bootstrap_fields :: "StoreInfo list \<Rightarrow> FieldMap" where
  "bootstrap_fields stores =
     fold (\<lambda>(i, store) flds. fmupd (''store'' @ show_nat i) (to_string (si_store_id store)) flds) (enumerate 0 stores)
       (fmupd ''store_count'' (show_nat (length stores)) fmempty)"

text \<open>
  The loop that registers the stores of the process. The ports are added as machine integers; the
  code has undefined behaviour when they overflow.
\<close>

fun register_stores ::
  "'w tcp \<Rightarrow> Endpoint \<Rightarrow> Config \<Rightarrow> nat list \<Rightarrow> 'w \<Rightarrow> (int + StoreInfo list) \<times> 'w" where
  "register_stores tcp pd config [] w = (Inr [], w)"
| "register_stores tcp pd config (i # is) w =
     (let store = StoreInfo_default\<lparr>si_client_endpoint :=
            \<lparr>ep_host = GetStringOr config ''store.host'' ''127.0.0.1'',
             ep_port = config_GetIntOr config ''store.client_port'' 8101 + of_nat i\<rparr>\<rparr>;
          (response, w1) = CallRpc tcp pd ''pd.RegisterStore'' (PutStoreFields fmempty store []) (''store-register-'' @ show_nat i) w
      in if \<not> rs_ok response then (Inl 1, w1)
         else case DecodeFields (rs_payload response) of
                Inl _ \<Rightarrow> (Inl 1, w1)
              | Inr flds \<Rightarrow>
                  let (status, store1) = GetStoreFields flds store []
                  in if \<not> ok status then (Inl 1, w1)
                     else map_prod (map_sum id (Cons store1)) id (register_stores tcp pd config is w1))"

definition default_region :: RegionInfo where
  "default_region = RegionInfo_default\<lparr>ri_region_id := 1, ri_start_key := [], ri_end_key := []\<rparr>"

text \<open>The store process that holds all replicas.\<close>

definition RunEmbeddedStoreService ::
  "'w tcp \<Rightarrow> Config \<Rightarrow> listen_outcomes \<Rightarrow> MultiRegionCluster \<Rightarrow> 'w \<Rightarrow> ((int + StoreService) \<times> 'w) option" where
  "RunEmbeddedStoreService tcp config out cluster w =
     (case ParseEndpoint (GetStringOr config ''pd.endpoints'' ''127.0.0.1:7000'') 7000 of
        None \<Rightarrow> None
      | Some pd \<Rightarrow>
          (case register_stores tcp pd config [0, 1, 2] w of
             (Inl code, w1) \<Rightarrow> Some (Inl code, w1)
           | (Inr stores, w1) \<Rightarrow>
               let (response, w2) = CallRpc tcp pd ''pd.BootstrapDefaultRegion'' (bootstrap_fields stores) ''store-bootstrap'' w1
               in if \<not> rs_ok response then Some (Inl 1, w2)
                  else map_option (\<lambda>(status, cluster1).
                         (if \<not> ok status then Inl 1
                          else serve out (GetStringOr config ''store.host'' ''127.0.0.1'')
                                 (config_GetIntOr config ''store.client_port'' 8101) (StoreService_multi (Some cluster1)), w2))
                         (mr_Bootstrap (GetStringOr config ''store.data_dir'' ''./data/store1'') 3 [default_region] False cluster)))"

text \<open>The store process of a distributed cluster: the attempts to register it, at most \<open>k\<close>.\<close>

fun register_attempts ::
  "'w tcp \<Rightarrow> Endpoint \<Rightarrow> StoreInfo \<Rightarrow> nat \<Rightarrow> nat \<Rightarrow> RpcResponse \<Rightarrow> 'w \<Rightarrow> RpcResponse \<times> 'w" where
  "register_attempts tcp pd local_store attempt 0 response w = (response, w)"
| "register_attempts tcp pd local_store attempt (Suc k) response w =
     (let (response, w1) = CallRpc tcp pd ''pd.RegisterStore'' (PutStoreFields fmempty local_store [])
            (''store-register-'' @ to_string (si_store_id local_store) @ ''-'' @ show_nat attempt) w
      in if rs_ok response then (response, w1)
         else register_attempts tcp pd local_store (Suc attempt) k response w1)"

text \<open>
  The wait until all stores are registered and the first region is there: the stores and regions
  last read, or the exit code when the region is refused.
\<close>

fun await_regions ::
  "'w tcp \<Rightarrow> Endpoint \<Rightarrow> i32 \<Rightarrow> nat \<Rightarrow> nat \<Rightarrow> StoreInfo list \<times> RegionInfo list \<Rightarrow> 'w \<Rightarrow>
   ((int + StoreInfo list \<times> RegionInfo list) \<times> 'w) option" where
  "await_regions tcp pd expected attempt 0 known w = Some (Inr known, w)"
| "await_regions tcp pd expected attempt (Suc k) known w =
     (let (response, w1) = CallRpc tcp pd ''pd.Status'' fmempty (''store-pd-status-'' @ show_nat attempt) w
      in case DecodePdStatus response of
           None \<Rightarrow> None
         | Some None \<Rightarrow> await_regions tcp pd expected (Suc attempt) k known w1
         | Some (Some (stores, regions)) \<Rightarrow>
             if sint expected \<le> sint (of_nat (length stores) :: i32) then
               (if regions = [] then
                  let (response, w2) = CallRpc tcp pd ''pd.BootstrapDefaultRegion'' (bootstrap_fields stores) ''store-bootstrap-region'' w1
                  in if \<not> rs_ok response then Some (Inl 1, w2)
                     else await_regions tcp pd expected (Suc attempt) k (stores, regions) w2
                else Some (Inr (stores, regions), w1))
             else await_regions tcp pd expected (Suc attempt) k (stores, regions) w1)"

definition RunDistributedStoreService ::
  "'w tcp \<Rightarrow> Config \<Rightarrow> listen_outcomes \<Rightarrow> file_env \<Rightarrow> 'w \<Rightarrow> ((int + StoreService) \<times> 'w) option" where
  "RunDistributedStoreService tcp config out env w =
     (case ParseEndpoint (GetStringOr config ''pd.endpoints'' ''127.0.0.1:7000'') 7000 of
        None \<Rightarrow> None
      | Some pd \<Rightarrow>
          let host = GetStringOr config ''store.host'' ''127.0.0.1'';
              local_store = StoreInfo_default\<lparr>si_store_id := scast (config_GetIntOr config ''store.id'' 0),
                si_client_endpoint := \<lparr>ep_host = host, ep_port = config_GetIntOr config ''store.client_port'' 8101\<rparr>,
                si_raft_endpoint := \<lparr>ep_host = host, ep_port = config_GetIntOr config ''store.raft_port'' 7101\<rparr>\<rparr>;
              (response, w1) = register_attempts tcp pd local_store 0 100 RpcResponse_default w
          in if \<not> rs_ok response then Some (Inl 1, w1)
             else case DecodeFields (rs_payload response) of
                    Inl _ \<Rightarrow> Some (Inl 1, w1)
                  | Inr flds \<Rightarrow>
                      let (status, local_store1) = GetStoreFields flds local_store []
                      in if \<not> ok status then Some (Inl 1, w1)
                         else case await_regions tcp pd (config_GetIntOr config ''cluster.store_count'' 3) 0 200 ([], []) w1 of
                                None \<Rightarrow> None
                              | Some (Inl code, w2) \<Rightarrow> Some (Inl code, w2)
                              | Some (Inr known, w2) \<Rightarrow>
                                  let (final, w3) =
                                        (if snd known \<noteq> [] then (Some (Some known), w2)
                                         else let (response, w3) = CallRpc tcp pd ''pd.Status'' fmempty ''store-pd-status-final'' w2
                                              in (DecodePdStatus response, w3))
                                  in case final of
                                       None \<Rightarrow> None
                                     | Some known1 \<Rightarrow>
                                         let (stores, regions) = (case known1 of None \<Rightarrow> known | Some k \<Rightarrow> k)
                                         in if regions = [] then Some (Inl 1, w3)
                                            else map_option (\<lambda>(status, node).
                                                   (if \<not> ok status then Inl 1
                                                    else serve out (ep_host (si_client_endpoint local_store1))
                                                           (ep_port (si_client_endpoint local_store1)) (StoreService_store (Some node)), w3))
                                                   (ds_Bootstrap env (GetStringOr config ''store.data_dir'' ''./data/store1'')
                                                      local_store1 stores regions DistributedStoreNode_new))"

definition RunStoreService ::
  "'w tcp \<Rightarrow> Config \<Rightarrow> listen_outcomes \<Rightarrow> file_env \<Rightarrow> MultiRegionCluster \<Rightarrow> 'w \<Rightarrow> ((int + StoreService) \<times> 'w) option" where
  "RunStoreService tcp config out env cluster w =
     (if GetStringOr config ''store.mode'' [] = ''distributed'' then RunDistributedStoreService tcp config out env w
      else RunEmbeddedStoreService tcp config out cluster w)"

section \<open>The gateway\<close>

text \<open>The endpoints of the two clients of the gateway, and the gateway; the second socket is that of the dashboard.\<close>

definition RunGatewayService ::
  "Config \<Rightarrow> listen_outcomes \<Rightarrow> listen_outcomes \<Rightarrow> (int + Endpoint \<times> Endpoint \<times> RpcGatewayClient) option" where
  "RunGatewayService config out dashboard_out =
     (case (ParseEndpoint (GetStringOr config ''pd.endpoints'' ''127.0.0.1:7000'') 7000,
            ParseEndpoint (GetStringOr config ''store.endpoint'' ''127.0.0.1:8101'') 8101) of
        (Some pd_endpoint, Some store_endpoint) \<Rightarrow>
          let gateway = RpcGatewayClient_new (GetStringOr config ''gateway.store_routing'' [] = ''dynamic'')
          in Some (case serve out (GetStringOr config ''gateway.host'' ''127.0.0.1'')
                          (config_GetIntOr config ''gateway.http_port'' 18080) (pd_endpoint, store_endpoint, gateway) of
                     Inl code \<Rightarrow> Inl code
                   | Inr s \<Rightarrow>
                       if GetStringOr config ''dashboard.enabled'' ''false'' = ''true'' \<and>
                          \<not> ok (fst (DashboardServer_Start dashboard_out (GetStringOr config ''dashboard.host'' ''127.0.0.1'')
                            (config_GetIntOr config ''dashboard.port'' 9090) (DashboardServer_new True)))
                       then Inl 1 else Inr s)
      | _ \<Rightarrow> None)"

section \<open>The program\<close>

record server_args =
  sa_role :: string
  sa_config :: string
  sa_demo :: bool
  sa_serve :: bool

text \<open>The loop over the arguments: \<open>Inl\<close> is the exit code with the text on the error stream.\<close>

fun parse_args :: "string \<Rightarrow> string list \<Rightarrow> server_args \<Rightarrow> (int \<times> string) + server_args" where
  "parse_args program [] a = Inr a"
| "parse_args program (arg # rest) a =
     (if arg = ''--role'' \<and> rest \<noteq> [] then parse_args program (tl rest) (a\<lparr>sa_role := hd rest\<rparr>)
      else if arg = ''--config'' \<and> rest \<noteq> [] then parse_args program (tl rest) (a\<lparr>sa_config := hd rest\<rparr>)
      else if arg = ''--demo'' then parse_args program rest (a\<lparr>sa_demo := True\<rparr>)
      else if arg = ''--serve'' then parse_args program rest (a\<lparr>sa_serve := True\<rparr>)
      else if arg = ''--help'' \<or> arg = ''-h'' then Inl (0, PrintUsage program)
      else Inl (2, ''Unknown argument: '' @ arg @ NL # PrintUsage program))"

text \<open>What the program does after it has read its arguments and its configuration.\<close>

datatype server_action = Exit int | ServePd Config | ServeGateway Config | GatewayDemo | ServeStore Config

definition server_main :: "(string \<Rightarrow> string option) \<Rightarrow> string \<Rightarrow> string list \<Rightarrow> server_action option" where
  "server_main files program args =
     (case parse_args program args \<lparr>sa_role = [], sa_config = [], sa_demo = False, sa_serve = False\<rparr> of
        Inl (code, _) \<Rightarrow> Some (Exit code)
      | Inr a \<Rightarrow>
          if sa_config a = [] then Some (Exit 2)
          else case LoadFromFile (sa_config a) (files (sa_config a)) fmempty of
                 None \<Rightarrow> None
               | Some (status, config) \<Rightarrow>
                   if \<not> ok status then Some (Exit 1)
                   else
                     let role = (if sa_role a = [] then GetRole config else ParseRole (sa_role a))
                     in Some (case role of
                                kUnknown \<Rightarrow> Exit 2
                              | kPd \<Rightarrow> if sa_serve a then ServePd config else Exit 0
                              | kGateway \<Rightarrow> if sa_demo a then GatewayDemo else if sa_serve a then ServeGateway config else Exit 0
                              | kStore \<Rightarrow> if sa_serve a then ServeStore config else Exit 0))"

end
