(* ===== verification/Server_Start.thy ===== *)
theory Server_Start
  imports Server
begin

text \<open>
  The server processes from their first start: the placement driver and the store start on empty
  disks, and the store registers with the placement driver over TCP.
\<close>

section \<open>Registration\<close>

text \<open>The network of a store that starts: only the placement driver answers.\<close>

definition pd_dial :: "wires \<Rightarrow> PdServer tcp" where
  "pd_dial net ep req s =
     (if wr_at net ep \<noteq> Some PdProcess then (unreachable req, s)
      else case TcpRpcClient_Call (wr_conn net ep req) pd_rpc_server req s of
             None \<Rightarrow> (ErrorResponse req (IoError ''socket read failed''), s)
           | Some x \<Rightarrow> x)"

text \<open>Messages that fit in a frame are exchanged with the placement driver.\<close>

definition delivers :: "PdServer tcp \<Rightarrow> Endpoint \<Rightarrow> bool" where
  "delivers tcp ep \<longleftrightarrow> (\<forall>req s resp s'. request_fits req \<longrightarrow> RpcServer_Handle pd_rpc_server req s = Some (resp, s') \<longrightarrow>
     response_fits resp \<longrightarrow> tcp ep req s = (resp, s'))"

lemma pd_dial_delivers: "wr_at net ep = Some PdProcess \<Longrightarrow> \<forall>req. reliable (wr_conn net ep req) \<Longrightarrow> delivers (pd_dial net) ep"
  unfolding delivers_def pd_dial_def by (simp add: call_delivers(2))

lemma CallRpc_delivers:
  assumes "delivers tcp ep" and "length M \<le> 100" and "length rid \<le> 100" and "carried (EncodeFields f)"
    and "req = RpcRequest_default\<lparr>rq_request_id := rid, rq_method := M, rq_source := ''rstone-server'', rq_target := ''remote'', rq_payload := EncodeFields f\<rparr>"
    and "RpcServer_Handle pd_rpc_server req s = Some (resp, s')" and "request_fits req \<Longrightarrow> response_fits resp"
  shows "CallRpc tcp ep M f rid s = (resp, s')"
proof -
  have "request_fits req" using assms(2-4) by (simp add: assms(5) request_fits_def RpcRequest_default_def)
  then show ?thesis using assms(1,6,7) by (simp add: delivers_def CallRpc_def assms(5))
qed

text \<open>A placement driver with data directory \<open>e\<close> on a healthy disk that holds its catalog.\<close>

definition pd_healthy :: "string \<Rightarrow> PdServer \<Rightarrow> bool" where
  "pd_healthy e s \<longleftrightarrow> pd_io s = [] \<and> pd_data_dir s = e \<and> pd_saved s"

lemma pd_healthy_io: "pd_healthy e s \<Longrightarrow> pd_io s = []"
  by (simp add: pd_healthy_def)

lemma Persist_pd_healthy:
  assumes "pd_io s = []" and "pd_data_dir s = e"
  shows "\<exists>s'. Persist s = Some (Status_Ok, s') \<and> pd_healthy e s' \<and> pd_metadata s' = pd_metadata s"
proof -
  obtain s' where s': "Persist s = Some (Status_Ok, s')" "pd_io s' = []" using Persist_ok [OF assms(1)] by blast
  then show ?thesis using Persist_saved [OF s'(1) assms(1)] Persist_frame [OF s'(1)] assms(2) by (auto simp: pd_healthy_def)
qed

lemma RegisterStore_new:
  assumes "pd_healthy e s" and "pm_next_store_id (pd_metadata s) \<noteq> 0" and "si_store_id store = 0"
  shows "\<exists>s'. RegisterStore store s = Some (Status_Ok, store\<lparr>si_store_id := pm_next_store_id (pd_metadata s)\<rparr>, s') \<and> pd_healthy e s' \<and>
     pd_metadata s' = (pd_metadata s)\<lparr>pm_next_store_id := pm_next_store_id (pd_metadata s) + 1,
       pm_stores := fmupd (pm_next_store_id (pd_metadata s)) (store\<lparr>si_store_id := pm_next_store_id (pd_metadata s)\<rparr>) (pm_stores (pd_metadata s))\<rparr>"
proof -
  let ?i = "pm_next_store_id (pd_metadata s)"
  let ?m = "(pd_metadata s)\<lparr>pm_next_store_id := ?i + 1, pm_stores := fmupd ?i (store\<lparr>si_store_id := ?i\<rparr>) (pm_stores (pd_metadata s))\<rparr>"
  obtain s' where p: "Persist (s\<lparr>pd_metadata := ?m\<rparr>) = Some (Status_Ok, s')" "pd_healthy e s'" "pd_metadata s' = ?m"
    using Persist_pd_healthy [of "s\<lparr>pd_metadata := ?m\<rparr>" e] assms(1) by (auto simp: pd_healthy_def)
  note p(3)
  moreover have "RegisterStore store s = Some (Status_Ok, store\<lparr>si_store_id := ?i\<rparr>, s')"
    using assms(2,3) p(1) by (simp add: RegisterStore_def AllocStoreId_def PutStore_def Let_def)
  ultimately show ?thesis using p(2) by blast
qed

lemma register_call:
  assumes "pd_healthy e s" and "pm_next_store_id (pd_metadata s) \<noteq> 0" and "si_store_id store = 0" and "si_labels store = si_labels StoreInfo_default"
    and "delivers tcp ep" and "length rid \<le> 100" and "short (ep_host (si_raft_endpoint store))" "short (ep_host (si_client_endpoint store))" "short (si_state store)"
  obtains resp s' where "CallRpc tcp ep ''pd.RegisterStore'' (PutStoreFields fmempty store []) rid s = (resp, s')" and "rs_ok resp"
    and "DecodeFields (rs_payload resp) = Inr (PutStoreFields fmempty (store\<lparr>si_store_id := pm_next_store_id (pd_metadata s)\<rparr>) [])"
    and "pd_healthy e s'" and "pd_metadata s' = (pd_metadata s)\<lparr>pm_next_store_id := pm_next_store_id (pd_metadata s) + 1,
       pm_stores := fmupd (pm_next_store_id (pd_metadata s)) (store\<lparr>si_store_id := pm_next_store_id (pd_metadata s)\<rparr>) (pm_stores (pd_metadata s))\<rparr>"
    and "catalog_wf (pd_metadata s) \<and> id_room 0 s \<longrightarrow> catalog_wf (pd_metadata s')"
proof -
  obtain s' where s': "RegisterStore store s = Some (Status_Ok, store\<lparr>si_store_id := pm_next_store_id (pd_metadata s)\<rparr>, s')" "pd_healthy e s'"
    "pd_metadata s' = (pd_metadata s)\<lparr>pm_next_store_id := pm_next_store_id (pd_metadata s) + 1,
       pm_stores := fmupd (pm_next_store_id (pd_metadata s)) (store\<lparr>si_store_id := pm_next_store_id (pd_metadata s)\<rparr>) (pm_stores (pd_metadata s))\<rparr>"
    using RegisterStore_new [OF assms(1-3)] by blast
  let ?req = "RpcRequest_default\<lparr>rq_request_id := rid, rq_method := ''pd.RegisterStore'', rq_source := ''rstone-server'',
       rq_target := ''remote'', rq_payload := EncodeFields (PutStoreFields fmempty store [])\<rparr>"
  let ?resp = "MakeRpcOk ?req (EncodeFields (PutStoreFields fmempty (store\<lparr>si_store_id := pm_next_store_id (pd_metadata s)\<rparr>) []))"
  have "store\<lparr>si_labels := si_labels StoreInfo_default\<rparr> = store" using assms(4) by simp
  then have "HandleRegisterStore ?req s = Some (?resp, s')"
    using s'(1) by (simp add: HandleRegisterStore_def get_put_store answer_def)
  moreover have "RpcServer_Handle pd_rpc_server ?req s = HandleRegisterStore ?req s"
    unfolding pd_rpc_server_def by (rule pd_rpc.dispatch) (simp add: pd_methods_def)
  moreover have fields: "carried (EncodeFields (PutStoreFields fmempty st []))"
    if "si_raft_endpoint st = si_raft_endpoint store" "si_client_endpoint st = si_client_endpoint store" "si_state st = si_state store" for st
    using store_fields_le [of "[]" st "2 ^ 20" fmempty 0] assms(7-9) that by (simp add: short_def carried_def)
  ultimately have "CallRpc tcp ep ''pd.RegisterStore'' (PutStoreFields fmempty store []) rid s = (?resp, s')"
    by (intro CallRpc_delivers [OF assms(5) _ assms(6) _ refl]) (simp_all add: ok_fits)
  moreover have "catalog_wf (pd_metadata s) \<and> id_room 0 s \<longrightarrow> catalog_wf (pd_metadata s')"
    using RegisterStore_wf [OF _ _ _ s'(1)] assms(3) by fastforce
  ultimately show thesis using that [of ?resp s'] s'(2,3) by (simp add: decode_encode_fields)
qed

text \<open>The store with index \<open>i\<close> of the process, with the endpoint it is registered with; the first has that of the process.\<close>

definition registered_endpoint :: "Config \<Rightarrow> Endpoint" where
  "registered_endpoint config =
     \<lparr>ep_host = GetStringOr config ''store.host'' ''127.0.0.1'', ep_port = config_GetIntOr config ''store.client_port'' 8101\<rparr>"

definition local_store :: "Config \<Rightarrow> nat \<Rightarrow> u64 \<Rightarrow> StoreInfo" where
  "local_store config i n = StoreInfo_default\<lparr>si_store_id := n, si_client_endpoint :=
     \<lparr>ep_host = GetStringOr config ''store.host'' ''127.0.0.1'', ep_port = config_GetIntOr config ''store.client_port'' 8101 + of_nat i\<rparr>\<rparr>"

lemma register_one:
  assumes "pd_healthy e s" and "pm_next_store_id (pd_metadata s) = n" and "n \<noteq> 0"
    and net: "delivers tcp ep" "short (GetStringOr config ''store.host'' ''127.0.0.1'')" and "i < 10"
  obtains s1 where "register_stores tcp ep config (i # is) s =
      map_prod (map_sum id (Cons (local_store config i n))) id (register_stores tcp ep config is s1)"
    and "pd_healthy e s1" and "pd_metadata s1 = (pd_metadata s)\<lparr>pm_next_store_id := n + 1, pm_stores := fmupd n (local_store config i n) (pm_stores (pd_metadata s))\<rparr>"
    and "catalog_wf (pd_metadata s) \<and> id_room 0 s \<longrightarrow> catalog_wf (pd_metadata s1)"
proof -
  let ?st = "StoreInfo_default\<lparr>si_client_endpoint :=
     \<lparr>ep_host = GetStringOr config ''store.host'' ''127.0.0.1'', ep_port = config_GetIntOr config ''store.client_port'' 8101 + of_nat i\<rparr>\<rparr>"
  have sel: "si_store_id ?st = 0" "si_labels ?st = si_labels StoreInfo_default" "?st\<lparr>si_store_id := n\<rparr> = local_store config i n"
    "(local_store config i n)\<lparr>si_labels := si_labels ?st\<rparr> = local_store config i n"
    by (simp_all add: local_store_def StoreInfo_default_def)
  have short: "short (ep_host (si_raft_endpoint ?st))" "short (ep_host (si_client_endpoint ?st))" "short (si_state ?st)"
    using net(2) by (simp_all add: StoreInfo_default_def Endpoint_default_def short_def)
  have rid: "length (''store-register-'' @ show_nat i) \<le> 100" using length_show_nat [of i 0] assms(6) by simp
  obtain resp s1 where 1: "CallRpc tcp ep ''pd.RegisterStore'' (PutStoreFields fmempty ?st []) (''store-register-'' @ show_nat i) s = (resp, s1)"
    "rs_ok resp" "DecodeFields (rs_payload resp) = Inr (PutStoreFields fmempty (local_store config i n) [])" "pd_healthy e s1"
    "pd_metadata s1 = (pd_metadata s)\<lparr>pm_next_store_id := n + 1, pm_stores := fmupd n (local_store config i n) (pm_stores (pd_metadata s))\<rparr>"
    "catalog_wf (pd_metadata s) \<and> id_room 0 s \<longrightarrow> catalog_wf (pd_metadata s1)"
    using register_call [OF assms(1) _ sel(1,2) net(1) rid short, where thesis = thesis] assms(2,3) sel(3) by simp
  have "register_stores tcp ep config (i # is) s =
      map_prod (map_sum id (Cons (local_store config i n))) id (register_stores tcp ep config is s1)"
    using 1(2,3) sel(4) unfolding register_stores.simps(2) 1(1) Let_def by (simp add: get_put_store)
  then show thesis using that 1(4-6) by blast
qed

lemma register_three:
  assumes "pd_healthy e s" and "pm_next_store_id (pd_metadata s) = n" and "0 < n" and "unat n + 3 < 2 ^ 64"
    and net: "delivers tcp ep" "short (GetStringOr config ''store.host'' ''127.0.0.1'')"
  obtains s' where "register_stores tcp ep config [0, 1, 2] s =
      (Inr [local_store config 0 n, local_store config 1 (n + 1), local_store config 2 (n + 2)], s')"
    and "pd_healthy e s'" and "pd_metadata s' = (pd_metadata s)\<lparr>pm_next_store_id := n + 3,
      pm_stores := fmupd (n + 2) (local_store config 2 (n + 2)) (fmupd (n + 1) (local_store config 1 (n + 1))
        (fmupd n (local_store config 0 n) (pm_stores (pd_metadata s))))\<rparr>"
    and "catalog_wf (pd_metadata s) \<and> id_room 0 s \<longrightarrow> catalog_wf (pd_metadata s')"
proof -
  have u: "unat (n + 1) = unat n + 1" "unat (n + 2) = unat n + 2" "unat (n + 3) = unat n + 3"
    using unat_add_bound [of n 1] unat_add_bound [of n 2] unat_add_bound [of n 3] assms(4) by simp_all
  then have nz: "n \<noteq> 0" "n + 1 \<noteq> 0" "n + 2 \<noteq> 0" using assms(3) by auto
  have "n + 3 \<noteq> 0" using u(3) by auto
  with nz(3) have room: "n + 1 \<noteq> - 1" "n + 2 \<noteq> - 1"
    by (simp_all only: eq_neg_iff_add_eq_0 add.assoc one_add_one numeral_plus_one add_num_simps not_False_eq_True)
  have small: "(0 :: nat) < 10" "(1 :: nat) < 10" "(2 :: nat) < 10" by simp_all
  obtain s1 where 1: "register_stores tcp ep config [0, 1, 2] s =
      map_prod (map_sum id (Cons (local_store config 0 n))) id (register_stores tcp ep config [1, 2] s1)" "pd_healthy e s1"
    "pd_metadata s1 = (pd_metadata s)\<lparr>pm_next_store_id := n + 1, pm_stores := fmupd n (local_store config 0 n) (pm_stores (pd_metadata s))\<rparr>"
    "catalog_wf (pd_metadata s) \<and> id_room 0 s \<longrightarrow> catalog_wf (pd_metadata s1)"
    by (rule register_one [OF assms(1,2) nz(1) net small(1)])
  have n1: "pm_next_store_id (pd_metadata s1) = n + 1" by (simp add: 1(3))
  obtain s2 where 2: "register_stores tcp ep config [1, 2] s1 =
      map_prod (map_sum id (Cons (local_store config 1 (n + 1)))) id (register_stores tcp ep config [2] s2)" "pd_healthy e s2"
    "pd_metadata s2 = (pd_metadata s1)\<lparr>pm_next_store_id := n + 1 + 1, pm_stores := fmupd (n + 1) (local_store config 1 (n + 1)) (pm_stores (pd_metadata s1))\<rparr>"
    "catalog_wf (pd_metadata s1) \<and> id_room 0 s1 \<longrightarrow> catalog_wf (pd_metadata s2)"
    by (rule register_one [OF 1(2) n1 nz(2) net small(2)])
  have n2: "pm_next_store_id (pd_metadata s2) = n + 2" by (simp add: 2(3) add.assoc)
  obtain s3 where 3: "register_stores tcp ep config [2] s2 =
      map_prod (map_sum id (Cons (local_store config 2 (n + 2)))) id (register_stores tcp ep config [] s3)" "pd_healthy e s3"
    "pd_metadata s3 = (pd_metadata s2)\<lparr>pm_next_store_id := n + 2 + 1, pm_stores := fmupd (n + 2) (local_store config 2 (n + 2)) (pm_stores (pd_metadata s2))\<rparr>"
    "catalog_wf (pd_metadata s2) \<and> id_room 0 s2 \<longrightarrow> catalog_wf (pd_metadata s3)"
    by (rule register_one [OF 2(2) n2 nz(3) net small(3)])
  have "catalog_wf (pd_metadata s) \<and> id_room 0 s \<longrightarrow> catalog_wf (pd_metadata s3)"
    using 1(3,4) 2(3,4) 3(4) room by (auto simp: id_room_def add.assoc)
  then show thesis using that [of s3] 1(1,3) 2(1,3) 3 by (simp add: add.assoc)
qed

section \<open>The first region\<close>

lemma read_bootstrap_fields:
  assumes "stores = [a, b, c]"
  shows "field_u64 (bootstrap_fields stores) ''store_count'' = Some 3"
    and "read_store_ids (bootstrap_fields stores) [0 ..< unat (3 :: u64)] = Some (map si_store_id stores)"
proof -
  have n: "show_nat 0 = ''0''" "show_nat (Suc 0) = ''1''" "show_nat 2 = ''2''" "show_nat 3 = ''3''"
    by code_simp+
  have three: "[0 ..< unat (3 :: u64)] = [0, Suc 0, 2]" by (simp add: upt_rec)
  have f: "fmlookup (bootstrap_fields stores) ''store_count'' = Some (to_string (3 :: u64))"
    "fmlookup (bootstrap_fields stores) ''store0'' = Some (to_string (si_store_id a))"
    "fmlookup (bootstrap_fields stores) ''store1'' = Some (to_string (si_store_id b))"
    "fmlookup (bootstrap_fields stores) ''store2'' = Some (to_string (si_store_id c))"
    by (simp_all add: assms bootstrap_fields_def n numeral_2_eq_2 [symmetric] to_string_def [of "3 :: u64"])
  show "field_u64 (bootstrap_fields stores) ''store_count'' = Some 3"
    by (simp add: field_u64_def GetOr_def f(1) stoull_to_string)
  show "read_store_ids (bootstrap_fields stores) [0 ..< unat (3 :: u64)] = Some (map si_store_id stores)"
    unfolding three by (simp add: field_u64_def GetOr_def n f [unfolded assms] stoull_to_string assms)
qed

definition first_region :: "StoreInfo list \<Rightarrow> RegionInfo" where
  "first_region stores = default_region\<lparr>ri_peers := renumber 1 (map (\<lambda>s. \<lparr>pr_peer_id = 0, pr_store_id = si_store_id s, pr_role = kVoter\<rparr>) stores),
     ri_leader_peer_id := 1\<rparr>"

lemma bootstrap_reply:
  assumes "stores = [a, b, c]" and "BootstrapDefaultRegion (map si_store_id stores) s = Some (Status_Ok, s')"
    and net: "delivers tcp ep" "length rid \<le> 100"
  obtains resp where "CallRpc tcp ep ''pd.BootstrapDefaultRegion'' (bootstrap_fields stores) rid s = (resp, s')" and "rs_ok resp"
proof -
  let ?req = "RpcRequest_default\<lparr>rq_request_id := rid, rq_method := ''pd.BootstrapDefaultRegion'', rq_source := ''rstone-server'',
       rq_target := ''remote'', rq_payload := EncodeFields (bootstrap_fields stores)\<rparr>"
  have "HandleBootstrapDefaultRegion ?req s = Some (answer ?req Status_Ok [], s')"
    using read_bootstrap_fields [OF assms(1)] assms(2) by (simp add: HandleBootstrapDefaultRegion_def)
  moreover have "RpcServer_Handle pd_rpc_server ?req s = HandleBootstrapDefaultRegion ?req s"
    unfolding pd_rpc_server_def by (rule pd_rpc.dispatch) (simp add: pd_methods_def)
  moreover have "carried (EncodeFields (bootstrap_fields stores))"
  proof -
    have n: "length (''store'' @ show_nat k) \<le> 20" if "k < 10" for k using length_show_nat [of k 0] that by simp
    have m: "length (show_nat 3) \<le> 20" using length_show_nat [of 3 0] by simp
    have eq: "bootstrap_fields stores = fmupd (''store'' @ show_nat 2) (to_string (si_store_id c)) (fmupd (''store'' @ show_nat 1) (to_string (si_store_id b))
        (fmupd (''store'' @ show_nat 0) (to_string (si_store_id a)) (fmupd ''store_count'' (show_nat 3) fmempty)))"
      by (simp add: assms(1) bootstrap_fields_def numeral_2_eq_2 numeral_3_eq_3)
    have "length (EncodeFields (bootstrap_fields stores)) \<le> 2 * 20 + 2 * 20 + 2 + (2 * 20 + 2 * 20 + 2 + (2 * 20 + 2 * 20 + 2 + (2 * 20 + 2 * 20 + 2 + 0)))"
      unfolding eq by (intro fields_le n m length_to_string) simp_all
    then show ?thesis by (simp add: carried_def)
  qed
  ultimately have "CallRpc tcp ep ''pd.BootstrapDefaultRegion'' (bootstrap_fields stores) rid s = (answer ?req Status_Ok [], s')"
    by (intro CallRpc_delivers [OF net(1) _ net(2) _ refl]) (simp_all add: ok_answer_fits)
  then show thesis using that by (simp add: answer_def)
qed

lemma bootstrap_first:
  assumes "pd_healthy e s" and "stores = [a, b, c]" and "\<forall>x \<in> set stores. fmlookup (pm_stores (pd_metadata s)) (si_store_id x) \<noteq> None"
    and "pd_metadata s = PdMetadataStore_new\<lparr>pm_next_store_id := n, pm_stores := st\<rparr>"
  obtains s' where "pd_healthy e s'" and "pd_metadata s' = (pd_metadata s)\<lparr>pm_next_region_id := 2, pm_next_peer_id := 4,
      pm_regions := fmupd 1 (first_region stores) fmempty, pm_by_start := fmupd [] 1 fmempty\<rparr>"
    and "BootstrapDefaultRegion (map si_store_id stores) s = Some (Status_Ok, s')"
proof -
  let ?m = "(pd_metadata s)\<lparr>pm_next_region_id := 2, pm_next_peer_id := 4\<rparr>"
  let ?m' = "snd (PutRegion (first_region stores) ?m)"
  obtain s' where p: "Persist (s\<lparr>pd_metadata := ?m'\<rparr>) = Some (Status_Ok, s')" "pd_healthy e s'" "pd_metadata s' = ?m'"
    using Persist_pd_healthy [of "s\<lparr>pd_metadata := ?m'\<rparr>" e] assms(1) by (auto simp: pd_healthy_def)
  have "fst (PutRegion (first_region stores) ?m) = Status_Ok" by (simp add: PutRegion_def first_region_def default_region_def)
  then have put: "put_region_persist (first_region stores) (s\<lparr>pd_metadata := ?m\<rparr>) = Some (Status_Ok, s')"
    using p(1) by (simp add: put_region_persist_def split_beta Let_def)
  have "md_ListRegions (pd_metadata s) = []" by (simp add: assms(4) PdMetadataStore_new_def md_ListRegions_def)
  moreover obtain x y z where "fmlookup st (si_store_id a) = Some x" "fmlookup st (si_store_id b) = Some y" "fmlookup st (si_store_id c) = Some z"
    using assms(2-4) by auto
  ultimately have b: "BootstrapDefaultRegion (map si_store_id stores) s = Some (Status_Ok, s')"
    using put assms(2,4) by (simp add: BootstrapDefaultRegion_def AllocRegionId_def AllocPeerId_def md_GetStore_def PdMetadataStore_new_def
        first_region_def default_region_def Let_def)
  have "pd_metadata s' = (pd_metadata s)\<lparr>pm_next_region_id := 2, pm_next_peer_id := 4,
      pm_regions := fmupd 1 (first_region stores) fmempty, pm_by_start := fmupd [] 1 fmempty\<rparr>"
    using assms(4) by (simp add: p(3) PutRegion_def first_region_def default_region_def PdMetadataStore_new_def)
  with b p(2) that show thesis by auto
qed

text \<open>When there is a region, the request changes nothing.\<close>

lemma bootstrap_again:
  assumes "md_ListRegions (pd_metadata s) \<noteq> []" and "stores = [a, b, c]" and "delivers tcp ep" and "length rid \<le> 100"
  obtains resp where "CallRpc tcp ep ''pd.BootstrapDefaultRegion'' (bootstrap_fields stores) rid s = (resp, s)" and "rs_ok resp"
  by (rule bootstrap_reply [OF assms(2) _ assms(3,4)]) (use assms(1) in \<open>auto simp: BootstrapDefaultRegion_def\<close>)

section \<open>Starting on empty disks\<close>

lemma remove_all_empty: "fe_log env = (\<lambda>_. []) \<Longrightarrow> remove_all d env = env"
  by (cases env) (auto simp: remove_all_def)

lemma start_clusters_empty:
  assumes "healthy_env (mr_files m)" and "fe_log (mr_files m) = (\<lambda>_. [])"
  shows "start_clusters False rs m = start_clusters True rs m"
  using assms
proof (induction rs arbitrary: m)
  case (Cons r rs)
  have "Bootstrap d n i True (SingleRegionCluster_new (mr_files m)) = Bootstrap d n i False (SingleRegionCluster_new (mr_files m))" for d n i
    using Cons.prems by (simp add: Bootstrap_def SingleRegionCluster_new_def remove_all_empty)
  then show ?case using Cons by (simp split: option.split)
qed simp

lemma Bootstrap_empty:
  assumes "healthy_env env" and "fe_log env = (\<lambda>_. [])" and "rs \<noteq> []"
  shows "mr_Bootstrap d n rs False (MultiRegionCluster_new env (\<lambda>_. None) []) = mr_Bootstrap d n rs True (MultiRegionCluster_new env (\<lambda>_. None) [])"
  using assms start_clusters_empty [where rs = rs]
  by (simp add: mr_Bootstrap_def MultiRegionCluster_new_def RegionCatalogExists_def Let_def remove_all_empty cong: if_cong)

definition listens :: "listen_outcomes \<Rightarrow> bool" where
  "listens out \<longleftrightarrow> lo_socket out \<and> lo_pton out \<and> lo_bind out \<and> lo_listen out"

lemma serve_listens [simp]: "listens out \<Longrightarrow> serve out host port s = Inr s"
  by (simp add: serve_def listens_def TcpRpcServer_Start_def Let_def)

lemma dashboard_listens [simp]: "listens out \<Longrightarrow> ok (fst (DashboardServer_Start out host port (DashboardServer_new True)))"
  by (simp add: listens_def DashboardServer_Start_def DashboardServer_new_def Let_def)

lemma pd_starts:
  assumes "listens out"
  obtains pd where "RunPdService config out (PdServer_new None []) = Some (Inr pd)" and "pd_metadata pd = PdMetadataStore_new"
    and "pd_healthy (GetStringOr config ''pd.data_dir'' ''./data/pd1'') pd"
proof -
  let ?d = "GetStringOr config ''pd.data_dir'' ''./data/pd1''"
  let ?s = "(PdServer_new None [])\<lparr>pd_data_dir := ?d\<rparr>"
  obtain pd where p: "Persist ?s = Some (Status_Ok, pd)" "pd_healthy ?d pd" "pd_metadata pd = PdMetadataStore_new"
    using Persist_pd_healthy [of ?s ?d] by (auto simp: PdServer_new_def)
  have "pd_Open ?d (PdServer_new None []) = Some (Status_Ok, pd)"
    using p(1) by (simp add: pd_Open_def pd_next_io_def PdServer_new_def)
  then have "RunPdService config out (PdServer_new None []) = Some (Inr pd)"
    using assms by (simp add: RunPdService_def pd_RegisterHandlers_def split_beta pd_rpc.register_ok)
  then show thesis using that p(2,3) by blast
qed

lemma default_region_sel [simp]:
  "ri_region_id default_region = 1" "ri_start_key default_region = []" "ri_end_key default_region = []" "ri_peers default_region = []"
  by (simp_all add: default_region_def RegionInfo_default_def)

lemma default_region_covers: "ContainsKey default_region k" "disjoint_regions [default_region]"
  by (simp_all add: ContainsKey_def disjoint_regions_def)

lemma store_starts:
  assumes "listens out" and "GetStringOr config ''store.mode'' [] \<noteq> ''distributed''"
    and "healthy_env env" and "fe_log env = (\<lambda>_. [])" and "pd_metadata pd = PdMetadataStore_new" and "pd_healthy e pd"
    and "3 * j + 5 < 2 ^ 64"
    and net: "ParseEndpoint (GetStringOr config ''pd.endpoints'' ''127.0.0.1:7000'') 7000 = Some ep" "delivers tcp ep"
      "short (GetStringOr config ''store.host'' ''127.0.0.1'')"
  shows "\<exists>sv pd'. RunStoreService tcp config out env (MultiRegionCluster_new env (\<lambda>_. None) []) pd = Some (Inr sv, pd') \<and>
     multi_world 3 3 (GetStringOr config ''store.data_dir'' ''./data/store1'') e (registered_endpoint config) j fmempty \<lparr>rc_pd = pd', rc_store = sv\<rparr>"
proof -
  let ?a = "local_store config 0 1" and ?b = "local_store config 1 2" and ?c = "local_store config 2 3"
  have new: "pm_next_store_id (pd_metadata pd) = 1" "catalog_wf (pd_metadata pd)" "id_room 0 pd"
    by (simp_all add: assms(5) catalog_wf_new id_room_def) (simp_all add: PdMetadataStore_new_def)
  obtain pd1 where 1: "register_stores tcp ep config [0, 1, 2] pd = (Inr [?a, ?b, ?c], pd1)" "pd_healthy e pd1"
    "pd_metadata pd1 = PdMetadataStore_new\<lparr>pm_next_store_id := 4, pm_stores := fmupd 3 ?c (fmupd 2 ?b (fmupd 1 ?a fmempty))\<rparr>"
    "catalog_wf (pd_metadata pd1)"
    using register_three [OF assms(6) new(1) _ _ net(2,3), where thesis = thesis] new(2,3) assms(5) by (auto simp: PdMetadataStore_new_def)
  have ids: "si_store_id (local_store config i n) = n" for i n by (simp add: local_store_def)
  have st: "\<forall>x \<in> set [?a, ?b, ?c]. fmlookup (pm_stores (pd_metadata pd1)) (si_store_id x) \<noteq> None" by (simp add: 1(3) ids)
  obtain pd2 where 2: "pd_healthy e pd2" "pd_metadata pd2 = (pd_metadata pd1)\<lparr>pm_next_region_id := 2, pm_next_peer_id := 4,
      pm_regions := fmupd 1 (first_region [?a, ?b, ?c]) fmempty, pm_by_start := fmupd [] 1 fmempty\<rparr>"
    "BootstrapDefaultRegion (map si_store_id [?a, ?b, ?c]) pd1 = Some (Status_Ok, pd2)"
    by (rule bootstrap_first [OF 1(2) refl st 1(3)])
  have rid: "length ''store-bootstrap'' \<le> 100" by simp
  obtain resp where resp: "CallRpc tcp ep ''pd.BootstrapDefaultRegion'' (bootstrap_fields [?a, ?b, ?c]) ''store-bootstrap'' pd1 = (resp, pd2)" "rs_ok resp"
    by (rule bootstrap_reply [OF refl 2(3) net(2) rid])
  obtain x where x: "mr_Bootstrap (GetStringOr config ''store.data_dir'' ''./data/store1'') 3 [default_region] False
      (MultiRegionCluster_new env (\<lambda>_. None) []) = Some (Status_Ok, x)" "multi_inv 3 j (\<lambda>_. fmempty) fmempty x" "mr_regions x = [default_region]"
    "mr_data_dir x = GetStringOr config ''store.data_dir'' ''./data/store1''"
    using fresh_inv [of 3 env "[default_region]" j "GetStringOr config ''store.data_dir'' ''./data/store1''" "\<lambda>_. None"]
      Bootstrap_empty [OF assms(3,4), of "[default_region]" "GetStringOr config ''store.data_dir'' ''./data/store1''" 3]
      default_region_covers assms(3,7) by auto
  have regs: "pd_ListRegions pd2 = [first_region [?a, ?b, ?c]]"
    by (simp add: pd_ListRegions_def md_ListRegions_def 2(2))
  have "catalog_wf (pd_metadata pd2)"
    by (rule BootstrapDefaultRegion_wf [OF 1(4) _ 2(3)]) (simp add: id_room_def 1(3) PdMetadataStore_new_def)
  then have "pd_room 3 e j pd2"
    unfolding pd_room_def regs using assms(7) 2(1) by (simp add: 2(2) 1(3) first_region_def default_region_def RegionInfo_default_def pd_healthy_def)
  moreover have routable: "routable 3 (registered_endpoint config) pd2"
    unfolding routable_def regs using net(3)
    by (auto simp: 2(2) 1(3) md_GetStore_def first_region_def local_store_def registered_endpoint_def short_def ids)
  moreover have "agreed pd2 x"
    unfolding agreed_def regs x(3) by (simp add: 2(2) range_of_def first_region_def next_region_id_def)
  ultimately have "multi_world 3 3 (GetStringOr config ''store.data_dir'' ''./data/store1'') e (registered_endpoint config) j fmempty \<lparr>rc_pd = pd2, rc_store = StoreService_multi (Some x)\<rparr>"
    using x(2,4) routable by (auto simp: multi_world_def)
  moreover have "RunStoreService tcp config out env (MultiRegionCluster_new env (\<lambda>_. None) []) pd =
      Some (Inr (StoreService_multi (Some x)), pd2)"
    using assms(1,2) net(1) 1(1) resp x(1) by (simp add: RunStoreService_def RunEmbeddedStoreService_def)
  ultimately show ?thesis by blast
qed

section \<open>The default configuration\<close>

definition all_listen :: listen_outcomes where
  "all_listen = \<lparr>lo_socket = True, lo_pton = True, lo_bind = True, lo_getsockname = None, lo_listen = True\<rparr>"

lemma empty_config [simp]: "GetStringOr fmempty k d = d"
  by (simp add: GetStringOr_def GetString_def)

lemma default_ports [simp]:
  "ParseEndpoint ''127.0.0.1:7000'' 7000 = Some \<lparr>ep_host = ''127.0.0.1'', ep_port = 7000\<rparr>"
  "ParseEndpoint ''127.0.0.1:8101'' 8101 = Some \<lparr>ep_host = ''127.0.0.1'', ep_port = 8101\<rparr>"
proof -
  have "scan_number ''7000'' = Some (False, 7000, [])" "scan_number ''8101'' = Some (False, 8101, [])"
    by (simp_all add: scan_number_def is_digit_def isspace_def)
  then have "stoi ''7000'' = Some 7000" "stoi ''8101'' = Some 8101" by (simp_all add: stoi_def signed_value_def)
  then show "ParseEndpoint ''127.0.0.1:7000'' 7000 = Some \<lparr>ep_host = ''127.0.0.1'', ep_port = 7000\<rparr>"
    "ParseEndpoint ''127.0.0.1:8101'' 8101 = Some \<lparr>ep_host = ''127.0.0.1'', ep_port = 8101\<rparr>"
    by (simp_all add: ParseEndpoint_def)
qed

end
