(* ===== verification/Server_Exits.thy ===== *)
theory Server_Exits
  imports Server_Start
begin

text \<open>
  The ways in which the server program ends: the demonstration, which runs to its end with exit code
  0, and the start of a store of a distributed cluster, which gives up after a bounded number of
  calls.
\<close>

section \<open>The demonstration\<close>

lemma register_demo:
  assumes "pd_healthy e s" and "pm_next_store_id (pd_metadata s) = n" and "0 < n" and "n < 10" and "catalog_wf (pd_metadata s)"
    and "pm_next_region_id (pd_metadata s) = 1" and "pm_next_peer_id (pd_metadata s) = 1"
  obtains s1 where "RegisterStore (MakeDemoStore port) s = Some (Status_Ok, (MakeDemoStore port)\<lparr>si_store_id := n\<rparr>, s1)" and "pd_healthy e s1"
    and "catalog_wf (pd_metadata s1)"
    and "pd_metadata s1 = (pd_metadata s)\<lparr>pm_next_store_id := n + 1, pm_stores := fmupd n ((MakeDemoStore port)\<lparr>si_store_id := n\<rparr>) (pm_stores (pd_metadata s))\<rparr>"
proof -
  have new: "si_store_id (MakeDemoStore port) = 0" by (simp add: MakeDemoStore_def StoreInfo_default_def)
  have nz: "pm_next_store_id (pd_metadata s) \<noteq> 0" using assms(2,3) by auto
  obtain s1 where s1: "RegisterStore (MakeDemoStore port) s = Some (Status_Ok, (MakeDemoStore port)\<lparr>si_store_id := n\<rparr>, s1)" "pd_healthy e s1"
    "pd_metadata s1 = (pd_metadata s)\<lparr>pm_next_store_id := n + 1, pm_stores := fmupd n ((MakeDemoStore port)\<lparr>si_store_id := n\<rparr>) (pm_stores (pd_metadata s))\<rparr>"
    using RegisterStore_new [OF assms(1) nz new] assms(2) by auto
  have "n \<noteq> - 1" using assms(4) by auto
  then have "id_room 0 s" using assms(2,6,7) by (simp add: id_room_def)
  then have "catalog_wf (pd_metadata s1)" using RegisterStore_wf [OF assms(5) _ _ s1(1)] new by simp
  then show thesis using that s1 by blast
qed

lemma demo_catalog:
  obtains s1 s2 s3 pd1 pd2 pd3 pd where "RegisterStore (MakeDemoStore 8101) (PdServer_new None []) = Some (Status_Ok, s1, pd1)"
    and "RegisterStore (MakeDemoStore 8102) pd1 = Some (Status_Ok, s2, pd2)" and "RegisterStore (MakeDemoStore 8103) pd2 = Some (Status_Ok, s3, pd3)"
    and "BootstrapDefaultRegion [si_store_id s1, si_store_id s2, si_store_id s3] pd3 = Some (Status_Ok, pd)"
    and "catalog_wf (pd_metadata pd)" and "pd_ListRegions pd \<noteq> []"
proof -
  let ?st = "\<lambda>port n. (MakeDemoStore port)\<lparr>si_store_id := n\<rparr>"
  have new: "pd_healthy [] (PdServer_new None [])" "catalog_wf (pd_metadata (PdServer_new None []))"
    by (simp_all add: pd_healthy_def pd_saved_def PdServer_new_def catalog_wf_new)
  have ids: "pm_next_store_id (pd_metadata (PdServer_new None [])) = 1" "pm_next_region_id (pd_metadata (PdServer_new None [])) = 1"
    "pm_next_peer_id (pd_metadata (PdServer_new None [])) = 1" by (simp_all add: PdServer_new_def PdMetadataStore_new_def)
  obtain pd1 where 1: "RegisterStore (MakeDemoStore 8101) (PdServer_new None []) = Some (Status_Ok, ?st 8101 1, pd1)" "pd_healthy [] pd1" "catalog_wf (pd_metadata pd1)"
    "pd_metadata pd1 = PdMetadataStore_new\<lparr>pm_next_store_id := 2, pm_stores := fmupd 1 (?st 8101 1) fmempty\<rparr>"
    using register_demo [OF new(1) ids(1) _ _ new(2) ids(2,3), of 8101] by (auto simp: PdServer_new_def PdMetadataStore_new_def)
  have ids: "pm_next_store_id (pd_metadata pd1) = 2" "pm_next_region_id (pd_metadata pd1) = 1" "pm_next_peer_id (pd_metadata pd1) = 1"
    by (simp_all add: 1(4) PdMetadataStore_new_def)
  obtain pd2 where 2: "RegisterStore (MakeDemoStore 8102) pd1 = Some (Status_Ok, ?st 8102 2, pd2)" "pd_healthy [] pd2" "catalog_wf (pd_metadata pd2)"
    "pd_metadata pd2 = PdMetadataStore_new\<lparr>pm_next_store_id := 3, pm_stores := fmupd 2 (?st 8102 2) (fmupd 1 (?st 8101 1) fmempty)\<rparr>"
    using register_demo [OF 1(2) ids(1) _ _ 1(3) ids(2,3), of 8102] by (auto simp: 1(4))
  have ids: "pm_next_store_id (pd_metadata pd2) = 3" "pm_next_region_id (pd_metadata pd2) = 1" "pm_next_peer_id (pd_metadata pd2) = 1"
    by (simp_all add: 2(4) PdMetadataStore_new_def)
  obtain pd3 where 3: "RegisterStore (MakeDemoStore 8103) pd2 = Some (Status_Ok, ?st 8103 3, pd3)" "pd_healthy [] pd3" "catalog_wf (pd_metadata pd3)"
    "pd_metadata pd3 = PdMetadataStore_new\<lparr>pm_next_store_id := 4, pm_stores := fmupd 3 (?st 8103 3) (fmupd 2 (?st 8102 2) (fmupd 1 (?st 8101 1) fmempty))\<rparr>"
    using register_demo [OF 2(2) ids(1) _ _ 2(3) ids(2,3), of 8103] by (auto simp: 2(4))
  let ?stores = "[?st 8101 1, ?st 8102 2, ?st 8103 3]"
  have "\<forall>x \<in> set ?stores. fmlookup (pm_stores (pd_metadata pd3)) (si_store_id x) \<noteq> None" by (simp add: 3(4))
  then obtain pd where pd: "pd_healthy [] pd" "pd_metadata pd = (pd_metadata pd3)\<lparr>pm_next_region_id := 2, pm_next_peer_id := 4,
      pm_regions := fmupd 1 (first_region ?stores) fmempty, pm_by_start := fmupd [] 1 fmempty\<rparr>"
    "BootstrapDefaultRegion (map si_store_id ?stores) pd3 = Some (Status_Ok, pd)"
    by (rule bootstrap_first [OF 3(2) refl _ 3(4)])
  have "catalog_wf (pd_metadata pd)"
    by (rule BootstrapDefaultRegion_wf [OF 3(3) _ pd(3)]) (simp add: id_room_def 3(4) PdMetadataStore_new_def)
  moreover have "pd_ListRegions pd \<noteq> []" by (simp add: pd_ListRegions_def md_ListRegions_def pd(2))
  ultimately show thesis using that [OF 1(1) 2(1) 3(1)] pd(3) by simp
qed

text \<open>
  C24. The demonstration succeeds. On healthy disks, whatever files an earlier run has left, the
  gateway demonstration registers its stores, starts its cluster, writes a key and reads it back
  with a linearizable read, and exits with code 0.
\<close>

theorem gateway_demo_succeeds:
  assumes "healthy_env env"
  shows "RunGatewayDemo env = Some 0"
proof -
  let ?d = "''build/demo-cluster''" and ?k = "''demo:user:1''"
  obtain s1 s2 s3 pd1 pd2 pd3 pd where pd: "RegisterStore (MakeDemoStore 8101) (PdServer_new None []) = Some (Status_Ok, s1, pd1)"
    "RegisterStore (MakeDemoStore 8102) pd1 = Some (Status_Ok, s2, pd2)" "RegisterStore (MakeDemoStore 8103) pd2 = Some (Status_Ok, s3, pd3)"
    "BootstrapDefaultRegion [si_store_id s1, si_store_id s2, si_store_id s3] pd3 = Some (Status_Ok, pd)"
    "catalog_wf (pd_metadata pd)" "pd_ListRegions pd \<noteq> []"
    by (rule demo_catalog)
  obtain c where c: "Bootstrap ?d 3 1 True (SingleRegionCluster_new env) = Some (Status_Ok, c)" "cluster_rel ?d 3 1 1 [] fmempty c"
    using Bootstrap_fresh [of 3 env ?d 1] assms by auto
  have key: "\<not> reserved_key ?k" by (simp add: reserved_key_def)
  have "single_backend ?d 3 1 (Suc 0) fmempty (SingleRef (Some c))"
    using c(2) by (auto simp: single_backend_def region_rel_def intro!: exI [of _ 1] exI [of _ "[]"])
  then have "single.gateway_rel ?d 3 1 pd (Suc 0) fmempty (GatewayServer_new (Some pd) (SingleRef (Some c)))"
    using pd(5,6) by (simp add: single.gateway_rel_def GatewayServer_new_def)
  from single.gateway_put [OF this, of ?k "''alice''"] key obtain g1 where
    g1: "gw_Put ?k ''alice'' (GatewayServer_new (Some pd) (SingleRef (Some c))) = Some (Status_Ok, g1)"
    "single.gateway_rel ?d 3 1 pd 0 (fmupd ?k ''alice'' fmempty) g1" by auto
  from single.gateway_get [OF g1(2) key] obtain g2 where "gw_Get ?k kLinearizable g1 = Some (Inr ''alice'', g2)"
    by (fastforce simp: lookup_result_def)
  with pd(1-4) c(1) g1(1) show ?thesis by (simp add: RunGatewayDemo_def)
qed

theorem gateway_demo_succeeds_witness: "RunGatewayDemo \<lparr>fe_log = (\<lambda>_. ''x''), fe_io = (\<lambda>_. [])\<rparr> = Some 0"
  by (rule gateway_demo_succeeds) (simp add: healthy_env_def)

section \<open>The start of a distributed store\<close>

text \<open>A network that counts the calls.\<close>

definition counted :: "'w tcp \<Rightarrow> ('w \<times> nat) tcp" where
  "counted tcp ep req s = (let (resp, w) = tcp ep req (fst s) in (resp, w, Suc (snd s)))"

lemma counted_call: "snd (snd (CallRpc (counted tcp) ep rpc_method flds rid s)) = Suc (snd s)"
  by (simp add: CallRpc_def counted_def split_beta Let_def)

lemma register_attempts_calls:
  "snd (snd (register_attempts (counted tcp) pd st a k r s)) \<le> snd s + k"
proof (induction k arbitrary: a r s)
  case (Suc k)
  obtain resp s1 where c: "CallRpc (counted tcp) pd ''pd.RegisterStore'' (PutStoreFields fmempty st [])
      (''store-register-'' @ to_string (si_store_id st) @ ''-'' @ show_nat a) s = (resp, s1)" by (metis prod.exhaust)
  then have "snd s1 = Suc (snd s)" using counted_call [of tcp pd "''pd.RegisterStore''" "PutStoreFields fmempty st []" _ s] by (metis snd_conv)
  with c Suc.IH [of "Suc a" resp s1] show ?case by simp
qed simp

lemma await_regions_calls:
  "await_regions (counted tcp) pd expected a k known s = Some (r, s') \<Longrightarrow> snd s' \<le> snd s + 2 * k"
proof (induction k arbitrary: a known s)
  case (Suc k)
  obtain resp s1 where c: "CallRpc (counted tcp) pd ''pd.Status'' fmempty (''store-pd-status-'' @ show_nat a) s = (resp, s1)" by (metis prod.exhaust)
  have n1: "snd s1 = Suc (snd s)" using counted_call [of tcp pd "''pd.Status''" fmempty _ s] c by (metis snd_conv)
  have n2: "snd (snd (CallRpc (counted tcp) pd ''pd.BootstrapDefaultRegion'' f ''store-bootstrap-region'' s1)) = Suc (Suc (snd s))" for f
    using counted_call [of tcp pd _ f _ s1] n1 by simp
  show ?case
  proof (cases "DecodePdStatus resp")
    case (Some known1)
    show ?thesis
    proof (cases known1)
      case None
      then have "await_regions (counted tcp) pd expected (Suc a) k known s1 = Some (r, s')" using Suc.prems c Some by simp
      then show ?thesis using Suc.IH n1 by fastforce
    next
      case (Some known2)
      obtain resp2 s2 where c2: "CallRpc (counted tcp) pd ''pd.BootstrapDefaultRegion'' (bootstrap_fields (fst known2)) ''store-bootstrap-region'' s1 = (resp2, s2)"
        by (metis prod.exhaust)
      then have "snd s2 = Suc (Suc (snd s))" using n2 [of "bootstrap_fields (fst known2)"] by simp
      moreover have "s' = s1 \<or> s' = s2 \<or> await_regions (counted tcp) pd expected (Suc a) k known2 s1 = Some (r, s') \<or>
          await_regions (counted tcp) pd expected (Suc a) k known2 s2 = Some (r, s')"
        using Suc.prems c c2 Some \<open>DecodePdStatus resp = Some known1\<close> by (cases known2) (auto split: if_splits)
      ultimately show ?thesis using Suc.IH [of "Suc a" known2] n1 by fastforce
    qed
  qed (use Suc.prems c in simp)
qed simp

lemma register_attempts_refused:
  assumes "\<And>req w. \<not> rs_ok (fst (tcp pd req w))"
  shows "\<exists>resp w. register_attempts (counted tcp) pd st a (Suc k) r s = (resp, w, snd s + Suc k) \<and> \<not> rs_ok resp"
proof (induction k arbitrary: a r s)
  case 0
  show ?case using assms by (simp add: CallRpc_def counted_def split_beta Let_def)
next
  case (Suc k)
  let ?rid = "''store-register-'' @ to_string (si_store_id st) @ ''-'' @ show_nat a"
  obtain resp s1 where c: "CallRpc (counted tcp) pd ''pd.RegisterStore'' (PutStoreFields fmempty st []) ?rid s = (resp, s1)" by (metis prod.exhaust)
  then have "snd s1 = Suc (snd s)" using counted_call [of tcp pd "''pd.RegisterStore''" "PutStoreFields fmempty st []" _ s] by (metis snd_conv)
  moreover have "\<not> rs_ok resp" using c assms by (auto simp: CallRpc_def counted_def split_beta Let_def)
  then have "register_attempts (counted tcp) pd st a (Suc (Suc k)) r s = register_attempts (counted tcp) pd st (Suc a) (Suc k) resp s1"
    using c by (subst register_attempts.simps(2)) (simp del: register_attempts.simps)
  ultimately show ?case using Suc.IH [of "Suc a" resp s1] by simp
qed

text \<open>
  C21. The start of a distributed store ends. Whatever the placement driver answers, the process
  makes at most 501 calls before it serves or exits; when no call is answered, it makes exactly 100
  attempts to register and exits with code 1.
\<close>

theorem distributed_start_ends:
  fixes tcp :: "'w tcp"
  shows "(\<forall>r w' n. RunDistributedStoreService (counted tcp) config out env (w, 0) = Some (r, w', n) \<longrightarrow> n \<le> 501) \<and>
     (ParseEndpoint (GetStringOr config ''pd.endpoints'' ''127.0.0.1:7000'') 7000 \<noteq> None \<longrightarrow>
      (\<forall>ep req w. \<not> rs_ok (fst (tcp ep req w))) \<longrightarrow>
      (\<exists>w'. RunDistributedStoreService (counted tcp) config out env (w, 0) = Some (Inl 1, w', 100)))"
proof (intro conjI allI impI)
  let ?ep = "ParseEndpoint (GetStringOr config ''pd.endpoints'' ''127.0.0.1:7000'') 7000"
  define st where "st = StoreInfo_default\<lparr>si_store_id := scast (config_GetIntOr config ''store.id'' 0),
      si_client_endpoint := \<lparr>ep_host = GetStringOr config ''store.host'' ''127.0.0.1'', ep_port = config_GetIntOr config ''store.client_port'' 8101\<rparr>,
      si_raft_endpoint := \<lparr>ep_host = GetStringOr config ''store.host'' ''127.0.0.1'', ep_port = config_GetIntOr config ''store.raft_port'' 7101\<rparr>\<rparr>"
  note run = RunDistributedStoreService_def [of "counted tcp" config out env "(w, 0)", unfolded Let_def, folded st_def]
  {
    fix r w' n
    assume r: "RunDistributedStoreService (counted tcp) config out env (w, 0) = Some (r, w', n)"
    then obtain pd where pd: "?ep = Some pd" by (auto simp: run split: option.splits)
    obtain resp s1 where s1: "register_attempts (counted tcp) pd st 0 100 RpcResponse_default (w, 0) = (resp, s1)" by (metis prod.exhaust)
    have n1: "snd s1 \<le> 100" using register_attempts_calls [of tcp pd st 0 100 RpcResponse_default "(w, 0)"] s1 by simp
    have n2: "snd s2 \<le> 500" if "await_regions (counted tcp) pd x 0 200 y s1 = Some (z, s2)" for x y z s2
      using await_regions_calls [OF that] n1 by simp
    have n3: "snd (snd (CallRpc (counted tcp) pd m f i s2)) \<le> 501" if "snd s2 \<le> 500" for m f i s2
      using counted_call [of tcp pd m f i s2] that by simp
    show "n \<le> 501"
    proof (cases "rs_ok resp \<and> (\<exists>flds. DecodeFields (rs_payload resp) = Inr flds \<and> ok (fst (GetStoreFields flds st [])))")
      case False
      then have "s1 = (w', n)" using r by (auto simp: run pd s1 split: sum.splits if_splits prod.splits)
      then show ?thesis using n1 by simp
    next
      case True
      then obtain flds status st1 where ok: "rs_ok resp" "DecodeFields (rs_payload resp) = Inr flds" "GetStoreFields flds st [] = (status, st1)" "ok status"
        by (metis prod.collapse)
      let ?aw = "await_regions (counted tcp) pd (config_GetIntOr config ''cluster.store_count'' 3) 0 200 ([], []) s1"
      obtain x s2 where aw: "?aw = Some (x, s2)" using r ok by (cases ?aw) (auto simp: run pd s1)
      obtain resp3 s3 where c: "CallRpc (counted tcp) pd ''pd.Status'' fmempty ''store-pd-status-final'' s2 = (resp3, s3)" by (metis prod.exhaust)
      have "(w', n) = s2 \<or> (w', n) = s3"
        using r ok aw c by (cases x) (auto simp: run pd s1 split: if_splits option.splits prod.splits)
      moreover have "snd s3 \<le> 501" using n3 [OF n2 [OF aw], of "''pd.Status''" fmempty "''store-pd-status-final''"] c by simp
      ultimately show ?thesis using n2 [OF aw] by auto
    qed
  next
    assume "?ep \<noteq> None" and refused: "\<forall>ep req w. \<not> rs_ok (fst (tcp ep req w))"
    then obtain pd where pd: "?ep = Some pd" by blast
    have hundred: "Suc 99 = 100" by simp
    have "\<exists>resp w'. register_attempts (counted tcp) pd st 0 100 RpcResponse_default (w, 0) = (resp, w', snd (w, 0 :: nat) + 100) \<and> \<not> rs_ok resp"
      by (rule register_attempts_refused [of tcp pd st 0 99 RpcResponse_default "(w, 0)", unfolded hundred]) (use refused in blast)
    then obtain resp w' where "register_attempts (counted tcp) pd st 0 100 RpcResponse_default (w, 0) = (resp, w', 100)" "\<not> rs_ok resp"
      unfolding snd_conv add_0 by blast
    then show "\<exists>w'. RunDistributedStoreService (counted tcp) config out env (w, 0) = Some (Inl 1, w', 100)"
      by (simp add: run pd)
  }
qed

theorem distributed_start_ends_witness:
  "\<exists>w'. RunDistributedStoreService (counted (\<lambda>ep req w. (unreachable req, w))) fmempty all_listen \<lparr>fe_log = (\<lambda>_. []), fe_io = (\<lambda>_. [])\<rparr> ((), 0) =
     Some (Inl 1, w', 100)"
  using distributed_start_ends [of "\<lambda>ep req w. (unreachable req, w)" fmempty all_listen "\<lparr>fe_log = (\<lambda>_. []), fe_io = (\<lambda>_. [])\<rparr>" "()"] by simp

end
