(* ===== verification/System.thy ===== *)
theory System
  imports Server_Start
begin

text \<open>
  The whole system: the placement driver, the store and the gateway processes, started from
  their configurations on empty disks, used through the command line client, and restarted from
  their disks at any time.
\<close>

section \<open>Processes and their restarts\<close>

text \<open>
  What the processes are started with; the network outcomes are those of their listening sockets,
  and the network itself says which process answers at an endpoint and how each connection goes.
\<close>

record system_config =
  sy_pd :: Config
  sy_store :: Config
  sy_gateway :: Config
  sy_pd_out :: listen_outcomes
  sy_store_out :: listen_outcomes
  sy_gateway_out :: listen_outcomes
  sy_dashboard_out :: listen_outcomes
  sy_net :: wires

text \<open>The endpoints of the two clients of the gateway, the gateway, and the processes behind it.\<close>

type_synonym system_state = "(Endpoint \<times> Endpoint) \<times> rpc_cluster GatewayService"

text \<open>\<open>None\<close>: a process does not start.\<close>

definition start_pd :: "system_config \<Rightarrow> PdServer \<Rightarrow> PdServer option" where
  "start_pd cfg pd = (case RunPdService (sy_pd cfg) (sy_pd_out cfg) pd of Some (Inr pd1) \<Rightarrow> Some pd1 | _ \<Rightarrow> None)"

definition start_store :: "system_config \<Rightarrow> file_env \<Rightarrow> MultiRegionCluster \<Rightarrow> PdServer \<Rightarrow> (StoreService \<times> PdServer) option" where
  "start_store cfg env x pd =
     (case RunStoreService (pd_dial (sy_net cfg)) (sy_store cfg) (sy_store_out cfg) env x pd of Some (Inr sv, pd1) \<Rightarrow> Some (sv, pd1) | _ \<Rightarrow> None)"

definition start_gateway :: "system_config \<Rightarrow> ((Endpoint \<times> Endpoint) \<times> RpcGatewayClient) option" where
  "start_gateway cfg =
     (case RunGatewayService (sy_gateway cfg) (sy_gateway_out cfg) (sy_dashboard_out cfg) of
        Some (Inr (pd_endpoint, store_endpoint, g)) \<Rightarrow> Some ((pd_endpoint, store_endpoint), g)
      | _ \<Rightarrow> None)"

text \<open>The first start, with empty disks.\<close>

definition no_files :: file_env where
  "no_files = \<lparr>fe_log = (\<lambda>_. []), fe_io = (\<lambda>_. [])\<rparr>"

definition start_system :: "system_config \<Rightarrow> system_state option" where
  "start_system cfg =
     (case start_pd cfg (PdServer_new None []) of
        None \<Rightarrow> None
      | Some pd \<Rightarrow>
          (case start_store cfg no_files (MultiRegionCluster_new no_files (\<lambda>_. None) []) pd of
             None \<Rightarrow> None
           | Some (sv, pd1) \<Rightarrow>
               map_option (\<lambda>(eps, g). (eps, Some g, \<lparr>rc_pd = pd1, rc_store = sv\<rparr>)) (start_gateway cfg)))"

datatype system_op = Invoke cli_op | RestartPd | RestartStore | RestartGateway

text \<open>A restarted process keeps its files and nothing else.\<close>

fun system_step :: "system_config \<Rightarrow> system_op \<Rightarrow> system_state \<Rightarrow> (cli_result list \<times> system_state) option" where
  "system_step cfg (Invoke op) (eps, s) =
     map_option (\<lambda>(r, s'). ([r], eps, s'))
       (cli_main (gateway_tcp (sy_net cfg) (wired (sy_net cfg) (fst eps) (snd eps))) (cli_argv op) s)"
| "system_step cfg RestartPd (eps, g, w) =
     map_option (\<lambda>pd. ([], eps, g, w\<lparr>rc_pd := pd\<rparr>)) (start_pd cfg (PdServer_new (pd_catalog (rc_pd w)) (pd_io (rc_pd w))))"
| "system_step cfg RestartStore (eps, g, w) =
     (case sv_multi_cluster (rc_store w) of
        None \<Rightarrow> None
      | Some x \<Rightarrow> map_option (\<lambda>(sv, pd). ([], eps, g, \<lparr>rc_pd = pd, rc_store = sv\<rparr>)) (start_store cfg no_files (mr_close x) (rc_pd w)))"
| "system_step cfg RestartGateway (eps, g, w) = map_option (\<lambda>(eps1, g1). ([], eps1, Some g1, w)) (start_gateway cfg)"

fun system_run :: "system_config \<Rightarrow> system_op list \<Rightarrow> system_state \<Rightarrow> (cli_result list \<times> system_state) option" where
  "system_run cfg [] s = Some ([], s)"
| "system_run cfg (op # ops) s =
     (case system_step cfg op s of
        None \<Rightarrow> None
      | Some (rs, s1) \<Rightarrow> map_option (map_prod (\<lambda>rs1. rs @ rs1) id) (system_run cfg ops s1))"

fun invocations :: "system_op list \<Rightarrow> cli_op list" where
  "invocations [] = []"
| "invocations (Invoke op # ops) = op # invocations ops"
| "invocations (_ # ops) = invocations ops"

section \<open>Restarting the placement driver\<close>

lemma pd_restarts:
  assumes "pd_room p e j s" and "listens (sy_pd_out cfg)" and "GetStringOr (sy_pd cfg) ''pd.data_dir'' ''./data/pd1'' = e" and "e \<noteq> []"
  shows "\<exists>s'. start_pd cfg (PdServer_new (pd_catalog s) (pd_io s)) = Some s' \<and> pd_room p e j s' \<and> pd_metadata s' = strip_labels (pd_metadata s)"
proof -
  let ?text = "EncodeFields (catalog_fields (pd_metadata s))"
  let ?s' = "(PdServer_new (Some ?text) [])\<lparr>pd_data_dir := e, pd_metadata := strip_labels (pd_metadata s)\<rparr>"
  have s: "pd_catalog s = Some ?text" "pd_io s = []" "catalog_wf (pd_metadata s)"
    using assms(1,4) by (auto simp: pd_room_def pd_saved_def)
  then have "pd_Open e (PdServer_new (pd_catalog s) (pd_io s)) = Some (Status_Ok, ?s')"
    by (simp add: pd_Open_def pd_next_io_def PdServer_new_def Load_catalog)
  then have "start_pd cfg (PdServer_new (pd_catalog s) (pd_io s)) = Some ?s'"
    using assms(2,3) by (simp add: start_pd_def RunPdService_def pd_RegisterHandlers_def split_beta pd_rpc.register_ok)
  moreover have "pd_room p e j ?s'"
    using assms(1) by (simp add: pd_room_def pd_saved_def PdServer_new_def catalog_wf_strip catalog_fields_strip pd_ListRegions_def md_ListRegions_def)
  ultimately show ?thesis by auto
qed

lemma routable_more:
  assumes "routable p c s" and "pd_ListRegions s' = pd_ListRegions s"
    and "\<And>i st. fmlookup (pm_stores (pd_metadata s)) i = Some st \<Longrightarrow> si_labels st = fmempty \<Longrightarrow> fmlookup (pm_stores (pd_metadata s')) i = Some st"
  shows "routable p c s'"
proof -
  have "si_labels (StoreInfo_default\<lparr>si_store_id := i, si_client_endpoint := c\<rparr>) = fmempty" for i by (simp add: StoreInfo_default_def)
  then show ?thesis using assms(1,3) unfolding routable_def assms(2) md_GetStore_def by blast
qed

lemma routable_restart:
  assumes "routable p c s" and "pd_metadata s' = strip_labels (pd_metadata s)"
  shows "routable p c s'"
  by (rule routable_more [OF assms(1)]) (simp_all add: assms(2) pd_ListRegions_def md_ListRegions_def strip_def)

section \<open>Restarting the store\<close>

text \<open>The catalog after three more registrations: three new stores under the next ids, everything else as it was.\<close>

definition registered_again :: "Config \<Rightarrow> PdMetadataStore \<Rightarrow> PdMetadataStore \<Rightarrow> bool" where
  "registered_again cfg m m' \<longleftrightarrow>
     (let n = pm_next_store_id m
      in m' = m\<lparr>pm_next_store_id := n + 3,
           pm_stores := fmupd (n + 2) (local_store cfg 2 (n + 2)) (fmupd (n + 1) (local_store cfg 1 (n + 1))
             (fmupd n (local_store cfg 0 n) (pm_stores m)))\<rparr> \<and>
         fmlookup (pm_stores m) n = None \<and> fmlookup (pm_stores m) (n + 1) = None \<and> fmlookup (pm_stores m) (n + 2) = None)"

lemma store_restarts:
  assumes w: "multi_world 3 p d e c (Suc j) m w" "rc_store w = StoreService_multi (Some x)"
    and cfg: "listens (sy_store_out cfg)" "GetStringOr (sy_store cfg) ''store.mode'' [] \<noteq> ''distributed''"
      "ParseEndpoint (GetStringOr (sy_store cfg) ''pd.endpoints'' ''127.0.0.1:7000'') 7000 = Some ep"
      "GetStringOr (sy_store cfg) ''store.data_dir'' ''./data/store1'' = d"
    and net: "delivers (pd_dial (sy_net cfg)) ep" "short (GetStringOr (sy_store cfg) ''store.host'' ''127.0.0.1'')"
  shows "\<exists>sv pd. start_store cfg env (mr_close x) (rc_pd w) = Some (sv, pd) \<and> multi_world 3 p d e c j m \<lparr>rc_pd = pd, rc_store = sv\<rparr> \<and>
     registered_again (sy_store cfg) (pd_metadata (rc_pd w)) (pd_metadata pd)"
proof -
  let ?s = "rc_pd w" and ?c = "sy_store cfg"
  obtain M where x: "multi_inv 3 (Suc j) M m x" "agreed ?s x" "pd_room p e (Suc j) ?s" "mr_data_dir x = d"
    "routable p c ?s" "short_values m"
    using w by (auto simp: multi_world_def StoreService_multi_def)
  define n where "n = pm_next_store_id (pd_metadata ?s)"
  have s: "pd_healthy e ?s" "0 < n" "unat n + 3 * Suc j + 1 < 2 ^ 64" "catalog_wf (pd_metadata ?s)" "unat (pm_next_region_id (pd_metadata ?s)) + 1 < 2 ^ 64"
      "unat (pm_next_peer_id (pd_metadata ?s)) < 2 ^ 64"
    using x(3) catalog_wf_pos [of "pd_metadata ?s"] by (auto simp: pd_room_def pd_healthy_def n_def)
  let ?a = "local_store ?c 0 n" and ?b = "local_store ?c 1 (n + 1)" and ?d = "local_store ?c 2 (n + 2)"
  have "unat n + 3 < 2 ^ 64" using s(3) by simp
  then obtain pd where pd: "register_stores (pd_dial (sy_net cfg)) ep ?c [0, 1, 2] ?s = (Inr [?a, ?b, ?d], pd)" "pd_healthy e pd"
    "pd_metadata pd = (pd_metadata ?s)\<lparr>pm_next_store_id := n + 3, pm_stores := fmupd (n + 2) ?d (fmupd (n + 1) ?b (fmupd n ?a (pm_stores (pd_metadata ?s))))\<rparr>"
    "catalog_wf (pd_metadata ?s) \<and> id_room 0 ?s \<longrightarrow> catalog_wf (pd_metadata pd)"
    by (rule register_three [OF s(1) n_def [symmetric] s(2) _ net])
  have "n \<noteq> - 1" "pm_next_region_id (pd_metadata ?s) \<noteq> - 1"
    using s(3,5) unat_Suc_bound [of n] unat_Suc_bound [of "pm_next_region_id (pd_metadata ?s)"] by auto
  then have wf: "catalog_wf (pd_metadata pd)" using pd(4) s(4,6) by (simp add: id_room_def n_def)
  have old: "i \<noteq> n \<and> i \<noteq> n + 1 \<and> i \<noteq> n + 2" if "fmlookup (pm_stores (pd_metadata ?s)) i = Some st" for i st
  proof -
    have "i < n" using that s(4) by (auto simp: catalog_wf_def ids_wf_def n_def)
    then have "unat i < unat n" by (simp add: word_less_nat_alt)
    moreover have "unat (n + 1) = unat n + 1" "unat (n + 2) = unat n + 2" using unat_add_bound [of n 1] unat_add_bound [of n 2] s(3) by simp_all
    ultimately show ?thesis by auto
  qed
  then have none: "fmlookup (pm_stores (pd_metadata ?s)) n = None" "fmlookup (pm_stores (pd_metadata ?s)) (n + 1) = None"
    "fmlookup (pm_stores (pd_metadata ?s)) (n + 2) = None"
    by (metis option.exhaust)+
  have regs: "pd_ListRegions pd = pd_ListRegions ?s" by (simp add: pd_ListRegions_def md_ListRegions_def pd(3))
  have route: "routable p c pd"
  proof (rule routable_more [OF x(5) regs])
    fix i st
    assume i: "fmlookup (pm_stores (pd_metadata ?s)) i = Some st"
    with old [OF i] show "fmlookup (pm_stores (pd_metadata pd)) i = Some st" by (auto simp: pd(3))
  qed
  have n3: "unat (n + 3) = unat n + 3" using unat_add_bound [of n 3] s(3) by simp
  have room: "pd_room p e j pd"
    using pd_room_mono [of p e 1 j ?s] x(3) pd(2) wf s(3) n3 unfolding pd_room_def regs by (simp add: pd(3) pd_healthy_def)
  have rid: "length ''store-bootstrap'' \<le> 100" by simp
  have "md_ListRegions (pd_metadata pd) \<noteq> []" using agreed_regions_nonempty [OF x(2,1)] regs by (simp add: pd_ListRegions_def)
  then obtain resp where resp: "CallRpc (pd_dial (sy_net cfg)) ep ''pd.BootstrapDefaultRegion'' (bootstrap_fields [?a, ?b, ?d]) ''store-bootstrap'' pd = (resp, pd)" "rs_ok resp"
    by (rule bootstrap_again [OF _ refl net(1) rid])
  obtain x' where x': "mr_Bootstrap d 3 [default_region] False (mr_close x) = Some (Status_Ok, x')" "multi_inv 3 j M m x'"
    "mr_regions x' = mr_regions x" "mr_data_dir x' = d"
    using multi_restart_inv [OF x(1), of "[default_region]"] x(4) by auto
  have "agreed pd x'" using x(2) unfolding agreed_def regs x'(3) by (simp add: pd(3))
  then have "multi_world 3 p d e c j m \<lparr>rc_pd = pd, rc_store = StoreService_multi (Some x')\<rparr>"
    using room x'(2,4) x(6) route by (auto simp: multi_world_def)
  moreover have "start_store cfg env (mr_close x) ?s = Some (StoreService_multi (Some x'), pd)"
    using cfg pd(1) resp x'(1) by (simp add: start_store_def RunStoreService_def RunEmbeddedStoreService_def)
  moreover have "registered_again ?c (pd_metadata ?s) (pd_metadata pd)"
    using pd(3) none by (simp add: registered_again_def Let_def n_def)
  ultimately show ?thesis by blast
qed

section \<open>The system is a map\<close>

text \<open>
  The sockets listen, the endpoints can be read and belong to the processes they should, the
  command line client and the store are where they are looked for, connections do not fail, the
  store is not in distributed mode, the data directory of the placement driver is not the empty
  path, and the dashboard starts if it is on.
\<close>

definition leads_to :: "wires \<Rightarrow> process \<Rightarrow> Endpoint option \<Rightarrow> bool" where
  "leads_to net q ep \<longleftrightarrow> (case ep of None \<Rightarrow> False | Some ep \<Rightarrow> wr_at net ep = Some q)"

definition startable :: "system_config \<Rightarrow> bool" where
  "startable cfg \<longleftrightarrow> listens (sy_pd_out cfg) \<and> listens (sy_store_out cfg) \<and> listens (sy_gateway_out cfg) \<and>
     GetStringOr (sy_pd cfg) ''pd.data_dir'' ''./data/pd1'' \<noteq> [] \<and>
     GetStringOr (sy_store cfg) ''store.mode'' [] \<noteq> ''distributed'' \<and>
     leads_to (sy_net cfg) PdProcess (ParseEndpoint (GetStringOr (sy_store cfg) ''pd.endpoints'' ''127.0.0.1:7000'') 7000) \<and>
     leads_to (sy_net cfg) PdProcess (ParseEndpoint (GetStringOr (sy_gateway cfg) ''pd.endpoints'' ''127.0.0.1:7000'') 7000) \<and>
     leads_to (sy_net cfg) StoreProcess (ParseEndpoint (GetStringOr (sy_gateway cfg) ''store.endpoint'' ''127.0.0.1:8101'') 8101) \<and>
     leads_to (sy_net cfg) StoreProcess (Some (registered_endpoint (sy_store cfg))) \<and>
     short (GetStringOr (sy_store cfg) ''store.host'' ''127.0.0.1'') \<and> gateway_up (sy_net cfg) \<and>
     (GetStringOr (sy_gateway cfg) ''dashboard.enabled'' ''false'' = ''true'' \<longrightarrow> listens (sy_dashboard_out cfg))"

definition system_rel :: "system_config \<Rightarrow> nat \<Rightarrow> kv_map \<Rightarrow> system_state \<Rightarrow> bool" where
  "system_rel cfg j m s \<longleftrightarrow>
     (\<exists>pd_ep st_ep g w. s = ((pd_ep, st_ep), Some g, w) \<and> rpc_backend.cache_ok (pred_option ((=) (registered_endpoint (sy_store cfg)))) g \<and>
        net_world (sy_net cfg) pd_ep st_ep 3 3 (GetStringOr (sy_store cfg) ''store.data_dir'' ''./data/store1'')
          (GetStringOr (sy_pd cfg) ''pd.data_dir'' ''./data/pd1'') (registered_endpoint (sy_store cfg)) j m w)"

lemma gateway_starts:
  assumes "startable cfg"
  obtains pd_ep st_ep g where "start_gateway cfg = Some ((pd_ep, st_ep), g)" and "connected (sy_net cfg) pd_ep st_ep (registered_endpoint (sy_store cfg))"
    and "rpc_backend.cache_ok (pred_option ((=) (registered_endpoint (sy_store cfg)))) g"
proof -
  obtain pd_ep st_ep where ep: "ParseEndpoint (GetStringOr (sy_gateway cfg) ''pd.endpoints'' ''127.0.0.1:7000'') 7000 = Some pd_ep"
      "ParseEndpoint (GetStringOr (sy_gateway cfg) ''store.endpoint'' ''127.0.0.1:8101'') 8101 = Some st_ep"
      "wr_at (sy_net cfg) pd_ep = Some PdProcess" "wr_at (sy_net cfg) st_ep = Some StoreProcess"
    using assms by (auto simp: startable_def leads_to_def split: option.splits)
  let ?g = "RpcGatewayClient_new (GetStringOr (sy_gateway cfg) ''gateway.store_routing'' [] = ''dynamic'')"
  have "start_gateway cfg = Some ((pd_ep, st_ep), ?g)"
    using assms ep(1,2) by (auto simp: startable_def start_gateway_def RunGatewayService_def Let_def)
  moreover have "connected (sy_net cfg) pd_ep st_ep (registered_endpoint (sy_store cfg))"
    using assms ep(3,4) by (simp add: connected_def startable_def leads_to_def gateway_up_def)
  ultimately show thesis using that rpc.cache_ok_new by blast
qed

lemma startable_pd:
  assumes "startable cfg"
  obtains ep where "ParseEndpoint (GetStringOr (sy_store cfg) ''pd.endpoints'' ''127.0.0.1:7000'') 7000 = Some ep"
    and "delivers (pd_dial (sy_net cfg)) ep" and "short (GetStringOr (sy_store cfg) ''store.host'' ''127.0.0.1'')"
    and "listens (sy_pd_out cfg)" and "listens (sy_store_out cfg)" and "GetStringOr (sy_store cfg) ''store.mode'' [] \<noteq> ''distributed''"
  using assms pd_dial_delivers by (auto simp: startable_def leads_to_def gateway_up_def split: option.splits)

lemma system_starts:
  assumes "startable cfg" and "3 * j + 5 < 2 ^ 64"
  shows "\<exists>s. start_system cfg = Some s \<and> system_rel cfg j fmempty s"
proof -
  obtain ep where c: "ParseEndpoint (GetStringOr (sy_store cfg) ''pd.endpoints'' ''127.0.0.1:7000'') 7000 = Some ep"
    "delivers (pd_dial (sy_net cfg)) ep" "short (GetStringOr (sy_store cfg) ''store.host'' ''127.0.0.1'')"
    "listens (sy_pd_out cfg)" "listens (sy_store_out cfg)" "GetStringOr (sy_store cfg) ''store.mode'' [] \<noteq> ''distributed''"
    by (rule startable_pd [OF assms(1)])
  have env: "healthy_env no_files" "fe_log no_files = (\<lambda>_. [])" by (simp_all add: healthy_env_def no_files_def)
  obtain pd0 where pd0: "RunPdService (sy_pd cfg) (sy_pd_out cfg) (PdServer_new None []) = Some (Inr pd0)" "pd_metadata pd0 = PdMetadataStore_new"
    "pd_healthy (GetStringOr (sy_pd cfg) ''pd.data_dir'' ''./data/pd1'') pd0"
    by (rule pd_starts [OF c(4)])
  obtain pd_ep st_ep g where g: "start_gateway cfg = Some ((pd_ep, st_ep), g)" "connected (sy_net cfg) pd_ep st_ep (registered_endpoint (sy_store cfg))"
    "rpc_backend.cache_ok (pred_option ((=) (registered_endpoint (sy_store cfg)))) g"
    by (rule gateway_starts [OF assms(1)])
  with store_starts [OF c(5,6) env pd0(2,3) assms(2) c(1-3)] pd0(1) show ?thesis
    by (auto simp: start_system_def start_pd_def start_store_def system_rel_def net_world_def)
qed

lemma system_step_rel:
  assumes cfg: "startable cfg" and s: "system_rel cfg (Suc j) m s" and op: "\<forall>q \<in> set (invocations [op]). cli_op_ok q"
  shows "\<exists>rs s'. system_step cfg op s = Some (rs, s') \<and> cli_agrees (invocations [op]) rs m \<and> system_rel cfg j (fold cli_map (invocations [op]) m) s'"
proof -
  let ?d = "GetStringOr (sy_store cfg) ''store.data_dir'' ''./data/store1''" and ?e = "GetStringOr (sy_pd cfg) ''pd.data_dir'' ''./data/pd1''"
    and ?c = "registered_endpoint (sy_store cfg)" and ?net = "sy_net cfg"
  obtain pd_ep st_ep g w where gw: "s = ((pd_ep, st_ep), Some g, w)" and g: "rpc_backend.cache_ok (pred_option ((=) ?c)) g"
    and nw: "net_world ?net pd_ep st_ep 3 3 ?d ?e ?c (Suc j) m w"
    using s by (auto simp: system_rel_def)
  then have con: "connected ?net pd_ep st_ep ?c" and w: "multi_world 3 3 ?d ?e ?c (Suc j) m w" by (simp_all add: net_world_def)
  then have w': "multi_world 3 3 ?d ?e ?c j m w" using multi_world_mono [of 3 3 ?d ?e ?c 1 j] by simp
  obtain x M where x: "rc_store w = StoreService_multi (Some x)" "multi_inv 3 j M m x" "agreed (rc_pd w) x" "pd_room 3 ?e j (rc_pd w)" "mr_data_dir x = ?d"
    "routable 3 ?c (rc_pd w)" "short_values m"
    by (rule multi_worldE [OF w']) blast
  obtain ep where c: "ParseEndpoint (GetStringOr (sy_store cfg) ''pd.endpoints'' ''127.0.0.1:7000'') 7000 = Some ep"
    "delivers (pd_dial ?net) ep" "short (GetStringOr (sy_store cfg) ''store.host'' ''127.0.0.1'')"
    "listens (sy_pd_out cfg)" "listens (sy_store_out cfg)" "GetStringOr (sy_store cfg) ''store.mode'' [] \<noteq> ''distributed''"
    by (rule startable_pd [OF cfg])
  show ?thesis
  proof (cases op)
    case (Invoke q)
    have "gateway_up ?net" using cfg by (simp add: startable_def)
    from rpc.cli_step [OF this nw g, of q] Invoke op gw show ?thesis by (fastforce simp: system_rel_def)
  next
    case RestartPd
    obtain pd where pd: "start_pd cfg (PdServer_new (pd_catalog (rc_pd w)) (pd_io (rc_pd w))) = Some pd" "pd_room 3 ?e j pd"
      "pd_metadata pd = strip_labels (pd_metadata (rc_pd w))"
      using pd_restarts [OF x(4), of cfg] cfg by (auto simp: startable_def)
    then have "agreed pd x" using x(3) by (simp add: agreed_def pd_ListRegions_def md_ListRegions_def)
    then show ?thesis
      using RestartPd pd(1,2) x con g gw routable_restart [OF x(6) pd(3)] by (auto simp: system_rel_def net_world_def multi_world_def)
  next
    case RestartStore
    then show ?thesis
      using store_restarts [OF w x(1) c(5,6,1) refl c(2,3), of no_files] x(1) con g gw by (auto simp: system_rel_def net_world_def)
  next
    case RestartGateway
    moreover obtain pd1 st1 g1 where "start_gateway cfg = Some ((pd1, st1), g1)" "connected ?net pd1 st1 ?c" "rpc_backend.cache_ok (pred_option ((=) ?c)) g1"
      by (rule gateway_starts [OF cfg])
    ultimately show ?thesis using gw w' by (simp add: system_rel_def net_world_def)
  qed
qed

lemma cli_agrees_append:
  "cli_agrees ops rs m \<Longrightarrow> cli_agrees ops' rs' (fold cli_map ops m) \<Longrightarrow> cli_agrees (ops @ ops') (rs @ rs') m"
  by (induction ops rs m rule: cli_agrees.induct) auto

lemma invocations_Cons: "invocations (op # ops) = invocations [op] @ invocations ops"
  by (cases op) auto

lemma system_run_rel:
  assumes "startable cfg" and "system_rel cfg (length ops + j) m s" and "\<forall>op \<in> set (invocations ops). cli_op_ok op"
  shows "\<exists>rs s'. system_run cfg ops s = Some (rs, s') \<and> cli_agrees (invocations ops) rs m \<and>
     system_rel cfg j (fold cli_map (invocations ops) m) s'"
  using assms(2,3)
proof (induction ops arbitrary: m s)
  case (Cons op ops)
  have ok: "\<forall>q \<in> set (invocations [op]). cli_op_ok q" "\<forall>q \<in> set (invocations ops). cli_op_ok q"
    using Cons.prems(2) unfolding invocations_Cons [of op ops] by auto
  obtain rs1 s1 where 1: "system_step cfg op s = Some (rs1, s1)" "cli_agrees (invocations [op]) rs1 m"
    "system_rel cfg (length ops + j) (fold cli_map (invocations [op]) m) s1"
    using system_step_rel [OF assms(1), of "length ops + j" m s op] Cons.prems(1) ok(1) by auto
  from Cons.IH [OF 1(3) ok(2)] obtain rs s' where "system_run cfg ops s1 = Some (rs, s')"
    "cli_agrees (invocations ops) rs (fold cli_map (invocations [op]) m)"
    "system_rel cfg j (fold cli_map (invocations ops) (fold cli_map (invocations [op]) m)) s'"
    by blast
  with 1 cli_agrees_append [OF 1(2)] show ?case unfolding invocations_Cons [of op ops] by simp
qed simp

text \<open>
  C1. The whole system, from its first start and through restarts, is a map. The placement driver,
  store and gateway processes (the store not in distributed mode) start on empty healthy disks, on
  a network that connects the configured endpoints and cuts the streams of bytes as it likes. Then, in any sequence of \<open>put\<close>, \<open>get\<close>, \<open>delete\<close> and \<open>split\<close> invocations of the command line client and
  of restarts of each process from its files, no invocation crashes or hangs, and together they
  print and exit as they do for a map: \<open>put\<close> and \<open>delete\<close> print \<open>OK\<close>, \<open>get\<close> prints the value last
  put or fails with \<open>KEY_NOT_FOUND\<close>, whatever regions the splits have made and however stale the
  routes cached in the gateway are, with fixed and with dynamic store routing. Keys that are written
  are non-empty and outside the reserved prefixes, keys and values are at most 1 MiB long so that
  every message fits in a frame, and the bound on the number of steps keeps the 64-bit ids from
  wrapping.
\<close>

theorem system_serves_map:
  assumes "startable cfg" and "\<forall>op \<in> set (invocations ops). cli_op_ok op" and "3 * length ops + 5 < 2 ^ 64"
  shows "\<exists>s0 rs s. start_system cfg = Some s0 \<and> system_run cfg ops s0 = Some (rs, s) \<and> cli_agrees (invocations ops) rs fmempty"
proof -
  obtain s0 where "start_system cfg = Some s0" "system_rel cfg (length ops + 0) fmempty s0"
    using system_starts [OF assms(1,3)] by auto
  then show ?thesis using system_run_rel [OF assms(1) _ assms(2)] by blast
qed

definition default_net :: wires where
  "default_net =
     \<lparr>wr_at = (\<lambda>ep. if ep_host ep \<noteq> ''127.0.0.1'' then None
                  else if ep_port ep = 7000 then Some PdProcess
                  else if ep_port ep = 8101 then Some StoreProcess
                  else if ep_port ep = 18080 then Some GatewayProcess else None),
      wr_conn = (\<lambda>_ _. slow_connection)\<rparr>"

definition default_system :: system_config where
  "default_system = \<lparr>sy_pd = fmempty, sy_store = fmempty, sy_gateway = fmupd ''gateway.store_routing'' ''dynamic'' fmempty,
     sy_pd_out = all_listen, sy_store_out = all_listen, sy_gateway_out = all_listen, sy_dashboard_out = all_listen, sy_net = default_net\<rparr>"

lemma default_system_startable: "startable default_system"
proof -
  have "GetStringOr (fmupd ''gateway.store_routing'' ''dynamic'' fmempty) k d = d" if "k \<noteq> ''gateway.store_routing''" for k d
    using that by (simp add: GetStringOr_def GetString_def)
  moreover have "config_GetIntOr fmempty ''store.client_port'' 8101 = 8101" by (simp add: config_GetIntOr_def GetString_def)
  ultimately show ?thesis
    by (simp add: startable_def default_system_def default_net_def listens_def all_listen_def leads_to_def registered_endpoint_def
        gateway_up_def default_gateway_def short_def slow_reliable)
qed

theorem system_serves_map_witness:
  "\<exists>s0 rs s. start_system default_system = Some s0 \<and>
     system_run default_system [Invoke (CliPut ''x'' ''1''), RestartStore, Invoke (CliSplit 1 ''m''), RestartPd, Invoke (CliGet ''x'')] s0 = Some (rs, s) \<and>
     cli_agrees [CliPut ''x'' ''1'', CliSplit 1 ''m'', CliGet ''x''] rs fmempty"
  using system_serves_map [OF default_system_startable,
      of "[Invoke (CliPut ''x'' ''1''), RestartStore, Invoke (CliSplit 1 ''m''), RestartPd, Invoke (CliGet ''x'')]"]
  by (simp add: reserved_key_def short_def)

text \<open>
  C40. A restart of the store process registers its three stores again, under new ids. In every
  state the system reaches by invocations of the client and restarts, the process sends no id of
  its own when it is restarted, so the placement driver puts three more stores into the catalog,
  with the configured endpoints, under the next three ids, which no store had; the old stores,
  the regions and the other counters stay as they were.
\<close>

theorem store_restart_allocates_stores:
  assumes "startable cfg" and "\<forall>op \<in> set (invocations ops). cli_op_ok op" and "3 * length ops + 8 < 2 ^ 64"
  shows "\<exists>s0 rs s s1. start_system cfg = Some s0 \<and> system_run cfg ops s0 = Some (rs, s) \<and>
     system_step cfg RestartStore s = Some ([], s1) \<and>
     (let m = pd_metadata (rc_pd (snd (snd s))); m' = pd_metadata (rc_pd (snd (snd s1))); n = pm_next_store_id m
      in m' = m\<lparr>pm_next_store_id := n + 3,
           pm_stores := fmupd (n + 2) (local_store (sy_store cfg) 2 (n + 2)) (fmupd (n + 1) (local_store (sy_store cfg) 1 (n + 1))
             (fmupd n (local_store (sy_store cfg) 0 n) (pm_stores m)))\<rparr> \<and>
         (\<forall>i st. fmlookup (pm_stores m) i = Some st \<longrightarrow> fmlookup (pm_stores m') i = Some st))"
proof -
  let ?d = "GetStringOr (sy_store cfg) ''store.data_dir'' ''./data/store1''" and ?e = "GetStringOr (sy_pd cfg) ''pd.data_dir'' ''./data/pd1''"
  obtain s0 where s0: "start_system cfg = Some s0" "system_rel cfg (length ops + Suc 0) fmempty s0"
    using system_starts [OF assms(1), of "length ops + Suc 0"] assms(3) by auto
  obtain rs s m where s: "system_run cfg ops s0 = Some (rs, s)" "system_rel cfg (Suc 0) m s"
    using system_run_rel [OF assms(1) s0(2) assms(2)] by blast
  then obtain eps g w where gw: "s = (eps, g, w)" and w: "multi_world 3 3 ?d ?e (registered_endpoint (sy_store cfg)) (Suc 0) m w"
    by (auto simp: system_rel_def net_world_def)
  then obtain x where x: "rc_store w = StoreService_multi (Some x)" by (auto simp: multi_world_def)
  obtain ep where c: "ParseEndpoint (GetStringOr (sy_store cfg) ''pd.endpoints'' ''127.0.0.1:7000'') 7000 = Some ep"
    "delivers (pd_dial (sy_net cfg)) ep" "short (GetStringOr (sy_store cfg) ''store.host'' ''127.0.0.1'')"
    "listens (sy_pd_out cfg)" "listens (sy_store_out cfg)" "GetStringOr (sy_store cfg) ''store.mode'' [] \<noteq> ''distributed''"
    by (rule startable_pd [OF assms(1)])
  from store_restarts [OF w x c(5,6,1) refl c(2,3), of no_files] obtain sv pd where
    sv: "start_store cfg no_files (mr_close x) (rc_pd w) = Some (sv, pd)" and again: "registered_again (sy_store cfg) (pd_metadata (rc_pd w)) (pd_metadata pd)"
    by blast
  have step: "system_step cfg RestartStore s = Some ([], eps, g, \<lparr>rc_pd = pd, rc_store = sv\<rparr>)" using sv x gw by simp
  show ?thesis
    using s0(1) s(1) step again
    by (intro exI [of _ s0] exI [of _ rs] exI [of _ s] exI [of _ "(eps, g, \<lparr>rc_pd = pd, rc_store = sv\<rparr>)"])
       (auto simp: gw registered_again_def Let_def)
qed

text \<open>A second restart, after a write and a first restart.\<close>

theorem store_restart_allocates_stores_witness:
  "\<exists>s0 rs s s1. start_system default_system = Some s0 \<and> system_run default_system [Invoke (CliPut ''a'' ''1''), RestartStore] s0 = Some (rs, s) \<and>
     system_step default_system RestartStore s = Some ([], s1) \<and>
     pm_next_store_id (pd_metadata (rc_pd (snd (snd s1)))) = pm_next_store_id (pd_metadata (rc_pd (snd (snd s)))) + 3 \<and>
     fmlookup (pm_stores (pd_metadata (rc_pd (snd (snd s1))))) (pm_next_store_id (pd_metadata (rc_pd (snd (snd s))))) \<noteq> None"
proof -
  have "\<forall>op \<in> set (invocations [Invoke (CliPut ''a'' ''1''), RestartStore]). cli_op_ok op"
    by (simp add: reserved_key_def short_def)
  from store_restart_allocates_stores [OF default_system_startable this] show ?thesis
    by (fastforce simp: Let_def)
qed

end
