(* ===== verification/Spec2Isabelle.thy ===== *)
theory Spec2Isabelle
  imports
    Kv_Command Raft_Node Raft_Storage Snapshot Pd_Service Single_Region_Peers Multi_Region_Map
    Gateway_Server Tcp_Rpc Distributed_Failures Server_Exits System
begin

text \<open>
  RStone is a key-value store replicated with Raft. Keys are divided into regions; every region
  has a group of peers, one on each of several stores, which agree on a log of commands and apply
  it to a key-value engine. A placement driver (PD) keeps the catalog of stores and regions.
  A gateway finds the region of a key and forwards the call of a client to it.

  \<^bold>\<open>Parts, theories and sources\<close> (paths under src/, headers under include/rstone/).

  \<^item> \<open>Prelude\<close> has the words, maps and lists that the theories share (\<open>std::map\<close> is a finite map
    that is read in key order by \<open>entries\<close>), \<open>Cpp_Text\<close> the parts of the standard library that the
    code uses on text: numbers, lines, and extraction from streams.
  \<^item> \<open>Common_Types\<close> is common/error_code.h, status.h and types.h: codes, statuses, endpoints, stores,
    peers and regions. \<open>Region\<close> is region/region.cpp: key ranges and epochs.
  \<^item> \<open>Kv_Engine\<close> and \<open>File_Kv_Engine\<close> are storage/kv_engine.h and file_kv_engine.cpp: an ordered map
    with an append-only log file. \<open>Kv_Command\<close> is storage/kv_command.cpp: the commands of the log.
  \<^item> \<open>Raft_Node\<close> is raft/raft_node.cpp: roles, terms, votes and the log of one peer. \<open>Raft_Storage\<close> is
    raft_storage.cpp: hard state and log in an engine. \<open>Snapshot\<close> is snapshot.cpp.
  \<^item> \<open>Rpc_Codec\<close> is rpc/rpc_codec.cpp and in_process_rpc.cpp: field maps, requests, responses and the
    registry of handlers. \<open>Tcp_Rpc\<close> is tcp_rpc.cpp: frames on a socket and the client and server
    around them, \<open>Message_Size\<close> how long messages become in them. \<open>Serialization\<close> is common/serialization.cpp: stores and regions as fields.
  \<^item> \<open>Pd_Metadata\<close> and \<open>Pd_Server\<close> are pd/metadata_store.cpp, pd_server.cpp and scheduler.cpp: the
    catalog, its file, and the changes to it. \<open>Rpc_Service\<close> and \<open>Pd_Service\<close> are pd_service.cpp: the
    catalog over RPC.
  \<^item> \<open>Single_Region\<close> is store/single_region_cluster.cpp: one region whose peers live in one process.
    \<open>Single_Region_Map\<close> and \<open>Single_Region_Peers\<close> hold its properties. \<open>Multi_Region\<close> is
    multi_region_cluster.cpp: a cluster per region, with splits; \<open>Multi_Region_Map\<close> its refinement.
  \<^item> \<open>Gateway_Server\<close> is gateway/route_cache.cpp, gateway_server.cpp and client/rstone_client.cpp: the
    embedded gateway and the client library.
  \<^item> \<open>Raft_Messages\<close> and \<open>Distributed_Region\<close> are store/distributed_region_node.cpp: the peer of a
    region in a process of its own, which reaches the others by RPC. \<open>Distributed_Store\<close> is
    distributed_store_node.cpp: the peers of one store. \<open>Store_Service\<close> is store_service.cpp: the RPC
    methods of a store. \<open>Distributed_Replication\<close> has the replication of a log over any network,
    \<open>Distributed_Network\<close> a network of store services that can lose requests and answers,
    \<open>Distributed_Map\<close> and \<open>Distributed_Failures\<close> what the stores do on it.
  \<^item> \<open>Rpc_Gateway\<close> is gateway/rpc_gateway_client.cpp: the gateway process, which asks the placement
    driver and the stores by RPC and retries on stale routes. \<open>Gateway_Service\<close> is gateway_service.cpp:
    its RPC methods. \<open>Gateway_Routing\<close> proves what it does over any backend, \<open>Rpc_Cluster\<close> that the
    services of the placement driver and of a store are such a backend over TCP.
  \<^item> \<open>Cli\<close> is tools/rstone_cli.cpp (under the root of the repository): the command line client.
    \<open>Config\<close> is common/config.cpp: configuration files and roles.
  \<^item> \<open>Status_Json\<close> and \<open>Dashboard_Server\<close> are dashboard/status_json.cpp and dashboard_server.cpp: the
    status page as JSON and the HTTP server around it.
  \<^item> \<open>Server\<close> is main.cpp: the start of each role from its configuration. \<open>Server_Start\<close> has the first
    start on empty disks, \<open>Server_Exits\<close> the demonstration and the start that gives up, \<open>System\<close> the
    processes together, with the command line client in front and restarts in between.

  \<^bold>\<open>How code is modelled.\<close> A class is a record and a method a function on it that returns the status
  and the new object; \<open>Status + 'a\<close> is a status with an output parameter that is set when it is ok.
  Identifiers, terms and indices are 64-bit words. \<open>option\<close> around a result marks code that can
  throw or read outside of a container: \<open>None\<close> is that event. Files are their contents, and every
  file operation takes its outcome from a tape in the state, so an empty tape is a healthy disk
  and any failure can be placed anywhere. Methods that hold a mutex from start to end are
  functions, so calls are atomic; the code without a lock (the distributed store, the gateway
  process) is modelled as if its calls came one after the other. The network is an argument: a
  function from an endpoint, a request and the state of the rest of the world to the answer and
  the new state. In \<open>System\<close> it is given by the process that listens at each endpoint and the kernel
  behind each connection (\<open>wires\<close>), and every call is a \<open>TcpRpcClient_Call\<close> with its frames; the property
  assumes that the configured endpoints lead to the right processes and that connections do not
  fail, and leaves open how the bytes are cut.

  \<^bold>\<open>What is shown.\<close> The engine recovers its data after a restart, and the Raft storage on it refines
  a log with a hard state. A Raft node grants one vote in a term, keeps a well-formed log and
  takes over the log of a leader; the steps of a node (\<open>raft_step\<close>) are all its public operations,
  \<open>Restore\<close> among them, and restarts of its process with a hard state that is not older than the one
  it had, so that successive elections have increasing terms across restarts. The two kinds of
  cluster behave as one map under writes, leader changes, splits and restarts on healthy disks, and
  so does the client through the embedded gateway in front of either of them. So
  does the system of processes, from its first start: what the invocations of the command line
  client print and return is what a map gives, through splits, stale routes and restarts of every
  process (\<open>system_serves_map\<close>, built on the start-up lemmas, the restart of each process from its
  files, and the interpretation of \<open>rpc_backend\<close>). A distributed region is a map too when no message is lost; when messages are lost, a write that
  is acknowledged is on a majority, and a follower that lags behind is brought up to date. The
  catalog routes every key and its epochs tell every change of a region, under all operations of
  the placement driver and restarts from a file that holds the catalog (\<open>pd_step\<close>); on a healthy disk
  every operation leaves such a file, so the catalog survives a restart.
  Commands, messages, fields, frames and files are read back as they were written, configuration
  files among them, and the status page is the JSON document it should be, when the dashboard
  reaches the placement driver and the store over TCP and when it does not. The start of a
  distributed store ends after a bounded number of calls. The lemmas of
  kind \<open>error\<close> and \<open>bounds\<close> place the failures the code does not handle: lost writes that are
  acknowledged, fields that cannot be read back, and numbers that wrap around.

  \<^bold>\<open>Interfaces.\<close> The locales state what a part relies on: \<open>kv_engine\<close> for the engine under the Raft
  storage, \<open>indexed_fields\<close> for lists in field maps, \<open>rpc_service\<close> for method tables, \<open>kv_backend\<close> for
  the cluster behind the embedded gateway, \<open>rpc_backend\<close> for the processes behind the RPC gateway,
  \<open>raft_transport\<close> for the network between stores. Each is interpreted on the definitions of the
  program.

  \<^bold>\<open>Bounds.\<close> Refinement theorems carry a counter of room: the number of operations that keeps the
  64-bit terms and indices, or the ids of the catalog, from wrapping around. In \<open>System\<close> keys, values
  and the host name of the store have at most 1 MiB, for then every message fits in a frame of
  64 MiB (\<open>Message_Size\<close>). Every loop of the
  code is structural or has a measure. Only the JSON reader of the specification has fuel, the
  length of its text, which \<open>weight_le\<close> shows to be enough.

  \<^bold>\<open>Not modelled.\<close> Threads, sockets and their options (the accept loops of tcp_rpc.cpp and
  dashboard_server.cpp start a thread for each connection), the lines of the log, the pauses
  between attempts, the waiting of a process that serves, and memory exhaustion (with it the
  \<open>reserve\<close> of kv_command.cpp for a batch that announces more items than any memory holds). A send to a peer that has closed is
  a failed send; that the signal SIGPIPE, which tcp_rpc.cpp neither blocks nor handles, ends the
  process at that point is outside of the model.
\<close>

end
